(* ===== verification/Prelude.thy ===== *)
theory Prelude
  imports Main "HOL-Library.Word" "HOL-Library.Monad_Syntax"
begin

text \<open>
  What every component of the model shares: the conventions for memory and failure, the status
  codes of the framework, the lemma collections that carry the component proofs, and the parts of
  the C string library (in the C locale) that the sources call.

  Conventions. A pointer is a \<^typ>\<open>nat\<close>, the null pointer is 0. A computation that may go wrong
  returns an option: \<^term>\<open>None\<close> stands for undefined behaviour of the C code (a null pointer
  dereference, an access out of bounds, a use after free) or, for the loops defined by
  \<^theory_text>\<open>partial_function\<close>, for a loop that does not end. A theorem that such a computation
  equals \<^term>\<open>Some\<close> of a value therefore states that the code neither crashes nor hangs.
  Error returns of the code are ordinary values of the type of status codes below.
\<close>

named_theorems heap_defs \<open>definitions of the memory accesses of a component\<close>
named_theorems frame_simps \<open>an update outside a data structure does not change it\<close>

type_synonym ptr = nat

abbreviation NULL :: ptr where
  "NULL \<equiv> 0"

section \<open>Status codes (agc_types.h)\<close>

datatype agc_status =
    AGC_STATUS_SUCCESS | AGC_STATUS_FALSE | AGC_STATUS_TIMEOUT | AGC_STATUS_RESTART
  | AGC_STATUS_INTR | AGC_STATUS_NOTIMPL | AGC_STATUS_MEMERR | AGC_STATUS_NOOP
  | AGC_STATUS_RESAMPLE | AGC_STATUS_GENERR | AGC_STATUS_INUSE | AGC_STATUS_BREAK
  | AGC_STATUS_SOCKERR | AGC_STATUS_MORE_DATA | AGC_STATUS_NOTFOUND | AGC_STATUS_UNLOAD
  | AGC_STATUS_NOUNLOAD | AGC_STATUS_IGNORE | AGC_STATUS_TOO_SMALL | AGC_STATUS_FOUND
  | AGC_STATUS_CONTINUE | AGC_STATUS_TERM | AGC_STATUS_NOT_INITALIZED | AGC_STATUS_TOO_LATE
  | AGC_STATUS_XBREAK | AGC_STATUS_SIGAPI_INPUT_ERROR | AGC_STATUS_WINBREAK

section \<open>Failure\<close>

definition ensure :: "bool \<Rightarrow> unit option" where
  "ensure b = (if b then Some () else None)"

lemma ensure_True [simp]: "ensure True = Some ()"
  by (simp add: ensure_def)

lemma ensure_False [simp]: "ensure False = None"
  by (simp add: ensure_def)

lemma ensure_eq_Some [simp]: "ensure b = Some u \<longleftrightarrow> b"
  by (simp add: ensure_def)

lemma bind_if_Some:
  "Option.bind (if b then Some x else Some y) f = f (if b then x else y)"
  by simp

section \<open>Characters and C strings\<close>

text \<open>
  A C string is modelled by the list of its characters before the terminating NUL. Where the code
  works on the bytes of a buffer (and the terminator matters), the component says so.
\<close>

definition ascii_lower :: "char \<Rightarrow> char" where
  "ascii_lower c = (let n = (of_char c :: nat) in
     if 65 \<le> n \<and> n \<le> 90 then char_of (n + 32) else c)"

text \<open>\<open>strcasecmp (s, t) == 0\<close>.\<close>

definition strcaseeq :: "string \<Rightarrow> string \<Rightarrow> bool" where
  "strcaseeq s t \<longleftrightarrow> map ascii_lower s = map ascii_lower t"

lemma strcaseeq_refl [simp]: "strcaseeq s s"
  by (simp add: strcaseeq_def)

lemma strcaseeq_sym: "strcaseeq s t \<Longrightarrow> strcaseeq t s"
  by (simp add: strcaseeq_def)

lemma strcaseeq_commute: "strcaseeq s t = strcaseeq t s"
  by (auto simp: strcaseeq_def)

lemma strcaseeq_trans: "strcaseeq s t \<Longrightarrow> strcaseeq t u \<Longrightarrow> strcaseeq s u"
  by (simp add: strcaseeq_def)

lemma strcaseeq_cong: "strcaseeq s t \<Longrightarrow> strcaseeq s u = strcaseeq t u"
  by (simp add: strcaseeq_def)

abbreviation NUL :: char where
  "NUL \<equiv> CHR 0x00"

text \<open>The C string at a position of a buffer.\<close>

definition cstr :: "string \<Rightarrow> nat \<Rightarrow> string" where
  "cstr buf p = takeWhile (\<lambda>c. c \<noteq> NUL) (drop p buf)"

definition is_digit :: "char \<Rightarrow> bool" where
  "is_digit c \<longleftrightarrow> 48 \<le> (of_char c :: nat) \<and> (of_char c :: nat) \<le> 57"

definition digit_val :: "char \<Rightarrow> nat" where
  "digit_val c = of_char c - 48"

definition digit_char :: "nat \<Rightarrow> char" where
  "digit_char d = char_of (48 + d)"

lemma of_char_digit [simp]: "d < 10 \<Longrightarrow> (of_char (digit_char d) :: nat) = 48 + d"
  by (simp add: digit_char_def)

lemma is_digit_digit_char [simp]: "d < 10 \<Longrightarrow> is_digit (digit_char d)"
  by (simp add: is_digit_def)

lemma digit_val_digit_char [simp]: "d < 10 \<Longrightarrow> digit_val (digit_char d) = d"
  by (simp add: digit_val_def)

text \<open>\<open>printf\<close> of a non-negative number in decimal (\<open>%u\<close>), and of a signed one (\<open>%d\<close>).\<close>

fun dec_nat :: "nat \<Rightarrow> string" where
  "dec_nat n = (if n < 10 then [digit_char n] else dec_nat (n div 10) @ [digit_char (n mod 10)])"

declare dec_nat.simps [simp del]

definition dec_int :: "int \<Rightarrow> string" where
  "dec_int i = (if i < 0 then CHR ''-'' # dec_nat (nat (- i)) else dec_nat (nat i))"

text \<open>
  \<open>strtol\<close> in base 10 as the C library defines it: leading white space, an optional sign, the
  longest run of digits; a value outside the 64-bit \<open>long\<close> saturates. \<open>atol\<close> is that value and
  \<open>atoi\<close> its conversion to a 32-bit \<open>int\<close>.
\<close>

definition is_space :: "char \<Rightarrow> bool" where
  "is_space c \<longleftrightarrow> of_char c = (32::nat) \<or> (9 \<le> (of_char c :: nat) \<and> (of_char c :: nat) \<le> 13)"

definition digits_val :: "string \<Rightarrow> nat" where
  "digits_val ds = foldl (\<lambda>v d. 10 * v + digit_val d) 0 ds"

definition atol :: "string \<Rightarrow> int" where
  "atol s = (let r = dropWhile is_space s;
       neg = (case r of [] \<Rightarrow> False | c # _ \<Rightarrow> c = CHR ''-'');
       r' = (case r of [] \<Rightarrow> [] | c # cs \<Rightarrow> if c = CHR ''-'' \<or> c = CHR ''+'' then cs else r);
       v = int (digits_val (takeWhile is_digit r'))
     in max (- (2 ^ 63)) (min (2 ^ 63 - 1) (if neg then - v else v)))"

definition atoi :: "string \<Rightarrow> int" where
  "atoi s = sint (word_of_int (atol s) :: 32 word)"

lemma dec_nat_not_Nil [simp]: "dec_nat n \<noteq> []"
  by (subst dec_nat.simps) simp

lemma dec_nat_digits: "c \<in> set (dec_nat n) \<Longrightarrow> is_digit c"
proof (induction n rule: dec_nat.induct)
  case (1 n)
  from "1.prems" have "c \<in> set (if n < 10 then [digit_char n]
      else dec_nat (n div 10) @ [digit_char (n mod 10)])"
    by (subst (asm) dec_nat.simps)
  with "1.IH" show ?case by (auto split: if_splits)
qed

lemma digits_val_snoc: "digits_val (ds @ [d]) = 10 * digits_val ds + digit_val d"
  by (simp add: digits_val_def)

lemma dec_nat_hd: "n \<noteq> 0 \<Longrightarrow> hd (dec_nat n) \<noteq> CHR ''0''"
proof (induction n rule: dec_nat.induct)
  case (1 n)
  have z: "digit_char d \<noteq> CHR ''0''" if "d \<noteq> 0" "d < 10" for d
    using of_char_digit [OF that(2)] that(1) by auto
  show ?case
  proof (cases "n < 10")
    case True
    then show ?thesis using z 1(2) by (subst dec_nat.simps) simp
  next
    case False
    then have "n div 10 \<noteq> 0" by simp
    then show ?thesis using 1(1) False by (subst dec_nat.simps) (simp add: hd_append)
  qed
qed

lemma digits_val_dec_nat: "digits_val (dec_nat n) = n"
proof (induction n rule: dec_nat.induct)
  case (1 n)
  show ?case
  proof (cases "n < 10")
    case True
    then show ?thesis by (subst dec_nat.simps) (simp add: digits_val_def)
  next
    case False
    with "1.IH" have "digits_val (dec_nat (n div 10)) = n div 10" by simp
    with False show ?thesis by (subst dec_nat.simps) (simp add: digits_val_snoc)
  qed
qed

lemma is_digit_not_space: "is_digit c \<Longrightarrow> \<not> is_space c"
  by (auto simp: is_digit_def is_space_def)

lemma is_digit_not_sign: "is_digit c \<Longrightarrow> c \<noteq> CHR ''-'' \<and> c \<noteq> CHR ''+''"
  by (auto simp: is_digit_def)

text \<open>Printing a number that fits and reading it back gives the number.\<close>

lemma atol_dec_nat:
  assumes "n < 2 ^ 63"
  shows "atol (dec_nat n) = int n"
proof -
  obtain c cs where s: "dec_nat n = c # cs"
    by (cases "dec_nat n") auto
  have all: "\<forall>x\<in>set (c # cs). is_digit x"
    using dec_nat_digits [of _ n] s by auto
  then have c: "is_digit c" by simp
  have dw: "dropWhile is_space (dec_nat n) = dec_nat n"
    using is_digit_not_space [OF c] s by simp
  have tw: "takeWhile is_digit (dec_nat n) = dec_nat n"
    using all s by (simp only: takeWhile_eq_all_conv)
  have r1: "(case dec_nat n of [] \<Rightarrow> False | c # _ \<Rightarrow> c = CHR ''-'') = False"
    using s is_digit_not_sign [OF c] by simp
  have r2: "(case dec_nat n of [] \<Rightarrow> []
      | c # cs \<Rightarrow> if c = CHR ''-'' \<or> c = CHR ''+'' then cs else dec_nat n) = dec_nat n"
    using s is_digit_not_sign [OF c] by simp
  show ?thesis
    by (simp only: atol_def Let_def dw r1 r2 tw digits_val_dec_nat) (use assms in simp)
qed

lemma atoi_dec_nat:
  assumes "n < 2 ^ 31"
  shows "atoi (dec_nat n) = int n"
proof -
  have "atol (dec_nat n) = int n" using assms by (intro atol_dec_nat) simp
  with assms show ?thesis
    by (simp add: atoi_def signed_take_bit_int_eq_self sint_sbintrunc' del: of_int_of_nat_eq)
qed

section \<open>Lists\<close>

lemma filter_eq_self: "(\<And>x. x \<in> set xs \<Longrightarrow> P x) \<Longrightarrow> List.filter P xs = xs"
  by (simp add: filter_id_conv)

lemma distinct_map_fst_unique:
  "distinct (map f xs) \<Longrightarrow> x \<in> set xs \<Longrightarrow> y \<in> set xs \<Longrightarrow> f x = f y \<Longrightarrow> x = y"
  by (auto simp: distinct_map inj_on_def)

end
