(* ===== verification/Rb_Heap.thy ===== *)
theory Rb_Heap
  imports Prelude
begin

text \<open>
  The red-black tree of \<open>src/agc_rbtree.c\<close> as it stands in memory: nodes with left, right and
  parent pointers and a colour, one shared sentinel instead of null leaves, and the operations of
  the file written access by access. The second half relates a memory to the functional tree
  (\<open>rbt\<close>) it holds: \<open>rep T q C t\<close> says that the memory holds the subtree \<open>t\<close> in the
  context \<open>C\<close>, a list of frames from the hole up to the root. The root's parent field (\<open>q\<close>)
  is arbitrary: \<open>agc_rbtree_delete\<close> leaves a stale pointer there, and no operation reads it.
\<close>

section \<open>Nodes and trees in memory\<close>

type_synonym key = "64 word"

record rbnode =
  rb_key :: key
  rb_left :: ptr
  rb_right :: ptr
  rb_parent :: ptr
  rb_red :: bool

text \<open>The field \<open>insert\<close> of \<open>agc_rbtree_s\<close> is a function pointer; these are its values.\<close>

datatype insert_func = Fn_insert_value | Fn_insert_timer_value

record rbtree =
  rb_mem :: "ptr \<Rightarrow> rbnode option"
  rb_root :: ptr
  rb_sentinel :: ptr
  rb_insert :: insert_func

definition rb_node :: "rbtree \<Rightarrow> ptr \<Rightarrow> rbnode option" where
  [heap_defs]: "rb_node T p = (if p = NULL then None else rb_mem T p)"

definition rb_store :: "rbtree \<Rightarrow> ptr \<Rightarrow> (rbnode \<Rightarrow> rbnode) \<Rightarrow> rbtree option" where
  [heap_defs]: "rb_store T p f =
     (case rb_node T p of None \<Rightarrow> None | Some n \<Rightarrow> Some (T\<lparr>rb_mem := (rb_mem T)(p \<mapsto> f n)\<rparr>))"

definition get_key :: "rbtree \<Rightarrow> ptr \<Rightarrow> key option" where
  [heap_defs]: "get_key T p = map_option rb_key (rb_node T p)"

definition get_left :: "rbtree \<Rightarrow> ptr \<Rightarrow> ptr option" where
  [heap_defs]: "get_left T p = map_option rb_left (rb_node T p)"

definition get_right :: "rbtree \<Rightarrow> ptr \<Rightarrow> ptr option" where
  [heap_defs]: "get_right T p = map_option rb_right (rb_node T p)"

definition get_parent :: "rbtree \<Rightarrow> ptr \<Rightarrow> ptr option" where
  [heap_defs]: "get_parent T p = map_option rb_parent (rb_node T p)"

definition agc_rbt_is_red :: "rbtree \<Rightarrow> ptr \<Rightarrow> bool option" where
  [heap_defs]: "agc_rbt_is_red T p = map_option rb_red (rb_node T p)"

definition set_key :: "rbtree \<Rightarrow> ptr \<Rightarrow> key \<Rightarrow> rbtree option" where
  [heap_defs]: "set_key T p k = rb_store T p (\<lambda>n. n\<lparr>rb_key := k\<rparr>)"

definition set_left :: "rbtree \<Rightarrow> ptr \<Rightarrow> ptr \<Rightarrow> rbtree option" where
  [heap_defs]: "set_left T p v = rb_store T p (\<lambda>n. n\<lparr>rb_left := v\<rparr>)"

definition set_right :: "rbtree \<Rightarrow> ptr \<Rightarrow> ptr \<Rightarrow> rbtree option" where
  [heap_defs]: "set_right T p v = rb_store T p (\<lambda>n. n\<lparr>rb_right := v\<rparr>)"

definition set_parent :: "rbtree \<Rightarrow> ptr \<Rightarrow> ptr \<Rightarrow> rbtree option" where
  [heap_defs]: "set_parent T p v = rb_store T p (\<lambda>n. n\<lparr>rb_parent := v\<rparr>)"

definition agc_rbt_red :: "rbtree \<Rightarrow> ptr \<Rightarrow> rbtree option" where
  [heap_defs]: "agc_rbt_red T p = rb_store T p (\<lambda>n. n\<lparr>rb_red := True\<rparr>)"

definition agc_rbt_black :: "rbtree \<Rightarrow> ptr \<Rightarrow> rbtree option" where
  [heap_defs]: "agc_rbt_black T p = rb_store T p (\<lambda>n. n\<lparr>rb_red := False\<rparr>)"

definition agc_rbt_copy_color :: "rbtree \<Rightarrow> ptr \<Rightarrow> ptr \<Rightarrow> rbtree option" where
  [heap_defs]: "agc_rbt_copy_color T p1 p2 = do {
     c \<leftarrow> agc_rbt_is_red T p2;
     rb_store T p1 (\<lambda>n. n\<lparr>rb_red := c\<rparr>) }"

text \<open>\<open>agc_rbtree_init (tree, s, i)\<close>: the macro blackens the sentinel and sets the three fields.\<close>

definition agc_rbtree_init :: "rbtree \<Rightarrow> ptr \<Rightarrow> insert_func \<Rightarrow> rbtree option" where
  "agc_rbtree_init T s i = do {
     T \<leftarrow> agc_rbt_black T s;
     Some (T\<lparr>rb_root := s, rb_sentinel := s, rb_insert := i\<rparr>) }"

section \<open>Rotations\<close>

text \<open>
  Both rotations and the deletion hang a node \<open>temp\<close> where \<open>node\<close> hung, at the root or below
  the parent of \<open>node\<close>; the right rotation asks for the right child first.
\<close>

definition relink_left :: "rbtree \<Rightarrow> ptr \<Rightarrow> ptr \<Rightarrow> rbtree option" where
  "relink_left T node temp =
     (if node = rb_root T then Some (T\<lparr>rb_root := temp\<rparr>)
      else do {
        np \<leftarrow> get_parent T node;
        npl \<leftarrow> get_left T np;
        if node = npl then set_left T np temp else set_right T np temp })"

definition relink_right :: "rbtree \<Rightarrow> ptr \<Rightarrow> ptr \<Rightarrow> rbtree option" where
  "relink_right T node temp =
     (if node = rb_root T then Some (T\<lparr>rb_root := temp\<rparr>)
      else do {
        np \<leftarrow> get_parent T node;
        npr \<leftarrow> get_right T np;
        if node = npr then set_right T np temp else set_left T np temp })"

definition agc_rbtree_left_rotate :: "rbtree \<Rightarrow> ptr \<Rightarrow> rbtree option" where
  "agc_rbtree_left_rotate T node = do {
     temp \<leftarrow> get_right T node;
     tl \<leftarrow> get_left T temp;
     T \<leftarrow> set_right T node tl;
     tl \<leftarrow> get_left T temp;
     T \<leftarrow> (if tl \<noteq> rb_sentinel T then set_parent T tl node else Some T);
     np \<leftarrow> get_parent T node;
     T \<leftarrow> set_parent T temp np;
     T \<leftarrow> relink_left T node temp;
     T \<leftarrow> set_left T temp node;
     set_parent T node temp }"

definition agc_rbtree_right_rotate :: "rbtree \<Rightarrow> ptr \<Rightarrow> rbtree option" where
  "agc_rbtree_right_rotate T node = do {
     temp \<leftarrow> get_left T node;
     tr \<leftarrow> get_right T temp;
     T \<leftarrow> set_left T node tr;
     tr \<leftarrow> get_right T temp;
     T \<leftarrow> (if tr \<noteq> rb_sentinel T then set_parent T tr node else Some T);
     np \<leftarrow> get_parent T node;
     T \<leftarrow> set_parent T temp np;
     T \<leftarrow> relink_right T node temp;
     T \<leftarrow> set_right T temp node;
     set_parent T node temp }"

section \<open>Walking the tree\<close>

partial_function (option) agc_rbtree_min :: "rbtree \<Rightarrow> ptr \<Rightarrow> ptr option" where
  "agc_rbtree_min T node = do {
     l \<leftarrow> get_left T node;
     if l \<noteq> rb_sentinel T then agc_rbtree_min T l else Some node }"

text \<open>The upward walk of \<open>agc_rbtree_next\<close>; its result 0 is the null pointer the code returns.\<close>

partial_function (option) next_up :: "rbtree \<Rightarrow> ptr \<Rightarrow> ptr option" where
  "next_up T node = do {
     parent \<leftarrow> get_parent T node;
     if node = rb_root T then Some NULL
     else do {
       pl \<leftarrow> get_left T parent;
       if node = pl then Some parent else next_up T parent } }"

definition agc_rbtree_next :: "rbtree \<Rightarrow> ptr \<Rightarrow> ptr option" where
  "agc_rbtree_next T node = do {
     r \<leftarrow> get_right T node;
     if r \<noteq> rb_sentinel T then agc_rbtree_min T r else next_up T node }"

section \<open>Functional trees, contexts, and the memory that holds them\<close>

datatype rbt = Lf | Nd rbt ptr key bool rbt

text \<open>\<open>FL a k c r\<close>: the hole is the left child of node \<open>a\<close> with right subtree \<open>r\<close>; \<open>FR\<close>: the right child.\<close>

datatype frame = FL ptr key bool rbt | FR rbt ptr key bool

fun rp :: "ptr \<Rightarrow> rbt \<Rightarrow> ptr" where
  "rp s Lf = s"
| "rp s (Nd l a k c r) = a"

fun addrs :: "rbt \<Rightarrow> ptr list" where
  "addrs Lf = []"
| "addrs (Nd l a k c r) = addrs l @ a # addrs r"

fun faddrs :: "frame \<Rightarrow> ptr list" where
  "faddrs (FL a k c r) = a # addrs r"
| "faddrs (FR l a k c) = addrs l @ [a]"

definition caddrs :: "frame list \<Rightarrow> ptr list" where
  "caddrs C = concat (map faddrs C)"

lemma caddrs_simps [simp]:
  "caddrs [] = []" "caddrs (f # C) = faddrs f @ caddrs C" "caddrs (C @ D) = caddrs C @ caddrs D"
  by (simp_all add: caddrs_def)

fun cpar :: "ptr \<Rightarrow> frame list \<Rightarrow> ptr" where
  "cpar q [] = q"
| "cpar q (FL a k c r # C) = a"
| "cpar q (FR l a k c # C) = a"

fun plug1 :: "frame \<Rightarrow> rbt \<Rightarrow> rbt" where
  "plug1 (FL a k c r) t = Nd t a k c r"
| "plug1 (FR l a k c) t = Nd l a k c t"

fun plug :: "frame list \<Rightarrow> rbt \<Rightarrow> rbt" where
  "plug [] t = t"
| "plug (f # C) t = plug C (plug1 f t)"

fun shape :: "(ptr \<Rightarrow> rbnode option) \<Rightarrow> ptr \<Rightarrow> ptr \<Rightarrow> rbt \<Rightarrow> bool" where
  "shape h s par Lf \<longleftrightarrow> True"
| "shape h s par (Nd l a k c r) \<longleftrightarrow> a \<noteq> NULL \<and> a \<noteq> s \<and>
     h a = Some \<lparr>rb_key = k, rb_left = rp s l, rb_right = rp s r, rb_parent = par, rb_red = c\<rparr> \<and>
     shape h s a l \<and> shape h s a r"

fun cshape :: "(ptr \<Rightarrow> rbnode option) \<Rightarrow> ptr \<Rightarrow> ptr \<Rightarrow> ptr \<Rightarrow> ptr \<Rightarrow> frame list \<Rightarrow> bool" where
  "cshape h s q e p [] \<longleftrightarrow> p = e"
| "cshape h s q e p (FL a k c r # C) \<longleftrightarrow> a \<noteq> NULL \<and> a \<noteq> s \<and>
     h a = Some \<lparr>rb_key = k, rb_left = p, rb_right = rp s r, rb_parent = cpar q C, rb_red = c\<rparr> \<and>
     shape h s a r \<and> cshape h s q e a C"
| "cshape h s q e p (FR l a k c # C) \<longleftrightarrow> a \<noteq> NULL \<and> a \<noteq> s \<and>
     h a = Some \<lparr>rb_key = k, rb_left = rp s l, rb_right = p, rb_parent = cpar q C, rb_red = c\<rparr> \<and>
     shape h s a l \<and> cshape h s q e a C"

definition rep :: "rbtree \<Rightarrow> ptr \<Rightarrow> frame list \<Rightarrow> rbt \<Rightarrow> bool" where
  "rep T q C t \<longleftrightarrow>
     shape (rb_mem T) (rb_sentinel T) (cpar q C) t \<and>
     cshape (rb_mem T) (rb_sentinel T) q (rb_root T) (rp (rb_sentinel T) t) C \<and>
     distinct (addrs t @ caddrs C) \<and> rb_sentinel T \<noteq> NULL \<and>
     (\<exists>sn. rb_mem T (rb_sentinel T) = Some sn \<and> \<not> rb_red sn)"

subsection \<open>Frame lemmas\<close>

lemma shape_frame [frame_simps]:
  "x \<notin> set (addrs t) \<Longrightarrow> shape (h(x := v)) s par t = shape h s par t"
  by (induction t arbitrary: par) auto

lemma cshape_frame [frame_simps]:
  "x \<notin> set (caddrs C) \<Longrightarrow> cshape (h(x := v)) s q e p C = cshape h s q e p C"
  by (induction h s q e p C rule: cshape.induct) (auto simp: shape_frame)

lemma shape_addrs: "shape h s par t \<Longrightarrow> NULL \<notin> set (addrs t) \<and> s \<notin> set (addrs t)"
  by (induction t arbitrary: par) auto

lemma cshape_addrs: "cshape h s q e p C \<Longrightarrow> NULL \<notin> set (caddrs C) \<and> s \<notin> set (caddrs C)"
  by (induction h s q e p C rule: cshape.induct) (auto dest: shape_addrs)

lemma shape_cong: "(\<And>x. x \<in> set (addrs t) \<Longrightarrow> h' x = h x) \<Longrightarrow> shape h' s par t = shape h s par t"
  by (induction t arbitrary: par) auto

lemma cshape_cong:
  "(\<And>x. x \<in> set (caddrs C) \<Longrightarrow> h' x = h x) \<Longrightarrow> cshape h' s q e p C = cshape h s q e p C"
  by (induction h s q e p C rule: cshape.induct) (auto simp: shape_cong [of _ h'])

lemma cshape_root: "cshape h s q e p C \<Longrightarrow> C \<noteq> [] \<Longrightarrow> e \<in> set (caddrs C)"
proof (induction h s q e p C rule: cshape.induct)
  case (2 h s q e p a k c r C)
  then show ?case by (cases C) auto
next
  case (3 h s q e p l a k c C)
  then show ?case by (cases C) auto
qed simp

lemma cshape_not_root: "cshape h s q e p C \<Longrightarrow> C \<noteq> [] \<Longrightarrow> x \<notin> set (caddrs C) \<Longrightarrow> x \<noteq> e"
  using cshape_root by metis

text \<open>Moving the focus does not change what the memory holds.\<close>

lemma rep_plug1: "rep T q (f # C) t \<longleftrightarrow> rep T q C (plug1 f t)"
  by (cases f) (auto simp: rep_def)

lemma rep_plug: "rep T q C t \<longleftrightarrow> rep T q [] (plug C t)"
  by (induction C arbitrary: t) (simp_all add: rep_plug1)

lemma rep_down_left: "rep T q C (Nd l a k c r) \<Longrightarrow> rep T q (FL a k c r # C) l"
  by (simp add: rep_plug1)

lemma rep_down_right: "rep T q C (Nd l a k c r) \<Longrightarrow> rep T q (FR l a k c # C) r"
  by (simp add: rep_plug1)

subsection \<open>Relinking a child\<close>

text \<open>\<open>upd_only T T' A\<close>: the step from \<open>T\<close> to \<open>T'\<close> changed no node outside \<open>A\<close>.\<close>

definition upd_only :: "rbtree \<Rightarrow> rbtree \<Rightarrow> ptr set \<Rightarrow> bool" where
  "upd_only T T' A \<longleftrightarrow> rb_sentinel T' = rb_sentinel T \<and> rb_insert T' = rb_insert T \<and>
     (\<forall>x. x \<notin> A \<longrightarrow> rb_mem T' x = rb_mem T x)"

lemma upd_only_refl [simp, intro]: "upd_only T T A"
  by (simp add: upd_only_def)

lemma upd_only_trans: "upd_only T T' A \<Longrightarrow> upd_only T' T'' A \<Longrightarrow> upd_only T T'' A"
  by (simp add: upd_only_def)

lemma upd_only_mono: "upd_only T T' A \<Longrightarrow> A \<subseteq> B \<Longrightarrow> upd_only T T' B"
  by (auto simp: upd_only_def)

lemma relink_left_ok:
  assumes cs: "cshape (rb_mem T) (rb_sentinel T) q (rb_root T) n C"
    and nd: "n \<noteq> NULL" "n \<noteq> rb_sentinel T" "rb_mem T n = Some nn" "rb_parent nn = cpar q C"
    and di: "n \<notin> set (caddrs C)" "distinct (caddrs C)"
  shows "\<exists>T'. relink_left T n m = Some T' \<and> upd_only T T' (set (caddrs C)) \<and>
     cshape (rb_mem T') (rb_sentinel T) q (rb_root T') m C"
proof (cases C)
  case Nil
  with cs show ?thesis by (auto simp: relink_left_def upd_only_def)
next
  case (Cons f D)
  have nr: "n \<noteq> rb_root T"
    using cshape_not_root [OF cs] Cons di by simp
  show ?thesis
  proof (cases f)
    case (FL a k c r)
    then show ?thesis
      using cs nd di nr Cons
      by (auto simp: relink_left_def heap_defs upd_only_def frame_simps)
  next
    case (FR l a k c)
    then have "rp (rb_sentinel T) l \<noteq> n"
      using cs di Cons nd
      by (cases l) (auto simp: heap_defs)
    then show ?thesis
      using cs nd di nr Cons FR
      by (auto simp: relink_left_def heap_defs upd_only_def frame_simps)
  qed
qed

subsection \<open>Rotations on trees in memory\<close>

lemma rep_distinct: "rep T q C t \<Longrightarrow> distinct (addrs t @ caddrs C)"
  by (simp add: rep_def)

lemma upd_only_mem: "upd_only T T' A \<Longrightarrow> x \<notin> A \<Longrightarrow> rb_mem T' x = rb_mem T x"
  by (simp add: upd_only_def)

lemma upd_only_sentinel: "upd_only T T' A \<Longrightarrow> rb_sentinel T' = rb_sentinel T"
  by (simp add: upd_only_def)

lemma upd_only_shape:
  "upd_only T T' A \<Longrightarrow> set (addrs t) \<inter> A = {} \<Longrightarrow>
     shape (rb_mem T') s par t = shape (rb_mem T) s par t"
  by (rule shape_cong) (auto simp: upd_only_def)

lemma upd_only_cshape:
  "upd_only T T' A \<Longrightarrow> set (caddrs C) \<inter> A = {} \<Longrightarrow>
     cshape (rb_mem T') s q e p C = cshape (rb_mem T) s q e p C"
  by (rule cshape_cong) (auto simp: upd_only_def)

lemma reparent_ok:
  assumes "shape (rb_mem T) s par t" "distinct (addrs t)" "s = rb_sentinel T"
  shows "\<exists>T'. (if rp s t \<noteq> s then set_parent T (rp s t) n else Some T) = Some T' \<and>
     shape (rb_mem T') s n t \<and> upd_only T T' (set (addrs t)) \<and> rb_root T' = rb_root T"
  using assms by (cases t) (auto simp: heap_defs upd_only_def frame_simps)

lemma left_rotate_rep:
  assumes R: "rep T q C (Nd l n k c (Nd rl m km cm rr))"
  shows "\<exists>T'. agc_rbtree_left_rotate T n = Some T' \<and> rep T' q C (Nd (Nd l n k c rl) m km cm rr) \<and>
     upd_only T T' (set (addrs (Nd l n k c (Nd rl m km cm rr))) \<union> set (caddrs C))"
proof -
  let ?s = "rb_sentinel T"
  have st: "n \<noteq> NULL" "m \<noteq> NULL" "n \<noteq> ?s" "m \<noteq> ?s" "?s \<noteq> NULL"
    "rb_mem T n = Some \<lparr>rb_key = k, rb_left = rp ?s l, rb_right = m, rb_parent = cpar q C, rb_red = c\<rparr>"
    "rb_mem T m = Some \<lparr>rb_key = km, rb_left = rp ?s rl, rb_right = rp ?s rr, rb_parent = n, rb_red = cm\<rparr>"
    "shape (rb_mem T) ?s n l" "shape (rb_mem T) ?s m rl" "shape (rb_mem T) ?s m rr"
    "cshape (rb_mem T) ?s q (rb_root T) n C"
    using R by (simp_all add: rep_def)
  obtain sn where sn: "rb_mem T ?s = Some sn" "\<not> rb_red sn"
    using R by (auto simp: rep_def)
  have di: "distinct (addrs l @ addrs rl @ addrs rr @ n # m # caddrs C)"
    using R by (auto simp: rep_def)
  have ss: "?s \<notin> set (addrs rl)" "?s \<notin> set (caddrs C)"
    using shape_addrs [OF st(9)] cshape_addrs [OF st(11)] by auto
  define T1 where "T1 = T\<lparr>rb_mem := (rb_mem T)(n \<mapsto> \<lparr>rb_key = k, rb_left = rp ?s l, rb_right = rp ?s rl, rb_parent = cpar q C, rb_red = c\<rparr>)\<rparr>"
  have f1: "rb_sentinel T1 = ?s" "rb_root T1 = rb_root T" "upd_only T T1 {n}"
    by (simp_all add: T1_def upd_only_def)
  have s1: "shape (rb_mem T1) ?s m rl"
    using st di by (simp add: T1_def frame_simps)
  have dm: "distinct (addrs rl)" using di by simp
  obtain T2 where T2: "(if rp ?s rl \<noteq> ?s then set_parent T1 (rp ?s rl) n else Some T1) = Some T2"
    "shape (rb_mem T2) ?s n rl" "upd_only T1 T2 (set (addrs rl))" "rb_root T2 = rb_root T1"
    using reparent_ok [OF s1 dm f1(1) [symmetric], of n] by blast
  have m2: "x \<notin> insert n (set (addrs rl)) \<Longrightarrow> rb_mem T2 x = rb_mem T x" for x
    using T2(3) f1(3) by (auto simp: upd_only_def)
  have n2: "rb_mem T2 n = rb_mem T1 n"
    using T2(3) di by (auto simp: upd_only_def)
  define T3 where "T3 = T2\<lparr>rb_mem := (rb_mem T2)(m \<mapsto> \<lparr>rb_key = km, rb_left = rp ?s rl, rb_right = rp ?s rr, rb_parent = cpar q C, rb_red = cm\<rparr>)\<rparr>"
  have s3: "rb_sentinel T2 = ?s" "rb_sentinel T3 = ?s" "rb_root T3 = rb_root T" "rb_root T2 = rb_root T"
    using T2 f1 by (simp_all add: T3_def upd_only_def)
  have m3: "x \<notin> {n, m} \<union> set (addrs rl) \<Longrightarrow> rb_mem T3 x = rb_mem T x" for x
    by (simp add: T3_def m2)
  have n3: "rb_mem T3 n = Some \<lparr>rb_key = k, rb_left = rp ?s l, rb_right = rp ?s rl, rb_parent = cpar q C, rb_red = c\<rparr>"
    using di n2 by (simp add: T3_def T1_def)
  have c3: "cshape (rb_mem T3) ?s q (rb_root T3) n C"
  proof -
    have "rb_mem T3 x = rb_mem T x" if "x \<in> set (caddrs C)" for x
      using di that by (intro m3) auto
    then show ?thesis using st(11) by (subst cshape_cong [of C _ "rb_mem T"]) (auto simp: s3)
  qed
  obtain T4 where T4: "relink_left T3 n m = Some T4" "upd_only T3 T4 (set (caddrs C))"
    "cshape (rb_mem T4) ?s q (rb_root T4) m C"
    using relink_left_ok [of T3 q n C _ m] c3 n3 st di s3 by auto
  have m4: "x \<notin> set (caddrs C) \<Longrightarrow> rb_mem T4 x = rb_mem T3 x" for x
    using T4(2) by (simp add: upd_only_def)
  have s4: "rb_sentinel T4 = ?s"
    using T4(2) s3 by (simp add: upd_only_def)
  define T5 where "T5 = T4\<lparr>rb_mem := (rb_mem T4)(m \<mapsto> \<lparr>rb_key = km, rb_left = n, rb_right = rp ?s rr, rb_parent = cpar q C, rb_red = cm\<rparr>,
      n \<mapsto> \<lparr>rb_key = k, rb_left = rp ?s l, rb_right = rp ?s rl, rb_parent = m, rb_red = c\<rparr>)\<rparr>"
  have m5: "x \<notin> {n, m} \<union> set (addrs rl) \<union> set (caddrs C) \<Longrightarrow> rb_mem T5 x = rb_mem T x" for x
    by (simp add: T5_def m4 m3)
  have mm: "rb_mem T2 m = rb_mem T m" "rb_mem T3 m = Some \<lparr>rb_key = km, rb_left = rp ?s rl, rb_right = rp ?s rr, rb_parent = cpar q C, rb_red = cm\<rparr>"
    "rb_mem T4 m = rb_mem T3 m" "rb_mem T4 n = rb_mem T3 n"
    using di by (simp_all add: m2 T3_def m4)
  have ev: "agc_rbtree_left_rotate T n = Some T5"
  proof -
    have a: "get_right T n = Some m" "get_left T m = Some (rp ?s rl)"
      "set_right T n (rp ?s rl) = Some T1" "get_left T1 m = Some (rp ?s rl)"
      using st di by (simp_all add: heap_defs T1_def)
    have b: "get_parent T2 n = Some (cpar q C)" "set_parent T2 m (cpar q C) = Some T3"
      using st di n2 mm by (simp_all add: heap_defs T1_def T3_def)
    have d: "do { T \<leftarrow> set_left T4 m n; set_parent T n m } = Some T5"
      using st di mm n3 by (simp add: heap_defs T5_def)
    show ?thesis
      unfolding agc_rbtree_left_rotate_def by (simp only: a b f1 T2(1) T4(1) d Option.bind.bind_lunit)
  qed
  have sh: "shape (rb_mem T5) ?s n rl"
  proof -
    have "rb_mem T5 x = rb_mem T2 x" if "x \<in> set (addrs rl)" for x
    proof -
      have "x \<noteq> n" "x \<noteq> m" "x \<notin> set (caddrs C)" using di that by auto
      then show ?thesis by (simp add: T5_def m4 T3_def)
    qed
    with T2(2) show ?thesis by (subst shape_cong [of rl _ "rb_mem T2"]) auto
  qed
  have so1: "rb_mem T5 x = rb_mem T x" if "x \<in> set (addrs l) \<union> set (addrs rr)" for x
    using di that by (intro m5) auto
  then have so: "shape (rb_mem T5) ?s n l" "shape (rb_mem T5) ?s m rr"
    using st by (simp_all add: shape_cong [of _ "rb_mem T5" "rb_mem T"])
  have sc: "cshape (rb_mem T5) ?s q (rb_root T5) m C"
    using T4(3) di by (subst cshape_cong [of C _ "rb_mem T4"]) (auto simp: T5_def)
  have t5: "rb_sentinel T5 = ?s" "rb_root T5 = rb_root T4"
    by (simp_all add: T5_def s4)
  have sn5: "rb_mem T5 ?s = Some sn"
    using m5 [of ?s] st ss sn by simp
  have di5: "distinct (addrs (Nd (Nd l n k c rl) m km cm rr) @ caddrs C)"
    using di by auto
  have "shape (rb_mem T5) ?s (cpar q C) (Nd (Nd l n k c rl) m km cm rr)"
    using st(1-5) sh so di by (simp add: T5_def)
  then have "rep T5 q C (Nd (Nd l n k c rl) m km cm rr)"
    unfolding rep_def t5(1) using sc sn5 sn(2) di5 st(5) by simp
  moreover have "upd_only T T5 (set (addrs (Nd l n k c (Nd rl m km cm rr))) \<union> set (caddrs C))"
    using m5 s4 T4(2) T2(3) by (auto simp: upd_only_def T5_def T3_def T1_def)
  ultimately show ?thesis using ev by blast
qed

subsection \<open>Mirror images\<close>

text \<open>
  Every left/right pair of operations is one operation and its mirror image, so each heap proof is
  done once, for the left version, and transferred by the equations below.
\<close>

definition mirror_node :: "rbnode \<Rightarrow> rbnode" where
  "mirror_node n = n\<lparr>rb_left := rb_right n, rb_right := rb_left n\<rparr>"

definition mirror :: "rbtree \<Rightarrow> rbtree" where
  "mirror T = T\<lparr>rb_mem := (\<lambda>p. map_option mirror_node (rb_mem T p))\<rparr>"

fun mtree :: "rbt \<Rightarrow> rbt" where
  "mtree Lf = Lf"
| "mtree (Nd l a k c r) = Nd (mtree r) a k c (mtree l)"

fun mframe :: "frame \<Rightarrow> frame" where
  "mframe (FL a k c r) = FR (mtree r) a k c"
| "mframe (FR l a k c) = FL a k c (mtree l)"

lemma mirror_node_simps [simp]:
  "rb_key (mirror_node n) = rb_key n" "rb_left (mirror_node n) = rb_right n"
  "rb_right (mirror_node n) = rb_left n" "rb_parent (mirror_node n) = rb_parent n"
  "rb_red (mirror_node n) = rb_red n" "mirror_node (mirror_node n) = n"
  by (simp_all add: mirror_node_def)

lemma mirror_simps [simp]:
  "rb_root (mirror T) = rb_root T" "rb_sentinel (mirror T) = rb_sentinel T"
  "rb_insert (mirror T) = rb_insert T" "rb_mem (mirror T) p = map_option mirror_node (rb_mem T p)"
  "mirror (mirror T) = T"
  by (simp_all add: mirror_def option.map_comp o_def option.map_ident)

lemma mirror_root [simp]: "mirror (T\<lparr>rb_root := r\<rparr>) = (mirror T)\<lparr>rb_root := r\<rparr>"
  by (simp add: mirror_def)

lemma mtree_mtree [simp]: "mtree (mtree t) = t"
  by (induction t) auto

lemma mframe_mframe [simp]: "mframe (mframe f) = f"
  by (cases f) auto

lemma map_mframe [simp]: "map mframe (map mframe C) = C"
  by (simp add: o_def)

lemma rp_mtree [simp]: "rp s (mtree t) = rp s t"
  by (cases t) auto

lemma addrs_mtree [simp]: "addrs (mtree t) = rev (addrs t)"
  by (induction t) auto

lemma set_caddrs_mframe [simp]: "set (caddrs (map mframe C)) = set (caddrs C)"
  by (induction C) (auto, (case_tac a; auto)+)

lemma distinct_caddrs_mframe [simp]: "distinct (caddrs (map mframe C)) = distinct (caddrs C)"
proof (induction C)
  case (Cons f C)
  then show ?case by (cases f) (auto simp flip: map_map)
qed simp

lemma cpar_mframe [simp]: "cpar q (map mframe C) = cpar q C"
  by (cases C) (auto, case_tac a, auto)

lemma mirror_node_eq [simp]:
  "mirror_node n = \<lparr>rb_key = k, rb_left = l, rb_right = r, rb_parent = p, rb_red = c\<rparr> \<longleftrightarrow>
   n = \<lparr>rb_key = k, rb_left = r, rb_right = l, rb_parent = p, rb_red = c\<rparr>"
  by (cases n) (auto simp: mirror_node_def)

lemma mirror_node_inj [simp]: "mirror_node m = mirror_node n \<longleftrightarrow> m = n"
  by (metis mirror_node_simps(6))

lemma map_mirror_node_inj [simp]:
  "map_option mirror_node x = map_option mirror_node y \<longleftrightarrow> x = y"
  by (cases x; cases y) auto

lemma shape_mirror [simp]:
  "shape (\<lambda>p. map_option mirror_node (h p)) s par (mtree t) = shape h s par t"
  by (induction t arbitrary: par) auto

lemma cshape_mirror [simp]:
  "cshape (\<lambda>p. map_option mirror_node (h p)) s q e p (map mframe C) = cshape h s q e p C"
  by (induction h s q e p C rule: cshape.induct) auto

lemma rep_mirror: "rep (mirror T) q (map mframe C) (mtree t) = rep T q C t"
proof -
  have "rb_mem (mirror T) = (\<lambda>p. map_option mirror_node (rb_mem T p))" by auto
  moreover have "distinct (addrs (mtree t) @ caddrs (map mframe C)) = distinct (addrs t @ caddrs C)"
    by auto
  moreover have "(\<exists>sn. rb_mem (mirror T) (rb_sentinel T) = Some sn \<and> \<not> rb_red sn) =
      (\<exists>sn. rb_mem T (rb_sentinel T) = Some sn \<and> \<not> rb_red sn)"
    by (cases "rb_mem T (rb_sentinel T)") auto
  ultimately show ?thesis unfolding rep_def by (simp del: map_map)
qed

lemma upd_only_mirror [simp]: "upd_only (mirror T) (mirror T') A = upd_only T T' A"
  by (auto simp: upd_only_def)

lemma mirror_get [simp]:
  "get_left (mirror T) p = get_right T p" "get_right (mirror T) p = get_left T p"
  "get_parent (mirror T) p = get_parent T p" "get_key (mirror T) p = get_key T p"
  "agc_rbt_is_red (mirror T) p = agc_rbt_is_red T p"
  by (simp_all add: heap_defs option.map_comp o_def)

lemma rb_store_mirror:
  "(\<And>n. mirror_node (f n) = g (mirror_node n)) \<Longrightarrow>
   rb_store (mirror T) p g = map_option mirror (rb_store T p f)"
  by (auto simp: heap_defs mirror_def fun_eq_iff split: option.split)

lemma mirror_set [simp]:
  "set_left (mirror T) p v = map_option mirror (set_right T p v)"
  "set_right (mirror T) p v = map_option mirror (set_left T p v)"
  "set_parent (mirror T) p v = map_option mirror (set_parent T p v)"
  "agc_rbt_red (mirror T) p = map_option mirror (agc_rbt_red T p)"
  "agc_rbt_black (mirror T) p = map_option mirror (agc_rbt_black T p)"
  unfolding set_left_def set_right_def set_parent_def agc_rbt_red_def agc_rbt_black_def
  by (rule rb_store_mirror; simp add: mirror_node_def)+

lemma mirror_copy_color [simp]:
  "agc_rbt_copy_color (mirror T) p v = map_option mirror (agc_rbt_copy_color T p v)"
  unfolding agc_rbt_copy_color_def
  by (cases "agc_rbt_is_red T v") (auto intro!: rb_store_mirror simp: mirror_node_def)

lemma bind_map_option_left: "Option.bind (map_option f m) g = Option.bind m (\<lambda>x. g (f x))"
  by (cases m) auto

lemma map_option_bind_right: "map_option f (Option.bind m g) = Option.bind m (\<lambda>x. map_option f (g x))"
  by (cases m) auto

lemma bind_if:
  "Option.bind (if b then x else y) f = (if b then Option.bind x f else Option.bind y f)"
  by simp

lemmas mirror_bind = bind_map_option_left map_option_bind_right bind_if if_distrib [of "map_option mirror"]
  option.map_comp o_def option.map_ident

lemma relink_mirror:
  "relink_left (mirror T) n m = map_option mirror (relink_right T n m)"
  "relink_right (mirror T) n m = map_option mirror (relink_left T n m)"
  unfolding relink_left_def relink_right_def by (simp_all add: mirror_bind cong: if_cong)

lemma rotate_mirror:
  "agc_rbtree_left_rotate (mirror T) n = map_option mirror (agc_rbtree_right_rotate T n)"
  "agc_rbtree_right_rotate (mirror T) n = map_option mirror (agc_rbtree_left_rotate T n)"
  unfolding agc_rbtree_left_rotate_def agc_rbtree_right_rotate_def
  by (simp_all add: mirror_bind relink_mirror cong: if_cong)

lemma right_rotate_rep:
  assumes "rep T q C (Nd (Nd ll m km cm lr) n k c r)"
  shows "\<exists>T'. agc_rbtree_right_rotate T n = Some T' \<and> rep T' q C (Nd ll m km cm (Nd lr n k c r)) \<and>
     upd_only T T' (set (addrs (Nd (Nd ll m km cm lr) n k c r)) \<union> set (caddrs C))"
proof -
  have "rep (mirror T) q (map mframe C) (Nd (mtree r) n k c (Nd (mtree lr) m km cm (mtree ll)))"
    using assms rep_mirror [of T q C "Nd (Nd ll m km cm lr) n k c r"] by simp
  from left_rotate_rep [OF this] obtain T1 where
    T1: "agc_rbtree_left_rotate (mirror T) n = Some T1"
      "rep T1 q (map mframe C) (Nd (Nd (mtree r) n k c (mtree lr)) m km cm (mtree ll))"
      "upd_only (mirror T) T1 (set (addrs (Nd (Nd ll m km cm lr) n k c r)) \<union> set (caddrs C))"
    by (auto simp: Un_ac insert_commute)
  have "rep (mirror T1) q C (Nd ll m km cm (Nd lr n k c r))"
    using T1(2) rep_mirror [of "mirror T1" q C "Nd ll m km cm (Nd lr n k c r)"] by simp
  moreover have "agc_rbtree_right_rotate T n = Some (mirror T1)"
    using rotate_mirror(1) [of T n] T1(1) by (cases "agc_rbtree_right_rotate T n") auto
  ultimately show ?thesis
    using T1(3) upd_only_mirror [of T "mirror T1"] by auto
qed

end
