(* ===== verification/Rb_Tree.thy ===== *)
theory Rb_Tree
  imports Rb_Heap
begin

text \<open>
  The functional side of the red-black tree: in-order contents, the colour and black-height
  invariants for trees and for contexts (so that they can be stated with the focus anywhere in the
  tree), the order on keys as an interface with its two instances (plain and timer comparison), and
  the functional specifications of the two rebalancing loops of \<open>src/agc_rbtree.c\<close>.
\<close>

section \<open>Contents\<close>

fun io :: "rbt \<Rightarrow> (ptr \<times> key) list" where
  "io Lf = []"
| "io (Nd l a k c r) = io l @ (a, k) # io r"

fun lio :: "frame list \<Rightarrow> (ptr \<times> key) list" where
  "lio [] = []"
| "lio (FL a k c r # C) = lio C"
| "lio (FR l a k c # C) = lio C @ io l @ [(a, k)]"

fun rio :: "frame list \<Rightarrow> (ptr \<times> key) list" where
  "rio [] = []"
| "rio (FL a k c r # C) = (a, k) # io r @ rio C"
| "rio (FR l a k c # C) = rio C"

lemma io_plug [simp]: "io (plug C t) = lio C @ io t @ rio C"
proof (induction C arbitrary: t)
  case (Cons f C)
  then show ?case by (cases f) auto
qed simp

lemma map_fst_io: "map fst (io t) = addrs t"
  by (induction t) auto

lemma lio_append [simp]: "lio (C @ D) = lio D @ lio C"
  by (induction C rule: lio.induct) auto

lemma rio_append [simp]: "rio (C @ D) = rio C @ rio D"
  by (induction C rule: rio.induct) auto

lemma plug_append [simp]: "plug (C @ D) t = plug D (plug C t)"
  by (induction C arbitrary: t) auto

lemma addrs_plug: "set (addrs (plug C t)) = set (addrs t) \<union> set (caddrs C)"
proof (induction C arbitrary: t)
  case (Cons f C)
  then show ?case by (cases f) auto
qed simp

section \<open>Colours and black heights\<close>

fun red :: "rbt \<Rightarrow> bool" where
  "red Lf = False"
| "red (Nd l a k c r) = c"

fun paint :: "bool \<Rightarrow> rbt \<Rightarrow> rbt" where
  "paint c Lf = Lf"
| "paint c (Nd l a k c' r) = Nd l a k c r"

abbreviation blacken :: "rbt \<Rightarrow> rbt" where
  "blacken \<equiv> paint False"

fun bh :: "rbt \<Rightarrow> nat" where
  "bh Lf = 0"
| "bh (Nd l a k c r) = (if c then bh l else Suc (bh l))"

fun invh :: "rbt \<Rightarrow> bool" where
  "invh Lf = True"
| "invh (Nd l a k c r) = (bh l = bh r \<and> invh l \<and> invh r)"

fun invc :: "rbt \<Rightarrow> bool" where
  "invc Lf = True"
| "invc (Nd l a k c r) = ((c \<longrightarrow> \<not> red l \<and> \<not> red r) \<and> invc l \<and> invc r)"

definition rb_inv :: "rbt \<Rightarrow> bool" where
  "rb_inv t \<longleftrightarrow> invc t \<and> invh t \<and> \<not> red t"

text \<open>The colour of the node above the hole, and the two invariants of a context.\<close>

fun cred :: "frame list \<Rightarrow> bool" where
  "cred [] = False"
| "cred (FL a k c r # C) = c"
| "cred (FR l a k c # C) = c"

fun cinvc :: "frame list \<Rightarrow> bool" where
  "cinvc [] = True"
| "cinvc (FL a k c r # C) = ((c \<longrightarrow> \<not> red r \<and> \<not> cred C) \<and> invc r \<and> cinvc C)"
| "cinvc (FR l a k c # C) = ((c \<longrightarrow> \<not> red l \<and> \<not> cred C) \<and> invc l \<and> cinvc C)"

fun cinvh :: "frame list \<Rightarrow> nat \<Rightarrow> bool" where
  "cinvh [] n = True"
| "cinvh (FL a k c r # C) n = (n = bh r \<and> invh r \<and> cinvh C (if c then n else Suc n))"
| "cinvh (FR l a k c # C) n = (bh l = n \<and> invh l \<and> cinvh C (if c then n else Suc n))"

text \<open>The root is black: the outermost frame of a context is.\<close>

definition root_black :: "frame list \<Rightarrow> bool" where
  "root_black C \<longleftrightarrow> (case C of [] \<Rightarrow> True | _ \<Rightarrow> \<not> cred [last C])"

lemma root_black_simps [simp]:
  "root_black []" "root_black (f # g # C) = root_black (g # C)" "root_black [f] = (\<not> cred [f])"
  by (auto simp: root_black_def)

lemma invc_plug:
  "invc (plug C t) \<longleftrightarrow> invc t \<and> cinvc C \<and> \<not> (cred C \<and> red t)"
proof (induction C arbitrary: t)
  case (Cons f C)
  show ?case by (cases f) (simp_all add: Cons.IH, blast+)
qed simp

lemma invh_plug: "invh (plug C t) \<longleftrightarrow> invh t \<and> cinvh C (bh t)"
proof (induction C arbitrary: t)
  case (Cons f C)
  show ?case by (cases f) (auto simp: Cons.IH)
qed simp

lemma red_plug: "red (plug C t) = (if C = [] then red t else cred [last C])"
proof (induction C arbitrary: t)
  case (Cons f C)
  then show ?case by (cases f; cases C) auto
qed simp

lemma rb_inv_plug:
  "rb_inv (plug C t) \<longleftrightarrow> invc t \<and> invh t \<and> cinvc C \<and> cinvh C (bh t) \<and> \<not> (cred C \<and> red t) \<and>
     root_black C \<and> (C = [] \<longrightarrow> \<not> red t)"
  by (auto simp: rb_inv_def invc_plug invh_plug red_plug root_black_def split: list.split)

lemma paint_simps [simp]:
  "io (paint c t) = io t" "addrs (paint c t) = addrs t" "rp s (paint c t) = rp s t"
  "invh (paint c t) = invh t" "red (paint c t) = (c \<and> t \<noteq> Lf)" "paint c (paint c' t) = paint c t"
  by (cases t; simp)+

lemma invc_blacken: "invc t \<Longrightarrow> invc (blacken t)"
  by (cases t) auto

lemma bh_blacken: "bh (blacken t) = (if red t then Suc (bh t) else bh t)"
  by (cases t) auto

text \<open>
  A red-black tree of \<open>n\<close> nodes has height at most \<open>2 * log2 (n + 1)\<close>; stated without
  logarithms.
\<close>

fun height :: "rbt \<Rightarrow> nat" where
  "height Lf = 0"
| "height (Nd l a k c r) = Suc (max (height l) (height r))"

lemma height_bh: "invc t \<Longrightarrow> invh t \<Longrightarrow> height t \<le> 2 * bh t + (if red t then 1 else 0)"
  by (induction t) (auto split: if_split_asm)

lemma bh_size: "invh t \<Longrightarrow> 2 ^ bh t \<le> length (io t) + 1"
  by (induction t) auto

lemma rb_inv_height:
  assumes "rb_inv t"
  shows "2 ^ height t \<le> (length (io t) + 1) ^ 2"
proof -
  from assms have "height t \<le> bh t + bh t" "2 ^ bh t \<le> length (io t) + 1"
    using height_bh [of t] bh_size [of t] by (auto simp: rb_inv_def)
  then have "(2::nat) ^ height t \<le> 2 ^ (bh t + bh t)"
    by (intro power_increasing) auto
  also have "\<dots> = 2 ^ bh t * 2 ^ bh t" by (simp add: power_add)
  also have "\<dots> \<le> (length (io t) + 1) * (length (io t) + 1)"
    using \<open>2 ^ bh t \<le> length (io t) + 1\<close> by (intro mult_mono) auto
  finally show ?thesis by (simp add: power2_eq_square)
qed

section \<open>The order of keys\<close>

text \<open>
  What the insertion needs of its comparison: on the keys \<open>K\<close> in use it is a strict weak order.
\<close>

definition ordered :: "(key \<Rightarrow> key \<Rightarrow> bool) \<Rightarrow> key list \<Rightarrow> bool" where
  "ordered lt ks \<longleftrightarrow> sorted_wrt (\<lambda>x y. \<not> lt y x) ks"

text \<open>The walk of the insertion from the root down to the sentinel where the new node is hung.\<close>

fun place :: "(key \<Rightarrow> key \<Rightarrow> bool) \<Rightarrow> key \<Rightarrow> rbt \<Rightarrow> frame list \<Rightarrow> frame list" where
  "place lt x Lf C = C"
| "place lt x (Nd l a k c r) C =
     (if lt x k then place lt x l (FL a k c r # C) else place lt x r (FR l a k c # C))"

lemma plug_place: "plug (place lt x t C) Lf = plug C t"
  by (induction lt x t C rule: place.induct) auto

lemma place_io: "io t = xs \<Longrightarrow> lio (place lt x t []) @ rio (place lt x t []) = xs"
  using plug_place [of lt x t "[]"] io_plug [of "place lt x t []" Lf] by simp

definition insort_entry ::
  "(key \<Rightarrow> key \<Rightarrow> bool) \<Rightarrow> ptr \<times> key \<Rightarrow> (ptr \<times> key) list \<Rightarrow> (ptr \<times> key) list" where
  "insort_entry lt e xs =
     takeWhile (\<lambda>y. \<not> lt (snd e) (snd y)) xs @ e # dropWhile (\<lambda>y. \<not> lt (snd e) (snd y)) xs"

lemma set_insort_entry [simp]: "set (insort_entry lt e xs) = insert e (set xs)"
proof -
  have "set xs = set (takeWhile P xs @ dropWhile P xs)" for P by simp
  then show ?thesis unfolding insort_entry_def by (metis set_append list.set(2) Un_insert_right)
qed

lemma map_fst_insort_distinct:
  "distinct (map fst xs) \<Longrightarrow> a \<notin> fst ` set xs \<Longrightarrow> distinct (map fst (insort_entry lt (a, x) xs))"
proof -
  assume d: "distinct (map fst xs)" and a: "a \<notin> fst ` set xs"
  let ?P = "\<lambda>y. \<not> lt x (snd y)"
  have "xs = takeWhile ?P xs @ dropWhile ?P xs" by simp
  then have "distinct (map fst (takeWhile ?P xs) @ map fst (dropWhile ?P xs))"
    "a \<notin> fst ` set (takeWhile ?P xs) \<union> fst ` set (dropWhile ?P xs)"
    using d a by (metis map_append, metis image_Un set_append)
  then show ?thesis by (auto simp: insort_entry_def)
qed

locale key_order =
  fixes lt :: "key \<Rightarrow> key \<Rightarrow> bool"
    and K :: "key set"
  assumes lt_asym: "x \<in> K \<Longrightarrow> y \<in> K \<Longrightarrow> lt x y \<Longrightarrow> \<not> lt y x"
    and le_trans: "x \<in> K \<Longrightarrow> y \<in> K \<Longrightarrow> z \<in> K \<Longrightarrow> \<not> lt y x \<Longrightarrow> \<not> lt z y \<Longrightarrow> \<not> lt z x"
begin

lemma lt_le_trans: "x \<in> K \<Longrightarrow> y \<in> K \<Longrightarrow> z \<in> K \<Longrightarrow> lt x y \<Longrightarrow> \<not> lt z y \<Longrightarrow> lt x z"
  using le_trans [of y z x] by blast

lemma place_between:
  assumes "ordered lt (map snd (lio C @ io t @ rio C))" "x \<in> K"
    and "snd ` set (lio C @ io t @ rio C) \<subseteq> K"
    and "\<forall>k\<in>snd ` set (lio C). \<not> lt x k" "\<forall>k\<in>snd ` set (rio C). lt x k"
  shows "(\<forall>k\<in>snd ` set (lio (place lt x t C)). \<not> lt x k) \<and>
     (\<forall>k\<in>snd ` set (rio (place lt x t C)). lt x k)"
  using assms
proof (induction t arbitrary: C)
  case (Nd l a k c r)
  have ord: "\<forall>y\<in>snd ` set (io l). \<not> lt k y" "\<forall>y\<in>snd ` set (io r). \<not> lt y k"
    using Nd.prems(1) by (auto simp: ordered_def sorted_wrt_append)
  have inK: "k \<in> K" "\<forall>y\<in>snd ` set (io l). y \<in> K" "\<forall>y\<in>snd ` set (io r). y \<in> K"
    using Nd.prems(3) by auto
  show ?case
  proof (cases "lt x k")
    case True
    have "\<forall>y\<in>snd ` set (io r). lt x y"
      using lt_le_trans [OF \<open>x \<in> K\<close> inK(1) _ True] ord(2) inK(3) by blast
    with True Nd.prems show ?thesis
      by (simp only: place.simps if_True) (rule Nd.IH(1); auto)
  next
    case False
    have "\<forall>y\<in>snd ` set (io l). \<not> lt x y"
      using le_trans [OF _ inK(1) \<open>x \<in> K\<close> _ False] ord(1) inK(2) by blast
    with False Nd.prems show ?thesis
      by (simp only: place.simps if_False) (rule Nd.IH(2); auto)
  qed
qed auto

text \<open>
  The new entry lands behind every entry that is not larger and before every larger one: on an
  ordered list the walk is the insertion of \<open>insort_entry\<close>.
\<close>

lemma place_insort:
  assumes "ordered lt (map snd (io t))" "x \<in> K" "snd ` set (io t) \<subseteq> K"
  shows "lio (place lt x t []) @ (a, x) # rio (place lt x t []) = insort_entry lt (a, x) (io t)"
proof -
  have b: "(\<forall>k\<in>snd ` set (lio (place lt x t [])). \<not> lt x k) \<and>
      (\<forall>k\<in>snd ` set (rio (place lt x t [])). lt x k)"
    using assms by (intro place_between) auto
  have "takeWhile (\<lambda>e. \<not> lt x (snd e)) (lio (place lt x t []) @ rio (place lt x t [])) = lio (place lt x t [])"
    "dropWhile (\<lambda>e. \<not> lt x (snd e)) (lio (place lt x t []) @ rio (place lt x t [])) = rio (place lt x t [])"
    using b by (cases "rio (place lt x t [])"; simp add: takeWhile_append dropWhile_append)+
  then show ?thesis by (simp add: insort_entry_def place_io)
qed

lemma ordered_insort:
  assumes "ordered lt (map snd xs)" "x \<in> K" "snd ` set xs \<subseteq> K"
  shows "ordered lt (map snd (insort_entry lt (a, x) xs))"
  using assms
proof (induction xs)
  case (Cons e xs)
  obtain b k where e: "e = (b, k)" by (cases e)
  show ?case
  proof (cases "lt x k")
    case True
    then have "\<forall>y\<in>snd ` set xs. lt x y"
      using Cons.prems e lt_le_trans [of x k] by (auto simp: ordered_def)
    then have "\<forall>y\<in>snd ` set (e # xs). \<not> lt y x"
      using True Cons.prems e lt_asym by (auto simp: image_subset_iff)
    then show ?thesis using True Cons.prems e by (auto simp: insort_entry_def ordered_def)
  next
    case False
    have "ordered lt (map snd (insort_entry lt (a, x) xs))"
      using Cons by (auto simp: ordered_def)
    moreover have "\<forall>y\<in>set (insort_entry lt (a, x) xs). \<not> lt (snd y) k"
      using False Cons.prems e by (auto simp: ordered_def)
    moreover have "insort_entry lt (a, x) (e # xs) = e # insort_entry lt (a, x) xs"
      using False e by (simp add: insort_entry_def)
    ultimately show ?thesis
      using e by (simp add: ordered_def)
  qed
qed (simp add: insort_entry_def ordered_def)

end

text \<open>The comparison of \<open>agc_rbtree_insert_value\<close>, on all keys.\<close>

definition value_lt :: "key \<Rightarrow> key \<Rightarrow> bool" where
  "value_lt x y \<longleftrightarrow> x < y"

interpretation vl: key_order value_lt UNIV
  by unfold_locales (auto simp: value_lt_def)

text \<open>
  The comparison of \<open>agc_rbtree_insert_timer_value\<close>: the difference read as a signed number
  is negative. It is an order on the keys less than half the range ahead of some base, which is
  how the comment in the source means it.
\<close>

definition timer_lt :: "key \<Rightarrow> key \<Rightarrow> bool" where
  "timer_lt x y \<longleftrightarrow> sint (x - y) < 0"

definition timer_window :: "key \<Rightarrow> key set" where
  "timer_window base = {k. uint (k - base) < 2 ^ 63}"

lemma sint_neg_iff: "sint (w :: 64 word) < 0 \<longleftrightarrow> 2 ^ 63 \<le> uint w"
proof -
  have b: "0 \<le> uint w" "uint w < 2 ^ 64" using uint_lt2p [of w] by simp_all
  have "sint w < 0 \<longleftrightarrow> odd (uint w div 2 ^ 63)"
    by (simp add: sint_uint bit_iff_odd)
  also have "\<dots> \<longleftrightarrow> 2 ^ 63 \<le> uint w"
  proof (cases "2 ^ 63 \<le> uint w")
    case True
    with b have "uint w div 2 ^ 63 = 1"
      by (intro int_div_pos_eq [where r = "uint w - 2 ^ 63"]) auto
    with True show ?thesis by simp
  next
    case False
    with b have "uint w div 2 ^ 63 = 0" by simp
    with False show ?thesis by simp
  qed
  finally show ?thesis .
qed

lemma mod_diff_half:
  assumes "0 \<le> i" "i < 2 ^ 63" "0 \<le> j" "j < (2 :: int) ^ 63"
  shows "2 ^ 63 \<le> (i - j) mod 2 ^ 64 \<longleftrightarrow> i < j"
proof (cases "i < j")
  case True
  have "(i - j) mod 2 ^ 64 = (i - j + 2 ^ 64) mod 2 ^ 64" by simp
  also have "\<dots> = i - j + 2 ^ 64" using assms True by (intro mod_pos_pos_trivial) auto
  finally show ?thesis using assms True by simp
next
  case False
  then have "(i - j) mod 2 ^ 64 = i - j" using assms by (intro mod_pos_pos_trivial) auto
  then show ?thesis using assms False by simp
qed

lemma timer_lt_window:
  assumes "x \<in> timer_window b" "y \<in> timer_window b"
  shows "timer_lt x y \<longleftrightarrow> uint (x - b) < uint (y - b)"
proof -
  have "x - y = (x - b) - (y - b)" by simp
  then have "uint (x - y) = (uint (x - b) - uint (y - b)) mod 2 ^ 64"
    using uint_word_ariths(2) [of "x - b" "y - b"] by simp
  then show ?thesis
    using assms mod_diff_half [of "uint (x - b)" "uint (y - b)"]
    unfolding timer_lt_def sint_neg_iff timer_window_def by simp
qed

interpretation tm: key_order timer_lt "timer_window b" for b
  by unfold_locales (auto simp: timer_lt_window)

section \<open>Rebalancing after an insertion\<close>

text \<open>
  What the loop of \<open>agc_rbtree_insert\<close> makes of the context \<open>C\<close> and the red node \<open>t\<close> in its
  hole: recolour and go up two levels while the uncle is red, otherwise one or two rotations.
\<close>

fun ins_fix :: "frame list \<Rightarrow> rbt \<Rightarrow> rbt" where
  "ins_fix (FL p kp True b # FL g kg cg u # C) t =
     (if red u then ins_fix C (Nd (Nd t p kp False b) g kg True (blacken u))
      else plug C (Nd t p kp False (Nd b g kg True u)))"
| "ins_fix (FR a p kp True # FL g kg cg u # C) (Nd b x kx cx c) =
     (if red u then ins_fix C (Nd (Nd a p kp False (Nd b x kx cx c)) g kg True (blacken u))
      else plug C (Nd (Nd a p kp True b) x kx False (Nd c g kg True u)))"
| "ins_fix (FR a p kp True # FR u g kg cg # C) t =
     (if red u then ins_fix C (Nd (blacken u) g kg True (Nd a p kp False t))
      else plug C (Nd (Nd u g kg True a) p kp False t))"
| "ins_fix (FL p kp True c # FR u g kg cg # C) (Nd a x kx cx b) =
     (if red u then ins_fix C (Nd (blacken u) g kg True (Nd (Nd a x kx cx b) p kp False c))
      else plug C (Nd (Nd u g kg True a) x kx False (Nd b p kp True c)))"
| "ins_fix C t = plug C t"

lemma blacken_id: "\<not> red t \<Longrightarrow> blacken t = t"
  by (cases t) auto

lemma ins_fix_io: "io (ins_fix C t) = lio C @ io t @ rio C"
  by (induction C t rule: ins_fix.induct) (auto simp del: plug.simps)

lemma root_black_tl: "root_black (f # C) \<Longrightarrow> root_black C"
  by (cases C) auto

lemma rb_inv_blacken_plug:
  assumes "invc t" "invh t" "cinvc C" "cinvh C (bh t)" "\<not> (cred C \<and> red t)" "root_black C"
  shows "rb_inv (blacken (plug C t))"
proof (cases "C = []")
  case True
  with assms show ?thesis by (simp add: rb_inv_def invc_blacken)
next
  case False
  with assms have "rb_inv (plug C t)" by (simp add: rb_inv_plug)
  then show ?thesis by (simp add: blacken_id rb_inv_def)
qed

lemma ins_fix_inv:
  assumes "invc t" "invh t" "red t" "cinvc C" "cinvh C (bh t)" "root_black C"
  shows "rb_inv (blacken (ins_fix C t))"
  using assms
  by (induction C t rule: ins_fix.induct)
    (auto intro!: rb_inv_blacken_plug simp: invc_blacken bh_blacken simp del: plug.simps
      dest: root_black_tl)

end
