(* ===== verification/Rb_Insert.thy ===== *)
theory Rb_Insert
  imports Rb_Tree
begin

text \<open>
  \<open>agc_rbtree_insert\<close> with its two insertion callbacks, on the memory, and the proof that it refines
  the functional insertion: it terminates without touching a null pointer, keeps every node outside
  the tree, and yields a red-black tree with the new entry in its place.
\<close>

section \<open>The code\<close>

text \<open>
  The loop of \<open>agc_rbtree_insert_value\<close> and \<open>agc_rbtree_insert_timer_value\<close>, which differ in the
  comparison only. The pointer \<open>p\<close> to the child field is represented by the node and the side.
\<close>

partial_function (option) insert_descend ::
  "(key \<Rightarrow> key \<Rightarrow> bool) \<Rightarrow> rbtree \<Rightarrow> ptr \<Rightarrow> ptr \<Rightarrow> (ptr \<times> bool) option" where
  "insert_descend lt T temp node = do {
     nk \<leftarrow> get_key T node;
     tk \<leftarrow> get_key T temp;
     p \<leftarrow> (if lt nk tk then get_left T temp else get_right T temp);
     if p = rb_sentinel T then Some (temp, lt nk tk) else insert_descend lt T p node }"

text \<open>Hanging the new red node below the node that the walk found, and the two steps together.\<close>

definition hang :: "rbtree \<Rightarrow> ptr \<Rightarrow> bool \<Rightarrow> ptr \<Rightarrow> rbtree option" where
  "hang T temp left node = do {
     T \<leftarrow> (if left then set_left T temp node else set_right T temp node);
     T \<leftarrow> set_parent T node temp;
     T \<leftarrow> set_left T node (rb_sentinel T);
     T \<leftarrow> set_right T node (rb_sentinel T);
     agc_rbt_red T node }"

definition insert_with :: "(key \<Rightarrow> key \<Rightarrow> bool) \<Rightarrow> rbtree \<Rightarrow> ptr \<Rightarrow> ptr \<Rightarrow> rbtree option" where
  "insert_with lt T temp node = do {
     (p, left) \<leftarrow> insert_descend lt T temp node;
     hang T p left node }"

definition agc_rbtree_insert_value :: "rbtree \<Rightarrow> ptr \<Rightarrow> ptr \<Rightarrow> rbtree option" where
  "agc_rbtree_insert_value = insert_with value_lt"

definition agc_rbtree_insert_timer_value :: "rbtree \<Rightarrow> ptr \<Rightarrow> ptr \<Rightarrow> rbtree option" where
  "agc_rbtree_insert_timer_value = insert_with timer_lt"

fun call_insert :: "insert_func \<Rightarrow> rbtree \<Rightarrow> ptr \<Rightarrow> ptr \<Rightarrow> rbtree option" where
  "call_insert Fn_insert_value = agc_rbtree_insert_value"
| "call_insert Fn_insert_timer_value = agc_rbtree_insert_timer_value"

text \<open>One pass of the rebalancing loop: the parent of \<open>node\<close> is a left child, or is not.\<close>

definition insert_step_left :: "rbtree \<Rightarrow> ptr \<Rightarrow> (rbtree \<times> ptr) option" where
  "insert_step_left T node = do {
     par \<leftarrow> get_parent T node;
     gp \<leftarrow> get_parent T par;
     temp \<leftarrow> get_right T gp;
     tr \<leftarrow> agc_rbt_is_red T temp;
     if tr then do {
       T \<leftarrow> agc_rbt_black T par;
       T \<leftarrow> agc_rbt_black T temp;
       T \<leftarrow> agc_rbt_red T gp;
       Some (T, gp) }
     else do {
       pr \<leftarrow> get_right T par;
       T1 \<leftarrow> (if node = pr then agc_rbtree_left_rotate T par else Some T);
       let node1 = (if node = pr then par else node);
       par1 \<leftarrow> get_parent T1 node1;
       T2 \<leftarrow> agc_rbt_black T1 par1;
       gp1 \<leftarrow> get_parent T2 par1;
       T3 \<leftarrow> agc_rbt_red T2 gp1;
       T4 \<leftarrow> agc_rbtree_right_rotate T3 gp1;
       Some (T4, node1) } }"

definition insert_step_right :: "rbtree \<Rightarrow> ptr \<Rightarrow> (rbtree \<times> ptr) option" where
  "insert_step_right T node = do {
     par \<leftarrow> get_parent T node;
     gp \<leftarrow> get_parent T par;
     temp \<leftarrow> get_left T gp;
     tr \<leftarrow> agc_rbt_is_red T temp;
     if tr then do {
       T \<leftarrow> agc_rbt_black T par;
       T \<leftarrow> agc_rbt_black T temp;
       T \<leftarrow> agc_rbt_red T gp;
       Some (T, gp) }
     else do {
       pl \<leftarrow> get_left T par;
       T1 \<leftarrow> (if node = pl then agc_rbtree_right_rotate T par else Some T);
       let node1 = (if node = pl then par else node);
       par1 \<leftarrow> get_parent T1 node1;
       T2 \<leftarrow> agc_rbt_black T1 par1;
       gp1 \<leftarrow> get_parent T2 par1;
       T3 \<leftarrow> agc_rbt_red T2 gp1;
       T4 \<leftarrow> agc_rbtree_left_rotate T3 gp1;
       Some (T4, node1) } }"

partial_function (option) insert_loop :: "rbtree \<Rightarrow> ptr \<Rightarrow> rbtree option" where
  "insert_loop T node =
     (if node = rb_root T then Some T
      else do {
        par \<leftarrow> get_parent T node;
        pr \<leftarrow> agc_rbt_is_red T par;
        if \<not> pr then Some T
        else do {
          gp \<leftarrow> get_parent T par;
          gl \<leftarrow> get_left T gp;
          r \<leftarrow> (if par = gl then insert_step_left T node else insert_step_right T node);
          insert_loop (fst r) (snd r) } })"

definition agc_rbtree_insert :: "rbtree \<Rightarrow> ptr \<Rightarrow> rbtree option" where
  "agc_rbtree_insert T node =
     (if rb_root T = rb_sentinel T then do {
        T \<leftarrow> set_parent T node NULL;
        T \<leftarrow> set_left T node (rb_sentinel T);
        T \<leftarrow> set_right T node (rb_sentinel T);
        T \<leftarrow> agc_rbt_black T node;
        Some (T\<lparr>rb_root := node\<rparr>) }
      else do {
        T \<leftarrow> call_insert (rb_insert T) T (rb_root T) node;
        T \<leftarrow> insert_loop T node;
        agc_rbt_black T (rb_root T) })"

section \<open>Reads and colour changes at the focus\<close>

lemma rep_reads:
  assumes "rep T q C (Nd l a k c r)"
  shows "get_left T a = Some (rp (rb_sentinel T) l)" "get_right T a = Some (rp (rb_sentinel T) r)"
    "get_parent T a = Some (cpar q C)" "get_key T a = Some k" "agc_rbt_is_red T a = Some c"
  using assms by (auto simp: rep_def heap_defs)

lemma rep_is_red: "rep T q C t \<Longrightarrow> agc_rbt_is_red T (rp (rb_sentinel T) t) = Some (red t)"
  by (cases t) (auto simp: rep_def heap_defs)

lemma rep_root: "rep T q [] t \<Longrightarrow> rb_root T = rp (rb_sentinel T) t"
  by (simp add: rep_def)

lemma rep_not_root:
  assumes "rep T q C t" "C \<noteq> []" "x \<in> insert (rb_sentinel T) (set (addrs t))"
  shows "x \<noteq> rb_root T"
proof -
  have "cshape (rb_mem T) (rb_sentinel T) q (rb_root T) (rp (rb_sentinel T) t) C"
    using assms(1) by (simp add: rep_def)
  moreover have "x \<notin> set (caddrs C)"
    using assms(1,3) cshape_addrs [OF calculation] by (auto simp: rep_def)
  ultimately show ?thesis using cshape_not_root assms(2) by blast
qed

lemma rep_recolor:
  assumes "rep T q C (Nd l a k c r)"
  shows "\<exists>T'. rb_store T a (\<lambda>n. n\<lparr>rb_red := c'\<rparr>) = Some T' \<and> rep T' q C (Nd l a k c' r) \<and>
     upd_only T T' {a}"
proof -
  have "a \<notin> set (addrs l)" "a \<notin> set (addrs r)" "a \<notin> set (caddrs C)" "a \<noteq> rb_sentinel T"
    using assms by (auto simp: rep_def)
  then show ?thesis
    using assms by (auto simp: rep_def heap_defs frame_simps upd_only_def)
qed

lemma rep_red_node:
  "rep T q C (Nd l a k c r) \<Longrightarrow>
   \<exists>T'. agc_rbt_red T a = Some T' \<and> rep T' q C (Nd l a k True r) \<and> upd_only T T' {a}"
  unfolding agc_rbt_red_def by (rule rep_recolor)

lemma rep_black_node:
  "rep T q C (Nd l a k c r) \<Longrightarrow>
   \<exists>T'. agc_rbt_black T a = Some T' \<and> rep T' q C (Nd l a k False r) \<and> upd_only T T' {a}"
  unfolding agc_rbt_black_def by (rule rep_recolor)

lemma rep_blacken:
  assumes "rep T q C t" "t \<noteq> Lf"
  shows "\<exists>T'. agc_rbt_black T (rp (rb_sentinel T) t) = Some T' \<and> rep T' q C (blacken t) \<and>
     upd_only T T' (set (addrs t))"
proof (cases t)
  case (Nd l a k c r)
  with assms(1) rep_black_node [of T q C l a k c r] show ?thesis
    by (auto intro: upd_only_mono)
qed (use assms in simp)

lemma upd_only_chain:
  "upd_only T T' A \<Longrightarrow> upd_only T' T'' B \<Longrightarrow> A \<subseteq> U \<Longrightarrow> B \<subseteq> U \<Longrightarrow> upd_only T T'' U"
  unfolding upd_only_def by (intro conjI allI impI) (metis subset_iff)+

lemma upd_only_chain3:
  "upd_only T T1 A \<Longrightarrow> upd_only T1 T2 B \<Longrightarrow> upd_only T2 T3 D \<Longrightarrow> A \<subseteq> U \<Longrightarrow> B \<subseteq> U \<Longrightarrow> D \<subseteq> U \<Longrightarrow>
   upd_only T T3 U"
  by (meson upd_only_mono upd_only_trans)

section \<open>One pass of the loop\<close>

lemma step_left_recolor:
  assumes R: "rep T q C (Nd (Nd pl p kp cp pr) g kg cg u)"
    and n: "get_parent T n = Some p" and u: "red u"
  shows "\<exists>T'. insert_step_left T n = Some (T', g) \<and>
     rep T' q C (Nd (Nd pl p kp False pr) g kg True (blacken u)) \<and>
     upd_only T T' (set (addrs (Nd (Nd pl p kp cp pr) g kg cg u)))"
proof -
  note Rp = rep_down_left [OF R]
  have gp: "get_parent T p = Some g" "get_right T g = Some (rp (rb_sentinel T) u)"
    using rep_reads [OF Rp] rep_reads [OF R] by simp_all
  have tr: "agc_rbt_is_red T (rp (rb_sentinel T) u) = Some True"
    using rep_is_red [OF rep_down_right [OF R]] u by simp
  obtain T1 where T1: "agc_rbt_black T p = Some T1" "upd_only T T1 {p}"
    and "rep T1 q (FL g kg cg u # C) (Nd pl p kp False pr)"
    using rep_black_node [OF Rp] by blast
  then have R1: "rep T1 q (FR (Nd pl p kp False pr) g kg cg # C) u" by (simp add: rep_plug1)
  have s1: "rb_sentinel T1 = rb_sentinel T" using T1(2) by (rule upd_only_sentinel)
  have "u \<noteq> Lf" using u by auto
  then obtain T2 where T2: "agc_rbt_black T1 (rp (rb_sentinel T) u) = Some T2"
    "upd_only T1 T2 (set (addrs u))" and R2: "rep T2 q (FR (Nd pl p kp False pr) g kg cg # C) (blacken u)"
    using rep_blacken [OF R1] s1 by auto
  have "rep T2 q C (Nd (Nd pl p kp False pr) g kg cg (blacken u))"
    using R2 by (simp add: rep_plug1)
  then obtain T3 where T3: "agc_rbt_red T2 g = Some T3" "upd_only T2 T3 {g}"
    and R3: "rep T3 q C (Nd (Nd pl p kp False pr) g kg True (blacken u))"
    using rep_red_node by blast
  have "insert_step_left T n = Some (T3, g)"
    unfolding insert_step_left_def by (simp add: n gp tr T1 T2 T3)
  moreover have "upd_only T T3 (set (addrs (Nd (Nd pl p kp cp pr) g kg cg u)))"
    by (rule upd_only_chain3 [OF T1(2) T2(2) T3(2)]) auto
  ultimately show ?thesis using R3 by blast
qed

text \<open>The common end of the two rotation cases: the node \<open>n\<close> is the left child of \<open>p\<close>.\<close>

lemma step_left_finish:
  assumes R: "rep T q C (Nd (Nd pl p kp cp pr) g kg cg u)" and n: "get_parent T n = Some p"
  shows "\<exists>T'. do {
       par1 \<leftarrow> get_parent T n;
       T2 \<leftarrow> agc_rbt_black T par1;
       gp1 \<leftarrow> get_parent T2 par1;
       T3 \<leftarrow> agc_rbt_red T2 gp1;
       T4 \<leftarrow> agc_rbtree_right_rotate T3 gp1;
       Some (T4, n) } = Some (T', n) \<and>
     rep T' q C (Nd pl p kp False (Nd pr g kg True u)) \<and>
     upd_only T T' (set (addrs (Nd (Nd pl p kp cp pr) g kg cg u)) \<union> set (caddrs C))"
proof -
  obtain T2 where T2: "agc_rbt_black T p = Some T2" "upd_only T T2 {p}"
    and R2: "rep T2 q (FL g kg cg u # C) (Nd pl p kp False pr)"
    using rep_black_node [OF rep_down_left [OF R]] by blast
  have g: "get_parent T2 p = Some g" using rep_reads [OF R2] by simp
  have "rep T2 q C (Nd (Nd pl p kp False pr) g kg cg u)" using R2 by (simp add: rep_plug1)
  then obtain T3 where T3: "agc_rbt_red T2 g = Some T3" "upd_only T2 T3 {g}"
    and R3: "rep T3 q C (Nd (Nd pl p kp False pr) g kg True u)"
    using rep_red_node by blast
  obtain T4 where T4: "agc_rbtree_right_rotate T3 g = Some T4"
    "upd_only T3 T4 (set (addrs (Nd (Nd pl p kp False pr) g kg True u)) \<union> set (caddrs C))"
    and R4: "rep T4 q C (Nd pl p kp False (Nd pr g kg True u))"
    using right_rotate_rep [OF R3] by blast
  have "upd_only T T4 (set (addrs (Nd (Nd pl p kp cp pr) g kg cg u)) \<union> set (caddrs C))"
    by (rule upd_only_chain3 [OF T2(2) T3(2) T4(2)]) auto
  with R4 show ?thesis by (simp add: n g T2 T3 T4)
qed

lemma step_left_rotate:
  assumes R: "rep T q C (Nd (Nd pl p kp True pr) g kg cg u)" and u: "\<not> red u" and n: "pl \<noteq> Lf"
  shows "\<exists>T'. insert_step_left T (rp (rb_sentinel T) pl) = Some (T', rp (rb_sentinel T) pl) \<and>
     rep T' q C (Nd pl p kp False (Nd pr g kg True u)) \<and>
     upd_only T T' (set (addrs (Nd (Nd pl p kp True pr) g kg cg u)) \<union> set (caddrs C))"
proof -
  let ?n = "rp (rb_sentinel T) pl"
  note Rp = rep_down_left [OF R]
  have par: "get_parent T ?n = Some p"
    using rep_down_left [OF Rp] n by (cases pl) (auto simp: rep_reads)
  have rd: "get_parent T p = Some g" "get_right T g = Some (rp (rb_sentinel T) u)"
    "get_right T p = Some (rp (rb_sentinel T) pr)"
    using rep_reads [OF Rp] rep_reads [OF R] by simp_all
  have tr: "agc_rbt_is_red T (rp (rb_sentinel T) u) = Some False"
    using rep_is_red [OF rep_down_right [OF R]] u by simp
  have ne: "?n \<noteq> rp (rb_sentinel T) pr"
    using R n by (cases pl; cases pr) (auto simp: rep_def)
  show ?thesis
    using step_left_finish [OF R par] unfolding insert_step_left_def
    by (simp add: par rd tr ne)
qed

lemma step_left_rotate2:
  assumes R: "rep T q C (Nd (Nd pl p kp True (Nd b x kx cx c)) g kg cg u)" and u: "\<not> red u"
  shows "\<exists>T'. insert_step_left T x = Some (T', p) \<and>
     rep T' q C (Nd (Nd pl p kp True b) x kx False (Nd c g kg True u)) \<and>
     upd_only T T' (set (addrs (Nd (Nd pl p kp True (Nd b x kx cx c)) g kg cg u)) \<union> set (caddrs C))"
proof -
  note Rp = rep_down_left [OF R]
  have par: "get_parent T x = Some p"
    using rep_reads [OF rep_down_right [OF Rp]] by simp
  have rd: "get_parent T p = Some g" "get_right T g = Some (rp (rb_sentinel T) u)"
    "get_right T p = Some x"
    using rep_reads [OF Rp] rep_reads [OF R] by simp_all
  have tr: "agc_rbt_is_red T (rp (rb_sentinel T) u) = Some False"
    using rep_is_red [OF rep_down_right [OF R]] u by simp
  obtain T1 where T1: "agc_rbtree_left_rotate T p = Some T1"
    "upd_only T T1 (set (addrs (Nd pl p kp True (Nd b x kx cx c))) \<union> set (caddrs (FL g kg cg u # C)))"
    and R1: "rep T1 q (FL g kg cg u # C) (Nd (Nd pl p kp True b) x kx cx c)"
    using left_rotate_rep [OF Rp] by blast
  have R1': "rep T1 q C (Nd (Nd (Nd pl p kp True b) x kx cx c) g kg cg u)"
    using R1 by (simp add: rep_plug1)
  have par1: "get_parent T1 p = Some x"
    using rep_reads [OF rep_down_left [OF R1]] by simp
  obtain T' where T': "do {
       par1 \<leftarrow> get_parent T1 p;
       T2 \<leftarrow> agc_rbt_black T1 par1;
       gp1 \<leftarrow> get_parent T2 par1;
       T3 \<leftarrow> agc_rbt_red T2 gp1;
       T4 \<leftarrow> agc_rbtree_right_rotate T3 gp1;
       Some (T4, p) } = Some (T', p)"
     "rep T' q C (Nd (Nd pl p kp True b) x kx False (Nd c g kg True u))"
     "upd_only T1 T' (set (addrs (Nd (Nd (Nd pl p kp True b) x kx cx c) g kg cg u)) \<union> set (caddrs C))"
    using step_left_finish [OF R1' par1] by blast
  have "insert_step_left T x = Some (T', p)"
    unfolding insert_step_left_def using T'(1) by (simp add: par rd tr T1(1))
  moreover have "upd_only T T' (set (addrs (Nd (Nd pl p kp True (Nd b x kx cx c)) g kg cg u)) \<union> set (caddrs C))"
    by (rule upd_only_chain [OF T1(2) T'(3)]) auto
  ultimately show ?thesis using T'(2) by blast
qed


text \<open>The other side is the mirror image.\<close>

lemma insert_step_mirror:
  "insert_step_left (mirror T) n = map_option (apfst mirror) (insert_step_right T n)"
  unfolding insert_step_left_def insert_step_right_def
  by (simp add: mirror_bind rotate_mirror Let_def if_distrib [of "map_option (apfst mirror)"] cong: if_cong)

lemma step_right_transfer:
  assumes "insert_step_left (mirror T) n = Some (T1, m)" "rep T1 q (map mframe C) (mtree t)"
    "upd_only (mirror T) T1 A" "A \<subseteq> B"
  shows "\<exists>T'. insert_step_right T n = Some (T', m) \<and> rep T' q C t \<and> upd_only T T' B"
proof (intro exI conjI)
  show "insert_step_right T n = Some (mirror T1, m)"
    using assms(1) unfolding insert_step_mirror by (cases "insert_step_right T n") auto
  show "rep (mirror T1) q C t"
    using assms(2) rep_mirror [of "mirror T1" q C t] by simp
  show "upd_only T (mirror T1) B"
    using upd_only_mirror [of T "mirror T1"] upd_only_mono [OF assms(3,4)] by simp
qed

lemma red_mtree [simp]: "red (mtree t) = red t"
  by (cases t) auto

lemma blacken_mtree [simp]: "blacken (mtree t) = mtree (blacken t)"
  by (cases t) auto

lemma step_right_recolor:
  assumes R: "rep T q C (Nd u g kg cg (Nd pl p kp cp pr))"
    and n: "get_parent T n = Some p" and u: "red u"
  shows "\<exists>T'. insert_step_right T n = Some (T', g) \<and>
     rep T' q C (Nd (blacken u) g kg True (Nd pl p kp False pr)) \<and>
     upd_only T T' (set (addrs (Nd u g kg cg (Nd pl p kp cp pr))))"
proof -
  have "rep (mirror T) q (map mframe C) (Nd (Nd (mtree pr) p kp cp (mtree pl)) g kg cg (mtree u))"
    using R rep_mirror [of T q C "Nd u g kg cg (Nd pl p kp cp pr)"] by simp
  from step_left_recolor [OF this, of n] n u obtain T1 where
    "insert_step_left (mirror T) n = Some (T1, g)"
    "rep T1 q (map mframe C) (mtree (Nd (blacken u) g kg True (Nd pl p kp False pr)))"
    "upd_only (mirror T) T1 (set (addrs (Nd u g kg cg (Nd pl p kp cp pr))))"
    by (auto simp: Un_ac insert_commute)
  from step_right_transfer [OF this subset_refl] show ?thesis .
qed

lemma step_right_rotate:
  assumes R: "rep T q C (Nd u g kg cg (Nd pl p kp True pr))" and u: "\<not> red u" and n: "pr \<noteq> Lf"
  shows "\<exists>T'. insert_step_right T (rp (rb_sentinel T) pr) = Some (T', rp (rb_sentinel T) pr) \<and>
     rep T' q C (Nd (Nd u g kg True pl) p kp False pr) \<and>
     upd_only T T' (set (addrs (Nd u g kg cg (Nd pl p kp True pr))) \<union> set (caddrs C))"
proof -
  have R1: "rep (mirror T) q (map mframe C) (Nd (Nd (mtree pr) p kp True (mtree pl)) g kg cg (mtree u))"
    using R rep_mirror [of T q C "Nd u g kg cg (Nd pl p kp True pr)"] by simp
  have "mtree pr \<noteq> Lf" "\<not> red (mtree u)" using n u by (cases pr; simp)+
  from step_left_rotate [OF R1 this(2,1)] obtain T1 where
    "insert_step_left (mirror T) (rp (rb_sentinel T) pr) = Some (T1, rp (rb_sentinel T) pr)"
    "rep T1 q (map mframe C) (mtree (Nd (Nd u g kg True pl) p kp False pr))"
    "upd_only (mirror T) T1 (set (addrs (Nd u g kg cg (Nd pl p kp True pr))) \<union> set (caddrs C))"
    by (auto simp: Un_ac insert_commute)
  from step_right_transfer [OF this subset_refl] show ?thesis .
qed

lemma step_right_rotate2:
  assumes R: "rep T q C (Nd u g kg cg (Nd (Nd b x kx cx c) p kp True pr))" and u: "\<not> red u"
  shows "\<exists>T'. insert_step_right T x = Some (T', p) \<and>
     rep T' q C (Nd (Nd u g kg True b) x kx False (Nd c p kp True pr)) \<and>
     upd_only T T' (set (addrs (Nd u g kg cg (Nd (Nd b x kx cx c) p kp True pr))) \<union> set (caddrs C))"
proof -
  have R1: "rep (mirror T) q (map mframe C)
      (Nd (Nd (mtree pr) p kp True (Nd (mtree c) x kx cx (mtree b))) g kg cg (mtree u))"
    using R rep_mirror [of T q C "Nd u g kg cg (Nd (Nd b x kx cx c) p kp True pr)"] by simp
  have "\<not> red (mtree u)" using u by simp
  from step_left_rotate2 [OF R1 this] obtain T1 where
    "insert_step_left (mirror T) x = Some (T1, p)"
    "rep T1 q (map mframe C) (mtree (Nd (Nd u g kg True b) x kx False (Nd c p kp True pr)))"
    "upd_only (mirror T) T1 (set (addrs (Nd u g kg cg (Nd (Nd b x kx cx c) p kp True pr))) \<union> set (caddrs C))"
    by (auto simp: Un_ac insert_commute)
  from step_right_transfer [OF this subset_refl] show ?thesis .
qed

section \<open>The loop\<close>

lemma insert_loop_stop:
  assumes "rep T q C t" "\<not> cred C" "t \<noteq> Lf"
  shows "insert_loop T (rp (rb_sentinel T) t) = Some T"
proof (cases C)
  case Nil
  with assms show ?thesis by (subst insert_loop.simps) (simp add: rep_root)
next
  case (Cons f D)
  obtain l a k c r where t: "t = Nd l a k c r" using assms(3) by (cases t) auto
  have pr: "get_parent T a = Some (cpar q C)" using rep_reads(3) assms(1) t by blast
  have "agc_rbt_is_red T (cpar q C) = Some False"
    using assms(1,2) Cons by (cases f) (auto simp: rep_plug1 rep_reads)
  with pr t show ?thesis by (subst insert_loop.simps) simp
qed

lemma insert_loop_reads:
  assumes R: "rep T q (f # G # C) t" and t: "t \<noteq> Lf" and f: "cred [f]" and P: "P = plug1 f t"
  shows "rp (rb_sentinel T) t \<noteq> rb_root T"
    "get_parent T (rp (rb_sentinel T) t) = Some (rp (rb_sentinel T) P)"
    "agc_rbt_is_red T (rp (rb_sentinel T) P) = Some True"
    "get_parent T (rp (rb_sentinel T) P) = Some (cpar q (G # C))"
proof -
  show "rp (rb_sentinel T) t \<noteq> rb_root T"
    using t by (intro rep_not_root [OF R]) (cases t; simp)+
  have RP: "rep T q (G # C) P" using R P by (simp add: rep_plug1)
  obtain l a k c r where t': "t = Nd l a k c r" using t by (cases t) auto
  obtain x b m d y where P': "P = Nd x b m d y" "d" "cpar q (f # G # C) = b"
    using P f by (cases f) auto
  show "get_parent T (rp (rb_sentinel T) t) = Some (rp (rb_sentinel T) P)"
    using rep_reads(3) [of T q _ l a k c r] R P' t' by simp
  show "agc_rbt_is_red T (rp (rb_sentinel T) P) = Some True"
    "get_parent T (rp (rb_sentinel T) P) = Some (cpar q (G # C))"
    using rep_reads(3,5) [of T q "G # C" x b m d y] RP P' by simp_all
qed

lemma insert_loop_step:
  assumes R: "rep T q (f # G # C) t" and t: "t \<noteq> Lf" and f: "cred [f]"
    and n: "n = rp (rb_sentinel T) t"
  shows "insert_loop T n = Option.bind (case G of FL _ _ _ _ \<Rightarrow> insert_step_left T n
     | FR _ _ _ _ \<Rightarrow> insert_step_right T n) (\<lambda>r. insert_loop (fst r) (snd r))"
proof -
  let ?p = "rp (rb_sentinel T) (plug1 f t)"
  note reads = insert_loop_reads [OF R t f refl]
  have RP: "rep T q C (plug1 G (plug1 f t))" using R by (simp add: rep_plug1)
  show ?thesis
  proof (cases G)
    case (FL g kg cg u)
    have "get_left T g = Some ?p"
      using rep_reads(1) [of T q C _ g kg cg u] RP FL by simp
    then show ?thesis
      using reads FL n by (subst insert_loop.simps) simp
  next
    case (FR u g kg cg)
    have l: "get_left T g = Some (rp (rb_sentinel T) u)"
      using rep_reads(1) [of T q C u g kg cg] RP FR by simp
    have "?p \<in> set (addrs (plug1 f t))" by (cases f) auto
    then have "?p \<noteq> rp (rb_sentinel T) u"
      using RP FR shape_addrs [of "rb_mem T" "rb_sentinel T" g "plug1 f t"]
      by (cases u) (auto simp: rep_def)
    then show ?thesis
      using reads FR n l by (subst insert_loop.simps) simp
  qed
qed

text \<open>What a run of the loop from \<open>n\<close> is to achieve: the tree \<open>r\<close>, no node outside \<open>A\<close> touched.\<close>

definition loop_result :: "rbtree \<Rightarrow> ptr \<Rightarrow> ptr \<Rightarrow> rbt \<Rightarrow> ptr set \<Rightarrow> bool" where
  "loop_result T n q r A \<longleftrightarrow>
     (\<exists>T'. insert_loop T n = Some T' \<and> rep T' q [] r \<and> upd_only T T' A)"

lemma loop_end:
  assumes "rep T q C t" "t \<noteq> Lf" "\<not> cred C"
  shows "loop_result T (rp (rb_sentinel T) t) q (plug C t) A"
  using insert_loop_stop [OF assms(1,3,2)] assms(1) rep_plug [of T q C t]
  by (auto simp: loop_result_def)

lemma loop_up:
  assumes "insert_loop T n = Option.bind (Some (T1, g)) (\<lambda>r. insert_loop (fst r) (snd r))"
    "upd_only T T1 A" "loop_result T1 g q r B" "A \<subseteq> U" "B \<subseteq> U"
  shows "loop_result T n q r U"
  using assms upd_only_chain [of T T1 A _ B U] by (auto simp: loop_result_def)

lemma loop_left:
  assumes R: "rep T q (f # FL g kg cg u # C) t" and t: "t \<noteq> Lf" and f: "cred [f]"
    and up: "\<And>T1. rep T1 q C (Nd (paint False (plug1 f t)) g kg True (blacken u)) \<Longrightarrow> red u \<Longrightarrow>
      loop_result T1 g q r (set (addrs (Nd (plug1 f t) g kg True u)) \<union> set (caddrs C))"
    and fin: "\<not> red u \<Longrightarrow> r = plug C (case f of FL p kp cp b \<Rightarrow> Nd t p kp False (Nd b g kg True u)
      | FR a p kp cp \<Rightarrow> (case t of Nd b x kx cx c \<Rightarrow> Nd (Nd a p kp True b) x kx False (Nd c g kg True u)))"
  shows "loop_result T (rp (rb_sentinel T) t) q r (set (addrs t) \<union> set (caddrs (f # FL g kg cg u # C)))"
proof -
  let ?n = "rp (rb_sentinel T) t"
  let ?U = "set (addrs t) \<union> set (caddrs (f # FL g kg cg u # C))"
  note step = insert_loop_step [OF R t f refl, simplified]
  have R0: "rep T q C (Nd (plug1 f t) g kg cg u)" using R by (simp add: rep_plug1)
  have par: "get_parent T ?n = Some (rp (rb_sentinel T) (plug1 f t))"
    using insert_loop_reads(2) [OF R t f refl] .
  have U: "set (addrs (Nd (plug1 f t) g kg c u)) \<union> set (caddrs C) \<subseteq> ?U" for c by (cases f) auto
  show ?thesis
  proof (cases "red u")
    case True
    obtain x b m d y where P: "plug1 f t = Nd x b m d y" by (cases f) auto
    from step_left_recolor [OF R0 [unfolded P] par [unfolded P, simplified] True]
    obtain T1 where T1: "insert_step_left T ?n = Some (T1, g)"
      "upd_only T T1 (set (addrs (Nd (plug1 f t) g kg cg u)))"
      and "rep T1 q C (Nd (paint False (plug1 f t)) g kg True (blacken u))"
      unfolding P by auto
    from up [OF this(3) True] show ?thesis
      by (rule loop_up [OF step [unfolded T1(1)] T1(2)]) (use U in auto)
  next
    case False
    show ?thesis
    proof (cases f)
      case (FL p kp cp b)
      with f step_left_rotate [OF _ False t] R0 obtain T1 where
        T1: "insert_step_left T ?n = Some (T1, ?n)"
        "upd_only T T1 (set (addrs (Nd (plug1 f t) g kg cg u)) \<union> set (caddrs C))"
        and R1: "rep T1 q C (Nd t p kp False (Nd b g kg True u))" by force
      have "loop_result T1 ?n q r {}"
        using loop_end [OF rep_down_left [OF R1] t] upd_only_sentinel [OF T1(2)] fin [OF False] FL
        by simp
      then show ?thesis
        by (rule loop_up [OF step [unfolded T1(1)] T1(2)]) (use U in auto)
    next
      case (FR a p kp cp)
      obtain b x kx cx c where t': "t = Nd b x kx cx c" using t by (cases t) auto
      with f FR step_left_rotate2 [OF _ False] R0 obtain T1 where
        T1: "insert_step_left T ?n = Some (T1, p)"
        "upd_only T T1 (set (addrs (Nd (plug1 f t) g kg cg u)) \<union> set (caddrs C))"
        and R1: "rep T1 q C (Nd (Nd a p kp True b) x kx False (Nd c g kg True u))" by force
      have "loop_result T1 p q r {}"
        using loop_end [OF rep_down_left [OF R1]] fin [OF False] FR t' by simp
      then show ?thesis
        by (rule loop_up [OF step [unfolded T1(1)] T1(2)]) (use U in auto)
    qed
  qed
qed

lemma loop_right:
  assumes R: "rep T q (f # FR u g kg cg # C) t" and t: "t \<noteq> Lf" and f: "cred [f]"
    and up: "\<And>T1. rep T1 q C (Nd (blacken u) g kg True (paint False (plug1 f t))) \<Longrightarrow> red u \<Longrightarrow>
      loop_result T1 g q r (set (addrs (Nd u g kg True (plug1 f t))) \<union> set (caddrs C))"
    and fin: "\<not> red u \<Longrightarrow> r = plug C (case f of FR a p kp cp \<Rightarrow> Nd (Nd u g kg True a) p kp False t
      | FL p kp cp c \<Rightarrow> (case t of Nd a x kx cx b \<Rightarrow> Nd (Nd u g kg True a) x kx False (Nd b p kp True c)))"
  shows "loop_result T (rp (rb_sentinel T) t) q r (set (addrs t) \<union> set (caddrs (f # FR u g kg cg # C)))"
proof -
  let ?n = "rp (rb_sentinel T) t"
  let ?U = "set (addrs t) \<union> set (caddrs (f # FR u g kg cg # C))"
  note step = insert_loop_step [OF R t f refl, simplified]
  have R0: "rep T q C (Nd u g kg cg (plug1 f t))" using R by (simp add: rep_plug1)
  have par: "get_parent T ?n = Some (rp (rb_sentinel T) (plug1 f t))"
    using insert_loop_reads(2) [OF R t f refl] .
  have U: "set (addrs (Nd u g kg c (plug1 f t))) \<union> set (caddrs C) \<subseteq> ?U" for c by (cases f) auto
  show ?thesis
  proof (cases "red u")
    case True
    obtain x b m d y where P: "plug1 f t = Nd x b m d y" by (cases f) auto
    from step_right_recolor [OF R0 [unfolded P] par [unfolded P, simplified] True]
    obtain T1 where T1: "insert_step_right T ?n = Some (T1, g)"
      "upd_only T T1 (set (addrs (Nd u g kg cg (plug1 f t))))"
      and "rep T1 q C (Nd (blacken u) g kg True (paint False (plug1 f t)))"
      unfolding P by auto
    from up [OF this(3) True] show ?thesis
      by (rule loop_up [OF step [unfolded T1(1)] T1(2)]) (use U in auto)
  next
    case False
    show ?thesis
    proof (cases f)
      case (FR a p kp cp)
      with f step_right_rotate [OF _ False t] R0 obtain T1 where
        T1: "insert_step_right T ?n = Some (T1, ?n)"
        "upd_only T T1 (set (addrs (Nd u g kg cg (plug1 f t))) \<union> set (caddrs C))"
        and R1: "rep T1 q C (Nd (Nd u g kg True a) p kp False t)" by force
      have "loop_result T1 ?n q r {}"
        using loop_end [OF rep_down_right [OF R1] t] upd_only_sentinel [OF T1(2)] fin [OF False] FR
        by simp
      then show ?thesis
        by (rule loop_up [OF step [unfolded T1(1)] T1(2)]) (use U in auto)
    next
      case (FL p kp cp c)
      obtain a x kx cx b where t': "t = Nd a x kx cx b" using t by (cases t) auto
      with f FL step_right_rotate2 [OF _ False] R0 obtain T1 where
        T1: "insert_step_right T ?n = Some (T1, p)"
        "upd_only T T1 (set (addrs (Nd u g kg cg (plug1 f t))) \<union> set (caddrs C))"
        and R1: "rep T1 q C (Nd (Nd u g kg True a) x kx False (Nd b p kp True c))" by force
      have "loop_result T1 p q r {}"
        using loop_end [OF rep_down_right [OF R1]] fin [OF False] FL t' by simp
      then show ?thesis
        by (rule loop_up [OF step [unfolded T1(1)] T1(2)]) (use U in auto)
    qed
  qed
qed

lemma insert_loop_ok:
  assumes "rep T q C t" "t \<noteq> Lf" "root_black C"
  shows "loop_result T (rp (rb_sentinel T) t) q (ins_fix C t) (set (addrs t) \<union> set (caddrs C))"
  using assms
proof (induction C t arbitrary: T rule: ins_fix.induct)
  case (1 p kp b g kg cg u C t)
  have "root_black C" using "1.prems"(3) by (auto dest: root_black_tl)
  with "1.IH" show ?case
    by (intro loop_left [OF "1.prems"(1,2)]) fastforce+
next
  case (2 a p kp g kg cg u C b x kx cx c)
  have "root_black C" using "2.prems"(3) by (auto dest: root_black_tl)
  with "2.IH" show ?case
    by (intro loop_left [OF "2.prems"(1,2)]) fastforce+
next
  case (3 a p kp u g kg cg C t)
  have "root_black C" using "3.prems"(3) by (auto dest: root_black_tl)
  with "3.IH" show ?case
    by (intro loop_right [OF "3.prems"(1,2)]) fastforce+
next
  case (4 p kp c u g kg cg C a x kx cx b)
  have "root_black C" using "4.prems"(3) by (auto dest: root_black_tl)
  with "4.IH" show ?case
    by (intro loop_right [OF "4.prems"(1,2)]) fastforce+
qed (simp_all add: loop_end del: plug.simps)


section \<open>The binary insertion\<close>

fun is_left :: "frame list \<Rightarrow> bool" where
  "is_left (FL _ _ _ _ # _) = True"
| "is_left _ = False"

lemma insert_descend_ok:
  assumes "rep T q C t" "t \<noteq> Lf" "get_key T n = Some x"
  shows "insert_descend lt T (rp (rb_sentinel T) t) n =
     Some (cpar q (place lt x t C), is_left (place lt x t C))"
  using assms
proof (induction t arbitrary: C)
  case (Nd l a k c r)
  note rd = rep_reads [OF Nd.prems(1)]
  have na: "a \<noteq> rb_sentinel T" using Nd.prems(1) by (simp add: rep_def)
  have ch: "rp (rb_sentinel T) u = rb_sentinel T \<longleftrightarrow> u = Lf" if "u = l \<or> u = r" for u
    using Nd.prems(1) that by (cases u) (auto simp: rep_def)
  show ?case
  proof (cases "lt x k")
    case True
    with Nd.IH(1) [OF rep_down_left [OF Nd.prems(1)]] Nd.prems(3) rd ch show ?thesis
      by (cases "l = Lf") (simp_all add: insert_descend.simps [of lt T a])
  next
    case False
    with Nd.IH(2) [OF rep_down_right [OF Nd.prems(1)]] Nd.prems(3) rd ch show ?thesis
      by (cases "r = Lf") (simp_all add: insert_descend.simps [of lt T a])
  qed
qed simp

lemma place_not_Nil: "t \<noteq> Lf \<or> C \<noteq> [] \<Longrightarrow> place lt x t C \<noteq> []"
  by (induction lt x t C rule: place.induct) auto

lemma hang_ok:
  assumes P: "rep T q (f # D) Lf"
    and n: "rb_mem T n = Some nn" "n \<noteq> NULL" "n \<noteq> rb_sentinel T" "n \<notin> set (caddrs (f # D))"
  shows "\<exists>T'. hang T (cpar q (f # D)) (is_left (f # D)) n = Some T' \<and>
     rep T' q (f # D) (Nd Lf n (rb_key nn) True Lf) \<and> upd_only T T' (insert n (set (caddrs (f # D))))"
proof -
  let ?s = "rb_sentinel T"
  let ?nn = "nn\<lparr>rb_parent := cpar q (f # D), rb_left := ?s, rb_right := ?s, rb_red := True\<rparr>"
  let ?a = "cpar q (f # D)"
  obtain an where an: "rb_mem T ?a = Some an" and a: "?a \<noteq> NULL" "?a \<noteq> n" "?a \<noteq> ?s" "?a \<notin> set (caddrs D)"
    using P n(4) by (cases f) (auto simp: rep_def)
  define an' where "an' = (if is_left (f # D) then an\<lparr>rb_left := n\<rparr> else an\<lparr>rb_right := n\<rparr>)"
  define T' where "T' = T\<lparr>rb_mem := (rb_mem T)(?a \<mapsto> an', n \<mapsto> ?nn)\<rparr>"
  have "hang T ?a (is_left (f # D)) n = Some T'"
    using an a n unfolding hang_def
    by (cases "is_left (f # D)") (simp_all add: heap_defs T'_def an'_def fun_upd_twist)
  moreover have "rep T' q (f # D) (Nd Lf n (rb_key nn) True Lf)"
    using P n an a by (cases f) (auto simp: rep_def T'_def an'_def frame_simps)
  moreover have "upd_only T T' (insert n (set (caddrs (f # D))))"
    by (cases f) (simp_all add: upd_only_def T'_def)
  ultimately show ?thesis by blast
qed

lemma insert_with_ok:
  assumes R: "rep T q C t" and t: "t \<noteq> Lf"
    and n: "rb_mem T n = Some nn" "n \<noteq> NULL" "n \<noteq> rb_sentinel T" "n \<notin> set (addrs t) \<union> set (caddrs C)"
  shows "\<exists>T'. insert_with lt T (rp (rb_sentinel T) t) n = Some T' \<and>
     rep T' q (place lt (rb_key nn) t C) (Nd Lf n (rb_key nn) True Lf) \<and>
     upd_only T T' (insert n (set (addrs t) \<union> set (caddrs C)))"
proof -
  let ?P = "place lt (rb_key nn) t C"
  have k: "get_key T n = Some (rb_key nn)" using n by (simp add: heap_defs)
  have P: "rep T q ?P Lf" using R rep_plug [of T q ?P Lf] rep_plug [of T q C t] plug_place by simp
  have A: "set (caddrs ?P) = set (addrs t) \<union> set (caddrs C)"
    using addrs_plug [of ?P Lf] addrs_plug [of C t] plug_place [of lt "rb_key nn" t C] by simp
  have "?P \<noteq> []" using t by (intro place_not_Nil) simp
  then obtain f D where fD: "?P = f # D" by (cases ?P) auto
  have "insert_with lt T (rp (rb_sentinel T) t) n = hang T (cpar q ?P) (is_left ?P) n"
    unfolding insert_with_def insert_descend_ok [OF R t k, of lt] by simp
  moreover have "n \<notin> set (caddrs ?P)" using n(4) A by simp
  note hang_ok [of T q f D n nn, folded fD, OF P n(1-3) this]
  ultimately show ?thesis by (simp only: A)
qed

section \<open>The whole insertion\<close>

text \<open>
  \<open>tree_of T xs\<close>: the memory of \<open>T\<close> holds a red-black tree whose nodes and keys are, in order, \<open>xs\<close>.
\<close>

definition tree_of :: "rbtree \<Rightarrow> (ptr \<times> key) list \<Rightarrow> bool" where
  "tree_of T xs \<longleftrightarrow> (\<exists>q t. rep T q [] t \<and> rb_inv t \<and> io t = xs)"

lemma tree_ofI: "rep T q [] t \<Longrightarrow> rb_inv t \<Longrightarrow> io t = xs \<Longrightarrow> tree_of T xs"
  by (auto simp: tree_of_def)

text \<open>A node that can be inserted: allocated, and in no tree.\<close>

definition fresh_node :: "rbtree \<Rightarrow> ptr \<Rightarrow> (ptr \<times> key) list \<Rightarrow> key \<Rightarrow> bool" where
  "fresh_node T n xs k \<longleftrightarrow> n \<noteq> NULL \<and> n \<noteq> rb_sentinel T \<and> n \<notin> fst ` set xs \<and> get_key T n = Some k"

fun key_lt :: "insert_func \<Rightarrow> key \<Rightarrow> key \<Rightarrow> bool" where
  "key_lt Fn_insert_value = value_lt"
| "key_lt Fn_insert_timer_value = timer_lt"

lemma call_insert_with: "call_insert f = insert_with (key_lt f)"
  by (cases f) (simp_all add: agc_rbtree_insert_value_def agc_rbtree_insert_timer_value_def)

lemma addrs_io: "set (addrs t) = fst ` set (io t)"
  using map_fst_io [of t] by (metis set_map)

lemma insert_empty:
  assumes "rep T q [] Lf" "n \<noteq> NULL" "n \<noteq> rb_sentinel T" "rb_mem T n = Some nn"
  shows "\<exists>T'. agc_rbtree_insert T n = Some T' \<and>
     rep T' NULL [] (Nd Lf n (rb_key nn) False Lf) \<and> upd_only T T' {n}"
  using assms unfolding agc_rbtree_insert_def
  by (auto simp: rep_def heap_defs upd_only_def)

lemma insert_nonempty:
  assumes R: "rep T q [] t" and t: "t \<noteq> Lf" and I: "rb_inv t" and n: "n \<noteq> NULL"
    "n \<noteq> rb_sentinel T" "rb_mem T n = Some nn" "n \<notin> set (addrs t)"
  defines "P \<equiv> place (key_lt (rb_insert T)) (rb_key nn) t []"
  defines "m \<equiv> Nd Lf n (rb_key nn) True Lf"
  shows "\<exists>T'. agc_rbtree_insert T n = Some T' \<and> rep T' q [] (blacken (ins_fix P m)) \<and>
     rb_inv (blacken (ins_fix P m)) \<and> upd_only T T' (insert n (set (addrs t)))"
proof -
  let ?A = "insert n (set (addrs t))"
  have root: "rb_root T = rp (rb_sentinel T) t" using rep_root [OF R] .
  have nl: "rb_root T \<noteq> rb_sentinel T" using R t root by (cases t) (auto simp: rep_def)
  from insert_with_ok [OF R t n(3,1,2)] n(4) obtain T1 where
    T1: "insert_with (key_lt (rb_insert T)) T (rp (rb_sentinel T) t) n = Some T1"
    and R1: "rep T1 q P m" and U1: "upd_only T T1 ?A" by (auto simp: P_def m_def)
  have "plug P Lf = t" by (simp add: P_def plug_place)
  then have inv: "cinvc P" "cinvh P 0" "root_black P"
    using I rb_inv_plug [of P Lf] by auto
  then have J: "rb_inv (blacken (ins_fix P m))"
    by (intro ins_fix_inv) (auto simp: m_def)
  from insert_loop_ok [OF R1 _ inv(3)] obtain T2 where
    T2: "insert_loop T1 n = Some T2" "rep T2 q [] (ins_fix P m)"
    "upd_only T1 T2 (set (addrs m) \<union> set (caddrs P))"
    by (auto simp: loop_result_def m_def)
  have A: "set (addrs m) \<union> set (caddrs P) \<subseteq> ?A"
    using addrs_plug [of P Lf] plug_place [of "key_lt (rb_insert T)" "rb_key nn" t "[]"]
    by (auto simp: m_def P_def)
  have ne: "ins_fix P m \<noteq> Lf" using ins_fix_io [of P m] by (auto simp: m_def)
  have A2: "set (addrs (ins_fix P m)) \<subseteq> ?A"
    using A addrs_plug [of P m] by (simp add: addrs_io ins_fix_io)
  from rep_blacken [OF T2(2) ne] obtain T3 where
    T3: "agc_rbt_black T2 (rp (rb_sentinel T2) (ins_fix P m)) = Some T3"
    "rep T3 q [] (blacken (ins_fix P m))" "upd_only T2 T3 (set (addrs (ins_fix P m)))" by blast
  have "agc_rbtree_insert T n = Some T3"
    unfolding agc_rbtree_insert_def
    using nl T1 T2(1) T3(1) rep_root [OF T2(2)] root by (simp add: call_insert_with)
  moreover have "upd_only T T3 ?A"
    by (rule upd_only_chain3 [OF U1 T2(3) T3(3)]) (use A A2 in auto)
  ultimately show ?thesis using T3(2) J by blast
qed

text \<open>The insertion as an operation on ordered lists of entries, for any order the keys obey.\<close>

lemma insert_tree_of:
  assumes T: "tree_of T xs" and n: "fresh_node T n xs k"
    and o: "key_order (key_lt (rb_insert T)) K" "k \<in> K" "snd ` set xs \<subseteq> K"
      "ordered (key_lt (rb_insert T)) (map snd xs)"
  shows "\<exists>T'. agc_rbtree_insert T n = Some T' \<and>
     tree_of T' (insort_entry (key_lt (rb_insert T)) (n, k) xs) \<and> upd_only T T' (insert n (fst ` set xs))"
proof -
  let ?lt = "key_lt (rb_insert T)"
  from T obtain q t where R: "rep T q [] t" and I: "rb_inv t" and xs: "io t = xs"
    by (auto simp: tree_of_def)
  from n obtain nn where nn: "n \<noteq> NULL" "n \<noteq> rb_sentinel T" "rb_mem T n = Some nn" "rb_key nn = k"
    "n \<notin> set (addrs t)"
    by (auto simp: fresh_node_def heap_defs addrs_io xs split: if_splits)
  show ?thesis
  proof (cases "t = Lf")
    case True
    with R xs insert_empty [of T q n nn] nn obtain T' where "agc_rbtree_insert T n = Some T'"
      "rep T' NULL [] (Nd Lf n k False Lf)" "upd_only T T' {n}" by auto
    then show ?thesis
      using True xs unfolding tree_of_def
      by (intro exI [of _ T'] conjI exI [of _ NULL] exI [of _ "Nd Lf n k False Lf"])
        (auto simp: rb_inv_def insort_entry_def)
  next
    case False
    let ?P = "place ?lt k t []" and ?m = "Nd Lf n k True Lf"
    from insert_nonempty [OF R False I nn(1,2,3,5)] nn(4) obtain T' where
      "agc_rbtree_insert T n = Some T'" "rep T' q [] (blacken (ins_fix ?P ?m))"
      "rb_inv (blacken (ins_fix ?P ?m))" "upd_only T T' (insert n (set (addrs t)))" by auto
    moreover have "io (blacken (ins_fix ?P ?m)) = insort_entry ?lt (n, k) xs"
      using key_order.place_insort [OF o(1), of t k n] o xs by (simp add: ins_fix_io)
    ultimately show ?thesis
      using tree_ofI [of T' q "blacken (ins_fix ?P ?m)"] xs by (auto simp: addrs_io)
  qed
qed

end
