(* ===== verification/Rb_Delete.thy ===== *)
theory Rb_Delete
  imports Rb_Insert
begin

text \<open>
  \<open>agc_rbtree_delete\<close> on the memory, and the proof that it refines the functional deletion: it
  returns, touches only nodes of the tree and the sentinel, and leaves a red-black tree holding the
  other entries in the same order. The sentinel stands for every leaf; while a leaf is being
  rebalanced its parent field names the node above the hole.
\<close>

section \<open>The code\<close>

text \<open>The node \<open>subst\<close> that leaves its place and the child \<open>temp\<close> that takes it.\<close>

definition delete_pick :: "rbtree \<Rightarrow> ptr \<Rightarrow> (ptr \<times> ptr) option" where
  "delete_pick T node = do {
     l \<leftarrow> get_left T node;
     r \<leftarrow> get_right T node;
     if l = rb_sentinel T then Some (node, r)
     else if r = rb_sentinel T then Some (node, l)
     else do {
       subst \<leftarrow> agc_rbtree_min T r;
       sl \<leftarrow> get_left T subst;
       sr \<leftarrow> get_right T subst;
       Some (subst, if sl \<noteq> rb_sentinel T then sl else sr) } }"

definition debug_clear :: "rbtree \<Rightarrow> ptr \<Rightarrow> rbtree option" where
  "debug_clear T node = do {
     T \<leftarrow> set_left T node NULL;
     T \<leftarrow> set_right T node NULL;
     T \<leftarrow> set_parent T node NULL;
     set_key T node 0 }"

definition replace_child :: "rbtree \<Rightarrow> ptr \<Rightarrow> ptr \<Rightarrow> rbtree option" where
  "replace_child T subst temp = do {
     sp \<leftarrow> get_parent T subst;
     spl \<leftarrow> get_left T sp;
     if subst = spl then set_left T sp temp else set_right T sp temp }"

text \<open>\<open>subst\<close> takes the links, the colour and the place of \<open>node\<close>.\<close>

definition take_place :: "rbtree \<Rightarrow> ptr \<Rightarrow> ptr \<Rightarrow> rbtree option" where
  "take_place T subst node = do {
     nl \<leftarrow> get_left T node;
     T \<leftarrow> set_left T subst nl;
     nr \<leftarrow> get_right T node;
     T \<leftarrow> set_right T subst nr;
     np \<leftarrow> get_parent T node;
     T \<leftarrow> set_parent T subst np;
     T \<leftarrow> agc_rbt_copy_color T subst node;
     T \<leftarrow> relink_left T node subst;
     sl \<leftarrow> get_left T subst;
     T \<leftarrow> (if sl \<noteq> rb_sentinel T then set_parent T sl subst else Some T);
     sr \<leftarrow> get_right T subst;
     if sr \<noteq> rb_sentinel T then set_parent T sr subst else Some T }"

definition delete_splice :: "rbtree \<Rightarrow> ptr \<Rightarrow> ptr \<Rightarrow> ptr \<Rightarrow> rbtree option" where
  "delete_splice T node subst temp = do {
     T \<leftarrow> replace_child T subst temp;
     sp \<leftarrow> get_parent T subst;
     if subst = node then set_parent T temp sp
     else do {
       T \<leftarrow> (if sp = node then set_parent T temp subst else set_parent T temp sp);
       take_place T subst node } }"

text \<open>
  One pass of the fixup when \<open>temp\<close> is a left child: a red sibling is rotated up first, then a
  sibling with two black children is recoloured, and otherwise one or two rotations end the loop.
\<close>

definition both_black :: "rbtree \<Rightarrow> ptr \<Rightarrow> bool option" where
  "both_black T w = do {
     l \<leftarrow> get_left T w;
     lr \<leftarrow> agc_rbt_is_red T l;
     if lr then Some False
     else do {
       r \<leftarrow> get_right T w;
       rr \<leftarrow> agc_rbt_is_red T r;
       Some (\<not> rr) } }"

definition red_sibling_left :: "rbtree \<Rightarrow> ptr \<Rightarrow> ptr \<Rightarrow> (rbtree \<times> ptr) option" where
  "red_sibling_left T temp w = do {
     T \<leftarrow> agc_rbt_black T w;
     par \<leftarrow> get_parent T temp;
     T \<leftarrow> agc_rbt_red T par;
     T \<leftarrow> agc_rbtree_left_rotate T par;
     par \<leftarrow> get_parent T temp;
     w \<leftarrow> get_right T par;
     Some (T, w) }"

definition near_nephew_left :: "rbtree \<Rightarrow> ptr \<Rightarrow> ptr \<Rightarrow> (rbtree \<times> ptr) option" where
  "near_nephew_left T temp w = do {
     wl \<leftarrow> get_left T w;
     T \<leftarrow> agc_rbt_black T wl;
     T \<leftarrow> agc_rbt_red T w;
     T \<leftarrow> agc_rbtree_right_rotate T w;
     par \<leftarrow> get_parent T temp;
     w \<leftarrow> get_right T par;
     Some (T, w) }"

definition far_nephew_left :: "rbtree \<Rightarrow> ptr \<Rightarrow> ptr \<Rightarrow> rbtree option" where
  "far_nephew_left T temp w = do {
     par \<leftarrow> get_parent T temp;
     T \<leftarrow> agc_rbt_copy_color T w par;
     T \<leftarrow> agc_rbt_black T par;
     wr \<leftarrow> get_right T w;
     T \<leftarrow> agc_rbt_black T wr;
     agc_rbtree_left_rotate T par }"

definition black_sibling_left :: "rbtree \<Rightarrow> ptr \<Rightarrow> ptr \<Rightarrow> (rbtree \<times> ptr) option" where
  "black_sibling_left T temp w = do {
     bb \<leftarrow> both_black T w;
     if bb then do {
       T \<leftarrow> agc_rbt_red T w;
       par \<leftarrow> get_parent T temp;
       Some (T, par) }
     else do {
       wr \<leftarrow> get_right T w;
       wrr \<leftarrow> agc_rbt_is_red T wr;
       p \<leftarrow> (if \<not> wrr then near_nephew_left T temp w else Some (T, w));
       T \<leftarrow> far_nephew_left (fst p) temp (snd p);
       Some (T, rb_root T) } }"

definition delete_step_left :: "rbtree \<Rightarrow> ptr \<Rightarrow> (rbtree \<times> ptr) option" where
  "delete_step_left T temp = do {
     par \<leftarrow> get_parent T temp;
     w \<leftarrow> get_right T par;
     r \<leftarrow> agc_rbt_is_red T w;
     p \<leftarrow> (if r then red_sibling_left T temp w else Some (T, w));
     black_sibling_left (fst p) temp (snd p) }"

text \<open>The same with left and right exchanged.\<close>

definition red_sibling_right :: "rbtree \<Rightarrow> ptr \<Rightarrow> ptr \<Rightarrow> (rbtree \<times> ptr) option" where
  "red_sibling_right T temp w = do {
     T \<leftarrow> agc_rbt_black T w;
     par \<leftarrow> get_parent T temp;
     T \<leftarrow> agc_rbt_red T par;
     T \<leftarrow> agc_rbtree_right_rotate T par;
     par \<leftarrow> get_parent T temp;
     w \<leftarrow> get_left T par;
     Some (T, w) }"

definition near_nephew_right :: "rbtree \<Rightarrow> ptr \<Rightarrow> ptr \<Rightarrow> (rbtree \<times> ptr) option" where
  "near_nephew_right T temp w = do {
     wr \<leftarrow> get_right T w;
     T \<leftarrow> agc_rbt_black T wr;
     T \<leftarrow> agc_rbt_red T w;
     T \<leftarrow> agc_rbtree_left_rotate T w;
     par \<leftarrow> get_parent T temp;
     w \<leftarrow> get_left T par;
     Some (T, w) }"

definition far_nephew_right :: "rbtree \<Rightarrow> ptr \<Rightarrow> ptr \<Rightarrow> rbtree option" where
  "far_nephew_right T temp w = do {
     par \<leftarrow> get_parent T temp;
     T \<leftarrow> agc_rbt_copy_color T w par;
     T \<leftarrow> agc_rbt_black T par;
     wl \<leftarrow> get_left T w;
     T \<leftarrow> agc_rbt_black T wl;
     agc_rbtree_right_rotate T par }"

text \<open>Both branches of the loop test the left child of \<open>w\<close> first.\<close>

definition black_sibling_right :: "rbtree \<Rightarrow> ptr \<Rightarrow> ptr \<Rightarrow> (rbtree \<times> ptr) option" where
  "black_sibling_right T temp w = do {
     bb \<leftarrow> both_black T w;
     if bb then do {
       T \<leftarrow> agc_rbt_red T w;
       par \<leftarrow> get_parent T temp;
       Some (T, par) }
     else do {
       wl \<leftarrow> get_left T w;
       wlr \<leftarrow> agc_rbt_is_red T wl;
       p \<leftarrow> (if \<not> wlr then near_nephew_right T temp w else Some (T, w));
       T \<leftarrow> far_nephew_right (fst p) temp (snd p);
       Some (T, rb_root T) } }"

definition delete_step_right :: "rbtree \<Rightarrow> ptr \<Rightarrow> (rbtree \<times> ptr) option" where
  "delete_step_right T temp = do {
     par \<leftarrow> get_parent T temp;
     w \<leftarrow> get_left T par;
     r \<leftarrow> agc_rbt_is_red T w;
     p \<leftarrow> (if r then red_sibling_right T temp w else Some (T, w));
     black_sibling_right (fst p) temp (snd p) }"

partial_function (option) delete_loop :: "rbtree \<Rightarrow> ptr \<Rightarrow> (rbtree \<times> ptr) option" where
  "delete_loop T temp =
     (if temp = rb_root T then Some (T, temp)
      else do {
        r \<leftarrow> agc_rbt_is_red T temp;
        if r then Some (T, temp)
        else do {
          par \<leftarrow> get_parent T temp;
          pl \<leftarrow> get_left T par;
          p \<leftarrow> (if temp = pl then delete_step_left T temp else delete_step_right T temp);
          delete_loop (fst p) (snd p) } })"

definition agc_rbtree_delete :: "rbtree \<Rightarrow> ptr \<Rightarrow> rbtree option" where
  "agc_rbtree_delete T node = do {
     (subst, temp) \<leftarrow> delete_pick T node;
     if subst = rb_root T then do {
       T \<leftarrow> agc_rbt_black (T\<lparr>rb_root := temp\<rparr>) temp;
       debug_clear T node }
     else do {
       red \<leftarrow> agc_rbt_is_red T subst;
       T \<leftarrow> delete_splice T node subst temp;
       T \<leftarrow> debug_clear T node;
       if red then Some T
       else do {
         (T, temp) \<leftarrow> delete_loop T temp;
         agc_rbt_black T temp } } }"

section \<open>The functional deletion\<close>

text \<open>
  The hole's subtree \<open>t\<close> is one black node short. With a black sibling \<open>w\<close> the step either moves
  the shortage to the parent (\<open>Inl\<close>) or ends it (\<open>Inr\<close>).
\<close>

fun sib_left :: "rbt \<Rightarrow> ptr \<Rightarrow> key \<Rightarrow> bool \<Rightarrow> rbt \<Rightarrow> rbt + rbt" where
  "sib_left t a k c (Nd wl b kb cb wr) =
     (if \<not> red wl \<and> \<not> red wr then Inl (Nd t a k c (Nd wl b kb True wr))
      else if red wr then Inr (Nd (Nd t a k False wl) b kb c (blacken wr))
      else (case wl of Nd x d kd cd y \<Rightarrow> Inr (Nd (Nd t a k False x) d kd c (Nd y b kb False wr))
            | Lf \<Rightarrow> Inr Lf))"
| "sib_left t a k c Lf = Inr Lf"

definition sib_right :: "rbt \<Rightarrow> ptr \<Rightarrow> key \<Rightarrow> bool \<Rightarrow> rbt \<Rightarrow> rbt + rbt" where
  "sib_right w a k c t = map_sum mtree mtree (sib_left (mtree t) a k c (mtree w))"

fun del_fix :: "frame list \<Rightarrow> rbt \<Rightarrow> rbt" where
  "del_fix [] t = blacken t"
| "del_fix (FL a k c w # D) t =
     (if red t then plug (FL a k c w # D) (blacken t)
      else case w of
        Nd wl b kb True wr \<Rightarrow> (case sib_left t a k True wl of
          Inl u \<Rightarrow> plug (FL b kb False wr # D) (blacken u)
        | Inr u \<Rightarrow> blacken (plug (FL b kb False wr # D) u))
      | _ \<Rightarrow> (case sib_left t a k c w of Inl u \<Rightarrow> del_fix D u | Inr u \<Rightarrow> blacken (plug D u)))"
| "del_fix (FR w a k c # D) t =
     (if red t then plug (FR w a k c # D) (blacken t)
      else case w of
        Nd wl b kb True wr \<Rightarrow> (case sib_right wr a k True t of
          Inl u \<Rightarrow> plug (FR wl b kb False # D) (blacken u)
        | Inr u \<Rightarrow> blacken (plug (FR wl b kb False # D) u))
      | _ \<Rightarrow> (case sib_right w a k c t of Inl u \<Rightarrow> del_fix D u | Inr u \<Rightarrow> blacken (plug D u)))"

text \<open>A sibling of a short subtree is not a leaf; what the step makes of it.\<close>

lemma sib_left_ok:
  assumes "bh w = Suc (bh t)" "invh t" "invh w" "invc w" "invc t" "\<not> red t" "\<not> red w"
  shows "case sib_left t a k c w of
      Inl u \<Rightarrow> invh u \<and> invc (blacken u) \<and> bh u + 1 = bh (Nd w a k c w) \<and> red u = c \<and>
        io u = io t @ (a, k) # io w
    | Inr u \<Rightarrow> invh u \<and> invc u \<and> bh u = bh (Nd w a k c w) \<and> red u = c \<and>
        io u = io t @ (a, k) # io w"
proof (cases w)
  case (Nd wl b kb cb wr)
  with assms show ?thesis
    by (cases wl) (auto simp: bh_blacken invc_blacken)
qed (use assms in simp)


lemma mtree_inv:
  "invh t \<Longrightarrow> bh (mtree t) = bh t \<and> invh (mtree t)" "invc (mtree t) = invc t" "io (mtree t) = rev (io t)"
  by (induction t) auto

lemma sib_right_ok:
  assumes "bh w = Suc (bh t)" "invh t" "invh w" "invc w" "invc t" "\<not> red t" "\<not> red w"
  shows "case sib_right w a k c t of
      Inl u \<Rightarrow> invh u \<and> invc (blacken u) \<and> bh u + 1 = bh (Nd w a k c w) \<and> red u = c \<and>
        io u = io w @ (a, k) # io t
    | Inr u \<Rightarrow> invh u \<and> invc u \<and> bh u = bh (Nd w a k c w) \<and> red u = c \<and>
        io u = io w @ (a, k) # io t"
proof -
  have "bh (mtree w) = Suc (bh (mtree t))" "invh (mtree t)" "invh (mtree w)" "invc (mtree w)"
    "invc (mtree t)" "\<not> red (mtree t)" "\<not> red (mtree w)"
    using assms by (simp_all add: mtree_inv)
  from sib_left_ok [OF this, of a k c] show ?thesis
    using assms(3) unfolding sib_right_def
    by (cases "sib_left (mtree t) a k c (mtree w)") (auto simp: mtree_inv split: if_splits)
qed

lemma del_fix_ok:
  assumes "invc (blacken t)" "invh t" "cinvc C" "cinvh C (Suc (bh t))" "root_black C"
  shows "rb_inv (del_fix C t) \<and> io (del_fix C t) = lio C @ io t @ rio C"
  using assms
proof (induction C t rule: del_fix.induct)
  case (1 t)
  then show ?case by (simp add: rb_inv_def)
next
  case (2 a k c w D t)
  have D: "root_black D" using 2(7) by (rule root_black_tl)
  show ?case
  proof (cases "red t")
    case True
    with 2 show ?thesis
      by (cases c) (auto simp: rb_inv_plug bh_blacken simp del: plug.simps)
  next
    case False
    then have t: "invc t" "blacken t = t" using 2(3) by (simp_all add: blacken_id)
    have w: "bh w = Suc (bh t)" "invh w" "invc w" "c \<Longrightarrow> \<not> red w" "c \<Longrightarrow> \<not> cred D" "cinvc D"
      using 2(5,6) by simp_all
    show ?thesis
    proof (cases "red w")
      case True
      then obtain wl b kb wr where wn: "w = Nd wl b kb True wr" by (cases w) auto
      have wl: "bh wl = Suc (bh t)" "invh wl" "invc wl" "\<not> red wl" "\<not> red wr" "invc wr" "invh wr" "bh wr = bh wl"
        using w wn by auto
      note s = sib_left_ok [OF wl(1) 2(4) wl(2,3) t(1) False wl(4), of a k True]
      have "\<not> c" using w(4) True by blast
      then have ch: "cinvh D (Suc (Suc (bh t)))" "\<not> c" using 2(6) by (simp_all add: w(1))
      show ?thesis
      proof (cases "sib_left t a k True wl")
        case (Inl u)
        with s wl w D 2(7) ch False wn show ?thesis
          by (cases D) (simp_all add: rb_inv_plug bh_blacken del: plug.simps)
      next
        case (Inr u)
        with s wl w D 2(7) ch False wn show ?thesis
          by (cases D) (simp_all add: rb_inv_blacken_plug del: plug.simps)
      qed
    next
      case False': False
      note s = sib_left_ok [OF w(1) 2(4) w(2,3) t(1) False False', of a k c]
      have dw: "del_fix (FL a k c w # D) t =
          (case sib_left t a k c w of Inl u \<Rightarrow> del_fix D u | Inr u \<Rightarrow> blacken (plug D u))"
        using False False' by (cases w) auto
      show ?thesis
      proof (cases "sib_left t a k c w")
        case (Inl u)
        then have "del_fix (FL a k c w # D) t = del_fix D u" using dw by simp
        moreover have "rb_inv (del_fix D u) \<and> io (del_fix D u) = lio D @ io u @ rio D"
          using s Inl 2 D False False' w by (cases w) auto
        ultimately show ?thesis using s Inl by simp
      next
        case (Inr u)
        with s w D 2(6) dw show ?thesis
          by (auto intro!: rb_inv_blacken_plug)
      qed
    qed
  qed
next
  case (3 w a k c D t)
  have D: "root_black D" using 3(7) by (rule root_black_tl)
  show ?case
  proof (cases "red t")
    case True
    with 3 show ?thesis
      by (cases c) (auto simp: rb_inv_plug bh_blacken simp del: plug.simps)
  next
    case False
    then have t: "invc t" "blacken t = t" using 3(3) by (simp_all add: blacken_id)
    have w: "bh w = Suc (bh t)" "invh w" "invc w" "c \<Longrightarrow> \<not> red w" "c \<Longrightarrow> \<not> cred D" "cinvc D"
      using 3(5,6) by simp_all
    show ?thesis
    proof (cases "red w")
      case True
      then obtain wl b kb wr where wn: "w = Nd wl b kb True wr" by (cases w) auto
      have wr: "bh wr = Suc (bh t)" "invh wr" "invc wr" "\<not> red wr" "\<not> red wl" "invc wl" "invh wl" "bh wl = bh wr"
        using w wn by auto
      note s = sib_right_ok [OF wr(1) 3(4) wr(2,3) t(1) False wr(4), of a k True]
      have "\<not> c" using w(4) True by blast
      then have ch: "cinvh D (Suc (Suc (bh t)))" "\<not> c" using 3(6) by (simp_all add: w(1))
      show ?thesis
      proof (cases "sib_right wr a k True t")
        case (Inl u)
        with s wr w D 3(7) ch False wn show ?thesis
          by (cases D) (simp_all add: rb_inv_plug bh_blacken del: plug.simps)
      next
        case (Inr u)
        with s wr w D 3(7) ch False wn show ?thesis
          by (cases D) (simp_all add: rb_inv_blacken_plug del: plug.simps)
      qed
    next
      case False': False
      note s = sib_right_ok [OF w(1) 3(4) w(2,3) t(1) False False', of a k c]
      have dw: "del_fix (FR w a k c # D) t =
          (case sib_right w a k c t of Inl u \<Rightarrow> del_fix D u | Inr u \<Rightarrow> blacken (plug D u))"
        using False False' by (cases w) auto
      show ?thesis
      proof (cases "sib_right w a k c t")
        case (Inl u)
        then have "del_fix (FR w a k c # D) t = del_fix D u" using dw by simp
        moreover have "rb_inv (del_fix D u) \<and> io (del_fix D u) = lio D @ io u @ rio D"
          using s Inl 3 D False False' w by (cases w) auto
        ultimately show ?thesis using s Inl by simp
      next
        case (Inr u)
        with s w D 3(6) dw show ?thesis
          by (auto intro!: rb_inv_blacken_plug)
      qed
    qed
  qed
qed


section \<open>One pass of the fixup on the memory\<close>

definition nodes :: "frame list \<Rightarrow> rbt \<Rightarrow> ptr set" where
  "nodes C t = set (addrs t) \<union> set (caddrs C)"

lemma nodes_Cons [simp]: "nodes (f # C) t = nodes C (plug1 f t)"
  by (cases f) (auto simp: nodes_def)

lemma rep_nodes: "rep T q C t \<Longrightarrow> rb_sentinel T \<notin> nodes C t \<and> NULL \<notin> nodes C t"
  using shape_addrs cshape_addrs by (fastforce simp: rep_def nodes_def)

text \<open>
  The focus \<open>x\<close> of the fixup: the root of the hole's subtree or the sentinel, with a valid parent
  field in both cases.
\<close>

definition hole :: "rbtree \<Rightarrow> ptr \<Rightarrow> frame list \<Rightarrow> rbt \<Rightarrow> ptr \<Rightarrow> bool" where
  "hole T q C t x \<longleftrightarrow> rep T q C t \<and> x = rp (rb_sentinel T) t \<and> get_parent T x = Some (cpar q C)"

lemma hole_upd:
  assumes "hole T q C t x" "upd_only T T' (nodes C t)" "rep T' q C' t" "cpar q C' = cpar q C"
  shows "hole T' q C' t x"
proof -
  have s: "rb_sentinel T' = rb_sentinel T" using assms(2) by (rule upd_only_sentinel)
  show ?thesis
  proof (cases t)
    case Lf
    have "rb_mem T' (rb_sentinel T) = rb_mem T (rb_sentinel T)"
      using assms(1,2) rep_nodes by (intro upd_only_mem) (auto simp: hole_def)
    then show ?thesis using assms Lf s by (auto simp: hole_def heap_defs split: if_split_asm)
  next
    case (Nd l a k c r)
    then show ?thesis using assms s rep_reads(3) [of T' q C' l a k c r] by (simp add: hole_def)
  qed
qed

lemma hole_node: "rep T q C (Nd l a k c r) \<Longrightarrow> hole T q C (Nd l a k c r) a"
  by (simp add: hole_def rep_reads)

lemma both_black_ok:
  assumes R: "rep T q C (Nd l w k c r)"
  shows "both_black T w = Some (\<not> red l \<and> \<not> red r)"
  using rep_is_red [OF rep_down_left [OF R]] rep_is_red [OF rep_down_right [OF R]] rep_reads(1,2) [OF R]
  by (simp add: both_black_def)

lemma rep_copy_color:
  assumes R: "rep T q C (Nd l a k c r)" and "agc_rbt_is_red T p = Some c'"
  shows "\<exists>T'. agc_rbt_copy_color T a p = Some T' \<and> rep T' q C (Nd l a k c' r) \<and> upd_only T T' {a}"
  using rep_recolor [OF R, of c'] assms(2) by (simp add: agc_rbt_copy_color_def)

lemma red_sibling_left_ok:
  assumes H: "hole T q (FL a k c (Nd wl b kb True wr) # D) t x"
  shows "\<exists>T'. red_sibling_left T x b = Some (T', rp (rb_sentinel T) wl) \<and>
     hole T' q (FL a k True wl # FL b kb False wr # D) t x \<and>
     upd_only T T' (nodes (FL a k c (Nd wl b kb True wr) # D) t)"
proof -
  let ?A = "nodes (FL a k c (Nd wl b kb True wr) # D) t"
  from H have R: "rep T q (FR t a k c # D) (Nd wl b kb True wr)" and par: "get_parent T x = Some a"
    by (auto simp: hole_def rep_plug1)
  from rep_black_node [OF R] obtain T1 where T1: "agc_rbt_black T b = Some T1" "upd_only T T1 {b}"
    and R1: "rep T1 q (FR t a k c # D) (Nd wl b kb False wr)" by blast
  have R1': "rep T1 q D (Nd t a k c (Nd wl b kb False wr))" using R1 by (simp add: rep_plug1)
  have "hole T1 q (FL a k c (Nd wl b kb False wr) # D) t x"
    using R1 by (intro hole_upd [OF H upd_only_mono [OF T1(2)]]) (auto simp: rep_plug1 nodes_def)
  then have par1: "get_parent T1 x = Some a" by (auto simp: hole_def)
  from rep_red_node [OF R1'] obtain T2 where T2: "agc_rbt_red T1 a = Some T2" "upd_only T1 T2 {a}"
    and R2: "rep T2 q D (Nd t a k True (Nd wl b kb False wr))" by blast
  from left_rotate_rep [OF R2] obtain T3 where T3: "agc_rbtree_left_rotate T2 a = Some T3"
    "upd_only T2 T3 (set (addrs (Nd t a k True (Nd wl b kb False wr))) \<union> set (caddrs D))"
    and R3: "rep T3 q D (Nd (Nd t a k True wl) b kb False wr)" by blast
  have U: "upd_only T T3 ?A"
    by (rule upd_only_chain3 [OF T1(2) T2(2) T3(2)]) (auto simp: nodes_def)
  have H3: "hole T3 q (FL a k True wl # FL b kb False wr # D) t x"
    using R3 by (intro hole_upd [OF H U]) (simp_all add: rep_plug1)
  then have par3: "get_parent T3 x = Some a" by (auto simp: hole_def)
  have w: "get_right T3 a = Some (rp (rb_sentinel T) wl)"
    using rep_reads(2) [OF rep_down_left [OF R3]] upd_only_sentinel [OF U] by simp
  have "red_sibling_left T x b = Some (T3, rp (rb_sentinel T) wl)"
    unfolding red_sibling_left_def by (simp add: T1(1) par1 T2(1) T3(1) par3 w)
  with H3 U show ?thesis by blast
qed

lemma near_nephew_left_ok:
  assumes H: "hole T q (FL a k c (Nd (Nd x1 d kd cd x2) b kb cb wr) # D) t x"
  shows "\<exists>T'. near_nephew_left T x b = Some (T', d) \<and>
     hole T' q (FL a k c (Nd x1 d kd False (Nd x2 b kb True wr)) # D) t x \<and>
     upd_only T T' (nodes (FL a k c (Nd (Nd x1 d kd cd x2) b kb cb wr) # D) t)"
proof -
  let ?A = "nodes (FL a k c (Nd (Nd x1 d kd cd x2) b kb cb wr) # D) t"
  from H have R: "rep T q (FL b kb cb wr # FR t a k c # D) (Nd x1 d kd cd x2)"
    by (simp add: hole_def rep_plug1)
  have wl: "get_left T b = Some d"
    using R rep_reads(1) [of T q "FR t a k c # D" "Nd x1 d kd cd x2" b kb cb wr] by (simp add: rep_plug1)
  from rep_black_node [OF R] obtain T1 where T1: "agc_rbt_black T d = Some T1" "upd_only T T1 {d}"
    and R1: "rep T1 q (FL b kb cb wr # FR t a k c # D) (Nd x1 d kd False x2)" by blast
  then have "rep T1 q (FR t a k c # D) (Nd (Nd x1 d kd False x2) b kb cb wr)"
    by (simp add: rep_plug1)
  from rep_red_node [OF this] obtain T2 where T2: "agc_rbt_red T1 b = Some T2" "upd_only T1 T2 {b}"
    and R2: "rep T2 q (FR t a k c # D) (Nd (Nd x1 d kd False x2) b kb True wr)" by blast
  from right_rotate_rep [OF R2] obtain T3 where T3: "agc_rbtree_right_rotate T2 b = Some T3"
    "upd_only T2 T3 (set (addrs (Nd (Nd x1 d kd False x2) b kb True wr)) \<union> set (caddrs (FR t a k c # D)))"
    and R3: "rep T3 q (FR t a k c # D) (Nd x1 d kd False (Nd x2 b kb True wr))" by blast
  have U: "upd_only T T3 ?A"
    by (rule upd_only_chain3 [OF T1(2) T2(2) T3(2)]) (auto simp: nodes_def)
  have H3: "hole T3 q (FL a k c (Nd x1 d kd False (Nd x2 b kb True wr)) # D) t x"
    using R3 by (intro hole_upd [OF H U]) (simp_all add: rep_plug1)
  then have par3: "get_parent T3 x = Some a" by (auto simp: hole_def)
  have w: "get_right T3 a = Some d"
    using R3 rep_reads(2) [of T3 q D t a k c] by (simp add: rep_plug1)
  have "near_nephew_left T x b = Some (T3, d)"
    unfolding near_nephew_left_def by (simp add: wl T1(1) T2(1) T3(1) par3 w)
  with H3 U show ?thesis by blast
qed

lemma far_nephew_left_ok:
  assumes H: "hole T q (FL a k c (Nd wl b kb cb wr) # D) t x" and wr: "wr \<noteq> Lf"
  shows "\<exists>T'. far_nephew_left T x b = Some T' \<and>
     rep T' q D (Nd (Nd t a k False wl) b kb c (blacken wr)) \<and>
     upd_only T T' (nodes (FL a k c (Nd wl b kb cb wr) # D) t)"
proof -
  let ?A = "nodes (FL a k c (Nd wl b kb cb wr) # D) t"
  from H have R0: "rep T q D (Nd t a k c (Nd wl b kb cb wr))" and par: "get_parent T x = Some a"
    by (auto simp: hole_def rep_plug1)
  from rep_copy_color [OF rep_down_right [OF R0] rep_reads(5) [OF R0]] obtain T1 where
    T1: "agc_rbt_copy_color T b a = Some T1" "upd_only T T1 {b}"
    and R1: "rep T1 q (FR t a k c # D) (Nd wl b kb c wr)" by blast
  then have "rep T1 q D (Nd t a k c (Nd wl b kb c wr))" by (simp add: rep_plug1)
  from rep_black_node [OF this] obtain T2 where T2: "agc_rbt_black T1 a = Some T2" "upd_only T1 T2 {a}"
    and R2: "rep T2 q D (Nd t a k False (Nd wl b kb c wr))" by blast
  note R2b = rep_down_right [OF R2]
  have s2: "rb_sentinel T2 = rb_sentinel T"
    using upd_only_sentinel [OF T1(2)] upd_only_sentinel [OF T2(2)] by simp
  have g2: "get_right T2 b = Some (rp (rb_sentinel T) wr)"
    using rep_reads(2) [OF R2b] s2 by simp
  from rep_blacken [OF rep_down_right [OF R2b] wr] s2 obtain T3 where
    T3: "agc_rbt_black T2 (rp (rb_sentinel T) wr) = Some T3" "upd_only T2 T3 (set (addrs wr))"
    and "rep T3 q (FR wl b kb c # FR t a k False # D) (blacken wr)" by auto
  then have "rep T3 q D (Nd t a k False (Nd wl b kb c (blacken wr)))" by (simp add: rep_plug1)
  from left_rotate_rep [OF this] obtain T4 where T4: "agc_rbtree_left_rotate T3 a = Some T4"
    "upd_only T3 T4 (set (addrs (Nd t a k False (Nd wl b kb c (blacken wr)))) \<union> set (caddrs D))"
    and R4: "rep T4 q D (Nd (Nd t a k False wl) b kb c (blacken wr))" by blast
  have "upd_only T T3 ?A"
    by (rule upd_only_chain3 [OF T1(2) T2(2) T3(2)]) (auto simp: nodes_def)
  then have "upd_only T T4 ?A"
    using T4(2) by (rule upd_only_chain) (auto simp: nodes_def)
  moreover have "far_nephew_left T x b = Some T4"
    unfolding far_nephew_left_def by (simp add: par T1(1) T2(1) g2 T3(1) T4(1))
  ultimately show ?thesis using R4 by blast
qed

text \<open>What a step does, as a relation between the states and the specification \<open>sib\<close>.\<close>

definition step_result :: "rbtree \<Rightarrow> (rbtree \<times> ptr) option \<Rightarrow> ptr \<Rightarrow> frame list \<Rightarrow> ptr set \<Rightarrow> rbt + rbt \<Rightarrow> bool" where
  "step_result T res q D A sib \<longleftrightarrow> (\<exists>T' y. res = Some (T', y) \<and> upd_only T T' A \<and>
     (case sib of Inl u \<Rightarrow> hole T' q D u y \<and> u \<noteq> Lf | Inr u \<Rightarrow> rep T' q D u \<and> y = rb_root T'))"

lemma black_sibling_left_ok:
  assumes H: "hole T q (FL a k c w # D) t x" and w: "w \<noteq> Lf"
  shows "step_result T (black_sibling_left T x (rp (rb_sentinel T) w)) q D
     (nodes (FL a k c w # D) t) (sib_left t a k c w)"
proof -
  let ?A = "nodes (FL a k c w # D) t"
  obtain wl b kb cb wr where wn: "w = Nd wl b kb cb wr" using w by (cases w) auto
  from H have R: "rep T q (FR t a k c # D) (Nd wl b kb cb wr)" and par: "get_parent T x = Some a"
    by (auto simp: hole_def rep_plug1 wn)
  note bb = both_black_ok [OF R]
  have wr: "get_right T b = Some (rp (rb_sentinel T) wr)"
    "agc_rbt_is_red T (rp (rb_sentinel T) wr) = Some (red wr)"
    using rep_reads(2) [OF R] rep_is_red [OF rep_down_right [OF R]] by simp_all
  consider "\<not> red wl \<and> \<not> red wr" | "red wr" | "red wl" "\<not> red wr" by blast
  then show ?thesis
  proof cases
    case 1
    from rep_red_node [OF R] obtain T1 where T1: "agc_rbt_red T b = Some T1" "upd_only T T1 {b}"
      and R1: "rep T1 q (FR t a k c # D) (Nd wl b kb True wr)" by blast
    have U: "upd_only T T1 ?A" by (rule upd_only_mono [OF T1(2)]) (simp add: wn nodes_def)
    have "hole T1 q (FL a k c (Nd wl b kb True wr) # D) t x"
      using R1 by (intro hole_upd [OF H U]) (simp_all add: rep_plug1)
    then have par1: "get_parent T1 x = Some a" by (auto simp: hole_def)
    have "black_sibling_left T x b = Some (T1, a)"
      unfolding black_sibling_left_def using bb 1 T1 par1 by simp
    moreover have "hole T1 q D (Nd t a k c (Nd wl b kb True wr)) a"
      using R1 by (intro hole_node) (simp add: rep_plug1)
    ultimately show ?thesis using 1 U by (simp add: wn step_result_def)
  next
    case 2
    then have "wr \<noteq> Lf" by auto
    from far_nephew_left_ok [OF H [unfolded wn] this] obtain T1 where
      "far_nephew_left T x b = Some T1" "rep T1 q D (Nd (Nd t a k False wl) b kb c (blacken wr))"
      "upd_only T T1 ?A" unfolding wn by blast
    then show ?thesis
      using 2 bb wr by (simp add: wn step_result_def black_sibling_left_def)
  next
    case 3
    then obtain x1 d kd cd x2 where wl: "wl = Nd x1 d kd cd x2" by (cases wl) auto
    from near_nephew_left_ok [OF H [unfolded wn wl]] obtain T1 where
      T1: "near_nephew_left T x b = Some (T1, d)" "upd_only T T1 ?A"
      and H1: "hole T1 q (FL a k c (Nd x1 d kd False (Nd x2 b kb True wr)) # D) t x"
      unfolding wn wl by blast
    from far_nephew_left_ok [OF H1] obtain T2 where
      T2: "far_nephew_left T1 x d = Some T2"
      "rep T2 q D (Nd (Nd t a k False x1) d kd c (Nd x2 b kb False wr))"
      "upd_only T1 T2 (nodes (FL a k c (Nd x1 d kd False (Nd x2 b kb True wr)) # D) t)" by auto
    have "upd_only T T2 ?A"
      by (rule upd_only_chain [OF T1(2) T2(3)]) (auto simp: wn wl nodes_def)
    then show ?thesis
      using 3 bb wr T1(1) T2(1,2) by (simp add: wn wl step_result_def black_sibling_left_def)
  qed
qed


lemma step_result_chain:
  "step_result T1 res q D A' sib \<Longrightarrow> upd_only T T1 A \<Longrightarrow> A' \<subseteq> A \<Longrightarrow> step_result T res q D A sib"
  using upd_only_chain [of T T1 A _ A' A] unfolding step_result_def by blast

lemma delete_step_left_black:
  assumes H: "hole T q (FL a k c w # D) t x" and w: "w \<noteq> Lf" "\<not> red w"
  shows "step_result T (delete_step_left T x) q D (nodes (FL a k c w # D) t) (sib_left t a k c w)"
proof -
  from H have R: "rep T q D (Nd t a k c w)" and par: "get_parent T x = Some a"
    by (auto simp: hole_def rep_plug1)
  have "agc_rbt_is_red T (rp (rb_sentinel T) w) = Some False" "get_right T a = Some (rp (rb_sentinel T) w)"
    using rep_is_red [OF rep_down_right [OF R]] rep_reads(2) [OF R] w by simp_all
  then show ?thesis
    using black_sibling_left_ok [OF H w(1)] par by (simp add: delete_step_left_def)
qed

lemma delete_step_left_red:
  assumes H: "hole T q (FL a k c (Nd wl b kb True wr) # D) t x" and w: "wl \<noteq> Lf"
  shows "step_result T (delete_step_left T x) q (FL b kb False wr # D)
     (nodes (FL a k c (Nd wl b kb True wr) # D) t) (sib_left t a k True wl)"
proof -
  from H have R: "rep T q D (Nd t a k c (Nd wl b kb True wr))" and par: "get_parent T x = Some a"
    by (auto simp: hole_def rep_plug1)
  from red_sibling_left_ok [OF H] obtain T1 where
    T1: "red_sibling_left T x b = Some (T1, rp (rb_sentinel T) wl)"
      "upd_only T T1 (nodes (FL a k c (Nd wl b kb True wr) # D) t)"
    and H1: "hole T1 q (FL a k True wl # FL b kb False wr # D) t x" by blast
  have eq: "delete_step_left T x = black_sibling_left T1 x (rp (rb_sentinel T1) wl)"
    using rep_reads(5) [OF rep_down_right [OF R]] rep_reads(2) [OF R] par T1(1) upd_only_sentinel [OF T1(2)]
    by (simp add: delete_step_left_def)
  show ?thesis
    using step_result_chain [OF black_sibling_left_ok [OF H1 w] T1(2)] eq
    by (auto simp: nodes_def)
qed

subsection \<open>The other side\<close>

lemma hole_mirror: "hole (mirror T) q (map mframe C) (mtree t) x = hole T q C t x"
  by (simp add: hole_def rep_mirror)

lemma nodes_mirror [simp]: "nodes (map mframe C) (mtree t) = nodes C t"
  by (simp add: nodes_def)

lemma map_option_apfst: "map_option f (Option.bind m (\<lambda>x. Some (g x))) = Option.bind m (\<lambda>x. Some (f (g x)))"
  by (cases m) auto

lemma mirror_upd_only2: "upd_only (mirror T) T' A = upd_only T (mirror T') A"
  using upd_only_mirror [of T "mirror T'"] by simp

lemma step_result_mirror:
  "step_result (mirror T) (map_option (apfst mirror) res) q (map mframe D) A (map_sum mtree mtree sib)
   = step_result T res q D A sib"
proof (cases res)
  case (Some p)
  obtain T' y where "p = (T', y)" by (cases p)
  moreover have "mtree u \<noteq> Lf \<longleftrightarrow> u \<noteq> Lf" for u by (cases u) auto
  ultimately show ?thesis
    using Some by (cases sib) (simp_all add: step_result_def hole_mirror rep_mirror)
qed (simp add: step_result_def)

lemma near_far_mirror:
  "near_nephew_left (mirror T) x w = map_option (apfst mirror) (near_nephew_right T x w)"
  "far_nephew_left (mirror T) x w = map_option mirror (far_nephew_right T x w)"
  "red_sibling_left (mirror T) x w = map_option (apfst mirror) (red_sibling_right T x w)"
  unfolding near_nephew_left_def near_nephew_right_def far_nephew_left_def far_nephew_right_def
    red_sibling_left_def red_sibling_right_def
  by (simp_all add: mirror_bind rotate_mirror cong: if_cong)

lemma black_sibling_mirror:
  assumes "both_black (mirror T) w = both_black T w"
  shows "black_sibling_left (mirror T) x w = map_option (apfst mirror) (black_sibling_right T x w)"
  unfolding black_sibling_left_def black_sibling_right_def assms
  by (simp add: mirror_bind near_far_mirror if_distrib [of "map_option (apfst mirror)"] cong: if_cong)

lemma both_black_mirror:
  assumes "rep T q C (Nd l w k c r)"
  shows "both_black (mirror T) w = both_black T w"
  using both_black_ok [OF assms] both_black_ok [of "mirror T" q "map mframe C" "mtree r" w k c "mtree l"]
    assms rep_mirror [of T q C "Nd l w k c r"] by auto

lemma black_sibling_right_ok:
  assumes H: "hole T q (FR w a k c # D) t x" and w: "w \<noteq> Lf"
  shows "step_result T (black_sibling_right T x (rp (rb_sentinel T) w)) q D
     (nodes (FR w a k c # D) t) (sib_right w a k c t)"
proof -
  have HM: "hole (mirror T) q (FL a k c (mtree w) # map mframe D) (mtree t) x"
    using H hole_mirror [of T q "FR w a k c # D" t x] by simp
  have nL: "mtree w \<noteq> Lf" using w by (cases w) auto
  obtain wl b kb cb wr where wn: "w = Nd wl b kb cb wr" using w by (cases w) auto
  have "rep T q (FL a k c t # D) w" using H by (simp add: hole_def rep_plug1)
  then have "both_black (mirror T) (rp (rb_sentinel T) w) = both_black T (rp (rb_sentinel T) w)"
    using both_black_mirror wn by simp
  from black_sibling_left_ok [OF HM nL] black_sibling_mirror [OF this]
  have "step_result (mirror T) (map_option (apfst mirror) (black_sibling_right T x (rp (rb_sentinel T) w))) q
      (map mframe D) (nodes (FR w a k c # D) t) (map_sum mtree mtree (sib_right w a k c t))"
    using nodes_mirror [of "FR w a k c # D" t]
    by (simp add: sib_right_def sum.map_comp o_def sum.map_ident del: nodes_mirror)
  then show ?thesis unfolding step_result_mirror .
qed

lemma red_sibling_right_ok:
  assumes H: "hole T q (FR (Nd wl b kb True wr) a k c # D) t x"
  shows "\<exists>T'. red_sibling_right T x b = Some (T', rp (rb_sentinel T) wr) \<and>
     hole T' q (FR wr a k True # FR wl b kb False # D) t x \<and>
     upd_only T T' (nodes (FR (Nd wl b kb True wr) a k c # D) t)"
proof -
  have "hole (mirror T) q (FL a k c (Nd (mtree wr) b kb True (mtree wl)) # map mframe D) (mtree t) x"
    using H hole_mirror [of T q "FR (Nd wl b kb True wr) a k c # D" t x] by simp
  from red_sibling_left_ok [OF this] obtain T1 where
    T1: "red_sibling_left (mirror T) x b = Some (T1, rp (rb_sentinel T) wr)"
      "hole T1 q (map mframe (FR wr a k True # FR wl b kb False # D)) (mtree t) x"
      "upd_only (mirror T) T1 (nodes (map mframe (FR (Nd wl b kb True wr) a k c # D)) (mtree t))"
    by auto
  have "red_sibling_right T x b = Some (mirror T1, rp (rb_sentinel T) wr)"
    using T1(1) near_far_mirror(3) [of T x b] by (cases "red_sibling_right T x b") auto
  moreover have "hole (mirror T1) q (FR wr a k True # FR wl b kb False # D) t x"
    using T1(2) hole_mirror [of "mirror T1" q "FR wr a k True # FR wl b kb False # D" t x] by simp
  moreover have "upd_only T (mirror T1) (nodes (FR (Nd wl b kb True wr) a k c # D) t)"
    using T1(3) unfolding nodes_mirror mirror_upd_only2 .
  ultimately show ?thesis by blast
qed

lemma delete_step_right_black:
  assumes H: "hole T q (FR w a k c # D) t x" and w: "w \<noteq> Lf" "\<not> red w"
  shows "step_result T (delete_step_right T x) q D (nodes (FR w a k c # D) t) (sib_right w a k c t)"
proof -
  from H have R: "rep T q D (Nd w a k c t)" and par: "get_parent T x = Some a"
    by (auto simp: hole_def rep_plug1)
  have "agc_rbt_is_red T (rp (rb_sentinel T) w) = Some False" "get_left T a = Some (rp (rb_sentinel T) w)"
    using rep_is_red [OF rep_down_left [OF R]] rep_reads(1) [OF R] w by simp_all
  then show ?thesis
    using black_sibling_right_ok [OF H w(1)] par by (simp add: delete_step_right_def)
qed

lemma delete_step_right_red:
  assumes H: "hole T q (FR (Nd wl b kb True wr) a k c # D) t x" and w: "wr \<noteq> Lf"
  shows "step_result T (delete_step_right T x) q (FR wl b kb False # D)
     (nodes (FR (Nd wl b kb True wr) a k c # D) t) (sib_right wr a k True t)"
proof -
  from H have R: "rep T q D (Nd (Nd wl b kb True wr) a k c t)" and par: "get_parent T x = Some a"
    by (auto simp: hole_def rep_plug1)
  from red_sibling_right_ok [OF H] obtain T1 where
    T1: "red_sibling_right T x b = Some (T1, rp (rb_sentinel T) wr)"
      "upd_only T T1 (nodes (FR (Nd wl b kb True wr) a k c # D) t)"
    and H1: "hole T1 q (FR wr a k True # FR wl b kb False # D) t x" by blast
  have eq: "delete_step_right T x = black_sibling_right T1 x (rp (rb_sentinel T1) wr)"
    using rep_reads(5) [OF rep_down_left [OF R]] rep_reads(1) [OF R] par T1(1) upd_only_sentinel [OF T1(2)]
    by (simp add: delete_step_right_def)
  show ?thesis
    using step_result_chain [OF black_sibling_right_ok [OF H1 w] T1(2)] eq
    by (auto simp: nodes_def)
qed

section \<open>The fixup loop\<close>

text \<open>The loop from \<open>x\<close> and the final blackening make the tree \<open>r\<close>; only \<open>A\<close> and the sentinel change.\<close>

definition fixup_result :: "rbtree \<Rightarrow> ptr \<Rightarrow> ptr \<Rightarrow> rbt \<Rightarrow> ptr set \<Rightarrow> bool" where
  "fixup_result T x q r A \<longleftrightarrow> (\<exists>T'. Option.bind (delete_loop T x) (\<lambda>(T, temp). agc_rbt_black T temp) = Some T' \<and>
     rep T' q [] r \<and> upd_only T T' (insert (rb_sentinel T) A))"

lemma rep_black_hole:
  assumes "rep T q C t"
  shows "\<exists>T'. agc_rbt_black T (rp (rb_sentinel T) t) = Some T' \<and> rep T' q C (blacken t) \<and>
     upd_only T T' (insert (rb_sentinel T) (nodes C t))"
proof (cases t)
  case Lf
  have "rb_sentinel T \<notin> set (caddrs C)" using rep_nodes [OF assms] by (auto simp: nodes_def)
  then show ?thesis
    using assms Lf by (auto simp: rep_def heap_defs frame_simps upd_only_def)
next
  case (Nd l a k c r)
  then show ?thesis
    using rep_black_node [of T q C l a k c r] assms by (auto intro: upd_only_mono simp: nodes_def)
qed

lemma fixup_stop:
  assumes R: "rep T q C t" and x: "x = rp (rb_sentinel T) t" and stop: "C = [] \<or> red t"
  shows "fixup_result T x q (plug C (blacken t)) (nodes C t)"
proof -
  have "delete_loop T x = Some (T, x)"
  proof (cases "C = []")
    case True
    then show ?thesis using R x by (subst delete_loop.simps) (simp add: rep_root)
  next
    case False
    then have "red t" using stop by simp
    then show ?thesis using rep_is_red [OF R] x by (subst delete_loop.simps) simp
  qed
  then show ?thesis
    using rep_black_hole [OF R] x rep_plug [of _ q C "blacken t"] by (auto simp: fixup_result_def)
qed

lemma fixup_blacken_root:
  assumes R: "rep T q D u" and x: "x = rb_root T"
  shows "fixup_result T x q (blacken (plug D u)) (nodes D u)"
proof -
  have R0: "rep T q [] (plug D u)" using R rep_plug by blast
  moreover have "nodes [] (plug D u) = nodes D u" by (simp add: nodes_def addrs_plug)
  ultimately show ?thesis
    using fixup_stop [OF R0] x rep_root [OF R0] by simp
qed

lemma fixup_chain:
  assumes "delete_loop T x = Option.bind res (\<lambda>p. delete_loop (fst p) (snd p))" "res = Some (T1, y)"
    "upd_only T T1 A" "fixup_result T1 y q r B" "B \<subseteq> A"
  shows "fixup_result T x q r A"
proof -
  have "upd_only T T' (insert (rb_sentinel T) A)" if "upd_only T1 T' (insert (rb_sentinel T1) B)" for T'
    using assms(5) upd_only_sentinel [OF assms(3)] by (intro upd_only_chain [OF assms(3) that]) auto
  with assms(1,2,4) show ?thesis by (auto simp: fixup_result_def)
qed


lemma fixup_unfold_left:
  assumes H: "hole T q (FL a k c w # D) t x" and t: "\<not> red t"
  shows "delete_loop T x = Option.bind (delete_step_left T x) (\<lambda>p. delete_loop (fst p) (snd p))"
proof -
  from H have R: "rep T q (FL a k c w # D) t" and R': "rep T q D (Nd t a k c w)"
    and x: "x = rp (rb_sentinel T) t" and par: "get_parent T x = Some a"
    by (auto simp: hole_def rep_plug1)
  have "x \<noteq> rb_root T" using x by (intro rep_not_root [OF R]) (cases t; simp)+
  moreover have "agc_rbt_is_red T x = Some False" using rep_is_red [OF R] x t by simp
  moreover have "get_left T a = Some x" using rep_reads(1) [OF R'] x by simp
  ultimately show ?thesis using par by (subst delete_loop.simps) simp
qed

lemma fixup_unfold_right:
  assumes H: "hole T q (FR w a k c # D) t x" and t: "\<not> red t" and w: "w \<noteq> Lf"
  shows "delete_loop T x = Option.bind (delete_step_right T x) (\<lambda>p. delete_loop (fst p) (snd p))"
proof -
  from H have R: "rep T q (FR w a k c # D) t" and R': "rep T q D (Nd w a k c t)"
    and x: "x = rp (rb_sentinel T) t" and par: "get_parent T x = Some a"
    by (auto simp: hole_def rep_plug1)
  have "x \<noteq> rb_root T" using x by (intro rep_not_root [OF R]) (cases t; simp)+
  moreover have "agc_rbt_is_red T x = Some False" using rep_is_red [OF R] x t by simp
  moreover have "get_left T a = Some (rp (rb_sentinel T) w)" using rep_reads(1) [OF R'] by simp
  moreover have "rp (rb_sentinel T) w \<noteq> x"
    using w R' x by (cases w; cases t) (auto simp: rep_def)
  ultimately show ?thesis using par by (subst delete_loop.simps) simp
qed

lemma fixup_inr:
  assumes l: "delete_loop T x = Option.bind res (\<lambda>p. delete_loop (fst p) (snd p))"
    and r: "step_result T res q D A (Inr u)" and A: "nodes D u \<subseteq> A"
  shows "fixup_result T x q (blacken (plug D u)) A"
proof -
  from r obtain T1 y where "res = Some (T1, y)" "upd_only T T1 A" "rep T1 q D u" "y = rb_root T1"
    by (auto simp: step_result_def)
  then show ?thesis using fixup_chain [OF l] fixup_blacken_root A by blast
qed

lemma fixup_inl:
  assumes l: "delete_loop T x = Option.bind res (\<lambda>p. delete_loop (fst p) (snd p))"
    and r: "step_result T res q D A (Inl u)"
    and up: "\<And>T1 y. hole T1 q D u y \<Longrightarrow> u \<noteq> Lf \<Longrightarrow> fixup_result T1 y q t' (nodes D u)"
    and A: "nodes D u \<subseteq> A"
  shows "fixup_result T x q t' A"
proof -
  from r obtain T1 y where "res = Some (T1, y)" "upd_only T T1 A" "hole T1 q D u y" "u \<noteq> Lf"
    by (auto simp: step_result_def)
  then show ?thesis using fixup_chain [OF l] up A by blast
qed

lemma addrs_from_io: "io u = io v \<Longrightarrow> set (addrs u) = set (addrs v)"
  by (simp add: addrs_io)


lemma nodes_from_io: "io u = io v \<Longrightarrow> nodes D u = nodes D v"
  by (simp add: nodes_def addrs_io)

lemma fixup_left:
  assumes H: "hole T q (FL a k c w # D) t x"
    and inv: "invc (blacken t)" "invh t" "cinvc (FL a k c w # D)" "cinvh (FL a k c w # D) (Suc (bh t))"
    and IH: "\<And>u T1 y. \<not> red t \<Longrightarrow> \<not> red w \<Longrightarrow> sib_left t a k c w = Inl u \<Longrightarrow> hole T1 q D u y \<Longrightarrow>
      fixup_result T1 y q (del_fix D u) (nodes D u)"
  shows "fixup_result T x q (del_fix (FL a k c w # D) t) (nodes (FL a k c w # D) t)"
proof (cases "red t")
  case True
  with H fixup_stop [of T q "FL a k c w # D" t x] show ?thesis by (simp add: hole_def)
next
  case False
  then have t: "invc t" using inv(1) by (simp add: blacken_id)
  have w: "bh w = Suc (bh t)" "invh w" "invc w" "w \<noteq> Lf" using inv(3,4) by auto
  note l = fixup_unfold_left [OF H False]
  show ?thesis
  proof (cases "red w")
    case True
    then obtain wl b kb wr where wn: "w = Nd wl b kb True wr" by (cases w) auto
    have wl: "bh wl = Suc (bh t)" "invh wl" "invc wl" "\<not> red wl" "wl \<noteq> Lf" using w wn by auto
    note s = sib_left_ok [OF wl(1) inv(2) wl(2,3) t False wl(4), of a k True]
    note r = delete_step_left_red [OF H [unfolded wn] wl(5)]
    show ?thesis
    proof (cases "sib_left t a k True wl")
      case (Inl u)
      with s have u: "red u" "io u = io (Nd t a k True wl)" by auto
      have "nodes (FL b kb False wr # D) u \<subseteq> nodes (FL a k c (Nd wl b kb True wr) # D) t"
        using nodes_from_io [OF u(2), of "FL b kb False wr # D"] by (auto simp: nodes_def)
      then have "fixup_result T x q (plug (FL b kb False wr # D) (blacken u))
          (nodes (FL a k c (Nd wl b kb True wr) # D) t)"
        using u(1) by (intro fixup_inl [OF l r [unfolded Inl]] fixup_stop) (auto simp: hole_def)
      then show ?thesis using Inl False wn by simp
    next
      case (Inr u)
      with s have u: "io u = io (Nd t a k True wl)" by auto
      have "nodes (FL b kb False wr # D) u \<subseteq> nodes (FL a k c (Nd wl b kb True wr) # D) t"
        using nodes_from_io [OF u, of "FL b kb False wr # D"] by (auto simp: nodes_def)
      from fixup_inr [OF l r [unfolded Inr] this] show ?thesis using Inr False wn by simp
    qed
  next
    case False': False
    note s = sib_left_ok [OF w(1) inv(2) w(2,3) t False False', of a k c]
    note r = delete_step_left_black [OF H w(4) False']
    have dw: "del_fix (FL a k c w # D) t =
        (case sib_left t a k c w of Inl u \<Rightarrow> del_fix D u | Inr u \<Rightarrow> blacken (plug D u))"
      using False False' by (cases w) auto
    show ?thesis
    proof (cases "sib_left t a k c w")
      case (Inl u)
      with s have "io u = io (Nd t a k c w)" by auto
      then have "nodes D u \<subseteq> nodes (FL a k c w # D) t"
        using nodes_from_io [of u "Nd t a k c w" D] by simp
      then have "fixup_result T x q (del_fix D u) (nodes (FL a k c w # D) t)"
        by (intro fixup_inl [OF l r [unfolded Inl]] IH [OF False False' Inl])
      then show ?thesis using dw Inl by simp
    next
      case (Inr u)
      with s have "io u = io (Nd t a k c w)" by auto
      then have "nodes D u \<subseteq> nodes (FL a k c w # D) t"
        using nodes_from_io [of u "Nd t a k c w" D] by simp
      from fixup_inr [OF l r [unfolded Inr] this] show ?thesis using dw Inr by simp
    qed
  qed
qed

lemma fixup_right:
  assumes H: "hole T q (FR w a k c # D) t x"
    and inv: "invc (blacken t)" "invh t" "cinvc (FR w a k c # D)" "cinvh (FR w a k c # D) (Suc (bh t))"
    and IH: "\<And>u T1 y. \<not> red t \<Longrightarrow> \<not> red w \<Longrightarrow> sib_right w a k c t = Inl u \<Longrightarrow> hole T1 q D u y \<Longrightarrow>
      fixup_result T1 y q (del_fix D u) (nodes D u)"
  shows "fixup_result T x q (del_fix (FR w a k c # D) t) (nodes (FR w a k c # D) t)"
proof (cases "red t")
  case True
  with H fixup_stop [of T q "FR w a k c # D" t x] show ?thesis by (simp add: hole_def)
next
  case False
  then have t: "invc t" using inv(1) by (simp add: blacken_id)
  have w: "bh w = Suc (bh t)" "invh w" "invc w" "w \<noteq> Lf" using inv(3,4) by auto
  note l = fixup_unfold_right [OF H False w(4)]
  show ?thesis
  proof (cases "red w")
    case True
    then obtain wl b kb wr where wn: "w = Nd wl b kb True wr" by (cases w) auto
    have wr: "bh wr = Suc (bh t)" "invh wr" "invc wr" "\<not> red wr" "wr \<noteq> Lf" using w wn by auto
    note s = sib_right_ok [OF wr(1) inv(2) wr(2,3) t False wr(4), of a k True]
    note r = delete_step_right_red [OF H [unfolded wn] wr(5)]
    show ?thesis
    proof (cases "sib_right wr a k True t")
      case (Inl u)
      with s have u: "red u" "io u = io (Nd wr a k True t)" by auto
      have "nodes (FR wl b kb False # D) u \<subseteq> nodes (FR (Nd wl b kb True wr) a k c # D) t"
        using nodes_from_io [OF u(2), of "FR wl b kb False # D"] by (auto simp: nodes_def)
      then have "fixup_result T x q (plug (FR wl b kb False # D) (blacken u))
          (nodes (FR (Nd wl b kb True wr) a k c # D) t)"
        using u(1) by (intro fixup_inl [OF l r [unfolded Inl]] fixup_stop) (auto simp: hole_def)
      then show ?thesis using Inl False wn by simp
    next
      case (Inr u)
      with s have u: "io u = io (Nd wr a k True t)" by auto
      have "nodes (FR wl b kb False # D) u \<subseteq> nodes (FR (Nd wl b kb True wr) a k c # D) t"
        using nodes_from_io [OF u, of "FR wl b kb False # D"] by (auto simp: nodes_def)
      from fixup_inr [OF l r [unfolded Inr] this] show ?thesis using Inr False wn by simp
    qed
  next
    case False': False
    note s = sib_right_ok [OF w(1) inv(2) w(2,3) t False False', of a k c]
    note r = delete_step_right_black [OF H w(4) False']
    have dw: "del_fix (FR w a k c # D) t =
        (case sib_right w a k c t of Inl u \<Rightarrow> del_fix D u | Inr u \<Rightarrow> blacken (plug D u))"
      using False False' by (cases w) auto
    show ?thesis
    proof (cases "sib_right w a k c t")
      case (Inl u)
      with s have "io u = io (Nd w a k c t)" by auto
      then have "nodes D u \<subseteq> nodes (FR w a k c # D) t"
        using nodes_from_io [of u "Nd w a k c t" D] by simp
      then have "fixup_result T x q (del_fix D u) (nodes (FR w a k c # D) t)"
        by (intro fixup_inl [OF l r [unfolded Inl]] IH [OF False False' Inl])
      then show ?thesis using dw Inl by simp
    next
      case (Inr u)
      with s have "io u = io (Nd w a k c t)" by auto
      then have "nodes D u \<subseteq> nodes (FR w a k c # D) t"
        using nodes_from_io [of u "Nd w a k c t" D] by simp
      from fixup_inr [OF l r [unfolded Inr] this] show ?thesis using dw Inr by simp
    qed
  qed
qed

lemma sib_Inl_inv:
  assumes "cinvh (FL a k c w # D) (Suc (bh t))" "cinvc (FL a k c w # D)" "invc (blacken t)" "invh t"
    "\<not> red t" "\<not> red w" "sib_left t a k c w = Inl u"
  shows "invc (blacken u) \<and> invh u \<and> cinvc D \<and> cinvh D (Suc (bh u))"
  using assms sib_left_ok [of w t a k c] by (cases c) (auto simp: blacken_id)

lemma sib_Inl_inv_right:
  assumes "cinvh (FR w a k c # D) (Suc (bh t))" "cinvc (FR w a k c # D)" "invc (blacken t)" "invh t"
    "\<not> red t" "\<not> red w" "sib_right w a k c t = Inl u"
  shows "invc (blacken u) \<and> invh u \<and> cinvc D \<and> cinvh D (Suc (bh u))"
  using assms sib_right_ok [of w t a k c] by (cases c) (auto simp: blacken_id)

lemma fixup_ok:
  assumes "hole T q C t x" "invc (blacken t)" "invh t" "cinvc C" "cinvh C (Suc (bh t))"
  shows "fixup_result T x q (del_fix C t) (nodes C t)"
  using assms
proof (induction C arbitrary: T t x)
  case Nil
  then show ?case using fixup_stop [of T q "[]" t x] by (simp add: hole_def)
next
  case (Cons f D)
  show ?case
  proof (cases f)
    case (FL a k c w)
    show ?thesis
      unfolding FL using Cons.prems(1) [unfolded FL] Cons.prems(2,3) Cons.prems(4,5) [unfolded FL]
    proof (rule fixup_left)
      fix u T1 y
      assume u: "\<not> red t" "\<not> red w" "sib_left t a k c w = Inl u" "hole T1 q D u y"
      show "fixup_result T1 y q (del_fix D u) (nodes D u)"
        using sib_Inl_inv [OF Cons.prems(5,4) [unfolded FL] Cons.prems(2,3) u(1-3)] u(4)
        by (intro Cons.IH) auto
    qed
  next
    case (FR w a k c)
    show ?thesis
      unfolding FR using Cons.prems(1) [unfolded FR] Cons.prems(2,3) Cons.prems(4,5) [unfolded FR]
    proof (rule fixup_right)
      fix u T1 y
      assume u: "\<not> red t" "\<not> red w" "sib_right w a k c t = Inl u" "hole T1 q D u y"
      show "fixup_result T1 y q (del_fix D u) (nodes D u)"
        using sib_Inl_inv_right [OF Cons.prems(5,4) [unfolded FR] Cons.prems(2,3) u(1-3)] u(4)
        by (intro Cons.IH) auto
    qed
  qed
qed


section \<open>Taking the node out\<close>

lemma min_ok:
  assumes "rep T q C t" "t \<noteq> Lf"
  shows "\<exists>E b kb cb y. t = plug E (Nd Lf b kb cb y) \<and> lio E = [] \<and>
     agc_rbtree_min T (rp (rb_sentinel T) t) = Some b"
  using assms
proof (induction t arbitrary: C)
  case (Nd l a k c r)
  have ga: "get_left T a = Some (rp (rb_sentinel T) l)" using rep_reads(1) Nd.prems(1) .
  show ?case
  proof (cases "l = Lf")
    case True
    then have "agc_rbtree_min T a = Some a" using ga by (subst agc_rbtree_min.simps) simp
    then show ?thesis using True by (intro exI [of _ "[]"] exI [of _ a] exI) auto
  next
    case False
    from Nd.IH(1) [OF rep_down_left [OF Nd.prems(1)] False] obtain E b kb cb y where
      E: "l = plug E (Nd Lf b kb cb y)" "lio E = []" "agc_rbtree_min T (rp (rb_sentinel T) l) = Some b"
      by blast
    have "rp (rb_sentinel T) l \<noteq> rb_sentinel T"
      using Nd.prems(1) False by (cases l) (auto simp: rep_def)
    then have "agc_rbtree_min T a = Some b"
      using ga E(3) by (subst agc_rbtree_min.simps) simp
    then show ?thesis
      using E by (intro exI [of _ "E @ [FL a k c r]"] exI [of _ b] exI [of _ kb] exI [of _ cb] exI [of _ y]) simp
  qed
qed simp

lemma shape_plug:
  "cshape h s q e (rp s t) (E @ D) \<and> shape h s (cpar q (E @ D)) t \<longleftrightarrow>
   cshape h s q e (rp s (plug E t)) D \<and> shape h s (cpar q D) (plug E t)"
proof (induction E arbitrary: t)
  case (Cons f E)
  have "cshape h s q e (rp s t) (f # E @ D) \<and> shape h s (cpar q (f # E @ D)) t \<longleftrightarrow>
      cshape h s q e (rp s (plug1 f t)) (E @ D) \<and> shape h s (cpar q (E @ D)) (plug1 f t)"
    by (cases f) auto
  then show ?case using Cons.IH by simp
qed simp

definition sentinel_ok :: "rbtree \<Rightarrow> bool" where
  "sentinel_ok T \<longleftrightarrow> rb_sentinel T \<noteq> NULL \<and> (\<exists>sn. rb_mem T (rb_sentinel T) = Some sn \<and> \<not> rb_red sn)"

lemma rep_alt:
  "rep T q C t \<longleftrightarrow> shape (rb_mem T) (rb_sentinel T) (cpar q C) t \<and>
     cshape (rb_mem T) (rb_sentinel T) q (rb_root T) (rp (rb_sentinel T) t) C \<and>
     distinct (addrs t @ caddrs C) \<and> sentinel_ok T"
  by (auto simp: rep_def sentinel_ok_def)

lemma set_parent_ok:
  assumes "shape (rb_mem T) (rb_sentinel T) x y" "distinct (addrs y)" "sentinel_ok T"
  shows "\<exists>T'. set_parent T (rp (rb_sentinel T) y) p = Some T' \<and> shape (rb_mem T') (rb_sentinel T) p y \<and>
     get_parent T' (rp (rb_sentinel T) y) = Some p \<and> sentinel_ok T' \<and> rb_root T' = rb_root T \<and>
     upd_only T T' {rp (rb_sentinel T) y}"
  using assms by (cases y) (auto simp: sentinel_ok_def heap_defs upd_only_def frame_simps)

lemma sentinel_ok_upd: "sentinel_ok T \<Longrightarrow> upd_only T T' A \<Longrightarrow> rb_sentinel T \<notin> A \<Longrightarrow> sentinel_ok T'"
  by (simp add: sentinel_ok_def upd_only_def)

lemma relink_is_replace:
  "b \<noteq> rb_root T \<Longrightarrow> relink_left T b m = replace_child T b m"
  by (simp add: relink_left_def replace_child_def)

lemma replace_child_ok:
  assumes R: "rep T q (f # D) (Nd l b k c r)"
  shows "\<exists>T1. replace_child T b m = Some T1 \<and> upd_only T T1 (set (caddrs (f # D))) \<and>
     cshape (rb_mem T1) (rb_sentinel T) q (rb_root T1) m (f # D) \<and> rb_mem T1 b = rb_mem T b \<and>
     b \<noteq> rb_root T"
proof -
  have nr: "b \<noteq> rb_root T" by (rule rep_not_root [OF R]) auto
  have "b \<notin> set (caddrs (f # D))" "distinct (caddrs (f # D))" using R by (auto simp: rep_def)
  with R nr relink_left_ok [of T q b "f # D" _ m] obtain T1 where
    "relink_left T b m = Some T1" "upd_only T T1 (set (caddrs (f # D)))"
    "cshape (rb_mem T1) (rb_sentinel T) q (rb_root T1) m (f # D)" by (auto simp: rep_def)
  moreover from this(2) have "rb_sentinel T1 = rb_sentinel T" "rb_mem T1 b = rb_mem T b"
    using \<open>b \<notin> set (caddrs (f # D))\<close> by (auto simp: upd_only_def)
  ultimately show ?thesis using nr relink_is_replace by metis
qed

text \<open>The node has at most one child: the child \<open>y\<close> takes its place.\<close>

lemma splice_plain:
  assumes R: "rep T q (f # D) (Nd l b k c r)" and y: "l = Lf \<and> y = r \<or> r = Lf \<and> y = l"
  shows "\<exists>T'. delete_splice T b b (rp (rb_sentinel T) y) = Some T' \<and>
     hole T' q (f # D) y (rp (rb_sentinel T) y) \<and> rb_mem T' b = rb_mem T b \<and>
     upd_only T T' (insert (rb_sentinel T) (nodes (f # D) (Nd l b k c r)))"
proof -
  let ?s = "rb_sentinel T" and ?x = "rp (rb_sentinel T) y" and ?p = "cpar q (f # D)"
  from replace_child_ok [OF R, of ?x] obtain T1 where T1: "replace_child T b ?x = Some T1"
    "upd_only T T1 (set (caddrs (f # D)))" "cshape (rb_mem T1) ?s q (rb_root T1) ?x (f # D)"
    "rb_mem T1 b = rb_mem T b" by blast
  have s1: "rb_sentinel T1 = ?s" using T1(2) by (rule upd_only_sentinel)
  have sh: "shape (rb_mem T) ?s b y" "distinct (addrs y)" "set (addrs y) \<inter> set (caddrs (f # D)) = {}"
    "b \<notin> set (addrs y)" "distinct (caddrs (f # D))"
    using R y by (auto simp: rep_def)
  have sok: "sentinel_ok T1"
    using R rep_nodes [OF R] by (intro sentinel_ok_upd [OF _ T1(2)]) (auto simp: rep_alt nodes_def)
  have sh1: "shape (rb_mem T1) ?s b y" using sh(1) upd_only_shape [OF T1(2) sh(3)] by simp
  from set_parent_ok [of T1 b y ?p] sh1 sh(2) sok s1 obtain T2 where
    T2: "set_parent T1 ?x ?p = Some T2" "shape (rb_mem T2) ?s ?p y" "get_parent T2 ?x = Some ?p"
      "sentinel_ok T2" "rb_root T2 = rb_root T1" "upd_only T1 T2 {?x}" by auto
  have s2: "rb_sentinel T2 = ?s" using T2(6) s1 upd_only_sentinel by metis
  have x: "?x \<notin> set (caddrs (f # D))" "?x \<noteq> b"
    using sh(3,4) rep_nodes [OF R] by (cases y; auto simp: nodes_def)+
  have "cshape (rb_mem T2) ?s q (rb_root T2) ?x (f # D)"
    using T1(3) upd_only_cshape [OF T2(6), of "f # D"] x(1) T2(5) by simp
  then have "hole T2 q (f # D) y ?x"
    unfolding hole_def rep_alt using T2 s2 sh by auto
  moreover have "get_parent T1 b = Some ?p"
    using rep_reads(3) [OF R] T1(4) by (auto simp: heap_defs split: if_split_asm)
  then have "delete_splice T b b ?x = Some T2"
    unfolding delete_splice_def by (simp add: T1(1) T2(1))
  moreover have "upd_only T T2 (insert ?s (nodes (f # D) (Nd l b k c r)))"
    using y by (intro upd_only_chain [OF T1(2) T2(6)]) (cases y; auto simp: nodes_def)+
  moreover have "rb_mem T2 b = rb_mem T b" using T2(6) x(2) T1(4) by (simp add: upd_only_def)
  ultimately show ?thesis by blast
qed

text \<open>The successor \<open>b\<close> takes the place of \<open>a\<close>.\<close>

lemma take_place_ok:
  assumes a: "rb_mem T a = Some \<lparr>rb_key = k, rb_left = rp (rb_sentinel T) l,
       rb_right = rp (rb_sentinel T) r, rb_parent = cpar q C, rb_red = c\<rparr>" "a \<noteq> NULL" "a \<noteq> rb_sentinel T"
    and b: "rb_mem T b = Some bn" "b \<noteq> NULL" "b \<noteq> rb_sentinel T"
    and sh: "shape (rb_mem T) (rb_sentinel T) a l" "shape (rb_mem T) (rb_sentinel T) x r"
      "cshape (rb_mem T) (rb_sentinel T) q (rb_root T) a C"
    and di: "distinct (a # b # addrs l @ addrs r @ caddrs C)" and sok: "sentinel_ok T"
  shows "\<exists>T'. take_place T b a = Some T' \<and> rep T' q C (Nd l b (rb_key bn) c r) \<and>
     upd_only T T' (insert b (set (addrs l) \<union> set (addrs r) \<union> set (caddrs C)))"
proof -
  let ?s = "rb_sentinel T"
  let ?bn = "\<lparr>rb_key = rb_key bn, rb_left = rp ?s l, rb_right = rp ?s r, rb_parent = cpar q C, rb_red = c\<rparr>"
  define T1 where "T1 = T\<lparr>rb_mem := (rb_mem T)(b \<mapsto> ?bn)\<rparr>"
  have T1: "rb_sentinel T1 = ?s" "rb_root T1 = rb_root T" "upd_only T T1 {b}"
    "rb_mem T1 a = rb_mem T a" "rb_mem T1 b = Some ?bn"
    using di by (simp_all add: T1_def upd_only_def)
  have e1: "do { nl \<leftarrow> get_left T a; T \<leftarrow> set_left T b nl; nr \<leftarrow> get_right T a; T \<leftarrow> set_right T b nr;
      np \<leftarrow> get_parent T a; T \<leftarrow> set_parent T b np; agc_rbt_copy_color T b a } = Some T1"
    using a b di by (cases bn) (simp add: heap_defs T1_def)
  have c1: "cshape (rb_mem T1) ?s q (rb_root T1) a C" "shape (rb_mem T1) ?s a l" "shape (rb_mem T1) ?s x r"
    using sh di by (simp_all add: T1_def frame_simps)
  obtain T2 where T2: "relink_left T1 a b = Some T2" "upd_only T1 T2 (set (caddrs C))"
    "cshape (rb_mem T2) ?s q (rb_root T2) b C"
    using relink_left_ok [of T1 q a C _ b] c1 a T1 di upd_only_sentinel by auto
  have s2: "rb_sentinel T2 = ?s" using upd_only_sentinel [OF T2(2)] T1 by simp
  have dj: "set (addrs l) \<inter> set (caddrs C) = {}" "set (addrs r) \<inter> set (caddrs C) = {}"
    "set (addrs r) \<inter> set (addrs l) = {}" "set (caddrs C) \<inter> set (addrs l) = {}"
    "set (addrs l) \<inter> set (addrs r) = {}" "set (caddrs C) \<inter> set (addrs r) = {}"
    "b \<notin> set (addrs l)" "b \<notin> set (addrs r)" "b \<notin> set (caddrs C)"
    using di by auto
  have b2: "rb_mem T2 b = Some ?bn" "shape (rb_mem T2) ?s a l" "shape (rb_mem T2) ?s x r"
    using upd_only_mem [OF T2(2) dj(9)] T1(5) c1 upd_only_shape [OF T2(2) dj(1)]
      upd_only_shape [OF T2(2) dj(2)] by simp_all
  obtain T3 where T3: "(if rp ?s l \<noteq> ?s then set_parent T2 (rp ?s l) b else Some T2) = Some T3"
    "shape (rb_mem T3) ?s b l" "upd_only T2 T3 (set (addrs l))" "rb_root T3 = rb_root T2"
    using reparent_ok [OF b2(2) _ s2 [symmetric], of b] di by auto
  have s3: "rb_sentinel T3 = ?s" using upd_only_sentinel [OF T3(3)] s2 by simp
  have b3: "rb_mem T3 b = Some ?bn" "shape (rb_mem T3) ?s x r" "cshape (rb_mem T3) ?s q (rb_root T3) b C"
    using upd_only_mem [OF T3(3) dj(7)] T3(4) b2 T2(3) upd_only_shape [OF T3(3) dj(3)]
      upd_only_cshape [OF T3(3) dj(4)] by simp_all
  obtain T4 where T4: "(if rp ?s r \<noteq> ?s then set_parent T3 (rp ?s r) b else Some T3) = Some T4"
    "shape (rb_mem T4) ?s b r" "upd_only T3 T4 (set (addrs r))" "rb_root T4 = rb_root T3"
    using reparent_ok [OF b3(2) _ s3 [symmetric], of b] di by auto
  have s4: "rb_sentinel T4 = ?s" using upd_only_sentinel [OF T4(3)] s3 by simp
  have b4: "rb_mem T4 b = Some ?bn" "shape (rb_mem T4) ?s b l" "cshape (rb_mem T4) ?s q (rb_root T4) b C"
    using upd_only_mem [OF T4(3) dj(8)] T4(4) b3 T3(2) upd_only_shape [OF T4(3) dj(5)]
      upd_only_cshape [OF T4(3) dj(6)] by simp_all
  let ?A = "insert b (set (addrs l) \<union> set (addrs r) \<union> set (caddrs C))"
  have U: "upd_only T T4 ?A"
    using upd_only_chain3 [OF T1(3) T2(2) T3(3), of ?A] T4(3) by (intro upd_only_chain [OF _ T4(3)]) auto
  have "?s \<notin> ?A"
    using shape_addrs [OF sh(1)] shape_addrs [OF sh(2)] cshape_addrs [OF sh(3)] b(3) by auto
  then have "sentinel_ok T4" using sentinel_ok_upd [OF sok U] by simp
  then have "rep T4 q C (Nd l b (rb_key bn) c r)"
    unfolding rep_alt s4 using b4 T4(2) b di by simp
  moreover have "take_place T b a = Some T4"
  proof -
    have "take_place T b a = do { T \<leftarrow> do { nl \<leftarrow> get_left T a; T \<leftarrow> set_left T b nl; nr \<leftarrow> get_right T a;
        T \<leftarrow> set_right T b nr; np \<leftarrow> get_parent T a; T \<leftarrow> set_parent T b np; agc_rbt_copy_color T b a };
      T \<leftarrow> relink_left T a b;
      sl \<leftarrow> get_left T b;
      T \<leftarrow> (if sl \<noteq> rb_sentinel T then set_parent T sl b else Some T);
      sr \<leftarrow> get_right T b;
      if sr \<noteq> rb_sentinel T then set_parent T sr b else Some T }"
      by (simp add: take_place_def)
    moreover have "get_left T2 b = Some (rp ?s l)" "get_right T3 b = Some (rp ?s r)"
      using b2(1) b3(1) b(2) by (simp_all add: heap_defs)
    ultimately show ?thesis using T3(1) T4(1) s2 s3 by (simp only: e1 T2(1) Option.bind.bind_lunit)
  qed
  ultimately show ?thesis using U by blast
qed


lemma distinct_plug: "distinct (addrs (plug C t)) = distinct (addrs t @ caddrs C)"
proof (induction C arbitrary: t)
  case (Cons f C)
  then show ?case by (cases f) auto
qed simp

lemma lio_Nil_cpar:
  "lio E = [] \<Longrightarrow> E \<noteq> [] \<Longrightarrow> cpar q (E @ C) = cpar q' E \<and> cpar q' E \<in> set (caddrs E)"
  by (cases E; cases "hd E") auto

lemma splice_succ:
  assumes R: "rep T q C (Nd l a k c r)" and r: "r = plug E (Nd Lf b kb cb y)" "lio E = []"
  shows "\<exists>T'. delete_splice T a b (rp (rb_sentinel T) y) = Some T' \<and>
     hole T' q (E @ FR l b kb c # C) y (rp (rb_sentinel T) y) \<and> rb_mem T' a \<noteq> None \<and>
     upd_only T T' (insert (rb_sentinel T) (nodes C (Nd l a k c r)))"
proof -
  let ?s = "rb_sentinel T" and ?x = "rp (rb_sentinel T) y" and ?r = "plug E y"
  let ?F = "E @ FR l a k c # C" and ?A = "insert (rb_sentinel T) (nodes C (Nd l a k c r))"
  let ?p = "if E = [] then b else cpar q ?F"
  have Rb: "rep T q ?F (Nd Lf b kb cb y)"
    using R r rep_plug [of T q ?F] rep_plug [of T q C] by simp
  obtain f D where F: "?F = f # D" by (cases ?F) auto
  from replace_child_ok [OF Rb [unfolded F], of ?x] obtain T1 where
    T1: "replace_child T b ?x = Some T1" "upd_only T T1 (set (caddrs ?F))"
    "cshape (rb_mem T1) ?s q (rb_root T1) ?x ?F" "rb_mem T1 b = rb_mem T b" unfolding F by blast
  have s1: "rb_sentinel T1 = ?s" using T1(2) by (rule upd_only_sentinel)
  have di: "distinct (b # addrs y @ caddrs ?F)" using Rb by (simp add: rep_def)
  have aF: "a \<in> set (caddrs ?F)" by simp
  have ns: "?s \<notin> set (caddrs ?F)" "?s \<noteq> b" "?s \<notin> set (addrs y)"
    using rep_nodes [OF Rb] by (auto simp: nodes_def)
  have x: "?x \<notin> set (caddrs ?F)" "?x \<noteq> b" using di ns by (cases y; auto)+
  have sh1: "shape (rb_mem T1) ?s b y"
  proof -
    have "set (addrs y) \<inter> set (caddrs ?F) = {}" using di by auto
    then show ?thesis using Rb upd_only_shape [OF T1(2)] by (simp add: rep_def)
  qed
  have sok: "sentinel_ok T1"
    using Rb ns by (intro sentinel_ok_upd [OF _ T1(2)]) (simp_all add: rep_alt)
  have dy: "distinct (addrs y)" using di by simp
  from set_parent_ok [of T1 b y ?p] sh1 dy sok s1 obtain T2 where
    T2: "set_parent T1 ?x ?p = Some T2" "shape (rb_mem T2) ?s ?p y" "get_parent T2 ?x = Some ?p"
      "sentinel_ok T2" "rb_root T2 = rb_root T1" "upd_only T1 T2 {?x}" by auto
  have s2: "rb_sentinel T2 = ?s" using T2(6) s1 upd_only_sentinel by metis
  have c2: "cshape (rb_mem T2) ?s q (rb_root T2) ?x ?F"
    using T1(3) upd_only_cshape [OF T2(6), of ?F] x(1) T2(5) by simp
  have par: "get_parent T1 b = Some (cpar q ?F)"
    using rep_reads(3) [OF Rb] T1(4) by (auto simp: heap_defs split: if_split_asm)
  have "cpar q ?F = a \<longleftrightarrow> E = []"
    using lio_Nil_cpar [OF r(2), of q "FR l a k c # C" q] di by auto
  then have sp: "do { T \<leftarrow> replace_child T b ?x; sp \<leftarrow> get_parent T b;
      T \<leftarrow> (if sp = a then set_parent T ?x b else set_parent T ?x sp); Some T } = Some T2"
    using T1(1) par T2(1) by (cases "E = []") auto
  obtain z where z: "shape (rb_mem T2) ?s z ?r" "cshape (rb_mem T2) ?s q (rb_root T2) (rp ?s ?r) (FR l a k c # C)"
  proof (cases "E = []")
    case True
    with c2 T2(2) that show ?thesis by simp
  next
    case False
    with c2 T2(2) have "cshape (rb_mem T2) ?s q (rb_root T2) ?x ?F \<and> shape (rb_mem T2) ?s (cpar q ?F) y" by simp
    then show ?thesis unfolding shape_plug using that by blast
  qed
  have b2: "rb_mem T2 b = rb_mem T b" using T2(6) x(2) T1(4) by (simp add: upd_only_def)
  obtain bn where bn: "rb_mem T b = Some bn" "rb_key bn = kb" "b \<noteq> NULL"
    using Rb by (auto simp: rep_def)
  have ad: "set (addrs ?r) = set (addrs y) \<union> set (caddrs E)" by (simp add: addrs_plug)
  have "distinct (addrs ?r)" using di by (auto simp: distinct_plug)
  then have dt: "distinct (a # b # addrs l @ addrs ?r @ caddrs C)"
    using di by (auto simp: ad)
  from z(2) have a2: "rb_mem T2 a = Some \<lparr>rb_key = k, rb_left = rp ?s l, rb_right = rp ?s ?r,
      rb_parent = cpar q C, rb_red = c\<rparr>" "a \<noteq> NULL" "a \<noteq> ?s" "shape (rb_mem T2) ?s a l"
    "cshape (rb_mem T2) ?s q (rb_root T2) a C" by simp_all
  from take_place_ok [of T2 a k l ?r q C c b bn z] a2 z(1) bn b2 ns(2) dt T2(4) s2 obtain T3 where
    T3: "take_place T2 b a = Some T3" "rep T3 q C (Nd l b kb c ?r)"
    "upd_only T2 T3 (insert b (set (addrs l) \<union> set (addrs ?r) \<union> set (caddrs C)))" by auto
  have s3: "rb_sentinel T3 = ?s" using upd_only_sentinel [OF T3(3)] s2 by simp
  have R3: "rep T3 q (E @ FR l b kb c # C) y"
    using T3(2) rep_plug [of T3 q "E @ FR l b kb c # C" y] rep_plug [of T3 q C] by simp
  have U: "upd_only T T3 ?A"
  proof (rule upd_only_chain3 [OF T1(2) T2(6) T3(3)])
    have A: "?A = insert ?s (insert a (insert b (set (addrs l) \<union> set (addrs y) \<union> set (caddrs E) \<union> set (caddrs C))))"
      unfolding nodes_def r(1) by (simp add: addrs_plug insert_commute Un_ac)
    have xs: "?x \<in> insert ?s (set (addrs y))" by (cases y) simp_all
    show "set (caddrs ?F) \<subseteq> ?A" unfolding A by (simp only: caddrs_simps faddrs.simps set_append) auto
    show "{?x} \<subseteq> ?A" unfolding A using xs by blast
    show "insert b (set (addrs l) \<union> set (addrs ?r) \<union> set (caddrs C)) \<subseteq> ?A"
      unfolding A ad by blast
  qed
  have "get_parent T3 ?x = Some (cpar q (E @ FR l b kb c # C))"
  proof (cases y)
    case Lf
    have "?s \<notin> insert b (set (addrs l) \<union> set (addrs ?r) \<union> set (caddrs C))"
      using ns by (auto simp: ad)
    then have "get_parent T3 ?s = get_parent T2 ?s"
      using upd_only_mem [OF T3(3)] by (simp add: heap_defs)
    moreover have "?p = cpar q (E @ FR l b kb c # C)"
      using lio_Nil_cpar [OF r(2)] by (cases "E = []") (auto, metis)
    ultimately show ?thesis using T2(3) Lf by simp
  next
    case (Nd yl ya yk yc yr)
    then show ?thesis using R3 rep_reads(3) by simp
  qed
  then have "hole T3 q (E @ FR l b kb c # C) y ?x" using R3 s3 by (simp add: hole_def)
  moreover have "delete_splice T a b ?x = Some T3"
  proof -
    have "b \<noteq> a" using di by auto
    then have "delete_splice T a b ?x = do { T \<leftarrow> do { T \<leftarrow> replace_child T b ?x; sp \<leftarrow> get_parent T b;
      T \<leftarrow> (if sp = a then set_parent T ?x b else set_parent T ?x sp); Some T }; take_place T b a }"
      by (simp add: delete_splice_def)
    then show ?thesis using T3(1) by (simp only: sp Option.bind.bind_lunit)
  qed
  moreover have "rb_mem T3 a \<noteq> None"
    using upd_only_mem [OF T3(3), of a] dt a2(1) by auto
  ultimately show ?thesis using U by blast
qed


section \<open>The whole deletion\<close>

text \<open>A deleted node is left with null links and key 0.\<close>

definition node_cleared :: "rbtree \<Rightarrow> ptr \<Rightarrow> bool" where
  "node_cleared T a \<longleftrightarrow> (case rb_mem T a of None \<Rightarrow> False
     | Some n \<Rightarrow> rb_key n = 0 \<and> rb_left n = NULL \<and> rb_right n = NULL \<and> rb_parent n = NULL)"

lemma debug_clear_ok:
  assumes "rb_mem T a \<noteq> None" "a \<noteq> NULL"
  shows "\<exists>T'. debug_clear T a = Some T' \<and> upd_only T T' {a} \<and> rb_root T' = rb_root T \<and> node_cleared T' a"
  using assms by (auto simp: debug_clear_def heap_defs upd_only_def node_cleared_def)

lemma rep_frame:
  assumes R: "rep T q C t" and U: "upd_only T T' A" and r: "rb_root T' = rb_root T"
    and A: "A \<inter> insert (rb_sentinel T) (nodes C t) = {}"
  shows "rep T' q C t"
proof -
  have "set (addrs t) \<inter> A = {}" "set (caddrs C) \<inter> A = {}" "rb_sentinel T \<notin> A"
    using A by (auto simp: nodes_def)
  then show ?thesis
    using R upd_only_shape [OF U] upd_only_cshape [OF U] upd_only_sentinel [OF U] r
      upd_only_mem [OF U] by (simp add: rep_def)
qed

lemma hole_frame:
  assumes H: "hole T q C t x" and U: "upd_only T T' A" and r: "rb_root T' = rb_root T"
    and A: "A \<inter> insert (rb_sentinel T) (nodes C t) = {}"
  shows "hole T' q C t x"
proof -
  from H have R: "rep T q C t" and x: "x = rp (rb_sentinel T) t" by (simp_all add: hole_def)
  have "x \<notin> A" using A x by (cases t) (auto simp: nodes_def)
  then have "get_parent T' x = get_parent T x"
    using upd_only_mem [OF U] by (simp add: heap_defs)
  then show ?thesis
    using H rep_frame [OF R U r A] upd_only_sentinel [OF U] by (auto simp: hole_def)
qed

lemma cleared_upd: "node_cleared T a \<Longrightarrow> upd_only T T' A \<Longrightarrow> a \<notin> A \<Longrightarrow> node_cleared T' a"
  by (simp add: node_cleared_def upd_only_mem)

lemma delete_finish:
  assumes H: "hole T q F y x" and F: "F \<noteq> []"
    and inv: "rb_inv (plug F (Nd l b kb cb r))" and y: "l = Lf \<and> y = r \<or> r = Lf \<and> y = l"
    and a: "rb_mem T a \<noteq> None" "a \<noteq> NULL" "a \<notin> insert (rb_sentinel T) (nodes F y)"
  shows "\<exists>T' t'. (do { T \<leftarrow> debug_clear T a;
       if cb then Some T else do { (T, temp) \<leftarrow> delete_loop T x; agc_rbt_black T temp } }) = Some T' \<and>
     rep T' q [] t' \<and> rb_inv t' \<and> io t' = lio F @ io y @ rio F \<and>
     upd_only T T' (insert (rb_sentinel T) (insert a (nodes F y))) \<and> node_cleared T' a"
proof -
  from debug_clear_ok [OF a(1,2)] obtain T1 where T1: "debug_clear T a = Some T1" "upd_only T T1 {a}"
    "rb_root T1 = rb_root T" "node_cleared T1 a" by blast
  have H1: "hole T1 q F y x" using a(3) by (intro hole_frame [OF H T1(2,3)]) auto
  have s1: "rb_sentinel T1 = rb_sentinel T" using T1(2) by (rule upd_only_sentinel)
  from inv have i: "invc y" "invh y" "cinvc F" "root_black F" "cb \<longrightarrow> \<not> red y"
    "cinvh F (if cb then bh y else Suc (bh y))" "\<not> cb \<or> \<not> cred F"
    using y by (auto simp: rb_inv_plug split: if_splits)
  show ?thesis
  proof (cases cb)
    case True
    have "rep T1 q [] (plug F y)" using H1 rep_plug [of T1 q F y] by (simp add: hole_def)
    moreover have "rb_inv (plug F y)" using i True F by (simp add: rb_inv_plug)
    moreover have "upd_only T T1 (insert (rb_sentinel T) (insert a (nodes F y)))"
      using T1(2) by (rule upd_only_mono) auto
    ultimately show ?thesis using T1(1,4) True by auto
  next
    case False
    with i have p: "invc (blacken y)" "cinvh F (Suc (bh y))" by (simp_all add: invc_blacken)
    from fixup_ok [OF H1 p(1) i(2,3) p(2)] obtain T2 where
      T2: "Option.bind (delete_loop T1 x) (\<lambda>(T, temp). agc_rbt_black T temp) = Some T2"
      "rep T2 q [] (del_fix F y)" "upd_only T1 T2 (insert (rb_sentinel T1) (nodes F y))"
      by (auto simp: fixup_result_def)
    have "rb_inv (del_fix F y) \<and> io (del_fix F y) = lio F @ io y @ rio F"
      using i p by (intro del_fix_ok) auto
    moreover have "upd_only T T2 (insert (rb_sentinel T) (insert a (nodes F y)))"
      by (rule upd_only_chain [OF T1(2) T2(3)]) (auto simp: s1)
    moreover have "node_cleared T2 a"
      using cleared_upd [OF T1(4) T2(3)] a(3) s1 by simp
    ultimately show ?thesis using T1(1) T2(1,2) False by auto
  qed
qed

text \<open>What deleting the node \<open>a\<close> at the focus is to achieve.\<close>

definition delete_result :: "rbtree \<Rightarrow> ptr \<Rightarrow> (ptr \<times> key) list \<Rightarrow> ptr set \<Rightarrow> bool" where
  "delete_result T a xs A \<longleftrightarrow> (\<exists>T'. agc_rbtree_delete T a = Some T' \<and> tree_of T' xs \<and>
     upd_only T T' (insert (rb_sentinel T) A) \<and> node_cleared T' a)"

lemma delete_pick_plain:
  assumes R: "rep T q C (Nd l a k c r)" and y: "l = Lf \<and> y = r \<or> r = Lf \<and> l \<noteq> Lf \<and> y = l"
  shows "delete_pick T a = Some (a, rp (rb_sentinel T) y)"
proof -
  have "l \<noteq> Lf \<Longrightarrow> rp (rb_sentinel T) l \<noteq> rb_sentinel T"
    using R by (cases l) (auto simp: rep_def)
  then show ?thesis using y rep_reads(1,2) [OF R] by (auto simp: delete_pick_def)
qed

lemma delete_plain:
  assumes R: "rep T q C (Nd l a k c r)" and I: "rb_inv (plug C (Nd l a k c r))"
    and y: "l = Lf \<and> y = r \<or> r = Lf \<and> l \<noteq> Lf \<and> y = l"
  shows "delete_result T a (lio C @ io y @ rio C) (nodes C (Nd l a k c r))"
proof -
  let ?s = "rb_sentinel T" and ?A = "nodes C (Nd l a k c r)"
  have y': "l = Lf \<and> y = r \<or> r = Lf \<and> y = l" using y by blast
  note pick = delete_pick_plain [OF R y]
  have Ay: "insert a (nodes C y) \<subseteq> ?A" using y by (auto simp: nodes_def)
  have an: "rb_mem T a \<noteq> None" "a \<noteq> NULL" "a \<notin> insert ?s (nodes C y)"
    using R y by (auto simp: rep_def nodes_def)
  show ?thesis
  proof (cases C)
    case Nil
    have root: "rb_root T = a" using rep_root R Nil by fastforce
    let ?T0 = "T\<lparr>rb_root := rp ?s y\<rparr>"
    have "rep ?T0 a [] y" using R y Nil by (auto simp: rep_def)
    from rep_black_hole [OF this] obtain T1 where T1: "agc_rbt_black ?T0 (rp ?s y) = Some T1"
      "rep T1 a [] (blacken y)" "upd_only ?T0 T1 (insert ?s (nodes [] y))" by auto
    have a1: "rb_mem T1 a \<noteq> None" using upd_only_mem [OF T1(3), of a] an Nil by simp
    from debug_clear_ok [OF a1 an(2)] obtain T2 where T2: "debug_clear T1 a = Some T2"
      "upd_only T1 T2 {a}" "rb_root T2 = rb_root T1" "node_cleared T2 a" by blast
    have s1: "rb_sentinel T1 = ?s" using upd_only_sentinel [OF T1(3)] by simp
    have "rep T2 a [] (blacken y)"
      using an(3) Nil by (intro rep_frame [OF T1(2) T2(2,3)]) (auto simp: s1 nodes_def)
    moreover have "rb_inv (blacken y)"
      using I y Nil by (auto simp: rb_inv_def invc_blacken)
    ultimately have "tree_of T2 (io y)" using tree_ofI [of T2 a "blacken y"] by simp
    moreover have "upd_only T T2 (insert ?s ?A)"
    proof (rule upd_only_chain [OF _ T2(2)])
      show "upd_only T T1 (insert ?s (nodes [] y))" using T1(3) by (simp add: upd_only_def)
    qed (use Ay Nil in auto)
    moreover have "agc_rbtree_delete T a = Some T2"
      unfolding agc_rbtree_delete_def by (simp add: pick root T1(1) T2(1))
    ultimately show ?thesis using T2(4) Nil by (auto simp: delete_result_def)
  next
    case (Cons f D)
    have nr: "a \<noteq> rb_root T" using Cons by (intro rep_not_root [OF R]) auto
    from splice_plain [OF R [unfolded Cons] y'] obtain T1 where
      T1: "delete_splice T a a (rp ?s y) = Some T1" "hole T1 q C y (rp ?s y)" "rb_mem T1 a = rb_mem T a"
      "upd_only T T1 (insert ?s ?A)" unfolding Cons by blast
    have s1: "rb_sentinel T1 = ?s" using T1(4) by (rule upd_only_sentinel)
    have CN: "C \<noteq> []" and a1: "rb_mem T1 a \<noteq> None" "a \<notin> insert (rb_sentinel T1) (nodes C y)"
      using Cons an T1(3) s1 by simp_all
    from delete_finish [OF T1(2) CN I y' a1(1) an(2) a1(2)] s1 obtain T2 t' where
      T2: "do { T \<leftarrow> debug_clear T1 a; if c then Some T
          else do { (T, temp) \<leftarrow> delete_loop T (rp ?s y); agc_rbt_black T temp } } = Some T2"
      "rep T2 q [] t'" "rb_inv t'" "io t' = lio C @ io y @ rio C"
      "upd_only T1 T2 (insert ?s (insert a (nodes C y)))" "node_cleared T2 a" by auto
    have "agc_rbtree_delete T a = Some T2"
      using T2(1) unfolding agc_rbtree_delete_def
      by (simp add: pick nr rep_reads(5) [OF R] T1(1))
    moreover have "upd_only T T2 (insert ?s ?A)"
      by (rule upd_only_chain [OF T1(4) T2(5)]) (use Ay in auto)
    ultimately show ?thesis using T2 tree_ofI by (auto simp: delete_result_def)
  qed
qed

lemma delete_succ:
  assumes R: "rep T q C (Nd l a k c r)" and I: "rb_inv (plug C (Nd l a k c r))"
    and lr: "l \<noteq> Lf" "r \<noteq> Lf"
  shows "delete_result T a (lio C @ io l @ io r @ rio C) (nodes C (Nd l a k c r))"
proof -
  let ?s = "rb_sentinel T" and ?A = "nodes C (Nd l a k c r)"
  from min_ok [OF rep_down_right [OF R] lr(2)] obtain E b kb cb y where
    r: "r = plug E (Nd Lf b kb cb y)" "lio E = []" and min: "agc_rbtree_min T (rp ?s r) = Some b" by blast
  let ?F = "E @ FR l b kb c # C"
  have Rb: "rep T q (E @ FR l a k c # C) (Nd Lf b kb cb y)"
    using R r rep_plug [of T q "E @ FR l a k c # C"] rep_plug [of T q C] by simp
  have ne: "rp ?s l \<noteq> ?s" "rp ?s r \<noteq> ?s" using R lr by (cases l; cases r; auto simp: rep_def)+
  have pick: "delete_pick T a = Some (b, rp ?s y)"
    using rep_reads(1,2) [OF R] rep_reads(1,2) [OF Rb] ne min by (simp add: delete_pick_def)
  have nr: "b \<noteq> rb_root T" by (rule rep_not_root [OF Rb]) auto
  from splice_succ [OF R r] obtain T1 where
    T1: "delete_splice T a b (rp ?s y) = Some T1" "hole T1 q ?F y (rp ?s y)" "rb_mem T1 a \<noteq> None"
      "upd_only T T1 (insert ?s ?A)" by blast
  have s1: "rb_sentinel T1 = ?s" using T1(4) by (rule upd_only_sentinel)
  have inv: "rb_inv (plug ?F (Nd Lf b kb cb y))"
    using I r by (auto simp: rb_inv_plug [of C])
  have nd: "insert a (nodes ?F y) \<subseteq> ?A" "a \<notin> nodes ?F y" "a \<noteq> ?s" "a \<noteq> NULL"
    using R Rb r(1) by (auto simp: nodes_def rep_def addrs_plug)
  from delete_finish [OF T1(2) _ inv _ T1(3)] nd s1 obtain T2 t' where
    T2: "do { T \<leftarrow> debug_clear T1 a; if cb then Some T
        else do { (T, temp) \<leftarrow> delete_loop T (rp ?s y); agc_rbt_black T temp } } = Some T2"
    "rep T2 q [] t'" "rb_inv t'" "io t' = lio ?F @ io y @ rio ?F"
    "upd_only T1 T2 (insert ?s (insert a (nodes ?F y)))" "node_cleared T2 a" by auto
  have "agc_rbtree_delete T a = Some T2"
    using T2(1) unfolding agc_rbtree_delete_def
    by (simp add: pick nr rep_reads(5) [OF Rb] T1(1))
  moreover have "upd_only T T2 (insert ?s ?A)"
    by (rule upd_only_chain [OF T1(4) T2(5)]) (use nd in auto)
  moreover have "io t' = lio C @ io l @ io r @ rio C" using T2(4) r by simp
  ultimately show ?thesis using T2 tree_ofI by (auto simp: delete_result_def)
qed

text \<open>Every node of a tree is the root of the subtree at some focus.\<close>

lemma focus_ex: "a \<in> set (addrs t) \<Longrightarrow> \<exists>C l k c r. t = plug C (Nd l a k c r)"
proof (induction t)
  case (Nd l b k c r)
  consider "a = b" | "a \<in> set (addrs l)" | "a \<in> set (addrs r)" using Nd.prems by auto
  then show ?case
  proof cases
    case 1
    then show ?thesis by (intro exI [of _ "[]"]) auto
  next
    case 2
    with Nd.IH(1) obtain C l' k' c' r' where "l = plug C (Nd l' a k' c' r')" by blast
    then have "Nd l b k c r = plug (C @ [FL b k c r]) (Nd l' a k' c' r')" by simp
    then show ?thesis by blast
  next
    case 3
    with Nd.IH(2) obtain C l' k' c' r' where "r = plug C (Nd l' a k' c' r')" by blast
    then have "Nd l b k c r = plug (C @ [FR l b k c]) (Nd l' a k' c' r')" by simp
    then show ?thesis by blast
  qed
qed simp

lemma delete_tree_of:
  assumes T: "tree_of T xs" and a: "a \<in> fst ` set xs"
  shows "delete_result T a (List.filter (\<lambda>e. fst e \<noteq> a) xs) (fst ` set xs)"
proof -
  from T obtain q t where R: "rep T q [] t" and I: "rb_inv t" and xs: "io t = xs"
    by (auto simp: tree_of_def)
  have "a \<in> set (addrs t)" using a xs by (simp add: addrs_io)
  then obtain C l k c r where t: "t = plug C (Nd l a k c r)" using focus_ex by blast
  have RC: "rep T q C (Nd l a k c r)" using R t rep_plug by simp
  have A: "nodes C (Nd l a k c r) = fst ` set xs"
    using addrs_plug [of C "Nd l a k c r"] addrs_io [of t] unfolding nodes_def xs [symmetric] t
    by (simp only:)
  have di: "a \<notin> fst ` set (lio C @ io l @ io r @ rio C)"
  proof -
    have "distinct (map fst (io t))" using R by (simp add: map_fst_io rep_def)
    then show ?thesis using t by auto
  qed
  have F: "List.filter (\<lambda>e. fst e \<noteq> a) xs = lio C @ io l @ io r @ rio C"
  proof -
    have "List.filter (\<lambda>e. fst e \<noteq> a) (lio C @ io l @ io r @ rio C) = lio C @ io l @ io r @ rio C"
      using di by (intro filter_eq_self) (auto simp: image_iff)
    moreover have "xs = lio C @ io l @ (a, k) # io r @ rio C" using xs t by simp
    ultimately show ?thesis by simp
  qed
  show ?thesis
  proof (cases "l = Lf \<or> r = Lf")
    case True
    then show ?thesis
      using delete_plain [OF RC, of r] delete_plain [OF RC, of l] I t unfolding F A by auto
  next
    case False
    then show ?thesis
      using delete_succ [OF RC] I t unfolding F A by simp
  qed
qed

end
