(* ===== verification/Rb_Queue.thy ===== *)
theory Rb_Queue
  imports Rb_Delete
begin

text \<open>
  The tree walks \<open>agc_rbtree_min\<close> and \<open>agc_rbtree_next\<close>, and the contract of the whole tree: an
  ordered queue of entries as its clients (the timers) use it. The contract is a locale; its
  interpretations on the model are the two ways the sources initialise a tree. The last section
  states the properties of the red-black tree.
\<close>

section \<open>Walks\<close>

definition first_ptr :: "(ptr \<times> key) list \<Rightarrow> ptr" where
  "first_ptr xs = (case xs of [] \<Rightarrow> NULL | e # _ \<Rightarrow> fst e)"

lemma first_ptr_simps [simp]: "first_ptr [] = NULL" "first_ptr (e # xs) = fst e"
  by (simp_all add: first_ptr_def)

lemma min_first:
  assumes "rep T q C t" "t \<noteq> Lf"
  shows "agc_rbtree_min T (rp (rb_sentinel T) t) = Some (first_ptr (io t @ xs))"
proof -
  from min_ok [OF assms] obtain E b kb cb y where "t = plug E (Nd Lf b kb cb y)" "lio E = []"
    "agc_rbtree_min T (rp (rb_sentinel T) t) = Some b" by blast
  then show ?thesis by simp
qed

lemma next_up_ok:
  assumes "rep T q C t" "t \<noteq> Lf"
  shows "next_up T (rp (rb_sentinel T) t) = Some (first_ptr (rio C))"
  using assms
proof (induction C arbitrary: t)
  case Nil
  then obtain l a k c r where t: "t = Nd l a k c r" by (cases t) auto
  with Nil.prems rep_root [OF Nil.prems(1)] rep_reads(3) [of T q "[]" l a k c r] show ?case
    by (subst next_up.simps) simp
next
  case (Cons f D)
  obtain l a k c r where t: "t = Nd l a k c r" using Cons.prems(2) by (cases t) auto
  have par: "get_parent T a = Some (cpar q (f # D))" using rep_reads(3) Cons.prems(1) t by blast
  have nr: "a \<noteq> rb_root T" using t by (intro rep_not_root [OF Cons.prems(1)]) auto
  show ?case
  proof (cases f)
    case (FL b m d y)
    then have "get_left T b = Some a"
      using Cons.prems(1) t rep_reads(1) [of T q D t b m d y] by (simp add: rep_plug1)
    then show ?thesis using par nr t FL by (subst next_up.simps) simp
  next
    case (FR x b m d)
    have R: "rep T q D (Nd x b m d t)" using Cons.prems(1) FR by (simp add: rep_plug1)
    have "a \<noteq> rp (rb_sentinel T) x" using R t by (cases x) (auto simp: rep_def)
    moreover have "next_up T b = Some (first_ptr (rio D))" using Cons.IH [OF R] by simp
    ultimately show ?thesis
      using par nr t FR rep_reads(1) [OF R] by (subst next_up.simps) simp
  qed
qed

lemma next_ok:
  assumes R: "rep T q C (Nd l a k c r)"
  shows "agc_rbtree_next T a = Some (first_ptr (io r @ rio C))"
proof (cases "r = Lf")
  case True
  then show ?thesis
    using next_up_ok [OF R] rep_reads(2) [OF R] by (simp add: agc_rbtree_next_def)
next
  case False
  have "rp (rb_sentinel T) r \<noteq> rb_sentinel T" using R False by (cases r) (auto simp: rep_def)
  then show ?thesis
    using min_first [OF rep_down_right [OF R] False] rep_reads(2) [OF R]
    by (simp add: agc_rbtree_next_def)
qed

lemma tree_of_distinct: "tree_of T xs \<Longrightarrow> distinct (map fst xs)"
  by (auto simp: tree_of_def rep_def map_fst_io)

lemma tree_of_nonnull: "tree_of T xs \<Longrightarrow> NULL \<notin> fst ` set xs \<and> rb_sentinel T \<notin> fst ` set xs"
  unfolding tree_of_def by (elim exE conjE) (drule rep_nodes, simp add: nodes_def addrs_io)

lemma tree_of_key:
  assumes "tree_of T xs" "(a, k) \<in> set xs"
  shows "get_key T a = Some k"
proof -
  from assms(1) obtain q t where R: "rep T q [] t" and xs: "io t = xs" by (auto simp: tree_of_def)
  have "a \<in> set (addrs t)" using assms(2) xs by (force simp: addrs_io)
  then obtain C l k' c r where t: "t = plug C (Nd l a k' c r)" using focus_ex by blast
  have "(a, k') \<in> set xs" using xs t by auto
  then have "k' = k" using tree_of_distinct [OF assms(1)] assms(2)
    by (metis distinct_map_fst_unique fst_conv prod.inject)
  then show ?thesis using R t rep_plug [of T q C] rep_reads(4) by blast
qed

lemma tree_of_empty: "tree_of T xs \<Longrightarrow> rb_root T = rb_sentinel T \<longleftrightarrow> xs = []"
proof -
  assume "tree_of T xs"
  then obtain q t where R: "rep T q [] t" and xs: "io t = xs" by (auto simp: tree_of_def)
  then show ?thesis using rep_root [OF R] by (cases t) (auto simp: rep_def)
qed

lemma tree_of_min:
  assumes "tree_of T (e # xs)"
  shows "agc_rbtree_min T (rb_root T) = Some (fst e)"
proof -
  from assms obtain q t where R: "rep T q [] t" and io: "io t = e # xs" by (auto simp: tree_of_def)
  then have "t \<noteq> Lf" by auto
  with min_first [OF R this, of "[]"] rep_root [OF R] io show ?thesis by simp
qed

lemma split_unique:
  "distinct (map fst (xs @ e # ys)) \<Longrightarrow> xs @ e # ys = xs' @ e' # ys' \<Longrightarrow> fst e = fst e' \<Longrightarrow> ys = ys'"
proof (induction xs arbitrary: xs')
  case Nil
  show ?case
  proof (cases xs')
    case (Cons z zs)
    with Nil have "z = e" "e' \<in> set ys" by auto
    with Nil show ?thesis by (simp add: image_iff) (metis Nil.prems(3))
  qed (use Nil in simp)
next
  case (Cons x xs)
  show ?case
  proof (cases xs')
    case Nil
    with Cons.prems have "x = e'" by simp
    with Cons.prems(1,3) show ?thesis by simp
  next
    case (Cons z zs)
    then have e: "xs @ e # ys = zs @ e' # ys'" using Cons.prems(2) by simp
    have "distinct (map fst (xs @ e # ys))" using Cons.prems(1) by simp
    from Cons.IH [OF this e Cons.prems(3)] show ?thesis .
  qed
qed

lemma tree_of_next:
  assumes "tree_of T (xs @ (a, k) # ys)"
  shows "agc_rbtree_next T a = Some (first_ptr ys)"
proof -
  from assms obtain q t where R: "rep T q [] t" and io: "io t = xs @ (a, k) # ys"
    by (auto simp: tree_of_def)
  have "a \<in> set (addrs t)" using io by (auto simp: addrs_io)
  then obtain C l k' c r where t: "t = plug C (Nd l a k' c r)" using focus_ex by blast
  have "xs @ (a, k) # ys = (lio C @ io l) @ (a, k') # io r @ rio C" using io t by simp
  from split_unique [OF tree_of_distinct [OF assms] this] have "ys = io r @ rio C" by simp
  moreover have "rep T q C (Nd l a k' c r)" using R t rep_plug [of T q C] by simp
  ultimately show ?thesis using next_ok by simp
qed


section \<open>The contract of an ordered queue\<close>

text \<open>
  A client knows the tree through four operations and the list of entries it holds. \<open>fresh s n xs k\<close>
  says that \<open>n\<close> is an allocated node outside the tree whose key field is \<open>k\<close>.
\<close>

locale ordered_queue =
  fixes holds :: "'s \<Rightarrow> (ptr \<times> key) list \<Rightarrow> bool"
    and fresh :: "'s \<Rightarrow> ptr \<Rightarrow> (ptr \<times> key) list \<Rightarrow> key \<Rightarrow> bool"
    and ins :: "'s \<Rightarrow> ptr \<Rightarrow> 's option"
    and del :: "'s \<Rightarrow> ptr \<Rightarrow> 's option"
    and rekey :: "'s \<Rightarrow> ptr \<Rightarrow> key \<Rightarrow> 's option"
    and lt :: "key \<Rightarrow> key \<Rightarrow> bool"
    and K :: "key set"
  assumes ins_ok: "holds s xs \<Longrightarrow> fresh s n xs k \<Longrightarrow> k \<in> K \<Longrightarrow>
      \<exists>s'. ins s n = Some s' \<and> holds s' (insort_entry lt (n, k) xs)"
    and del_ok: "holds s xs \<Longrightarrow> n \<in> fst ` set xs \<Longrightarrow>
      \<exists>s' k'. del s n = Some s' \<and> holds s' (List.filter (\<lambda>e. fst e \<noteq> n) xs) \<and>
        fresh s' n (List.filter (\<lambda>e. fst e \<noteq> n) xs) k'"
    and rekey_ok: "holds s xs \<Longrightarrow> fresh s n xs k' \<Longrightarrow>
      \<exists>s'. rekey s n k = Some s' \<and> holds s' xs \<and> fresh s' n xs k"
begin

text \<open>Giving an entry a new key by taking it out, storing the key and inserting it again.\<close>

lemma move_ok:
  assumes "holds s xs" "n \<in> fst ` set xs" "k \<in> K"
  shows "\<exists>s'. do { s \<leftarrow> del s n; s \<leftarrow> rekey s n k; ins s n } = Some s' \<and>
     holds s' (insort_entry lt (n, k) (List.filter (\<lambda>e. fst e \<noteq> n) xs))"
proof -
  let ?ys = "List.filter (\<lambda>e. fst e \<noteq> n) xs"
  from del_ok [OF assms(1,2)] obtain s1 k' where s1: "del s n = Some s1" "holds s1 ?ys" "fresh s1 n ?ys k'"
    by blast
  from rekey_ok [OF s1(2,3)] obtain s2 where s2: "rekey s1 n k = Some s2" "holds s2 ?ys" "fresh s2 n ?ys k"
    by blast
  from ins_ok [OF s2(2,3) assms(3)] s1(1) s2(1) show ?thesis by auto
qed

text \<open>Adding an entry that is not in the queue.\<close>

lemma add_ok:
  assumes "holds s xs" "fresh s n xs k'" "k \<in> K"
  shows "\<exists>s'. do { s \<leftarrow> rekey s n k; ins s n } = Some s' \<and> holds s' (insort_entry lt (n, k) xs)"
proof -
  from rekey_ok [OF assms(1,2)] obtain s2 where s2: "rekey s n k = Some s2" "holds s2 xs" "fresh s2 n xs k"
    by blast
  from ins_ok [OF s2(2,3) assms(3)] s2(1) show ?thesis by auto
qed

text \<open>Taking out the first entry.\<close>

lemma pop_ok:
  assumes "holds s (e # xs)" "fst e \<notin> fst ` set xs"
  shows "\<exists>s' k'. del s (fst e) = Some s' \<and> holds s' xs \<and> fresh s' (fst e) xs k'"
proof -
  have "List.filter (\<lambda>y. fst y \<noteq> fst e) (e # xs) = xs"
    using assms(2) by (auto intro!: filter_eq_self simp: image_iff)
  then show ?thesis using del_ok [OF assms(1), of "fst e"] by simp
qed

end

text \<open>The tree provides it: the invariant it keeps is the order of its entries.\<close>

definition queue_of :: "insert_func \<Rightarrow> key set \<Rightarrow> rbtree \<Rightarrow> (ptr \<times> key) list \<Rightarrow> bool" where
  "queue_of f K T xs \<longleftrightarrow> tree_of T xs \<and> rb_insert T = f \<and>
     snd ` set xs \<subseteq> K \<and> ordered (key_lt f) (map snd xs)"

lemma queue_insert:
  assumes o: "key_order (key_lt f) K" and q: "queue_of f K T xs" and n: "fresh_node T n xs k"
    and k: "k \<in> K"
  shows "\<exists>T'. agc_rbtree_insert T n = Some T' \<and> queue_of f K T' (insort_entry (key_lt f) (n, k) xs)"
proof -
  have T: "tree_of T xs" and f: "rb_insert T = f" and ord: "ordered (key_lt f) (map snd xs)"
    and K: "snd ` set xs \<subseteq> K"
    using q by (auto simp: queue_of_def)
  from insert_tree_of [OF T n _ k K] o ord f obtain T' where
    "agc_rbtree_insert T n = Some T'" "tree_of T' (insort_entry (key_lt f) (n, k) xs)"
    "upd_only T T' (insert n (fst ` set xs))" by auto
  moreover from this(3) f have "rb_insert T' = f" by (simp add: upd_only_def)
  ultimately show ?thesis
    using key_order.ordered_insort [OF o ord k K] k K by (auto simp: queue_of_def)
qed

lemma ordered_filter: "ordered lt (map snd xs) \<Longrightarrow> ordered lt (map snd (List.filter P xs))"
  by (induction xs) (auto simp: ordered_def)

lemma queue_delete:
  assumes q: "queue_of f K T xs" and n: "n \<in> fst ` set xs"
  shows "\<exists>T' k'. agc_rbtree_delete T n = Some T' \<and> queue_of f K T' (List.filter (\<lambda>e. fst e \<noteq> n) xs) \<and>
     fresh_node T' n (List.filter (\<lambda>e. fst e \<noteq> n) xs) k'"
proof -
  let ?ys = "List.filter (\<lambda>e. fst e \<noteq> n) xs"
  have T: "tree_of T xs" using q by (simp add: queue_of_def)
  from delete_tree_of [OF this n] obtain T' where T': "agc_rbtree_delete T n = Some T'" "tree_of T' ?ys"
    "upd_only T T' (insert (rb_sentinel T) (fst ` set xs))" "node_cleared T' n"
    by (auto simp: delete_result_def)
  have "n \<noteq> NULL" "n \<noteq> rb_sentinel T'"
    using tree_of_nonnull [OF T] n upd_only_sentinel [OF T'(3)] by metis+
  then have "fresh_node T' n ?ys 0"
    using T'(4) by (auto simp: fresh_node_def node_cleared_def heap_defs split: option.splits)
  moreover have "queue_of f K T' ?ys"
    using q T'(2,3) by (auto simp: queue_of_def upd_only_def ordered_filter)
  ultimately show ?thesis using T'(1) by blast
qed


lemma tree_of_set_key:
  assumes T: "tree_of T xs" and n: "fresh_node T n xs k'"
  shows "\<exists>T'. set_key T n k = Some T' \<and> tree_of T' xs \<and> fresh_node T' n xs k \<and> rb_insert T' = rb_insert T"
proof -
  from T obtain q t where R: "rep T q [] t" and I: "rb_inv t" and xs: "io t = xs"
    by (auto simp: tree_of_def)
  from n obtain nn where nn: "rb_mem T n = Some nn" "n \<noteq> NULL" "n \<noteq> rb_sentinel T" "n \<notin> fst ` set xs"
    by (auto simp: fresh_node_def heap_defs split: if_splits)
  define T' where "T' = T\<lparr>rb_mem := (rb_mem T)(n \<mapsto> nn\<lparr>rb_key := k\<rparr>)\<rparr>"
  have "set_key T n k = Some T'" using nn by (simp add: heap_defs T'_def)
  moreover have "rep T' q [] t"
    by (rule rep_frame [OF R, of _ "{n}"]) (use nn xs in \<open>auto simp: T'_def upd_only_def nodes_def addrs_io\<close>)
  moreover have "fresh_node T' n xs k" using nn by (simp add: fresh_node_def heap_defs T'_def)
  ultimately show ?thesis using I xs tree_ofI [of T' q t] by (auto simp: T'_def)
qed

lemma queue_set_key:
  "queue_of f K T xs \<Longrightarrow> fresh_node T n xs k' \<Longrightarrow>
   \<exists>T'. set_key T n k = Some T' \<and> queue_of f K T' xs \<and> fresh_node T' n xs k"
  using tree_of_set_key [of T xs n k' k] by (auto simp: queue_of_def)

lemma key_orders: "key_order (key_lt Fn_insert_value) UNIV"
    "key_order (key_lt Fn_insert_timer_value) (timer_window b)"
  using vl.key_order_axioms tm.key_order_axioms by simp_all

lemmas value_insert = queue_insert [OF key_orders(1), unfolded key_lt.simps]
lemmas timer_insert = queue_insert [OF key_orders(2), unfolded key_lt.simps]

interpretation vq: ordered_queue "queue_of Fn_insert_value UNIV" fresh_node agc_rbtree_insert
    agc_rbtree_delete set_key value_lt UNIV
  by unfold_locales ((rule value_insert queue_delete queue_set_key; assumption)+)

interpretation tq: ordered_queue "queue_of Fn_insert_timer_value (timer_window b)" fresh_node
    agc_rbtree_insert agc_rbtree_delete set_key timer_lt "timer_window b" for b
  by unfold_locales ((rule timer_insert queue_delete queue_set_key; assumption)+)


section \<open>Properties of the tree\<close>

text \<open>A tree of three nodes (sentinel 1, nodes 2, 3, 4) and a free node 5, for the witnesses.\<close>

definition demo_node :: "key \<Rightarrow> ptr \<Rightarrow> ptr \<Rightarrow> ptr \<Rightarrow> bool \<Rightarrow> rbnode" where
  "demo_node k l r p c = \<lparr>rb_key = k, rb_left = l, rb_right = r, rb_parent = p, rb_red = c\<rparr>"

definition demo_tree :: rbtree where
  "demo_tree = \<lparr>rb_mem = [1 \<mapsto> demo_node 0 0 0 0 False, 2 \<mapsto> demo_node 20 3 4 0 False,
       3 \<mapsto> demo_node 10 1 1 2 True, 4 \<mapsto> demo_node 30 1 1 2 True, 5 \<mapsto> demo_node 20 0 0 0 False],
     rb_root = 2, rb_sentinel = 1, rb_insert = Fn_insert_timer_value\<rparr>"

lemma demo_tree_of: "tree_of demo_tree [(3, 10), (2, 20), (4, 30)]"
  by (rule tree_ofI [of _ 0 "Nd (Nd Lf 3 10 True Lf) 2 20 False (Nd Lf 4 30 True Lf)"])
    (simp_all add: rep_def demo_tree_def demo_node_def rb_inv_def)

lemma demo_fresh: "fresh_node demo_tree 5 [(3, 10), (2, 20), (4, 30)] 20"
  by (simp add: fresh_node_def demo_tree_def demo_node_def heap_defs)

lemma demo_window: "k \<in> {10, 20, 30} \<Longrightarrow> k \<in> timer_window 0"
  by (auto simp: timer_window_def)

lemma demo_ordered: "ordered timer_lt (map snd [(3::nat, 10), (2, 20), (4, 30)])"
  by (simp add: ordered_def timer_lt_window [of _ 0] demo_window)

text \<open>C5. Inserting an allocated node into a tree with the timer comparison (keys less than half the
  key range apart) always returns, never reads a null or foreign pointer, leaves every other node of
  the memory as it was, and makes a red-black tree whose in-order contents are the old ones with the
  new entry behind every entry that is not later; the contents stay ordered.\<close>

theorem rbtree_insert_timer:
  assumes "tree_of T xs" "rb_insert T = Fn_insert_timer_value" "ordered timer_lt (map snd xs)"
    and "fresh_node T n xs k" "insert k (snd ` set xs) \<subseteq> timer_window b"
  shows "\<exists>T'. agc_rbtree_insert T n = Some T' \<and> tree_of T' (insort_entry timer_lt (n, k) xs) \<and>
     ordered timer_lt (map snd (insort_entry timer_lt (n, k) xs)) \<and>
     (\<forall>p. p \<notin> insert n (fst ` set xs) \<longrightarrow> rb_mem T' p = rb_mem T p)"
proof -
  have k: "k \<in> timer_window b" "snd ` set xs \<subseteq> timer_window b" using assms(5) by simp_all
  from insert_tree_of [OF assms(1,4), of "timer_window b"] key_orders(2) [of b] assms(2,3) k
  obtain T' where "agc_rbtree_insert T n = Some T'" "tree_of T' (insort_entry timer_lt (n, k) xs)"
    "upd_only T T' (insert n (fst ` set xs))" by auto
  then show ?thesis using tm.ordered_insort [OF assms(3) k] by (auto simp: upd_only_def)
qed

theorem rbtree_insert_timer_witness:
  "\<exists>T'. agc_rbtree_insert demo_tree 5 = Some T' \<and>
     tree_of T' (insort_entry timer_lt (5, 20) [(3, 10), (2, 20), (4, 30)])"
proof -
  have "insert 20 (snd ` set [(3::nat, 10), (2, 20), (4, 30)]) \<subseteq> timer_window 0"
    using demo_window by auto
  from rbtree_insert_timer [OF demo_tree_of _ demo_ordered demo_fresh this] show ?thesis
    by (auto simp: demo_tree_def)
qed

text \<open>C2. Deleting a node of a tree always returns, changes no memory but the tree's nodes and the
  sentinel, leaves a red-black tree that holds exactly the other entries in the same order, and
  clears the deleted node's links and key.\<close>

theorem rbtree_delete_correct:
  assumes "tree_of T xs" "n \<in> fst ` set xs"
  shows "\<exists>T'. agc_rbtree_delete T n = Some T' \<and> tree_of T' (List.filter (\<lambda>e. fst e \<noteq> n) xs) \<and>
     (\<forall>p. p \<notin> insert (rb_sentinel T) (fst ` set xs) \<longrightarrow> rb_mem T' p = rb_mem T p) \<and> node_cleared T' n"
  using delete_tree_of [OF assms] by (auto simp: delete_result_def upd_only_def)

theorem rbtree_delete_witness:
  "\<exists>T'. agc_rbtree_delete demo_tree 2 = Some T' \<and> tree_of T' [(3, 10), (4, 30)]"
  using rbtree_delete_correct [OF demo_tree_of, of 2] by auto

text \<open>C30. Walking with \<open>agc_rbtree_min\<close> from the root and \<open>agc_rbtree_next\<close> visits the entries in
  order: the minimum is the first entry, the successor of an entry is the one behind it, and the
  walk ends with the null pointer.\<close>

theorem rbtree_walk:
  assumes "tree_of T xs" "i < length xs"
  shows "agc_rbtree_min T (rb_root T) = Some (fst (xs ! 0)) \<and>
     agc_rbtree_next T (fst (xs ! i)) = Some (if Suc i < length xs then fst (xs ! Suc i) else NULL)"
proof -
  obtain e ys where e: "xs = e # ys" using assms(2) by (cases xs) auto
  have "xs = take i xs @ (fst (xs ! i), snd (xs ! i)) # drop (Suc i) xs"
    using assms(2) by (simp add: id_take_nth_drop)
  then have "agc_rbtree_next T (fst (xs ! i)) = Some (first_ptr (drop (Suc i) xs))"
    using tree_of_next assms(1) by metis
  moreover have "first_ptr (drop (Suc i) xs) = (if Suc i < length xs then fst (xs ! Suc i) else NULL)"
    by (simp add: first_ptr_def Cons_nth_drop_Suc [symmetric])
  ultimately show ?thesis using tree_of_min assms(1) e by auto
qed

theorem rbtree_walk_witness:
  "agc_rbtree_min demo_tree 2 = Some 3 \<and> agc_rbtree_next demo_tree 2 = Some 4"
  using rbtree_walk [OF demo_tree_of, of 1] by (simp add: demo_tree_def)

text \<open>Initialising a tree on an allocated sentinel makes it empty, whatever the sentinel held.\<close>

lemma rbtree_init_empty:
  assumes "s \<noteq> NULL" "rb_mem T s = Some n"
  shows "\<exists>T'. agc_rbtree_init T s f = Some T' \<and> tree_of T' [] \<and> rb_insert T' = f"
  using assms
  by (auto simp: agc_rbtree_init_def heap_defs rb_inv_def rep_def intro!: tree_ofI [of _ NULL Lf])

lemma rbtree_init_witness:
  "\<exists>T'. agc_rbtree_init demo_tree 5 Fn_insert_value = Some T' \<and> tree_of T' []"
  using rbtree_init_empty [of 5 demo_tree] by (auto simp: demo_tree_def)

end
