(* ===== verification/Timer.thy ===== *)
theory Timer
  imports Rb_Queue "HOL-Library.Signed_Division"
begin

text \<open>
  The timers of \<open>src/agc_timer.c\<close>: events waiting in a red-black tree under the timer comparison,
  a dispatch thread that fires the earliest one when it is due. The node \<open>ev->timer\<close> lies at a fixed
  offset inside the event, so an event and its node are named by the same pointer here. The mutex
  makes the tree operations atomic; the dispatch thread looks at the minimum and expires it in two
  critical sections, modelled as two steps so that other threads can run in between.
\<close>

section \<open>State and operations\<close>

record timer_state =
  ts_tree :: rbtree
  ts_set :: "ptr \<Rightarrow> bool"
  ts_time :: "64 word"
  ts_fired :: "ptr list"

text \<open>\<open>current_time / 1000\<close> on the signed 64-bit \<open>agc_time_t\<close>, truncating as C does.\<close>

definition time_ms :: "64 word \<Rightarrow> 64 word" where
  "time_ms t = word_of_int (sint t sdiv 1000)"

definition agc_timer_init :: "timer_state \<Rightarrow> ptr \<Rightarrow> timer_state option" where
  "agc_timer_init S sentinel = do {
     T \<leftarrow> agc_rbtree_init (ts_tree S) sentinel Fn_insert_timer_value;
     Some (S\<lparr>ts_tree := T\<rparr>) }"

definition agc_timer_del_timer :: "timer_state \<Rightarrow> ptr \<Rightarrow> timer_state option" where
  "agc_timer_del_timer S ev = do {
     T \<leftarrow> agc_rbtree_delete (ts_tree S) ev;
     Some (S\<lparr>ts_tree := T\<rparr>) }"

definition agc_timer_add_timer :: "timer_state \<Rightarrow> 64 word \<Rightarrow> ptr \<Rightarrow> 64 word \<Rightarrow> timer_state option" where
  "agc_timer_add_timer S now ev timer = do {
     let S = S\<lparr>ts_time := now\<rparr>;
     let k = time_ms now + timer;
     S \<leftarrow> (if ts_set S ev then agc_timer_del_timer S ev else Some S);
     T \<leftarrow> set_key (ts_tree S) ev k;
     T \<leftarrow> agc_rbtree_insert T ev;
     Some (S\<lparr>ts_tree := T, ts_set := (ts_set S)(ev := True)\<rparr>) }"

definition agc_timer_curtime :: "timer_state \<Rightarrow> 64 word \<Rightarrow> timer_state \<times> 64 word" where
  "agc_timer_curtime S now =
     (let S = (if ts_time S = 0 then S\<lparr>ts_time := now\<rparr> else S) in (S, ts_time S))"

text \<open>
  One round of the dispatch thread. The first step reads the clock and the minimum; it waits when
  the tree is empty or the minimum is in the future, and otherwise goes on to expire that node.
\<close>

datatype dispatch = Idle | Expire ptr

definition dispatch_look :: "timer_state \<Rightarrow> 64 word \<Rightarrow> (timer_state \<times> dispatch) option" where
  "dispatch_look S now = do {
     let S = S\<lparr>ts_time := now\<rparr>;
     let root = rb_root (ts_tree S);
     if root = rb_sentinel (ts_tree S) then Some (S, Idle)
     else do {
       node \<leftarrow> agc_rbtree_min (ts_tree S) root;
       k \<leftarrow> get_key (ts_tree S) node;
       if 0 < sint (k - time_ms now) then Some (S, Idle) else Some (S, Expire node) } }"

definition dispatch_expire :: "timer_state \<Rightarrow> ptr \<Rightarrow> timer_state option" where
  "dispatch_expire S ev = do {
     let S = S\<lparr>ts_set := (ts_set S)(ev := False)\<rparr>;
     T \<leftarrow> agc_rbtree_delete (ts_tree S) ev;
     Some (S\<lparr>ts_tree := T, ts_fired := ts_fired S @ [ev]\<rparr>) }"

text \<open>A round without interference, and several of them at a fixed time.\<close>

definition dispatch_round :: "timer_state \<Rightarrow> 64 word \<Rightarrow> timer_state option" where
  "dispatch_round S now = do {
     (S, d) \<leftarrow> dispatch_look S now;
     case d of Idle \<Rightarrow> Some S | Expire ev \<Rightarrow> dispatch_expire S ev }"

fun dispatch_rounds :: "nat \<Rightarrow> timer_state \<Rightarrow> 64 word \<Rightarrow> timer_state option" where
  "dispatch_rounds 0 S now = Some S"
| "dispatch_rounds (Suc n) S now = do { S \<leftarrow> dispatch_round S now; dispatch_rounds n S now }"

section \<open>The invariant\<close>

text \<open>
  \<open>timers S b xs\<close>: the pending timers are \<open>xs\<close>, in firing order, all less than half the range after
  \<open>b\<close>, and \<open>timer_set\<close> marks exactly the pending events.
\<close>

definition timers :: "timer_state \<Rightarrow> key \<Rightarrow> (ptr \<times> key) list \<Rightarrow> bool" where
  "timers S b xs \<longleftrightarrow> queue_of Fn_insert_timer_value (timer_window b) (ts_tree S) xs \<and>
     (\<forall>ev. ts_set S ev \<longleftrightarrow> ev \<in> fst ` set xs)"

text \<open>An event whose timer is free: its node is allocated and in no tree.\<close>

definition free_timer :: "timer_state \<Rightarrow> ptr \<Rightarrow> (ptr \<times> key) list \<Rightarrow> bool" where
  "free_timer S ev xs \<longleftrightarrow> (\<exists>k. fresh_node (ts_tree S) ev xs k)"

lemma timers_distinct: "timers S b xs \<Longrightarrow> distinct (map fst xs)"
  by (auto simp: timers_def queue_of_def dest: tree_of_distinct)

lemma timer_not_later:
  assumes "x \<in> timer_window b" "y \<in> timer_window b"
  shows "0 < sint (x - y) \<longleftrightarrow> timer_lt y x"
proof -
  have "0 < sint (x - y) \<longleftrightarrow> \<not> sint (x - y) < 0 \<and> x \<noteq> y"
    by (metis linorder_neqE_linordered_idom order_less_imp_not_less right_minus_eq signed_eq_0_iff
        signed_0 less_irrefl)
  also have "\<dots> \<longleftrightarrow> \<not> timer_lt x y \<and> x \<noteq> y" by (simp add: timer_lt_def)
  also have "\<dots> \<longleftrightarrow> timer_lt y x"
  proof -
    have "x = y \<longleftrightarrow> uint (x - b) = uint (y - b)"
      by (metis diff_eq_eq word_uint_eqI diff_add_cancel)
    then show ?thesis using assms by (simp only: timer_lt_window) linarith
  qed
  finally show ?thesis .
qed

lemma add_timer_new:
  assumes t: "timers S b xs" and ev: "free_timer S ev xs" and k: "time_ms now + d \<in> timer_window b"
  shows "\<exists>S'. agc_timer_add_timer S now ev d = Some S' \<and>
     timers S' b (insort_entry timer_lt (ev, time_ms now + d) xs)"
proof -
  obtain k' where f: "fresh_node (ts_tree S) ev xs k'" using ev by (auto simp: free_timer_def)
  then have ns: "\<not> ts_set S ev" using t by (auto simp: timers_def fresh_node_def)
  have q: "queue_of Fn_insert_timer_value (timer_window b) (ts_tree S) xs" using t by (simp add: timers_def)
  from tq.add_ok [OF q f k] obtain T' where
    T': "do { T \<leftarrow> set_key (ts_tree S) ev (time_ms now + d); agc_rbtree_insert T ev } = Some T'"
    "queue_of Fn_insert_timer_value (timer_window b) T' (insort_entry timer_lt (ev, time_ms now + d) xs)"
    by blast
  from T'(1) have "agc_timer_add_timer S now ev d =
      Some (S\<lparr>ts_time := now, ts_tree := T', ts_set := (ts_set S)(ev := True)\<rparr>)"
    using ns by (auto simp: agc_timer_add_timer_def bind_eq_Some_conv)
  then show ?thesis using T'(2) t by (auto simp: timers_def)
qed

lemma add_timer_again:
  assumes t: "timers S b xs" and ev: "ev \<in> fst ` set xs" and k: "time_ms now + d \<in> timer_window b"
  shows "\<exists>S'. agc_timer_add_timer S now ev d = Some S' \<and>
     timers S' b (insort_entry timer_lt (ev, time_ms now + d) (List.filter (\<lambda>e. fst e \<noteq> ev) xs))"
proof -
  have s: "ts_set S ev" using t ev by (simp add: timers_def)
  have q: "queue_of Fn_insert_timer_value (timer_window b) (ts_tree S) xs" using t by (simp add: timers_def)
  from tq.move_ok [OF q ev k] obtain T' where
    T': "do { T \<leftarrow> agc_rbtree_delete (ts_tree S) ev; T \<leftarrow> set_key T ev (time_ms now + d);
           agc_rbtree_insert T ev } = Some T'"
    "queue_of Fn_insert_timer_value (timer_window b) T'
       (insort_entry timer_lt (ev, time_ms now + d) (List.filter (\<lambda>e. fst e \<noteq> ev) xs))" by blast
  from T'(1) have "agc_timer_add_timer S now ev d =
      Some (S\<lparr>ts_time := now, ts_tree := T', ts_set := (ts_set S)(ev := True)\<rparr>)"
    using s by (auto simp: agc_timer_add_timer_def agc_timer_del_timer_def bind_eq_Some_conv)
  then show ?thesis using T'(2) t ev by (auto simp: timers_def)
qed

lemma dispatch_round_ok:
  assumes t: "timers S b ((ev, k) # xs)" and now: "time_ms now \<in> timer_window b"
  shows "\<exists>S'. dispatch_round S now = Some S' \<and>
     (if timer_lt (time_ms now) k then timers S' b ((ev, k) # xs) \<and> ts_fired S' = ts_fired S
      else timers S' b xs \<and> ts_fired S' = ts_fired S @ [ev])"
proof -
  have q: "queue_of Fn_insert_timer_value (timer_window b) (ts_tree S) ((ev, k) # xs)"
    and T: "tree_of (ts_tree S) ((ev, k) # xs)" and kw: "k \<in> timer_window b"
    using t by (auto simp: timers_def queue_of_def)
  have root: "rb_root (ts_tree S) \<noteq> rb_sentinel (ts_tree S)" using tree_of_empty [OF T] by simp
  have g: "get_key (ts_tree S) ev = Some k" using tree_of_key [OF T] by simp
  have nd: "ev \<notin> fst ` set xs" using timers_distinct [OF t] by simp
  note look = timer_not_later [OF kw now]
  show ?thesis
  proof (cases "timer_lt (time_ms now) k")
    case True
    then show ?thesis
      using t root g tree_of_min [OF T] look
      by (simp add: dispatch_round_def dispatch_look_def timers_def)
  next
    case False
    from tq.pop_ok [OF q] nd obtain T' where "agc_rbtree_delete (ts_tree S) ev = Some T'"
      "queue_of Fn_insert_timer_value (timer_window b) T' xs" by auto
    then show ?thesis
      using False t root g tree_of_min [OF T] look nd
      by (auto simp: dispatch_round_def dispatch_look_def dispatch_expire_def timers_def)
  qed
qed

lemma dispatch_round_empty:
  "timers S b [] \<Longrightarrow> \<exists>S'. dispatch_round S now = Some S' \<and> timers S' b [] \<and> ts_fired S' = ts_fired S"
  by (auto simp: dispatch_round_def dispatch_look_def timers_def queue_of_def tree_of_empty)

text \<open>Any number of rounds at one time: the due prefix of the pending list fires, in order.\<close>

lemma dispatch_rounds_ok:
  assumes "timers S b xs" "time_ms now \<in> timer_window b"
  shows "\<exists>S' ys zs. dispatch_rounds n S now = Some S' \<and> xs = ys @ zs \<and> timers S' b zs \<and>
     ts_fired S' = ts_fired S @ map fst ys \<and> (\<forall>e\<in>set ys. \<not> timer_lt (time_ms now) (snd e)) \<and>
     (length ys = n \<or> zs = [] \<or> timer_lt (time_ms now) (snd (hd zs)))"
  using assms
proof (induction n arbitrary: S xs)
  case 0
  then show ?case by (intro exI [of _ S] exI [of _ "[]"] exI [of _ xs]) auto
next
  case (Suc n)
  consider "xs = []" | ev k ys where "xs = (ev, k) # ys" by (cases xs) auto
  then show ?case
  proof cases
    case 1
    with dispatch_round_empty Suc.prems(1) obtain S1 where
      S1: "dispatch_round S now = Some S1" "timers S1 b []" "ts_fired S1 = ts_fired S" by blast
    from Suc.IH [OF S1(2) Suc.prems(2)] show ?thesis using S1 1 by auto
  next
    case 2
    from dispatch_round_ok [OF Suc.prems(1) [unfolded 2] Suc.prems(2)] obtain S1 where
      S1: "dispatch_round S now = Some S1"
      "if timer_lt (time_ms now) k then timers S1 b ((ev, k) # ys) \<and> ts_fired S1 = ts_fired S
       else timers S1 b ys \<and> ts_fired S1 = ts_fired S @ [ev]" by blast
    show ?thesis
    proof (cases "timer_lt (time_ms now) k")
      case True
      then have "timers S1 b xs" "ts_fired S1 = ts_fired S" using S1(2) 2 by simp_all
      from Suc.IH [OF this(1) Suc.prems(2)] obtain S' ys' zs where
        r: "dispatch_rounds n S1 now = Some S'" "xs = ys' @ zs" "timers S' b zs"
        "ts_fired S' = ts_fired S1 @ map fst ys'" "\<forall>e\<in>set ys'. \<not> timer_lt (time_ms now) (snd e)" by blast
      have "ys' = []" using r(2,5) True 2 by (cases ys') auto
      then show ?thesis using r S1(1) True 2 \<open>ts_fired S1 = ts_fired S\<close> by auto
    next
      case False
      then have "timers S1 b ys" "ts_fired S1 = ts_fired S @ [ev]" using S1(2) by simp_all
      from Suc.IH [OF this(1) Suc.prems(2)] obtain S' ys' zs where
        r: "dispatch_rounds n S1 now = Some S'" "ys = ys' @ zs" "timers S' b zs"
        "ts_fired S' = ts_fired S1 @ map fst ys'" "\<forall>e\<in>set ys'. \<not> timer_lt (time_ms now) (snd e)"
        "length ys' = n \<or> zs = [] \<or> timer_lt (time_ms now) (snd (hd zs))" by blast
      then show ?thesis
        using S1(1) False 2 \<open>ts_fired S1 = ts_fired S @ [ev]\<close>
        by (intro exI [of _ S'] exI [of _ "(ev, k) # ys'"] exI [of _ zs]) auto
    qed
  qed
qed


text \<open>A node that was deleted once cannot be deleted again: the code follows its null links.\<close>

lemma delete_cleared:
  assumes "node_cleared T a" "rb_sentinel T \<noteq> NULL"
  shows "agc_rbtree_delete T a = None"
proof (cases "a = NULL")
  case True
  then show ?thesis by (simp add: agc_rbtree_delete_def delete_pick_def heap_defs)
next
  case False
  then have "get_left T a = Some NULL" "get_right T a = Some NULL"
    using assms(1) by (auto simp: node_cleared_def heap_defs split: option.splits)
  moreover have "agc_rbtree_min T NULL = None"
    by (subst agc_rbtree_min.simps) (simp add: heap_defs)
  ultimately show ?thesis using assms(2) by (simp add: agc_rbtree_delete_def delete_pick_def)
qed

lemma tree_of_sentinel: "tree_of T xs \<Longrightarrow> rb_sentinel T \<noteq> NULL"
  by (auto simp: tree_of_def rep_def)

lemma del_timer_ok:
  assumes t: "timers S b xs" and ev: "ev \<in> fst ` set xs"
  shows "\<exists>S'. agc_timer_del_timer S ev = Some S' \<and> ts_set S' = ts_set S \<and>
     queue_of Fn_insert_timer_value (timer_window b) (ts_tree S') (List.filter (\<lambda>e. fst e \<noteq> ev) xs) \<and>
     node_cleared (ts_tree S') ev \<and> rb_sentinel (ts_tree S') \<noteq> NULL"
proof -
  have q: "queue_of Fn_insert_timer_value (timer_window b) (ts_tree S) xs" and T: "tree_of (ts_tree S) xs"
    using t by (auto simp: timers_def queue_of_def)
  from queue_delete [OF q ev] delete_tree_of [OF T ev] show ?thesis
    using tree_of_sentinel [OF T] by (auto simp: delete_result_def agc_timer_del_timer_def upd_only_def)
qed

section \<open>Properties of the timers\<close>

definition demo_timers :: timer_state where
  "demo_timers = \<lparr>ts_tree = demo_tree, ts_set = (\<lambda>ev. ev \<in> {2, 3, 4}), ts_time = 0, ts_fired = []\<rparr>"

lemma demo_timers_ok: "timers demo_timers 0 [(3, 10), (2, 20), (4, 30)]"
  using demo_tree_of demo_ordered demo_window
  by (auto simp: timers_def demo_timers_def queue_of_def demo_tree_def)

lemma demo_time: "time_ms 20999 = 20"
  by code_simp

text \<open>C22. \<open>agc_timer_add_timer\<close> arms an event for \<open>now / 1000 + timer\<close>: a free event is added to the
  pending timers behind every one that is not later, a pending event is moved there, and afterwards
  \<open>timer_set\<close> marks exactly the pending events.\<close>

theorem add_timer_correct:
  assumes "timers S b xs" "time_ms now + d \<in> timer_window b"
    and "if ts_set S ev then True else free_timer S ev xs"
  shows "\<exists>S'. agc_timer_add_timer S now ev d = Some S' \<and>
     timers S' b (insort_entry timer_lt (ev, time_ms now + d) (List.filter (\<lambda>e. fst e \<noteq> ev) xs))"
proof (cases "ts_set S ev")
  case True
  then show ?thesis using add_timer_again [OF assms(1) _ assms(2)] assms(1) by (auto simp: timers_def)
next
  case False
  then have "ev \<notin> fst ` set xs" using assms(1) by (auto simp: timers_def)
  then have "List.filter (\<lambda>e. fst e \<noteq> ev) xs = xs" by (auto intro!: filter_eq_self simp: image_iff)
  then show ?thesis using add_timer_new [OF assms(1) _ assms(2)] assms(3) False by simp
qed

theorem add_timer_witness:
  "\<exists>S'. agc_timer_add_timer demo_timers 20999 3 10 = Some S' \<and>
     timers S' 0 (insort_entry timer_lt (3, 30) [(2, 20), (4, 30)])"
  using add_timer_correct [OF demo_timers_ok, of 20999 10 3]
  by (auto simp: demo_time demo_window demo_timers_def)

text \<open>C8. Rounds of the dispatch thread at one time fire exactly the timers that are due, earliest
  first, and leave the others pending: none fires early, none is skipped, and as many rounds as there
  are timers are enough.\<close>

theorem dispatch_fires_due:
  assumes "timers S b xs" "time_ms now \<in> timer_window b" "length xs \<le> n"
  shows "\<exists>S'. dispatch_rounds n S now = Some S' \<and>
     ts_fired S' = ts_fired S @ map fst (takeWhile (\<lambda>e. \<not> timer_lt (time_ms now) (snd e)) xs) \<and>
     timers S' b (dropWhile (\<lambda>e. \<not> timer_lt (time_ms now) (snd e)) xs)"
proof -
  from dispatch_rounds_ok [OF assms(1,2), of n] obtain S' ys zs where
    r: "dispatch_rounds n S now = Some S'" "xs = ys @ zs" "timers S' b zs"
    "ts_fired S' = ts_fired S @ map fst ys" "\<forall>e\<in>set ys. \<not> timer_lt (time_ms now) (snd e)"
    "length ys = n \<or> zs = [] \<or> timer_lt (time_ms now) (snd (hd zs))" by blast
  then have "zs = [] \<or> timer_lt (time_ms now) (snd (hd zs))" using assms(3) by auto
  with r(5) have "takeWhile (\<lambda>e. \<not> timer_lt (time_ms now) (snd e)) xs = ys"
    "dropWhile (\<lambda>e. \<not> timer_lt (time_ms now) (snd e)) xs = zs"
    unfolding r(2) by (cases zs; simp)+
  with r(1,3,4) show ?thesis by simp
qed

theorem dispatch_fires_witness:
  "\<exists>S'. dispatch_rounds 5 demo_timers 20999 = Some S' \<and> ts_fired S' = [3, 2] \<and> timers S' 0 [(4, 30)]"
proof -
  have "timer_lt 20 (30 :: key)" "\<not> timer_lt 20 (10 :: key)" "\<not> timer_lt 20 (20 :: key)"
    by (simp_all add: timer_lt_window [of _ 0] demo_window)
  then show ?thesis
    using dispatch_fires_due [OF demo_timers_ok, of 20999 5] demo_window [of 20]
    by (auto simp: demo_time demo_timers_def)
qed

text \<open>C32. \<open>agc_timer_del_timer\<close> takes the event out of the pending timers but leaves its
  \<open>timer_set\<close> flag on, so the next \<open>agc_timer_add_timer\<close> of that event, whatever the time, deletes
  the cleared node again and dereferences a null pointer.\<close>

theorem del_timer_then_add_crashes:
  assumes "timers S b xs" "ev \<in> fst ` set xs"
  shows "\<exists>S'. agc_timer_del_timer S ev = Some S' \<and>
     tree_of (ts_tree S') (List.filter (\<lambda>e. fst e \<noteq> ev) xs) \<and> ts_set S' ev \<and>
     (\<forall>now d. agc_timer_add_timer S' now ev d = None)"
proof -
  from del_timer_ok [OF assms] obtain S' where S': "agc_timer_del_timer S ev = Some S'"
    "ts_set S' = ts_set S" "queue_of Fn_insert_timer_value (timer_window b) (ts_tree S')
       (List.filter (\<lambda>e. fst e \<noteq> ev) xs)" "node_cleared (ts_tree S') ev" "rb_sentinel (ts_tree S') \<noteq> NULL"
    by blast
  have "ts_set S' ev" using S'(2) assms by (auto simp: timers_def)
  moreover have "agc_timer_add_timer S' now ev d = None" for now d
    using delete_cleared [OF S'(4,5)] calculation
    by (simp add: agc_timer_add_timer_def agc_timer_del_timer_def)
  ultimately show ?thesis using S' by (auto simp: queue_of_def)
qed

theorem del_timer_witness:
  "\<exists>S'. agc_timer_del_timer demo_timers 2 = Some S' \<and> agc_timer_add_timer S' 0 2 5 = None"
  using del_timer_then_add_crashes [OF demo_timers_ok, of 2] by auto

text \<open>The dispatch thread looks at the minimum and expires it in two critical sections: when
  another thread deletes that timer in between, the expiry crashes.\<close>

lemma dispatch_race_crashes:
  assumes "timers S b xs" "dispatch_look S now = Some (S1, Expire ev)" "ev \<in> fst ` set xs"
  shows "\<exists>S2. agc_timer_del_timer S1 ev = Some S2 \<and> dispatch_expire S2 ev = None"
proof -
  have "S1 = S\<lparr>ts_time := now\<rparr>"
    using assms(2) by (auto simp: dispatch_look_def Let_def bind_eq_Some_conv split: if_splits)
  then have "timers S1 b xs" using assms(1) by (simp add: timers_def)
  from del_timer_ok [OF this assms(3)] show ?thesis
    by (auto simp: dispatch_expire_def delete_cleared)
qed

lemma dispatch_race_witness:
  "\<exists>S1 S2. dispatch_look demo_timers 20999 = Some (S1, Expire 3) \<and>
     agc_timer_del_timer S1 3 = Some S2 \<and> dispatch_expire S2 3 = None"
proof -
  have "agc_rbtree_min demo_tree 2 = Some 3"
    using tree_of_min [OF demo_tree_of] by (simp add: demo_tree_def)
  moreover have "\<not> 0 < sint (10 - 20 :: key)" by code_simp
  ultimately have "dispatch_look demo_timers 20999 = Some (demo_timers\<lparr>ts_time := 20999\<rparr>, Expire 3)"
    by (simp add: dispatch_look_def demo_time demo_timers_def demo_tree_def demo_node_def heap_defs)
  with dispatch_race_crashes [OF demo_timers_ok this] show ?thesis by auto
qed

end
