(* ===== verification/Utils.thy ===== *)
theory Utils
  imports Prelude
begin

text \<open>
  The string helpers of \<open>src/agc_utils.c\<close> and \<open>src/include/agc_utils.h\<close>: the word-at-a-time case
  conversions, number and truth tests, and the in-place splitting of a line into fields. The last
  one works on a buffer, modelled as the list of all its characters; a read or write outside of it
  is undefined (\<^term>\<open>None\<close>).
\<close>

unbundle bit_operations_syntax

section \<open>Case conversion, several bytes at a time\<close>

definition agc_toupper :: "32 word \<Rightarrow> 32 word" where
  "agc_toupper eax = (let ebx = (0x7f7f7f7f AND eax) + 0x05050505;
       ebx = (0x7f7f7f7f AND ebx) + 0x1a1a1a1a;
       ebx = drop_bit 2 (ebx AND NOT eax) AND 0x20202020
     in eax - ebx)"

definition agc_tolower :: "32 word \<Rightarrow> 32 word" where
  "agc_tolower eax = (let ebx = (0x7f7f7f7f AND eax) + 0x25252525;
       ebx = (0x7f7f7f7f AND ebx) + 0x1a1a1a1a;
       ebx = drop_bit 2 (ebx AND NOT eax) AND 0x20202020
     in eax + ebx)"

definition agc_toupper64 :: "64 word \<Rightarrow> 64 word" where
  "agc_toupper64 eax = (let ebx = (0x7f7f7f7f7f7f7f7f AND eax) + 0x0505050505050505;
       ebx = (0x7f7f7f7f7f7f7f7f AND ebx) + 0x1a1a1a1a1a1a1a1a;
       ebx = drop_bit 2 (ebx AND NOT eax) AND 0x2020202020202020
     in eax - ebx)"

definition agc_tolower64 :: "64 word \<Rightarrow> 64 word" where
  "agc_tolower64 eax = (let ebx = (0x7f7f7f7f7f7f7f7f AND eax) + 0x2525252525252525;
       ebx = (0x7f7f7f7f7f7f7f7f AND ebx) + 0x1a1a1a1a1a1a1a1a;
       ebx = drop_bit 2 (ebx AND NOT eax) AND 0x2020202020202020
     in eax + ebx)"

text \<open>
  Reading and writing a word of \<open>n\<close> bytes on a little-endian machine; a byte is a number below 256.
\<close>

fun le_val :: "int list \<Rightarrow> int" where
  "le_val [] = 0"
| "le_val (b # bs) = b + 256 * le_val bs"

fun le_bytes :: "nat \<Rightarrow> int \<Rightarrow> int list" where
  "le_bytes 0 v = []"
| "le_bytes (Suc n) v = v mod 256 # le_bytes n (v div 256)"

text \<open>
  \<open>agc_toupper_max\<close>: whole words while more than eight bytes are left, then byte by byte; a single
  byte is sign-extended to the argument of \<open>agc_toupper\<close> and its low byte stored back.
\<close>

definition byte_step :: "(32 word \<Rightarrow> 32 word) \<Rightarrow> int \<Rightarrow> int" where
  "byte_step f c = uint (f (word_of_int (if c < 128 then c else c - 256))) mod 256"

function case_max :: "(64 word \<Rightarrow> 64 word) \<Rightarrow> (32 word \<Rightarrow> 32 word) \<Rightarrow> int list \<Rightarrow> int list" where
  "case_max f8 f1 s = (if 8 < length s
     then le_bytes 8 (uint (f8 (word_of_int (le_val (take 8 s))))) @ case_max f8 f1 (drop 8 s)
     else map (byte_step f1) s)"
  by auto
termination by (relation "measure (\<lambda>(_, _, s). length s)") auto

declare case_max.simps [simp del]

definition agc_toupper_max :: "int list \<Rightarrow> int list" where
  "agc_toupper_max = case_max agc_toupper64 agc_toupper"

definition agc_tolower_max :: "int list \<Rightarrow> int list" where
  "agc_tolower_max = case_max agc_tolower64 agc_tolower"

text \<open>What they are to compute, byte by byte.\<close>

definition upper_byte :: "int \<Rightarrow> int" where
  "upper_byte c = (if 97 \<le> c \<and> c \<le> 122 then c - 32 else c)"

definition lower_byte :: "int \<Rightarrow> int" where
  "lower_byte c = (if 65 \<le> c \<and> c \<le> 90 then c + 32 else c)"

subsection \<open>Lanes\<close>

abbreviation bytes :: "int list \<Rightarrow> bool" where
  "bytes bs \<equiv> (\<forall>b\<in>set bs. 0 \<le> b \<and> b < 256)"

lemma le_val_bound: "bytes bs \<Longrightarrow> 0 \<le> le_val bs \<and> le_val bs < 256 ^ length bs"
  by (induction bs) auto

lemma le_bytes_val: "bytes bs \<Longrightarrow> le_bytes (length bs) (le_val bs) = bs"
  by (induction bs) auto

lemma lane_eqI: "x mod 256 = y mod 256 \<Longrightarrow> x div 256 = y div 256 \<Longrightarrow> x = y" for x y :: int
  by (metis mult_div_mod_eq)

lemma lane_mod: "0 \<le> b \<Longrightarrow> b < 256 \<Longrightarrow> (b + 256 * v) mod 256 = b" for b v :: int
  by simp

lemma lane_div: "0 \<le> b \<Longrightarrow> b < 256 \<Longrightarrow> (b + 256 * v) div 256 = v" for b v :: int
  by simp

lemma and_lane:
  fixes b c v w :: int
  assumes "0 \<le> b" "b < 256" "0 \<le> c" "c < 256"
  shows "(b + 256 * v) AND (c + 256 * w) = (b AND c) + 256 * (v AND w)"
proof (rule lane_eqI)
  have bc: "0 \<le> b AND c" "b AND c < 256" using assms by simp_all
  have "((b + 256 * v) AND (c + 256 * w)) mod 256 = ((b + 256 * v) mod 256) AND ((c + 256 * w) mod 256)"
    using take_bit_and [of 8 "b + 256 * v" "c + 256 * w"] by (simp add: take_bit_eq_mod)
  then show "((b + 256 * v) AND (c + 256 * w)) mod 256 = ((b AND c) + 256 * (v AND w)) mod 256"
    using bc assms by simp
  have "((b + 256 * v) AND (c + 256 * w)) div 256 = ((b + 256 * v) div 256) AND ((c + 256 * w) div 256)"
    using drop_bit_and [of 8 "b + 256 * v" "c + 256 * w"] by (simp add: drop_bit_eq_div)
  then show "((b + 256 * v) AND (c + 256 * w)) div 256 = ((b AND c) + 256 * (v AND w)) div 256"
    using bc assms by simp
qed


lemma drop_not: "drop_bit 8 (NOT x) = NOT (drop_bit 8 x)" for x :: int
  by (rule bit_eqI) (simp add: bit_simps)

lemma andn_lane:
  fixes b c v w :: int
  assumes "0 \<le> b" "b < 256" "0 \<le> c" "c < 256"
  shows "(b + 256 * v) AND NOT (c + 256 * w) = (b AND NOT c) + 256 * (v AND NOT w)"
proof (rule lane_eqI)
  have bc: "0 \<le> b AND NOT c" "b AND NOT c < 256" using assms by simp_all
  have n: "NOT (c + 256 * w) mod 256 = NOT c mod 256"
  proof -
    have "NOT (c + 256 * w) = NOT c + 256 * (- w)" by (simp add: not_eq_complement)
    then show ?thesis by (simp only: mod_mult_self2)
  qed
  have "((b + 256 * v) AND NOT (c + 256 * w)) mod 256 = ((b + 256 * v) mod 256) AND (NOT (c + 256 * w) mod 256)"
    using take_bit_and [of 8 "b + 256 * v" "NOT (c + 256 * w)"] by (simp add: take_bit_eq_mod)
  also have "\<dots> = (b mod 256) AND (NOT c mod 256)" unfolding n by simp
  also have "\<dots> = (b AND NOT c) mod 256"
    using take_bit_and [of 8 b "NOT c"] by (simp add: take_bit_eq_mod)
  also have "\<dots> = b AND NOT c" using bc by simp
  finally show "((b + 256 * v) AND NOT (c + 256 * w)) mod 256 = ((b AND NOT c) + 256 * (v AND NOT w)) mod 256"
    using bc by simp
  have "((b + 256 * v) AND NOT (c + 256 * w)) div 256 = drop_bit 8 (b + 256 * v) AND NOT (drop_bit 8 (c + 256 * w))"
    unfolding drop_not [symmetric] drop_bit_and [symmetric] by (simp add: drop_bit_eq_div)
  then show "((b + 256 * v) AND NOT (c + 256 * w)) div 256 = ((b AND NOT c) + 256 * (v AND NOT w)) div 256"
    using bc assms by (simp add: drop_bit_eq_div)
qed

lemma shift_lane:
  fixes b v w :: int
  assumes "0 \<le> b" "b < 256"
  shows "drop_bit 2 (b + 256 * v) AND (32 + 256 * w) = (drop_bit 2 b AND 32) + 256 * (drop_bit 2 v AND w)"
proof -
  have d: "drop_bit 2 (b + 256 * v) = (drop_bit 2 b + 64 * (v mod 4)) + 256 * drop_bit 2 v"
  proof -
    have "(b + 4 * (64 * v)) div 4 = b div 4 + 64 * v" by simp
    then have "(b + 256 * v) div 4 = b div 4 + 64 * v" by simp
    moreover have "64 * v = 64 * (v mod 4) + 256 * (v div 4)"
      using mult_div_mod_eq [of 4 v] by linarith
    ultimately show ?thesis unfolding drop_bit_eq_div by (simp only: power2_eq_square) simp
  qed
  have k: "v mod 4 \<in> {0, 1, 2, 3}" by auto
  have b: "0 \<le> drop_bit 2 b" "drop_bit 2 b < 64" using assms by (simp_all add: drop_bit_eq_div)
  have "(drop_bit 2 b + 64 * (v mod 4)) AND 32 = drop_bit 2 b AND 32"
  proof -
    have t: "x AND 32 = (x mod 64) AND 32" for x :: int
    proof -
      have "0 \<le> x AND 32" "x AND 32 < 64" by (simp_all add: le_less_trans [of _ 32])
      then have "x AND 32 = take_bit 6 (x AND 32)" by (simp add: take_bit_eq_mod)
      then show ?thesis by (simp add: take_bit_and) (simp add: take_bit_eq_mod)
    qed
    show ?thesis using b t [of "drop_bit 2 b + 64 * (v mod 4)"] by simp
  qed
  then show ?thesis
    unfolding d using b k by (subst and_lane) auto
qed

lemma val_and_const:
  "bytes xs \<Longrightarrow> 0 \<le> c \<Longrightarrow> c < 256 \<Longrightarrow>
   le_val (replicate (length xs) c) AND le_val xs = le_val (map (\<lambda>x. c AND x) xs)"
  by (induction xs) (simp_all add: and_lane)

lemma val_add_const: "le_val xs + le_val (replicate (length xs) c) = le_val (map (\<lambda>x. x + c) xs)"
  by (induction xs) simp_all

lemma val_andn:
  "bytes xs \<Longrightarrow> bytes (map f xs) \<Longrightarrow> le_val (map f xs) AND NOT (le_val xs) = le_val (map (\<lambda>x. f x AND NOT x) xs)"
  by (induction xs) (simp_all add: andn_lane)

lemma val_shift:
  "bytes (map f xs) \<Longrightarrow> drop_bit 2 (le_val (map f xs)) AND le_val (replicate (length xs) 32) =
     le_val (map (\<lambda>x. drop_bit 2 (f x) AND 32) xs)"
  by (induction xs) (simp_all add: shift_lane)

lemma val_sub: "le_val xs - le_val (map f xs) = le_val (map (\<lambda>x. x - f x) xs)"
  by (induction xs) simp_all

lemma val_add: "le_val xs + le_val (map f xs) = le_val (map (\<lambda>x. x + f x) xs)"
  by (induction xs) simp_all

definition swar_lane :: "int \<Rightarrow> int \<Rightarrow> int" where
  "swar_lane k x = drop_bit 2 ((127 AND ((127 AND x) + k)) + 26 AND NOT x) AND 32"

lemma swar_lanes:
  assumes x: "bytes xs" and k: "0 \<le> k" "k \<le> 128"
    and n: "m = le_val (replicate (length xs) 127)" "a = le_val (replicate (length xs) k)"
      "b = le_val (replicate (length xs) 26)" "c = le_val (replicate (length xs) 32)"
  shows "drop_bit 2 (((m AND ((m AND le_val xs) + a)) + b) AND NOT (le_val xs)) AND c = le_val (map (swar_lane k) xs)"
proof -
  let ?f1 = "\<lambda>x. (127 AND x) + k" and ?f2 = "\<lambda>x :: int. (127 AND ((127 AND x) + k)) + 26"
  have le: "0 \<le> 127 AND y \<and> 127 AND y \<le> 127" for y :: int by simp
  have b1: "bytes (map ?f1 xs)"
  proof -
    have "0 \<le> ?f1 x \<and> ?f1 x < 256" for x using le [of x] k by linarith
    then show ?thesis by simp
  qed
  have b2: "bytes (map ?f2 xs)"
  proof -
    have "0 \<le> ?f2 x \<and> ?f2 x < 256" for x using le [of "(127 AND x) + k"] by linarith
    then show ?thesis by simp
  qed
  have b3: "bytes (map (\<lambda>x. ?f2 x AND NOT x) xs)" using b2 by auto
  have e1: "(m AND le_val xs) + a = le_val (map ?f1 xs)"
    unfolding n val_and_const [OF x, of 127, simplified] using val_add_const [of "map (\<lambda>x. 127 AND x) xs" k]
    by (simp add: o_def)
  have e2: "(m AND le_val (map ?f1 xs)) + b = le_val (map ?f2 xs)"
    unfolding n using val_and_const [OF b1, of 127] val_add_const [of "map (\<lambda>x. 127 AND ?f1 x) xs" 26]
    by (simp add: o_def)
  show ?thesis
    unfolding e1 e2 val_andn [OF x b2] n(4) val_shift [OF b3] swar_lane_def ..
qed

lemma upper_lane: "\<forall>x\<in>set [0..255]. x - swar_lane 5 x = upper_byte x"
  by code_simp

lemma lower_lane: "\<forall>x\<in>set [0..255]. x + swar_lane 37 x = lower_byte x"
  by code_simp


subsection \<open>Words\<close>

lemma word_of_int_bits:
  "word_of_int x AND word_of_int y = (word_of_int (x AND y) :: 'a :: len word)"
  "NOT (word_of_int x) = (word_of_int (NOT x) :: 'a :: len word)"
  by (simp_all add: of_int_and_eq of_int_not_eq)

lemma drop_bit_word_of_int:
  "0 \<le> k \<Longrightarrow> k < 2 ^ LENGTH('a) \<Longrightarrow> drop_bit n (word_of_int k :: 'a :: len word) = word_of_int (drop_bit n k)"
proof -
  assume k: "0 \<le> k" "k < 2 ^ LENGTH('a)"
  have "bit (word_of_int (drop_bit n k) :: 'a word) i = bit (drop_bit n (word_of_int k :: 'a word)) i"
    if "i < LENGTH('a)" for i
  proof -
    have "bit k (n + i) \<Longrightarrow> n + i < LENGTH('a)"
      using k by (metis bit_take_bit_iff take_bit_int_eq_self)
    then show ?thesis using that by (auto simp: bit_simps bit_word_of_int_iff)
  qed
  then show ?thesis by (intro bit_word_eqI) simp
qed

lemma swar_word:
  assumes x: "bytes xs" and k: "0 \<le> k" "k \<le> 128"
    and n: "m = le_val (replicate (length xs) 127)" "a = le_val (replicate (length xs) k)"
      "b = le_val (replicate (length xs) 26)" "c = le_val (replicate (length xs) 32)"
    and l: "LENGTH('a) = 8 * length xs" and w: "w = (word_of_int (le_val xs) :: 'a :: len word)"
  shows "drop_bit 2 (((word_of_int m AND ((word_of_int m AND w) + word_of_int a)) + word_of_int b) AND NOT w)
      AND word_of_int c = word_of_int (le_val (map (swar_lane k) xs))"
proof -
  let ?e = "((m AND ((m AND le_val xs) + a)) + b)"
  let ?d = "?e AND NOT (le_val xs)"
  have v: "0 \<le> le_val xs" "le_val xs < 2 ^ LENGTH('a)"
    using le_val_bound [OF x] unfolding l by (simp_all add: power_mult)
  have "m = le_val (map (\<lambda>_. 127) xs)" "b = le_val (map (\<lambda>_. 26) xs)"
    using n by (simp_all add: map_replicate_const)
  have m0: "0 \<le> m" "0 \<le> b" unfolding n by (simp_all add: le_val_bound)
  have ba: "m + b < 256 ^ length xs"
  proof -
    have "m + b = le_val (replicate (length xs) 153)"
      unfolding n by (induction xs) auto
    also have "\<dots> < 256 ^ length xs" using le_val_bound [of "replicate (length xs) 153"] by simp
    finally show ?thesis .
  qed
  have "0 \<le> ?e" using m0 by (simp add: add_nonneg_nonneg)
  moreover have "?e \<le> m + b" using m0 by simp
  ultimately have d: "0 \<le> ?d" "?d < 2 ^ LENGTH('a)"
    using ba unfolding l by (simp_all add: power_mult le_less_trans [OF _ ba])
  have "((word_of_int m AND ((word_of_int m AND w) + word_of_int a)) + word_of_int b) AND NOT w = word_of_int ?d"
    unfolding w by (simp only: word_of_int_bits of_int_add [symmetric])
  then show ?thesis
    using drop_bit_word_of_int [OF d] swar_lanes [OF x k n] by (simp add: word_of_int_bits)
qed

lemma upper_bytes: "bytes xs \<Longrightarrow> map (\<lambda>x. x - swar_lane 5 x) xs = map upper_byte xs"
  using upper_lane by auto

lemma lower_bytes: "bytes xs \<Longrightarrow> map (\<lambda>x. x + swar_lane 37 x) xs = map lower_byte xs"
  using lower_lane by auto

lemma replicate_numeral_val:
  "le_val (replicate 4 c) = c * 0x01010101" "le_val (replicate 8 c) = c * 0x0101010101010101"
  by (simp_all add: eval_nat_numeral)

lemma toupper_word:
  assumes "bytes xs" "length xs = 4"
  shows "agc_toupper (word_of_int (le_val xs)) = word_of_int (le_val (map upper_byte xs))"
  using swar_word [OF assms(1), of 5 "0x7f7f7f7f" "0x05050505" "0x1a1a1a1a" "0x20202020" "word_of_int (le_val xs) :: 32 word"]
    val_sub [of xs "swar_lane 5"] upper_bytes [OF assms(1)]
  by (simp add: assms agc_toupper_def Let_def replicate_numeral_val flip: of_int_diff)

lemma tolower_word:
  assumes "bytes xs" "length xs = 4"
  shows "agc_tolower (word_of_int (le_val xs)) = word_of_int (le_val (map lower_byte xs))"
  using swar_word [OF assms(1), of 37 "0x7f7f7f7f" "0x25252525" "0x1a1a1a1a" "0x20202020" "word_of_int (le_val xs) :: 32 word"]
    val_add [of xs "swar_lane 37"] lower_bytes [OF assms(1)]
  by (simp add: assms agc_tolower_def Let_def replicate_numeral_val flip: of_int_add)

lemma toupper64_word:
  assumes "bytes xs" "length xs = 8"
  shows "agc_toupper64 (word_of_int (le_val xs)) = word_of_int (le_val (map upper_byte xs))"
  using swar_word [OF assms(1), of 5 "0x7f7f7f7f7f7f7f7f" "0x0505050505050505" "0x1a1a1a1a1a1a1a1a"
      "0x2020202020202020" "word_of_int (le_val xs) :: 64 word"]
    val_sub [of xs "swar_lane 5"] upper_bytes [OF assms(1)]
  by (simp add: assms agc_toupper64_def Let_def replicate_numeral_val flip: of_int_diff)

lemma tolower64_word:
  assumes "bytes xs" "length xs = 8"
  shows "agc_tolower64 (word_of_int (le_val xs)) = word_of_int (le_val (map lower_byte xs))"
  using swar_word [OF assms(1), of 37 "0x7f7f7f7f7f7f7f7f" "0x2525252525252525" "0x1a1a1a1a1a1a1a1a"
      "0x2020202020202020" "word_of_int (le_val xs) :: 64 word"]
    val_add [of xs "swar_lane 37"] lower_bytes [OF assms(1)]
  by (simp add: assms agc_tolower64_def Let_def replicate_numeral_val flip: of_int_add)

text \<open>One byte through the word: its sign extension fills the other lanes.\<close>

lemma byte_step_ok:
  assumes f: "\<And>xs. bytes xs \<Longrightarrow> length xs = 4 \<Longrightarrow> f (word_of_int (le_val xs)) = word_of_int (le_val (map g xs))"
    and g: "\<And>x. 0 \<le> x \<Longrightarrow> x < 256 \<Longrightarrow> 0 \<le> g x \<and> g x < 256" and c: "0 \<le> c" "c < 256"
  shows "byte_step f c = g c"
proof -
  let ?h = "if c < 128 then 0 else (255 :: int)"
  let ?xs = "[c, ?h, ?h, ?h]"
  have xs: "bytes ?xs" "length ?xs = 4" using c by simp_all
  have "word_of_int (if c < 128 then c else c - 256) = (word_of_int (le_val ?xs) :: 32 word)"
  proof (cases "c < 128")
    case False
    have "(word_of_int (c - 256) :: 32 word) = word_of_int (c - 256 + 2 ^ 32)"
      using word_of_int_2p_len [where ?'a = 32] by simp
    then show ?thesis using False by (simp add: algebra_simps)
  qed simp
  then have "f (word_of_int (if c < 128 then c else c - 256)) = word_of_int (le_val (map g ?xs))"
    using f [OF xs] by simp
  moreover have b: "bytes (map g ?xs)" using xs(1) g by auto
  have "0 \<le> le_val (map g ?xs) \<and> le_val (map g ?xs) < 2 ^ 32"
    using le_val_bound [OF b] by simp
  then have "uint (word_of_int (le_val (map g ?xs)) :: 32 word) = le_val (map g ?xs)"
    by (simp only: uint_word_of_int_eq take_bit_int_eq_self len_num1 len_bit0 len_bit1) (simp add: take_bit_int_eq_self)
  ultimately have "uint (f (word_of_int (if c < 128 then c else c - 256))) = le_val (map g ?xs)"
    by (simp only:)
  moreover have "le_val (map g ?xs) mod 256 = g c"
    using lane_mod [of "g c" "le_val (map g [?h, ?h, ?h])"] g [of c] c by (simp only: list.map le_val.simps)
  ultimately show ?thesis by (simp only: byte_step_def)
qed

lemma case_max_ok:
  assumes f8: "\<And>xs. bytes xs \<Longrightarrow> length xs = 8 \<Longrightarrow> f8 (word_of_int (le_val xs)) = word_of_int (le_val (map g xs))"
    and f1: "\<And>xs. bytes xs \<Longrightarrow> length xs = 4 \<Longrightarrow> f1 (word_of_int (le_val xs)) = word_of_int (le_val (map g xs))"
    and g: "\<And>x. 0 \<le> x \<Longrightarrow> x < 256 \<Longrightarrow> 0 \<le> g x \<and> g x < 256" and s: "bytes s"
  shows "case_max f8 f1 s = map g s"
  using s
proof (induction "length s" arbitrary: s rule: less_induct)
  case less
  show ?case
  proof (cases "8 < length s")
    case True
    let ?x = "take 8 s"
    have x: "bytes ?x" "length ?x = 8" using less.prems True by (auto dest: in_set_takeD)
    have b: "bytes (map g ?x)" using x(1) g by auto
    have "uint (f8 (word_of_int (le_val ?x))) = le_val (map g ?x)"
      using f8 [OF x] le_val_bound [OF b] x(2) by (simp add: uint_word_of_int_eq take_bit_int_eq_self)
    then have "le_bytes 8 (uint (f8 (word_of_int (le_val ?x)))) = map g ?x"
      using le_bytes_val [OF b] x(2) by simp
    moreover have "case_max f8 f1 (drop 8 s) = map g (drop 8 s)"
      using less.prems True by (intro less.hyps) (auto dest: in_set_dropD)
    ultimately show ?thesis
      using True by (subst case_max.simps) (metis append_take_drop_id map_append)
  next
    case False
    then show ?thesis
      using less.prems byte_step_ok [OF f1 g] by (subst case_max.simps) auto
  qed
qed


section \<open>Paths, numbers, truth values\<close>

text \<open>
  \<open>agc_cut_path\<close> looks for the last slash and then for the last backslash, each time from the
  start; what it finds last wins.
\<close>

fun after_last :: "char \<Rightarrow> string \<Rightarrow> string \<Rightarrow> string" where
  "after_last c [] ret = ret"
| "after_last c (x # xs) ret = (if x = c then after_last c xs xs else after_last c xs ret)"

definition agc_cut_path :: "string option \<Rightarrow> string option" where
  "agc_cut_path s = map_option (\<lambda>s. after_last (CHR 0x5C) s (after_last (CHR ''/'') s s)) s"

definition agc_is_number :: "string \<Rightarrow> bool" where
  "agc_is_number s = (let s = (case s of [] \<Rightarrow> [] | c # cs \<Rightarrow> if c = CHR ''-'' \<or> c = CHR ''+'' then cs else s)
     in list_all (\<lambda>c. c = CHR ''.'' \<or> is_digit c) s)"

definition agc_atoui :: "string \<Rightarrow> 32 word" where
  "agc_atoui s = (let tmp = atol s in if tmp < 0 then 0 else word_of_int tmp)"

definition zstr :: "string option \<Rightarrow> bool" where
  "zstr s = (case s of None \<Rightarrow> True | Some s \<Rightarrow> s = [])"

definition agc_true :: "string option \<Rightarrow> bool" where
  "agc_true expr = (case expr of None \<Rightarrow> False
     | Some s \<Rightarrow> strcaseeq s ''yes'' \<or> strcaseeq s ''on'' \<or> strcaseeq s ''true'' \<or> strcaseeq s ''t'' \<or>
         strcaseeq s ''enabled'' \<or> strcaseeq s ''active'' \<or> strcaseeq s ''allow'' \<or>
         (agc_is_number s \<and> atoi s \<noteq> 0))"

lemma after_last_none: "c \<notin> set s \<Longrightarrow> after_last c s r = r"
  by (induction s arbitrary: r) auto

lemma after_last_append: "c \<notin> set t \<Longrightarrow> after_last c (p @ c # t) r = t"
  by (induction p arbitrary: r) (auto simp: after_last_none)

lemma strcaseeq_digit:
  assumes "is_digit c" "strcaseeq (c # s) (d # t)"
  shows "ascii_lower d = c"
proof -
  have "ascii_lower c = c" using assms(1) by (auto simp: ascii_lower_def is_digit_def Let_def)
  then show ?thesis using assms(2) by (simp add: strcaseeq_def)
qed

lemma dec_nat_not_word:
  assumes "w \<noteq> []" "\<not> is_digit (ascii_lower (hd w))"
  shows "\<not> strcaseeq (dec_nat n) w"
proof
  assume eq: "strcaseeq (dec_nat n) w"
  obtain c cs where c: "dec_nat n = c # cs" by (cases "dec_nat n") auto
  obtain d ds where d: "w = d # ds" using assms(1) by (cases w) auto
  have "is_digit c" using dec_nat_digits [of c n] c by simp
  with strcaseeq_digit [of c cs d ds] eq c d assms(2) show False by simp
qed

lemma dec_nat_is_number: "agc_is_number (dec_nat n)"
proof -
  obtain c cs where c: "dec_nat n = c # cs" by (cases "dec_nat n") auto
  have d: "\<forall>x\<in>set (c # cs). is_digit x" using dec_nat_digits [of _ n] c by auto
  then show ?thesis
    using is_digit_not_sign [of c] unfolding c by (auto simp: agc_is_number_def list_all_iff)
qed

section \<open>Properties\<close>

text \<open>C33. The case conversions that work on eight bytes at a time convert every byte as the
  character-wise definition does: letters change case, every other byte, those above 127 included,
  stays, and no carry crosses from one byte to the next, whatever the length of the string.\<close>

theorem case_conversion_bytewise:
  assumes "\<forall>b\<in>set s. 0 \<le> b \<and> b < 256"
  shows "agc_toupper_max s = map upper_byte s \<and> agc_tolower_max s = map lower_byte s"
proof
  show "agc_toupper_max s = map upper_byte s"
    unfolding agc_toupper_max_def
    by (rule case_max_ok [OF toupper64_word toupper_word _ assms]) (simp_all add: upper_byte_def)
  show "agc_tolower_max s = map lower_byte s"
    unfolding agc_tolower_max_def
    by (rule case_max_ok [OF tolower64_word tolower_word _ assms]) (simp_all add: lower_byte_def)
qed

theorem case_conversion_witness:
  "agc_toupper_max [104, 101, 108, 108, 111, 32, 65, 122, 123, 200] = [72, 69, 76, 76, 79, 32, 65, 90, 123, 200]"
  using case_conversion_bytewise [of "[104, 101, 108, 108, 111, 32, 65, 122, 123, 200]"]
  by (simp add: upper_byte_def)

text \<open>\<open>agc_atoui\<close> reads back every unsigned 32-bit number printed in decimal, and \<open>agc_true\<close>
  is true of a printed (31-bit) number exactly when it is not zero.\<close>

lemma numbers_read_back:
  assumes "n < 2 ^ 32"
  shows "unat (agc_atoui (dec_nat n)) = n \<and> (n < 2 ^ 31 \<longrightarrow> agc_true (Some (dec_nat n)) = (n \<noteq> 0))"
proof -
  have "atol (dec_nat n) = int n" using assms by (intro atol_dec_nat) simp
  then have "unat (agc_atoui (dec_nat n)) = n"
    using assms by (simp add: agc_atoui_def unat_of_nat take_bit_nat_eq_self)
  moreover have "agc_true (Some (dec_nat n)) = (n \<noteq> 0)" if "n < 2 ^ 31"
    using that dec_nat_is_number
    by (simp add: agc_true_def atoi_dec_nat dec_nat_not_word is_digit_def ascii_lower_def)
  ultimately show ?thesis by blast
qed

lemma numbers_read_back_witness:
  "unat (agc_atoui (dec_nat 4294967295)) = 4294967295 \<and> agc_true (Some (dec_nat 7))"
  using numbers_read_back [of 4294967295] numbers_read_back [of 7] by simp

end
