(* ===== verification/Line_Fields.thy ===== *)
theory Line_Fields
  imports Utils
begin

text \<open>
  \<open>agc_separate_string\<close> of \<open>src/agc_utils.c\<close>: a line is cut into fields inside its own buffer. The
  buffer is the list of all its characters, terminators included; positions stand for pointers into
  it. Reads and writes outside of the buffer are \<^term>\<open>None\<close>. The array of field pointers is the
  list of the positions written to it; its capacity is \<open>arraylen\<close>.
\<close>

section \<open>The buffer\<close>

abbreviation ESCAPE_META :: char where
  "ESCAPE_META \<equiv> CHR 0x5C"

abbreviation QUOTE :: char where
  "QUOTE \<equiv> CHR 0x27"

definition rd :: "string \<Rightarrow> nat \<Rightarrow> char option" where
  "rd buf p = (if p < length buf then Some (buf ! p) else None)"

definition wr :: "string \<Rightarrow> nat \<Rightarrow> char \<Rightarrow> string option" where
  "wr buf p c = (if p < length buf then Some (buf[p := c]) else None)"

text \<open>\<open>strchr (p, c) != NULL\<close> for a character that is not NUL.\<close>

partial_function (option) has_chr :: "string \<Rightarrow> nat \<Rightarrow> char \<Rightarrow> bool option" where
  "has_chr buf p c = do {
     x \<leftarrow> rd buf p;
     if x = c then Some True else if x = NUL then Some False else has_chr buf (p + 1) c }"

section \<open>Cleaning a field\<close>

fun unescape_char :: "char \<Rightarrow> char" where
  "unescape_char c = (if c = CHR ''n'' then CHR 0x0A else if c = CHR ''r'' then CHR 0x0D
     else if c = CHR ''t'' then CHR 0x09 else if c = CHR ''s'' then CHR '' '' else c)"

text \<open>The character an escape stands for, if the backslash starts one.\<close>

definition escape_of :: "char \<Rightarrow> char \<Rightarrow> char option" where
  "escape_of delim e =
     (if e = QUOTE \<or> e = CHR 0x22 \<or> (delim \<noteq> NUL \<and> e = delim) \<or> e = ESCAPE_META then Some e
      else if unescape_char e \<noteq> e then Some (unescape_char e) else None)"

partial_function (option) skip_blanks :: "string \<Rightarrow> nat \<Rightarrow> nat option" where
  "skip_blanks buf p = do {
     c \<leftarrow> rd buf p;
     if c = CHR '' '' then skip_blanks buf (p + 1) else Some p }"

text \<open>
  The copying loop: \<open>ptr\<close> reads, \<open>dest\<close> writes, \<open>en\<close> is the pointer \<open>end\<close> (none while it is null).
\<close>

partial_function (option) clean_loop ::
  "string \<Rightarrow> char \<Rightarrow> nat \<Rightarrow> nat \<Rightarrow> nat option \<Rightarrow> bool \<Rightarrow> (string \<times> nat option) option" where
  "clean_loop buf delim ptr dest en inside = do {
     c \<leftarrow> rd buf ptr;
     if c = NUL then Some (buf, en)
     else do {
       esc \<leftarrow> (if c = ESCAPE_META then map_option (escape_of delim) (rd buf (ptr + 1)) else Some None);
       case esc of
         Some e \<Rightarrow> do {
           buf \<leftarrow> wr buf dest e;
           clean_loop buf delim (ptr + 2) (dest + 1) (Some (dest + 1)) inside }
       | None \<Rightarrow> do {
           q \<leftarrow> (if c = QUOTE then if inside then Some True else has_chr buf (ptr + 1) QUOTE else Some False);
           if q then clean_loop buf delim (ptr + 1) dest (if \<not> inside then Some dest else en) (\<not> inside)
           else do {
             buf \<leftarrow> wr buf dest c;
             clean_loop buf delim (ptr + 1) (dest + 1)
               (if c \<noteq> CHR '' '' \<or> inside then Some (dest + 1) else en) inside } } } }"

definition cleanup_separated_string :: "string \<Rightarrow> nat \<Rightarrow> char \<Rightarrow> (string \<times> nat) option" where
  "cleanup_separated_string buf str delim = do {
     start \<leftarrow> skip_blanks buf str;
     (buf, en) \<leftarrow> clean_loop buf delim start start None False;
     buf \<leftarrow> (case en of None \<Rightarrow> Some buf | Some e \<Rightarrow> wr buf e NUL);
     Some (buf, start) }"

section \<open>Cutting\<close>

datatype tokenizer_state = START | SKIP_INITIAL_SPACE | FIND_DELIM | SKIP_ENDING_SPACE

partial_function (option) blank_loop ::
  "string \<Rightarrow> tokenizer_state \<Rightarrow> nat \<Rightarrow> nat list \<Rightarrow> nat \<Rightarrow> bool \<Rightarrow> (string \<times> nat list) option" where
  "blank_loop buf state ptr array arraylen inside = do {
     c \<leftarrow> rd buf ptr;
     if c = NUL \<or> \<not> length array < arraylen then Some (buf, array)
     else case state of
       START \<Rightarrow> blank_loop buf SKIP_INITIAL_SPACE ptr (array @ [ptr]) arraylen inside
     | SKIP_INITIAL_SPACE \<Rightarrow>
         if c = CHR '' '' then blank_loop buf state (ptr + 1) array arraylen inside
         else blank_loop buf FIND_DELIM ptr array arraylen inside
     | FIND_DELIM \<Rightarrow>
         if c = ESCAPE_META then blank_loop buf state (ptr + 2) array arraylen inside
         else if c = QUOTE then blank_loop buf state (ptr + 1) array arraylen (\<not> inside)
         else if c = CHR '' '' \<and> \<not> inside then do {
           buf \<leftarrow> wr buf ptr NUL;
           blank_loop buf SKIP_ENDING_SPACE (ptr + 1) array arraylen inside }
         else blank_loop buf state (ptr + 1) array arraylen inside
     | SKIP_ENDING_SPACE \<Rightarrow>
         if c = CHR '' '' then blank_loop buf state (ptr + 1) array arraylen inside
         else blank_loop buf START ptr array arraylen inside }"

partial_function (option) char_loop ::
  "string \<Rightarrow> char \<Rightarrow> tokenizer_state \<Rightarrow> nat \<Rightarrow> nat list \<Rightarrow> nat \<Rightarrow> bool \<Rightarrow> (string \<times> nat list) option" where
  "char_loop buf delim state ptr array arraylen inside = do {
     c \<leftarrow> rd buf ptr;
     if c = NUL \<or> \<not> length array < arraylen then Some (buf, array)
     else if state = START then char_loop buf delim FIND_DELIM ptr (array @ [ptr]) arraylen inside
     else if c = ESCAPE_META then char_loop buf delim state (ptr + 2) array arraylen inside
     else do {
       q \<leftarrow> (if c = QUOTE then if inside then Some True else has_chr buf (ptr + 1) QUOTE else Some False);
       if q then char_loop buf delim state (ptr + 1) array arraylen (\<not> inside)
       else if c = delim \<and> \<not> inside then do {
         buf \<leftarrow> wr buf ptr NUL;
         char_loop buf delim START (ptr + 1) array arraylen inside }
       else char_loop buf delim state (ptr + 1) array arraylen inside } }"

fun clean_all :: "string \<Rightarrow> char \<Rightarrow> nat list \<Rightarrow> (string \<times> nat list) option" where
  "clean_all buf delim [] = Some (buf, [])"
| "clean_all buf delim (p # ps) = do {
     (buf, s) \<leftarrow> cleanup_separated_string buf p delim;
     (buf, ss) \<leftarrow> clean_all buf delim ps;
     Some (buf, s # ss) }"

definition separate_string_blank_delim :: "string \<Rightarrow> nat \<Rightarrow> nat \<Rightarrow> (string \<times> nat list) option" where
  "separate_string_blank_delim buf p arraylen = do {
     (buf, array) \<leftarrow> blank_loop buf START p [] arraylen False;
     clean_all buf NUL array }"

definition separate_string_char_delim :: "string \<Rightarrow> nat \<Rightarrow> char \<Rightarrow> nat \<Rightarrow> (string \<times> nat list) option" where
  "separate_string_char_delim buf p delim arraylen = do {
     (buf, array) \<leftarrow> char_loop buf delim START p [] arraylen False;
     clean_all buf delim array }"

text \<open>
  A prefix \<open>^^x\<close> names another delimiter. The count the C function returns is the length of the list.
\<close>

definition agc_separate_string :: "string option \<Rightarrow> char \<Rightarrow> nat \<Rightarrow> (string \<times> nat list) option" where
  "agc_separate_string buf delim arraylen = (case buf of
     None \<Rightarrow> Some ([], [])
   | Some buf \<Rightarrow> if arraylen = 0 then Some (buf, [])
     else do {
       c0 \<leftarrow> rd buf 0;
       c1 \<leftarrow> (if c0 = CHR ''^'' then rd buf 1 else Some NUL);
       c2 \<leftarrow> (if c0 = CHR ''^'' \<and> c1 = CHR ''^'' then rd buf 2 else Some NUL);
       c3 \<leftarrow> (if c2 \<noteq> NUL then rd buf 3 else Some NUL);
       let (p, delim) = (if c3 \<noteq> NUL then (3, c2) else (0, delim));
       if delim = CHR '' '' then separate_string_blank_delim buf p arraylen
       else separate_string_char_delim buf p delim arraylen })"

text \<open>The fields as the caller reads them.\<close>

definition fields_of :: "string \<times> nat list \<Rightarrow> string list" where
  "fields_of r = map (cstr (fst r)) (snd r)"

section \<open>Cleaning does what it should\<close>

text \<open>The cleaning as a function on strings: the output so far, the length up to the last kept end.\<close>

function clean_go :: "char \<Rightarrow> string \<Rightarrow> string \<Rightarrow> nat option \<Rightarrow> bool \<Rightarrow> string \<times> nat option" where
  "clean_go d [] out en q = (out, en)"
| "clean_go d (c # cs) out en q =
     (case (if c = ESCAPE_META \<and> cs \<noteq> [] then escape_of d (hd cs) else None) of
        Some e \<Rightarrow> clean_go d (tl cs) (out @ [e]) (Some (length out + 1)) q
      | None \<Rightarrow>
          if c = QUOTE \<and> (q \<or> QUOTE \<in> set cs)
          then clean_go d cs out (if \<not> q then Some (length out) else en) (\<not> q)
          else clean_go d cs (out @ [c]) (if c \<noteq> CHR '' '' \<or> q then Some (length out + 1) else en) q)"
  by pat_completeness auto
termination by (relation "measure (\<lambda>(d, s, _). length s)") auto

definition clean :: "char \<Rightarrow> string \<Rightarrow> string" where
  "clean d s = (let (out, en) = clean_go d (dropWhile (\<lambda>c. c = CHR '' '') s) [] None False
     in take (case en of None \<Rightarrow> 0 | Some n \<Rightarrow> n) out)"

lemma rd_append [simp]:
  "rd (pre @ c # post) (length pre) = Some c" "rd (pre @ c # d # post) (Suc (length pre)) = Some d"
  by (simp_all add: rd_def nth_append)

lemma has_chr_ok:
  assumes "NUL \<notin> set s" "c \<noteq> NUL"
  shows "has_chr (pre @ s @ NUL # post) (length pre) c = Some (c \<in> set s)"
  using assms
proof (induction s arbitrary: pre)
  case Nil
  then show ?case by (subst has_chr.simps) simp
next
  case (Cons x s)
  then show ?case
    using Cons.IH [of "pre @ [x]"] by (subst has_chr.simps) auto
qed

lemma skip_blanks_ok:
  "NUL \<notin> set s \<Longrightarrow> skip_blanks (pre @ s @ NUL # post) (length pre) =
     Some (length pre + length (takeWhile (\<lambda>c. c = CHR '' '') s))"
proof (induction s arbitrary: pre)
  case Nil
  then show ?case by (subst skip_blanks.simps) simp
next
  case (Cons x s)
  then show ?case
    using Cons.IH [of "pre @ [x]"] by (subst skip_blanks.simps) auto
qed

lemma escape_of_NUL [simp]: "escape_of d NUL = None"
  by (auto simp: escape_of_def)

lemma wr_at:
  "xs \<noteq> [] \<Longrightarrow> p = length pre + length out \<Longrightarrow>
   wr (pre @ out @ xs @ rest) p e = Some (pre @ (out @ [e]) @ tl xs @ rest)"
  by (cases xs) (simp_all add: wr_def list_update_append)

lemma rd_at: "p = length pre \<Longrightarrow> rd (pre @ c # post) p = Some c"
  by simp

text \<open>The buffer while a field is cleaned: output, left-over characters, unread input, terminator.\<close>

lemma clean_loop_ok:
  assumes "NUL \<notin> set cs" "clean_go d cs out en q = (out', en')"
  shows "\<exists>gap'. clean_loop (pre @ out @ gap @ cs @ NUL # post) d (length pre + length out + length gap)
       (length pre + length out) (map_option ((+) (length pre)) en) q =
     Some (pre @ out' @ gap' @ NUL # post, map_option ((+) (length pre)) en') \<and>
     length out' + length gap' = length out + length gap + length cs"
  using assms
proof (induction d cs out en q arbitrary: gap rule: clean_go.induct)
  case (1 d out en q)
  have "rd (pre @ out @ gap @ NUL # post) (length pre + length out + length gap) = Some NUL"
    using rd_at [of _ "pre @ out @ gap" NUL post] by (simp add: ac_simps)
  then show ?case using 1 by (subst clean_loop.simps) auto
next
  case (2 d c cs out en q)
  let ?buf = "pre @ out @ gap @ (c # cs) @ NUL # post" and ?p = "length pre + length out + length gap"
  let ?esc = "if c = ESCAPE_META \<and> cs \<noteq> [] then escape_of d (hd cs) else None"
  have c: "c \<noteq> NUL" "NUL \<notin> set cs" using "2.prems"(1) by auto
  have r: "rd ?buf ?p = Some c" using rd_at [of ?p "pre @ out @ gap" c "cs @ NUL # post"] by simp
  have esc: "(if c = ESCAPE_META then map_option (escape_of d) (rd ?buf (?p + 1)) else Some None) = Some ?esc"
    using rd_at [of "?p + 1" "pre @ out @ gap @ [c]" "hd (cs @ [NUL])" "tl (cs @ [NUL]) @ post"]
    by (cases cs) auto
  show ?case
  proof (cases ?esc)
    case (Some e)
    then obtain c2 cs' where cs: "cs = c2 # cs'" and ce: "c = ESCAPE_META" by (cases cs) (auto split: if_splits)
    have w: "wr ?buf (length pre + length out) e = Some (pre @ (out @ [e]) @ tl (gap @ [c, c2]) @ cs' @ NUL # post)"
      using wr_at [of "gap @ [c, c2]" _ pre out "cs' @ NUL # post" e] cs by simp
    have go: "clean_go d (tl cs) (out @ [e]) (Some (length out + 1)) q = (out', en')"
      using "2.prems"(2) Some by simp
    have "\<exists>gap'. clean_loop (pre @ (out @ [e]) @ tl (gap @ [c, c2]) @ tl cs @ NUL # post) d
         (length pre + length (out @ [e]) + length (tl (gap @ [c, c2]))) (length pre + length (out @ [e]))
         (map_option ((+) (length pre)) (Some (length out + 1))) q =
       Some (pre @ out' @ gap' @ NUL # post, map_option ((+) (length pre)) en') \<and>
       length out' + length gap' = length (out @ [e]) + length (tl (gap @ [c, c2])) + length (tl cs)"
      by (rule "2.IH"(3) [OF Some _ go]) (use c cs in auto)
    then show ?thesis
      using r esc w Some cs c(1) by (subst clean_loop.simps) (simp add: ac_simps)
  next
    case None
    have hq: "(if c = QUOTE then if q then Some True else has_chr ?buf (?p + 1) QUOTE else Some False) =
        Some (c = QUOTE \<and> (q \<or> QUOTE \<in> set cs))"
      using has_chr_ok [OF c(2), of QUOTE "pre @ out @ gap @ [c]" post] by (auto simp: ac_simps)
    show ?thesis
    proof (cases "c = QUOTE \<and> (q \<or> QUOTE \<in> set cs)")
      case True
      have go: "clean_go d cs out (if \<not> q then Some (length out) else en) (\<not> q) = (out', en')"
        using "2.prems"(2) None True by simp
      have "\<exists>gap'. clean_loop (pre @ out @ (gap @ [c]) @ cs @ NUL # post) d
           (length pre + length out + length (gap @ [c])) (length pre + length out)
           (map_option ((+) (length pre)) (if \<not> q then Some (length out) else en)) (\<not> q) =
         Some (pre @ out' @ gap' @ NUL # post, map_option ((+) (length pre)) en') \<and>
         length out' + length gap' = length out + length (gap @ [c]) + length cs"
        by (rule "2.IH"(1) [OF None True c(2) go])
      then show ?thesis
        using r esc hq None True c(1) by (subst clean_loop.simps) (simp add: ac_simps if_distrib cong: if_cong)
    next
      case False
      let ?en = "if c \<noteq> CHR '' '' \<or> q then Some (length out + 1) else en"
      have w: "wr ?buf (length pre + length out) c = Some (pre @ (out @ [c]) @ tl (gap @ [c]) @ cs @ NUL # post)"
        using wr_at [of "gap @ [c]" _ pre out "cs @ NUL # post" c] by simp
      have go: "clean_go d cs (out @ [c]) ?en q = (out', en')"
        using "2.prems"(2) None False by simp
      have "\<exists>gap'. clean_loop (pre @ (out @ [c]) @ tl (gap @ [c]) @ cs @ NUL # post) d
           (length pre + length (out @ [c]) + length (tl (gap @ [c]))) (length pre + length (out @ [c]))
           (map_option ((+) (length pre)) ?en) q =
         Some (pre @ out' @ gap' @ NUL # post, map_option ((+) (length pre)) en') \<and>
         length out' + length gap' = length (out @ [c]) + length (tl (gap @ [c])) + length cs"
        by (rule "2.IH"(2) [OF None False c(2) go])
      then show ?thesis
        using r esc hq w None False c(1)
        by (subst clean_loop.simps) (simp add: ac_simps if_distrib [of "map_option _"] cong: if_cong)
    qed
  qed
qed

lemma clean_go_end:
  "clean_go d cs out en q = (out', en') \<Longrightarrow> (\<forall>n. en = Some n \<longrightarrow> n \<le> length out) \<Longrightarrow>
   en' = Some n \<Longrightarrow> n \<le> length out'"
proof (induction d cs out en q rule: clean_go.induct)
  case (2 d c cs out en q)
  let ?esc = "if c = ESCAPE_META \<and> cs \<noteq> [] then escape_of d (hd cs) else None"
  show ?case
  proof (cases ?esc)
    case (Some e)
    with "2.IH"(3) [OF Some] "2.prems" show ?thesis by simp
  next
    case None
    show ?thesis
    proof (cases "c = QUOTE \<and> (q \<or> QUOTE \<in> set cs)")
      case True
      with "2.IH"(1) [OF None True] "2.prems" None show ?thesis by (simp split: if_splits)
    next
      case False
      have "\<forall>n. (if c \<noteq> CHR '' '' \<or> q then Some (length out + 1) else en) = Some n \<longrightarrow> n \<le> length (out @ [c])"
        using "2.prems"(2) by (auto intro: le_SucI)
      with "2.IH"(2) [OF None False _ this] "2.prems" None False show ?thesis by simp
    qed
  qed
qed simp

text \<open>No NUL is written into the output, so the cleaned field ends where \<open>end\<close> is.\<close>

lemma escape_of_not_NUL: "escape_of d e = Some x \<Longrightarrow> e \<noteq> NUL \<Longrightarrow> x \<noteq> NUL"
  by (auto simp: escape_of_def split: if_splits)

lemma clean_go_no_NUL:
  "clean_go d cs out en q = (out', en') \<Longrightarrow> NUL \<notin> set cs \<Longrightarrow> NUL \<notin> set out \<Longrightarrow> NUL \<notin> set out'"
proof (induction d cs out en q rule: clean_go.induct)
  case (2 d c cs out en q)
  let ?esc = "if c = ESCAPE_META \<and> cs \<noteq> [] then escape_of d (hd cs) else None"
  show ?case
  proof (cases ?esc)
    case (Some e)
    then have "e \<noteq> NUL" using "2.prems"(2) escape_of_not_NUL [of d "hd cs" e]
      by (cases cs) (auto split: if_splits)
    moreover have "NUL \<notin> set (tl cs)" using "2.prems"(2) by (cases cs) auto
    ultimately show ?thesis using "2.IH"(3) [OF Some] "2.prems" Some by simp
  next
    case None
    show ?thesis
    proof (cases "c = QUOTE \<and> (q \<or> QUOTE \<in> set cs)")
      case True
      with "2.IH"(1) [OF None True] "2.prems" None show ?thesis by (simp split: if_splits)
    next
      case False
      with "2.IH"(2) [OF None False] "2.prems" None show ?thesis by (simp split: if_splits)
    qed
  qed
qed simp

lemma cstr_at: "NUL \<notin> set s \<Longrightarrow> p = length pre \<Longrightarrow> cstr (pre @ s @ NUL # post) p = s"
  by (simp add: cstr_def) (induction s, auto)

lemma clean_go_keeps: "clean_go d cs out (Some n) q = (out', en') \<Longrightarrow> en' \<noteq> None"
proof (induction d cs out "Some n" q arbitrary: n rule: clean_go.induct)
  case (2 d c cs out q)
  let ?esc = "if c = ESCAPE_META \<and> cs \<noteq> [] then escape_of d (hd cs) else None"
  show ?case
  proof (cases ?esc)
    case (Some e)
    with "2.hyps"(3) [OF Some] "2.prems" show ?thesis by simp
  next
    case None
    show ?thesis
    proof (cases "c = QUOTE \<and> (q \<or> QUOTE \<in> set cs)")
      case True
      with "2.hyps"(1) [OF None True] "2.prems" None show ?thesis by (simp split: if_splits)
    next
      case False
      with "2.hyps"(2) [OF None False] "2.prems" None show ?thesis by (simp split: if_splits)
    qed
  qed
qed auto

lemma clean_go_Some:
  "c \<noteq> CHR '' '' \<Longrightarrow> clean_go d (c # cs) out None False = (out', en') \<Longrightarrow> en' \<noteq> None"
  by (auto simp: Let_def split: option.splits if_splits dest: clean_go_keeps)

lemma cleanup_parts:
  assumes nr: "NUL \<notin> set r" and go: "clean_go d r [] None False = (out, en)" and r: "r = [] \<or> hd r \<noteq> CHR '' ''"
    and buf: "buf = pre @ b @ r @ NUL # post" and st: "st = length pre + length b"
    and skip: "skip_blanks buf p = Some st"
  shows "\<exists>f. cleanup_separated_string buf p d = Some (pre @ f @ NUL # post, st) \<and>
    length f = length b + length r \<and>
    cstr (pre @ f @ NUL # post) st = take (case en of None \<Rightarrow> 0 | Some n \<Rightarrow> n) out"
proof -
  from clean_loop_ok [OF nr go, of "pre @ b" "[]" post] obtain gap where
    loop: "clean_loop buf d st st None False = Some (pre @ b @ out @ gap @ NUL # post, map_option ((+) st) en)"
    and len: "length out + length gap = length r" by (auto simp: buf st)
  have no: "NUL \<notin> set out" using clean_go_no_NUL [OF go nr] by simp
  show ?thesis
  proof (cases en)
    case None
    have "r = []"
    proof (cases r)
      case (Cons c cs)
      then show ?thesis using go None r clean_go_Some [of c d cs "[]"] by auto
    qed simp
    then have "out = []" "gap = []" using go len by auto
    then show ?thesis
      using loop None \<open>r = []\<close> skip cstr_at [of "[]" st "pre @ b" post] st
      by (intro exI [of _ b]) (simp add: cleanup_separated_string_def)
  next
    case (Some n)
    have n: "n \<le> length out" using clean_go_end [OF go _ Some] by simp
    define t where "t = drop n out @ gap"
    define f where "f = (if t = [] then b @ take n out else b @ take n out @ NUL # tl t)"
    have o: "out @ gap = take n out @ t" by (simp add: t_def)
    have w: "wr (pre @ b @ out @ gap @ NUL # post) (st + n) NUL = Some (pre @ f @ NUL # post)"
    proof -
      have "out @ gap @ z = take n out @ t @ z" for z using o by (metis append_assoc)
      then have e: "pre @ b @ out @ gap @ NUL # post = (pre @ b) @ take n out @ (t @ [NUL]) @ post" by simp
      show ?thesis
        unfolding e using wr_at [of "t @ [NUL]" "st + n" "pre @ b" "take n out" post NUL] n
        by (cases t) (simp_all add: f_def st)
    qed
    have "length f = length b + length r"
      using len n by (cases t) (auto simp: f_def t_def dest!: arg_cong [of _ _ length])
    moreover have "NUL \<notin> set (take n out)" using no by (auto dest: in_set_takeD)
    then have "cstr (pre @ f @ NUL # post) st = take n out"
      using cstr_at [of "take n out" st "pre @ b" post] cstr_at [of "take n out" st "pre @ b" "tl t @ NUL # post"]
      by (simp add: f_def st)
    ultimately show ?thesis
      using loop Some w skip by (intro exI [of _ f]) (simp add: cleanup_separated_string_def)
  qed
qed

lemma cleanup_ok:
  assumes "NUL \<notin> set s"
  shows "\<exists>f st. cleanup_separated_string (pre @ s @ NUL # post) (length pre) d = Some (pre @ f @ NUL # post, st) \<and>
    length f = length s \<and> length pre \<le> st \<and> st \<le> length pre + length s \<and>
    cstr (pre @ f @ NUL # post) st = clean d s"
proof -
  let ?P = "\<lambda>c. c = CHR '' ''"
  obtain b r where br: "takeWhile ?P s = b" "dropWhile ?P s = r" by blast
  have s: "s = b @ r" using takeWhile_dropWhile_id [of ?P s] br by simp
  obtain out en where go: "clean_go d r [] None False = (out, en)" by force
  have "r = [] \<or> hd r \<noteq> CHR '' ''" using hd_dropWhile [of ?P s] br by auto
  have nr: "NUL \<notin> set r" using assms s by simp
  from cleanup_parts [OF nr go \<open>r = [] \<or> hd r \<noteq> CHR '' ''\<close> _ refl, of "pre @ s @ NUL # post" pre b post "length pre"]
    skip_blanks_ok [OF assms, of pre post] s br(1)
  obtain f where "cleanup_separated_string (pre @ s @ NUL # post) (length pre) d =
      Some (pre @ f @ NUL # post, length pre + length b)"
    "length f = length b + length r"
    "cstr (pre @ f @ NUL # post) (length pre + length b) = take (case en of None \<Rightarrow> 0 | Some n \<Rightarrow> n) out"
    by auto
  moreover have "clean d s = take (case en of None \<Rightarrow> 0 | Some n \<Rightarrow> n) out"
    using br(2) go by (simp add: clean_def)
  ultimately show ?thesis using s by (intro exI [of _ f] exI [of _ "length pre + length b"]) simp
qed


section \<open>Cutting does what it should\<close>

text \<open>
  The cut as a function on strings, for a line without quotes and backslashes: the fields, each with
  the blanks skipped behind its terminator. The last of \<open>n\<close> fields keeps the rest of the line.
\<close>

fun char_segs :: "char \<Rightarrow> nat \<Rightarrow> string \<Rightarrow> (string \<times> string) list" where
  "char_segs d 0 s = []"
| "char_segs d (Suc n) s = (if s = [] then []
     else if n = 0 \<or> d \<notin> set s then [(s, [])]
     else (takeWhile (\<lambda>c. c \<noteq> d) s, []) # char_segs d n (tl (dropWhile (\<lambda>c. c \<noteq> d) s)))"

abbreviation is_blank :: "char \<Rightarrow> bool" where
  "is_blank \<equiv> (\<lambda>c. c = CHR '' '')"

abbreviation non_blank :: "char \<Rightarrow> bool" where
  "non_blank \<equiv> (\<lambda>c. c \<noteq> CHR '' '')"

fun blank_segs :: "nat \<Rightarrow> string \<Rightarrow> (string \<times> string) list" where
  "blank_segs 0 s = []"
| "blank_segs (Suc n) s = (if s = [] then []
     else let f = takeWhile is_blank s @ takeWhile non_blank (dropWhile is_blank s);
              r = dropWhile non_blank (dropWhile is_blank s)
     in if n = 0 \<or> r = [] then [(s, [])]
     else (f, takeWhile is_blank (tl r)) # blank_segs n (dropWhile is_blank (tl r)))"

fun flat :: "(string \<times> string) list \<Rightarrow> string" where
  "flat [] = []"
| "flat ((f, g) # fs) = f @ NUL # g @ flat fs"

fun offs :: "nat \<Rightarrow> (string \<times> string) list \<Rightarrow> nat list" where
  "offs p [] = []"
| "offs p ((f, g) # fs) = p # offs (p + length f + 1 + length g) fs"

definition plain :: "string \<Rightarrow> bool" where
  "plain s \<longleftrightarrow> NUL \<notin> set s \<and> ESCAPE_META \<notin> set s \<and> QUOTE \<notin> set s"

lemma plain_simps [simp]:
  "plain []" "plain (c # s) \<longleftrightarrow> c \<noteq> NUL \<and> c \<noteq> ESCAPE_META \<and> c \<noteq> QUOTE \<and> plain s"
  "plain (s @ t) \<longleftrightarrow> plain s \<and> plain t"
  by (auto simp: plain_def)

lemma plain_sub: "plain s \<Longrightarrow> set t \<subseteq> set s \<Longrightarrow> plain t"
  by (auto simp: plain_def)

lemma set_tl_subset: "set (tl xs) \<subseteq> set xs"
  by (cases xs) auto

lemma cstr_same:
  assumes "p \<le> length f"
  shows "cstr (f @ NUL # x) p = cstr (f @ NUL # y) p"
proof -
  have "drop p (f @ NUL # z) = drop p f @ NUL # z" for z using assms by simp
  moreover have "takeWhile (\<lambda>c. c \<noteq> NUL) (u @ NUL # x) = takeWhile (\<lambda>c. c \<noteq> NUL) (u @ NUL # y)" for u
    by (induction u) auto
  ultimately show ?thesis by (simp add: cstr_def)
qed

lemma clean_all_ok:
  assumes "\<forall>(f, g)\<in>set fs. NUL \<notin> set f"
  shows "\<exists>x ss. clean_all (pre @ flat fs @ post) d (offs (length pre) fs) = Some (pre @ x @ post, ss) \<and>
     length x = length (flat fs) \<and> map (cstr (pre @ x @ post)) ss = map (clean d \<circ> fst) fs"
  using assms
proof (induction fs arbitrary: pre)
  case (Cons fg fs)
  obtain f g where fg: "fg = (f, g)" by (cases fg)
  from cleanup_ok [of f pre "g @ flat fs @ post" d] Cons.prems fg obtain f' st where
    c: "cleanup_separated_string (pre @ f @ NUL # g @ flat fs @ post) (length pre) d =
        Some (pre @ f' @ NUL # g @ flat fs @ post, st)"
    "length f' = length f" "st \<le> length pre + length f"
    "cstr (pre @ f' @ NUL # g @ flat fs @ post) st = clean d f" by auto
  from Cons.IH [of "pre @ f' @ NUL # g"] Cons.prems obtain x ss where
    x: "clean_all ((pre @ f' @ NUL # g) @ flat fs @ post) d (offs (length (pre @ f' @ NUL # g)) fs) =
        Some ((pre @ f' @ NUL # g) @ x @ post, ss)" "length x = length (flat fs)"
    "map (cstr ((pre @ f' @ NUL # g) @ x @ post)) ss = map (clean d \<circ> fst) fs" by auto
  have "cstr (pre @ f' @ NUL # g @ x @ post) st = clean d f"
    using cstr_same [of st "pre @ f'" "g @ x @ post" "g @ flat fs @ post"] c(2-4) by simp
  then show ?case
    using c x fg by (intro exI [of _ "f' @ NUL # g @ x"] exI [of _ "st # ss"]) (simp add: ac_simps)
qed simp

lemma char_find:
  assumes "plain s" "length arr < n" "d \<noteq> NUL" "d \<noteq> ESCAPE_META" "d \<noteq> QUOTE"
  shows "char_loop (pre @ s @ NUL # post) d FIND_DELIM (length pre) arr n False =
     (if d \<in> set s then char_loop (pre @ takeWhile (\<lambda>c. c \<noteq> d) s @ NUL # tl (dropWhile (\<lambda>c. c \<noteq> d) s) @ NUL # post)
          d START (length pre + length (takeWhile (\<lambda>c. c \<noteq> d) s) + 1) arr n False
      else Some (pre @ s @ NUL # post, arr))"
  using assms
proof (induction s arbitrary: pre)
  case Nil
  then show ?case by (subst char_loop.simps) simp
next
  case (Cons c s)
  show ?case
  proof (cases "c = d")
    case True
    have "wr (pre @ c # s @ NUL # post) (length pre) NUL = Some (pre @ NUL # s @ NUL # post)"
      by (simp add: wr_def)
    then show ?thesis using Cons.prems True by (subst char_loop.simps) simp
  next
    case False
    then show ?thesis
      using Cons.prems Cons.IH [of "pre @ [c]"] by (subst char_loop.simps) simp
  qed
qed

lemma char_loop_ok:
  assumes "plain s" "d \<noteq> NUL" "d \<noteq> ESCAPE_META" "d \<noteq> QUOTE" "length arr + k = n"
  shows "\<exists>post'. char_loop (pre @ s @ NUL # post) d START (length pre) arr n False =
     Some (pre @ flat (char_segs d k s) @ post', arr @ offs (length pre) (char_segs d k s))"
  using assms
proof (induction d k s arbitrary: pre arr rule: char_segs.induct)
  case (1 d s)
  obtain c r where "s @ NUL # post = c # r" by (cases "s @ NUL # post") auto
  then have "rd (pre @ s @ NUL # post) (length pre) = Some c" by simp
  then show ?case using 1 by (subst char_loop.simps) simp
next
  case (2 d k s)
  show ?case
  proof (cases s)
    case Nil
    then show ?thesis by (subst char_loop.simps) simp
  next
    case (Cons c s')
    have start: "char_loop (pre @ s @ NUL # post) d START (length pre) arr n False =
        char_loop (pre @ s @ NUL # post) d FIND_DELIM (length pre) (arr @ [length pre]) n False"
      using 2 Cons by (subst char_loop.simps) simp
    show ?thesis
    proof (cases "k = 0 \<or> d \<notin> set s")
      case True
      have "char_loop (pre @ s @ NUL # post) d FIND_DELIM (length pre) (arr @ [length pre]) n False =
          Some (pre @ s @ NUL # post, arr @ [length pre])"
      proof (cases "k = 0")
        case True
        then show ?thesis using 2 Cons by (subst char_loop.simps) simp
      next
        case False
        then show ?thesis
          using char_find [of s "arr @ [length pre]" n d pre post] 2 True by simp
      qed
      then show ?thesis using start True Cons by simp
    next
      case False
      let ?f = "takeWhile (\<lambda>c. c \<noteq> d) s" and ?r = "tl (dropWhile (\<lambda>c. c \<noteq> d) s)"
      have pr: "plain ?r"
        using 2(2) by (rule plain_sub) (use set_tl_subset set_dropWhileD in fast)
      from "2.IH" [OF _ False pr, of "arr @ [length pre]" "pre @ ?f @ [NUL]"] 2 Cons obtain post' where
        "char_loop ((pre @ ?f @ [NUL]) @ ?r @ NUL # post) d START (length (pre @ ?f @ [NUL])) (arr @ [length pre]) n False =
         Some ((pre @ ?f @ [NUL]) @ flat (char_segs d k ?r) @ post',
           (arr @ [length pre]) @ offs (length (pre @ ?f @ [NUL])) (char_segs d k ?r))" by auto
      then show ?thesis
        using start char_find [of s "arr @ [length pre]" n d pre post] 2 False Cons
        by (simp add: ac_simps)
    qed
  qed
qed


lemma blank_init:
  assumes "plain s" "length arr < n"
  shows "blank_loop (pre @ s @ NUL # post) SKIP_INITIAL_SPACE (length pre) arr n False =
     (if dropWhile is_blank s = [] then Some (pre @ s @ NUL # post, arr)
      else blank_loop (pre @ s @ NUL # post) FIND_DELIM (length pre + length (takeWhile is_blank s)) arr n False)"
  using assms
proof (induction s arbitrary: pre)
  case Nil
  then show ?case by (subst blank_loop.simps) simp
next
  case (Cons c s)
  show ?case
  proof (cases "is_blank c")
    case True
    then show ?thesis
      using Cons.prems Cons.IH [of "pre @ [c]"] by (subst blank_loop.simps) simp
  next
    case False
    then show ?thesis
      using Cons.prems by (subst blank_loop.simps) simp
  qed
qed

lemma blank_end:
  assumes "plain s" "length arr < n"
  shows "blank_loop (pre @ s @ NUL # post) SKIP_ENDING_SPACE (length pre) arr n False =
     (if dropWhile is_blank s = [] then Some (pre @ s @ NUL # post, arr)
      else blank_loop (pre @ s @ NUL # post) START (length pre + length (takeWhile is_blank s)) arr n False)"
  using assms
proof (induction s arbitrary: pre)
  case Nil
  then show ?case by (subst blank_loop.simps) simp
next
  case (Cons c s)
  show ?case
  proof (cases "is_blank c")
    case True
    then show ?thesis
      using Cons.prems Cons.IH [of "pre @ [c]"] by (subst blank_loop.simps) simp
  next
    case False
    then show ?thesis
      using Cons.prems by (subst blank_loop.simps) simp
  qed
qed

lemma blank_find:
  assumes "plain s" "length arr < n"
  shows "blank_loop (pre @ s @ NUL # post) FIND_DELIM (length pre) arr n False =
     (let f = takeWhile non_blank s; r = dropWhile non_blank s
      in if r = [] then Some (pre @ s @ NUL # post, arr)
         else blank_loop (pre @ f @ NUL # tl r @ NUL # post) SKIP_ENDING_SPACE (length pre + length f + 1) arr n False)"
  using assms
proof (induction s arbitrary: pre)
  case Nil
  then show ?case by (subst blank_loop.simps) simp
next
  case (Cons c s)
  show ?case
  proof (cases "is_blank c")
    case True
    have "wr (pre @ c # s @ NUL # post) (length pre) NUL = Some (pre @ NUL # s @ NUL # post)"
      by (simp add: wr_def)
    then show ?thesis using Cons.prems True by (subst blank_loop.simps) simp
  next
    case False
    then show ?thesis
      using Cons.prems Cons.IH [of "pre @ [c]"] by (subst blank_loop.simps) (auto simp: Let_def)
  qed
qed

lemma blank_loop_ok:
  assumes "plain s" "length arr + k = n"
  shows "\<exists>post'. blank_loop (pre @ s @ NUL # post) START (length pre) arr n False =
     Some (pre @ flat (blank_segs k s) @ post', arr @ offs (length pre) (blank_segs k s))"
  using assms
proof (induction k s arbitrary: pre arr rule: blank_segs.induct)
  case (1 s)
  obtain c r where "s @ NUL # post = c # r" by (cases "s @ NUL # post") auto
  then have "rd (pre @ s @ NUL # post) (length pre) = Some c" by simp
  then show ?case using 1 by (subst blank_loop.simps) simp
next
  case (2 k s)
  let ?b = "takeWhile is_blank s" and ?s1 = "dropWhile is_blank s"
  let ?f = "takeWhile non_blank ?s1" and ?r = "dropWhile non_blank ?s1"
  let ?g = "takeWhile is_blank (tl ?r)" and ?s2 = "dropWhile is_blank (tl ?r)"
  let ?buf = "pre @ s @ NUL # post"
  show ?case
  proof (cases "s = []")
    case True
    then show ?thesis by (subst blank_loop.simps) simp
  next
    case False
    then obtain c s' where Cons: "s = c # s'" by (cases s) auto
    have start: "blank_loop ?buf START (length pre) arr n False =
        blank_loop ?buf SKIP_INITIAL_SPACE (length pre) (arr @ [length pre]) n False"
      using 2 Cons by (subst blank_loop.simps) simp
    show ?thesis
    proof (cases "k = 0")
      case True
      have "blank_loop ?buf SKIP_INITIAL_SPACE (length pre) (arr @ [length pre]) n False =
          Some (?buf, arr @ [length pre])"
        using 2 Cons True by (subst blank_loop.simps) simp
      then show ?thesis using start True Cons by simp
    next
      case k: False
      have len: "length (arr @ [length pre]) < n" using 2 k by simp
      have sg: "blank_segs (Suc k) s = (if ?r = [] then [(s, [])] else (?b @ ?f, ?g) # blank_segs k ?s2)"
        using k \<open>s \<noteq> []\<close> by (simp only: blank_segs.simps Let_def if_False simp_thms)
      have ps: "plain ?s1" "plain ?r" "plain (tl ?r)"
        using 2(2) by (auto intro: plain_sub dest!: set_dropWhileD)
          (meson plain_sub set_tl_subset set_dropWhileD subset_iff)
      note init = blank_init [OF 2(2) len, of pre post]
      show ?thesis
      proof (cases "?s1 = []")
        case True
        then have "blank_loop ?buf START (length pre) arr n False = Some (?buf, arr @ [length pre])"
          using start init by simp
        moreover have "blank_segs (Suc k) s = [(s, [])]" using sg True by simp
        ultimately show ?thesis by simp
      next
        case s1: False
        have eq: "?buf = (pre @ ?b) @ ?s1 @ NUL # post" by simp
        have find: "blank_loop ?buf FIND_DELIM (length pre + length ?b) (arr @ [length pre]) n False =
            (if ?r = [] then Some (?buf, arr @ [length pre])
             else blank_loop ((pre @ ?b) @ ?f @ NUL # tl ?r @ NUL # post) SKIP_ENDING_SPACE
               (length (pre @ ?b) + length ?f + 1) (arr @ [length pre]) n False)"
          using blank_find [OF ps(1) len, of "pre @ ?b" post] unfolding eq Let_def by simp
        show ?thesis
        proof (cases "?r = []")
          case True
          have "blank_loop ?buf START (length pre) arr n False = Some (?buf, arr @ [length pre])"
            unfolding start init if_not_P [OF s1] find if_P [OF True] ..
          moreover have "blank_segs (Suc k) s = [(s, [])]" using sg True by simp
          ultimately show ?thesis by simp
        next
          case r: False
          have en: "blank_loop ((pre @ ?b @ ?f @ [NUL]) @ tl ?r @ NUL # post) SKIP_ENDING_SPACE
               (length (pre @ ?b @ ?f @ [NUL])) (arr @ [length pre]) n False =
             (if ?s2 = [] then Some ((pre @ ?b @ ?f @ [NUL]) @ tl ?r @ NUL # post, arr @ [length pre])
              else blank_loop ((pre @ ?b @ ?f @ [NUL]) @ tl ?r @ NUL # post) START
                (length (pre @ ?b @ ?f @ [NUL]) + length ?g) (arr @ [length pre]) n False)"
            by (rule blank_end [OF ps(3) len])
          have segs: "blank_segs (Suc k) s = (?b @ ?f, ?g) # blank_segs k ?s2"
            unfolding sg if_not_P [OF r] ..
          have run: "blank_loop ?buf START (length pre) arr n False =
              blank_loop ((pre @ ?b @ ?f @ [NUL]) @ tl ?r @ NUL # post) SKIP_ENDING_SPACE
               (length (pre @ ?b @ ?f @ [NUL])) (arr @ [length pre]) n False"
            unfolding start init if_not_P [OF s1] find if_not_P [OF r] by (simp add: ac_simps)
          have tl: "tl ?r = ?g @ ?s2" by (simp only: takeWhile_dropWhile_id)
          have p2: "plain ?s2" using ps(3) by (rule plain_sub) (use set_dropWhileD in fast)
          show ?thesis
          proof (cases "?s2 = []")
            case True
            then have g: "?g = tl ?r" using tl by (simp only: append_Nil2)
            have e: "blank_segs k [] = []" by (cases k) simp_all
            show ?thesis
              unfolding segs run en if_P [OF True] True e g
              by (intro exI [of _ "NUL # post"]) (simp only: flat.simps offs.simps append_assoc append.simps if_True simp_thms)
          next
            case s2: False
            from "2.IH" [OF \<open>s \<noteq> []\<close> refl refl _ p2, of "arr @ [length pre]" "pre @ ?b @ ?f @ NUL # ?g"] k r 2
            obtain post' where "blank_loop ((pre @ ?b @ ?f @ NUL # ?g) @ ?s2 @ NUL # post) START
                (length (pre @ ?b @ ?f @ NUL # ?g)) (arr @ [length pre]) n False =
              Some ((pre @ ?b @ ?f @ NUL # ?g) @ flat (blank_segs k ?s2) @ post',
                (arr @ [length pre]) @ offs (length (pre @ ?b @ ?f @ NUL # ?g)) (blank_segs k ?s2))" by auto
            moreover have "(pre @ ?b @ ?f @ [NUL]) @ tl ?r @ NUL # post = (pre @ ?b @ ?f @ NUL # ?g) @ ?s2 @ NUL # post"
              by (subst tl) simp
            moreover have "length (pre @ ?b @ ?f @ [NUL]) + length ?g = length (pre @ ?b @ ?f @ NUL # ?g)" by simp
            ultimately have "blank_loop ?buf START (length pre) arr n False =
                Some ((pre @ ?b @ ?f @ NUL # ?g) @ flat (blank_segs k ?s2) @ post',
                  (arr @ [length pre]) @ offs (length (pre @ ?b @ ?f @ NUL # ?g)) (blank_segs k ?s2))"
              unfolding run en if_not_P [OF s2] by (simp only:)
            then show ?thesis
              unfolding segs by (intro exI [of _ post']) (simp add: ac_simps)
          qed
        qed
      qed
    qed
  qed
qed


section \<open>The whole operation on a plain line\<close>

definition trim :: "string \<Rightarrow> string" where
  "trim s = rev (dropWhile is_blank (rev (dropWhile is_blank s)))"

lemma clean_go_plain:
  "plain cs \<Longrightarrow> clean_go d cs out en False = (out @ cs,
     if dropWhile is_blank (rev cs) = [] then en
     else Some (length out + length (dropWhile is_blank (rev cs))))"
proof (induction cs arbitrary: out en)
  case (Cons c cs)
  have "dropWhile is_blank (rev (c # cs)) = (if dropWhile is_blank (rev cs) = []
      then (if is_blank c then [] else [c]) else dropWhile is_blank (rev cs) @ [c])"
    by (auto simp: dropWhile_append)
  then show ?case using Cons.prems Cons.IH by (simp add: ac_simps)
qed simp

lemma take_rev_dropWhile: "take (length (dropWhile P (rev s))) s = rev (dropWhile P (rev s))"
proof -
  have "rev s = takeWhile P (rev s) @ dropWhile P (rev s)" by simp
  then have "s = rev (dropWhile P (rev s)) @ rev (takeWhile P (rev s))"
    by (metis rev_append rev_rev_ident)
  then show ?thesis by (metis append_eq_conv_conj length_rev)
qed

lemma clean_plain: "plain s \<Longrightarrow> clean d s = trim s"
proof -
  assume "plain s"
  then have "plain (dropWhile is_blank s)" by (rule plain_sub) (use set_dropWhileD in fast)
  moreover obtain x where x: "dropWhile is_blank s = x" by blast
  ultimately have "clean_go d x [] None False = (x, if dropWhile is_blank (rev x) = [] then None
      else Some (length (dropWhile is_blank (rev x))))"
    using clean_go_plain [of x d "[]" None] by simp
  then show ?thesis
    using take_rev_dropWhile [of is_blank x] by (auto simp: clean_def trim_def x split: if_splits)
qed

lemma char_segs_plain: "plain s \<Longrightarrow> (f, g) \<in> set (char_segs d k s) \<Longrightarrow> plain f"
proof (induction d k s rule: char_segs.induct)
  case (2 d k s)
  have "plain (takeWhile (\<lambda>c. c \<noteq> d) s)" "plain (tl (dropWhile (\<lambda>c. c \<noteq> d) s))"
    using 2(2) by (auto intro: plain_sub dest: set_takeWhileD)
      (meson plain_sub set_tl_subset set_dropWhileD subset_iff)
  then show ?case using 2 by (auto split: if_splits)
qed simp

lemma blank_segs_plain: "plain s \<Longrightarrow> (f, g) \<in> set (blank_segs k s) \<Longrightarrow> plain f"
proof (induction k s rule: blank_segs.induct)
  case (2 k s)
  let ?s1 = "dropWhile is_blank s"
  let ?r = "dropWhile non_blank ?s1"
  have p: "plain (takeWhile is_blank s @ takeWhile non_blank ?s1)" "plain (dropWhile is_blank (tl ?r))"
    using 2(2) by (auto intro!: plain_sub [of s] dest!: set_takeWhileD set_dropWhileD)
      (meson set_tl_subset set_dropWhileD subset_iff)+
  show ?case
  proof (cases "s = [] \<or> k = 0 \<or> ?r = []")
    case True
    then have "blank_segs (Suc k) s = [] \<or> blank_segs (Suc k) s = [(s, [])]"
      by (simp only: blank_segs.simps Let_def) auto
    then show ?thesis using 2(2,3) by auto
  next
    case False
    then have "s \<noteq> []" "\<not> (k = 0 \<or> ?r = [])" by auto
    then have "blank_segs (Suc k) s = (takeWhile is_blank s @ takeWhile non_blank ?s1, takeWhile is_blank (tl ?r))
        # blank_segs k (dropWhile is_blank (tl ?r))" by (simp only: blank_segs.simps Let_def if_False)
    then show ?thesis using 2(1) [OF _ refl refl _ p(2)] 2(3) p(1) False by auto
  qed
qed simp

text \<open>The fields of a plain line, by the delimiter.\<close>

definition line_fields :: "char \<Rightarrow> nat \<Rightarrow> string \<Rightarrow> string list" where
  "line_fields d n s = map (trim \<circ> fst) (if d = CHR '' '' then blank_segs n s else char_segs d n s)"

lemma separate_plain_from:
  assumes s: "plain s" and d: "d \<noteq> NUL" "d \<noteq> ESCAPE_META" "d \<noteq> QUOTE"
  shows "\<exists>r. (if d = CHR '' '' then separate_string_blank_delim (pre @ s @ NUL # post) (length pre) n
       else separate_string_char_delim (pre @ s @ NUL # post) (length pre) d n) = Some r \<and>
     fields_of r = line_fields d n s"
proof (cases "d = CHR '' ''")
  case True
  let ?fs = "blank_segs n s"
  from blank_loop_ok [OF s, of "[]" n n pre post] obtain post' where
    l: "blank_loop (pre @ s @ NUL # post) START (length pre) [] n False =
      Some (pre @ flat ?fs @ post', offs (length pre) ?fs)" by auto
  have p: "\<forall>(f, g)\<in>set ?fs. plain f" using blank_segs_plain [OF s] by blast
  then have "\<forall>(f, g)\<in>set ?fs. NUL \<notin> set f" by (auto simp: plain_def)
  from clean_all_ok [OF this, of pre post' NUL] obtain x ss where
    c: "clean_all (pre @ flat ?fs @ post') NUL (offs (length pre) ?fs) = Some (pre @ x @ post', ss)"
    "map (cstr (pre @ x @ post')) ss = map (clean NUL \<circ> fst) ?fs" by blast
  have "map (clean NUL \<circ> fst) ?fs = map (trim \<circ> fst) ?fs" using p by (auto simp: clean_plain)
  then show ?thesis
    using l c True by (simp add: separate_string_blank_delim_def fields_of_def line_fields_def)
next
  case False
  let ?fs = "char_segs d n s"
  from char_loop_ok [OF s d, of "[]" n n pre post] obtain post' where
    l: "char_loop (pre @ s @ NUL # post) d START (length pre) [] n False =
      Some (pre @ flat ?fs @ post', offs (length pre) ?fs)" by auto
  have p: "\<forall>(f, g)\<in>set ?fs. plain f" using char_segs_plain [OF s] by blast
  then have "\<forall>(f, g)\<in>set ?fs. NUL \<notin> set f" by (auto simp: plain_def)
  from clean_all_ok [OF this, of pre post' d] obtain x ss where
    c: "clean_all (pre @ flat ?fs @ post') d (offs (length pre) ?fs) = Some (pre @ x @ post', ss)"
    "map (cstr (pre @ x @ post')) ss = map (clean d \<circ> fst) ?fs" by blast
  have "map (clean d \<circ> fst) ?fs = map (trim \<circ> fst) ?fs" using p by (auto simp: clean_plain)
  then show ?thesis
    using l c False by (simp add: separate_string_char_delim_def fields_of_def line_fields_def)
qed

text \<open>The line made of given fields, and what cutting it gives back.\<close>

fun join :: "char \<Rightarrow> string list \<Rightarrow> string" where
  "join d [] = []"
| "join d [f] = f"
| "join d (f # g # fs) = f @ d # join d (g # fs)"

lemma split_delim:
  "d \<notin> set f \<Longrightarrow> takeWhile (\<lambda>c. c \<noteq> d) (f @ d # r) = f \<and> dropWhile (\<lambda>c. c \<noteq> d) (f @ d # r) = d # r"
  by (induction f) auto

lemma char_segs_join:
  assumes "\<forall>f\<in>set fs. d \<notin> set f" "fs \<noteq> [] \<longrightarrow> last fs \<noteq> []" "length fs \<le> n"
  shows "map fst (char_segs d n (join d fs)) = fs"
  using assms
proof (induction d fs arbitrary: n rule: join.induct)
  case (1 d)
  then show ?case by (cases n) auto
next
  case (2 d f)
  then show ?case by (cases n) auto
next
  case (3 d f g fs)
  obtain m where n: "n = Suc m" "m \<noteq> 0" using 3(4) by (cases n) auto
  have "char_segs d n (join d (f # g # fs)) = (f, []) # char_segs d m (join d (g # fs))"
    using n 3(2) split_delim [of d f "join d (g # fs)"] by simp
  moreover have "map fst (char_segs d m (join d (g # fs))) = g # fs"
    using 3(2-4) n by (intro "3.IH") auto
  ultimately show ?case by simp
qed

lemma plain_join: "plain d' \<Longrightarrow> d' = [d] \<Longrightarrow> \<forall>f\<in>set fs. plain f \<Longrightarrow> plain (join d fs)"
  by (induction d fs rule: join.induct) auto

section \<open>Properties\<close>

lemma separate_plain:
  assumes "plain s" "take 2 s \<noteq> ''^^''" "d \<noteq> NUL \<and> d \<noteq> ESCAPE_META \<and> d \<noteq> QUOTE" "0 < n"
  shows "\<exists>r. agc_separate_string (Some (s @ NUL # post)) d n = Some r \<and> fields_of r = line_fields d n s"
proof -
  let ?b = "s @ NUL # post"
  obtain c0 where r0: "rd ?b 0 = Some c0" by (cases s) (auto simp: rd_def)
  have "\<exists>c1. (if c0 = CHR ''^'' then rd ?b 1 else Some NUL) = Some c1 \<and> \<not> (c0 = CHR ''^'' \<and> c1 = CHR ''^'')"
  proof (cases "c0 = CHR ''^''")
    case True
    then obtain t where "s = CHR ''^'' # t" using r0 by (cases s) (auto simp: rd_def)
    then show ?thesis using assms(2) by (cases t) (auto simp: rd_def)
  qed simp
  then obtain c1 where "(if c0 = CHR ''^'' then rd ?b 1 else Some NUL) = Some c1"
    "\<not> (c0 = CHR ''^'' \<and> c1 = CHR ''^'')" by blast
  moreover from this(2) have "(c0 = CHR ''^'' \<and> c1 = CHR ''^'') = False" by blast
  ultimately have "agc_separate_string (Some ?b) d n = (if d = CHR '' '' then separate_string_blank_delim ?b 0 n
      else separate_string_char_delim ?b 0 d n)"
    using r0 assms(4) by (simp only: agc_separate_string_def option.case Option.bind.bind_lunit) simp
  moreover have "\<exists>r. (if d = CHR '' '' then separate_string_blank_delim ?b 0 n
      else separate_string_char_delim ?b 0 d n) = Some r \<and> fields_of r = line_fields d n s"
    using separate_plain_from [of s d "[]" post n] assms by (simp only: append_Nil list.size) blast
  ultimately show ?thesis by simp
qed

text \<open>On a line without quotes and backslashes (and not starting with the \<open>^^\<close> prefix),
  \<open>agc_separate_string\<close> stays inside the buffer, ends, and gives the fields between the delimiters,
  trimmed of blanks: at most \<open>n\<close> of them, the last one with the rest of the line.\<close>

lemma separate_string_plain:
  assumes "plain s" "take 2 s \<noteq> ''^^''" "d \<noteq> NUL \<and> d \<noteq> ESCAPE_META \<and> d \<noteq> QUOTE" "0 < n"
  shows "\<exists>r. agc_separate_string (Some (s @ NUL # post)) d n = Some r \<and> fields_of r = line_fields d n s"
  by (rule separate_plain [OF assms])

lemma separate_string_plain_witness:
  "\<exists>r. agc_separate_string (Some (''status  all now'' @ [NUL])) (CHR '' '') 2 = Some r \<and>
     fields_of r = [''status'', ''all now'']"
proof -
  have "plain ''status  all now''" by (simp add: plain_def)
  from separate_string_plain [OF this, of "CHR '' ''" 2 "[]"] show ?thesis
    by (simp add: line_fields_def trim_def Let_def numeral_2_eq_2)
qed

lemma separate_join:
  assumes "\<forall>f\<in>set fs. plain f \<and> d \<notin> set f \<and> trim f = f" "fs \<noteq> []" "last fs \<noteq> []" "length fs \<le> n"
    and "d \<noteq> NUL \<and> d \<noteq> ESCAPE_META \<and> d \<noteq> QUOTE \<and> d \<noteq> CHR '' ''" "take 2 (join d fs) \<noteq> ''^^''"
  shows "\<exists>r. agc_separate_string (Some (join d fs @ NUL # post)) d n = Some r \<and> fields_of r = fs"
proof -
  have p: "plain (join d fs)" using plain_join [of "[d]" d fs] assms(1,5) by simp
  have n: "0 < n" using assms(2,4) by (cases fs) auto
  from separate_plain [OF p assms(6) _ n, of d post] assms(5) obtain r where
    r: "agc_separate_string (Some (join d fs @ NUL # post)) d n = Some r"
    "fields_of r = line_fields d n (join d fs)" by blast
  have "line_fields d n (join d fs) = map trim (map fst (char_segs d n (join d fs)))"
    using assms(5) by (simp add: line_fields_def)
  also have "\<dots> = fs" using assms(1-4) by (subst char_segs_join) (auto simp: map_idI)
  finally show ?thesis using r by auto
qed

text \<open>C23. Joining fields with a delimiter and separating the line gives the fields back, when no
  field contains the delimiter or a special character or has blanks at its ends, the last one is not
  empty and the array has room for all of them.\<close>

theorem separate_join_roundtrip:
  assumes "\<forall>f\<in>set fs. plain f \<and> d \<notin> set f \<and> trim f = f" "fs \<noteq> []" "last fs \<noteq> []" "length fs \<le> n"
    and "d \<noteq> NUL \<and> d \<noteq> ESCAPE_META \<and> d \<noteq> QUOTE \<and> d \<noteq> CHR '' ''" "take 2 (join d fs) \<noteq> ''^^''"
  shows "\<exists>r. agc_separate_string (Some (join d fs @ NUL # post)) d n = Some r \<and> fields_of r = fs"
  by (rule separate_join [OF assms])

theorem separate_join_witness:
  "\<exists>r. agc_separate_string (Some (''a,b c,,d'' @ [NUL])) (CHR '','') 4 = Some r \<and>
     fields_of r = [''a'', ''b c'', [], ''d'']"
  using separate_join_roundtrip [of "[''a'', ''b c'', [], ''d'']" "CHR '',''" 4 "[]"]
  by (simp add: trim_def plain_def)

text \<open>A line that ends with a backslash drives the cutting past the terminator: when the buffer
  ends there, the read is out of bounds.\<close>

lemma separate_trailing_backslash:
  assumes "plain s" "d \<notin> set s" "d \<noteq> NUL \<and> d \<noteq> ESCAPE_META \<and> d \<noteq> QUOTE \<and> d \<noteq> CHR '' ''"
    and "take 2 s \<noteq> ''^^''" "s \<noteq> []" "1 < n"
  shows "agc_separate_string (Some (s @ [ESCAPE_META, NUL])) d n = None"
proof -
  let ?b = "s @ [ESCAPE_META, NUL]"
  have find: "char_loop (pre @ u @ [ESCAPE_META, NUL]) d FIND_DELIM (length pre) arr n False = None"
    if "plain u" "d \<notin> set u" "length arr < n" for pre u arr
    using that
  proof (induction u arbitrary: pre)
    case Nil
    have "rd (pre @ [ESCAPE_META, NUL]) (length pre + 2) = None" by (simp add: rd_def)
    then have "char_loop (pre @ [ESCAPE_META, NUL]) d FIND_DELIM (length pre + 2) arr n False = None"
      by (subst char_loop.simps) simp
    then show ?case using Nil assms(3) by (subst char_loop.simps) simp
  next
    case (Cons c u)
    then show ?case using Cons.IH [of "pre @ [c]"] by (subst char_loop.simps) auto
  qed
  obtain c t where s: "s = c # t" using assms(5) by (cases s) auto
  have "char_loop ?b d START 0 [] n False = char_loop ?b d FIND_DELIM 0 [0] n False"
    using assms(1,6) s by (subst char_loop.simps) (simp add: rd_def)
  also have "\<dots> = None" using find [of s "[0]" "[]"] assms by simp
  finally have l: "char_loop ?b d START 0 [] n False = None" .
  have "\<exists>c1. (if c = CHR ''^'' then rd ?b 1 else Some NUL) = Some c1 \<and> \<not> (c = CHR ''^'' \<and> c1 = CHR ''^'')"
    using assms(4) s by (cases t) (auto simp: rd_def)
  then show ?thesis
    using l s assms(3,6) by (auto simp: agc_separate_string_def separate_string_char_delim_def rd_def)
qed

lemma separate_trailing_backslash_witness:
  "agc_separate_string (Some (''ab'' @ [ESCAPE_META, NUL])) (CHR '','') 8 = None"
  using separate_trailing_backslash [of "''ab''" "CHR '',''" 8] by simp

end
