(* ===== verification/Event_Object.thy ===== *)
theory Event_Object
  imports Prelude
begin

text \<open>
  The event object of \<open>src/agc_event.c\<close>: an identifier, the number of the source, a body and the
  headers, a singly linked list of heap cells with a pointer to the last one. \<^term>\<open>malloc\<close> hands out
  fresh addresses and does not fail (the code does not check it). The strings of a cell are owned by
  it and modelled as values; a null value pointer is \<^term>\<open>None\<close>. The loops over the list follow
  the pointers, so a cyclic list makes them run for ever, which is the value \<^term>\<open>None\<close>.
\<close>

section \<open>State and operations\<close>

record header =
  hd_name :: string
  hd_value :: "string option"
  hd_next :: ptr

record event =
  ev_id :: int
  ev_source :: "32 word"
  ev_debug :: int
  ev_headers :: ptr
  ev_last :: ptr
  ev_context :: ptr
  ev_fast :: ptr
  ev_body :: "string option"
  ev_callback :: ptr

record emem =
  em_headers :: "ptr \<Rightarrow> header option"
  em_brk :: ptr

abbreviation EVENT_ID_LIMIT :: int where
  "EVENT_ID_LIMIT \<equiv> 1024"

definition EVENT_ID_IS_INVALID :: "int \<Rightarrow> bool" where
  "EVENT_ID_IS_INVALID x \<longleftrightarrow> x = 0 \<or> EVENT_ID_LIMIT \<le> x"

definition upd_header :: "emem \<Rightarrow> ptr \<Rightarrow> (header \<Rightarrow> header) \<Rightarrow> emem option" where
  "upd_header M p f = map_option (\<lambda>h. M\<lparr>em_headers := (em_headers M)(p \<mapsto> f h)\<rparr>) (em_headers M p)"

definition free_header :: "emem \<Rightarrow> ptr \<Rightarrow> emem option" where
  "free_header M p = (if em_headers M p = None then None
     else Some (M\<lparr>em_headers := (em_headers M)(p := None)\<rparr>))"

definition new_header :: "emem \<Rightarrow> string \<Rightarrow> emem \<times> ptr" where
  "new_header M name = (let p = em_brk M in
     (M\<lparr>em_headers := (em_headers M)(p \<mapsto> \<lparr>hd_name = name, hd_value = None, hd_next = NULL\<rparr>), em_brk := p + 1\<rparr>, p))"

definition agc_event_create :: "int \<Rightarrow> 32 word \<Rightarrow> event" where
  "agc_event_create event_id source_id =
     \<lparr>ev_id = event_id, ev_source = source_id, ev_debug = 0, ev_headers = NULL, ev_last = NULL,
      ev_context = NULL, ev_fast = NULL, ev_body = None, ev_callback = NULL\<rparr>"

definition agc_event_set_id :: "event option \<Rightarrow> int \<Rightarrow> event option \<times> agc_status" where
  "agc_event_set_id e event_id = (map_option (\<lambda>e. e\<lparr>ev_id := event_id\<rparr>) e, AGC_STATUS_SUCCESS)"

definition agc_event_create_callback :: "32 word \<Rightarrow> ptr \<Rightarrow> ptr \<Rightarrow> event" where
  "agc_event_create_callback source_id data callback =
     (agc_event_create 0 source_id)\<lparr>ev_callback := callback, ev_context := data\<rparr>"

partial_function (option) find_header :: "emem \<Rightarrow> string \<Rightarrow> ptr \<Rightarrow> ptr option" where
  "find_header M name hp =
     (if hp = NULL then Some NULL
      else do {
        h \<leftarrow> em_headers M hp;
        if strcaseeq (hd_name h) name then Some hp else find_header M name (hd_next h) })"

definition agc_event_get_header_ptr :: "emem \<Rightarrow> event \<Rightarrow> string option \<Rightarrow> ptr option" where
  "agc_event_get_header_ptr M e name = (case name of
     None \<Rightarrow> Some NULL | Some n \<Rightarrow> find_header M n (ev_headers e))"

definition agc_event_get_header :: "emem \<Rightarrow> event \<Rightarrow> string option \<Rightarrow> string option option" where
  "agc_event_get_header M e name = do {
     hp \<leftarrow> agc_event_get_header_ptr M e name;
     if hp \<noteq> NULL then map_option hd_value (em_headers M hp) else Some None }"

text \<open>The end of both ways to add a header.\<close>

definition link_last :: "emem \<Rightarrow> event \<Rightarrow> ptr \<Rightarrow> (emem \<times> event) option" where
  "link_last M e header = do {
     (M, e) \<leftarrow> (if ev_last e \<noteq> NULL
        then map_option (\<lambda>M. (M, e)) (upd_header M (ev_last e) (\<lambda>h. h\<lparr>hd_next := header\<rparr>))
        else map_option (\<lambda>M. (M, e\<lparr>ev_headers := header\<rparr>)) (upd_header M header (\<lambda>h. h\<lparr>hd_next := NULL\<rparr>)));
     Some (M, e\<lparr>ev_last := header\<rparr>) }"

definition agc_event_base_add_header :: "emem \<Rightarrow> event \<Rightarrow> string \<Rightarrow> string \<Rightarrow> (emem \<times> event) option" where
  "agc_event_base_add_header M e name data = do {
     header \<leftarrow> agc_event_get_header_ptr M e (Some name);
     let (M, header) = (if header = NULL then new_header M name else (M, header));
     M \<leftarrow> upd_header M header (\<lambda>h. h\<lparr>hd_value := Some data\<rparr>);
     link_last M e header }"

definition agc_event_base_add_header_nocheck :: "emem \<Rightarrow> event \<Rightarrow> string \<Rightarrow> string \<Rightarrow> (emem \<times> event) option" where
  "agc_event_base_add_header_nocheck M e name data = do {
     let (M, header) = new_header M name;
     M \<leftarrow> upd_header M header (\<lambda>h. h\<lparr>hd_value := Some data\<rparr>);
     link_last M e header }"

text \<open>
  The variadic functions format their arguments first (\<open>agc_vasprintf\<close>); \<open>data\<close> is the formatted text,
  \<^term>\<open>None\<close> when the formatting failed.
\<close>

definition agc_event_add_header ::
  "emem \<Rightarrow> event \<Rightarrow> string \<Rightarrow> string option \<Rightarrow> (emem \<times> event \<times> agc_status) option" where
  "agc_event_add_header M e name data = (case data of
     None \<Rightarrow> Some (M, e, AGC_STATUS_MEMERR)
   | Some d \<Rightarrow> map_option (\<lambda>(M, e). (M, e, AGC_STATUS_SUCCESS)) (agc_event_base_add_header_nocheck M e name d))"

definition agc_event_add_header_repeatcheck ::
  "emem \<Rightarrow> event \<Rightarrow> string \<Rightarrow> string option \<Rightarrow> (emem \<times> event \<times> agc_status) option" where
  "agc_event_add_header_repeatcheck M e name data = (case data of
     None \<Rightarrow> Some (M, e, AGC_STATUS_MEMERR)
   | Some d \<Rightarrow> map_option (\<lambda>(M, e). (M, e, AGC_STATUS_SUCCESS)) (agc_event_base_add_header M e name d))"

definition agc_event_add_header_string ::
  "emem \<Rightarrow> event \<Rightarrow> string \<Rightarrow> string option \<Rightarrow> (emem \<times> event \<times> agc_status) option" where
  "agc_event_add_header_string M e name data = (case data of
     Some d \<Rightarrow> map_option (\<lambda>(M, e). (M, e, AGC_STATUS_SUCCESS)) (agc_event_base_add_header M e name d)
   | None \<Rightarrow> Some (M, e, AGC_STATUS_GENERR))"

definition unlink_header :: "emem \<Rightarrow> event \<Rightarrow> ptr \<Rightarrow> ptr \<Rightarrow> (emem \<times> event) option" where
  "unlink_header M e hp lp = do {
     h \<leftarrow> em_headers M hp;
     (M, e) \<leftarrow> (if lp \<noteq> NULL
        then map_option (\<lambda>M. (M, e)) (upd_header M lp (\<lambda>l. l\<lparr>hd_next := hd_next h\<rparr>))
        else Some (M, e\<lparr>ev_headers := hd_next h\<rparr>));
     let e = (if hp = ev_last e \<or> hd_next h = NULL then e\<lparr>ev_last := lp\<rparr> else e);
     M \<leftarrow> free_header M hp;
     Some (M, e) }"

partial_function (option) del_loop :: "emem \<Rightarrow> event \<Rightarrow> string \<Rightarrow> ptr \<Rightarrow> ptr \<Rightarrow> (emem \<times> event) option" where
  "del_loop M e name tp lp =
     (if tp = NULL then Some (M, e)
      else do {
        h \<leftarrow> em_headers M tp;
        if strcaseeq name (hd_name h) then do {
          (M, e) \<leftarrow> unlink_header M e tp lp;
          del_loop M e name (hd_next h) lp }
        else del_loop M e name (hd_next h) tp })"

definition agc_event_del_header :: "emem \<Rightarrow> event \<Rightarrow> string \<Rightarrow> (emem \<times> event) option" where
  "agc_event_del_header M e name = del_loop M e name (ev_headers e) NULL"

definition agc_event_add_body :: "event \<Rightarrow> string option option \<Rightarrow> event \<times> agc_status" where
  "agc_event_add_body e fmt = (case fmt of
     None \<Rightarrow> (e, AGC_STATUS_GENERR)
   | Some None \<Rightarrow> (e, AGC_STATUS_GENERR)
   | Some (Some data) \<Rightarrow> (e\<lparr>ev_body := Some data\<rparr>, AGC_STATUS_SUCCESS))"

definition agc_event_set_body :: "event \<Rightarrow> string option \<Rightarrow> event \<times> agc_status" where
  "agc_event_set_body e body = (case body of
     None \<Rightarrow> (e, AGC_STATUS_GENERR) | Some b \<Rightarrow> (e\<lparr>ev_body := Some b\<rparr>, AGC_STATUS_SUCCESS))"

definition agc_event_get_body :: "event option \<Rightarrow> string option" where
  "agc_event_get_body e = (case e of None \<Rightarrow> None | Some e \<Rightarrow> ev_body e)"

partial_function (option) dup_headers :: "emem \<Rightarrow> event \<Rightarrow> ptr \<Rightarrow> (emem \<times> event) option" where
  "dup_headers M e hp =
     (if hp = NULL then Some (M, e)
      else do {
        h \<leftarrow> em_headers M hp;
        (M, e, _) \<leftarrow> agc_event_add_header_string M e (hd_name h) (hd_value h);
        h \<leftarrow> em_headers M hp;
        dup_headers M e (hd_next h) })"

definition agc_event_dup :: "emem \<Rightarrow> event \<Rightarrow> (emem \<times> event) option" where
  "agc_event_dup M todup = do {
     (M, e) \<leftarrow> dup_headers M (agc_event_create (ev_id todup) (ev_source todup)) (ev_headers todup);
     Some (M, case ev_body todup of None \<Rightarrow> e | Some b \<Rightarrow> e\<lparr>ev_body := Some b\<rparr>) }"

text \<open>Destroying an event frees its headers; the pointer of the caller becomes null.\<close>

partial_function (option) destroy_loop :: "emem \<Rightarrow> ptr \<Rightarrow> emem option" where
  "destroy_loop M hp =
     (if hp = NULL then Some M
      else do {
        h \<leftarrow> em_headers M hp;
        M \<leftarrow> free_header M hp;
        destroy_loop M (hd_next h) })"

definition agc_event_destroy :: "emem \<Rightarrow> event option \<Rightarrow> (emem \<times> event option) option" where
  "agc_event_destroy M e = (case e of
     None \<Rightarrow> Some (M, None)
   | Some ep \<Rightarrow> map_option (\<lambda>M. (M, None)) (destroy_loop M (ev_headers ep)))"


section \<open>The list of headers\<close>

text \<open>\<open>seg H p cs q\<close>: the cells \<open>cs\<close>, each with its address, name and value, lead from \<open>p\<close> to \<open>q\<close>.\<close>

type_synonym cell = "ptr \<times> string \<times> string option"

fun seg :: "(ptr \<Rightarrow> header option) \<Rightarrow> ptr \<Rightarrow> cell list \<Rightarrow> ptr \<Rightarrow> bool" where
  "seg H p [] q \<longleftrightarrow> p = q"
| "seg H p ((x, n, v) # cs) q \<longleftrightarrow> p = x \<and> x \<noteq> NULL \<and>
     (\<exists>r. H x = Some \<lparr>hd_name = n, hd_value = v, hd_next = r\<rparr> \<and> seg H r cs q)"

abbreviation addrs :: "cell list \<Rightarrow> ptr set" where
  "addrs cs \<equiv> fst ` set cs"

lemma seg_append: "seg H p (xs @ ys) q \<longleftrightarrow> (\<exists>r. seg H p xs r \<and> seg H r ys q)"
  by (induction xs arbitrary: p) (auto, blast+)

lemma seg_cong: "(\<And>x. x \<in> addrs cs \<Longrightarrow> H' x = H x) \<Longrightarrow> seg H' p cs q = seg H p cs q"
  by (induction cs arbitrary: p) auto

lemma seg_upd [frame_simps]: "x \<notin> addrs cs \<Longrightarrow> seg (H(x := h)) p cs q = seg H p cs q"
  by (rule seg_cong) auto

lemma seg_addrs: "seg H p cs q \<Longrightarrow> x \<in> addrs cs \<Longrightarrow> H x \<noteq> None \<and> x \<noteq> NULL"
proof (induction cs arbitrary: p)
  case (Cons c cs)
  obtain a n v where c: "c = (a, n, v)" by (cases c) auto
  then obtain r where r: "H a \<noteq> None" "seg H r cs q" "a \<noteq> NULL" using Cons.prems(1) by auto
  show ?case
  proof (cases "x = a")
    case False
    then have "x \<in> addrs cs" using Cons.prems(2) c by auto
    with r(2) show ?thesis by (rule Cons.IH)
  qed (use r in simp)
qed simp

lemma seg_start: "seg H p cs NULL \<Longrightarrow> p = (case cs of [] \<Rightarrow> NULL | c # _ \<Rightarrow> fst c)"
  by (cases cs) auto

text \<open>
  \<open>event_ok M e cs\<close>: the event's headers are the cells \<open>cs\<close>, the last pointer is right, and
  \<^term>\<open>malloc\<close> gives addresses that are not in use.
\<close>

definition last_addr :: "cell list \<Rightarrow> ptr" where
  "last_addr cs = (if cs = [] then NULL else fst (last cs))"

definition event_ok :: "emem \<Rightarrow> event \<Rightarrow> cell list \<Rightarrow> bool" where
  "event_ok M e cs \<longleftrightarrow> seg (em_headers M) (ev_headers e) cs NULL \<and> distinct (map fst cs) \<and>
     ev_last e = last_addr cs \<and> 0 < em_brk M \<and> (\<forall>p. em_brk M \<le> p \<longrightarrow> em_headers M p = None)"

text \<open>The memory outside a set of addresses is as before.\<close>

definition same_outside :: "ptr set \<Rightarrow> emem \<Rightarrow> emem \<Rightarrow> bool" where
  "same_outside A M M' \<longleftrightarrow> (\<forall>p. p \<notin> A \<longrightarrow> em_headers M' p = em_headers M p)"

lemma last_addr_simps [simp]:
  "last_addr [] = NULL" "last_addr (c # cs) = (if cs = [] then fst c else last_addr cs)"
  "last_addr (cs @ [c]) = fst c" "ds \<noteq> [] \<Longrightarrow> last_addr (cs @ ds) = last_addr ds"
  by (auto simp: last_addr_def)

lemma event_ok_brk: "event_ok M e cs \<Longrightarrow> em_brk M \<notin> addrs cs"
  by (auto simp: event_ok_def dest!: seg_addrs)

lemma event_ok_create:
  "0 < em_brk M \<Longrightarrow> \<forall>p. em_brk M \<le> p \<longrightarrow> em_headers M p = None \<Longrightarrow> event_ok M (agc_event_create i s) []"
  by (simp add: event_ok_def agc_event_create_def)

definition lookup_cell :: "string \<Rightarrow> cell list \<Rightarrow> cell option" where
  "lookup_cell n cs = List.find (\<lambda>(x, m, v). strcaseeq m n) cs"

lemma lookup_cell_simps [simp]:
  "lookup_cell n [] = None"
  "lookup_cell n ((x, m, v) # cs) = (if strcaseeq m n then Some (x, m, v) else lookup_cell n cs)"
  by (auto simp: lookup_cell_def)

lemma find_header_seg:
  "seg (em_headers M) p cs NULL \<Longrightarrow>
   find_header M n p = Some (case lookup_cell n cs of None \<Rightarrow> NULL | Some c \<Rightarrow> fst c)"
proof (induction cs arbitrary: p)
  case Nil
  then show ?case by (subst find_header.simps) simp
next
  case (Cons c cs)
  then show ?case by (cases c) (subst find_header.simps, auto)
qed

lemma lookup_cell_in: "lookup_cell n cs = Some c \<Longrightarrow> c \<in> set cs \<and> strcaseeq (fst (snd c)) n"
  by (induction cs) (auto split: if_splits)

lemma lookup_cell_None: "lookup_cell n cs = None \<longleftrightarrow> (\<forall>c\<in>set cs. \<not> strcaseeq (fst (snd c)) n)"
  by (induction cs) (auto split: if_splits)

lemma seg_cell: "seg H p cs q \<Longrightarrow> (x, n, v) \<in> set cs \<Longrightarrow> \<exists>r. H x = Some \<lparr>hd_name = n, hd_value = v, hd_next = r\<rparr>"
  by (induction cs arbitrary: p) auto

text \<open>The value the list associates with a name.\<close>

fun lookup :: "string \<Rightarrow> (string \<times> string option) list \<Rightarrow> string option" where
  "lookup n [] = None"
| "lookup n ((m, v) # kvs) = (if strcaseeq m n then v else lookup n kvs)"

lemma lookup_cells: "lookup n (map snd cs) = (case lookup_cell n cs of None \<Rightarrow> None | Some c \<Rightarrow> snd (snd c))"
  by (induction cs) auto

lemma get_header_ok:
  assumes "event_ok M e cs"
  shows "agc_event_get_header M e (Some n) = Some (lookup n (map snd cs))"
proof -
  have s: "seg (em_headers M) (ev_headers e) cs NULL" using assms by (simp add: event_ok_def)
  show ?thesis
  proof (cases "lookup_cell n cs")
    case None
    then show ?thesis using find_header_seg [OF s, of n]
      by (simp add: agc_event_get_header_def agc_event_get_header_ptr_def lookup_cells)
  next
    case (Some c)
    obtain x m v where c: "c = (x, m, v)" by (cases c) auto
    have "c \<in> set cs" using lookup_cell_in [OF Some] by simp
    with seg_cell [OF s] c obtain r where "em_headers M x = Some \<lparr>hd_name = m, hd_value = v, hd_next = r\<rparr>" by blast
    moreover have "x \<noteq> NULL" using seg_addrs [OF s, of x] \<open>c \<in> set cs\<close> c by force
    ultimately show ?thesis using find_header_seg [OF s, of n] Some c
      by (simp add: agc_event_get_header_def agc_event_get_header_ptr_def lookup_cells)
  qed
qed

text \<open>Relinking the last cell of a list.\<close>

lemma seg_relink:
  assumes "seg H p (xs @ [(x, n, v)]) q" "distinct (map fst (xs @ [(x, n, v)]))"
  shows "seg (H(x \<mapsto> \<lparr>hd_name = n, hd_value = v, hd_next = r\<rparr>)) p (xs @ [(x, n, v)]) r"
  using assms by (auto simp: seg_append frame_simps)

lemma nocheck_ok:
  assumes ok: "event_ok M e cs"
  shows "\<exists>M' e'. agc_event_base_add_header_nocheck M e n d = Some (M', e') \<and>
     event_ok M' e' (cs @ [(em_brk M, n, Some d)]) \<and> em_brk M' = em_brk M + 1 \<and>
     same_outside (addrs cs \<union> {em_brk M}) M M' \<and>
     e' = e\<lparr>ev_headers := ev_headers e', ev_last := ev_last e'\<rparr>"
proof (cases cs rule: rev_cases)
  case Nil
  then show ?thesis using ok
    by (simp add: agc_event_base_add_header_nocheck_def new_header_def upd_header_def link_last_def
        event_ok_def same_outside_def last_addr_def Let_def)
next
  case (snoc xs c)
  obtain x m v where c: "c = (x, m, v)" by (cases c) auto
  let ?b = "em_brk M"
  let ?H = "(em_headers M)(?b \<mapsto> \<lparr>hd_name = n, hd_value = Some d, hd_next = NULL\<rparr>)"
  have s: "seg (em_headers M) (ev_headers e) (xs @ [(x, m, v)]) NULL" "distinct (map fst (xs @ [(x, m, v)]))"
    and l: "ev_last e = x"
    using ok snoc c by (auto simp: event_ok_def)
  have b: "?b \<notin> addrs cs" by (rule event_ok_brk [OF ok])
  then have x: "x \<noteq> ?b" "x \<noteq> NULL" using snoc c s by (auto simp: seg_append)
  obtain r where r: "em_headers M x = Some \<lparr>hd_name = m, hd_value = v, hd_next = r\<rparr>"
    using s by (auto simp: seg_append)
  let ?H' = "?H(x \<mapsto> \<lparr>hd_name = m, hd_value = v, hd_next = ?b\<rparr>)"
  have "seg ?H (ev_headers e) (xs @ [(x, m, v)]) NULL"
    using s(1) b snoc c by (simp add: frame_simps)
  then have "seg ?H' (ev_headers e) (xs @ [(x, m, v)]) ?b" using s(2) by (rule seg_relink)
  then have "seg ?H' (ev_headers e) (cs @ [(?b, n, Some d)]) NULL"
    using snoc c x ok by (subst seg_append) (auto simp: event_ok_def)
  then show ?thesis using ok x r l b snoc c
    by (auto simp: agc_event_base_add_header_nocheck_def new_header_def upd_header_def link_last_def
        event_ok_def same_outside_def fun_upd_twist Let_def)
qed

lemma add_fresh_ok:
  assumes "event_ok M e cs" "\<forall>c\<in>set cs. \<not> strcaseeq (fst (snd c)) n"
  shows "agc_event_base_add_header M e n d = agc_event_base_add_header_nocheck M e n d"
proof -
  have "find_header M n (ev_headers e) = Some NULL"
    using find_header_seg [of M "ev_headers e" cs n] assms lookup_cell_None [of n cs] by (simp add: event_ok_def)
  then show ?thesis
    by (simp add: agc_event_base_add_header_def agc_event_base_add_header_nocheck_def agc_event_get_header_ptr_def)
qed

text \<open>Deleting: the cells whose name matches are unlinked and freed, the others stay in order.\<close>

abbreviation first_addr :: "cell list \<Rightarrow> ptr" where
  "first_addr cs \<equiv> (case cs of [] \<Rightarrow> NULL | c # _ \<Rightarrow> fst c)"

lemma event_ok_cell:
  assumes "event_ok M e (pre @ (x, m, v) # rest)"
  shows "em_headers M x = Some \<lparr>hd_name = m, hd_value = v, hd_next = first_addr rest\<rparr>" "x \<noteq> NULL"
    "seg (em_headers M) (ev_headers e) pre x" "seg (em_headers M) (first_addr rest) rest NULL"
    "x \<notin> addrs pre" "x \<notin> addrs rest" "distinct (map fst (pre @ rest))"
proof -
  obtain r where r: "em_headers M x = Some \<lparr>hd_name = m, hd_value = v, hd_next = r\<rparr>" "x \<noteq> NULL"
    "seg (em_headers M) (ev_headers e) pre x" "seg (em_headers M) r rest NULL"
    and d: "distinct (map fst (pre @ (x, m, v) # rest))"
    using assms by (auto simp: event_ok_def seg_append)
  from seg_start [OF r(4)] r show "em_headers M x = Some \<lparr>hd_name = m, hd_value = v, hd_next = first_addr rest\<rparr>"
    "seg (em_headers M) (first_addr rest) rest NULL" "x \<noteq> NULL" "seg (em_headers M) (ev_headers e) pre x" by simp_all
  from d show "x \<notin> addrs pre" "x \<notin> addrs rest" "distinct (map fst (pre @ rest))" by auto
qed

lemma unlink_ok:
  assumes ok: "event_ok M e (pre @ (x, m, v) # rest)"
  shows "\<exists>M' e'. unlink_header M e x (last_addr pre) = Some (M', e') \<and> event_ok M' e' (pre @ rest) \<and>
     em_brk M' = em_brk M \<and> same_outside (addrs (pre @ (x, m, v) # rest)) M M' \<and>
     em_headers M' x = None \<and>
     e' = e\<lparr>ev_headers := ev_headers e', ev_last := ev_last e'\<rparr>"
proof -
  note c = event_ok_cell [OF ok]
  let ?n = "first_addr rest"
  have l: "ev_last e = last_addr (pre @ (x, m, v) # rest)" using ok by (simp add: event_ok_def)
  have z: "?n = NULL \<longleftrightarrow> rest = []" using c(4) by (cases rest) auto
  have last: "(if x = ev_last e \<or> ?n = NULL then last_addr pre else ev_last e) = last_addr (pre @ rest)"
  proof (cases "rest = []")
    case False
    then have "ev_last e = last_addr rest" using l by simp
    moreover have "last_addr rest \<in> addrs rest" using False by (simp add: last_addr_def)
    ultimately show ?thesis using False z c(6) by auto
  qed simp
  show ?thesis
  proof (cases pre rule: rev_cases)
    case Nil
    then show ?thesis using ok c l z last
      by (auto simp: unlink_header_def free_header_def event_ok_def same_outside_def Let_def frame_simps)
  next
    case (snoc ys y)
    obtain a k w where y: "y = (a, k, w)" by (cases y) auto
    have s: "seg (em_headers M) (ev_headers e) (ys @ [(a, k, w)]) x" "distinct (map fst (ys @ [(a, k, w)]))"
      using c snoc y by auto
    then have a: "a \<noteq> NULL" "em_headers M a = Some \<lparr>hd_name = k, hd_value = w, hd_next = x\<rparr>"
      by (auto simp: seg_append)
    let ?H = "(em_headers M)(a \<mapsto> \<lparr>hd_name = k, hd_value = w, hd_next = ?n\<rparr>)"
    have ax: "a \<noteq> x" "a \<notin> addrs rest" using c snoc y by auto
    have "seg ?H (ev_headers e) (ys @ [(a, k, w)]) ?n" by (rule seg_relink [OF s])
    then have "seg (?H(x := None)) (ev_headers e) (ys @ [(a, k, w)]) ?n"
      using c(5) snoc y by (simp add: frame_simps)
    moreover have "seg (?H(x := None)) ?n rest NULL" using c(4,6) ax by (simp add: frame_simps)
    ultimately have "seg (?H(x := None)) (ev_headers e) (pre @ rest) NULL"
      using snoc y by (auto simp: seg_append simp del: fun_upd_apply)
    moreover have "last_addr pre = a" using snoc y by simp
    ultimately show ?thesis using ok c(1,2,7) a ax last snoc y
      by (auto simp: unlink_header_def upd_header_def free_header_def event_ok_def same_outside_def Let_def)
  qed
qed

lemma same_outside_trans:
  "same_outside A M M' \<Longrightarrow> same_outside B M' M'' \<Longrightarrow> A \<subseteq> C \<Longrightarrow> B \<subseteq> C \<Longrightarrow> same_outside C M M''"
  unfolding same_outside_def by (metis subsetD)

abbreviation other_name :: "string \<Rightarrow> cell \<Rightarrow> bool" where
  "other_name n c \<equiv> \<not> strcaseeq n (fst (snd c))"

lemma del_loop_ok:
  assumes "event_ok M e (pre @ rest)"
  shows "\<exists>M' e'. del_loop M e n (first_addr rest) (last_addr pre) = Some (M', e') \<and>
     event_ok M' e' (pre @ filter (other_name n) rest) \<and>
     em_brk M' = em_brk M \<and> same_outside (addrs (pre @ rest)) M M' \<and>
     e' = e\<lparr>ev_headers := ev_headers e', ev_last := ev_last e'\<rparr>"
  using assms
proof (induction rest arbitrary: pre M e)
  case Nil
  then show ?case by (subst del_loop.simps) (auto simp: same_outside_def)
next
  case (Cons c rest)
  obtain x m v where c: "c = (x, m, v)" by (cases c) auto
  note ok = Cons.prems [unfolded c]
  note p = event_ok_cell [OF ok]
  show ?case
  proof (cases "strcaseeq n m")
    case True
    from unlink_ok [OF ok] obtain M1 e1 where u: "unlink_header M e x (last_addr pre) = Some (M1, e1)"
      "event_ok M1 e1 (pre @ rest)" "em_brk M1 = em_brk M"
      "same_outside (addrs (pre @ (x, m, v) # rest)) M M1" "e1 = e\<lparr>ev_headers := ev_headers e1, ev_last := ev_last e1\<rparr>"
      by blast
    from Cons.IH [OF u(2)] obtain M2 e2 where d: "del_loop M1 e1 n (first_addr rest) (last_addr pre) = Some (M2, e2)"
      "event_ok M2 e2 (pre @ filter (other_name n) rest)" "em_brk M2 = em_brk M1"
      "same_outside (addrs (pre @ rest)) M1 M2" "e2 = e1\<lparr>ev_headers := ev_headers e2, ev_last := ev_last e2\<rparr>"
      by blast
    have "del_loop M e n x (last_addr pre) = Some (M2, e2)"
      using p(1,2) True u(1) d(1) by (subst del_loop.simps) simp
    moreover have "e2 = e\<lparr>ev_headers := ev_headers e2, ev_last := ev_last e2\<rparr>"
      by (subst d(5), subst u(5)) simp
    moreover have "same_outside (addrs (pre @ c # rest)) M M2"
      by (rule same_outside_trans [OF u(4) d(4)]) (auto simp: c)
    ultimately show ?thesis using d(2,3) u(3) True c by (intro exI [of _ M2] exI [of _ e2]) simp
  next
    case False
    have "del_loop M e n x (last_addr pre) = del_loop M e n (first_addr rest) (last_addr (pre @ [c]))"
      using p(1,2) False c by (subst del_loop.simps) simp
    then show ?thesis using Cons.IH [of M e "pre @ [c]"] Cons.prems False c by simp
  qed
qed

text \<open>Destroying frees the cells of the list, and dup copies them into fresh ones.\<close>

lemma destroy_loop_ok:
  "seg (em_headers M) p cs NULL \<Longrightarrow> distinct (map fst cs) \<Longrightarrow>
   \<exists>M'. destroy_loop M p = Some M' \<and> em_brk M' = em_brk M \<and> same_outside (addrs cs) M M' \<and>
     (\<forall>x\<in>addrs cs. em_headers M' x = None)"
proof (induction cs arbitrary: p M)
  case Nil
  then show ?case by (subst destroy_loop.simps) (simp add: same_outside_def)
next
  case (Cons c cs)
  obtain x m v where c: "c = (x, m, v)" by (cases c) auto
  then obtain r where r: "p = x" "x \<noteq> NULL" "em_headers M x = Some \<lparr>hd_name = m, hd_value = v, hd_next = r\<rparr>"
    "seg (em_headers M) r cs NULL" "x \<notin> addrs cs" using Cons.prems by auto
  let ?M = "M\<lparr>em_headers := (em_headers M)(x := None)\<rparr>"
  have "seg (em_headers ?M) r cs NULL" using r by (simp add: frame_simps)
  from Cons.IH [OF this] Cons.prems(2) obtain M' where M': "destroy_loop ?M r = Some M'" "em_brk M' = em_brk M"
    "same_outside (addrs cs) ?M M'" "\<forall>x\<in>addrs cs. em_headers M' x = None" by auto
  have "destroy_loop M p = Some M'" using r M'(1) by (subst destroy_loop.simps) (simp add: free_header_def)
  moreover have "same_outside (addrs (c # cs)) M M'" "em_headers M' x = None"
    using M'(3) r(5) c by (auto simp: same_outside_def)
  ultimately show ?case using M' c by auto
qed

definition distinct_names :: "(string \<times> string option) list \<Rightarrow> bool" where
  "distinct_names kvs = distinct (map (map ascii_lower \<circ> fst) kvs)"

lemma distinct_names_append:
  "distinct_names (xs @ (n, v) # ys) \<Longrightarrow> (m, w) \<in> set xs \<Longrightarrow> \<not> strcaseeq m n"
  by (force simp: distinct_names_def strcaseeq_def)

lemma dup_headers_ok:
  "event_ok M e cs \<Longrightarrow> seg (em_headers M) p src NULL \<Longrightarrow> addrs src \<inter> addrs cs = {} \<Longrightarrow>
   distinct_names (map snd (cs @ src)) \<Longrightarrow> \<forall>c\<in>set src. snd (snd c) \<noteq> None \<Longrightarrow>
   \<exists>M' e' cs'. dup_headers M e p = Some (M', e') \<and> event_ok M' e' cs' \<and>
     map snd cs' = map snd (cs @ src) \<and> same_outside (addrs cs \<union> {em_brk M..<em_brk M'}) M M' \<and>
     em_brk M \<le> em_brk M' \<and> addrs cs' = addrs cs \<union> {em_brk M..<em_brk M'} \<and>
     e' = e\<lparr>ev_headers := ev_headers e', ev_last := ev_last e'\<rparr>"
proof (induction src arbitrary: p M e cs)
  case Nil
  then show ?case
    by (subst dup_headers.simps) (auto simp: same_outside_def intro!: exI [of _ cs])
next
  case (Cons c src)
  obtain x m d where c: "c = (x, m, Some d)" using Cons.prems(5) by (cases c) auto
  then obtain r where r: "p = x" "x \<noteq> NULL" "em_headers M x = Some \<lparr>hd_name = m, hd_value = Some d, hd_next = r\<rparr>"
    "seg (em_headers M) r src NULL" using Cons.prems(2) by auto
  let ?b = "em_brk M"
  have fresh: "q < ?b" if "q \<in> addrs (c # src)" for q
    using seg_addrs [OF Cons.prems(2) that] Cons.prems(1) by (auto simp: event_ok_def not_less [symmetric])
  have "\<forall>c\<in>set cs. \<not> strcaseeq (fst (snd c)) m"
    using Cons.prems(4) c by (force dest: distinct_names_append)
  from add_fresh_ok [OF Cons.prems(1) this, of d] nocheck_ok [OF Cons.prems(1), of m d]
  obtain M1 e1 where a: "agc_event_base_add_header M e m d = Some (M1, e1)"
    "event_ok M1 e1 (cs @ [(?b, m, Some d)])" "em_brk M1 = ?b + 1"
    "same_outside (addrs cs \<union> {?b}) M M1" "e1 = e\<lparr>ev_headers := ev_headers e1, ev_last := ev_last e1\<rparr>" by auto
  have same: "em_headers M1 q = em_headers M q" if "q \<in> addrs (c # src)" for q
  proof -
    have "q \<notin> addrs cs" using that Cons.prems(3) by blast
    then show ?thesis using fresh [OF that] a(4) by (simp add: same_outside_def)
  qed
  have "seg (em_headers M1) r src NULL" using r(4) same by (subst seg_cong [of src _ "em_headers M"]) simp_all
  moreover have "?b \<notin> addrs src" using fresh [of ?b] by auto
  then have "addrs src \<inter> addrs (cs @ [(?b, m, Some d)]) = {}" using Cons.prems(3) by (simp add: Int_insert_right)
  moreover have "distinct_names (map snd ((cs @ [(?b, m, Some d)]) @ src))"
    using Cons.prems(4) c by (simp add: distinct_names_def)
  ultimately obtain M2 e2 cs' where ih: "dup_headers M1 e1 r = Some (M2, e2)" "event_ok M2 e2 cs'"
    "map snd cs' = map snd ((cs @ [(?b, m, Some d)]) @ src)"
    "same_outside (addrs (cs @ [(?b, m, Some d)]) \<union> {em_brk M1..<em_brk M2}) M1 M2" "em_brk M1 \<le> em_brk M2"
    "addrs cs' = addrs (cs @ [(?b, m, Some d)]) \<union> {em_brk M1..<em_brk M2}"
    "e2 = e1\<lparr>ev_headers := ev_headers e2, ev_last := ev_last e2\<rparr>"
    using Cons.IH [OF a(2)] Cons.prems(5) by (metis list.set_intros(2))
  have "em_headers M1 x = em_headers M x" using same c by simp
  then have "dup_headers M e p = Some (M2, e2)"
    using r a(1) ih(1) by (subst dup_headers.simps) (simp add: agc_event_add_header_string_def)
  moreover have "same_outside (addrs cs \<union> {?b..<em_brk M2}) M M2"
    by (rule same_outside_trans [OF a(4) ih(4)]) (use a(3) ih(5) in auto)
  moreover have "e2 = e\<lparr>ev_headers := ev_headers e2, ev_last := ev_last e2\<rparr>"
    by (subst ih(7), subst a(5)) simp
  moreover have "addrs cs' = addrs cs \<union> {?b..<em_brk M2}" using ih(5,6) a(3) by auto
  ultimately show ?case using ih(2,3,5) a(3) c by (intro exI [of _ M2] exI [of _ e2] exI [of _ cs']) simp
qed

section \<open>The interface of the headers\<close>

text \<open>
  A table of headers as its clients see it: adding appends, looking up finds the first entry of the
  name (letter case does not matter), deleting removes every entry of the name.
\<close>

locale header_table =
  fixes holds :: "'m \<Rightarrow> 'e \<Rightarrow> (string \<times> string option) list \<Rightarrow> bool"
    and add :: "'m \<Rightarrow> 'e \<Rightarrow> string \<Rightarrow> string \<Rightarrow> ('m \<times> 'e) option"
    and get :: "'m \<Rightarrow> 'e \<Rightarrow> string \<Rightarrow> string option option"
    and del :: "'m \<Rightarrow> 'e \<Rightarrow> string \<Rightarrow> ('m \<times> 'e) option"
  assumes get_law: "holds M e kvs \<Longrightarrow> get M e n = Some (lookup n kvs)"
    and add_law: "holds M e kvs \<Longrightarrow> \<exists>M' e'. add M e n v = Some (M', e') \<and> holds M' e' (kvs @ [(n, Some v)])"
    and del_law: "holds M e kvs \<Longrightarrow>
      \<exists>M' e'. del M e n = Some (M', e') \<and> holds M' e' (filter (\<lambda>(m, v). \<not> strcaseeq n m) kvs)"
begin

lemma lookup_append: "lookup n (kvs @ [(m, Some v)]) =
    (if \<forall>(k, w)\<in>set kvs. \<not> strcaseeq k n then if strcaseeq m n then Some v else None else lookup n kvs)"
  by (induction kvs) (auto simp: strcaseeq_def split: if_splits)

lemma lookup_filter:
  "lookup m (filter (\<lambda>(k, v). \<not> strcaseeq n k) kvs) = (if strcaseeq n m then None else lookup m kvs)"
  by (induction kvs) (auto simp: strcaseeq_def split: if_splits)

lemma get_after_add:
  assumes "holds M e kvs" "\<forall>(k, w)\<in>set kvs. \<not> strcaseeq k n" "strcaseeq n m"
  shows "\<exists>M' e'. add M e n v = Some (M', e') \<and> get M' e' m = Some (Some v)"
proof -
  from add_law [OF assms(1)] obtain M' e' where a: "add M e n v = Some (M', e')" "holds M' e' (kvs @ [(n, Some v)])"
    by blast
  have "\<forall>(k, w)\<in>set kvs. \<not> strcaseeq k m" using assms(2,3) by (auto simp: strcaseeq_def)
  then show ?thesis using a get_law [OF a(2), of m] assms(3) by (simp add: lookup_append)
qed

lemma get_after_del:
  assumes "holds M e kvs"
  shows "\<exists>M' e'. del M e n = Some (M', e') \<and>
     (\<forall>m. get M' e' m = (if strcaseeq n m then Some None else get M e m))"
proof -
  from del_law [OF assms] obtain M' e' where d: "del M e n = Some (M', e')"
    "holds M' e' (filter (\<lambda>(m, v). \<not> strcaseeq n m) kvs)" by blast
  show ?thesis using d(1) get_law [OF d(2)] get_law [OF assms] by (simp add: lookup_filter)
qed

end

definition event_headers :: "emem \<Rightarrow> event \<Rightarrow> (string \<times> string option) list \<Rightarrow> bool" where
  "event_headers M e kvs \<longleftrightarrow> (\<exists>cs. event_ok M e cs \<and> map snd cs = kvs)"

lemma filter_cells: "map snd (filter (other_name n) cs) = filter (\<lambda>(m, v). \<not> strcaseeq n m) (map snd cs)"
  by (induction cs) auto

lemma del_header_ok:
  assumes "event_ok M e cs"
  shows "\<exists>M' e'. agc_event_del_header M e n = Some (M', e') \<and> event_ok M' e' (filter (other_name n) cs) \<and>
     em_brk M' = em_brk M \<and> same_outside (addrs cs) M M' \<and>
     e' = e\<lparr>ev_headers := ev_headers e', ev_last := ev_last e'\<rparr>"
proof -
  have "ev_headers e = first_addr cs" using assms seg_start by (auto simp: event_ok_def)
  then show ?thesis using del_loop_ok [of M e "[]" cs n] assms by (simp add: agc_event_del_header_def)
qed

interpretation he: header_table event_headers agc_event_base_add_header_nocheck
  "\<lambda>M e n. agc_event_get_header M e (Some n)" agc_event_del_header
proof
  fix M e kvs n
  assume "event_headers M e kvs"
  then obtain cs where cs: "event_ok M e cs" "map snd cs = kvs" by (auto simp: event_headers_def)
  show "agc_event_get_header M e (Some n) = Some (lookup n kvs)" using get_header_ok [OF cs(1)] cs(2) by simp
  show "\<exists>M' e'. agc_event_base_add_header_nocheck M e n v = Some (M', e') \<and> event_headers M' e' (kvs @ [(n, Some v)])" for v
  proof -
    from nocheck_ok [OF cs(1), of n v] obtain M' e' where "agc_event_base_add_header_nocheck M e n v = Some (M', e')"
      "event_ok M' e' (cs @ [(em_brk M, n, Some v)])" by blast
    moreover have "map snd (cs @ [(em_brk M, n, Some v)]) = kvs @ [(n, Some v)]" using cs(2) by simp
    ultimately show ?thesis unfolding event_headers_def by blast
  qed
  show "\<exists>M' e'. agc_event_del_header M e n = Some (M', e') \<and> event_headers M' e' (filter (\<lambda>(m, v). \<not> strcaseeq n m) kvs)"
  proof -
    from del_header_ok [OF cs(1), of n] obtain M' e' where "agc_event_del_header M e n = Some (M', e')"
      "event_ok M' e' (filter (other_name n) cs)" by blast
    then show ?thesis using filter_cells [of n cs] cs(2) unfolding event_headers_def by blast
  qed
qed

text \<open>A lookup that meets only other names on a closed cycle does not end.\<close>

lemma find_header_diverges:
  assumes "\<forall>x\<in>S. x \<noteq> NULL \<and> (\<exists>h. em_headers M x = Some h \<and> \<not> strcaseeq (hd_name h) n \<and> hd_next h \<in> S)" "p \<in> S"
  shows "find_header M n p = None"
proof -
  have "p \<in> S \<longrightarrow> (\<forall>x\<in>S. x \<noteq> NULL \<and> (\<exists>h. em_headers M x = Some h \<and> \<not> strcaseeq (hd_name h) n \<and> hd_next h \<in> S)) \<longrightarrow> False"
    if "find_header M n p = Some r" for r
  proof (rule find_header.raw_induct [OF _ that])
    fix f M n p r
    assume ih: "\<And>M n p r. f M n p = Some r \<Longrightarrow> p \<in> S \<longrightarrow> (\<forall>x\<in>S. x \<noteq> NULL \<and>
        (\<exists>h. em_headers M x = Some h \<and> \<not> strcaseeq (hd_name h) n \<and> hd_next h \<in> S)) \<longrightarrow> False"
      and step: "(if p = NULL then Some NULL else do {
         h \<leftarrow> em_headers M p;
         if strcaseeq (hd_name h) n then Some p else f M n (hd_next h) }) = Some r"
    show "p \<in> S \<longrightarrow> (\<forall>x\<in>S. x \<noteq> NULL \<and> (\<exists>h. em_headers M x = Some h \<and> \<not> strcaseeq (hd_name h) n \<and> hd_next h \<in> S)) \<longrightarrow> False"
    proof (intro impI)
      assume p: "p \<in> S" and a: "\<forall>x\<in>S. x \<noteq> NULL \<and> (\<exists>h. em_headers M x = Some h \<and> \<not> strcaseeq (hd_name h) n \<and> hd_next h \<in> S)"
      from a p obtain h where h: "p \<noteq> NULL" "em_headers M p = Some h" "\<not> strcaseeq (hd_name h) n" "hd_next h \<in> S" by blast
      with step have "f M n (hd_next h) = Some r" by simp
      from ih [OF this] h(4) a show False by simp
    qed
  qed
  then show ?thesis using assms by (cases "find_header M n p") blast+
qed

lemma event_ok_next:
  assumes "event_ok M e cs" "x \<in> addrs cs"
  shows "\<exists>h. em_headers M x = Some h \<and> hd_name h \<in> fst ` snd ` set cs \<and> (hd_next h \<in> addrs cs \<or> x = ev_last e)"
proof -
  obtain m v where "(x, m, v) \<in> set cs" using assms(2) by force
  then obtain pre rest where cs: "cs = pre @ (x, m, v) # rest" by (auto dest: split_list)
  from event_ok_cell(1) [OF assms(1) [unfolded cs]]
  show ?thesis using assms(1) cs by (cases rest) (auto simp: event_ok_def)
qed

lemma duplicate_cycles:
  assumes "event_headers M e kvs" "(m, w) \<in> set kvs" "strcaseeq m n"
    and "\<forall>(k, v)\<in>set kvs. \<not> strcaseeq k a"
  shows "\<exists>M' e'. agc_event_base_add_header M e n d = Some (M', e') \<and>
     agc_event_get_header M' e' (Some a) = None \<and> em_brk M' = em_brk M \<and>
     e' = e\<lparr>ev_last := ev_last e'\<rparr>"
proof -
  from assms(1) obtain cs where ok: "event_ok M e cs" and kvs: "map snd cs = kvs" by (auto simp: event_headers_def)
  from assms(2) kvs obtain x where "(x, m, w) \<in> set cs" by force
  with assms(3) have "lookup_cell n cs \<noteq> None" unfolding lookup_cell_None by force
  then obtain c where c: "lookup_cell n cs = Some c" by blast
  let ?p = "fst c" and ?l = "ev_last e"
  have p: "?p \<in> addrs cs" using lookup_cell_in [OF c] by auto
  then have l: "?l \<in> addrs cs" using ok by (auto simp: event_ok_def last_addr_def)
  have sg: "seg (em_headers M) (ev_headers e) cs NULL" using ok by (simp add: event_ok_def)
  have nn: "x \<noteq> NULL" if "x \<in> addrs cs" for x using seg_addrs [OF sg that] by simp
  have f: "find_header M n (ev_headers e) = Some ?p"
    using find_header_seg [of M "ev_headers e" cs n] ok c by (simp add: event_ok_def)
  obtain h where h: "em_headers M ?p = Some h" using event_ok_next [OF ok p] by blast
  obtain hl where hl: "em_headers M ?l = Some hl" using event_ok_next [OF ok l] by blast
  let ?H1 = "(em_headers M)(?p \<mapsto> h\<lparr>hd_value := Some d\<rparr>)"
  let ?H = "?H1(?l \<mapsto> (the (?H1 ?l))\<lparr>hd_next := ?p\<rparr>)"
  let ?M = "M\<lparr>em_headers := ?H\<rparr>" and ?e = "e\<lparr>ev_last := ?p\<rparr>"
  have add: "agc_event_base_add_header M e n d = Some (?M, ?e)"
    using f h hl nn [OF p] nn [OF l]
    by (simp add: agc_event_base_add_header_def agc_event_get_header_ptr_def upd_header_def link_last_def)
  have "\<exists>g. em_headers ?M x = Some g \<and> \<not> strcaseeq (hd_name g) a \<and> hd_next g \<in> addrs cs" if x: "x \<in> addrs cs" for x
  proof -
    from event_ok_next [OF ok x] obtain g where g: "em_headers M x = Some g" "hd_name g \<in> fst ` snd ` set cs"
      "hd_next g \<in> addrs cs \<or> x = ?l" by blast
    from g(2) kvs [symmetric] assms(4) have "\<not> strcaseeq (hd_name g) a" by force
    moreover have "\<exists>g'. em_headers ?M x = Some g' \<and> hd_name g' = hd_name g \<and>
        (hd_next g' = (if x = ?l then ?p else hd_next g))"
      using g(1) h by (cases "x = ?p"; cases "x = ?l") simp_all
    moreover have "(if x = ?l then ?p else hd_next g) \<in> addrs cs" using g(3) p by presburger
    ultimately show ?thesis by metis
  qed
  then have "find_header ?M a (ev_headers e) = None"
  proof (intro find_header_diverges [of "addrs cs"] ballI conjI)
    show "ev_headers e \<in> addrs cs" using ok p seg_start by (cases cs) (auto simp: event_ok_def)
  qed (use nn in auto)
  then show ?thesis using add by (simp add: agc_event_get_header_def agc_event_get_header_ptr_def)
qed

lemma add_string_ok:
  assumes "event_headers M e kvs" "\<forall>(k, w)\<in>set kvs. \<not> strcaseeq k n"
  shows "\<exists>M' e'. agc_event_add_header_string M e n (Some d) = Some (M', e', AGC_STATUS_SUCCESS) \<and>
     event_headers M' e' (kvs @ [(n, Some d)]) \<and> e' = e\<lparr>ev_headers := ev_headers e', ev_last := ev_last e'\<rparr>"
proof -
  from assms(1) obtain cs where ok: "event_ok M e cs" and kvs: "map snd cs = kvs" by (auto simp: event_headers_def)
  have "\<forall>c\<in>set cs. \<not> strcaseeq (fst (snd c)) n" using assms(2) kvs by force
  with add_fresh_ok [OF ok this, of d] nocheck_ok [OF ok, of n d] obtain M' e' where
    a: "agc_event_base_add_header M e n d = Some (M', e')" "event_ok M' e' (cs @ [(em_brk M, n, Some d)])"
    "e' = e\<lparr>ev_headers := ev_headers e', ev_last := ev_last e'\<rparr>" by auto
  have "event_headers M' e' (kvs @ [(n, Some d)])"
    unfolding event_headers_def using a(2) kvs by (intro exI [of _ "cs @ [(em_brk M, n, Some d)]"]) simp
  then show ?thesis using a(1,3) by (simp add: agc_event_add_header_string_def)
qed

section \<open>Properties\<close>

lemmas event_ops = agc_event_add_header_def agc_event_create_def agc_event_destroy_def agc_event_dup_def

text \<open>An event with two headers, for the witnesses.\<close>

definition demo_mem :: emem where
  "demo_mem = \<lparr>em_headers = [1 \<mapsto> \<lparr>hd_name = ''Name'', hd_value = Some ''v'', hd_next = 2\<rparr>,
     2 \<mapsto> \<lparr>hd_name = ''_t'', hd_value = Some ''7'', hd_next = NULL\<rparr>], em_brk = 3\<rparr>"

definition demo_event :: event where
  "demo_event = (agc_event_create 4 0)\<lparr>ev_headers := 1, ev_last := 2, ev_body := Some ''b''\<rparr>"

lemma demo_event_ok: "event_ok demo_mem demo_event [(1, ''Name'', Some ''v''), (2, ''_t'', Some ''7'')]"
  by (simp add: event_ok_def demo_mem_def demo_event_def agc_event_create_def)

lemma demo_event_headers: "event_headers demo_mem demo_event [(''Name'', Some ''v''), (''_t'', Some ''7'')]"
  unfolding event_headers_def by (rule exI, rule conjI, rule demo_event_ok) simp

lemma demo_names:
  "strcaseeq ''Name'' ''NAME''" "strcaseeq ''name'' ''Name''" "\<not> strcaseeq ''name'' ''_t''" "strcaseeq ''Name'' ''name''"
  "\<not> strcaseeq ''Name'' ''_uuid''" "\<not> strcaseeq ''_t'' ''_uuid''"
  "distinct_names [(''Name'', Some ''v''), (''_t'', Some ''7'')]"
  by code_simp+

text \<open>C24. The headers of an event behave as a list of entries: \<open>agc_event_get_header\<close> returns the
  first entry of the name, \<open>agc_event_add_header\<close> appends, \<open>agc_event_del_header\<close> removes every entry
  of the name and keeps the order of the others. All three return.\<close>

theorem event_header_table:
  assumes "event_headers M e kvs"
  shows "agc_event_get_header M e (Some n) = Some (lookup n kvs) \<and>
     (\<exists>M' e'. agc_event_add_header M e n (Some v) = Some (M', e', AGC_STATUS_SUCCESS) \<and>
        event_headers M' e' (kvs @ [(n, Some v)])) \<and>
     (\<exists>M' e'. agc_event_del_header M e n = Some (M', e') \<and>
        event_headers M' e' (filter (\<lambda>(m, v). \<not> strcaseeq n m) kvs))"
proof -
  from he.add_law [OF assms, of n v] obtain M' e' where
    "agc_event_base_add_header_nocheck M e n v = Some (M', e')" "event_headers M' e' (kvs @ [(n, Some v)])" by blast
  then show ?thesis
    using he.get_law [OF assms, of n] he.del_law [OF assms, of n] by (simp add: agc_event_add_header_def)
qed

theorem event_header_table_witness:
  "agc_event_get_header demo_mem demo_event (Some ''NAME'') = Some (Some ''v'')"
  using event_header_table [OF demo_event_headers, of "''NAME''"] by (simp add: demo_names)

text \<open>After a header is deleted its name (in any letter case) is not found and every other
  lookup gives what it gave before.\<close>

lemma event_get_after_del:
  assumes "event_headers M e kvs"
  shows "\<exists>M' e'. agc_event_del_header M e n = Some (M', e') \<and>
     (\<forall>m. agc_event_get_header M' e' (Some m) =
        (if strcaseeq n m then Some None else agc_event_get_header M e (Some m)))"
  by (rule he.get_after_del [OF assms])

lemma event_get_after_del_witness:
  "\<exists>M' e'. agc_event_del_header demo_mem demo_event ''name'' = Some (M', e') \<and>
     agc_event_get_header M' e' (Some ''Name'') = Some None \<and>
     agc_event_get_header M' e' (Some ''_t'') = agc_event_get_header demo_mem demo_event (Some ''_t'')"
  using event_get_after_del [OF demo_event_headers, of "''name''"]
  by (auto simp: demo_names)

text \<open>C34. Adding a header whose name is already present (\<open>agc_event_base_add_header\<close>) closes the list
  into a cycle: the call returns, and from then on looking up any absent name does not end.\<close>

theorem add_header_duplicate_cycles:
  assumes "event_headers M e kvs" "(m, w) \<in> set kvs" "strcaseeq m n"
    and "\<forall>(k, v)\<in>set kvs. \<not> strcaseeq k a"
  shows "\<exists>M' e'. agc_event_base_add_header M e n d = Some (M', e') \<and>
     agc_event_get_header M' e' (Some a) = None"
proof -
  from duplicate_cycles [OF assms, of d] show ?thesis by blast
qed

theorem add_header_duplicate_witness:
  "\<exists>M' e'. agc_event_base_add_header demo_mem demo_event ''name'' ''w'' = Some (M', e') \<and>
     agc_event_get_header M' e' (Some ''_uuid'') = None"
  by (rule add_header_duplicate_cycles [OF demo_event_headers, where m = "''Name''" and w = "Some ''v''"])
    (simp_all add: demo_names)

text \<open>\<open>agc_event_dup\<close> of an event with distinct header names gives an event with the same
  identifier, source, body and headers in fresh cells; the original is untouched, and destroying the
  copy frees exactly the cells of the copy.\<close>

lemma event_dup_destroy:
  assumes "event_headers M e kvs" "distinct_names kvs" "\<forall>(n, v)\<in>set kvs. v \<noteq> None"
  shows "\<exists>M' e'. agc_event_dup M e = Some (M', e') \<and> event_headers M' e' kvs \<and> event_headers M' e kvs \<and>
     ev_id e' = ev_id e \<and> ev_source e' = ev_source e \<and> ev_body e' = ev_body e \<and>
     (\<exists>M''. agc_event_destroy M' (Some e') = Some (M'', None) \<and> em_headers M'' = em_headers M)"
proof -
  from assms(1) obtain cs where ok: "event_ok M e cs" and kvs: "map snd cs = kvs" by (auto simp: event_headers_def)
  let ?e0 = "agc_event_create (ev_id e) (ev_source e)" and ?b = "em_brk M"
  have "event_ok M ?e0 []" using ok by (intro event_ok_create) (auto simp: event_ok_def)
  moreover have s: "seg (em_headers M) (ev_headers e) cs NULL" using ok by (simp add: event_ok_def)
  ultimately obtain M1 e1 cs1 where d: "dup_headers M ?e0 (ev_headers e) = Some (M1, e1)" "event_ok M1 e1 cs1"
    "map snd cs1 = kvs" "same_outside {?b..<em_brk M1} M M1" "?b \<le> em_brk M1" "addrs cs1 = {?b..<em_brk M1}"
    "e1 = ?e0\<lparr>ev_headers := ev_headers e1, ev_last := ev_last e1\<rparr>"
    using dup_headers_ok [of M ?e0 "[]" "ev_headers e" cs] assms(2,3) kvs by fastforce
  let ?e = "case ev_body e of None \<Rightarrow> e1 | Some b \<Rightarrow> e1\<lparr>ev_body := Some b\<rparr>"
  have e: "event_ok M1 ?e cs1" "ev_headers ?e = ev_headers e1" "ev_id ?e = ev_id e" "ev_source ?e = ev_source e"
    "ev_body ?e = ev_body e"
  proof -
    have k: "ev_id e1 = ev_id e" "ev_source e1 = ev_source e" "ev_body e1 = None"
      by (subst d(7), simp add: agc_event_create_def)+
    show "event_ok M1 ?e cs1" "ev_headers ?e = ev_headers e1" "ev_id ?e = ev_id e" "ev_source ?e = ev_source e"
      "ev_body ?e = ev_body e" using d(2) k by (cases "ev_body e"; simp add: event_ok_def)+
  qed
  have above: "em_headers M q = None" if "?b \<le> q" for q using ok that by (simp add: event_ok_def)
  have "em_headers M1 x = em_headers M x" if "x \<in> addrs cs" for x
  proof -
    have "\<not> ?b \<le> x" using seg_addrs [OF s that] above [of x] by auto
    then show ?thesis using d(4) by (simp add: same_outside_def)
  qed
  then have "seg (em_headers M1) (ev_headers e) cs NULL" using s by (subst seg_cong [of cs _ "em_headers M"]) simp_all
  then have orig: "event_ok M1 e cs" using ok d(2) by (auto simp: event_ok_def)
  from destroy_loop_ok [of M1 "ev_headers e1" cs1] d(2) obtain M2 where
    f: "destroy_loop M1 (ev_headers e1) = Some M2" "same_outside (addrs cs1) M1 M2" "\<forall>x\<in>addrs cs1. em_headers M2 x = None"
    by (auto simp: event_ok_def)
  have "em_headers M2 = em_headers M"
  proof
    fix q show "em_headers M2 q = em_headers M q"
    proof (cases "q \<in> addrs cs1")
      case True
      then show ?thesis using f(3) d(6) above by simp
    next
      case False
      then show ?thesis using f(2) d(4,6) by (simp add: same_outside_def)
    qed
  qed
  then show ?thesis using d(1,3) e orig kvs f(1)
    by (intro exI [of _ M1] exI [of _ ?e]) (auto simp: agc_event_dup_def agc_event_destroy_def event_headers_def)
qed

lemma event_dup_destroy_witness:
  "\<exists>M' e'. agc_event_dup demo_mem demo_event = Some (M', e') \<and> ev_body e' = Some ''b'' \<and>
     event_headers M' e' [(''Name'', Some ''v''), (''_t'', Some ''7'')]"
  using event_dup_destroy [OF demo_event_headers]
  by (auto simp: demo_names demo_event_def)

end
