(* ===== verification/Json.thy ===== *)
theory Json
  imports Prelude
begin

unbundle bit_operations_syntax

text \<open>
  The JSON library of the framework, \<open>src/agc_json.c\<close>: parsing text into items and printing items.
  An item is a value of a datatype with the item types of the code; children are lists instead of
  sibling chains. The text is a C string, the list of its characters before the NUL. The functions
  are written over what they do with a number: \<open>conv\<close> gives the value of the number a text starts
  with, \<open>pr\<close> its printed form. Theory \<open>Json_Number\<close> has these two as the code computes them
  with \<open>double\<close>; which text belongs to a number is modelled here. A parser returns \<^term>\<open>Crash\<close> when it
  reads behind the string, \<^term>\<open>Deep\<close> when the recursion is deeper than the given bound, the
  position of an error, or a value and the rest of the text.
\<close>

section \<open>Items and results\<close>

datatype 'd json =
    JFalse
  | JTrue
  | JNull
  | JNumber 'd
  | JString string
  | JArray "'d json list"
  | JObject "(string \<times> 'd json) list"

datatype 'a parsed = Crash | Deep | Fail string | Done 'a string

fun and_then :: "'a parsed \<Rightarrow> ('a \<Rightarrow> string \<Rightarrow> 'b parsed) \<Rightarrow> 'b parsed" where
  "and_then Crash f = Crash"
| "and_then Deep f = Deep"
| "and_then (Fail p) f = Fail p"
| "and_then (Done x r) f = f x r"

abbreviation DQUOTE :: char where
  "DQUOTE \<equiv> CHR 0x22"

abbreviation BACKSLASH :: char where
  "BACKSLASH \<equiv> CHR 0x5C"

text \<open>White space and control characters are skipped.\<close>

abbreviation is_ws :: "char \<Rightarrow> bool" where
  "is_ws c \<equiv> (of_char c :: nat) \<le> 32"

definition skip :: "string \<Rightarrow> string" where
  "skip s = dropWhile is_ws s"

section \<open>Strings\<close>

definition hex_val :: "char \<Rightarrow> nat option" where
  "hex_val c = (let n = of_char c in
     if 48 \<le> n \<and> n \<le> 57 then Some (n - 48)
     else if 97 \<le> n \<and> n \<le> 102 then Some (n - 87)
     else if 65 \<le> n \<and> n \<le> 70 then Some (n - 55) else None)"

fun scan_unicode :: "string \<Rightarrow> 32 word option" where
  "scan_unicode (a # b # c # d # _) =
     (case (hex_val a, hex_val b, hex_val c, hex_val d) of
        (Some a, Some b, Some c, Some d) \<Rightarrow> Some (of_nat (((a * 16 + b) * 16 + c) * 16 + d))
      | _ \<Rightarrow> None)"
| "scan_unicode _ = None"

text \<open>The bytes of a code point, written from the last to the first.\<close>

definition byte_char :: "32 word \<Rightarrow> char" where
  "byte_char w = char_of (unat (w AND 0xFF))"

definition utf8 :: "32 word \<Rightarrow> string" where
  "utf8 uc =
     (let tl1 = byte_char ((uc OR 0x80) AND 0xBF); uc1 = drop_bit 6 uc;
          tl2 = byte_char ((uc1 OR 0x80) AND 0xBF); uc2 = drop_bit 6 uc1;
          tl3 = byte_char ((uc2 OR 0x80) AND 0xBF); uc3 = drop_bit 6 uc2
      in if uc < 0x80 then [byte_char uc]
         else if uc < 0x800 then [byte_char (uc1 OR 0xC0), tl1]
         else if uc < 0x10000 then [byte_char (uc2 OR 0xE0), tl2, tl1]
         else [byte_char (uc3 OR 0xF0), tl3, tl2, tl1])"

text \<open>
  The escape \<open>\u\<close>: \<open>s\<close> is the text after the letter. The bytes it stands for (none when it is
  invalid) and the text that is left.
\<close>

definition unicode_escape :: "string \<Rightarrow> string \<times> string" where
  "unicode_escape s = (case scan_unicode s of
     None \<Rightarrow> ([], s)
   | Some uc \<Rightarrow>
       let r = drop 4 s in
       if (0xDC00 \<le> uc \<and> uc \<le> 0xDFFF) \<or> uc = 0 then ([], r)
       else if 0xD800 \<le> uc \<and> uc \<le> 0xDBFF then
         if take 2 r \<noteq> [BACKSLASH, CHR ''u''] then ([], r)
         else (case scan_unicode (drop 2 r) of
             None \<Rightarrow> ([], r)
           | Some uc2 \<Rightarrow>
               let r2 = drop 6 r in
               if uc2 < 0xDC00 \<or> 0xDFFF < uc2 then ([], r2)
               else (utf8 (0x10000 OR push_bit 10 (uc AND 0x3FF) OR (uc2 AND 0x3FF)), r2))
       else (utf8 uc, r))"

lemma unicode_escape_shorter: "length (snd (unicode_escape s)) \<le> length s"
  by (auto simp: unicode_escape_def Let_def split: option.split)

definition escape_char :: "char \<Rightarrow> char" where
  "escape_char c = (if c = CHR ''b'' then CHR 0x08 else if c = CHR ''f'' then CHR 0x0C
     else if c = CHR ''n'' then CHR 0x0A else if c = CHR ''r'' then CHR 0x0D
     else if c = CHR ''t'' then CHR 0x09 else c)"

text \<open>
  The first loop measures the string and is the one that runs over the end when the text stops after
  a backslash. The second loop copies; it stops at the quote or at the end of the text.
\<close>

fun str_room :: "string \<Rightarrow> nat option" where
  "str_room [] = Some 0"
| "str_room (c # cs) =
     (if c = DQUOTE then Some 0
      else if c = BACKSLASH then (case cs of [] \<Rightarrow> None | d # ds \<Rightarrow> map_option Suc (str_room ds))
      else map_option Suc (str_room cs))"

function str_copy :: "string \<Rightarrow> string \<times> string" where
  "str_copy [] = ([], [])"
| "str_copy (c # cs) =
     (if c = DQUOTE then ([], c # cs)
      else if c = BACKSLASH then
        (case cs of
           [] \<Rightarrow> ([], [])
         | d # ds \<Rightarrow>
             if d = CHR ''u'' then
               (let (u, r) = unicode_escape ds; (x, r') = str_copy r in (u @ x, r'))
             else (let (x, r') = str_copy ds in (escape_char d # x, r')))
      else (let (x, r') = str_copy cs in (c # x, r')))"
  by pat_completeness auto
termination
proof (relation "measure length"; simp)
  fix ds u and r :: string
  assume "(u, r) = unicode_escape ds"
  then have "length r \<le> length ds" using unicode_escape_shorter [of ds] by (metis snd_conv)
  then show "length r < Suc (Suc (length ds))" by simp
qed

definition parse_string :: "string \<Rightarrow> string parsed" where
  "parse_string str = (case str of
     [] \<Rightarrow> Fail str
   | q # p \<Rightarrow>
       if q \<noteq> DQUOTE then Fail str
       else (case str_room p of
           None \<Rightarrow> Crash
         | Some len \<Rightarrow> (let (out, r) = str_copy p in Done out (case r of [] \<Rightarrow> [] | _ # r' \<Rightarrow> r'))))"

text \<open>Printing a string: the size of the buffer, and what is written to it.\<close>

definition is_plain :: "char \<Rightarrow> bool" where
  "is_plain c \<longleftrightarrow> 31 < (of_char c :: nat) \<and> c \<noteq> DQUOTE \<and> c \<noteq> BACKSLASH"

definition short_escape :: "char \<Rightarrow> char option" where
  "short_escape c = (if c = BACKSLASH then Some BACKSLASH else if c = DQUOTE then Some DQUOTE
     else if c = CHR 0x08 then Some CHR ''b'' else if c = CHR 0x0C then Some CHR ''f''
     else if c = CHR 0x0A then Some CHR ''n'' else if c = CHR 0x0D then Some CHR ''r''
     else if c = CHR 0x09 then Some CHR ''t'' else None)"

definition hex_digit :: "nat \<Rightarrow> char" where
  "hex_digit n = (if n < 10 then char_of (48 + n) else char_of (87 + n))"

definition hex4 :: "char \<Rightarrow> string" where
  "hex4 c = (let n = of_char c :: nat in [CHR ''0'', CHR ''0'', hex_digit (n div 16), hex_digit (n mod 16)])"

fun print_len :: "string \<Rightarrow> nat" where
  "print_len [] = 0"
| "print_len (c # cs) = 1 + (if c \<in> {DQUOTE, BACKSLASH, CHR 0x08, CHR 0x0C, CHR 0x0A, CHR 0x0D, CHR 0x09} then 1
     else if (of_char c :: nat) < 32 then 5 else 0) + print_len cs"

fun print_chars :: "string \<Rightarrow> string" where
  "print_chars [] = []"
| "print_chars (c # cs) =
     (if is_plain c then [c]
      else (case short_escape c of
          Some e \<Rightarrow> [BACKSLASH, e]
        | None \<Rightarrow> BACKSLASH # CHR ''u'' # hex4 c)) @ print_chars cs"

definition print_string_ptr :: "string option \<Rightarrow> string" where
  "print_string_ptr str = (case str of None \<Rightarrow> [] | Some s \<Rightarrow> DQUOTE # print_chars s @ [DQUOTE])"

section \<open>Numbers\<close>

text \<open>The text after the number the input starts with.\<close>

definition after_number :: "string \<Rightarrow> string" where
  "after_number s0 =
     (let s1 = (case s0 of c # cs \<Rightarrow> if c = CHR ''-'' then cs else s0 | [] \<Rightarrow> s0);
          s2 = (case s1 of c # cs \<Rightarrow> if c = CHR ''0'' then cs else s1 | [] \<Rightarrow> s1);
          s3 = (case s2 of c # cs \<Rightarrow> if is_digit c \<and> c \<noteq> CHR ''0'' then dropWhile is_digit s2 else s2 | [] \<Rightarrow> s2);
          s4 = (case s3 of c # d # ds \<Rightarrow> if c = CHR ''.'' \<and> is_digit d then dropWhile is_digit (d # ds) else s3 | _ \<Rightarrow> s3)
      in case s4 of
           c # cs \<Rightarrow>
             if c = CHR ''e'' \<or> c = CHR ''E'' then
               dropWhile is_digit (case cs of d # ds \<Rightarrow> if d = CHR ''+'' \<or> d = CHR ''-'' then ds else cs | [] \<Rightarrow> cs)
             else s4
         | [] \<Rightarrow> s4)"

definition parse_number :: "(string \<Rightarrow> 'd) \<Rightarrow> string \<Rightarrow> 'd parsed" where
  "parse_number conv s = Done (conv s) (after_number s)"

section \<open>Values\<close>

text \<open>
  The recursive functions of the parser, each with the calls it makes given as \<open>rec\<close>; the modes name
  the functions and the places of the loops. In \<open>parse_elems\<close> and \<open>parse_members\<close> the items before
  the current place are passed along.
\<close>

datatype 'd mode =
    Value
  | Array
  | Elems "'d json list"
  | Object
  | Member "(string \<times> 'd json) list"
  | Members "(string \<times> 'd json) list"

type_synonym 'd parser = "'d mode \<Rightarrow> string \<Rightarrow> 'd json parsed"

definition parse_value :: "(string \<Rightarrow> 'd) \<Rightarrow> 'd parser \<Rightarrow> string \<Rightarrow> 'd json parsed" where
  "parse_value conv rec s =
     (if take 4 s = ''null'' then Done JNull (drop 4 s)
      else if take 5 s = ''false'' then Done JFalse (drop 5 s)
      else if take 4 s = ''true'' then Done JTrue (drop 4 s)
      else (case s of
          [] \<Rightarrow> Fail s
        | c # cs \<Rightarrow>
            if c = DQUOTE then and_then (parse_string s) (\<lambda>x r. Done (JString x) r)
            else if c = CHR ''-'' \<or> is_digit c then and_then (parse_number conv s) (\<lambda>d r. Done (JNumber d) r)
            else if c = CHR ''['' then rec Array s
            else if c = CHR ''{'' then rec Object s
            else Fail s))"

definition parse_array :: "'d parser \<Rightarrow> string \<Rightarrow> 'd json parsed" where
  "parse_array rec s = (let v = skip (tl s) in
     if v \<noteq> [] \<and> hd v = CHR '']'' then Done (JArray []) (tl v)
     else and_then (rec Value (skip v)) (\<lambda>x r. rec (Elems [x]) (skip r)))"

definition parse_elems :: "'d parser \<Rightarrow> 'd json list \<Rightarrow> string \<Rightarrow> 'd json parsed" where
  "parse_elems rec xs s = (case s of
     [] \<Rightarrow> Fail s
   | c # cs \<Rightarrow>
       if c = CHR '','' then and_then (rec Value (skip cs)) (\<lambda>x r. rec (Elems (xs @ [x])) (skip r))
       else if c = CHR '']'' then Done (JArray xs) cs
       else Fail s)"

definition parse_object :: "'d parser \<Rightarrow> string \<Rightarrow> 'd json parsed" where
  "parse_object rec s = (let v = skip (tl s) in
     if v \<noteq> [] \<and> hd v = CHR ''}'' then Done (JObject []) (tl v)
     else rec (Member []) (skip v))"

definition parse_member :: "'d parser \<Rightarrow> (string \<times> 'd json) list \<Rightarrow> string \<Rightarrow> 'd json parsed" where
  "parse_member rec ms s = and_then (parse_string s) (\<lambda>name r. case skip r of
     [] \<Rightarrow> Fail []
   | c # cs \<Rightarrow>
       if c \<noteq> CHR '':'' then Fail (c # cs)
       else and_then (rec Value (skip cs)) (\<lambda>x r. rec (Members (ms @ [(name, x)])) (skip r)))"

definition parse_members :: "'d parser \<Rightarrow> (string \<times> 'd json) list \<Rightarrow> string \<Rightarrow> 'd json parsed" where
  "parse_members rec ms s = (case s of
     [] \<Rightarrow> Fail s
   | c # cs \<Rightarrow>
       if c = CHR '','' then rec (Member ms) (skip cs)
       else if c = CHR ''}'' then Done (JObject ms) cs
       else Fail s)"

primrec parse :: "(string \<Rightarrow> 'd) \<Rightarrow> nat \<Rightarrow> 'd parser" where
  "parse conv 0 m s = Deep"
| "parse conv (Suc n) m s = (case m of
     Value \<Rightarrow> parse_value conv (parse conv n) s
   | Array \<Rightarrow> parse_array (parse conv n) s
   | Elems xs \<Rightarrow> parse_elems (parse conv n) xs s
   | Object \<Rightarrow> parse_object (parse conv n) s
   | Member ms \<Rightarrow> parse_member (parse conv n) ms s
   | Members ms \<Rightarrow> parse_members (parse conv n) ms s)"

text \<open>The recursion bound is linear in the length of the text; it is enough (see below).\<close>

definition cJSON_Parse :: "(string \<Rightarrow> 'd) \<Rightarrow> string \<Rightarrow> 'd json parsed" where
  "cJSON_Parse conv value = parse conv (3 * length value + 3) Value (skip value)"

text \<open>Printing; \<open>fmt\<close> asks for the layout with line breaks and tabs.\<close>

fun print_value :: "('d \<Rightarrow> string) \<Rightarrow> bool \<Rightarrow> nat \<Rightarrow> 'd json \<Rightarrow> string"
  and print_elems :: "('d \<Rightarrow> string) \<Rightarrow> bool \<Rightarrow> nat \<Rightarrow> 'd json list \<Rightarrow> string"
  and print_members :: "('d \<Rightarrow> string) \<Rightarrow> bool \<Rightarrow> nat \<Rightarrow> (string \<times> 'd json) list \<Rightarrow> string" where
  "print_value pr fmt depth JNull = ''null''"
| "print_value pr fmt depth JFalse = ''false''"
| "print_value pr fmt depth JTrue = ''true''"
| "print_value pr fmt depth (JNumber d) = pr d"
| "print_value pr fmt depth (JString s) = print_string_ptr (Some s)"
| "print_value pr fmt depth (JArray xs) = CHR ''['' # print_elems pr fmt depth xs @ [CHR '']'']"
| "print_value pr fmt depth (JObject ms) =
     CHR ''{'' # (if fmt then [CHR 0x0A] else []) @ print_members pr fmt (depth + 1) ms @
     (if fmt then replicate depth (CHR 0x09) else []) @ [CHR ''}'']"
| "print_elems pr fmt depth [] = []"
| "print_elems pr fmt depth (x # xs) = print_value pr fmt (depth + 1) x @
     (if xs \<noteq> [] then CHR '','' # (if fmt then [CHR '' ''] else []) else []) @ print_elems pr fmt depth xs"
| "print_members pr fmt depth [] = []"
| "print_members pr fmt depth ((name, x) # ms) =
     (if fmt then replicate depth (CHR 0x09) else []) @ print_string_ptr (Some name) @
     CHR '':'' # (if fmt then [CHR 0x09] else []) @ print_value pr fmt depth x @
     (if ms \<noteq> [] then [CHR '','' ] else []) @ (if fmt then [CHR 0x0A] else []) @ print_members pr fmt depth ms"

definition cJSON_Print :: "('d \<Rightarrow> string) \<Rightarrow> 'd json \<Rightarrow> string" where
  "cJSON_Print pr item = print_value pr True 0 item"

definition cJSON_PrintUnformatted :: "('d \<Rightarrow> string) \<Rightarrow> 'd json \<Rightarrow> string" where
  "cJSON_PrintUnformatted pr item = print_value pr False 0 item"

section \<open>The parser ends\<close>

lemma skip_length: "length (skip s) \<le> length s"
  by (simp add: skip_def length_dropWhile_le)

lemma str_copy_length: "length (snd (str_copy s)) \<le> length s"
proof (induction s rule: str_copy.induct)
  case (2 c cs)
  show ?case
  proof (cases "c = DQUOTE \<or> c \<noteq> BACKSLASH \<or> cs = []")
    case True
    then show ?thesis using 2(3) by (auto split: prod.split list.split)
  next
    case False
    then obtain d ds where cs: "cs = d # ds" by (cases cs) auto
    obtain u r where u: "unicode_escape ds = (u, r)" by (cases "unicode_escape ds")
    have "length r \<le> length ds" using unicode_escape_shorter [of ds] u by simp
    then show ?thesis using 2(1) [OF _ _ cs] 2(2) [OF _ _ cs] False cs u
      by (fastforce split: prod.splits if_splits)
  qed
qed simp

lemma parse_string_result:
  "parse_string s \<noteq> Deep" "parse_string s = Done x r \<Longrightarrow> length r < length s"
proof -
  show "parse_string s \<noteq> Deep" by (auto simp: parse_string_def split: list.split option.split prod.split)
  assume d: "parse_string s = Done x r"
  then obtain p where p: "s = DQUOTE # p" by (auto simp: parse_string_def split: list.splits if_splits)
  have "length r \<le> length (snd (str_copy p))"
    using d p by (auto simp: parse_string_def split: list.splits option.splits prod.splits)
  then show "length r < length s" using p str_copy_length [of p] by simp
qed

lemma drop_digits_length: "length (dropWhile is_digit s) \<le> length s"
  by (rule length_dropWhile_le)

lemma parse_number_length:
  assumes "c = CHR ''-'' \<or> is_digit c"
  shows "length (after_number (c # cs)) \<le> length cs"
proof -
  have exp: "length (case s of c # cs \<Rightarrow>
       if c = CHR ''e'' \<or> c = CHR ''E'' then
         dropWhile is_digit (case cs of d # ds \<Rightarrow> if d = CHR ''+'' \<or> d = CHR ''-'' then ds else cs | [] \<Rightarrow> cs)
       else s | [] \<Rightarrow> s) \<le> length s" for s
    by (auto split: list.split intro: le_trans [OF drop_digits_length])
  have frac: "length (case s of c # d # ds \<Rightarrow> if c = CHR ''.'' \<and> is_digit d then dropWhile is_digit (d # ds) else s | _ \<Rightarrow> s)
      \<le> length s" for s
    by (auto split: list.split intro: le_trans [OF drop_digits_length])
  have int: "length (case s of c # cs \<Rightarrow> if is_digit c \<and> c \<noteq> CHR ''0'' then dropWhile is_digit s else s | [] \<Rightarrow> s) \<le> length s" for s
    by (auto split: list.split intro: le_trans [OF drop_digits_length])
  have zero: "length (case s of c # cs \<Rightarrow> if c = CHR ''0'' then cs else s | [] \<Rightarrow> s) \<le> length s" for s :: string
    by (auto split: list.split)
  consider "c = CHR ''-''" | "c = CHR ''0''" | "c \<noteq> CHR ''-''" "c \<noteq> CHR ''0''" "is_digit c" using assms by blast
  then show ?thesis
  proof cases
    case 1
    then show ?thesis unfolding after_number_def Let_def
      by (intro le_trans [OF exp] le_trans [OF frac] le_trans [OF int] le_trans [OF zero]) simp
  next
    case 2
    then show ?thesis unfolding after_number_def Let_def
      by (intro le_trans [OF exp] le_trans [OF frac] le_trans [OF int]) simp
  next
    case 3
    then show ?thesis unfolding after_number_def Let_def
      by (intro le_trans [OF exp] le_trans [OF frac]) (simp add: drop_digits_length)
  qed
qed

text \<open>The recursion each function needs for a text of a given length.\<close>

fun need :: "'d mode \<Rightarrow> nat \<Rightarrow> nat" where
  "need Value l = 3 * l + 3"
| "need Array l = 3 * l + 2"
| "need Object l = 3 * l + 2"
| "need _ l = 3 * l + 1"

lemma and_then_not_Deep: "and_then p f \<noteq> Deep \<longleftrightarrow> p \<noteq> Deep \<and> (\<forall>x r. p = Done x r \<longrightarrow> f x r \<noteq> Deep)"
  by (cases p) auto

lemma and_then_Done: "and_then p f = Done y q \<longleftrightarrow> (\<exists>x r. p = Done x r \<and> f x r = Done y q)"
  by (cases p) auto

lemma parse_ends:
  "need m (length s) \<le> n \<Longrightarrow> (m = Array \<or> m = Object \<longrightarrow> s \<noteq> []) \<Longrightarrow>
   parse conv n m s \<noteq> Deep \<and> (\<forall>x r. parse conv n m s = Done x r \<longrightarrow> length r < length s)"
proof (induction n arbitrary: m s)
  case 0
  then show ?case by (cases m) auto
next
  case (Suc n)
  note IH = Suc.IH
  have val: "parse conv n Value (skip t) \<noteq> Deep \<and>
      (\<forall>x r. parse conv n Value (skip t) = Done x r \<longrightarrow> length (skip r) < length t)" if "3 * length t + 3 \<le> n" for t
    using IH [of Value "skip t"] that skip_length [of t] by (fastforce intro: le_less_trans [OF skip_length])
  show ?case
  proof (cases m)
    case Value
    show ?thesis
    proof (cases s)
      case Nil
      then show ?thesis using Value by (simp add: parse_value_def)
    next
      case (Cons c cs)
      then have "3 * length s + 2 \<le> n" "s \<noteq> []" using Suc.prems Value by auto
      with IH [of Array s] IH [of Object s] Cons Value parse_number_length [of c cs] parse_string_result [of s]
      show ?thesis
        by (auto simp: parse_value_def parse_number_def and_then_not_Deep and_then_Done Let_def le_imp_less_Suc
            split: if_splits)
    qed
  next
    case Array
    have l: "3 * length s + 1 \<le> n" "s \<noteq> []" using Suc.prems Array by auto
    let ?v = "skip (tl s)"
    have v: "length ?v < length s" using l(2) skip_length [of "tl s"] by (cases s) auto
    with l have b: "3 * length ?v + 3 \<le> n" by simp
    have "parse conv n (Elems [x]) (skip r) \<noteq> Deep \<and>
        (\<forall>y q. parse conv n (Elems [x]) (skip r) = Done y q \<longrightarrow> length q < length s)"
      if "parse conv n Value (skip ?v) = Done x r" for x r
      using val [OF b] that IH [of "Elems [x]" "skip r"] v l by fastforce
    then show ?thesis using Array val [OF b] v
      by (auto simp: parse_array_def and_then_not_Deep and_then_Done Let_def)
  next
    case (Elems xs)
    show ?thesis
    proof (cases s)
      case Nil
      then show ?thesis using Elems by (simp add: parse_elems_def)
    next
      case (Cons c cs)
      have b: "3 * length cs + 3 \<le> n" using Suc.prems Elems Cons by simp
      have "parse conv n (Elems (xs @ [x])) (skip r) \<noteq> Deep \<and>
          (\<forall>y q. parse conv n (Elems (xs @ [x])) (skip r) = Done y q \<longrightarrow> length q < length s)"
        if "parse conv n Value (skip cs) = Done x r" for x r
        using val [OF b] that IH [of "Elems (xs @ [x])" "skip r"] b Cons by fastforce
      then show ?thesis using Elems Cons val [OF b]
        by (auto simp: parse_elems_def and_then_not_Deep and_then_Done)
    qed
  next
    case Object
    have l: "3 * length s + 1 \<le> n" "s \<noteq> []" using Suc.prems Object by auto
    let ?v = "skip (tl s)"
    have v: "length ?v < length s" using l(2) skip_length [of "tl s"] by (cases s) auto
    have "length (skip ?v) < length s" using v skip_length [of ?v] by simp
    then show ?thesis using Object v l IH [of "Member []" "skip ?v"]
      by (auto simp: parse_object_def Let_def)
  next
    case (Member ms)
    have "parse conv (Suc n) (Member ms) s \<noteq> Deep \<and> (\<forall>x q. parse conv (Suc n) (Member ms) s = Done x q \<longrightarrow> length q < length s)"
    proof (cases "parse_string s")
      case (Done name r)
      then have r: "length r < length s" by (rule parse_string_result(2))
      show ?thesis
      proof (cases "skip r")
        case (Cons c cs)
        then have cs: "length cs + 1 < length s" using r skip_length [of r] by simp
        then have b: "3 * length cs + 3 \<le> n" using Suc.prems Member by simp
        have "parse conv n (Members (ms @ [(name, x)])) (skip r) \<noteq> Deep \<and>
            (\<forall>y q. parse conv n (Members (ms @ [(name, x)])) (skip r) = Done y q \<longrightarrow> length q < length s)"
          if "parse conv n Value (skip cs) = Done x r" for x r
          using val [OF b] that IH [of "Members (ms @ [(name, x)])" "skip r"] b cs by fastforce
        then show ?thesis using Done Cons val [OF b] by (auto simp: parse_member_def and_then_not_Deep and_then_Done)
      qed (use Done in \<open>simp add: parse_member_def\<close>)
    qed (use parse_string_result(1) in \<open>auto simp: parse_member_def\<close>)
    then show ?thesis using Member by simp
  next
    case (Members ms)
    show ?thesis
    proof (cases s)
      case Nil
      then show ?thesis using Members by (simp add: parse_members_def)
    next
      case (Cons c cs)
      have "parse conv n (Member ms) (skip cs) \<noteq> Deep \<and>
          (\<forall>x r. parse conv n (Member ms) (skip cs) = Done x r \<longrightarrow> length r < length (skip cs))"
        using Members Cons Suc.prems skip_length [of cs] by (intro IH) simp_all
      then show ?thesis using Members Cons skip_length [of cs] by (auto simp: parse_members_def)
    qed
  qed
qed

text \<open>A larger bound does not change a result.\<close>

definition agrees :: "'d parser \<Rightarrow> 'd parser \<Rightarrow> bool" where
  "agrees f g \<longleftrightarrow> (\<forall>m s. f m s \<noteq> Deep \<longrightarrow> g m s = f m s)"

lemma agreesD: "agrees f g \<Longrightarrow> f m s \<noteq> Deep \<Longrightarrow> g m s = f m s"
  by (simp add: agrees_def)

lemma and_then_agrees:
  "agrees f g \<Longrightarrow> and_then (f m s) (\<lambda>x r. f (k x) (skip r)) \<noteq> Deep \<Longrightarrow>
   and_then (g m s) (\<lambda>x r. g (k x) (skip r)) = and_then (f m s) (\<lambda>x r. f (k x) (skip r))"
  using agreesD [of f g m s] by (cases "f m s") (auto dest: agreesD)

lemma parse_step_agrees:
  assumes a: "agrees f g"
  shows "parse_value conv f s \<noteq> Deep \<Longrightarrow> parse_value conv g s = parse_value conv f s"
    and "parse_array f s \<noteq> Deep \<Longrightarrow> parse_array g s = parse_array f s"
    and "parse_elems f xs s \<noteq> Deep \<Longrightarrow> parse_elems g xs s = parse_elems f xs s"
    and "parse_object f s \<noteq> Deep \<Longrightarrow> parse_object g s = parse_object f s"
    and "parse_member f ms s \<noteq> Deep \<Longrightarrow> parse_member g ms s = parse_member f ms s"
    and "parse_members f ms s \<noteq> Deep \<Longrightarrow> parse_members g ms s = parse_members f ms s"
proof -
  note t = agreesD [OF a] and_then_agrees [OF a]
  show "parse_value conv f s \<noteq> Deep \<Longrightarrow> parse_value conv g s = parse_value conv f s"
    by (auto simp: parse_value_def t split: list.splits if_splits)
  show "parse_array f s \<noteq> Deep \<Longrightarrow> parse_array g s = parse_array f s"
    using t(2) [where m = Value and k = "\<lambda>x. Elems [x]"] by (auto simp: parse_array_def Let_def)
  show "parse_elems f xs s \<noteq> Deep \<Longrightarrow> parse_elems g xs s = parse_elems f xs s"
    using t(2) [where m = Value and k = "\<lambda>x. Elems (xs @ [x])"] by (auto simp: parse_elems_def split: list.splits)
  show "parse_object f s \<noteq> Deep \<Longrightarrow> parse_object g s = parse_object f s"
    by (auto simp: parse_object_def t Let_def)
  show "parse_member f ms s \<noteq> Deep \<Longrightarrow> parse_member g ms s = parse_member f ms s"
    using t(2) [where m = Value and k = "\<lambda>x. Members (ms @ [(_, x)])"]
    by (cases "parse_string s") (auto simp: parse_member_def split: list.splits)
  show "parse_members f ms s \<noteq> Deep \<Longrightarrow> parse_members g ms s = parse_members f ms s"
    by (auto simp: parse_members_def t split: list.splits)
qed

lemma parse_mono:
  "n \<le> n' \<Longrightarrow> agrees (parse conv n) (parse conv n')"
proof (induction n arbitrary: n')
  case 0
  then show ?case by (simp add: agrees_def)
next
  case (Suc n)
  then obtain k where k: "n' = Suc k" "n \<le> k" by (cases n') auto
  from parse_step_agrees [OF Suc.IH [OF k(2)]] show ?case
    unfolding agrees_def k(1) by (auto split: mode.splits)
qed

lemma cJSON_Parse_ends: "cJSON_Parse conv s \<noteq> Deep"
  using parse_ends [of Value "skip s" "3 * length s + 3" conv] skip_length [of s] by (simp add: cJSON_Parse_def)

section \<open>Reading back printed text\<close>

lemma hex_val_digit: "k < 16 \<Longrightarrow> hex_val (hex_digit k) = Some k"
  by (auto simp: hex_val_def hex_digit_def Let_def)

lemma scan_hex4:
  assumes "(of_char c :: nat) < 32"
  shows "scan_unicode (hex4 c @ r) = Some (of_nat (of_char c))"
proof -
  have "(of_char c :: nat) div 16 < 16" "(of_char c :: nat) mod 16 < 16" using assms by auto
  moreover have "hex_val (CHR ''0'') = Some 0" by (simp add: hex_val_def)
  ultimately show ?thesis by (simp add: hex4_def Let_def hex_val_digit)
qed

lemma utf8_ascii:
  assumes "n < 128"
  shows "utf8 (of_nat n) = [char_of n]"
proof -
  have m: "(0xFF :: 32 word) = mask 8" by (simp add: mask_eq_exp_minus_1)
  have "unat ((of_nat n :: 32 word) AND 0xFF) = n"
    unfolding m using assms
    by (simp add: take_bit_eq_mask [symmetric] unsigned_take_bit_eq unat_of_nat take_bit_nat_eq_self)
  then have "byte_char (of_nat n) = char_of n" by (simp add: byte_char_def)
  moreover have "(of_nat n :: 32 word) < 0x80"
    using assms by (simp add: word_less_nat_alt unat_of_nat)
  ultimately show ?thesis by (simp add: utf8_def)
qed

lemma unicode_escape_hex4:
  assumes "(of_char c :: nat) < 32" "c \<noteq> CHR 0x00"
  shows "unicode_escape (hex4 c @ r) = ([c], r)"
proof -
  let ?n = "of_char c :: nat"
  have "char_of (0 :: nat) = CHR 0x00" by (simp add: char_of_def)
  then have n: "?n \<noteq> 0" using assms(2) by (metis char_of_char)
  have "(of_nat ?n :: 32 word) \<noteq> 0" using assms(1) n by (simp add: unat_of_nat flip: unat_eq_zero)
  moreover have "(of_nat ?n :: 32 word) < 32" using assms(1) by (simp add: word_less_nat_alt unat_of_nat)
  then have "\<not> (0xDC00 :: 32 word) \<le> of_nat ?n" "\<not> (0xD800 :: 32 word) \<le> of_nat ?n"
    by (simp_all add: word_le_nat_alt word_less_nat_alt)
  moreover have "drop 4 (hex4 c @ r) = r" by (simp add: hex4_def Let_def)
  moreover have "utf8 (of_nat ?n) = [c]" using utf8_ascii [of ?n] assms(1) by simp
  ultimately show ?thesis using scan_hex4 [OF assms(1), of r] by (simp add: unicode_escape_def Let_def)
qed

lemma short_escape_ok:
  "short_escape c = Some e \<Longrightarrow> escape_char e = c \<and> e \<noteq> CHR ''u''"
  by (auto simp: short_escape_def escape_char_def split: if_splits)

lemma short_escape_None: "short_escape c = None \<Longrightarrow> \<not> is_plain c \<Longrightarrow> (of_char c :: nat) < 32"
  by (auto simp: short_escape_def is_plain_def split: if_splits)

lemma hex4_room: "str_room (hex4 c @ r) = map_option (\<lambda>n. Suc (Suc (Suc (Suc n)))) (str_room r)" if "(of_char c :: nat) < 32"
proof -
  have "hex_digit k \<noteq> DQUOTE \<and> hex_digit k \<noteq> BACKSLASH" if "k < 16" for k
    using hex_val_digit [OF that] by (auto simp: hex_val_def)
  then show ?thesis using that by (auto simp: hex4_def Let_def option.map_comp comp_def)
qed

lemma print_chars_read:
  assumes "CHR 0x00 \<notin> set s"
  shows "str_room (print_chars s @ DQUOTE # r) \<noteq> None \<and> str_copy (print_chars s @ DQUOTE # r) = (s, DQUOTE # r)"
  using assms
proof (induction s)
  case (Cons c s)
  then have IH: "str_room (print_chars s @ DQUOTE # r) \<noteq> None" "str_copy (print_chars s @ DQUOTE # r) = (s, DQUOTE # r)"
    by auto
  consider "is_plain c" | e where "\<not> is_plain c" "short_escape c = Some e" | "\<not> is_plain c" "short_escape c = None"
    by (cases "short_escape c") auto
  then show ?case
  proof cases
    case 1
    then show ?thesis using IH by (auto simp: is_plain_def)
  next
    case 2
    then show ?thesis using IH short_escape_ok [OF 2(2)] by auto
  next
    case 3
    have c: "(of_char c :: nat) < 32" by (rule short_escape_None [OF 3(2,1)])
    have "c \<noteq> CHR 0x00" using Cons.prems by auto
    with c 3 IH show ?thesis by (auto simp: hex4_room unicode_escape_hex4)
  qed
qed simp

lemma parse_string_print:
  "CHR 0x00 \<notin> set s \<Longrightarrow> parse_string (print_string_ptr (Some s) @ r) = Done s r"
  using print_chars_read [of s r] by (auto simp: parse_string_def print_string_ptr_def)

text \<open>
  An item that can be printed: strings and names are C strings, and the text of every number is a
  number of the grammar that \<open>conv\<close> reads back in front of whatever can follow a value.
\<close>

definition delim :: "string \<Rightarrow> bool" where
  "delim r \<longleftrightarrow> r = [] \<or> hd r \<in> set '',]}'' \<or> is_ws (hd r)"

definition num_ok :: "(string \<Rightarrow> 'd) \<Rightarrow> ('d \<Rightarrow> string) \<Rightarrow> 'd \<Rightarrow> bool" where
  "num_ok conv pr d \<longleftrightarrow>
     (\<exists>c cs. pr d = c # cs \<and> (c = CHR ''-'' \<or> is_digit c)) \<and>
     (\<forall>r. delim r \<longrightarrow> conv (pr d @ r) = d \<and> after_number (pr d @ r) = r)"

fun good :: "('d \<Rightarrow> bool) \<Rightarrow> 'd json \<Rightarrow> bool" where
  "good ok (JNumber d) = ok d"
| "good ok (JString s) = (CHR 0x00 \<notin> set s)"
| "good ok (JArray xs) = (\<forall>x\<in>set xs. good ok x)"
| "good ok (JObject ms) = (\<forall>m\<in>set ms. CHR 0x00 \<notin> set (fst m) \<and> good ok (snd m))"
| "good ok _ = True"

lemma print_value_hd:
  assumes "good (num_ok conv pr) j"
  shows "\<exists>c cs. print_value pr fmt depth j = c # cs \<and> \<not> is_ws c \<and> c \<noteq> CHR '']''"
  using assms
  by (cases j) (auto simp: print_string_ptr_def num_ok_def is_digit_def)

lemma skip_id: "\<not> is_ws c \<Longrightarrow> skip (c # cs) = c # cs"
  by (simp add: skip_def)

lemma skip_print: "good (num_ok conv pr) j \<Longrightarrow> skip (print_value pr fmt depth j @ r) = print_value pr fmt depth j @ r"
  using print_value_hd [of conv pr j fmt depth] by (auto simp: skip_id)

lemma skip_ws: "list_all is_ws w \<Longrightarrow> skip (w @ r) = skip r"
  by (induction w) (auto simp: skip_def)

text \<open>What follows a value inside an array or object.\<close>

definition elems_tail :: "('d \<Rightarrow> string) \<Rightarrow> bool \<Rightarrow> nat \<Rightarrow> 'd json list \<Rightarrow> string" where
  "elems_tail pr fmt depth xs = (if xs \<noteq> [] then CHR '','' # (if fmt then [CHR '' ''] else []) else []) @
     print_elems pr fmt depth xs"

definition members_tail :: "('d \<Rightarrow> string) \<Rightarrow> bool \<Rightarrow> nat \<Rightarrow> (string \<times> 'd json) list \<Rightarrow> string" where
  "members_tail pr fmt depth ms = (if ms \<noteq> [] then [CHR '','' ] else []) @ (if fmt then [CHR 0x0A] else []) @
     print_members pr fmt depth ms"

definition close_brace :: "bool \<Rightarrow> nat \<Rightarrow> string" where
  "close_brace fmt k = (if fmt then replicate k (CHR 0x09) else []) @ [CHR ''}'']"

lemma skip_close: "skip (close_brace fmt k @ r) = CHR ''}'' # r"
  by (auto simp: close_brace_def skip_ws skip_id list_all_iff)

lemma skip_members_tail_Nil: "skip (members_tail pr fmt depth [] @ close_brace fmt k @ r) = CHR ''}'' # r"
  using skip_ws [of "[CHR 0x0A]" "close_brace fmt k @ r"] skip_close [of fmt k r]
  by (auto simp: members_tail_def)

lemma delim_tails [simp]:
  "delim (elems_tail pr fmt depth xs @ CHR '']'' # r)"
  "delim (members_tail pr fmt depth ms @ close_brace fmt k @ r)"
  by (auto simp: delim_def elems_tail_def members_tail_def close_brace_def hd_append)

abbreviation eventually_parses :: "(string \<Rightarrow> 'd) \<Rightarrow> 'd mode \<Rightarrow> string \<Rightarrow> 'd json \<Rightarrow> string \<Rightarrow> bool" where
  "eventually_parses conv m s j r \<equiv> \<exists>n0. \<forall>n\<ge>n0. parse conv n m s = Done j r"

lemma eventually_step:
  assumes "\<exists>n0. \<forall>n\<ge>n0. parse conv (Suc n) m s = Done j r"
  shows "eventually_parses conv m s j r"
proof -
  from assms obtain n0 where n0: "\<forall>n\<ge>n0. parse conv (Suc n) m s = Done j r" by blast
  have "parse conv n m s = Done j r" if "Suc n0 \<le> n" for n
    using n0 that by (cases n) auto
  then show ?thesis by blast
qed

text \<open>A value followed by something else.\<close>

lemma eventually_then:
  assumes "eventually_parses conv m s x r" "eventually_parses conv (k x) (skip r) j q"
  shows "\<exists>n0. \<forall>n\<ge>n0. and_then (parse conv n m s) (\<lambda>x r. parse conv n (k x) (skip r)) = Done j q"
proof -
  from assms obtain a b where "\<forall>n\<ge>a. parse conv n m s = Done x r" "\<forall>n\<ge>b. parse conv n (k x) (skip r) = Done j q"
    by blast
  then show ?thesis by (intro exI [of _ "max a b"]) simp
qed

lemma print_elems_Cons: "print_elems pr fmt depth (x # xs) = print_value pr fmt (depth + 1) x @ elems_tail pr fmt depth xs"
  by (simp add: elems_tail_def)

lemma print_members_Cons:
  "print_members pr fmt depth ((name, x) # ms) =
     (if fmt then replicate depth (CHR 0x09) else []) @ print_string_ptr (Some name) @
     CHR '':'' # (if fmt then [CHR 0x09] else []) @ print_value pr fmt depth x @ members_tail pr fmt depth ms"
  by (simp add: members_tail_def)

text \<open>The text of a member up to the end of the object.\<close>

lemma member_step:
  assumes "CHR 0x00 \<notin> set name" "good (num_ok conv pr) x"
    and "\<And>r. delim r \<Longrightarrow> eventually_parses conv Value (print_value pr fmt depth x @ r) x r"
    and "eventually_parses conv (Members (ms @ [(name, x)])) (skip (members_tail pr fmt depth rest @ close_brace fmt k @ r)) j q"
  shows "eventually_parses conv (Member ms)
     (print_string_ptr (Some name) @ CHR '':'' # (if fmt then [CHR 0x09] else []) @ print_value pr fmt depth x @
      members_tail pr fmt depth rest @ close_brace fmt k @ r) j q"
proof -
  let ?t = "members_tail pr fmt depth rest @ close_brace fmt k @ r"
  let ?v = "print_value pr fmt depth x @ ?t"
  have "skip ((if fmt then [CHR 0x09] else []) @ ?v) = ?v"
    using skip_ws [of "[CHR 0x09]" ?v] skip_print [OF assms(2), of fmt depth ?t] by (cases fmt) simp_all
  then have "parse conv (Suc n) (Member ms) (print_string_ptr (Some name) @ CHR '':'' #
      (if fmt then [CHR 0x09] else []) @ ?v) =
      and_then (parse conv n Value ?v) (\<lambda>x r. parse conv n (Members (ms @ [(name, x)])) (skip r))" for n
    using parse_string_print [OF assms(1)] by (simp add: parse_member_def skip_id)
  then show ?thesis
    using eventually_then [OF assms(3), of ?t "\<lambda>x. Members (ms @ [(name, x)])" j q] assms(4)
    by (intro eventually_step) simp
qed

lemma print_members_skip:
  "ms \<noteq> [] \<Longrightarrow> \<exists>cs. skip (print_members pr fmt depth ms @ r) = DQUOTE # cs"
  by (cases ms) (auto simp: print_members_Cons print_string_ptr_def skip_ws skip_id list_all_iff)

lemma skip_skip [simp]: "skip (skip s) = skip s"
proof (cases "skip s")
  case (Cons c cs)
  then have "\<not> is_ws c" by (metis hd_dropWhile list.sel(1) list.distinct(1) skip_def)
  then show ?thesis using Cons by (simp add: skip_id)
qed (simp add: skip_def)

definition value_rt :: "(string \<Rightarrow> 'd) \<Rightarrow> ('d \<Rightarrow> string) \<Rightarrow> bool \<Rightarrow> nat \<Rightarrow> 'd json \<Rightarrow> bool" where
  "value_rt conv pr fmt depth j \<longleftrightarrow> (good (num_ok conv pr) j \<longrightarrow>
     (\<forall>r. delim r \<longrightarrow> eventually_parses conv Value (print_value pr fmt depth j @ r) j r))"

definition elems_rt :: "(string \<Rightarrow> 'd) \<Rightarrow> ('d \<Rightarrow> string) \<Rightarrow> bool \<Rightarrow> nat \<Rightarrow> 'd json list \<Rightarrow> bool" where
  "elems_rt conv pr fmt depth xs \<longleftrightarrow> ((\<forall>x\<in>set xs. good (num_ok conv pr) x) \<longrightarrow> (\<forall>ys r.
     eventually_parses conv (Elems ys) (elems_tail pr fmt depth xs @ CHR '']'' # r) (JArray (ys @ xs)) r \<and>
     (xs \<noteq> [] \<longrightarrow> (\<exists>n0. \<forall>n\<ge>n0. and_then (parse conv n Value (print_elems pr fmt depth xs @ CHR '']'' # r))
        (\<lambda>x r. parse conv n (Elems (ys @ [x])) (skip r)) = Done (JArray (ys @ xs)) r))))"

definition members_rt :: "(string \<Rightarrow> 'd) \<Rightarrow> ('d \<Rightarrow> string) \<Rightarrow> bool \<Rightarrow> nat \<Rightarrow> (string \<times> 'd json) list \<Rightarrow> bool" where
  "members_rt conv pr fmt depth ms \<longleftrightarrow> ((\<forall>m\<in>set ms. CHR 0x00 \<notin> set (fst m) \<and> good (num_ok conv pr) (snd m)) \<longrightarrow>
     (\<forall>ns k r. eventually_parses conv (Members ns) (skip (members_tail pr fmt depth ms @ close_brace fmt k @ r))
          (JObject (ns @ ms)) r \<and>
        (ms \<noteq> [] \<longrightarrow> eventually_parses conv (Member ns) (skip (print_members pr fmt depth ms @ close_brace fmt k @ r))
          (JObject (ns @ ms)) r)))"

lemma elems_rt_Cons:
  assumes "value_rt conv pr fmt (depth + 1) x" "elems_rt conv pr fmt depth xs"
  shows "elems_rt conv pr fmt depth (x # xs)"
  unfolding elems_rt_def
proof (intro impI allI)
  fix ys r
  assume g: "\<forall>x\<in>set (x # xs). good (num_ok conv pr) x"
  let ?e = "CHR '']'' # r"
  let ?p = "print_elems pr fmt depth (x # xs) @ ?e"
  have p: "?p = print_value pr fmt (depth + 1) x @ elems_tail pr fmt depth xs @ ?e" by (simp only: print_elems_Cons append_assoc)
  have "eventually_parses conv Value ?p x (elems_tail pr fmt depth xs @ ?e)"
    unfolding p using assms(1) g by (simp add: value_rt_def)
  moreover have "skip (elems_tail pr fmt depth xs @ ?e) = elems_tail pr fmt depth xs @ ?e"
    by (cases xs) (simp_all add: elems_tail_def skip_id)
  then have "eventually_parses conv (Elems (ys @ [x])) (skip (elems_tail pr fmt depth xs @ ?e)) (JArray (ys @ x # xs)) r"
    using assms(2) g unfolding elems_rt_def by (metis append.assoc append_Cons append_Nil list.set_intros(2))
  ultimately have first: "\<exists>n0. \<forall>n\<ge>n0. and_then (parse conv n Value ?p)
        (\<lambda>x r. parse conv n (Elems (ys @ [x])) (skip r)) = Done (JArray (ys @ x # xs)) r"
    by (rule eventually_then)
  have "skip ?p = ?p"
    unfolding p using skip_print [of conv pr x fmt "depth + 1" "elems_tail pr fmt depth xs @ ?e"] g by simp
  then have "skip ((if fmt then [CHR '' ''] else []) @ ?p) = ?p"
    using skip_ws [of "[CHR '' '']" ?p] by (cases fmt) (simp_all del: print_elems.simps)
  then have "parse conv (Suc n) (Elems ys) (elems_tail pr fmt depth (x # xs) @ ?e) =
      and_then (parse conv n Value ?p) (\<lambda>x r. parse conv n (Elems (ys @ [x])) (skip r))" for n
    by (simp add: elems_tail_def parse_elems_def del: print_elems.simps)
  then have "eventually_parses conv (Elems ys) (elems_tail pr fmt depth (x # xs) @ ?e) (JArray (ys @ x # xs)) r"
    using first by (intro eventually_step) simp
  with first show "eventually_parses conv (Elems ys) (elems_tail pr fmt depth (x # xs) @ ?e) (JArray (ys @ x # xs)) r \<and>
     (x # xs \<noteq> [] \<longrightarrow> (\<exists>n0. \<forall>n\<ge>n0. and_then (parse conv n Value ?p)
        (\<lambda>x r. parse conv n (Elems (ys @ [x])) (skip r)) = Done (JArray (ys @ x # xs)) r))" by blast
qed

lemma members_rt_Cons:
  assumes "value_rt conv pr fmt depth x" "members_rt conv pr fmt depth ms"
  shows "members_rt conv pr fmt depth ((name, x) # ms)"
  unfolding members_rt_def
proof (intro impI allI)
  fix ns k r
  let ?ms = "(name, x) # ms"
  assume g: "\<forall>m\<in>set ?ms. CHR 0x00 \<notin> set (fst m) \<and> good (num_ok conv pr) (snd m)"
  let ?c = "close_brace fmt k @ r"
  let ?s = "print_string_ptr (Some name) @ CHR '':'' # (if fmt then [CHR 0x09] else []) @ print_value pr fmt depth x @
      members_tail pr fmt depth ms @ ?c"
  have s: "skip (print_members pr fmt depth ?ms @ ?c) = ?s"
    by (auto simp: print_members_Cons skip_ws list_all_iff print_string_ptr_def skip_id simp del: print_members.simps)
  have "eventually_parses conv (Members (ns @ [(name, x)])) (skip (members_tail pr fmt depth ms @ ?c)) (JObject (ns @ ?ms)) r"
    using assms(2) g unfolding members_rt_def by (metis append.assoc append_Cons append_Nil list.set_intros(2))
  then have first: "eventually_parses conv (Member ns) ?s (JObject (ns @ ?ms)) r"
    using g assms(1) by (intro member_step) (auto simp: value_rt_def)
  have "skip ((if fmt then [CHR 0x0A] else []) @ print_members pr fmt depth ?ms @ ?c) = ?s"
    using skip_ws [of "[CHR 0x0A]" "print_members pr fmt depth ?ms @ ?c"] s by (cases fmt) simp_all
  then have "parse conv (Suc n) (Members ns) (skip (members_tail pr fmt depth ?ms @ ?c)) = parse conv n (Member ns) ?s" for n
    by (simp add: members_tail_def parse_members_def skip_id del: print_members.simps)
  then have "eventually_parses conv (Members ns) (skip (members_tail pr fmt depth ?ms @ ?c)) (JObject (ns @ ?ms)) r"
    using first by (intro eventually_step) simp
  with first s show "eventually_parses conv (Members ns) (skip (members_tail pr fmt depth ?ms @ ?c)) (JObject (ns @ ?ms)) r \<and>
     (?ms \<noteq> [] \<longrightarrow> eventually_parses conv (Member ns) (skip (print_members pr fmt depth ?ms @ ?c)) (JObject (ns @ ?ms)) r)"
    by simp
qed

lemma print_parse_rt:
  shows "value_rt conv pr fmt depth j" "elems_rt conv pr fmt depth xs" "members_rt conv pr fmt depth ms"
proof (induction pr fmt depth j and pr fmt depth xs and pr fmt depth ms
    rule: print_value_print_elems_print_members.induct)
  case (4 pr fmt depth d)
  show ?case unfolding value_rt_def
  proof (intro impI allI)
    fix r assume g: "good (num_ok conv pr) (JNumber d)" and r: "delim r"
    then obtain c cs where c: "pr d = c # cs" "c = CHR ''-'' \<or> is_digit c" by (auto simp: num_ok_def)
    have "after_number (pr d @ r) = r" "conv (pr d @ r) = d"
      using g r unfolding good.simps num_ok_def by blast+
    then have "parse_value conv f (pr d @ r) = Done (JNumber d) r" for f
      using c by (auto simp: parse_value_def parse_number_def is_digit_def)
    then show "eventually_parses conv Value (print_value pr fmt depth (JNumber d) @ r) (JNumber d) r"
      by (intro eventually_step) simp
  qed
next
  case (5 pr fmt depth s)
  show ?case unfolding value_rt_def
  proof (intro impI allI)
    fix r assume "good (num_ok conv pr) (JString s)"
    then have "parse_value conv f (print_string_ptr (Some s) @ r) = Done (JString s) r" for f
      using parse_string_print [of s r] by (simp add: parse_value_def print_string_ptr_def)
    then show "eventually_parses conv Value (print_value pr fmt depth (JString s) @ r) (JString s) r"
      by (intro eventually_step) simp
  qed
next
  case (6 pr fmt depth xs)
  show ?case unfolding value_rt_def
  proof (intro impI allI)
    fix r assume g: "good (num_ok conv pr) (JArray xs)"
    show "eventually_parses conv Value (print_value pr fmt depth (JArray xs) @ r) (JArray xs) r"
    proof (cases xs)
      case Nil
      have "\<forall>n\<ge>1. parse conv (Suc n) Value (print_value pr fmt depth (JArray xs) @ r) = Done (JArray xs) r"
        using Nil by (auto simp: parse_value_def parse_array_def skip_id is_digit_def gr0_conv_Suc Suc_le_eq)
      then show ?thesis by (intro eventually_step) blast
    next
      case (Cons x ys)
      let ?t = "print_elems pr fmt depth xs @ CHR '']'' # r"
      have f: "\<exists>n0. \<forall>n\<ge>n0. and_then (parse conv n Value ?t) (\<lambda>x r. parse conv n (Elems ([] @ [x])) (skip r)) =
          Done (JArray xs) r"
        using 6 g Cons unfolding elems_rt_def by (metis append_Nil good.simps(3) list.distinct(1))
      obtain c cs where c: "?t = c # cs" "\<not> is_ws c" "c \<noteq> CHR '']''"
        using print_value_hd [of conv pr x fmt "depth + 1"] g Cons by auto
      then have s: "skip ?t = ?t" by (simp add: skip_id)
      have "parse conv (Suc n) Array (CHR ''['' # ?t) =
          and_then (parse conv n Value ?t) (\<lambda>x r. parse conv n (Elems ([] @ [x])) (skip r))" for n
        unfolding parse.simps mode.case parse_array_def list.sel s Let_def using c by (simp add: skip_id)
      then have "eventually_parses conv Array (CHR ''['' # ?t) (JArray xs) r" using f by (intro eventually_step) simp
      moreover have "parse conv (Suc n) Value (CHR ''['' # ?t) = parse conv n Array (CHR ''['' # ?t)" for n
        by (simp add: parse_value_def is_digit_def)
      ultimately have "eventually_parses conv Value (CHR ''['' # ?t) (JArray xs) r" by (intro eventually_step) simp
      then show ?thesis by simp
    qed
  qed
next
  case (7 pr fmt depth ms)
  show ?case unfolding value_rt_def
  proof (intro impI allI)
    fix r assume g: "good (num_ok conv pr) (JObject ms)"
    let ?nl = "if fmt then [CHR 0x0A] else []"
    let ?t = "print_members pr fmt (depth + 1) ms @ close_brace fmt depth @ r"
    have tx: "print_value pr fmt depth (JObject ms) @ r = CHR ''{'' # ?nl @ ?t" by (simp add: close_brace_def)
    have v: "skip (?nl @ ?t) = skip ?t" using skip_ws [of "[CHR 0x0A]" ?t] by (cases fmt) simp_all
    have "parse conv (Suc n) Value (CHR ''{'' # ?nl @ ?t) = parse conv n Object (CHR ''{'' # ?nl @ ?t)" for n
      by (simp add: parse_value_def is_digit_def)
    moreover have "eventually_parses conv Object (CHR ''{'' # ?nl @ ?t) (JObject ms) r"
    proof (cases "ms = []")
      case True
      then have "parse conv (Suc n) Object (CHR ''{'' # ?nl @ ?t) = Done (JObject ms) r" for n
        using v by (simp add: parse_object_def skip_close)
      then show ?thesis by (intro eventually_step) simp
    next
      case False
      then obtain cs where cs: "skip ?t = DQUOTE # cs" using print_members_skip by blast
      have "parse conv (Suc n) Object (CHR ''{'' # ?nl @ ?t) = parse conv n (Member []) (skip ?t)" for n
        unfolding parse.simps mode.case parse_object_def list.sel v Let_def using cs by (simp add: skip_id)
      moreover have "eventually_parses conv (Member []) (skip ?t) (JObject ([] @ ms)) r"
        using 7 g False unfolding members_rt_def by (metis good.simps(4))
      ultimately show ?thesis by (intro eventually_step) simp
    qed
    ultimately have "eventually_parses conv Value (CHR ''{'' # ?nl @ ?t) (JObject ms) r" by (intro eventually_step) simp
    then show "eventually_parses conv Value (print_value pr fmt depth (JObject ms) @ r) (JObject ms) r"
      unfolding tx .
  qed
next
  case (8 pr fmt depth)
  have "parse conv (Suc n) (Elems ys) (CHR '']'' # r) = Done (JArray ys) r" for n ys r
    by (simp add: parse_elems_def)
  then show ?case unfolding elems_rt_def by (auto simp: elems_tail_def intro!: eventually_step)
next
  case (9 pr fmt depth x xs)
  then show ?case by (intro elems_rt_Cons)
next
  case (10 pr fmt depth)
  have "parse conv (Suc n) (Members ns) (CHR ''}'' # r) = Done (JObject ns) r" for n ns r
    by (simp add: parse_members_def)
  then show ?case unfolding members_rt_def by (auto simp: skip_members_tail_Nil intro!: eventually_step)
next
  case (11 pr fmt depth name x ms)
  then show ?case by (intro members_rt_Cons)
qed (auto simp: value_rt_def parse_value_def intro!: eventually_step)

section \<open>Buffers\<close>

lemma utf8_length: "length (utf8 uc) \<le> 4" "length (utf8 uc) = (if uc < 0x80 then 1 else if uc < 0x800 then 2 else if uc < 0x10000 then 3 else 4)"
  by (auto simp: utf8_def Let_def)

lemma scan_unicode_Some:
  "scan_unicode s = Some uc \<Longrightarrow> \<exists>a b c d r. s = a # b # c # d # r \<and> (\<forall>x\<in>{a, b, c, d}. hex_val x \<noteq> None)"
  by (induction s rule: scan_unicode.induct) (auto split: option.splits)

lemma hex_room:
  assumes "scan_unicode s = Some uc"
  shows "str_room s = map_option (\<lambda>n. 4 + n) (str_room (drop 4 s))"
proof -
  from scan_unicode_Some [OF assms] obtain a b c d r where s: "s = a # b # c # d # r" "\<forall>x\<in>{a, b, c, d}. hex_val x \<noteq> None"
    by blast
  have "x \<noteq> DQUOTE \<and> x \<noteq> BACKSLASH" if "hex_val x \<noteq> None" for x using that by (auto simp: hex_val_def)
  then show ?thesis using s by (cases "str_room r") auto
qed

text \<open>An escape writes no more bytes than the first loop counted for its text.\<close>

lemma unicode_escape_room:
  assumes "str_room s = Some k" "unicode_escape s = (u, r)"
  shows "\<exists>k'. str_room r = Some k' \<and> length u + k' \<le> Suc k"
proof (cases "scan_unicode s")
  case None
  then show ?thesis using assms by (auto simp: unicode_escape_def)
next
  case (Some uc)
  let ?r = "drop 4 s"
  obtain k1 where k1: "str_room ?r = Some k1" "k = 4 + k1" using hex_room [OF Some] assms(1)
    by (cases "str_room ?r") auto
  note d = assms(2) [unfolded unicode_escape_def Some option.case Let_def]
  consider "u = []" "r = ?r" | "u = utf8 uc" "r = ?r"
    | uc2 where "take 2 ?r = [BACKSLASH, CHR ''u'']" "scan_unicode (drop 2 ?r) = Some uc2" "r = drop 6 ?r" "length u \<le> 4"
    using d by (auto split: if_splits option.splits simp: utf8_length(1))
  then show ?thesis
  proof cases
    case 2
    have "length (utf8 uc) \<le> 4" by (rule utf8_length(1))
    then show ?thesis using 2 k1 by simp
  next
    case 3
    then obtain t where t: "?r = BACKSLASH # CHR ''u'' # t"
      by (cases ?r; cases "tl ?r") (auto simp: numeral_2_eq_2)
    have "str_room t = map_option (\<lambda>n. 4 + n) (str_room (drop 4 t))"
      using 3(2) t by (intro hex_room [of t uc2]) simp
    moreover have "drop 6 (BACKSLASH # CHR ''u'' # t) = drop 4 t" by (simp add: numeral_eq_Suc)
    then have "r = drop 4 t" by (simp only: 3(3) t)
    ultimately show ?thesis using k1 t 3(4) by auto
  qed (use k1 in simp)
qed

lemma str_copy_room: "str_room s = Some k \<Longrightarrow> length (fst (str_copy s)) \<le> k"
proof (induction s arbitrary: k rule: str_copy.induct)
  case (2 c cs)
  consider "c = DQUOTE" | "c \<noteq> DQUOTE" "c \<noteq> BACKSLASH" | "c = BACKSLASH" by blast
  then show ?case
  proof cases
    case 2
    then show ?thesis using "2.IH"(3) "2.prems" by (auto split: prod.split)
  next
    case 3
    then obtain d ds where cs: "cs = d # ds" using "2.prems" by (cases cs) auto
    show ?thesis
    proof (cases "d = CHR ''u''")
      case True
      obtain u r where u: "unicode_escape ds = (u, r)" by (cases "unicode_escape ds")
      obtain k0 where k0: "str_room ds = Some k0" "k = Suc k0" using "2.prems" 3 cs by auto
      from unicode_escape_room [OF k0(1) u] obtain k' where k': "str_room r = Some k'" "length u + k' \<le> Suc k0" by blast
      have "length (fst (str_copy r)) \<le> k'" using "2.IH"(1) [OF _ 3 cs True u [symmetric] refl] k' 3 by simp
      then show ?thesis using 3 cs True u k' k0 by (auto split: prod.split)
    next
      case False
      then show ?thesis using "2.IH"(2) [OF _ 3 cs False] "2.prems" 3 cs by (auto split: prod.split)
    qed
  qed simp
qed simp

lemma print_chars_length: "length (print_chars s) = print_len s"
  by (induction s) (auto simp: is_plain_def short_escape_def hex4_def Let_def)

section \<open>Properties\<close>

text \<open>Parsing a printed item gives the item back and leaves what follows it.\<close>

lemma json_roundtrip_text:
  assumes g: "good (num_ok conv pr) j" and r: "delim r"
  shows "cJSON_Parse conv (print_value pr fmt 0 j @ r) = Done j r"
proof -
  let ?s = "print_value pr fmt 0 j @ r"
  have s: "skip ?s = ?s" by (rule skip_print [OF g])
  have "eventually_parses conv Value ?s j r"
    using print_parse_rt(1) [of conv pr fmt 0 j] g r by (simp add: value_rt_def)
  then obtain n0 where "\<forall>n\<ge>n0. parse conv n Value ?s = Done j r" by blast
  then have "parse conv (max n0 (3 * length ?s + 3)) Value ?s = Done j r" by simp
  moreover have "parse conv (3 * length ?s + 3) Value ?s \<noteq> Deep"
    using cJSON_Parse_ends [of conv ?s] unfolding cJSON_Parse_def s .
  moreover have "agrees (parse conv (3 * length ?s + 3)) (parse conv (max n0 (3 * length ?s + 3)))"
    by (rule parse_mono) simp
  ultimately show ?thesis unfolding cJSON_Parse_def s agrees_def by metis
qed

text \<open>C26. The parser ends on every text within the recursion bound (which is linear in the length of
  the text), and what it leaves is shorter than the text.\<close>

theorem json_parse_ends:
  "case cJSON_Parse conv s of Deep \<Rightarrow> False | Done x r \<Rightarrow> length r < length s | _ \<Rightarrow> True"
  using parse_ends [of Value "skip s" "3 * length s + 3" conv] skip_length [of s]
  by (auto simp: cJSON_Parse_def split: parsed.split intro: less_le_trans)

text \<open>The buffers that the string functions allocate are large enough: \<open>parse_string\<close> writes at
  most the \<open>len\<close> bytes its first loop counted, and \<open>print_string_ptr\<close> exactly the \<open>len + 3\<close> bytes it
  allocated, with the NUL.\<close>

lemma json_string_buffers:
  "(case str_room p of None \<Rightarrow> True | Some len \<Rightarrow> length (fst (str_copy p)) + 1 \<le> len + 1) \<and>
   length (print_string_ptr (Some s)) + 1 = print_len s + 3"
  using str_copy_room [of p] by (auto simp: print_string_ptr_def print_chars_length split: option.split)

lemma hex_vals:
  "hex_val (CHR ''D'') = Some 13" "hex_val (CHR ''C'') = Some 12" "hex_val (CHR ''0'') = Some 0"
  "hex_val (CHR ''1'') = Some 1" "hex_val (CHR ''8'') = Some 8" "hex_val (CHR ''4'') = Some 4"
  by (simp_all add: hex_val_def)

lemma short_drops:
  "drop 4 (a # b # c # d # r) = r" "drop 2 (a # b # r) = r" "take 2 (a # b # r) = [a, b]"
  "drop 6 (a # b # c # d # e # f # r) = r"
  by (simp_all add: numeral_eq_Suc)

lemma surrogate_escapes:
  "unicode_escape (''D801'' @ BACKSLASH # ''uDC00'' @ r) = (utf8 0x10400, r)"
  "unicode_escape (''D841'' @ BACKSLASH # ''uDC00'' @ r) = (utf8 0x10400, r)"
  by (simp_all add: unicode_escape_def hex_vals short_drops)

text \<open>Surrogate pairs are combined with a bitwise or instead of an addition: two different pairs,
  for U+10400 and U+20400, are decoded to the same bytes.\<close>

lemma json_surrogates_collide:
  "parse_string (DQUOTE # BACKSLASH # ''uD801'' @ BACKSLASH # ''uDC00'' @ [DQUOTE]) = Done (utf8 0x10400) [] \<and>
   parse_string (DQUOTE # BACKSLASH # ''uD841'' @ BACKSLASH # ''uDC00'' @ [DQUOTE]) = Done (utf8 0x10400) [] \<and>
   utf8 0x10400 \<noteq> utf8 0x20400"
  using surrogate_escapes [of "[DQUOTE]"] by (simp add: parse_string_def utf8_def byte_char_def)

end
