(* ===== verification/Json_Number.thy ===== *)
theory Json_Number
  imports Json "HOL-Library.Log_Nat"
begin

text \<open>
  The numbers of \<open>src/agc_json.c\<close>: \<open>parse_number\<close> and \<open>print_number\<close> with the \<open>double\<close> arithmetic
  they do. A \<^term>\<open>double\<close> is a rational or one of the special values; the arithmetic rounds to the
  nearest of the numbers with 53 bits (the even one of two), as IEEE 754 and the code's machines do.
  Minus zero is not told from zero: no branch of these functions tells them apart. What the C
  standard leaves open is a \<^term>\<open>libc\<close>: the results of \<open>pow(10.0, k)\<close> (for \<open>k = 0\<close> the standard
  gives 1), of converting to \<open>int\<close> a number that does not fit, and the text of a NaN.
\<close>

section \<open>Arithmetic of double\<close>

datatype double = Fin rat | PInf | MInf | NaN

text \<open>The exponent of the largest power of two that is not above a positive number.\<close>

definition binade :: "rat \<Rightarrow> int" where
  "binade a = (if 1 \<le> a then int (floorlog 2 (nat \<lfloor>a\<rfloor>)) - 1
     else - int (floorlog 2 (nat (\<lceil>1 / a\<rceil> - 1))))"

definition pow2 :: "int \<Rightarrow> rat" where
  "pow2 k = (if 0 \<le> k then 2 ^ nat k else 1 / 2 ^ nat (- k))"

definition round_even :: "rat \<Rightarrow> int" where
  "round_even y = (let f = \<lfloor>y\<rfloor>; r = y - of_int f in
     if r < 1 / 2 then f else if 1 / 2 < r then f + 1 else if even f then f else f + 1)"

definition too_large :: rat where
  "too_large = 2 ^ 1024"

definition rnd :: "rat \<Rightarrow> double" where
  "rnd x = (if x = 0 then Fin 0
     else let u = pow2 (max (binade \<bar>x\<bar> - 52) (- 1074)); y = of_int (round_even (x / u)) * u
       in if too_large \<le> y then PInf else if y \<le> - too_large then MInf else Fin y)"

fun sign_of :: "double \<Rightarrow> int" where
  "sign_of (Fin x) = (if x < 0 then - 1 else if x = 0 then 0 else 1)"
| "sign_of PInf = 1"
| "sign_of MInf = - 1"
| "sign_of NaN = 0"

fun fmul :: "double \<Rightarrow> double \<Rightarrow> double" where
  "fmul (Fin x) (Fin y) = rnd (x * y)"
| "fmul a b = (if a = NaN \<or> b = NaN then NaN
     else if sign_of a * sign_of b = 0 then NaN else if 0 < sign_of a * sign_of b then PInf else MInf)"

fun fadd :: "double \<Rightarrow> double \<Rightarrow> double" where
  "fadd (Fin x) (Fin y) = rnd (x + y)"
| "fadd (Fin x) b = b"
| "fadd a (Fin y) = a"
| "fadd a b = (if a = b then a else NaN)"

fun fneg :: "double \<Rightarrow> double" where
  "fneg (Fin x) = Fin (- x)"
| "fneg PInf = MInf"
| "fneg MInf = PInf"
| "fneg NaN = NaN"

definition fsub :: "double \<Rightarrow> double \<Rightarrow> double" where
  "fsub a b = fadd a (fneg b)"

fun fabs :: "double \<Rightarrow> double" where
  "fabs (Fin x) = Fin \<bar>x\<bar>"
| "fabs MInf = PInf"
| "fabs a = a"

fun ffloor :: "double \<Rightarrow> double" where
  "ffloor (Fin x) = Fin (of_int \<lfloor>x\<rfloor>)"
| "ffloor a = a"

fun d_le :: "double \<Rightarrow> double \<Rightarrow> bool" where
  "d_le (Fin x) (Fin y) = (x \<le> y)"
| "d_le a b = (a \<noteq> NaN \<and> b \<noteq> NaN \<and> (a = MInf \<or> b = PInf \<or> a = b))"

definition d_less :: "double \<Rightarrow> double \<Rightarrow> bool" where
  "d_less a b = (d_le a b \<and> a \<noteq> b)"

abbreviation INT_MIN :: int where
  "INT_MIN \<equiv> - (2 ^ 31)"

abbreviation INT_MAX :: int where
  "INT_MAX \<equiv> 2 ^ 31 - 1"

abbreviation DBL_EPSILON :: double where
  "DBL_EPSILON \<equiv> Fin (1 / 2 ^ 52)"

section \<open>Number items\<close>

record libc =
  lc_pow10 :: "int \<Rightarrow> double"
  lc_int :: "double \<Rightarrow> int"
  lc_nan :: string

text \<open>The conversion \<open>(int)n\<close> cuts off the fraction.\<close>

fun to_int :: "libc \<Rightarrow> double \<Rightarrow> int" where
  "to_int L (Fin x) = (let t = (if x < 0 then \<lceil>x\<rceil> else \<lfloor>x\<rfloor>) in
     if INT_MIN \<le> t \<and> t \<le> INT_MAX then t else lc_int L (Fin x))"
| "to_int L d = lc_int L d"

record number =
  valuedouble :: double
  valueint :: int

text \<open>\<open>cJSON_CreateNumber\<close>.\<close>

definition cJSON_CreateNumber :: "libc \<Rightarrow> double \<Rightarrow> number json" where
  "cJSON_CreateNumber L num = JNumber \<lparr>valuedouble = num, valueint = to_int L num\<rparr>"

section \<open>Parsing\<close>

text \<open>The two loops over digits: of the number, in \<open>double\<close>, and of the exponent, in \<open>int\<close>.\<close>

fun read_digits :: "double \<Rightarrow> string \<Rightarrow> double" where
  "read_digits n [] = n"
| "read_digits n (c # cs) =
     (if is_digit c then read_digits (fadd (fmul n (Fin 10)) (Fin (of_nat (digit_val c)))) cs else n)"

fun read_subscale :: "32 word \<Rightarrow> string \<Rightarrow> 32 word" where
  "read_subscale w [] = w"
| "read_subscale w (c # cs) =
     (if is_digit c then read_subscale (w * 10 + of_nat (digit_val c)) cs else w)"

definition read_number :: "libc \<Rightarrow> string \<Rightarrow> number \<times> string" where
  "read_number L s0 =
     (let (sign, s1) = (case s0 of c # cs \<Rightarrow> if c = CHR ''-'' then (- 1, cs) else (1, s0) | [] \<Rightarrow> (1, s0));
          s2 = (case s1 of c # cs \<Rightarrow> if c = CHR ''0'' then cs else s1 | [] \<Rightarrow> s1);
          (n, s3) = (case s2 of
              c # cs \<Rightarrow> if is_digit c \<and> c \<noteq> CHR ''0'' then (read_digits (Fin 0) s2, dropWhile is_digit s2) else (Fin 0, s2)
            | [] \<Rightarrow> (Fin 0, s2));
          (n, scale, s4) = (case s3 of
              c # d # ds \<Rightarrow> if c = CHR ''.'' \<and> is_digit d
                then (read_digits n (d # ds), - int (length (takeWhile is_digit (d # ds))), dropWhile is_digit (d # ds))
                else (n, 0, s3)
            | _ \<Rightarrow> (n, 0, s3));
          (subscale, s5) = (case s4 of
              c # cs \<Rightarrow>
                if c = CHR ''e'' \<or> c = CHR ''E'' then
                  (let (neg, ds) = (case cs of
                         d # ds \<Rightarrow> if d = CHR ''+'' \<or> d = CHR ''-'' then (d = CHR ''-'', ds) else (False, cs)
                       | [] \<Rightarrow> (False, cs));
                       w = read_subscale 0 ds
                   in (sint (if neg then - w else w), dropWhile is_digit ds))
                else (0, s4)
            | [] \<Rightarrow> (0, s4));
          d = fmul (fmul (Fin sign) n) (lc_pow10 L (scale + subscale))
      in (\<lparr>valuedouble = d, valueint = to_int L d\<rparr>, s5))"

definition number_value :: "libc \<Rightarrow> string \<Rightarrow> number" where
  "number_value L s = fst (read_number L s)"

section \<open>Printing\<close>

text \<open>The conversions of \<open>sprintf\<close>: \<open>%.0f\<close>, \<open>%f\<close> with six digits after the point, and \<open>%e\<close>.\<close>

definition pad_left :: "nat \<Rightarrow> string \<Rightarrow> string" where
  "pad_left n s = replicate (n - length s) (CHR ''0'') @ s"

definition signed :: "rat \<Rightarrow> string \<Rightarrow> string" where
  "signed x s = (if x < 0 then CHR ''-'' # s else s)"

fun special :: "libc \<Rightarrow> double \<Rightarrow> string" where
  "special L PInf = ''inf''"
| "special L MInf = ''-inf''"
| "special L d = lc_nan L"

fun fmt_0f :: "libc \<Rightarrow> double \<Rightarrow> string" where
  "fmt_0f L (Fin x) = signed x (dec_nat (nat (round_even \<bar>x\<bar>)))"
| "fmt_0f L d = special L d"

fun fmt_f :: "libc \<Rightarrow> double \<Rightarrow> string" where
  "fmt_f L (Fin x) = (let n = nat (round_even (\<bar>x\<bar> * 10 ^ 6)) in
     signed x (dec_nat (n div 10 ^ 6) @ CHR ''.'' # pad_left 6 (dec_nat (n mod 10 ^ 6))))"
| "fmt_f L d = special L d"

definition pow10 :: "int \<Rightarrow> rat" where
  "pow10 k = (if 0 \<le> k then 10 ^ nat k else 1 / 10 ^ nat (- k))"

text \<open>The exponent of the largest power of ten that is not above a positive number.\<close>

definition decade :: "rat \<Rightarrow> int" where
  "decade a = (if 1 \<le> a then int (floorlog 10 (nat \<lfloor>a\<rfloor>)) - 1
     else - int (floorlog 10 (nat (\<lceil>1 / a\<rceil> - 1))))"

fun fmt_e :: "libc \<Rightarrow> double \<Rightarrow> string" where
  "fmt_e L (Fin x) =
     (let e = (if x = 0 then 0 else decade \<bar>x\<bar>);
          n = nat (round_even (\<bar>x\<bar> * pow10 (6 - e)));
          (n, e) = (if n = 10 ^ 7 then (10 ^ 6, e + 1) else (n, e))
      in signed x (dec_nat (n div 10 ^ 6) @ CHR ''.'' # pad_left 6 (dec_nat (n mod 10 ^ 6)) @
           CHR ''e'' # (if e < 0 then CHR ''-'' else CHR ''+'') # pad_left 2 (dec_nat (nat \<bar>e\<bar>))))"
| "fmt_e L d = special L d"

text \<open>The first branch, and the text each branch writes.\<close>

definition prints_int :: "number \<Rightarrow> bool" where
  "prints_int item = (let d = valuedouble item in
     d_le (fabs (fsub (Fin (of_int (valueint item))) d)) DBL_EPSILON \<and>
     d_le d (Fin (of_int INT_MAX)) \<and> d_le (Fin (of_int INT_MIN)) d)"

definition number_text :: "libc \<Rightarrow> number \<Rightarrow> string" where
  "number_text L item = (let d = valuedouble item in
     if prints_int item then dec_int (valueint item)
     else if d_le (fabs (fsub (ffloor d) d)) DBL_EPSILON then fmt_0f L d
     else if d_less (fabs d) (rnd (1 / 10 ^ 6)) \<or> d_less (Fin (10 ^ 9)) (fabs d) then fmt_e L d
     else fmt_f L d)"

text \<open>The text is written to a buffer of 21 or 64 bytes; \<^term>\<open>None\<close> is a write over its end.\<close>

definition print_number :: "libc \<Rightarrow> number \<Rightarrow> string option" where
  "print_number L item = (let s = number_text L item in
     if length s < (if prints_int item then 21 else 64) then Some s else None)"

section \<open>Facts on the rounding\<close>

lemma round_even_int [simp]: "round_even (of_int k) = k"
  by (simp add: round_even_def Let_def)

lemma round_even_error: "\<bar>of_int (round_even y) - y\<bar> \<le> 1 / 2"
proof -
  define f where "f = \<lfloor>y\<rfloor>"
  have f: "of_int f \<le> y" "y < of_int f + 1" unfolding f_def by linarith+
  have "round_even y = (if y - of_int f < 1 / 2 then f else if 1 / 2 < y - of_int f then f + 1
      else if even f then f else f + 1)" by (simp add: round_even_def Let_def f_def)
  with f show ?thesis by (simp add: abs_if)
qed

lemma pow2_pos: "0 < pow2 k"
  by (simp add: pow2_def)

lemma binade_bounds:
  assumes "0 < a"
  shows "pow2 (binade a) \<le> a \<and> a < pow2 (binade a + 1)"
proof (cases "1 \<le> a")
  case True
  define n where "n = nat \<lfloor>a\<rfloor>"
  have n: "0 < n" "of_nat n \<le> a" "a < of_nat n + 1"
    using True floor_correct [of a] by (auto simp: n_def le_floor_iff)
  define k where "k = floorlog 2 n"
  have k: "0 < k" "2 ^ (k - 1) \<le> n" "n < 2 ^ k"
    using floorlog_bounds [of n 2] n(1) by (auto simp: k_def floorlog_eq_zero_iff intro: gr0I)
  have "(2 :: rat) ^ (k - 1) \<le> of_nat n" using k(2) by (metis of_nat_le_iff of_nat_numeral of_nat_power)
  moreover have "of_nat n + 1 \<le> (2 :: rat) ^ k"
    using k(3) by (metis Suc_leI add.commute of_nat_Suc of_nat_le_iff of_nat_numeral of_nat_power)
  ultimately have "(2 :: rat) ^ (k - 1) \<le> a" "a < 2 ^ k" using n by linarith+
  moreover have "binade a = int k - 1" using True by (simp add: binade_def n_def k_def)
  moreover have "nat (int k - 1) = k - 1" by simp
  ultimately show ?thesis using k(1) by (simp add: pow2_def)
next
  case False
  define b where "b = 1 / a"
  define n where "n = nat (\<lceil>b\<rceil> - 1)"
  have b: "1 < b" using False assms by (simp add: b_def)
  then have "1 \<le> \<lceil>b\<rceil> - 1" by linarith
  then have n: "0 < n" "int n = \<lceil>b\<rceil> - 1" by (simp_all add: n_def)
  then have "rat_of_int (int n) = of_int (\<lceil>b\<rceil> - 1)" by (simp only:)
  then have nb: "of_nat n < b" "b \<le> of_nat n + 1" using ceiling_correct [of b] by simp_all
  define k where "k = floorlog 2 n"
  have k: "0 < k" "2 ^ (k - 1) \<le> n" "n < 2 ^ k"
    using floorlog_bounds [of n 2] n(1) by (auto simp: k_def floorlog_eq_zero_iff intro: gr0I)
  have "(2 :: rat) ^ (k - 1) \<le> of_nat n" using k(2) by (metis of_nat_le_iff of_nat_numeral of_nat_power)
  moreover have "of_nat n + 1 \<le> (2 :: rat) ^ k"
    using k(3) by (metis Suc_leI add.commute of_nat_Suc of_nat_le_iff of_nat_numeral of_nat_power)
  ultimately have "(2 :: rat) ^ (k - 1) < b" "b \<le> 2 ^ k" using nb by linarith+
  then have "a < 1 / 2 ^ (k - 1)" "1 / 2 ^ k \<le> a" using assms by (simp_all add: b_def field_simps)
  moreover have "binade a = - int k" using False by (simp add: binade_def n_def k_def b_def)
  moreover have "nat (int k - 1) = k - 1" by simp
  ultimately show ?thesis using k(1) by (cases "k = 1") (auto simp: pow2_def)
qed

text \<open>A rounded number is within half a unit in the last place.\<close>

lemma rnd_error:
  assumes "rnd x = Fin y" "x \<noteq> 0"
  shows "\<bar>y - x\<bar> \<le> pow2 (max (binade \<bar>x\<bar> - 52) (- 1074)) / 2"
proof -
  define u where "u = pow2 (max (binade \<bar>x\<bar> - 52) (- 1074))"
  have y: "y = of_int (round_even (x / u)) * u" using assms by (auto simp: rnd_def u_def Let_def split: if_splits)
  have u: "0 < u" by (simp add: u_def pow2_pos)
  have "y - x = (of_int (round_even (x / u)) - x / u) * u" using u unfolding y by (simp add: field_simps)
  then have "\<bar>y - x\<bar> = \<bar>of_int (round_even (x / u)) - x / u\<bar> * u" using u by (simp add: abs_mult)
  also have "\<dots> \<le> 1 / 2 * u" using round_even_error u by (intro mult_right_mono) simp_all
  finally show ?thesis by (simp add: u_def)
qed

text \<open>Integers of up to 53 bits are not changed.\<close>

lemma rnd_int:
  assumes "\<bar>k\<bar> < 2 ^ 53"
  shows "rnd (of_int k) = Fin (of_int k)"
proof (cases "k = 0")
  case False
  define q where "q = max (binade \<bar>of_int k\<bar> - 52) (- 1074)"
  have "nat \<bar>k\<bar> < 2 ^ 53" using assms by simp
  then have "floorlog 2 (nat \<bar>k\<bar>) \<le> 53" by (intro floorlog_leI) simp_all
  moreover have "(1 :: rat) \<le> \<bar>of_int k\<bar>" using False by simp
  moreover have "\<lfloor>\<bar>rat_of_int k\<bar>\<rfloor> = \<bar>k\<bar>" by (metis floor_of_int of_int_abs)
  ultimately have q: "q \<le> 0" by (simp add: q_def binade_def)
  then have "of_int k / pow2 q = (of_int (k * 2 ^ nat (- q)) :: rat)" by (simp add: pow2_def)
  then have "round_even (of_int k / pow2 q) = k * 2 ^ nat (- q)" by (simp only: round_even_int)
  moreover have "(2 ^ nat (- q) :: rat) * pow2 q = 1" using q by (simp add: pow2_def)
  ultimately have y: "of_int (round_even (of_int k / pow2 q)) * pow2 q = (of_int k :: rat)" by (simp add: mult.assoc)
  have "\<bar>rat_of_int k\<bar> < 2 ^ 53" using assms by (metis of_int_abs of_int_less_iff of_int_numeral of_int_power)
  also have "\<dots> \<le> too_large" unfolding too_large_def by (rule power_increasing) simp_all
  finally have "\<not> too_large \<le> rat_of_int k" "\<not> rat_of_int k \<le> - too_large" by linarith+
  with y False show ?thesis by (simp only: rnd_def Let_def q_def [symmetric] of_int_eq_0_iff if_False)
qed (simp add: rnd_def)

lemma rnd_nat: "n < 2 ^ 53 \<Longrightarrow> rnd (of_nat n) = Fin (of_nat n)"
  using rnd_int [of "int n"] by simp

section \<open>Reading digits\<close>

lemma digits_grow: "a \<le> foldl (\<lambda>v d. 10 * v + digit_val d) a ds"
proof (induction ds arbitrary: a)
  case (Cons d ds)
  from Cons [of "10 * a + digit_val d"] show ?case by simp
qed simp

lemma read_digits_value:
  assumes "\<forall>c\<in>set ds. is_digit c" "r = [] \<or> \<not> is_digit (hd r)"
    and "foldl (\<lambda>v d. 10 * v + digit_val d) a ds < 2 ^ 53"
  shows "read_digits (Fin (of_nat a)) (ds @ r) = Fin (of_nat (foldl (\<lambda>v d. 10 * v + digit_val d) a ds))"
  using assms
proof (induction ds arbitrary: a)
  case Nil
  then show ?case by (cases r) auto
next
  case (Cons c ds)
  let ?b = "10 * a + digit_val c"
  have b: "?b < 2 ^ 53" using digits_grow [of ?b ds] Cons.prems(3) by simp
  then have r: "rnd (of_nat (a * 10)) = Fin (of_nat (a * 10))" "rnd (of_nat ?b) = Fin (of_nat ?b)"
    by (intro rnd_nat; simp)+
  have "of_nat (a * 10) + rat_of_nat (digit_val c) = of_nat ?b" "rat_of_nat a * 10 = of_nat (a * 10)" by simp_all
  then have "fadd (fmul (Fin (of_nat a)) (Fin 10)) (Fin (of_nat (digit_val c))) = Fin (of_nat ?b)"
    by (simp only: fmul.simps fadd.simps r)
  then have "read_digits (Fin (of_nat a)) ((c # ds) @ r) = read_digits (Fin (of_nat ?b)) (ds @ r)"
    using Cons.prems(1) by (simp only: append_Cons read_digits.simps list.set insert_iff simp_thms if_True ball_simps)
  also have "\<dots> = Fin (of_nat (foldl (\<lambda>v d. 10 * v + digit_val d) ?b ds))"
    by (rule Cons.IH) (use Cons.prems in simp_all)
  finally show ?case by simp
qed

lemma delim_stops:
  assumes "delim r"
  shows "dropWhile is_digit r = r" "r = [] \<or> \<not> is_digit (hd r)"
    "r = [] \<or> hd r \<notin> {CHR ''.'', CHR ''e'', CHR ''E''}"
proof -
  have "\<not> is_digit d \<and> d \<notin> {CHR ''.'', CHR ''e'', CHR ''E''}" if r: "r = d # ds" for d ds
  proof -
    consider "d = CHR '',''" | "d = CHR '']''" | "d = CHR ''}''" | "is_ws d"
      using assms unfolding r delim_def by auto
    then show ?thesis by cases (auto simp: is_digit_def)
  qed
  then show "dropWhile is_digit r = r" "r = [] \<or> \<not> is_digit (hd r)"
    "r = [] \<or> hd r \<notin> {CHR ''.'', CHR ''e'', CHR ''E''}" by (cases r; simp)+
qed

text \<open>The text left after a number is the one of the parser.\<close>

lemma read_number_rest: "snd (read_number L s) = after_number s"
  by (simp add: read_number_def after_number_def Let_def case_prod_unfold list.case_distrib [of snd]
      if_distrib [of snd] cong: list.case_cong if_cong)

lemma read_number_nat:
  assumes "n < 2 ^ 53" "delim r" "lc_pow10 L 0 = Fin 1"
    and s: "s = dec_nat n @ r \<and> sg = 1 \<or> s = CHR ''-'' # dec_nat n @ r \<and> sg = - 1"
  shows "read_number L s = (\<lparr>valuedouble = Fin (sg * of_nat n), valueint = to_int L (Fin (sg * of_nat n))\<rparr>, r)"
proof -
  obtain c cs where c: "dec_nat n = c # cs" by (cases "dec_nat n") auto
  have digs: "is_digit c" "\<forall>x\<in>set cs. is_digit x" using dec_nat_digits [of _ n] c by auto
  note stop = delim_stops [OF assms(2)]
  have fold: "foldl (\<lambda>v d. 10 * v + digit_val d) 0 (c # cs) = n"
    using digits_val_dec_nat [of n] unfolding digits_val_def c .
  have read: "read_digits (Fin 0) (c # cs @ r) = Fin (of_nat n)"
    using read_digits_value [of "c # cs" r 0] digs stop(2) fold assms(1) by simp
  have dw: "dropWhile is_digit (c # cs @ r) = r"
    using digs stop(1) by (simp add: dropWhile_append2)
  have zero: "cs = [] \<and> n = 0" if "c = CHR ''0''"
  proof -
    have "n = 0" using dec_nat_hd [of n] c that by auto
    then show ?thesis using c by (subst (asm) dec_nat.simps) simp
  qed
  have "rnd (of_int k) = Fin (of_int k)" if "k = int n \<or> k = - int n" for k using that assms(1) by (intro rnd_int) auto
  from this [of "int n"] this [of "- int n"]
  have val: "fmul (fmul (Fin sg) (Fin (of_nat n))) (lc_pow10 L 0) = Fin (sg * of_nat n)"
    using s assms(3) by auto
  have sign: "(case s of c # cs \<Rightarrow> if c = CHR ''-'' then (- 1, cs) else (1, s) | [] \<Rightarrow> (1, s)) = (sg, c # cs @ r)"
    using s c is_digit_not_sign [OF digs(1)] by auto
  have tail: "(case r of c # d # ds \<Rightarrow> if c = CHR ''.'' \<and> is_digit d then f c d ds else z | _ \<Rightarrow> z) = z"
    for f and z :: "double \<times> int \<times> string"
    using stop(3) by (auto split: list.split)
  have tail2: "(case r of c # cs \<Rightarrow> if c = CHR ''e'' \<or> c = CHR ''E'' then f c cs else z | [] \<Rightarrow> z) = z"
    for f and z :: "int \<times> string"
    using stop(3) by (auto split: list.split)
  show ?thesis
  proof (cases "c = CHR ''0''")
    case True
    have r0: "(case r of c # cs \<Rightarrow> if is_digit c \<and> c \<noteq> CHR ''0'' then f c cs else z | [] \<Rightarrow> z) = z"
      for f and z :: "double \<times> string"
      using stop(2) by (auto split: list.split)
    show ?thesis using zero [OF True] True val
      by (simp add: read_number_def sign r0 tail tail2 Let_def del: to_int.simps)
  next
    case False
    then show ?thesis using digs(1) val
      by (simp add: read_number_def sign read dw tail tail2 Let_def
          del: dropWhile.simps read_digits.simps to_int.simps)
  qed
qed

section \<open>Properties\<close>

text \<open>A number made of a C \<open>int\<close>, as the program makes all its numbers.\<close>

definition int_number :: "number \<Rightarrow> bool" where
  "int_number x \<longleftrightarrow> valuedouble x = Fin (of_int (valueint x)) \<and> INT_MIN \<le> valueint x \<and> valueint x \<le> INT_MAX"

lemma create_int_number:
  assumes "INT_MIN \<le> k" "k \<le> INT_MAX"
  shows "\<exists>x. cJSON_CreateNumber L (Fin (of_int k)) = JNumber x \<and> int_number x \<and> valueint x = k"
  using assms by (simp add: cJSON_CreateNumber_def int_number_def)

lemma dec_nat_length: "n < 10 ^ k \<Longrightarrow> 0 < k \<Longrightarrow> length (dec_nat n) \<le> k"
proof (induction k arbitrary: n)
  case (Suc k)
  show ?case
  proof (cases "n < 10")
    case True
    then show ?thesis by (subst dec_nat.simps) simp
  next
    case False
    then have "n div 10 < 10 ^ k" "0 < k" using Suc.prems by (auto intro: gr0I)
    from Suc.IH [OF this] False show ?thesis by (subst dec_nat.simps) simp
  qed
qed simp

lemma dec_nat_long: "10 ^ k \<le> n \<Longrightarrow> k < length (dec_nat n)"
proof (induction k arbitrary: n)
  case (Suc k)
  then have "10 ^ k \<le> n div 10" by (simp add: less_eq_div_iff_mult_less_eq mult.commute)
  from Suc.IH [OF this] have "k < length (dec_nat (n div 10))" .
  moreover have "\<not> n < 10" using Suc.prems by (metis leD le_trans one_le_numeral one_le_power power_Suc mult_le_mono2 mult.right_neutral not_le)
  ultimately show ?case by (subst dec_nat.simps) simp
qed simp

lemma int_number_text:
  assumes "int_number x"
  shows "number_text L x = dec_int (valueint x)" "print_number L x = Some (dec_int (valueint x))"
proof -
  have p: "prints_int x"
    using assms by (auto simp: int_number_def prints_int_def Let_def fsub_def rnd_def simp del: of_int_diff)
  then show t: "number_text L x = dec_int (valueint x)" by (simp add: number_text_def Let_def)
  have "\<bar>valueint x\<bar> < 10 ^ 10" using assms by (simp add: int_number_def abs_if)
  then have "nat \<bar>valueint x\<bar> < 10 ^ 10" by (simp add: nat_less_iff)
  then have "length (dec_nat (nat \<bar>valueint x\<bar>)) \<le> 10" by (intro dec_nat_length) simp_all
  then have "length (dec_int (valueint x)) < 21" by (simp add: dec_int_def abs_if split: if_splits)
  with p t show "print_number L x = Some (dec_int (valueint x))" by (simp add: print_number_def)
qed

lemma int_number_ok:
  assumes "int_number x" "lc_pow10 L 0 = Fin 1"
  shows "num_ok (number_value L) (number_text L) x"
proof -
  define n where "n = nat \<bar>valueint x\<bar>"
  define sg where "sg = (if valueint x < 0 then - 1 else 1 :: rat)"
  have n: "n < 2 ^ 53" "sg * of_nat n = of_int (valueint x)"
    using assms(1) by (auto simp: n_def sg_def int_number_def)
  obtain c cs where c: "dec_nat n = c # cs" by (cases "dec_nat n") auto
  then have d: "is_digit c" using dec_nat_digits [of c n] by simp
  have tx: "number_text L x = (if valueint x < 0 then CHR ''-'' # dec_nat n else dec_nat n)"
    using int_number_text(1) [OF assms(1)] by (simp add: dec_int_def n_def)
  have x: "to_int L (Fin (of_int (valueint x))) = valueint x" "valuedouble x = Fin (of_int (valueint x))"
    using assms(1) by (simp_all add: int_number_def)
  have "read_number L (number_text L x @ r) = (x, r)" if dl: "delim r" for r
  proof -
    have "number_text L x @ r = dec_nat n @ r \<and> sg = 1 \<or> number_text L x @ r = CHR ''-'' # dec_nat n @ r \<and> sg = - 1"
      using tx by (simp add: sg_def)
    from read_number_nat [OF n(1) dl assms(2) this] show ?thesis unfolding n(2) x(1) by (simp add: x(2))
  qed
  then have "number_value L (number_text L x @ r) = x \<and> after_number (number_text L x @ r) = r"
    if dl: "delim r" for r using dl read_number_rest [of L "number_text L x @ r"] by (simp add: number_value_def)
  then show ?thesis using tx c d by (auto simp: num_ok_def)
qed

lemma good_mono: "good P j \<Longrightarrow> (\<And>x. P x \<Longrightarrow> Q x) \<Longrightarrow> good Q j"
  by (induction P j rule: good.induct) auto

text \<open>C9. Parsing what \<open>cJSON_Print\<close> or \<open>cJSON_PrintUnformatted\<close> prints for an item gives the item
  back and leaves what follows it, for every text that follows which is empty or starts with white
  space, a comma or a closing bracket, and every item whose strings are C strings and whose numbers
  are 32-bit integers (as the program makes them): with the text of numbers and their value as
  \<open>print_number\<close> and \<open>parse_number\<close> compute them, and every number fits the buffer it is printed to.\<close>

theorem json_roundtrip:
  assumes "lc_pow10 L 0 = Fin 1" "good int_number j" "delim r"
  shows "cJSON_Parse (number_value L) (cJSON_Print (number_text L) j @ r) = Done j r \<and>
    cJSON_Parse (number_value L) (cJSON_PrintUnformatted (number_text L) j @ r) = Done j r \<and>
    good (\<lambda>x. print_number L x = Some (number_text L x)) j"
proof -
  have "good (num_ok (number_value L) (number_text L)) j"
    using assms(2) int_number_ok [OF _ assms(1)] by (rule good_mono)
  moreover have "good (\<lambda>x. print_number L x = Some (number_text L x)) j"
    using assms(2) int_number_text by (intro good_mono [OF assms(2)]) simp
  ultimately show ?thesis
    using json_roundtrip_text [OF _ assms(3), of "number_value L" "number_text L" j]
    unfolding cJSON_Print_def cJSON_PrintUnformatted_def by blast
qed

text \<open>A C library whose \<open>pow\<close> rounds correctly, and an item with every kind of content, for the
  witness.\<close>

definition demo_libc :: libc where
  "demo_libc = \<lparr>lc_pow10 = (\<lambda>k. rnd (pow10 k)), lc_int = (\<lambda>d. INT_MIN), lc_nan = ''-nan''\<rparr>"

lemma demo_pow10: "lc_pow10 demo_libc 0 = Fin 1"
  using rnd_int [of 1] by (simp add: demo_libc_def pow10_def)

definition demo_number :: "int \<Rightarrow> number json" where
  "demo_number k = JNumber \<lparr>valuedouble = Fin (of_int k), valueint = k\<rparr>"

definition demo_json :: "number json" where
  "demo_json = JObject [(''_id'', JString ''4''), (''say \<newline>'', JString [CHR 0x22, CHR 0x01, CHR 0xE9]),
     (''a'', JArray [demo_number 0, demo_number (- 42), JNull, JTrue, JObject []]), (''b'', JFalse)]"

theorem json_roundtrip_witness:
  "cJSON_Parse (number_value demo_libc) (cJSON_Print (number_text demo_libc) demo_json @ '', 1'') =
   Done demo_json '', 1''"
proof -
  have "good int_number demo_json" by (simp add: demo_json_def demo_number_def int_number_def)
  from json_roundtrip [OF demo_pow10 this, of "'', 1''"] show ?thesis by (simp add: delim_def)
qed

lemma binade_eq:
  assumes "pow2 k \<le> a" "a < pow2 (k + 1)"
  shows "binade a = k"
proof -
  have mono: "pow2 i \<le> pow2 j" if "i \<le> j" for i j
  proof -
    have "pow2 j = pow2 i * 2 ^ nat (j - i)"
      using that by (auto simp: pow2_def field_simps simp flip: power_add)
    then show ?thesis using pow2_pos [of i] by simp
  qed
  have b: "pow2 (binade a) \<le> a" "a < pow2 (binade a + 1)"
    using binade_bounds [of a] pow2_pos [of k] assms(1) by auto
  show ?thesis
  proof (rule ccontr)
    assume "binade a \<noteq> k"
    then consider "binade a + 1 \<le> k" | "k + 1 \<le> binade a" by linarith
    then show False using mono [of "binade a + 1" k] mono [of "k + 1" "binade a"] assms b by cases auto
  qed
qed

definition demo_large :: int where
  "demo_large = 6842277657836021 * 2 ^ 160"

lemma rnd_eq:
  assumes "x \<noteq> 0" "binade \<bar>x\<bar> = b" "- 1022 \<le> b" "x / pow2 (b - 52) = z" "round_even z = m"
    and "y = of_int m * pow2 (b - 52)" "\<bar>y\<bar> < too_large"
  shows "rnd x = Fin y"
proof -
  have "max (binade \<bar>x\<bar> - 52) (- 1074) = b - 52" using assms(2,3) by simp
  moreover have "round_even (x / pow2 (b - 52)) = m" using assms(4,5) by simp
  ultimately have "rnd x = (if too_large \<le> y then PInf else if y \<le> - too_large then MInf else Fin y)"
    using assms(1,6) unfolding rnd_def Let_def by simp
  then show ?thesis using assms(7) by (auto simp: abs_if split: if_splits)
qed

lemma demo_rnd:
  "rnd (10 ^ 64) = Fin (of_int demo_large)" "rnd (of_int demo_large) = Fin (of_int demo_large)"
proof -
  have b: "binade \<bar>10 ^ 64\<bar> = 212" "binade \<bar>of_int demo_large\<bar> = 212"
    by (rule binade_eq; simp add: pow2_def demo_large_def)+
  define z where "z = (10 ^ 64 / pow2 (212 - 52) :: rat)"
  have "\<lfloor>z\<rfloor> = 6842277657836020" by (rule floor_unique) (simp_all add: z_def pow2_def)
  moreover have "1 / 2 < z - 6842277657836020" by (simp add: z_def pow2_def)
  ultimately have r: "round_even z = 6842277657836021" by (simp add: round_even_def Let_def)
  have r2: "of_int demo_large / pow2 (212 - 52) = rat_of_int 6842277657836021"
    by (simp add: demo_large_def pow2_def)
  have l: "\<bar>of_int demo_large\<bar> < too_large" "of_int demo_large = rat_of_int 6842277657836021 * pow2 (212 - 52)"
    "of_int demo_large \<noteq> (0 :: rat)" by (simp_all add: too_large_def demo_large_def pow2_def)
  show "rnd (10 ^ 64) = Fin (of_int demo_large)"
    by (rule rnd_eq [OF _ b(1) _ z_def [symmetric] r l(2,1)]) simp_all
  show "rnd (of_int demo_large) = Fin (of_int demo_large)"
    by (rule rnd_eq [OF l(3) b(2) _ r2 round_even_int l(2,1)]) simp
qed

text \<open>C31. A number that \<open>print_number\<close> prints with \<open>%.0f\<close> and that has 64 digits or more is written
  over the end of its buffer of 64 bytes; \<open>parse_number\<close> accepts such numbers.\<close>

theorem print_number_overflows:
  assumes "valuedouble x = Fin (of_int k)" "10 ^ 63 \<le> \<bar>k\<bar>"
  shows "print_number L x = None"
proof -
  have big: "\<not> - (2 ^ 31) \<le> k \<or> \<not> k \<le> 2 ^ 31 - 1" using assms(2) by (simp add: abs_if split: if_splits)
  have "\<not> prints_int x" using big unfolding prints_int_def Let_def assms(1) d_le.simps of_int_le_iff by blast
  moreover have "fabs (fsub (ffloor (Fin (of_int k))) (Fin (of_int k))) = Fin 0"
    by (simp add: fsub_def rnd_def)
  ultimately have "number_text L x = signed (of_int k) (dec_nat (nat (round_even \<bar>of_int k\<bar>)))"
    by (simp add: number_text_def assms(1))
  moreover have "round_even \<bar>of_int k\<bar> = \<bar>k\<bar>" by (metis of_int_abs round_even_int)
  ultimately have "length (dec_nat (nat \<bar>k\<bar>)) \<le> length (number_text L x)" by (simp add: signed_def)
  moreover have "63 < length (dec_nat (nat \<bar>k\<bar>))" using assms(2) by (intro dec_nat_long) (simp add: le_nat_iff)
  ultimately show ?thesis using \<open>\<not> prints_int x\<close> by (simp add: print_number_def Let_def)
qed

theorem print_number_overflows_witness:
  "\<exists>x. cJSON_Parse (number_value demo_libc) ''1e64'' = Done (JNumber x) [] \<and> print_number demo_libc x = None"
proof -
  have one: "rnd 1 = Fin 1" using rnd_int [of 1] by simp
  have p: "lc_pow10 demo_libc 64 = Fin (of_int demo_large)" using demo_rnd(1) by (simp add: demo_libc_def pow10_def)
  have "read_digits (Fin 0) ''1e64'' = Fin 1" using one by (simp add: is_digit_def digit_val_def rnd_def)
  moreover have "read_subscale 0 ''64'' = 64" by (simp add: is_digit_def digit_val_def)
  ultimately have "\<exists>x. number_value demo_libc ''1e64'' = x \<and> valuedouble x = Fin (of_int demo_large)"
    using one p demo_rnd(2) by (simp add: number_value_def read_number_def is_digit_def Let_def del: read_digits.simps read_subscale.simps)
  then obtain x where x: "number_value demo_libc ''1e64'' = x" "valuedouble x = Fin (of_int demo_large)" by blast
  have "after_number ''1e64'' = []" by (simp add: after_number_def is_digit_def)
  then have "cJSON_Parse (number_value demo_libc) ''1e64'' = Done (JNumber x) []"
    using x(1) by (simp add: cJSON_Parse_def parse_value_def parse_number_def skip_def is_digit_def numeral_eq_Suc)
  moreover have "print_number demo_libc x = None"
    using x(2) by (rule print_number_overflows) (simp add: demo_large_def)
  ultimately show ?thesis by blast
qed

text \<open>The six digits of \<open>%f\<close> do not tell numbers apart: two different numbers are printed the same.\<close>

definition demo_fraction :: "nat \<Rightarrow> number" where
  "demo_fraction k = \<lparr>valuedouble = Fin (1 + 1 / 2 ^ k), valueint = 1\<rparr>"

lemma demo_micro: "rnd (1 / 10 ^ 6) = Fin (4722366482869645 / 2 ^ 72)"
proof -
  have b: "binade \<bar>1 / 10 ^ 6\<bar> = - 20" by (rule binade_eq; simp add: pow2_def)
  define z where "z = (1 / 10 ^ 6 / pow2 (- 20 - 52) :: rat)"
  have f: "\<lfloor>z\<rfloor> = 4722366482869645" by (rule floor_unique) (simp_all add: z_def pow2_def)
  have "z - 4722366482869645 < 1 / 2" by (simp add: z_def pow2_def)
  with f have r: "round_even z = 4722366482869645" by (simp add: round_even_def Let_def)
  show ?thesis by (rule rnd_eq [OF _ b _ z_def [symmetric] r]) (simp_all add: pow2_def too_large_def)
qed

lemma fraction_text:
  assumes "k \<in> {30, 31}"
  shows "number_text L (demo_fraction k) = ''1.000000''"
proof -
  let ?d = "1 + 1 / 2 ^ k :: rat"
  have b: "binade \<bar>- (1 / 2 ^ k)\<bar> = - int k" using assms by (auto intro!: binade_eq simp: pow2_def)
  have z: "- (1 / 2 ^ k) / pow2 (- int k - 52) = rat_of_int (- (2 ^ 52))" using assms by (auto simp: pow2_def)
  have y: "- (1 / 2 ^ k) = rat_of_int (- (2 ^ 52)) * pow2 (- int k - 52)" using assms by (auto simp: pow2_def)
  have l: "\<bar>- (1 / 2 ^ k)\<bar> < too_large" using assms by (auto simp: too_large_def)
  have "rnd (- (1 / 2 ^ k)) = Fin (- (1 / 2 ^ k))"
    by (rule rnd_eq [OF _ b _ z round_even_int y l]) (use assms in auto)
  moreover have fl: "\<lfloor>?d\<rfloor> = 1" using assms by (intro floor_unique) auto
  ultimately have f: "fsub (Fin 1) (Fin ?d) = Fin (- (1 / 2 ^ k))" by (simp add: fsub_def)
  define z where "z = ?d * 10 ^ 6"
  have zf: "\<lfloor>z\<rfloor> = 10 ^ 6" using assms by (intro floor_unique) (auto simp: z_def)
  moreover have "z - 10 ^ 6 < 1 / 2" using assms by (auto simp: z_def)
  ultimately have r: "round_even z = 10 ^ 6" by (simp add: round_even_def Let_def)
  have n: "dec_nat 1 = ''1''" "dec_nat 0 = ''0''" by code_simp+
  have d: "\<bar>?d\<bar> = ?d" "\<not> ?d < 0" using assms by auto
  have m: "nat (10 ^ 6) div 10 ^ 6 = 1" "nat (10 ^ 6) mod 10 ^ 6 = 0" by simp_all
  have p: "pad_left 6 ''0'' = ''000000''" by code_simp
  have "fmt_f L (Fin ?d) = ''1.000000''"
    unfolding fmt_f.simps Let_def d(1) z_def [symmetric] r m n p signed_def using d(2) by simp
  moreover have "\<not> 1 / 2 ^ k \<le> (1 / 2 ^ 52 :: rat)" using assms by auto
  ultimately show ?thesis using f fl assms demo_micro
    by (auto simp: number_text_def prints_int_def demo_fraction_def d_less_def Let_def)
qed

lemma fraction_digits_lost:
  "number_text L (demo_fraction 30) = number_text L (demo_fraction 31) \<and>
   valuedouble (demo_fraction 30) \<noteq> valuedouble (demo_fraction 31)"
  by (simp add: fraction_text) (simp add: demo_fraction_def)

end
