(* ===== verification/Event_Json.thy ===== *)
theory Event_Json
  imports Event_Object Json
begin

text \<open>
  Events as JSON (\<open>src/agc_event.c\<close>): the headers, the identifier, its registered name and the body
  become string members of one object, and an event is made from such an object. \<open>templates\<close> is the
  table of registered names; \<open>conv\<close> and \<open>pr\<close> are the number conversions of the JSON library, which
  events do not use. The source of the event is not part of the JSON.
\<close>

section \<open>Operations\<close>

text \<open>\<open>cJSON_CreateString\<close> copies the empty string for a null pointer.\<close>

definition create_string :: "string option \<Rightarrow> 'd json" where
  "create_string s = JString (case s of None \<Rightarrow> [] | Some s \<Rightarrow> s)"

partial_function (option) header_items :: "emem \<Rightarrow> ptr \<Rightarrow> (string \<times> 'd json) list option" where
  "header_items M hp =
     (if hp = NULL then Some []
      else do {
        h \<leftarrow> em_headers M hp;
        ms \<leftarrow> header_items M (hd_next h);
        Some ((hd_name h, create_string (hd_value h)) # ms) })"

definition agc_event_serialize_json_obj :: "emem \<Rightarrow> (nat \<Rightarrow> string option) \<Rightarrow> event \<Rightarrow> 'd json option" where
  "agc_event_serialize_json_obj M templates e = do {
     hs \<leftarrow> header_items M (ev_headers e);
     name \<leftarrow> (if 0 \<le> ev_id e \<and> ev_id e < EVENT_ID_LIMIT then Some (templates (nat (ev_id e))) else None);
     Some (JObject (hs @ [(''_id'', JString (dec_int (ev_id e)))] @
       (case name of None \<Rightarrow> [] | Some n \<Rightarrow> [(''_name'', JString n)]) @
       (case ev_body e of None \<Rightarrow> []
          | Some b \<Rightarrow> [(''_length'', JString (dec_nat (length b))), (''_body'', JString b)]))) }"

definition agc_event_serialize_json :: "('d \<Rightarrow> string) \<Rightarrow> emem \<Rightarrow> (nat \<Rightarrow> string option) \<Rightarrow> event \<Rightarrow> string option" where
  "agc_event_serialize_json pr M templates e =
     map_option (cJSON_PrintUnformatted pr) (agc_event_serialize_json_obj M templates e)"

text \<open>The children of an item with their \<open>string\<close> and \<open>valuestring\<close> pointers.\<close>

definition valuestring :: "'d json \<Rightarrow> string option" where
  "valuestring j = (case j of JString s \<Rightarrow> Some s | _ \<Rightarrow> None)"

definition children :: "'d json \<Rightarrow> (string option \<times> string option) list" where
  "children j = (case j of
     JObject ms \<Rightarrow> map (\<lambda>(n, v). (Some n, valuestring v)) ms
   | JArray xs \<Rightarrow> map (\<lambda>v. (None, valuestring v)) xs
   | _ \<Rightarrow> [])"

text \<open>The result is the event, or none for \<open>AGC_STATUS_FALSE\<close>.\<close>

fun create_loop :: "emem \<Rightarrow> event \<Rightarrow> (string option \<times> string option) list \<Rightarrow> (emem \<times> event option) option" where
  "create_loop M e [] = Some (M, Some e)"
| "create_loop M e ((Some name, Some v) # cs) =
     (if strcaseeq name ''_body'' then create_loop M (fst (agc_event_set_body e (Some v))) cs
      else if strcaseeq name ''_id'' then
        (let event_id = atoi v in
         if EVENT_ID_IS_INVALID event_id then agc_event_destroy M (Some e)
         else create_loop M (e\<lparr>ev_id := event_id\<rparr>) cs)
      else do {
        (M, e, _) \<leftarrow> agc_event_add_header_string M e name (Some v);
        create_loop M e cs })"
| "create_loop M e (c # cs) = create_loop M e cs"

definition agc_event_create_json :: "(string \<Rightarrow> 'd) \<Rightarrow> emem \<Rightarrow> string \<Rightarrow> (emem \<times> event option) option" where
  "agc_event_create_json conv M json = (case cJSON_Parse conv json of
     Crash \<Rightarrow> None
   | Deep \<Rightarrow> None
   | Fail _ \<Rightarrow> Some (M, None)
   | Done j _ \<Rightarrow> do {
       (M, e) \<leftarrow> create_loop M (agc_event_create 0 0) (children j);
       case e of
         None \<Rightarrow> Some (M, None)
       | Some e \<Rightarrow> if EVENT_ID_IS_INVALID (ev_id e) then agc_event_destroy M (Some e) else Some (M, Some e) })"

section \<open>Lemmas\<close>

lemma header_items_seg:
  "seg (em_headers M) p cs NULL \<Longrightarrow>
   header_items M p = Some (map (\<lambda>(x, n, v). (n, create_string v)) cs)"
proof (induction cs arbitrary: p)
  case Nil
  then show ?case by (subst header_items.simps) simp
next
  case (Cons c cs)
  obtain x n v where c: "c = (x, n, v)" by (cases c) auto
  then obtain r where "p = x" "x \<noteq> NULL" "em_headers M x = Some \<lparr>hd_name = n, hd_value = v, hd_next = r\<rparr>"
    "seg (em_headers M) r cs NULL" using Cons.prems by auto
  then show ?case using Cons.IH [of r] c by (subst header_items.simps) simp
qed

definition reserved :: "string \<Rightarrow> bool" where
  "reserved n \<longleftrightarrow> strcaseeq n ''_id'' \<or> strcaseeq n ''_body'' \<or> strcaseeq n ''_name'' \<or> strcaseeq n ''_length''"

text \<open>The members that the serialisation adds and that the reader takes for headers.\<close>

definition added_headers :: "(nat \<Rightarrow> string option) \<Rightarrow> event \<Rightarrow> (string \<times> string option) list" where
  "added_headers templates e =
     (case templates (nat (ev_id e)) of None \<Rightarrow> [] | Some n \<Rightarrow> [(''_name'', Some n)]) @
     (case ev_body e of None \<Rightarrow> [] | Some b \<Rightarrow> [(''_length'', Some (dec_nat (length b)))])"

lemma create_loop_headers:
  "event_headers M e acc \<Longrightarrow> distinct_names (acc @ kvs) \<Longrightarrow>
   \<forall>(n, v)\<in>set kvs. v \<noteq> None \<and> \<not> strcaseeq n ''_body'' \<and> \<not> strcaseeq n ''_id'' \<Longrightarrow>
   \<exists>M' e'. create_loop M e (map (\<lambda>(n, v). (Some n, v)) kvs @ cs) = create_loop M' e' cs \<and>
     event_headers M' e' (acc @ kvs) \<and> e' = e\<lparr>ev_headers := ev_headers e', ev_last := ev_last e'\<rparr>"
proof (induction kvs arbitrary: M e acc)
  case Nil
  then show ?case by (intro exI [of _ M] exI [of _ e]) simp
next
  case (Cons kv kvs)
  obtain n d where kv: "kv = (n, Some d)" using Cons.prems(3) by (cases kv) auto
  have "\<forall>(k, w)\<in>set acc. \<not> strcaseeq k n" using Cons.prems(2) kv by (auto dest: distinct_names_append)
  from add_string_ok [OF Cons.prems(1) this, of d] obtain M1 e1 where
    a: "agc_event_add_header_string M e n (Some d) = Some (M1, e1, AGC_STATUS_SUCCESS)"
    "event_headers M1 e1 (acc @ [(n, Some d)])" "e1 = e\<lparr>ev_headers := ev_headers e1, ev_last := ev_last e1\<rparr>" by blast
  have "distinct_names ((acc @ [(n, Some d)]) @ kvs)" using Cons.prems(2) kv by simp
  from Cons.IH [OF a(2) this] Cons.prems(3) obtain M2 e2 where
    b: "create_loop M1 e1 (map (\<lambda>(n, v). (Some n, v)) kvs @ cs) = create_loop M2 e2 cs"
    "event_headers M2 e2 ((acc @ [(n, Some d)]) @ kvs)" "e2 = e1\<lparr>ev_headers := ev_headers e2, ev_last := ev_last e2\<rparr>"
    by auto
  have "e2 = e\<lparr>ev_headers := ev_headers e2, ev_last := ev_last e2\<rparr>" by (subst b(3), subst a(3)) simp
  then show ?case using a(1) b(1,2) kv Cons.prems(3) by (intro exI [of _ M2] exI [of _ e2]) simp
qed

lemma event_headers_set_id [simp]: "event_headers M (e\<lparr>ev_id := i\<rparr>) kvs = event_headers M e kvs"
  by (simp add: event_headers_def event_ok_def)

lemma event_headers_set_body [simp]: "event_headers M (e\<lparr>ev_body := b\<rparr>) kvs = event_headers M e kvs"
  by (simp add: event_headers_def event_ok_def)

lemma event_headers_create: "event_headers M e kvs \<Longrightarrow> event_headers M (agc_event_create i s) []"
  by (auto simp: event_headers_def event_ok_def intro!: exI [of _ "[]"] event_ok_create)
    (simp_all add: agc_event_create_def)

lemma reserved_names:
  "\<not> strcaseeq ''_name'' ''_body''" "\<not> strcaseeq ''_name'' ''_id''" "\<not> strcaseeq ''_length'' ''_body''"
  "\<not> strcaseeq ''_length'' ''_id''" "\<not> strcaseeq ''_id'' ''_body''" "\<not> strcaseeq ''_name'' ''_length''"
  by code_simp+

lemma dec_int_nat: "dec_int (int n) = dec_nat n"
  by (simp add: dec_int_def)

text \<open>What the JSON of an event is, and that it is read back as the same item.\<close>

definition event_item :: "(nat \<Rightarrow> string option) \<Rightarrow> event \<Rightarrow> (string \<times> string option) list \<Rightarrow> 'd json" where
  "event_item templates e kvs = JObject (map (\<lambda>(n, v). (n, create_string v)) kvs @ [(''_id'', JString (dec_int (ev_id e)))] @
     (case templates (nat (ev_id e)) of None \<Rightarrow> [] | Some n \<Rightarrow> [(''_name'', JString n)]) @
     (case ev_body e of None \<Rightarrow> [] | Some b \<Rightarrow> [(''_length'', JString (dec_nat (length b))), (''_body'', JString b)]))"

lemma serialize_item:
  assumes "event_headers M e kvs" "0 \<le> ev_id e" "ev_id e < EVENT_ID_LIMIT"
  shows "agc_event_serialize_json_obj M templates e = Some (event_item templates e kvs :: 'd json)"
proof -
  from assms(1) obtain cs where cs: "event_ok M e cs" "map snd cs = kvs" by (auto simp: event_headers_def)
  then have "header_items M (ev_headers e) = Some (map (\<lambda>(x, n, v). (n, create_string v :: 'd json)) cs)"
    by (intro header_items_seg) (simp add: event_ok_def)
  moreover have "map (\<lambda>(x, n, v). (n, create_string v)) cs = map (\<lambda>(n, v). (n, create_string v)) kvs"
    using cs(2) by (auto simp: case_prod_beta)
  ultimately show ?thesis using assms(2,3)
    by (simp add: agc_event_serialize_json_obj_def event_item_def)
qed

lemma serialize_text:
  assumes "event_headers M e kvs" "0 \<le> ev_id e" "ev_id e < EVENT_ID_LIMIT"
  shows "agc_event_serialize_json (pr :: 'd \<Rightarrow> string) M templates e =
    Some (cJSON_PrintUnformatted pr (event_item templates e kvs :: 'd json))"
  by (simp add: agc_event_serialize_json_def serialize_item [OF assms])

lemma c_string_dec: "CHR 0x00 \<notin> set (dec_nat n)"
  using dec_nat_digits [of "CHR 0x00" n] by (auto simp: is_digit_def)

definition c_strings :: "(nat \<Rightarrow> string option) \<Rightarrow> event \<Rightarrow> (string \<times> string option) list \<Rightarrow> bool" where
  "c_strings templates e kvs \<longleftrightarrow>
     (\<forall>(n, v)\<in>set kvs. CHR 0x00 \<notin> set n \<and> (case v of None \<Rightarrow> False | Some s \<Rightarrow> CHR 0x00 \<notin> set s)) \<and>
     (case templates (nat (ev_id e)) of None \<Rightarrow> True | Some n \<Rightarrow> CHR 0x00 \<notin> set n) \<and>
     (case ev_body e of None \<Rightarrow> True | Some b \<Rightarrow> CHR 0x00 \<notin> set b)"

lemma event_item_good:
  assumes "c_strings templates e kvs" "0 \<le> ev_id e"
  shows "good ok (event_item templates e kvs)"
proof -
  have id: "CHR 0x00 \<notin> set (dec_int (ev_id e))" using assms(2) c_string_dec by (simp add: dec_int_def)
  have kv: "CHR 0x00 \<notin> set n \<and> good ok (create_string v)" if "(n, v) \<in> set kvs" for n v
    using assms(1) that by (auto simp: c_strings_def create_string_def split: option.splits)
  have "\<forall>m\<in>set (map (\<lambda>(n, v). (n, create_string v)) kvs). CHR 0x00 \<notin> set (fst m) \<and> good ok (snd m)"
    using kv by auto
  moreover have "\<forall>m\<in>set ((case templates (nat (ev_id e)) of None \<Rightarrow> [] | Some n \<Rightarrow> [(''_name'', JString n)]) @
     (case ev_body e of None \<Rightarrow> [] | Some b \<Rightarrow> [(''_length'', JString (dec_nat (length b))), (''_body'', JString b)])).
     CHR 0x00 \<notin> set (fst m) \<and> good ok (snd m)"
    using assms(1) c_string_dec by (auto simp: c_strings_def split: option.splits)
  ultimately show ?thesis using id unfolding event_item_def good.simps set_append by auto
qed

lemma children_item:
  "\<forall>(n, v)\<in>set kvs. v \<noteq> None \<Longrightarrow> children (event_item templates e kvs) =
   map (\<lambda>(n, v). (Some n, v)) kvs @ [(Some ''_id'', Some (dec_int (ev_id e)))] @
   (case templates (nat (ev_id e)) of None \<Rightarrow> [] | Some n \<Rightarrow> [(Some ''_name'', Some n)]) @
   (case ev_body e of None \<Rightarrow> [] | Some b \<Rightarrow> [(Some ''_length'', Some (dec_nat (length b))), (Some ''_body'', Some b)])"
  by (auto simp: children_def event_item_def valuestring_def create_string_def split: option.split)

lemma parse_serialized:
  assumes "c_strings templates e kvs" "0 \<le> ev_id e"
  shows "cJSON_Parse conv (cJSON_PrintUnformatted pr (event_item templates e kvs :: 'd json)) =
    Done (event_item templates e kvs :: 'd json) []"
proof -
  have "good (num_ok conv pr) (event_item templates e kvs :: 'd json)" by (rule event_item_good [OF assms])
  from json_roundtrip_text [OF this, of "[]" False] show ?thesis
    by (simp add: delim_def cJSON_PrintUnformatted_def)
qed

lemma good_id:
  assumes "0 < ev_id e" "ev_id e < EVENT_ID_LIMIT"
  shows "atoi (dec_int (ev_id e)) = ev_id e" "\<not> EVENT_ID_IS_INVALID (ev_id e)"
proof -
  have "dec_int (ev_id e) = dec_nat (nat (ev_id e))" using assms by (simp add: dec_int_def)
  then show "atoi (dec_int (ev_id e)) = ev_id e" using assms atoi_dec_nat [of "nat (ev_id e)"] by simp
  show "\<not> EVENT_ID_IS_INVALID (ev_id e)" using assms by (simp add: EVENT_ID_IS_INVALID_def)
qed

text \<open>Reading the members of a serialised event up to the identifier.\<close>

lemma create_loop_upto_id:
  assumes "event_headers M e kvs" "distinct_names kvs" "0 < ev_id e" "ev_id e < EVENT_ID_LIMIT"
    and "\<forall>(n, v)\<in>set kvs. v \<noteq> None \<and> \<not> strcaseeq n ''_body'' \<and> \<not> strcaseeq n ''_id''"
  shows "\<exists>M' e'. create_loop M (agc_event_create 0 0)
       (map (\<lambda>(n, v). (Some n, v)) kvs @ (Some ''_id'', Some (dec_int (ev_id e))) # cs) = create_loop M' e' cs \<and>
     event_headers M' e' kvs \<and> ev_id e' = ev_id e \<and> ev_source e' = 0 \<and> ev_body e' = None"
proof -
  let ?cs = "(Some ''_id'', Some (dec_int (ev_id e))) # cs"
  from create_loop_headers [OF event_headers_create [OF assms(1)], of kvs 0 0 ?cs] assms(2,5) obtain M1 e1 where
    a: "create_loop M (agc_event_create 0 0) (map (\<lambda>(n, v). (Some n, v)) kvs @ (Some ''_id'', Some (dec_int (ev_id e))) # cs) =
      create_loop M1 e1 ((Some ''_id'', Some (dec_int (ev_id e))) # cs)" "event_headers M1 e1 kvs"
    "e1 = (agc_event_create 0 0)\<lparr>ev_headers := ev_headers e1, ev_last := ev_last e1\<rparr>"
    by (simp only: append_Nil) blast
  have "ev_source e1 = 0" "ev_body e1 = None" by (subst a(3), simp add: agc_event_create_def)+
  then show ?thesis using a(1,2) good_id [OF assms(3,4)] reserved_names
    by (intro exI [of _ M1] exI [of _ "e1\<lparr>ev_id := ev_id e\<rparr>"]) simp
qed

lemma not_reserved:
  assumes "\<forall>(n, v)\<in>set kvs. v \<noteq> None \<and> \<not> reserved n"
  shows "\<forall>(n, v)\<in>set kvs. v \<noteq> None \<and> \<not> strcaseeq n ''_body'' \<and> \<not> strcaseeq n ''_id''"
  using assms by (auto simp: reserved_def)

lemma distinct_added:
  assumes "distinct_names kvs" "\<forall>(n, v)\<in>set kvs. v \<noteq> None \<and> \<not> reserved n"
  shows "distinct_names (kvs @ added_headers templates e)"
proof -
  have "strcaseeq n m" if "map ascii_lower n = map ascii_lower m" for n m using that by (simp add: strcaseeq_def)
  moreover have "\<not> strcaseeq ''_name'' ''_length''" by (rule reserved_names)
  ultimately show ?thesis using assms
    by (fastforce simp: distinct_names_def added_headers_def reserved_def strcaseeq_def split: option.split)
qed

section \<open>Properties\<close>

text \<open>C17. An event with an identifier in range and distinct, unreserved header names survives the trip
  through JSON: the reader makes an event with the same identifier, body and headers, and keeps the
  members \<open>_name\<close> and \<open>_length\<close> as two further headers; the source is lost.\<close>

theorem event_json_roundtrip:
  fixes conv :: "string \<Rightarrow> 'd"
  assumes "event_headers M e kvs" "distinct_names kvs" "\<forall>(n, v)\<in>set kvs. v \<noteq> None \<and> \<not> reserved n"
    and "c_strings templates e kvs" "0 < ev_id e" "ev_id e < EVENT_ID_LIMIT"
  shows "\<exists>json. agc_event_serialize_json (pr :: 'd \<Rightarrow> string) M templates e = Some json \<and>
    (\<exists>M' e'. agc_event_create_json conv M json = Some (M', Some e') \<and>
       event_headers M' e' (kvs @ added_headers templates e) \<and>
       ev_id e' = ev_id e \<and> ev_source e' = 0 \<and> ev_body e' = ev_body e)"
proof -
  let ?i = "event_item templates e kvs :: 'd json"
  let ?cs = "(case templates (nat (ev_id e)) of None \<Rightarrow> [] | Some n \<Rightarrow> [(Some ''_name'', Some n)]) @
    (case ev_body e of None \<Rightarrow> [] | Some b \<Rightarrow> [(Some ''_length'', Some (dec_nat (length b))), (Some ''_body'', Some b)])"
  let ?bs = "(case ev_body e of None \<Rightarrow> [] | Some b \<Rightarrow> [(Some ''_body'', Some b)])"
  have cs: "?cs = map (\<lambda>(n, v). (Some n, v)) (added_headers templates e) @ ?bs"
    by (auto simp: added_headers_def split: option.split)
  from create_loop_upto_id [OF assms(1,2,5,6) not_reserved [OF assms(3)], of ?cs] obtain M1 e1 where
    a: "create_loop M (agc_event_create 0 0) (map (\<lambda>(n, v). (Some n, v)) kvs @ (Some ''_id'', Some (dec_int (ev_id e))) # ?cs) =
      create_loop M1 e1 ?cs" "event_headers M1 e1 kvs" "ev_id e1 = ev_id e" "ev_source e1 = 0" "ev_body e1 = None" by blast
  have h: "\<forall>(n, v)\<in>set (added_headers templates e). v \<noteq> None \<and> \<not> strcaseeq n ''_body'' \<and> \<not> strcaseeq n ''_id''"
    using reserved_names by (auto simp: added_headers_def split: option.split)
  from create_loop_headers [OF a(2) distinct_added [OF assms(2,3)] h] obtain M2 e2 where
    b: "create_loop M1 e1 ?cs = create_loop M2 e2 ?bs" "event_headers M2 e2 (kvs @ added_headers templates e)"
    "e2 = e1\<lparr>ev_headers := ev_headers e2, ev_last := ev_last e2\<rparr>"
    unfolding cs by blast
  have e2: "ev_id e2 = ev_id e" "ev_source e2 = 0" "ev_body e2 = None" using a(3-5) by (subst b(3), simp)+
  let ?e = "e2\<lparr>ev_body := ev_body e\<rparr>"
  have "create_loop M2 e2 ?bs = Some (M2, Some ?e)"
    using e2(3) by (cases "ev_body e") (simp_all add: agc_event_set_body_def)
  moreover have "\<forall>(n, v)\<in>set kvs. v \<noteq> None" using assms(3) by auto
  ultimately have "create_loop M (agc_event_create 0 0) (children ?i) = Some (M2, Some ?e)"
    using a(1) b(1) by (simp add: children_item)
  then have "agc_event_create_json conv M (cJSON_PrintUnformatted pr ?i) = Some (M2, Some ?e)"
    using parse_serialized [OF assms(4), of conv pr] assms(5) e2(1) good_id(2) [OF assms(5,6)]
    by (simp add: agc_event_create_json_def)
  moreover have "agc_event_serialize_json pr M templates e = Some (cJSON_PrintUnformatted pr ?i)"
    using serialize_text [OF assms(1), where templates = templates and pr = pr] assms(5,6) by simp
  moreover have "event_headers M2 ?e (kvs @ added_headers templates e)" "ev_id ?e = ev_id e" "ev_source ?e = 0"
    "ev_body ?e = ev_body e" using b(2) e2 by simp_all
  ultimately show ?thesis by blast
qed

definition demo_templates :: "nat \<Rightarrow> string option" where
  "demo_templates = (\<lambda>_. None)(4 := Some ''media2sig'')"

lemma demo_json_event:
  "ev_id demo_event = 4" "ev_body demo_event = Some ''b''"
  by (simp_all add: demo_event_def agc_event_create_def)

lemma demo_not_reserved: "\<not> reserved ''Name''" "\<not> reserved ''_t''"
  by code_simp+

lemma demo_c_strings: "c_strings demo_templates demo_event [(''Name'', Some ''v''), (''_t'', Some ''7'')]"
  by (simp add: c_strings_def demo_templates_def demo_json_event)

theorem event_json_roundtrip_witness:
  "\<exists>json. agc_event_serialize_json dec_nat demo_mem demo_templates demo_event = Some json \<and>
    (\<exists>M' e'. agc_event_create_json (\<lambda>s. nat (atol s)) demo_mem json = Some (M', Some e') \<and>
       event_headers M' e' [(''Name'', Some ''v''), (''_t'', Some ''7''), (''_name'', Some ''media2sig''), (''_length'', Some ''1'')] \<and>
       ev_id e' = 4 \<and> ev_source e' = 0 \<and> ev_body e' = Some ''b'')"
proof -
  have "dec_nat 1 = ''1''" by code_simp
  then have "added_headers demo_templates demo_event = [(''_name'', Some ''media2sig''), (''_length'', Some ''1'')]"
    by (simp add: added_headers_def demo_json_event demo_templates_def)
  then show ?thesis
    using event_json_roundtrip [OF demo_event_headers, where templates = demo_templates and pr = dec_nat
        and conv = "\<lambda>s. nat (atol s)"] demo_names demo_not_reserved demo_c_strings by (simp add: demo_json_event)
qed

text \<open>C35. An event that came in as JSON has a header \<open>_name\<close>; when such an event is sent again and
  read, the second \<open>_name\<close> is added over the first one, the header list becomes a cycle and looking up
  an absent header never ends.\<close>

theorem event_json_second_trip_hangs:
  fixes conv :: "string \<Rightarrow> 'd"
  assumes "event_headers M e kvs" "distinct_names kvs"
    and "\<forall>(n, v)\<in>set kvs. v \<noteq> None \<and> \<not> strcaseeq n ''_body'' \<and> \<not> strcaseeq n ''_id''"
    and "(''_name'', w) \<in> set kvs" "templates (nat (ev_id e)) = Some nm" "ev_body e = None"
    and "c_strings templates e kvs" "0 < ev_id e" "ev_id e < EVENT_ID_LIMIT"
    and "\<forall>(k, v)\<in>set kvs. \<not> strcaseeq k a"
  shows "\<exists>json. agc_event_serialize_json (pr :: 'd \<Rightarrow> string) M templates e = Some json \<and>
    (\<exists>M' e'. agc_event_create_json conv M json = Some (M', Some e') \<and>
       agc_event_get_header M' e' (Some a) = None)"
proof -
  let ?i = "event_item templates e kvs :: 'd json"
  let ?cs = "[(Some ''_name'', Some nm)]"
  from create_loop_upto_id [OF assms(1,2,8,9,3), of ?cs] obtain M1 e1 where
    a: "create_loop M (agc_event_create 0 0) (map (\<lambda>(n, v). (Some n, v)) kvs @ (Some ''_id'', Some (dec_int (ev_id e))) # ?cs) =
      create_loop M1 e1 ?cs" "event_headers M1 e1 kvs" "ev_id e1 = ev_id e" by blast
  from duplicate_cycles [OF a(2) assms(4) strcaseeq_refl assms(10), of nm] obtain M2 e2 where
    b: "agc_event_base_add_header M1 e1 ''_name'' nm = Some (M2, e2)" "agc_event_get_header M2 e2 (Some a) = None"
    "e2 = e1\<lparr>ev_last := ev_last e2\<rparr>" by blast
  have e2: "ev_id e2 = ev_id e" using a(3) by (subst b(3)) simp
  have "create_loop M1 e1 ?cs = Some (M2, Some e2)"
    using b(1) reserved_names by (simp add: agc_event_add_header_string_def)
  moreover have "\<forall>(n, v)\<in>set kvs. v \<noteq> None" using assms(3) by auto
  ultimately have "create_loop M (agc_event_create 0 0) (children ?i) = Some (M2, Some e2)"
    using a(1) assms(5,6) by (simp add: children_item)
  then have "agc_event_create_json conv M (cJSON_PrintUnformatted pr ?i) = Some (M2, Some e2)"
    using parse_serialized [OF assms(7), of conv pr] assms(8) e2 good_id(2) [OF assms(8,9)]
    by (simp add: agc_event_create_json_def)
  moreover have "agc_event_serialize_json pr M templates e = Some (cJSON_PrintUnformatted pr ?i)"
    using serialize_text [OF assms(1), where templates = templates and pr = pr] assms(8,9) by simp
  ultimately show ?thesis using b(2) by blast
qed

definition demo_mem2 :: emem where
  "demo_mem2 = \<lparr>em_headers = [1 \<mapsto> \<lparr>hd_name = ''_name'', hd_value = Some ''media2sig'', hd_next = NULL\<rparr>], em_brk = 2\<rparr>"

definition demo_event2 :: event where
  "demo_event2 = (agc_event_create 4 0)\<lparr>ev_headers := 1, ev_last := 1\<rparr>"

theorem event_json_second_trip_witness:
  "\<exists>json. agc_event_serialize_json dec_nat demo_mem2 demo_templates demo_event2 = Some json \<and>
    (\<exists>M' e'. agc_event_create_json (\<lambda>s. nat (atol s)) demo_mem2 json = Some (M', Some e') \<and>
       agc_event_get_header M' e' (Some ''_uuid'') = None)"
proof (rule event_json_second_trip_hangs)
  show "event_headers demo_mem2 demo_event2 [(''_name'', Some ''media2sig'')]"
    unfolding event_headers_def
    by (rule exI [of _ "[(1, ''_name'', Some ''media2sig'')]"])
      (simp add: event_ok_def demo_mem2_def demo_event2_def agc_event_create_def)
  show "\<forall>(n, v)\<in>set [(''_name'', Some ''media2sig'')]. v \<noteq> None \<and> \<not> strcaseeq n ''_body'' \<and> \<not> strcaseeq n ''_id''"
    using reserved_names by simp
  show "\<forall>(k, v)\<in>set [(''_name'', Some ''media2sig'')]. \<not> strcaseeq k ''_uuid''" by code_simp
qed (simp_all add: demo_event2_def agc_event_create_def demo_templates_def c_strings_def distinct_names_def)

end
