(* ===== verification/Buffers.thy ===== *)
theory Buffers
  imports Prelude
begin

text \<open>
  Byte buffers: what the components that write into memory of a known size share. A buffer is the
  list of its bytes; a write that does not fit is \<^term>\<open>None\<close>.
\<close>

text \<open>\<open>memcpy\<close> and \<open>strcpy\<close> into a buffer.\<close>

definition copy_at :: "string \<Rightarrow> nat \<Rightarrow> string \<Rightarrow> string option" where
  "copy_at buf off w = (if off + length w \<le> length buf
     then Some (take off buf @ w @ drop (off + length w) buf) else None)"

definition strcpy_at :: "string \<Rightarrow> nat \<Rightarrow> string \<Rightarrow> string option" where
  "strcpy_at buf off s = copy_at buf off (s @ [NUL])"

text \<open>
  \<open>realloc\<close>: \<^term>\<open>None\<close> when there is no memory, else the bytes beyond the old ones are whatever
  \<open>junk\<close> says.
\<close>

type_synonym memory = "(nat \<Rightarrow> char) option"

definition realloc_bytes :: "memory \<Rightarrow> string \<Rightarrow> nat \<Rightarrow> string option" where
  "realloc_bytes mem buf n = map_option (\<lambda>junk. take n buf @ map junk [length buf..<n]) mem"

definition strlen_of :: "string \<Rightarrow> nat option" where
  "strlen_of buf = (if NUL \<in> set buf then Some (length (takeWhile (\<lambda>c. c \<noteq> NUL) buf)) else None)"

section \<open>Strings in a buffer\<close>

definition holds_str :: "string \<Rightarrow> nat \<Rightarrow> string \<Rightarrow> bool" where
  "holds_str buf q s \<longleftrightarrow> q + length s < length buf \<and> (\<forall>k<length s. buf ! (q + k) = s ! k) \<and>
     buf ! (q + length s) = NUL \<and> NUL \<notin> set s"

lemma holds_str_cstr:
  assumes "holds_str buf q s"
  shows "cstr buf q = s"
proof -
  have "take (length s) (drop q buf) = s"
    using assms by (intro nth_equalityI) (auto simp: holds_str_def)
  moreover have "drop (length s) (drop q buf) = NUL # drop (Suc (q + length s)) buf"
    using assms by (auto simp: holds_str_def Cons_nth_drop_Suc add.commute dest: sym)
  ultimately have "drop q buf = s @ NUL # drop (Suc (q + length s)) buf" by (metis append_take_drop_id)
  moreover have "takeWhile (\<lambda>c. c \<noteq> NUL) (s @ NUL # t) = s" for t
    using assms by (subst takeWhile_append2) (auto simp: holds_str_def)
  ultimately show ?thesis by (simp add: cstr_def)
qed

lemma cstr_holds_str:
  assumes "q + length (cstr buf q) < length buf"
  shows "holds_str buf q (cstr buf q)"
proof -
  let ?s = "cstr buf q"
  have "buf ! (q + k) = ?s ! k" if "k < length ?s" for k
    using that takeWhile_nth [of k "\<lambda>c. c \<noteq> NUL" "drop q buf"] assms by (simp add: cstr_def)
  moreover have "drop q buf ! length ?s = NUL"
    using nth_length_takeWhile [of "\<lambda>c. c \<noteq> NUL" "drop q buf"] assms by (simp add: cstr_def)
  moreover have "NUL \<notin> set ?s" by (auto simp: cstr_def dest: set_takeWhileD)
  ultimately show ?thesis using assms by (auto simp: holds_str_def)
qed

lemma copy_at_nth:
  assumes "copy_at buf off w = Some buf'"
  shows "length buf' = length buf" "\<And>k. k < length buf \<Longrightarrow>
     buf' ! k = (if off \<le> k \<and> k < off + length w then w ! (k - off) else buf ! k)"
  using assms by (auto simp: copy_at_def nth_append split: if_splits)

lemma strcpy_holds:
  assumes "strcpy_at buf off s = Some buf'" "NUL \<notin> set s"
  shows "holds_str buf' off s"
proof -
  have c: "copy_at buf off (s @ [NUL]) = Some buf'" using assms(1) by (simp add: strcpy_at_def)
  then have "off + length s < length buf" by (auto simp: copy_at_def split: if_splits)
  then show ?thesis using copy_at_nth [OF c] assms(2) by (auto simp: holds_str_def nth_append)
qed

lemma strcpy_keeps:
  assumes "strcpy_at buf off s = Some buf'" "holds_str buf q t"
    and "q + length t < off \<or> off + length s < q"
  shows "holds_str buf' q t"
proof -
  have c: "copy_at buf off (s @ [NUL]) = Some buf'" using assms(1) by (simp add: strcpy_at_def)
  show ?thesis using copy_at_nth [OF c] assms(2,3) by (auto simp: holds_str_def)
qed

lemma strcpy_defined: "strcpy_at buf off s \<noteq> None \<longleftrightarrow> off + length s < length buf"
  by (auto simp: strcpy_at_def copy_at_def)

lemma strcpy_length: "strcpy_at buf off s = Some buf' \<Longrightarrow> length buf' = length buf"
  using copy_at_nth(1) by (auto simp: strcpy_at_def)

lemma realloc_larger: "length buf \<le> n \<Longrightarrow> realloc_bytes (Some junk) buf n = Some (buf @ map junk [length buf..<n])"
  by (simp add: realloc_bytes_def)

lemma strlen_text: "NUL \<notin> set s \<Longrightarrow> strlen_of (s @ NUL # r) = Some (length s)"
  unfolding strlen_of_def by (subst takeWhile_append2) auto

lemma copy_at_end:
  "length w \<le> length r \<Longrightarrow> copy_at (s @ r) (length s) w = Some (s @ w @ drop (length w) r)"
  by (simp add: copy_at_def)

end
