(* ===== verification/Fast_Event.thy ===== *)
theory Fast_Event
  imports Event_Object Buffers
begin

text \<open>
  Fast events (\<open>src/agc_event.c\<close>): events that are allocated once, with room for fixed headers, and
  kept in a queue per type. The strings of an event lie in one block: for every header the room for
  its name and its value, then the body. The model keeps that block as one buffer and the headers as
  offsets into it, so a string that is too long for its room runs into the next one, as in the code;
  a write past the block is \<^term>\<open>None\<close>. The queues are those of the APR library: \<open>trypush\<close> fails when
  the queue is full, \<open>trypop\<close> when it is empty.
\<close>

section \<open>State and operations\<close>

record fast_payload =
  fp_type :: nat
  fp_headers :: "(nat \<times> nat) list"
  fp_buf :: string

record fast_event =
  fe_id :: int
  fe_fast :: fast_payload
  fe_body :: "nat option"
  fe_callback :: ptr
  fe_context :: ptr

record fast_state =
  fs_events :: "ptr \<Rightarrow> fast_event option"
  fs_brk :: ptr
  fs_queues :: "nat \<Rightarrow> ptr list option"
  fs_limit :: "nat \<Rightarrow> nat"

abbreviation EVENT_FAST_TYPE_CallBack :: int where
  "EVENT_FAST_TYPE_CallBack \<equiv> 0"

abbreviation EVENT_FAST_TYPE_Invalid :: int where
  "EVENT_FAST_TYPE_Invalid \<equiv> 27"

abbreviation EVENT_HEADER_TYPE :: string where
  "EVENT_HEADER_TYPE \<equiv> ''_t''"

definition trypush :: "fast_state \<Rightarrow> nat \<Rightarrow> ptr \<Rightarrow> (fast_state \<times> bool) option" where
  "trypush S t p = map_option (\<lambda>q. if length q < fs_limit S t
     then (S\<lparr>fs_queues := (fs_queues S)(t \<mapsto> q @ [p])\<rparr>, True) else (S, False)) (fs_queues S t)"

definition trypop :: "fast_state \<Rightarrow> nat \<Rightarrow> (fast_state \<times> ptr option) option" where
  "trypop S t = map_option (\<lambda>q. case q of
     [] \<Rightarrow> (S, None) | p # q \<Rightarrow> (S\<lparr>fs_queues := (fs_queues S)(t \<mapsto> q)\<rparr>, Some p)) (fs_queues S t)"

text \<open>The places of the names and values, given the header names and the room for the values.\<close>

fun room :: "string \<times> nat \<Rightarrow> nat" where
  "room (h, l) = length h + 1 + l"

fun layout :: "nat \<Rightarrow> (string \<times> nat) list \<Rightarrow> (nat \<times> nat) list" where
  "layout off [] = []"
| "layout off ((h, l) # hs) = (off, off + length h + 1) # layout (off + room (h, l)) hs"

definition fast_event_create :: "nat \<Rightarrow> int \<Rightarrow> (string \<times> nat) list \<Rightarrow> nat \<Rightarrow> fast_event option" where
  "fast_event_create fast_event_type event_id hs bodylength = do {
     let n = sum_list (map room hs);
     let headers = layout 0 hs;
     let buff = replicate (n + bodylength) NUL;
     buff \<leftarrow> (case headers of
        [] \<Rightarrow> Some buff
      | (name, val) # _ \<Rightarrow> do {
          buff \<leftarrow> strcpy_at buff name EVENT_HEADER_TYPE;
          strcpy_at buff val (dec_nat fast_event_type) });
     Some \<lparr>fe_id = event_id, fe_fast = \<lparr>fp_type = fast_event_type, fp_headers = headers, fp_buf = buff\<rparr>,
       fe_body = (if 0 < bodylength then Some n else None), fe_callback = NULL, fe_context = NULL\<rparr> }"

definition new_fast_event :: "fast_state \<Rightarrow> fast_event \<Rightarrow> fast_state \<times> ptr" where
  "new_fast_event S e = (let p = fs_brk S in (S\<lparr>fs_events := (fs_events S)(p \<mapsto> e), fs_brk := p + 1\<rparr>, p))"

fun initial_loop :: "nat \<Rightarrow> fast_state \<Rightarrow> nat \<Rightarrow> int \<Rightarrow> (string \<times> nat) list \<Rightarrow> nat \<Rightarrow> (fast_state \<times> agc_status) option" where
  "initial_loop 0 S t event_id hs bodylength = Some (S, AGC_STATUS_SUCCESS)"
| "initial_loop (Suc i) S t event_id hs bodylength = do {
     e \<leftarrow> fast_event_create t event_id hs bodylength;
     let (S, p) = new_fast_event S e;
     (S, ok) \<leftarrow> trypush S t p;
     if ok then initial_loop i S t event_id hs bodylength else Some (S, AGC_STATUS_GENERR) }"

text \<open>A negative type is used as an index before the array.\<close>

definition agc_event_fast_initial ::
  "fast_state \<Rightarrow> int \<Rightarrow> int \<Rightarrow> nat \<Rightarrow> (string \<times> nat) list \<Rightarrow> nat \<Rightarrow> (fast_state \<times> agc_status) option" where
  "agc_event_fast_initial S fast_event_type event_id capacity hs bodylength =
     (if EVENT_FAST_TYPE_Invalid \<le> fast_event_type then Some (S, AGC_STATUS_GENERR)
      else if fast_event_type < 0 then None
      else (let t = nat fast_event_type in
        if fs_queues S t \<noteq> None then Some (S, AGC_STATUS_GENERR)
        else initial_loop capacity
          (S\<lparr>fs_queues := (fs_queues S)(t \<mapsto> []), fs_limit := (fs_limit S)(t := capacity + 10)\<rparr>)
          t event_id hs bodylength))"

definition agc_event_fast_alloc :: "fast_state \<Rightarrow> int \<Rightarrow> (fast_state \<times> (agc_status + ptr)) option" where
  "agc_event_fast_alloc S fast_event_type =
     (if EVENT_FAST_TYPE_Invalid \<le> fast_event_type then Some (S, Inl AGC_STATUS_GENERR)
      else if fast_event_type < 0 then None
      else if fs_queues S (nat fast_event_type) = None then Some (S, Inl AGC_STATUS_GENERR)
      else map_option (\<lambda>(S, p). (S, case p of None \<Rightarrow> Inl AGC_STATUS_GENERR | Some p \<Rightarrow> Inr p))
        (trypop S (nat fast_event_type)))"

definition upd_event :: "fast_state \<Rightarrow> ptr \<Rightarrow> (fast_event \<Rightarrow> fast_event) \<Rightarrow> fast_state option" where
  "upd_event S p f = map_option (\<lambda>e. S\<lparr>fs_events := (fs_events S)(p \<mapsto> f e)\<rparr>) (fs_events S p)"

definition agc_event_fast_create_callback ::
  "fast_state \<Rightarrow> ptr \<Rightarrow> ptr \<Rightarrow> (fast_state \<times> (agc_status + ptr)) option" where
  "agc_event_fast_create_callback S data callback = do {
     (S, r) \<leftarrow> agc_event_fast_alloc S EVENT_FAST_TYPE_CallBack;
     case r of
       Inl _ \<Rightarrow> Some (S, Inl AGC_STATUS_GENERR)
     | Inr p \<Rightarrow> map_option (\<lambda>S. (S, Inr p)) (upd_event S p (\<lambda>e. e\<lparr>fe_callback := callback, fe_context := data\<rparr>)) }"

text \<open>The header at an index: none for a null event or an index too large.\<close>

definition fast_get_header :: "fast_state \<Rightarrow> ptr \<Rightarrow> int \<Rightarrow> (nat \<times> nat) option option" where
  "fast_get_header S event index =
     (if event = NULL then Some None
      else do {
        e \<leftarrow> fs_events S event;
        if int (length (fp_headers (fe_fast e))) \<le> index then Some None
        else if index < 0 then None
        else Some (Some (fp_headers (fe_fast e) ! nat index)) })"

definition set_header :: "fast_state \<Rightarrow> ptr \<Rightarrow> int \<Rightarrow> string \<Rightarrow> string \<Rightarrow> (fast_state \<times> agc_status) option" where
  "set_header S event index name text = do {
     header \<leftarrow> fast_get_header S event index;
     case header of
       None \<Rightarrow> Some (S, AGC_STATUS_GENERR)
     | Some (nm, val) \<Rightarrow> do {
         e \<leftarrow> fs_events S event;
         buf \<leftarrow> strcpy_at (fp_buf (fe_fast e)) nm name;
         buf \<leftarrow> strcpy_at buf val text;
         S \<leftarrow> upd_event S event (\<lambda>e. e\<lparr>fe_fast := (fe_fast e)\<lparr>fp_buf := buf\<rparr>\<rparr>);
         Some (S, AGC_STATUS_SUCCESS) } }"

definition agc_event_fast_set_strheader ::
  "fast_state \<Rightarrow> ptr \<Rightarrow> int \<Rightarrow> string \<Rightarrow> string \<Rightarrow> (fast_state \<times> agc_status) option" where
  "agc_event_fast_set_strheader S event index name val = set_header S event index name val"

definition agc_event_fast_set_intheader ::
  "fast_state \<Rightarrow> ptr \<Rightarrow> int \<Rightarrow> string \<Rightarrow> int \<Rightarrow> (fast_state \<times> agc_status) option" where
  "agc_event_fast_set_intheader S event index name val = set_header S event index name (dec_int val)"

definition agc_event_fast_set_uintheader ::
  "fast_state \<Rightarrow> ptr \<Rightarrow> int \<Rightarrow> string \<Rightarrow> 32 word \<Rightarrow> (fast_state \<times> agc_status) option" where
  "agc_event_fast_set_uintheader S event index name val = set_header S event index name (dec_nat (unat val))"

definition agc_event_fast_get_type :: "fast_state \<Rightarrow> ptr \<Rightarrow> (agc_status + int) option" where
  "agc_event_fast_get_type S event = do {
     header \<leftarrow> fast_get_header S event 0;
     case header of
       None \<Rightarrow> Some (Inl AGC_STATUS_GENERR)
     | Some (_, val) \<Rightarrow> map_option (\<lambda>e. Inr (atoi (cstr (fp_buf (fe_fast e)) val))) (fs_events S event) }"

text \<open>The result of \<open>trypush\<close> is ignored when an event goes back.\<close>

definition agc_event_fast_release :: "fast_state \<Rightarrow> ptr \<Rightarrow> (fast_state \<times> agc_status) option" where
  "agc_event_fast_release S event =
     (if event = NULL then Some (S, AGC_STATUS_FALSE)
      else do {
        e \<leftarrow> fs_events S event;
        (S, _) \<leftarrow> trypush S (fp_type (fe_fast e)) event;
        Some (S, AGC_STATUS_SUCCESS) })"

definition agc_event_fast_set_body :: "fast_state \<Rightarrow> ptr \<Rightarrow> string \<Rightarrow> nat \<Rightarrow> (fast_state \<times> agc_status) option" where
  "agc_event_fast_set_body S event body len =
     (if event = NULL then Some (S, AGC_STATUS_FALSE)
      else do {
        e \<leftarrow> fs_events S event;
        case fe_body e of
          None \<Rightarrow> Some (S, AGC_STATUS_FALSE)
        | Some off \<Rightarrow> do {
            ensure (len \<le> length body);
            buf \<leftarrow> copy_at (fp_buf (fe_fast e)) off (take len body);
            S \<leftarrow> upd_event S event (\<lambda>e. e\<lparr>fe_fast := (fe_fast e)\<lparr>fp_buf := buf\<rparr>\<rparr>);
            Some (S, AGC_STATUS_SUCCESS) } })"

section \<open>The layout\<close>

lemma layout_length [simp]: "length (layout off hs) = length hs"
  by (induction off hs rule: layout.induct) auto

lemma room_eq: "room h = length (fst h) + 1 + snd h"
  by (cases h) simp

definition start_of :: "(string \<times> nat) list \<Rightarrow> nat \<Rightarrow> nat" where
  "start_of hs i = sum_list (map room (take i hs))"

lemma layout_nth:
  "i < length hs \<Longrightarrow> layout off hs ! i = (off + start_of hs i, off + start_of hs i + length (fst (hs ! i)) + 1)"
proof (induction off hs arbitrary: i rule: layout.induct)
  case (2 off h l hs)
  then show ?case by (cases i) (auto simp: start_of_def)
qed simp

lemma start_of_Suc: "i < length hs \<Longrightarrow> start_of hs (Suc i) = start_of hs i + room (hs ! i)"
  by (simp add: start_of_def take_Suc_conv_app_nth)

lemma start_of_mono: "i \<le> j \<Longrightarrow> start_of hs i \<le> start_of hs j"
proof (induction j)
  case (Suc j)
  have "start_of hs j \<le> start_of hs (Suc j)"
    by (cases "j < length hs") (simp add: start_of_Suc, simp add: start_of_def)
  then show ?case using Suc by (cases "i = Suc j") auto
qed simp

lemma start_of_next: "i < j \<Longrightarrow> i < length hs \<Longrightarrow> start_of hs i + room (hs ! i) \<le> start_of hs j"
  using start_of_mono [of "Suc i" j hs] start_of_Suc [of i hs] by simp

definition name_at :: "(string \<times> nat) list \<Rightarrow> nat \<Rightarrow> nat" where
  "name_at hs i = start_of hs i"

definition value_at :: "(string \<times> nat) list \<Rightarrow> nat \<Rightarrow> nat" where
  "value_at hs i = start_of hs i + length (fst (hs ! i)) + 1"

text \<open>The header that an event holds at an index, and the invariant: every string ends in its own room.\<close>

definition header_at :: "fast_event \<Rightarrow> nat \<Rightarrow> string \<times> string" where
  "header_at e i = (case fp_headers (fe_fast e) ! i of (nm, val) \<Rightarrow> (cstr (fp_buf (fe_fast e)) nm, cstr (fp_buf (fe_fast e)) val))"

definition fast_ok :: "fast_event \<Rightarrow> (string \<times> nat) list \<Rightarrow> bool" where
  "fast_ok e hs \<longleftrightarrow> fp_headers (fe_fast e) = layout 0 hs \<and>
     sum_list (map room hs) \<le> length (fp_buf (fe_fast e)) \<and>
     (\<forall>i<length hs. \<exists>n v. holds_str (fp_buf (fe_fast e)) (name_at hs i) n \<and> length n \<le> length (fst (hs ! i)) \<and>
        holds_str (fp_buf (fe_fast e)) (value_at hs i) v \<and> length v < snd (hs ! i))"

lemma start_of_total: "start_of hs (length hs) = sum_list (map room hs)"
  by (simp add: start_of_def)

lemma header_at_layout:
  assumes "fp_headers (fe_fast e) = layout 0 hs" "i < length hs"
  shows "header_at e i = (cstr (fp_buf (fe_fast e)) (name_at hs i), cstr (fp_buf (fe_fast e)) (value_at hs i))"
  using assms by (simp add: header_at_def layout_nth name_at_def value_at_def)

text \<open>Writing a header that fits.\<close>

lemma write_header:
  assumes ok: "fast_ok e hs" and i: "i < length hs" and n: "length n \<le> length (fst (hs ! i))" "NUL \<notin> set n"
    and v: "length v < snd (hs ! i)" "NUL \<notin> set v"
  shows "\<exists>b1 b2. strcpy_at (fp_buf (fe_fast e)) (name_at hs i) n = Some b1 \<and>
     strcpy_at b1 (value_at hs i) v = Some b2 \<and>
     (let e' = e\<lparr>fe_fast := (fe_fast e)\<lparr>fp_buf := b2\<rparr>\<rparr> in
      fast_ok e' hs \<and> header_at e' i = (n, v) \<and>
      (\<forall>j<length hs. j \<noteq> i \<longrightarrow> header_at e' j = header_at e j))"
proof -
  let ?b = "fp_buf (fe_fast e)"
  have fits: "start_of hs i + room (hs ! i) \<le> length ?b"
    using start_of_next [of i "length hs" hs] i start_of_total [of hs] ok by (simp add: fast_ok_def)
  have "name_at hs i + length n < length ?b" using fits n by (simp add: name_at_def room_eq)
  then obtain b1 where b1: "strcpy_at ?b (name_at hs i) n = Some b1" using strcpy_defined by blast
  have "value_at hs i + length v < length b1"
    using fits v strcpy_length [OF b1] by (simp add: value_at_def room_eq)
  then obtain b2 where b2: "strcpy_at b1 (value_at hs i) v = Some b2" using strcpy_defined by blast
  let ?e = "e\<lparr>fe_fast := (fe_fast e)\<lparr>fp_buf := b2\<rparr>\<rparr>"
  have sep: "q + length t < name_at hs i \<or> value_at hs i + length v < q"
    if "j < length hs" "j \<noteq> i" "start_of hs j \<le> q" "q + length t < start_of hs j + room (hs ! j)" for j q t
    using that start_of_next [of i j hs] start_of_next [of j i hs] i n v
    by (cases "i < j") (simp_all add: name_at_def value_at_def room_eq)
  have keep: "holds_str b2 q t"
    if "holds_str ?b q t" "q + length t < name_at hs i \<or> value_at hs i + length v < q" for q t
  proof -
    have "holds_str b1 q t" using that n by (intro strcpy_keeps [OF b1]) (auto simp: name_at_def value_at_def)
    then show ?thesis using that by (intro strcpy_keeps [OF b2]) (auto simp: name_at_def value_at_def)
  qed
  have name: "holds_str b2 (name_at hs i) n"
    using n by (intro strcpy_keeps [OF b2 strcpy_holds [OF b1 n(2)]]) (auto simp: name_at_def value_at_def)
  have val: "holds_str b2 (value_at hs i) v" by (rule strcpy_holds [OF b2 v(2)])
  have other: "\<exists>n v. holds_str ?b (name_at hs j) n \<and> length n \<le> length (fst (hs ! j)) \<and>
      holds_str ?b (value_at hs j) v \<and> length v < snd (hs ! j) \<and>
      holds_str b2 (name_at hs j) n \<and> holds_str b2 (value_at hs j) v" if "j < length hs" "j \<noteq> i" for j
  proof -
    from ok that(1) obtain n v where h: "holds_str ?b (name_at hs j) n" "length n \<le> length (fst (hs ! j))"
      "holds_str ?b (value_at hs j) v" "length v < snd (hs ! j)" by (auto simp: fast_ok_def)
    have "holds_str b2 (name_at hs j) n"
      by (rule keep [OF h(1)], rule sep [OF that]) (use h(2) in \<open>simp_all add: name_at_def room_eq\<close>)
    moreover have "holds_str b2 (value_at hs j) v"
      by (rule keep [OF h(3)], rule sep [OF that]) (use h(4) in \<open>simp_all add: value_at_def room_eq\<close>)
    ultimately show ?thesis using h by blast
  qed
  have "\<exists>n v. holds_str b2 (name_at hs j) n \<and> length n \<le> length (fst (hs ! j)) \<and>
      holds_str b2 (value_at hs j) v \<and> length v < snd (hs ! j)" if "j < length hs" for j
  proof (cases "j = i")
    case True
    then show ?thesis using name val n v by blast
  next
    case False
    from other [OF that False] show ?thesis by blast
  qed
  then have "fast_ok ?e hs" using ok strcpy_length [OF b1] strcpy_length [OF b2] by (simp add: fast_ok_def)
  moreover have "header_at ?e i = (n, v)"
    using ok i name val by (subst header_at_layout) (auto simp: fast_ok_def holds_str_cstr)
  moreover have "header_at ?e j = header_at e j" if "j < length hs" "j \<noteq> i" for j
  proof -
    from other [OF that] obtain n v where "holds_str ?b (name_at hs j) n" "holds_str ?b (value_at hs j) v"
      "holds_str b2 (name_at hs j) n" "holds_str b2 (value_at hs j) v" by blast
    then show ?thesis using ok that by (simp add: header_at_layout [of _ hs] fast_ok_def holds_str_cstr)
  qed
  ultimately show ?thesis using b1 b2 by (simp add: Let_def)
qed

section \<open>New events\<close>

text \<open>What the caller has to provide for the headers of a type.\<close>

definition headers_fit :: "nat \<Rightarrow> (string \<times> nat) list \<Rightarrow> bool" where
  "headers_fit t hs \<longleftrightarrow> (\<forall>h\<in>set hs. 0 < snd h) \<and>
     (hs \<noteq> [] \<longrightarrow> 2 \<le> length (fst (hd hs)) \<and> length (dec_nat t) < snd (hd hs))"

lemma no_nul_dec_nat: "NUL \<notin> set (dec_nat n)"
  using dec_nat_digits [of NUL n] by (auto simp: is_digit_def)

lemma create_ok:
  assumes "headers_fit t hs"
  shows "\<exists>e. fast_event_create t i hs bl = Some e \<and> fast_ok e hs \<and> fp_type (fe_fast e) = t \<and> fe_id e = i \<and>
     (hs \<noteq> [] \<longrightarrow> header_at e 0 = (EVENT_HEADER_TYPE, dec_nat t)) \<and>
     length (fp_buf (fe_fast e)) = sum_list (map room hs) + bl"
proof -
  let ?n = "sum_list (map room hs)" and ?b = "replicate (sum_list (map room hs) + bl) NUL"
  let ?e = "\<lambda>b. \<lparr>fe_id = i, fe_fast = \<lparr>fp_type = t, fp_headers = layout 0 hs, fp_buf = b\<rparr>,
     fe_body = (if 0 < bl then Some ?n else None), fe_callback = NULL, fe_context = NULL\<rparr>"
  have zero: "holds_str ?b q []" if "q < ?n" for q using that by (simp add: holds_str_def)
  have "holds_str ?b (name_at hs j) [] \<and> holds_str ?b (value_at hs j) []" if "j < length hs" for j
  proof -
    have "start_of hs j + room (hs ! j) \<le> ?n" using start_of_next [OF that that] start_of_total [of hs] by simp
    moreover have "0 < snd (hs ! j)" using assms that by (auto simp: headers_fit_def)
    ultimately show ?thesis by (auto simp: name_at_def value_at_def room_eq intro!: zero)
  qed
  moreover have "0 < snd (hs ! j)" if "j < length hs" for j using assms that by (auto simp: headers_fit_def)
  ultimately have ok: "fast_ok (?e ?b) hs" by (auto simp: fast_ok_def intro!: exI [of _ "[]"])
  show ?thesis
  proof (cases hs)
    case Nil
    then show ?thesis using ok by (auto simp: fast_event_create_def fast_ok_def)
  next
    case (Cons h hs')
    then have z: "0 < length hs" "fst (hs ! 0) = fst h" "snd (hs ! 0) = snd h" by auto
    have "length EVENT_HEADER_TYPE \<le> length (fst (hs ! 0))" "length (dec_nat t) < snd (hs ! 0)"
      "NUL \<notin> set EVENT_HEADER_TYPE" using assms Cons by (auto simp: headers_fit_def)
    from write_header [OF ok z(1) this(1,3,2) no_nul_dec_nat] obtain b1 b2 where w:
      "strcpy_at ?b (name_at hs 0) EVENT_HEADER_TYPE = Some b1" "strcpy_at b1 (value_at hs 0) (dec_nat t) = Some b2"
      "fast_ok (?e b2) hs" "header_at (?e b2) 0 = (EVENT_HEADER_TYPE, dec_nat t)" by (auto simp: Let_def)
    obtain a l where h: "h = (a, l)" by (cases h)
    have "name_at hs 0 = 0" "value_at hs 0 = length a + 1"
      using Cons h by (simp_all add: name_at_def value_at_def start_of_def)
    then have "fast_event_create t i hs bl = Some (?e b2)"
      using w(1,2) Cons h by (simp add: fast_event_create_def Let_def)
    then show ?thesis using w(3,4) strcpy_length [OF w(1)] strcpy_length [OF w(2)] by simp
  qed
qed

text \<open>Filling the queue of a type with new events.\<close>

lemma initial_loop_ok:
  assumes "headers_fit t hs"
  shows "fs_queues S t = Some q \<Longrightarrow> length q + n \<le> fs_limit S t \<Longrightarrow> 0 < fs_brk S \<Longrightarrow>
    (\<forall>x\<in>set q. x < fs_brk S) \<Longrightarrow> distinct q \<Longrightarrow>
    \<exists>S' new. initial_loop n S t i hs bl = Some (S', AGC_STATUS_SUCCESS) \<and> fs_queues S' t = Some (q @ new) \<and>
      length new = n \<and> distinct (q @ new) \<and> fs_limit S' = fs_limit S \<and> 0 < fs_brk S' \<and>
      (\<forall>x\<in>set new. fs_brk S \<le> x \<and> (\<exists>e. fs_events S' x = Some e \<and> fast_ok e hs \<and> fp_type (fe_fast e) = t \<and> fe_id e = i)) \<and>
      (\<forall>x<fs_brk S. fs_events S' x = fs_events S x) \<and> (\<forall>t'. t' \<noteq> t \<longrightarrow> fs_queues S' t' = fs_queues S t')"
proof (induction n arbitrary: S q)
  case 0
  then show ?case by (intro exI [of _ S] exI [of _ "[]"]) simp
next
  case (Suc n)
  obtain e where e: "fast_event_create t i hs bl = Some e" "fast_ok e hs" "fp_type (fe_fast e) = t" "fe_id e = i"
    using create_ok [OF assms, of i bl] by blast
  let ?p = "fs_brk S"
  let ?S = "S\<lparr>fs_events := (fs_events S)(?p \<mapsto> e), fs_brk := ?p + 1, fs_queues := (fs_queues S)(t \<mapsto> q @ [?p])\<rparr>"
  have step: "initial_loop (Suc n) S t i hs bl = initial_loop n ?S t i hs bl"
    using e(1) Suc.prems(1,2) by (simp add: new_fast_event_def trypush_def Let_def)
  have "\<forall>x\<in>set (q @ [?p]). x < fs_brk ?S" using Suc.prems(4) by auto
  moreover have "distinct (q @ [?p])" using Suc.prems(4,5) by auto
  ultimately obtain S' new where ih: "initial_loop n ?S t i hs bl = Some (S', AGC_STATUS_SUCCESS)"
    "fs_queues S' t = Some ((q @ [?p]) @ new)" "length new = n" "distinct ((q @ [?p]) @ new)" "fs_limit S' = fs_limit S"
    "0 < fs_brk S'"
    "\<forall>x\<in>set new. ?p + 1 \<le> x \<and> (\<exists>e. fs_events S' x = Some e \<and> fast_ok e hs \<and> fp_type (fe_fast e) = t \<and> fe_id e = i)"
    "\<forall>x<?p + 1. fs_events S' x = fs_events ?S x" "\<forall>t'. t' \<noteq> t \<longrightarrow> fs_queues S' t' = fs_queues S t'"
    using Suc.IH [of ?S "q @ [?p]"] Suc.prems(1-3) by auto
  have "fs_events S' ?p = Some e" using ih(8) by simp
  then show ?case using ih step e(2-4)
    by (intro exI [of _ S'] exI [of _ "?p # new"]) (auto simp: less_Suc_eq_le Suc_le_eq intro: less_imp_le)
qed

section \<open>The pool of a type\<close>

text \<open>
  The users of the pool of a type: an event that was allocated is held by its user (the list \<open>out\<close>)
  until the user releases it, once; in between the user sets its headers.
\<close>

inductive pool_step :: "nat \<Rightarrow> fast_state \<times> ptr list \<Rightarrow> fast_state \<times> ptr list \<Rightarrow> bool" for t where
  ps_alloc: "agc_event_fast_alloc S (int t) = Some (S', Inr p) \<Longrightarrow> pool_step t (S, out) (S', p # out)"
| ps_empty: "agc_event_fast_alloc S (int t) = Some (S', Inl st) \<Longrightarrow> pool_step t (S, out) (S', out)"
| ps_release: "p \<in> set out \<Longrightarrow> agc_event_fast_release S p = Some (S', st) \<Longrightarrow> pool_step t (S, out) (S', remove1 p out)"
| ps_set: "p \<in> set out \<Longrightarrow> agc_event_fast_set_strheader S p i n v = Some (S', st) \<Longrightarrow> pool_step t (S, out) (S', out)"

inductive_cases pool_stepE: "pool_step t c c'"

definition pool_ok :: "nat \<Rightarrow> nat \<Rightarrow> fast_state \<times> ptr list \<Rightarrow> bool" where
  "pool_ok t n c \<longleftrightarrow> t < 27 \<and> (\<exists>q. fs_queues (fst c) t = Some q \<and> distinct (q @ snd c) \<and> length q + length (snd c) = n \<and>
     n \<le> fs_limit (fst c) t \<and>
     (\<forall>p\<in>set (q @ snd c). p \<noteq> NULL \<and> (\<exists>e. fs_events (fst c) p = Some e \<and> fp_type (fe_fast e) = t)))"

lemma pool_ok_step:
  assumes "pool_step t c c'" "pool_ok t n c"
  shows "pool_ok t n c'"
  using assms(1)
proof cases
  case (ps_alloc S S' p out)
  then show ?thesis using assms(2)
    by (fastforce simp: pool_ok_def agc_event_fast_alloc_def trypop_def split: if_splits list.splits)
next
  case (ps_empty S S' st out)
  then show ?thesis using assms(2)
    by (fastforce simp: pool_ok_def agc_event_fast_alloc_def trypop_def split: if_splits list.splits)
next
  case (ps_release p out S S' st)
  obtain q where q: "t < 27" "fs_queues S t = Some q" "distinct (q @ out)" "length q + length out = n" "n \<le> fs_limit S t"
    "\<forall>p\<in>set (q @ out). p \<noteq> NULL \<and> (\<exists>e. fs_events S p = Some e \<and> fp_type (fe_fast e) = t)"
    using assms(2) ps_release(1) by (auto simp: pool_ok_def)
  have "length q < fs_limit S t" using q(4,5) ps_release(3) by (cases out) auto
  moreover obtain e where e: "p \<noteq> NULL" "fs_events S p = Some e" "fp_type (fe_fast e) = t" using q(6) ps_release(3) by auto
  ultimately have "S' = S\<lparr>fs_queues := (fs_queues S)(t \<mapsto> q @ [p])\<rparr>"
    using ps_release(4) q(2) by (simp add: agc_event_fast_release_def trypush_def)
  moreover have "distinct ((q @ [p]) @ remove1 p out)" using q(3) ps_release(3) by (auto dest: notin_set_remove1)
  moreover have "Suc (length q) + length (remove1 p out) = n"
    using q(4) ps_release(3) Suc_pred [OF length_pos_if_in_set [OF ps_release(3)]]
    by (simp add: length_remove1 del: length_greater_0_conv)
  ultimately show ?thesis using ps_release(1,2) q e by (auto simp: pool_ok_def dest: notin_set_remove1)
next
  case (ps_set p out S i m v S' st)
  have same: "fs_queues S' = fs_queues S" "fs_limit S' = fs_limit S"
    "\<And>x e. fs_events S x = Some e \<Longrightarrow> \<exists>e'. fs_events S' x = Some e' \<and> fp_type (fe_fast e') = fp_type (fe_fast e)"
    using ps_set(4)
    by (auto simp: agc_event_fast_set_strheader_def set_header_def upd_event_def bind_eq_Some_conv split: option.splits)
  obtain q where q: "t < 27" "fs_queues S t = Some q" "distinct (q @ out)" "length q + length out = n" "n \<le> fs_limit S t"
    "\<forall>p\<in>set (q @ out). p \<noteq> NULL \<and> (\<exists>e. fs_events S p = Some e \<and> fp_type (fe_fast e) = t)"
    using assms(2) ps_set(1) by (auto simp: pool_ok_def)
  have "x \<noteq> NULL \<and> (\<exists>e. fs_events S' x = Some e \<and> fp_type (fe_fast e) = t)" if "x \<in> set (q @ out)" for x
    using q(6) that same(3) by blast
  then show ?thesis using ps_set(2) q(1-5) same(1,2) by (simp add: pool_ok_def)
qed

lemma pool_ok_steps: "(pool_step t)\<^sup>*\<^sup>* c c' \<Longrightarrow> pool_ok t n c \<Longrightarrow> pool_ok t n c'"
  by (induction rule: rtranclp_induct) (auto intro: pool_ok_step)

section \<open>Properties\<close>

text \<open>Setting a header of a fast event that fits its room stores the name and the value, keeps
  every other header of the event and every other event, and keeps the strings in their rooms.\<close>

lemma fast_header_set:
  assumes "fs_events S p = Some e" "p \<noteq> NULL" "fast_ok e hs" "i < length hs"
    and "length n \<le> length (fst (hs ! i))" "NUL \<notin> set n" "length v < snd (hs ! i)" "NUL \<notin> set v"
  shows "\<exists>S' e'. agc_event_fast_set_strheader S p (int i) n v = Some (S', AGC_STATUS_SUCCESS) \<and>
     fs_events S' = (fs_events S)(p \<mapsto> e') \<and> fs_queues S' = fs_queues S \<and> fast_ok e' hs \<and>
     header_at e' i = (n, v) \<and> (\<forall>j<length hs. j \<noteq> i \<longrightarrow> header_at e' j = header_at e j)"
proof -
  from write_header [OF assms(3-8)] obtain b1 b2 where w:
    "strcpy_at (fp_buf (fe_fast e)) (name_at hs i) n = Some b1" "strcpy_at b1 (value_at hs i) v = Some b2"
    "fast_ok (e\<lparr>fe_fast := (fe_fast e)\<lparr>fp_buf := b2\<rparr>\<rparr>) hs"
    "header_at (e\<lparr>fe_fast := (fe_fast e)\<lparr>fp_buf := b2\<rparr>\<rparr>) i = (n, v)"
    "\<forall>j<length hs. j \<noteq> i \<longrightarrow> header_at (e\<lparr>fe_fast := (fe_fast e)\<lparr>fp_buf := b2\<rparr>\<rparr>) j = header_at e j"
    by (auto simp: Let_def)
  have "fp_headers (fe_fast e) = layout 0 hs" using assms(3) by (simp add: fast_ok_def)
  then have "fast_get_header S p (int i) = Some (Some (name_at hs i, value_at hs i))"
    using assms(1,2,4) by (simp add: fast_get_header_def layout_nth name_at_def value_at_def)
  then have "agc_event_fast_set_strheader S p (int i) n v = Some (S\<lparr>fs_events := (fs_events S)(p \<mapsto>
      e\<lparr>fe_fast := (fe_fast e)\<lparr>fp_buf := b2\<rparr>\<rparr>)\<rparr>, AGC_STATUS_SUCCESS)"
    using assms(1) w(1,2) by (simp add: agc_event_fast_set_strheader_def set_header_def upd_event_def)
  then show ?thesis using w(3-5) by (intro exI conjI) (assumption | simp)+
qed

definition demo_names2 :: "(string \<times> nat) list" where
  "demo_names2 = [(''_t'', 4), (''_sess'', 12)]"

definition demo_fast :: fast_event where
  "demo_fast = the (fast_event_create 3 4 demo_names2 0)"

definition demo_pool :: fast_state where
  "demo_pool = \<lparr>fs_events = [1 \<mapsto> demo_fast], fs_brk = 2, fs_queues = (\<lambda>_. None), fs_limit = (\<lambda>_. 0)\<rparr>"

lemma demo_fast_ok: "fast_ok demo_fast demo_names2" "fp_type (fe_fast demo_fast) = 3"
  "length (fp_buf (fe_fast demo_fast)) = 25"
proof -
  have "dec_nat 3 = ''3''" by code_simp
  then have "headers_fit 3 demo_names2" by (simp add: headers_fit_def demo_names2_def)
  from create_ok [OF this, of 4 0] show "fast_ok demo_fast demo_names2" "fp_type (fe_fast demo_fast) = 3"
    "length (fp_buf (fe_fast demo_fast)) = 25"
    by (auto simp: demo_fast_def demo_names2_def)
qed

lemma fast_header_set_witness:
  "\<exists>S' e'. agc_event_fast_set_strheader demo_pool 1 1 ''_sess'' ''12345'' = Some (S', AGC_STATUS_SUCCESS) \<and>
     fs_events S' 1 = Some e' \<and> header_at e' 1 = (''_sess'', ''12345'')"
  using fast_header_set [of demo_pool 1 demo_fast demo_names2 1 "''_sess''" "''12345''"] demo_fast_ok(1)
  by (auto simp: demo_pool_def demo_names2_def)

text \<open>The value is copied without a check of its room: a value that is too long runs into the
  next header, whose name becomes the rest of the value.\<close>

lemma fast_header_overrun:
  assumes "fs_events S p = Some e" "p \<noteq> NULL" "fast_ok e hs" "i + 1 < length hs"
    and "length n \<le> length (fst (hs ! i))" "NUL \<notin> set v"
    and "snd (hs ! i) \<le> length v" "value_at hs i + length v < length (fp_buf (fe_fast e))"
  shows "\<exists>S' e'. agc_event_fast_set_strheader S p (int i) n v = Some (S', AGC_STATUS_SUCCESS) \<and>
     fs_events S' p = Some e' \<and> fst (header_at e' (i + 1)) = drop (snd (hs ! i)) v"
proof -
  let ?b = "fp_buf (fe_fast e)"
  have "name_at hs i + length n < length ?b" using assms(5,8) by (simp add: name_at_def value_at_def)
  then obtain b1 where b1: "strcpy_at ?b (name_at hs i) n = Some b1" using strcpy_defined by blast
  have "value_at hs i + length v < length b1" using assms(8) strcpy_length [OF b1] by simp
  then obtain b2 where b2: "strcpy_at b1 (value_at hs i) v = Some b2" using strcpy_defined by blast
  from strcpy_holds [OF b2 assms(6)] have "holds_str b2 (value_at hs i + snd (hs ! i)) (drop (snd (hs ! i)) v)"
    using assms(7) by (auto simp: holds_str_def add.assoc dest: in_set_dropD)
  moreover have "name_at hs (i + 1) = value_at hs i + snd (hs ! i)"
    using assms(4) start_of_Suc [of i hs] by (simp add: name_at_def value_at_def room_eq)
  ultimately have c: "cstr b2 (name_at hs (i + 1)) = drop (snd (hs ! i)) v" by (simp add: holds_str_cstr)
  have l: "fp_headers (fe_fast e) = layout 0 hs" using assms(3) by (simp add: fast_ok_def)
  then have "fast_get_header S p (int i) = Some (Some (name_at hs i, value_at hs i))"
    using assms(1,2,4) by (simp add: fast_get_header_def layout_nth name_at_def value_at_def)
  then show ?thesis using assms(1) b1 b2 c l header_at_layout [of "e\<lparr>fe_fast := (fe_fast e)\<lparr>fp_buf := b2\<rparr>\<rparr>" hs "i + 1"] assms(4)
    by (simp add: agc_event_fast_set_strheader_def set_header_def upd_event_def)
qed

lemma fast_header_overrun_witness:
  "\<exists>S' e'. agc_event_fast_set_strheader demo_pool 1 0 ''_t'' ''123456'' = Some (S', AGC_STATUS_SUCCESS) \<and>
     fs_events S' 1 = Some e' \<and> fst (header_at e' 1) = ''56''"
  using fast_header_overrun [of demo_pool 1 demo_fast demo_names2 0 "''_t''" "''123456''"] demo_fast_ok
  by (auto simp: demo_pool_def demo_names2_def value_at_def start_of_def)

text \<open>C21. The pool of a type never loses or duplicates an event: after \<open>agc_event_fast_initial\<close> with a
  capacity, whatever users allocate, fill and release (an event they hold, once), the free events and
  the held ones are distinct and together as many as the capacity, and no release is dropped.\<close>

theorem fast_pool_conserved:
  assumes "agc_event_fast_initial S0 t i n hs bl = Some (S, AGC_STATUS_SUCCESS)" "0 \<le> t" "t < EVENT_FAST_TYPE_Invalid"
    and "headers_fit (nat t) hs" "0 < fs_brk S0" "(pool_step (nat t))\<^sup>*\<^sup>* (S, []) (S', out)"
  shows "\<exists>q. fs_queues S' (nat t) = Some q \<and> distinct (q @ out) \<and> length q + length out = n"
proof -
  let ?S = "S0\<lparr>fs_queues := (fs_queues S0)(nat t \<mapsto> []), fs_limit := (fs_limit S0)(nat t := n + 10)\<rparr>"
  have "fs_queues S0 (nat t) = None" "initial_loop n ?S (nat t) i hs bl = Some (S, AGC_STATUS_SUCCESS)"
    using assms(1-3) by (auto simp: agc_event_fast_initial_def Let_def split: if_splits)
  with initial_loop_ok [OF assms(4), of ?S "[]" n i bl] assms(5) obtain new where new:
    "fs_queues S (nat t) = Some new" "length new = n" "distinct new" "fs_limit S = fs_limit ?S"
    "\<forall>x\<in>set new. fs_brk S0 \<le> x \<and> (\<exists>e. fs_events S x = Some e \<and> fast_ok e hs \<and> fp_type (fe_fast e) = nat t \<and> fe_id e = i)"
    by auto
  have "pool_ok (nat t) n (S, [])" using new assms(2,3,5) by (fastforce simp: pool_ok_def)
  from pool_ok_steps [OF assms(6) this] show ?thesis by (auto simp: pool_ok_def)
qed

definition empty_pool :: fast_state where
  "empty_pool = \<lparr>fs_events = (\<lambda>_. None), fs_brk = 1, fs_queues = (\<lambda>_. None), fs_limit = (\<lambda>_. 0)\<rparr>"

theorem fast_pool_conserved_witness:
  "\<exists>S. agc_event_fast_initial empty_pool 0 0 2 [] 0 = Some (S, AGC_STATUS_SUCCESS) \<and>
     (\<exists>q. fs_queues S 0 = Some q \<and> distinct (q @ []) \<and> length q + length ([] :: ptr list) = 2)"
proof -
  have "\<exists>S. agc_event_fast_initial empty_pool 0 0 2 [] 0 = Some (S, AGC_STATUS_SUCCESS)"
    using initial_loop_ok [of 0 "[]" "empty_pool\<lparr>fs_queues := (fs_queues empty_pool)(0 \<mapsto> []), fs_limit := (fs_limit empty_pool)(0 := 12)\<rparr>" "[]" 2 0 0]
    by (auto simp: agc_event_fast_initial_def empty_pool_def headers_fit_def)
  then obtain S where S: "agc_event_fast_initial empty_pool 0 0 2 [] 0 = Some (S, AGC_STATUS_SUCCESS)" by blast
  from fast_pool_conserved [OF S, of S "[]"] S show ?thesis by (simp add: headers_fit_def empty_pool_def)
qed

text \<open>An event that is released twice is in its queue twice, and the next two users get the same
  event.\<close>

lemma fast_double_release:
  assumes "fs_events S p = Some e" "p \<noteq> NULL" "fp_type (fe_fast e) < 27"
    and "fs_queues S (fp_type (fe_fast e)) = Some []" "2 \<le> fs_limit S (fp_type (fe_fast e))"
  shows "\<exists>S1 S2 S3 S4. agc_event_fast_release S p = Some (S1, AGC_STATUS_SUCCESS) \<and>
     agc_event_fast_release S1 p = Some (S2, AGC_STATUS_SUCCESS) \<and>
     agc_event_fast_alloc S2 (int (fp_type (fe_fast e))) = Some (S3, Inr p) \<and>
     agc_event_fast_alloc S3 (int (fp_type (fe_fast e))) = Some (S4, Inr p)"
  using assms by (simp add: agc_event_fast_release_def agc_event_fast_alloc_def trypush_def trypop_def)

lemma fast_double_release_witness:
  "\<exists>S1 S2 S3 S4. agc_event_fast_release (demo_pool\<lparr>fs_queues := [3 \<mapsto> []], fs_limit := (\<lambda>_. 10)\<rparr>) 1 = Some (S1, AGC_STATUS_SUCCESS) \<and>
     agc_event_fast_release S1 1 = Some (S2, AGC_STATUS_SUCCESS) \<and>
     agc_event_fast_alloc S2 3 = Some (S3, Inr 1) \<and> agc_event_fast_alloc S3 3 = Some (S4, Inr 1)"
  using fast_double_release [of "demo_pool\<lparr>fs_queues := [3 \<mapsto> []], fs_limit := (\<lambda>_. 10)\<rparr>" 1 demo_fast] demo_fast_ok
  by (simp add: demo_pool_def)

end
