(* ===== verification/Event_Bus.thy ===== *)
theory Event_Bus
  imports Fast_Event
begin

text \<open>
  The event bus of \<open>src/agc_event.c\<close>: the table of registered event names, the allocation of sources,
  the subscribers of every event identifier, and the queues from which the dispatch threads deliver.
  Operations run under the locks of the code and are atomic steps; the callbacks of the subscribers
  are opaque, the log records in which order they are called and with what. Two history fields record
  the events that were queued and those that were taken from a queue.
\<close>

section \<open>State\<close>

record node =
  nd_id :: string
  nd_event :: int
  nd_callback :: ptr

text \<open>An event in a queue: an ordinary one with its contents, or a fast one by its address.\<close>

datatype queued = Plain event | Fast ptr

datatype call = Direct queued ptr ptr | Notify queued ptr

record bus =
  bus_templates :: "nat \<Rightarrow> string option"
  bus_node_mem :: "ptr \<Rightarrow> node option"
  bus_node_brk :: ptr
  bus_nodes :: "nat \<Rightarrow> ptr list"
  bus_queues :: "nat \<Rightarrow> queued list"
  bus_running :: bool
  bus_source :: "32 word"
  bus_max :: nat
  bus_mem :: emem
  bus_fast :: fast_state
  bus_log :: "call list"
  bus_fired :: "queued list"
  bus_done :: "queued list"

abbreviation DISPATCH_QUEUE_LIMIT :: nat where
  "DISPATCH_QUEUE_LIMIT \<equiv> 10000"

section \<open>Names and sources\<close>

definition init_ids :: "nat \<Rightarrow> string option" where
  "init_ids = [0 \<mapsto> ''all'', 1 \<mapsto> ''esl'', 2 \<mapsto> ''api_res'', 3 \<mapsto> ''sig2media'', 4 \<mapsto> ''media2sig'',
     5 \<mapsto> ''om_cmd'', 6 \<mapsto> ''om_alarm'']"

text \<open>The state that \<open>agc_event_init\<close> leaves, the callback events of the fast pool included.\<close>

definition agc_event_init :: "nat \<Rightarrow> emem \<Rightarrow> (bus \<times> agc_status) option" where
  "agc_event_init cpus M = do {
     let mx = 2 * cpus + 1;
     let mx = (if mx < 2 then 2 else mx);
     let F = \<lparr>fs_events = (\<lambda>_. None), fs_brk = 1, fs_queues = (\<lambda>_. None), fs_limit = (\<lambda>_. 0)\<rparr>;
     (F, st) \<leftarrow> agc_event_fast_initial F EVENT_FAST_TYPE_CallBack 0 1000 [] 0;
     let S = \<lparr>bus_templates = init_ids, bus_node_mem = (\<lambda>_. None), bus_node_brk = 1, bus_nodes = (\<lambda>_. []),
       bus_queues = (\<lambda>_. []), bus_running = True, bus_source = 0, bus_max = mx, bus_mem = M, bus_fast = F,
       bus_log = [], bus_fired = [], bus_done = []\<rparr>;
     Some (S, if st \<noteq> AGC_STATUS_SUCCESS then AGC_STATUS_FALSE else AGC_STATUS_SUCCESS) }"

definition agc_event_shutdown :: "bus \<Rightarrow> bus \<times> agc_status" where
  "agc_event_shutdown S = (S\<lparr>bus_running := False\<rparr>, AGC_STATUS_SUCCESS)"

definition agc_event_alloc_source :: "bus \<Rightarrow> bus \<times> 32 word" where
  "agc_event_alloc_source S =
     (let source_id = bus_source S + 1
      in (S\<lparr>bus_source := (if source_id = - 1 then 0 else source_id)\<rparr>, source_id))"

text \<open>The test for invalid identifiers lets negative ones pass, which index before the table.\<close>

definition agc_event_register :: "bus \<Rightarrow> int \<Rightarrow> string \<Rightarrow> (bus \<times> agc_status) option" where
  "agc_event_register S event_id event_name =
     (if EVENT_ID_IS_INVALID event_id then Some (S, AGC_STATUS_GENERR)
      else if event_id < 0 then None
      else if bus_templates S (nat event_id) \<noteq> None then Some (S, AGC_STATUS_GENERR)
      else Some (S\<lparr>bus_templates := (bus_templates S)(nat event_id \<mapsto> event_name)\<rparr>, AGC_STATUS_SUCCESS))"

definition agc_event_get_id :: "bus \<Rightarrow> string option \<Rightarrow> agc_status + nat" where
  "agc_event_get_id S event_name = (case event_name of
     None \<Rightarrow> Inl AGC_STATUS_GENERR
   | Some name \<Rightarrow>
       (case List.find (\<lambda>i. case bus_templates S i of None \<Rightarrow> False | Some t \<Rightarrow> strcaseeq name t) [0..<1024] of
          None \<Rightarrow> Inl AGC_STATUS_GENERR | Some i \<Rightarrow> Inr i))"

definition agc_event_get_name :: "bus \<Rightarrow> int \<Rightarrow> string option option" where
  "agc_event_get_name S event_id =
     (if EVENT_ID_IS_INVALID event_id then Some None
      else if event_id < 0 then None
      else Some (bus_templates S (nat event_id)))"

section \<open>Subscribers\<close>

text \<open>The check is \<open>event_id > EVENT_ID_LIMIT\<close>; an index outside the table is \<^term>\<open>None\<close>.\<close>

definition agc_event_bind_removable :: "bus \<Rightarrow> string \<Rightarrow> int \<Rightarrow> ptr \<Rightarrow> (bus \<times> (agc_status + ptr)) option" where
  "agc_event_bind_removable S nid event_id callback =
     (if EVENT_ID_LIMIT < event_id then Some (S, Inl AGC_STATUS_GENERR)
      else if event_id < 0 \<or> EVENT_ID_LIMIT \<le> event_id then None
      else (let p = bus_node_brk S; i = nat event_id in
        Some (S\<lparr>bus_node_mem := (bus_node_mem S)(p \<mapsto> \<lparr>nd_id = nid, nd_event = event_id, nd_callback = callback\<rparr>),
                bus_node_brk := p + 1,
                bus_nodes := (bus_nodes S)(i := p # bus_nodes S i)\<rparr>, Inr p)))"

definition agc_event_bind :: "bus \<Rightarrow> string \<Rightarrow> int \<Rightarrow> ptr \<Rightarrow> (bus \<times> agc_status) option" where
  "agc_event_bind S nid event_id callback =
     map_option (\<lambda>(S, r). (S, case r of Inl st \<Rightarrow> st | Inr _ \<Rightarrow> AGC_STATUS_SUCCESS))
       (agc_event_bind_removable S nid event_id callback)"

definition free_node :: "bus \<Rightarrow> nat \<Rightarrow> ptr \<Rightarrow> bus" where
  "free_node S i p = S\<lparr>bus_nodes := (bus_nodes S)(i := remove1 p (bus_nodes S i)), bus_node_mem := (bus_node_mem S)(p := None)\<rparr>"

text \<open>The caller's pointer becomes null when the node is found.\<close>

definition agc_event_unbind :: "bus \<Rightarrow> ptr \<Rightarrow> (bus \<times> ptr \<times> agc_status) option" where
  "agc_event_unbind S event_node =
     (if event_node = NULL then Some (S, event_node, AGC_STATUS_GENERR)
      else do {
        n \<leftarrow> bus_node_mem S event_node;
        ensure (0 \<le> nd_event n \<and> nd_event n < EVENT_ID_LIMIT);
        let i = nat (nd_event n);
        if event_node \<in> set (bus_nodes S i) then Some (free_node S i event_node, NULL, AGC_STATUS_SUCCESS)
        else Some (S, event_node, AGC_STATUS_FALSE) })"

text \<open>The first subscriber with the callback, for every identifier.\<close>

fun find_callback :: "(ptr \<Rightarrow> node option) \<Rightarrow> ptr \<Rightarrow> ptr list \<Rightarrow> ptr option option" where
  "find_callback H callback [] = Some None"
| "find_callback H callback (p # ps) = do {
     n \<leftarrow> H p;
     if nd_callback n = callback then Some (Some p) else find_callback H callback ps }"

fun unbind_ids :: "bus \<Rightarrow> ptr \<Rightarrow> agc_status \<Rightarrow> nat list \<Rightarrow> (bus \<times> agc_status) option" where
  "unbind_ids S callback status [] = Some (S, status)"
| "unbind_ids S callback status (i # ids) = do {
     r \<leftarrow> find_callback (bus_node_mem S) callback (bus_nodes S i);
     case r of
       None \<Rightarrow> unbind_ids S callback status ids
     | Some p \<Rightarrow> unbind_ids (free_node S i p) callback AGC_STATUS_SUCCESS ids }"

definition agc_event_unbind_callback :: "bus \<Rightarrow> ptr \<Rightarrow> (bus \<times> agc_status) option" where
  "agc_event_unbind_callback S callback = unbind_ids S callback AGC_STATUS_FALSE [0..<1024]"

section \<open>Firing and delivering\<close>

definition source_of :: "queued \<Rightarrow> 32 word" where
  "source_of q = (case q of Plain e \<Rightarrow> ev_source e | Fast p \<Rightarrow> 0)"

text \<open>
  \<open>agc_event_destroy\<close> on a fast event would free pointers into its block, unless it has neither headers
  nor a body.
\<close>

definition destroy_queued :: "bus \<Rightarrow> queued \<Rightarrow> bus option" where
  "destroy_queued S q = (case q of
     Plain e \<Rightarrow> map_option (\<lambda>(M, _). S\<lparr>bus_mem := M\<rparr>) (agc_event_destroy (bus_mem S) (Some e))
   | Fast p \<Rightarrow> do {
       e \<leftarrow> fs_events (bus_fast S) p;
       ensure (fp_headers (fe_fast e) = [] \<and> fe_body e = None);
       Some S })"

text \<open>Pushing blocks while the queue is full: then there is no step. \<open>rnd\<close> is the random number.\<close>

definition agc_event_fire :: "bus \<Rightarrow> queued option \<Rightarrow> nat \<Rightarrow> (bus \<times> agc_status) option" where
  "agc_event_fire S event rnd = (case event of
     None \<Rightarrow> Some (S, AGC_STATUS_GENERR)
   | Some q \<Rightarrow>
       if \<not> bus_running S then map_option (\<lambda>S. (S, AGC_STATUS_SUCCESS)) (destroy_queued S q)
       else (let i = (if source_of q \<noteq> 0 then unat (source_of q) mod bus_max S else rnd mod bus_max S) in
         if length (bus_queues S i) < DISPATCH_QUEUE_LIMIT
         then Some (S\<lparr>bus_queues := (bus_queues S)(i := bus_queues S i @ [q]), bus_fired := bus_fired S @ [q]\<rparr>,
           AGC_STATUS_SUCCESS)
         else None))"

fun callbacks :: "(ptr \<Rightarrow> node option) \<Rightarrow> ptr list \<Rightarrow> ptr list option" where
  "callbacks H [] = Some []"
| "callbacks H (p # ps) = do { n \<leftarrow> H p; cs \<leftarrow> callbacks H ps; Some (nd_callback n # cs) }"

text \<open>The callback, the context and the identifier of an event.\<close>

definition event_fields :: "bus \<Rightarrow> queued \<Rightarrow> (ptr \<times> ptr \<times> int) option" where
  "event_fields S q = (case q of
     Plain e \<Rightarrow> Some (ev_callback e, ev_context e, ev_id e)
   | Fast p \<Rightarrow> map_option (\<lambda>e. (fe_callback e, fe_context e, fe_id e)) (fs_events (bus_fast S) p))"

definition call_back :: "bus \<Rightarrow> queued \<Rightarrow> bus option" where
  "call_back S q = do {
     (cb, ctx, event_id) \<leftarrow> event_fields S q;
     if \<not> bus_running S then Some S
     else if cb \<noteq> NULL then Some (S\<lparr>bus_log := bus_log S @ [Direct q cb ctx]\<rparr>)
     else do {
       ensure (0 \<le> event_id \<and> event_id < EVENT_ID_LIMIT);
       own \<leftarrow> callbacks (bus_node_mem S) (bus_nodes S (nat event_id));
       all_cbs \<leftarrow> callbacks (bus_node_mem S) (bus_nodes S 0);
       Some (S\<lparr>bus_log := bus_log S @ map (Notify q) own @ map (Notify q) all_cbs\<rparr>) } }"

definition give_back :: "bus \<Rightarrow> queued \<Rightarrow> bus option" where
  "give_back S q = (case q of
     Plain e \<Rightarrow> destroy_queued S q
   | Fast p \<Rightarrow> map_option (\<lambda>(F, _). S\<lparr>bus_fast := F\<rparr>) (agc_event_fast_release (bus_fast S) p))"

definition agc_event_deliver :: "bus \<Rightarrow> queued \<Rightarrow> bus option" where
  "agc_event_deliver S q = do { S \<leftarrow> call_back S q; give_back S q }"

text \<open>One round of the dispatch thread of a queue: it ends when the system stops, and waits on an empty queue.\<close>

definition dispatch_thread :: "bus \<Rightarrow> nat \<Rightarrow> bus option" where
  "dispatch_thread S k =
     (if \<not> bus_running S then Some S
      else (case bus_queues S k of
          [] \<Rightarrow> Some S
        | q # qs \<Rightarrow> agc_event_deliver (S\<lparr>bus_queues := (bus_queues S)(k := qs), bus_done := bus_done S @ [q]\<rparr>) q))"

text \<open>The steps of the threads of the system.\<close>

inductive bus_step :: "bus \<Rightarrow> bus \<Rightarrow> bool" where
  bs_fire: "agc_event_fire S q r = Some (S', st) \<Longrightarrow> bus_step S S'"
| bs_dispatch: "k < bus_max S \<Longrightarrow> dispatch_thread S k = Some S' \<Longrightarrow> bus_step S S'"
| bs_bind: "agc_event_bind_removable S nid event_id cb = Some (S', r) \<Longrightarrow> bus_step S S'"
| bs_unbind: "agc_event_unbind S p = Some (S', p', st) \<Longrightarrow> bus_step S S'"
| bs_unbind_callback: "agc_event_unbind_callback S cb = Some (S', st) \<Longrightarrow> bus_step S S'"
| bs_register: "agc_event_register S event_id name = Some (S', st) \<Longrightarrow> bus_step S S'"
| bs_source: "agc_event_alloc_source S = (S', sid) \<Longrightarrow> bus_step S S'"
| bs_memory: "bus_step S (S\<lparr>bus_mem := M, bus_fast := F\<rparr>)"
| bs_shutdown: "agc_event_shutdown S = (S', st) \<Longrightarrow> bus_step S S'"

inductive_cases bus_stepE: "bus_step S S'"

section \<open>The order of events\<close>

text \<open>The events of one source.\<close>

abbreviation of_source :: "32 word \<Rightarrow> queued list \<Rightarrow> queued list" where
  "of_source s qs \<equiv> filter (\<lambda>q. source_of q = s) qs"

definition fifo :: "bus \<Rightarrow> bool" where
  "fifo S \<longleftrightarrow> 0 < bus_max S \<and> (\<forall>s. s \<noteq> 0 \<longrightarrow>
     of_source s (bus_done S) @ of_source s (bus_queues S (unat s mod bus_max S)) = of_source s (bus_fired S) \<and>
     (\<forall>k. k \<noteq> unat s mod bus_max S \<longrightarrow> of_source s (bus_queues S k) = []))"

definition bounded :: "bus \<Rightarrow> bool" where
  "bounded S \<longleftrightarrow> (\<forall>k. length (bus_queues S k) \<le> DISPATCH_QUEUE_LIMIT)"

text \<open>What every operation but fire and dispatch leaves alone.\<close>

definition same_queues :: "bus \<Rightarrow> bus \<Rightarrow> bool" where
  "same_queues S S' \<longleftrightarrow> bus_queues S' = bus_queues S \<and> bus_max S' = bus_max S \<and>
     bus_done S' = bus_done S \<and> bus_fired S' = bus_fired S"

lemma fifo_same: "same_queues S S' \<Longrightarrow> fifo S' = fifo S"
  by (simp add: fifo_def same_queues_def)

lemma same_queues_refl [simp]: "same_queues S S"
  by (simp add: same_queues_def)

lemma same_queues_trans: "same_queues S S' \<Longrightarrow> same_queues S' S'' \<Longrightarrow> same_queues S S''"
  by (simp add: same_queues_def)

lemma same_destroy: "destroy_queued S q = Some S' \<Longrightarrow> same_queues S S'"
  by (auto simp: destroy_queued_def same_queues_def bind_eq_Some_conv split: queued.splits)

lemma same_free: "same_queues S (free_node S i p)"
  by (simp add: free_node_def same_queues_def)

lemma same_unbind_ids: "unbind_ids S cb st ids = Some (S', st') \<Longrightarrow> same_queues S S'"
proof (induction ids arbitrary: S st)
  case (Cons i ids)
  then show ?case
    by (auto simp: bind_eq_Some_conv split: option.splits intro: same_queues_trans [OF same_free])
qed simp

lemma same_call_back: "call_back S q = Some S' \<Longrightarrow> same_queues S S'"
  by (auto simp: call_back_def bind_eq_Some_conv same_queues_def split: if_splits)

lemma same_give_back: "give_back S q = Some S' \<Longrightarrow> same_queues S S'"
  by (auto simp: give_back_def same_queues_def split: queued.splits dest!: same_destroy)

lemma same_deliver: "agc_event_deliver S q = Some S' \<Longrightarrow> same_queues S S'"
  by (auto simp: agc_event_deliver_def bind_eq_Some_conv
      intro: same_queues_trans dest!: same_call_back same_give_back)

lemma fifo_fire:
  assumes "agc_event_fire S q r = Some (S', st)" "fifo S"
  shows "fifo S'"
proof (cases "\<exists>e. q = Some e \<and> bus_running S")
  case False
  then show ?thesis using assms
    by (auto simp: agc_event_fire_def fifo_same [OF same_destroy] split: option.splits)
next
  case True
  then obtain e where e: "q = Some e" "bus_running S" by blast
  let ?i = "if source_of e \<noteq> 0 then unat (source_of e) mod bus_max S else r mod bus_max S"
  have S': "S' = S\<lparr>bus_queues := (bus_queues S)(?i := bus_queues S ?i @ [e]), bus_fired := bus_fired S @ [e]\<rparr>"
    using assms(1) e by (auto simp: agc_event_fire_def Let_def split: if_splits)
  show ?thesis unfolding fifo_def
  proof (intro conjI allI impI)
    show "0 < bus_max S'" using assms(2) S' by (simp add: fifo_def)
    fix s :: "32 word" assume s: "s \<noteq> 0"
    from assms(2) s have f: "of_source s (bus_done S) @ of_source s (bus_queues S (unat s mod bus_max S)) = of_source s (bus_fired S)"
      "\<And>k. k \<noteq> unat s mod bus_max S \<Longrightarrow> of_source s (bus_queues S k) = []" by (simp_all add: fifo_def)
    show "of_source s (bus_done S') @ of_source s (bus_queues S' (unat s mod bus_max S')) = of_source s (bus_fired S')"
      using f(1) s S' by (cases "source_of e = s") (auto simp flip: append_assoc)
    fix k assume "k \<noteq> unat s mod bus_max S'"
    then show "of_source s (bus_queues S' k) = []" using f(2) [of k] s S' by auto
  qed
qed

lemma fifo_dispatch:
  assumes "dispatch_thread S k = Some S'" "fifo S"
  shows "fifo S'"
proof (cases "bus_running S \<and> bus_queues S k \<noteq> []")
  case False
  then show ?thesis using assms by (auto simp: dispatch_thread_def split: list.splits)
next
  case True
  then obtain q qs where q: "bus_queues S k = q # qs" by (cases "bus_queues S k") auto
  let ?S = "S\<lparr>bus_queues := (bus_queues S)(k := qs), bus_done := bus_done S @ [q]\<rparr>"
  have "agc_event_deliver ?S q = Some S'" using assms(1) True q by (simp add: dispatch_thread_def)
  then have "fifo S' = fifo ?S" by (rule fifo_same [OF same_deliver])
  moreover have "fifo ?S" unfolding fifo_def
  proof (intro conjI allI impI)
    show "0 < bus_max ?S" using assms(2) by (simp add: fifo_def)
    fix s :: "32 word" assume s: "s \<noteq> 0"
    from assms(2) s have f: "of_source s (bus_done S) @ of_source s (bus_queues S (unat s mod bus_max S)) = of_source s (bus_fired S)"
      "\<And>k. k \<noteq> unat s mod bus_max S \<Longrightarrow> of_source s (bus_queues S k) = []" by (simp_all add: fifo_def)
    have other: "source_of q \<noteq> s" if "k \<noteq> unat s mod bus_max S" using f(2) [OF that] q by (auto split: if_splits)
    show "of_source s (bus_done ?S) @ of_source s (bus_queues ?S (unat s mod bus_max ?S)) = of_source s (bus_fired ?S)"
      using f(1) q other by (cases "k = unat s mod bus_max S") (auto split: if_splits)
    fix j assume "j \<noteq> unat s mod bus_max ?S"
    then show "of_source s (bus_queues ?S j) = []" using f(2) [of j] q by (cases "j = k") (auto split: if_splits)
  qed
  ultimately show ?thesis by simp
qed

lemma bus_step_queues:
  assumes "bus_step S S'"
  shows "same_queues S S' \<or> (\<exists>q r st. agc_event_fire S q r = Some (S', st)) \<or> (\<exists>k. dispatch_thread S k = Some S')"
  using assms
proof cases
  case (bs_unbind_callback cb st)
  then show ?thesis using same_unbind_ids by (auto simp: agc_event_unbind_callback_def)
next
  case (bs_unbind p p' st)
  then show ?thesis
    by (auto simp: agc_event_unbind_def bind_eq_Some_conv Let_def same_free split: if_splits)
qed (auto simp: same_queues_def agc_event_bind_removable_def agc_event_register_def agc_event_alloc_source_def
    agc_event_shutdown_def Let_def split: if_splits)

lemma fifo_step: "bus_step S S' \<Longrightarrow> fifo S \<Longrightarrow> fifo S'"
  by (metis bus_step_queues fifo_same fifo_fire fifo_dispatch)

lemma fifo_steps: "bus_step\<^sup>*\<^sup>* S S' \<Longrightarrow> fifo S \<Longrightarrow> fifo S'"
  by (induction rule: rtranclp_induct) (auto intro: fifo_step)

section \<open>The subscribers\<close>

definition nodes_ok :: "bus \<Rightarrow> bool" where
  "nodes_ok S \<longleftrightarrow> 0 < bus_node_brk S \<and> (\<forall>p. bus_node_brk S \<le> p \<longrightarrow> bus_node_mem S p = None) \<and>
     (\<forall>i. distinct (bus_nodes S i) \<and> (1024 \<le> i \<longrightarrow> bus_nodes S i = []) \<and>
        (\<forall>p\<in>set (bus_nodes S i). p \<noteq> NULL \<and> (\<exists>n. bus_node_mem S p = Some n \<and> nd_event n = int i)))"

lemma nodes_okD:
  assumes "nodes_ok S"
  shows "distinct (bus_nodes S i)" "1024 \<le> i \<Longrightarrow> bus_nodes S i = []"
    "p \<in> set (bus_nodes S i) \<Longrightarrow> p \<noteq> NULL"
    "p \<in> set (bus_nodes S i) \<Longrightarrow> \<exists>n. bus_node_mem S p = Some n \<and> nd_event n = int i"
  using assms by (simp_all add: nodes_ok_def)

definition same_nodes :: "bus \<Rightarrow> bus \<Rightarrow> bool" where
  "same_nodes S S' \<longleftrightarrow> bus_nodes S' = bus_nodes S \<and> bus_node_mem S' = bus_node_mem S \<and> bus_node_brk S' = bus_node_brk S"

lemma nodes_ok_same: "same_nodes S S' \<Longrightarrow> nodes_ok S' = nodes_ok S"
  by (simp add: nodes_ok_def same_nodes_def)

lemma same_nodes_trans: "same_nodes S S' \<Longrightarrow> same_nodes S' S'' \<Longrightarrow> same_nodes S S''"
  by (simp add: same_nodes_def)

lemma nodes_destroy: "destroy_queued S q = Some S' \<Longrightarrow> same_nodes S S'"
  by (auto simp: destroy_queued_def same_nodes_def bind_eq_Some_conv split: queued.splits)

lemma nodes_call_back: "call_back S q = Some S' \<Longrightarrow> same_nodes S S'"
  by (auto simp: call_back_def bind_eq_Some_conv same_nodes_def split: if_splits)

lemma nodes_give_back: "give_back S q = Some S' \<Longrightarrow> same_nodes S S'"
  by (auto simp: give_back_def same_nodes_def split: queued.splits dest!: nodes_destroy)

lemma nodes_deliver: "agc_event_deliver S q = Some S' \<Longrightarrow> same_nodes S S'"
  by (auto simp: agc_event_deliver_def bind_eq_Some_conv
      intro: same_nodes_trans dest!: nodes_call_back nodes_give_back)

lemma nodes_dispatch:
  assumes "dispatch_thread S k = Some S'"
  shows "same_nodes S S'"
proof (cases "bus_running S \<and> bus_queues S k \<noteq> []")
  case False
  then show ?thesis using assms by (auto simp: dispatch_thread_def same_nodes_def split: list.splits)
next
  case True
  then obtain q qs where "bus_queues S k = q # qs" by (cases "bus_queues S k") auto
  then have "agc_event_deliver (S\<lparr>bus_queues := (bus_queues S)(k := qs), bus_done := bus_done S @ [q]\<rparr>) q = Some S'"
    using assms True by (simp add: dispatch_thread_def)
  then show ?thesis using nodes_deliver by (fastforce simp: same_nodes_def)
qed

lemma nodes_fire: "agc_event_fire S q r = Some (S', st) \<Longrightarrow> same_nodes S S'"
  by (auto simp: agc_event_fire_def Let_def same_nodes_def split: option.splits if_splits dest!: nodes_destroy)

lemma nodes_ok_free:
  assumes "nodes_ok S" "p \<in> set (bus_nodes S i)"
  shows "nodes_ok (free_node S i p)"
proof -
  have d: "distinct (bus_nodes S i)" using assms(1) by (simp add: nodes_ok_def)
  have other: "p \<notin> set (bus_nodes S j)" if "j \<noteq> i" for j
  proof
    assume "p \<in> set (bus_nodes S j)"
    from nodes_okD(4) [OF assms(1) this] nodes_okD(4) [OF assms] show False using that by auto
  qed
  have "distinct (bus_nodes (free_node S i p) j) \<and> (1024 \<le> j \<longrightarrow> bus_nodes (free_node S i p) j = []) \<and>
      (\<forall>x\<in>set (bus_nodes (free_node S i p) j). x \<noteq> NULL \<and>
        (\<exists>n. bus_node_mem (free_node S i p) x = Some n \<and> nd_event n = int j))" for j
  proof (cases "j = i")
    case True
    then show ?thesis using nodes_okD(2-4) [OF assms(1), where i = i] d by (simp add: free_node_def)
  next
    case False
    have "\<forall>x\<in>set (bus_nodes S j). x \<noteq> p" using other [OF False] by blast
    then show ?thesis using False nodes_okD [OF assms(1), where i = j] by (simp add: free_node_def)
  qed
  then show ?thesis using assms(1) unfolding nodes_ok_def by (simp add: free_node_def)
qed

lemma find_callback_in: "find_callback H cb ps = Some (Some p) \<Longrightarrow> p \<in> set ps"
  by (induction ps) (auto simp: bind_eq_Some_conv split: if_splits)

lemma nodes_ok_unbind_ids: "unbind_ids S cb st ids = Some (S', st') \<Longrightarrow> nodes_ok S \<Longrightarrow> nodes_ok S'"
  by (induction ids arbitrary: S st)
    (auto simp: bind_eq_Some_conv split: option.splits dest!: find_callback_in intro: nodes_ok_free)

lemma nodes_ok_bind:
  assumes "nodes_ok S" "0 \<le> event_id" "event_id < EVENT_ID_LIMIT"
  shows "nodes_ok (S\<lparr>bus_node_mem := (bus_node_mem S)(bus_node_brk S \<mapsto> \<lparr>nd_id = nid, nd_event = event_id, nd_callback = cb\<rparr>),
     bus_node_brk := bus_node_brk S + 1,
     bus_nodes := (bus_nodes S)(nat event_id := bus_node_brk S # bus_nodes S (nat event_id))\<rparr>)"
proof -
  have "bus_node_brk S \<notin> set (bus_nodes S i)" for i using assms(1) by (force simp: nodes_ok_def)
  moreover have "nat event_id < 1024" "int (nat event_id) = event_id" using assms by simp_all
  moreover have "\<exists>n. bus_node_mem S p = Some n \<and> nd_event n = event_id" if "p \<in> set (bus_nodes S (nat event_id))" for p
    using nodes_okD(4) [OF assms(1) that] assms(2) by simp
  ultimately show ?thesis using assms unfolding nodes_ok_def by auto
qed

lemma nodes_ok_step:
  assumes "bus_step S S'" "nodes_ok S"
  shows "nodes_ok S'"
  using assms(1)
proof cases
  case (bs_fire q r st)
  then show ?thesis using assms(2) nodes_ok_same nodes_fire by blast
next
  case (bs_dispatch k)
  then show ?thesis using assms(2) nodes_ok_same nodes_dispatch by blast
next
  case (bs_bind nid event_id cb r)
  then show ?thesis using assms(2) nodes_ok_bind [OF assms(2), of event_id nid cb]
    by (auto simp: agc_event_bind_removable_def Let_def split: if_splits)
next
  case (bs_unbind p p' st)
  then show ?thesis using assms(2) nodes_ok_free [OF assms(2)]
    by (auto simp: agc_event_unbind_def bind_eq_Some_conv Let_def split: if_splits)
next
  case (bs_unbind_callback cb st)
  then show ?thesis using assms(2) nodes_ok_unbind_ids by (auto simp: agc_event_unbind_callback_def)
qed (use assms(2) in \<open>auto simp: nodes_ok_def agc_event_register_def agc_event_alloc_source_def agc_event_shutdown_def Let_def
    split: if_splits\<close>)

section \<open>Reachable states\<close>

definition reachable :: "bus \<Rightarrow> bool" where
  "reachable S \<longleftrightarrow> (\<exists>cpus M S0 st. agc_event_init cpus M = Some (S0, st) \<and> bus_step\<^sup>*\<^sup>* S0 S)"

lemma init_state:
  assumes "agc_event_init cpus M = Some (S, st)"
  shows "fifo S \<and> nodes_ok S"
  using assms by (auto simp: agc_event_init_def bind_eq_Some_conv Let_def fifo_def nodes_ok_def)

lemma reachable_ok:
  assumes "reachable S"
  shows "fifo S" "nodes_ok S"
proof -
  from assms obtain cpus M S0 st where i: "agc_event_init cpus M = Some (S0, st)" "bus_step\<^sup>*\<^sup>* S0 S"
    by (auto simp: reachable_def)
  from i(2) init_state [OF i(1)] show "fifo S" by (auto intro: fifo_steps)
  from i(2) init_state [OF i(1)] show "nodes_ok S"
    by (induction rule: rtranclp_induct) (auto intro: nodes_ok_step)
qed

lemma init_some: "\<exists>S. agc_event_init cpus M = Some (S, AGC_STATUS_SUCCESS) \<and> bus_running S \<and> bus_node_brk S = 1 \<and>
    bus_nodes S = (\<lambda>_. []) \<and> bus_max S = 2 * cpus + (if cpus = 0 then 2 else 1) \<and> bus_templates S = init_ids \<and> bus_source S = 0 \<and>
    bus_mem S = M \<and> bus_log S = []"
proof -
  let ?F = "\<lparr>fs_events = (\<lambda>_. None), fs_brk = 1, fs_queues = (\<lambda>_. None), fs_limit = (\<lambda>_. 0)\<rparr> :: fast_state"
  have "\<exists>F. agc_event_fast_initial ?F EVENT_FAST_TYPE_CallBack 0 1000 [] 0 = Some (F, AGC_STATUS_SUCCESS)"
    using initial_loop_ok [of 0 "[]" "?F\<lparr>fs_queues := (fs_queues ?F)(0 \<mapsto> []), fs_limit := (fs_limit ?F)(0 := 1010)\<rparr>" "[]" 1000 0 0]
    by (auto simp: agc_event_fast_initial_def headers_fit_def)
  then show ?thesis by (auto simp: agc_event_init_def Let_def)
qed

lemma callbacks_defined:
  "\<forall>p\<in>set ps. \<exists>n. H p = Some n \<Longrightarrow> callbacks H ps = Some (map (\<lambda>p. nd_callback (the (H p))) ps)"
  by (induction ps) auto

text \<open>The callbacks bound to an identifier, the latest first.\<close>

definition subscribers :: "bus \<Rightarrow> nat \<Rightarrow> ptr list" where
  "subscribers S i = map (\<lambda>p. nd_callback (the (bus_node_mem S p))) (bus_nodes S i)"

lemma callbacks_subscribers: "nodes_ok S \<Longrightarrow> callbacks (bus_node_mem S) (bus_nodes S i) = Some (subscribers S i)"
  unfolding subscribers_def by (rule callbacks_defined) (auto dest: nodes_okD(4))

lemma destroy_ok:
  assumes "event_ok M e cs"
  shows "\<exists>M'. agc_event_destroy M (Some e) = Some (M', None) \<and>
    em_headers M' = (\<lambda>p. if p \<in> addrs cs then None else em_headers M p)"
proof -
  from assms obtain M' where M': "destroy_loop M (ev_headers e) = Some M'" "same_outside (addrs cs) M M'"
    "\<forall>x\<in>addrs cs. em_headers M' x = None"
    using destroy_loop_ok [of M "ev_headers e" cs] by (auto simp: event_ok_def)
  then have "em_headers M' = (\<lambda>p. if p \<in> addrs cs then None else em_headers M p)"
    by (intro ext) (auto simp: same_outside_def)
  with M'(1) show ?thesis by (simp add: agc_event_destroy_def)
qed

section \<open>Properties\<close>

lemma reachable_init: "agc_event_init cpus M = Some (S, st) \<Longrightarrow> reachable S"
  unfolding reachable_def by blast

lemma reachable_step: "reachable S \<Longrightarrow> bus_step S S' \<Longrightarrow> reachable S'"
  unfolding reachable_def by (meson rtranclp.rtrancl_into_rtrancl)

text \<open>C12. In every reachable state, whatever the threads do and in whatever order, the events of one
  source (not the null source) that were delivered, followed by those that wait in its queue, are the
  events of the source that were fired, in the order they were fired: none is lost, duplicated or
  overtaken, and none of them is in another queue.\<close>

theorem bus_source_order:
  assumes "reachable S" "s \<noteq> 0"
  shows "of_source s (bus_done S) @ of_source s (bus_queues S (unat s mod bus_max S)) = of_source s (bus_fired S) \<and>
     (\<forall>k. k \<noteq> unat s mod bus_max S \<longrightarrow> of_source s (bus_queues S k) = [])"
  using reachable_ok(1) [OF assms(1)] assms(2) by (simp add: fifo_def)

theorem bus_source_order_witness:
  "\<exists>S S' e. reachable S \<and> ev_source e = 5 \<and> agc_event_fire S (Some (Plain e)) 0 = Some (S', AGC_STATUS_SUCCESS) \<and>
     of_source 5 (bus_queues S' 2) = [Plain e] \<and>
     of_source 5 (bus_done S') @ of_source 5 (bus_queues S' (5 mod bus_max S')) = of_source 5 (bus_fired S')"
proof -
  obtain S where S: "agc_event_init 1 demo_mem = Some (S, AGC_STATUS_SUCCESS)" "bus_running S" "bus_max S = 3"
    using init_some [of 1 demo_mem] by auto
  have q: "bus_queues S = (\<lambda>_. [])" using S(1) by (auto simp: agc_event_init_def bind_eq_Some_conv Let_def)
  let ?e = "agc_event_create 4 5"
  let ?S = "S\<lparr>bus_queues := (bus_queues S)(2 := [Plain ?e]), bus_fired := bus_fired S @ [Plain ?e]\<rparr>"
  have f: "agc_event_fire S (Some (Plain ?e)) 0 = Some (?S, AGC_STATUS_SUCCESS)"
    using S q by (simp add: agc_event_fire_def source_of_def agc_event_create_def Let_def)
  have r: "reachable S" using S(1) by (rule reachable_init)
  then have "reachable ?S" using f by (intro reachable_step [OF r] bs_fire)
  from bus_source_order [OF this, of 5] have "of_source 5 (bus_done ?S) @ of_source 5 (bus_queues ?S (5 mod bus_max ?S)) = of_source 5 (bus_fired ?S)"
    by simp
  moreover have "of_source 5 (bus_queues ?S 2) = [Plain ?e]" by (simp add: source_of_def agc_event_create_def)
  moreover have "ev_source ?e = 5" by (simp add: agc_event_create_def)
  ultimately show ?thesis using f r by blast
qed

text \<open>C25. Delivering an event without a callback of its own calls the subscribers of its identifier,
  the latest first, and then the subscribers of all events; then the event is destroyed: every header
  it has is freed, and no other memory is. The subscribers are the same before and after.\<close>

theorem deliver_notifies:
  assumes "reachable S" "bus_running S" "ev_callback e = NULL" "0 < ev_id e" "ev_id e < EVENT_ID_LIMIT"
    and "event_ok (bus_mem S) e cells"
  shows "\<exists>S'. agc_event_deliver S (Plain e) = Some S' \<and>
     bus_log S' = bus_log S @ map (Notify (Plain e)) (subscribers S (nat (ev_id e)) @ subscribers S 0) \<and>
     bus_nodes S' = bus_nodes S \<and> bus_node_mem S' = bus_node_mem S \<and>
     em_headers (bus_mem S') = (\<lambda>p. if p \<in> addrs cells then None else em_headers (bus_mem S) p)"
proof -
  from destroy_ok [OF assms(6)] obtain M' where "agc_event_destroy (bus_mem S) (Some e) = Some (M', None)"
    "em_headers M' = (\<lambda>p. if p \<in> addrs cells then None else em_headers (bus_mem S) p)" by blast
  then show ?thesis using assms(2-5) callbacks_subscribers [OF reachable_ok(2) [OF assms(1)]]
    by (simp add: agc_event_deliver_def call_back_def give_back_def destroy_queued_def event_fields_def)
qed

theorem deliver_notifies_witness:
  "\<exists>S S' cells. subscribers S 4 = [77] \<and> length cells = 2 \<and> event_ok (bus_mem S) demo_event cells \<and>
     agc_event_deliver S (Plain demo_event) = Some S' \<and> bus_log S' = [Notify (Plain demo_event) 77] \<and>
     em_headers (bus_mem S') (ev_headers demo_event) = None"
proof -
  obtain S where S: "agc_event_init 1 demo_mem = Some (S, AGC_STATUS_SUCCESS)" "bus_running S" "bus_nodes S = (\<lambda>_. [])"
    "bus_mem S = demo_mem" "bus_log S = []" using init_some [of 1 demo_mem] by auto
  obtain S1 p where b: "agc_event_bind_removable S ''x'' 4 77 = Some (S1, Inr p)"
    by (simp add: agc_event_bind_removable_def Let_def)
  have r: "reachable S1" using reachable_step [OF reachable_init [OF S(1)] bs_bind [OF b]] .
  have s: "bus_running S1" "bus_mem S1 = demo_mem" "bus_log S1 = []" "subscribers S1 4 = [77]" "subscribers S1 0 = []"
    using b S by (auto simp: agc_event_bind_removable_def Let_def subscribers_def)
  have e: "ev_callback demo_event = NULL" "ev_id demo_event = 4" by (simp_all add: demo_event_def agc_event_create_def)
  obtain cells where c: "event_ok demo_mem demo_event cells" "map snd cells = [(''Name'', Some ''v''), (''_t'', Some ''7'')]"
    using demo_event_headers by (auto simp: event_headers_def)
  have l: "length cells = 2" using arg_cong [OF c(2), of length] by (simp only: length_map) simp
  then have f: "ev_headers demo_event \<in> addrs cells" using c(1) by (cases cells) (auto simp: event_ok_def)
  have c1: "event_ok (bus_mem S1) demo_event cells" using c(1) s(2) by simp
  from deliver_notifies [OF r s(1) e(1) _ _ c1] e(2) s obtain S' where
    "agc_event_deliver S1 (Plain demo_event) = Some S'" "bus_log S' = [Notify (Plain demo_event) 77]"
    "em_headers (bus_mem S') = (\<lambda>p. if p \<in> addrs cells then None else em_headers (bus_mem S1) p)" by auto
  then show ?thesis using s(4) l c1 f by (intro exI [of _ S1] exI [of _ S'] exI [of _ cells]) simp
qed

text \<open>Binding puts the callback in front of the subscribers of the identifier; unbinding the node
  it returned finds it, frees it and restores the subscribers as they were.\<close>

lemma bind_unbind:
  assumes "reachable S" "0 \<le> event_id" "event_id < EVENT_ID_LIMIT"
  shows "\<exists>S1 p. agc_event_bind_removable S nid event_id cb = Some (S1, Inr p) \<and>
     subscribers S1 (nat event_id) = cb # subscribers S (nat event_id) \<and>
     (\<exists>S2. agc_event_unbind S1 p = Some (S2, NULL, AGC_STATUS_SUCCESS) \<and>
        bus_nodes S2 = bus_nodes S \<and> bus_node_mem S2 = bus_node_mem S)"
proof -
  note ok = reachable_ok(2) [OF assms(1)]
  let ?p = "bus_node_brk S" and ?i = "nat event_id"
  let ?S1 = "S\<lparr>bus_node_mem := (bus_node_mem S)(?p \<mapsto> \<lparr>nd_id = nid, nd_event = event_id, nd_callback = cb\<rparr>),
     bus_node_brk := ?p + 1, bus_nodes := (bus_nodes S)(?i := ?p # bus_nodes S ?i)\<rparr>"
  have p: "?p \<noteq> NULL" "bus_node_mem S ?p = None" using ok by (simp_all add: nodes_ok_def)
  then have "\<forall>x\<in>set (bus_nodes S ?i). x \<noteq> ?p" using nodes_okD(4) [OF ok] by force
  then have "subscribers ?S1 ?i = cb # subscribers S ?i" by (simp add: subscribers_def)
  moreover have "agc_event_bind_removable S nid event_id cb = Some (?S1, Inr ?p)"
    using assms(2,3) by (simp add: agc_event_bind_removable_def Let_def)
  moreover have "agc_event_unbind ?S1 ?p = Some (free_node ?S1 ?i ?p, NULL, AGC_STATUS_SUCCESS)"
    using p assms(2,3) by (simp add: agc_event_unbind_def Let_def)
  moreover have "bus_nodes (free_node ?S1 ?i ?p) = bus_nodes S" "bus_node_mem (free_node ?S1 ?i ?p) = bus_node_mem S"
    using p(2) by (auto simp: free_node_def)
  ultimately show ?thesis by blast
qed

lemma bind_unbind_witness:
  "\<exists>S S1 p S2. agc_event_bind_removable S ''x'' 4 77 = Some (S1, Inr p) \<and> subscribers S1 4 = 77 # subscribers S 4 \<and>
     agc_event_unbind S1 p = Some (S2, NULL, AGC_STATUS_SUCCESS) \<and> bus_nodes S2 = bus_nodes S"
proof -
  obtain S where "agc_event_init 1 demo_mem = Some (S, AGC_STATUS_SUCCESS)" using init_some [of 1 demo_mem] by blast
  from bind_unbind [OF reachable_init [OF this], of 4 "''x''" 77] show ?thesis by simp blast
qed

fun alloc_sources :: "nat \<Rightarrow> bus \<Rightarrow> bus" where
  "alloc_sources 0 S = S"
| "alloc_sources (Suc k) S = fst (agc_event_alloc_source (alloc_sources k S))"

lemma source_count:
  assumes "bus_source S = 0"
  shows "unat (bus_source (alloc_sources k S)) = k mod (2 ^ 32 - 1)"
proof (induction k)
  case (Suc k)
  let ?b = "bus_source (alloc_sources k S)"
  have lt: "unat ?b < 2 ^ 32 - 1" using Suc by simp
  then have u: "unat (?b + 1) = unat ?b + 1" by (simp add: unat_word_ariths)
  have m: "unat (- 1 :: 32 word) = 2 ^ 32 - 1" by (simp add: unsigned_minus_1_eq_mask mask_eq_exp_minus_1)
  have eq: "?b + 1 = - 1 \<longleftrightarrow> unat ?b + 1 = 2 ^ 32 - 1"
    using u m by (simp add: word_unat_eq_iff)
  show ?case
  proof (cases "unat ?b + 1 = 2 ^ 32 - 1")
    case True
    then have "Suc k mod (2 ^ 32 - 1) = 0" using Suc by (simp add: mod_Suc)
    then show ?thesis using eq True by (simp add: agc_event_alloc_source_def Let_def)
  next
    case False
    then have "Suc k mod (2 ^ 32 - 1) = unat ?b + 1" using Suc by (simp add: mod_Suc)
    then show ?thesis using eq False u by (simp add: agc_event_alloc_source_def Let_def)
  qed
qed (use assms in simp)

text \<open>The sources: the k-th allocation returns \<open>k mod (2^32 - 1) + 1\<close>; so it is never the null
  source, and fewer than \<open>2^32 - 1\<close> allocations give different sources.\<close>

lemma alloc_source_never_null:
  assumes "bus_source S = 0"
  shows "unat (snd (agc_event_alloc_source (alloc_sources k S))) = k mod (2 ^ 32 - 1) + 1"
proof -
  have "k mod (2 ^ 32 - 1) < (2 ^ 32 - 1 :: nat)" by simp
  then show ?thesis using source_count [OF assms, of k]
    by (simp add: agc_event_alloc_source_def Let_def unat_word_ariths)
qed

lemma alloc_source_never_null_witness:
  "\<exists>S. bus_source S = 0 \<and> unat (snd (agc_event_alloc_source (alloc_sources 4294967295 S))) = 1"
proof -
  obtain S :: bus where "bus_source S = 0" using init_some [of 1 demo_mem] by blast
  with alloc_source_never_null [OF this, of 4294967295] show ?thesis by auto
qed

text \<open>Registering a name for a free identifier in range succeeds, and the name, in any letter case
  and not used before, is then looked up as that identifier and the identifier as that name.\<close>

lemma register_lookup:
  assumes "0 < i" "i < EVENT_ID_LIMIT" "bus_templates S (nat i) = None"
    and "\<forall>j<1024. case bus_templates S j of None \<Rightarrow> True | Some t \<Rightarrow> \<not> strcaseeq name t" "strcaseeq name name'"
  shows "\<exists>S'. agc_event_register S i name = Some (S', AGC_STATUS_SUCCESS) \<and>
     agc_event_get_id S' (Some name') = Inr (nat i) \<and> agc_event_get_name S' i = Some (Some name)"
proof -
  let ?S = "S\<lparr>bus_templates := (bus_templates S)(nat i \<mapsto> name)\<rparr>"
  let ?P = "\<lambda>j. case bus_templates ?S j of None \<Rightarrow> False | Some t \<Rightarrow> strcaseeq name' t"
  have "?P j = (j = nat i)" if "j < 1024" for j
  proof (cases "j = nat i")
    case True
    then show ?thesis using assms(5) by (simp add: strcaseeq_def)
  next
    case False
    then show ?thesis using assms(4,5) that by (auto simp: strcaseeq_def split: option.splits)
  qed
  then have "List.find ?P [0..<1024] = List.find (\<lambda>j. j = nat i) [0..<1024]"
    by (intro find_cong) auto
  also have "\<dots> = Some (nat i)"
    unfolding find_Some_iff using assms(1,2) by (intro exI [of _ "nat i"]) auto
  finally have "agc_event_get_id ?S (Some name') = Inr (nat i)" by (simp add: agc_event_get_id_def)
  then show ?thesis using assms(1-3)
    by (simp add: agc_event_register_def agc_event_get_name_def EVENT_ID_IS_INVALID_def)
qed

lemma register_lookup_witness:
  "\<exists>S S'. agc_event_register S 9 ''om_log'' = Some (S', AGC_STATUS_SUCCESS) \<and> agc_event_get_id S' (Some ''OM_Log'') = Inr 9"
proof -
  obtain S :: bus where S: "bus_templates S = init_ids" using init_some [of 1 demo_mem] by blast
  have "\<forall>j<1024. case init_ids j of None \<Rightarrow> True | Some t \<Rightarrow> \<not> strcaseeq ''om_log'' t"
  proof -
    have "\<not> strcaseeq ''om_log'' ''all''" "\<not> strcaseeq ''om_log'' ''esl''" "\<not> strcaseeq ''om_log'' ''api_res''"
      "\<not> strcaseeq ''om_log'' ''sig2media''" "\<not> strcaseeq ''om_log'' ''media2sig''"
      "\<not> strcaseeq ''om_log'' ''om_cmd''" "\<not> strcaseeq ''om_log'' ''om_alarm''" by code_simp+
    then show ?thesis by (simp add: init_ids_def)
  qed
  moreover have "strcaseeq ''om_log'' ''OM_Log''" by code_simp
  ultimately show ?thesis using register_lookup [of 9 S "''om_log''" "''OM_Log''"] S by (auto simp: init_ids_def)
qed

text \<open>The limits: binding the identifier 1024 passes the check and writes behind the table,
  registering a negative one indexes before it, an event with an identifier out of range is accepted
  by \<open>agc_event_fire\<close> and reads outside the table when it is delivered, and an event with the
  identifier of all events is given to their subscribers twice.\<close>

lemma event_id_limits:
  assumes "reachable S" "bus_running S" "ev_callback e = NULL" "event_headers (bus_mem S) e kvs"
  shows "agc_event_bind S nid 1024 cb = None \<and> (i < 0 \<longrightarrow> agc_event_register S i name = None) \<and>
     (1024 \<le> ev_id e \<longrightarrow> agc_event_deliver S (Plain e) = None) \<and>
     (ev_id e = 0 \<longrightarrow> (\<exists>S'. agc_event_deliver S (Plain e) = Some S' \<and>
        bus_log S' = bus_log S @ map (Notify (Plain e)) (subscribers S 0 @ subscribers S 0)))"
proof -
  from assms(4) destroy_ok obtain M' where "agc_event_destroy (bus_mem S) (Some e) = Some (M', None)"
    unfolding event_headers_def by blast
  then show ?thesis using assms(2,3) callbacks_subscribers [OF reachable_ok(2) [OF assms(1)]]
    by (simp add: agc_event_bind_def agc_event_bind_removable_def agc_event_register_def EVENT_ID_IS_INVALID_def
        agc_event_deliver_def call_back_def give_back_def destroy_queued_def event_fields_def)
qed

lemma event_id_limits_witness:
  "\<exists>S. reachable S \<and> agc_event_bind S ''x'' 1024 77 = None \<and> agc_event_register S (- 1) ''n'' = None"
proof -
  obtain S where S: "agc_event_init 1 demo_mem = Some (S, AGC_STATUS_SUCCESS)" "bus_running S" "bus_mem S = demo_mem"
    using init_some [of 1 demo_mem] by auto
  have "event_headers (bus_mem S) demo_event [(''Name'', Some ''v''), (''_t'', Some ''7'')]" using S(3) demo_event_headers by simp
  moreover have "ev_callback demo_event = NULL" by (simp add: demo_event_def agc_event_create_def)
  ultimately show ?thesis
    using event_id_limits [OF reachable_init [OF S(1)] S(2), of demo_event _ "''x''" 77 "- 1" "''n''"] reachable_init [OF S(1)]
    by auto
qed

end
