(* ===== verification/Api.thy ===== *)
theory Api
  imports Line_Fields Buffers
begin

text \<open>
  The command interface (agc_api.c): the stream that commands write to, a buffer that grows; the
  registry of commands; and the execution of a line of commands. A command function may change the
  world, which is a parameter of the model, and the stream.
\<close>

section \<open>Streams\<close>

record stream =
  sh_data :: string
  sh_end :: nat
  sh_size :: nat
  sh_len :: nat
  sh_alloc_len :: nat
  sh_alloc_chunk :: nat
  sh_uuid :: "string option"

abbreviation AGC_CMD_CHUNK_LEN :: nat where
  "AGC_CMD_CHUNK_LEN \<equiv> 1024"

definition agc_api_stand_stream :: stream where
  "agc_api_stand_stream = \<lparr>sh_data = replicate AGC_CMD_CHUNK_LEN NUL, sh_end = 0, sh_size = AGC_CMD_CHUNK_LEN,
     sh_len = 0, sh_alloc_len = AGC_CMD_CHUNK_LEN, sh_alloc_chunk = AGC_CMD_CHUNK_LEN, sh_uuid = None\<rparr>"

text \<open>
  The formatted text is appended at the end mark and the length is then measured from the start of
  the buffer. \<open>data\<close> is the text that \<open>agc_vmprintf\<close> makes, \<^term>\<open>None\<close> when it fails.
\<close>

definition put_text :: "stream \<Rightarrow> string \<Rightarrow> (stream \<times> agc_status) option" where
  "put_text h d =
     (if sh_size h - sh_len h < length d + 1 then Some (h, AGC_STATUS_FALSE)
      else do {
        buf \<leftarrow> strcpy_at (sh_data h) (sh_end h) d;
        n \<leftarrow> strlen_of buf;
        Some (h\<lparr>sh_data := buf, sh_len := n, sh_end := n\<rparr>, AGC_STATUS_SUCCESS) })"

definition agc_api_stream_write :: "memory \<Rightarrow> stream \<Rightarrow> string option \<Rightarrow> (stream \<times> agc_status) option" where
  "agc_api_stream_write mem h data =
     (if sh_size h \<le> sh_len h then Some (h, AGC_STATUS_FALSE)
      else (case data of
          None \<Rightarrow> Some (h, AGC_STATUS_FALSE)
        | Some d \<Rightarrow>
            let remaining = sh_size h - sh_len h; need = length d + 1 in
            if remaining < need \<and> sh_alloc_len h \<noteq> 0 then
              (let new_len = sh_size h + need + sh_alloc_chunk h in
               case realloc_bytes mem (sh_data h) new_len of
                 None \<Rightarrow> Some (h, AGC_STATUS_FALSE)
               | Some new_data \<Rightarrow> put_text (h\<lparr>sh_size := new_len, sh_alloc_len := new_len, sh_data := new_data,
                   sh_end := sh_len h\<rparr>) d)
            else put_text h d))"

definition put_raw :: "stream \<Rightarrow> string \<Rightarrow> (stream \<times> agc_status) option" where
  "put_raw h data = do {
     buf \<leftarrow> copy_at (sh_data h) (sh_len h) data;
     let n = sh_len h + length data;
     buf \<leftarrow> copy_at buf n [NUL];
     Some (h\<lparr>sh_data := buf, sh_len := n, sh_end := n\<rparr>, AGC_STATUS_SUCCESS) }"

definition agc_api_stream_raw_write :: "memory \<Rightarrow> stream \<Rightarrow> string \<Rightarrow> (stream \<times> agc_status) option" where
  "agc_api_stream_raw_write mem h data =
     (let need = sh_len h + length data in
      if sh_size h \<le> need then
        (let need = need + sh_alloc_chunk h in
         case realloc_bytes mem (sh_data h) need of
           None \<Rightarrow> Some (h, AGC_STATUS_MEMERR)
         | Some new_data \<Rightarrow> put_raw (h\<lparr>sh_data := new_data, sh_size := need\<rparr>) data)
      else put_raw h data)"

section \<open>Commands\<close>

record 'w api =
  api_name :: string
  api_desc :: "string option"
  api_syntax :: "string option"
  api_function :: "string option \<Rightarrow> 'w \<Rightarrow> stream \<Rightarrow> ('w \<times> stream \<times> agc_status) option"

text \<open>The registry, with the command registered last in front.\<close>

definition agc_api_register :: "'w api list \<Rightarrow> string option \<Rightarrow> string option \<Rightarrow> string option \<Rightarrow>
    (string option \<Rightarrow> 'w \<Rightarrow> stream \<Rightarrow> ('w \<times> stream \<times> agc_status) option) option \<Rightarrow> 'w api list \<times> agc_status" where
  "agc_api_register apis name desc synt func = (case (name, func) of
     (Some n, Some f) \<Rightarrow> (\<lparr>api_name = n, api_desc = desc, api_syntax = synt, api_function = f\<rparr> # apis, AGC_STATUS_SUCCESS)
   | _ \<Rightarrow> (apis, AGC_STATUS_FALSE))"

definition agc_api_find :: "'w api list \<Rightarrow> string \<Rightarrow> 'w api option" where
  "agc_api_find apis cmd = List.find (\<lambda>a. strcaseeq (api_name a) cmd) apis"

definition say :: "memory \<Rightarrow> 'w \<Rightarrow> stream \<Rightarrow> string \<Rightarrow> agc_status \<Rightarrow> ('w \<times> stream \<times> agc_status) option" where
  "say mem w stream msg status = map_option (\<lambda>(stream, _). (w, stream, status)) (agc_api_stream_write mem stream (Some msg))"

definition agc_api_execute :: "memory \<Rightarrow> 'w api list \<Rightarrow> 'w \<Rightarrow> string option \<Rightarrow> string option \<Rightarrow> stream \<Rightarrow>
    ('w \<times> stream \<times> agc_status) option" where
  "agc_api_execute mem apis w cmd arg stream =
     (case Option.bind cmd (agc_api_find apis) of
        Some api \<Rightarrow> do {
          (w, stream, status) \<leftarrow> api_function api arg w stream;
          if status \<noteq> AGC_STATUS_SUCCESS then say mem w stream (''COMMAND RETURN ERROR!'' @ [CHR 0x0A]) status
          else Some (w, stream, status) }
      | None \<Rightarrow> say mem w stream (''INVALID COMMAND!'' @ [CHR 0x0A]) AGC_STATUS_FALSE)"

text \<open>\<open>strchr\<close> and cutting there: the text before the character, and the text behind it when it occurs.\<close>

definition cut_char :: "char \<Rightarrow> string \<Rightarrow> string \<times> string option" where
  "cut_char c s = (if c \<in> set s then (takeWhile (\<lambda>x. x \<noteq> c) s, Some (tl (dropWhile (\<lambda>x. x \<noteq> c) s))) else (s, None))"

abbreviation CR :: char where
  "CR \<equiv> CHR 0x0D"

abbreviation LF :: char where
  "LF \<equiv> CHR 0x0A"

text \<open>
  One command \<open>uuid cmd arg\<close>. Without a blank \<open>cmd\<close> is null and the search for the next blank in it
  goes wrong, before the test for null. The stream in the result is the one just before it is freed.
\<close>

definition parse_and_exec :: "memory \<Rightarrow> 'w api list \<Rightarrow> 'w \<Rightarrow> string option \<Rightarrow> ('w \<times> stream option \<times> agc_status) option" where
  "parse_and_exec mem apis w xcmd = (case xcmd of
     None \<Rightarrow> Some (w, None, AGC_STATUS_FALSE)
   | Some x \<Rightarrow> do {
       let line = (if CR \<in> set x then fst (cut_char CR x) else fst (cut_char LF x));
       let (uuid, cmd) = cut_char (CHR '' '') line;
       c \<leftarrow> cmd;
       let (c, arg) = cut_char (CHR '' '') c;
       (w, stream, status) \<leftarrow> agc_api_execute mem apis w (Some c) arg (agc_api_stand_stream\<lparr>sh_uuid := Some uuid\<rparr>);
       Some (w, Some stream, AGC_STATUS_SUCCESS) })"

fun exec_commands :: "memory \<Rightarrow> 'w api list \<Rightarrow> 'w \<Rightarrow> string list \<Rightarrow> ('w \<times> (stream option \<times> agc_status) list) option" where
  "exec_commands mem apis w [] = Some (w, [])"
| "exec_commands mem apis w (x # xs) = do {
     (w, r) \<leftarrow> parse_and_exec mem apis w (Some x);
     (w, rs) \<leftarrow> exec_commands mem apis w xs;
     Some (w, r # rs) }"

definition agc_parse_execute :: "memory \<Rightarrow> 'w api list \<Rightarrow> 'w \<Rightarrow> string option \<Rightarrow> ('w \<times> (stream option \<times> agc_status) list) option" where
  "agc_parse_execute mem apis w xcmd = (case xcmd of
     None \<Rightarrow> Some (w, [])
   | Some x \<Rightarrow> do {
       (buf, argv) \<leftarrow> agc_separate_string (Some (x @ [NUL])) (CHR '';'') 100;
       exec_commands mem apis w (map (cstr buf) argv) })"

section \<open>A stream holds its text\<close>

definition stream_text :: "stream \<Rightarrow> string \<Rightarrow> bool" where
  "stream_text h t \<longleftrightarrow> (\<exists>r. sh_data h = t @ NUL # r) \<and> sh_size h = length (sh_data h) \<and> sh_len h = length t \<and>
     sh_end h = length t \<and> sh_alloc_len h \<noteq> 0 \<and> 0 < sh_alloc_chunk h"

abbreviation no_nul :: "string \<Rightarrow> bool" where
  "no_nul s \<equiv> NUL \<notin> set s"

lemma stand_stream_text: "stream_text agc_api_stand_stream []"
  unfolding stream_text_def agc_api_stand_stream_def
  by (auto simp: numeral_eq_Suc intro!: exI [of _ "replicate 1023 NUL"])

text \<open>The length of a buffer is measured to its first NUL, wherever the bytes behind it come from.\<close>

abbreviation c_string :: "string \<Rightarrow> string" where
  "c_string s \<equiv> takeWhile (\<lambda>c. c \<noteq> NUL) s"

lemma c_string_split: "\<exists>r'. s @ NUL # r = c_string s @ NUL # r'"
proof (cases "no_nul s")
  case True
  then have "c_string s = s" by (auto simp: takeWhile_eq_all_conv)
  then show ?thesis by (intro exI [of _ r]) (simp only:)
next
  case False
  then have "dropWhile (\<lambda>c. c \<noteq> NUL) s \<noteq> []" by (auto simp: dropWhile_eq_Nil_conv)
  then obtain c q where d: "dropWhile (\<lambda>c. c \<noteq> NUL) s = c # q" by (cases "dropWhile (\<lambda>c. c \<noteq> NUL) s") auto
  then have "c = NUL" using hd_dropWhile [of "\<lambda>c. c \<noteq> NUL" s] by simp
  then have "s = c_string s @ NUL # q" using takeWhile_dropWhile_id [of "\<lambda>c. c \<noteq> NUL" s] d by simp
  then have "s @ NUL # r = c_string s @ NUL # (q @ NUL # r)" by (metis append.assoc append_Cons)
  then show ?thesis by blast
qed

lemma strlen_c_string: "strlen_of (s @ NUL # r) = Some (length (c_string s))"
proof -
  from c_string_split [of s r] obtain r' where r: "s @ NUL # r = c_string s @ NUL # r'" by blast
  have "no_nul (c_string s)" using set_takeWhileD by fastforce
  then show ?thesis unfolding r by (rule strlen_text)
qed

lemma put_text_ok:
  assumes "stream_text h t" "length d + 1 \<le> sh_size h - sh_len h"
  shows "\<exists>h'. put_text h d = Some (h', AGC_STATUS_SUCCESS) \<and> stream_text h' (c_string (t @ d))"
proof -
  obtain r where h: "sh_data h = t @ NUL # r" "sh_size h = length t + 1 + length r" "sh_len h = length t"
    "sh_end h = length t" "sh_alloc_len h \<noteq> 0" "0 < sh_alloc_chunk h"
    using assms(1) by (auto simp: stream_text_def)
  let ?buf = "(t @ d) @ NUL # drop (length d) r" and ?n = "length (c_string (t @ d))"
  have "strcpy_at (sh_data h) (sh_end h) d = Some (t @ (d @ [NUL]) @ drop (length (d @ [NUL])) (NUL # r))"
    unfolding strcpy_at_def h(1,4) using assms(2) h(2,3) by (intro copy_at_end) simp
  then have "strcpy_at (sh_data h) (sh_end h) d = Some ?buf" by simp
  then have "put_text h d = Some (h\<lparr>sh_data := ?buf, sh_len := ?n, sh_end := ?n\<rparr>, AGC_STATUS_SUCCESS)"
    using assms(2) strlen_c_string [of "t @ d" "drop (length d) r"] by (simp only: put_text_def) simp
  moreover have "length ?buf = sh_size h" using assms(2) h(2,3) by simp
  moreover have "\<exists>r'. ?buf = c_string (t @ d) @ NUL # r'" by (rule c_string_split)
  ultimately show ?thesis using h(5,6) by (simp add: stream_text_def)
qed

lemma stream_write_ok:
  assumes "stream_text h t"
  shows "\<exists>h'. agc_api_stream_write (Some junk) h (Some d) = Some (h', AGC_STATUS_SUCCESS) \<and> stream_text h' (c_string (t @ d))"
proof (cases "sh_size h - sh_len h < length d + 1")
  case False
  then show ?thesis using put_text_ok [OF assms] assms(1)
    by (auto simp: agc_api_stream_write_def Let_def stream_text_def)
next
  case True
  let ?n = "sh_size h + (length d + 1) + sh_alloc_chunk h"
  let ?h = "h\<lparr>sh_size := ?n, sh_alloc_len := ?n, sh_data := sh_data h @ map junk [length (sh_data h)..<?n], sh_end := sh_len h\<rparr>"
  have g: "stream_text ?h t" using assms(1) by (auto simp: stream_text_def)
  have "length d + 1 \<le> sh_size ?h - sh_len ?h" using assms(1) by (auto simp: stream_text_def)
  with put_text_ok [OF g] obtain h' where
    "put_text ?h d = Some (h', AGC_STATUS_SUCCESS)" "stream_text h' (c_string (t @ d))" by blast
  moreover have "realloc_bytes (Some junk) (sh_data h) ?n = Some (sh_data ?h)"
    using assms(1) by (subst realloc_larger) (simp_all add: stream_text_def)
  moreover have "sh_len h < sh_size h" "sh_alloc_len h \<noteq> 0" using assms(1) by (auto simp: stream_text_def)
  ultimately show ?thesis using True by (simp add: agc_api_stream_write_def Let_def)
qed

lemma put_raw_ok:
  assumes "stream_text h t" "sh_len h + length w < sh_size h"
  shows "\<exists>h'. put_raw h w = Some (h', AGC_STATUS_SUCCESS) \<and> stream_text h' (t @ w)"
proof -
  obtain r where h: "sh_data h = t @ NUL # r" "sh_size h = length t + 1 + length r" "sh_len h = length t"
    "sh_alloc_len h \<noteq> 0" "0 < sh_alloc_chunk h"
    using assms(1) by (auto simp: stream_text_def)
  have len: "length w \<le> length r" using assms(2) h by simp
  have "copy_at (sh_data h) (sh_len h) w = Some (t @ w @ drop (length w) (NUL # r))"
    unfolding h(1,3) using len by (intro copy_at_end) simp
  moreover have "copy_at ((t @ w) @ drop (length w) (NUL # r)) (length (t @ w)) [NUL] =
      Some ((t @ w) @ [NUL] @ drop (length [NUL]) (drop (length w) (NUL # r)))"
    using len by (intro copy_at_end) simp
  ultimately have "put_raw h w = Some (h\<lparr>sh_data := (t @ w) @ NUL # drop (length w) r,
      sh_len := length (t @ w), sh_end := length (t @ w)\<rparr>, AGC_STATUS_SUCCESS)"
    using h(3) by (simp add: put_raw_def Let_def)
  then show ?thesis using h len by (simp add: stream_text_def)
qed

lemma raw_write_ok:
  assumes "stream_text h t"
  shows "\<exists>h'. agc_api_stream_raw_write (Some junk) h w = Some (h', AGC_STATUS_SUCCESS) \<and> stream_text h' (t @ w)"
proof (cases "sh_size h \<le> sh_len h + length w")
  case False
  then show ?thesis using put_raw_ok [OF assms, of w] by (simp add: agc_api_stream_raw_write_def Let_def)
next
  case True
  let ?n = "sh_len h + length w + sh_alloc_chunk h"
  let ?h = "h\<lparr>sh_data := sh_data h @ map junk [length (sh_data h)..<?n], sh_size := ?n\<rparr>"
  have n: "length (sh_data h) \<le> ?n" using True assms by (simp add: stream_text_def)
  then have "stream_text ?h t" using assms by (auto simp: stream_text_def)
  moreover have "sh_len ?h + length w < sh_size ?h" using assms by (simp add: stream_text_def)
  ultimately show ?thesis using put_raw_ok [of ?h t w] True realloc_larger [OF n, of junk]
    by (simp add: agc_api_stream_raw_write_def Let_def)
qed

text \<open>What a writer relies on: an operation that succeeds and has its effect on the contents.\<close>

locale text_sink =
  fixes holds :: "'s \<Rightarrow> string \<Rightarrow> bool"
    and effect :: "string \<Rightarrow> 'op \<Rightarrow> string"
    and put :: "'s \<Rightarrow> 'op \<Rightarrow> ('s \<times> agc_status) option"
  assumes put_effect: "holds s t \<Longrightarrow> \<exists>s'. put s w = Some (s', AGC_STATUS_SUCCESS) \<and> holds s' (effect t w)"
begin

fun put_all :: "'s \<Rightarrow> 'op list \<Rightarrow> ('s \<times> agc_status list) option" where
  "put_all s [] = Some (s, [])"
| "put_all s (w # ws) = do { (s, st) \<leftarrow> put s w; (s, sts) \<leftarrow> put_all s ws; Some (s, st # sts) }"

lemma put_all_effect:
  "holds s t \<Longrightarrow>
   \<exists>s'. put_all s ws = Some (s', replicate (length ws) AGC_STATUS_SUCCESS) \<and> holds s' (foldl effect t ws)"
proof (induction ws arbitrary: s t)
  case (Cons w ws)
  then obtain s1 where p: "put s w = Some (s1, AGC_STATUS_SUCCESS)" "holds s1 (effect t w)"
    using put_effect by fastforce
  with Cons.IH [OF p(2)] show ?case by auto
qed simp

end

text \<open>The two ways to write, in any order. A formatted text is added and the contents then end at the
  first NUL; raw bytes are added as they are.\<close>

datatype stream_op = Text string | Raw string

fun stream_put :: "memory \<Rightarrow> stream \<Rightarrow> stream_op \<Rightarrow> (stream \<times> agc_status) option" where
  "stream_put mem h (Text d) = agc_api_stream_write mem h (Some d)"
| "stream_put mem h (Raw b) = agc_api_stream_raw_write mem h b"

fun written :: "string \<Rightarrow> stream_op \<Rightarrow> string" where
  "written t (Text d) = c_string (t @ d)"
| "written t (Raw b) = t @ b"

interpretation writes: text_sink stream_text written "stream_put (Some junk)" for junk
proof
  show "stream_text h t \<Longrightarrow> \<exists>h'. stream_put (Some junk) h w = Some (h', AGC_STATUS_SUCCESS) \<and> stream_text h' (written t w)"
    for h t w using stream_write_ok raw_write_ok by (cases w) auto
qed

lemma write_no_memory:
  assumes "stream_text h t" "sh_size h \<le> sh_len h + length d"
  shows "agc_api_stream_write None h (Some d) = Some (h, AGC_STATUS_FALSE)"
    "agc_api_stream_raw_write None h d = Some (h, AGC_STATUS_MEMERR)"
  using assms by (auto simp: agc_api_stream_write_def agc_api_stream_raw_write_def Let_def realloc_bytes_def stream_text_def)

text \<open>The contents of the writes of a sequence, one after the other.\<close>

fun op_bytes :: "stream_op \<Rightarrow> string" where
  "op_bytes (Text d) = d"
| "op_bytes (Raw b) = b"

lemma written_concat:
  "no_nul t \<Longrightarrow> \<forall>w\<in>set ops. no_nul (op_bytes w) \<Longrightarrow> foldl written t ops = t @ concat (map op_bytes ops)"
proof (induction ops arbitrary: t)
  case (Cons w ops)
  then have n: "no_nul (t @ op_bytes w)" by simp
  then have "written t w = t @ op_bytes w" by (cases w) (auto simp: takeWhile_eq_all_conv)
  with Cons.IH [OF n] Cons.prems(2) show ?case by simp
qed simp

text \<open>C20. A fresh stream takes any sequence of formatted texts and raw bytes, in any order: every write
  succeeds and stays inside the buffer however often it has to grow. What the stream holds, with a
  terminator behind it, is the effect of the writes one after the other: raw bytes are appended; a
  formatted text is appended and then everything from the first NUL on, which only raw bytes can have
  brought, is cut off. When no write contains a NUL that is all the bytes written, in order. Without
  memory to grow, a text or raw bytes that do not fit are refused and the stream stays as it is.\<close>

theorem stream_collects:
  "\<exists>h. writes.put_all junk agc_api_stand_stream ops = Some (h, replicate (length ops) AGC_STATUS_SUCCESS) \<and>
     take (sh_len h) (sh_data h) = foldl written [] ops \<and> sh_data h ! sh_len h = NUL \<and>
     sh_len h < sh_size h \<and> sh_size h = length (sh_data h) \<and>
     ((\<forall>w\<in>set ops. no_nul (op_bytes w)) \<longrightarrow> take (sh_len h) (sh_data h) = concat (map op_bytes ops)) \<and>
     (\<forall>d. sh_size h \<le> sh_len h + length d \<longrightarrow>
        agc_api_stream_write None h (Some d) = Some (h, AGC_STATUS_FALSE) \<and>
        agc_api_stream_raw_write None h d = Some (h, AGC_STATUS_MEMERR))"
proof -
  from writes.put_all_effect [OF stand_stream_text, of junk ops] obtain h where
    "writes.put_all junk agc_api_stand_stream ops = Some (h, replicate (length ops) AGC_STATUS_SUCCESS)"
    and h: "stream_text h (foldl written [] ops)" by blast
  moreover have "take (sh_len h) (sh_data h) = foldl written [] ops" "sh_data h ! sh_len h = NUL"
    "sh_len h < sh_size h" "sh_size h = length (sh_data h)" using h by (auto simp: stream_text_def)
  ultimately show ?thesis using written_concat [of "[]" ops] write_no_memory [OF h] by auto
qed

theorem stream_collects_witness:
  "\<exists>h. writes.put_all (\<lambda>_. CHR ''?'') agc_api_stand_stream [Text ''+OK '', Raw [CHR ''a'', NUL, CHR ''x''], Text ''lost''] =
       Some (h, [AGC_STATUS_SUCCESS, AGC_STATUS_SUCCESS, AGC_STATUS_SUCCESS]) \<and>
     take (sh_len h) (sh_data h) = ''+OK a'' \<and>
     (\<exists>h. writes.put_all (\<lambda>_. CHR ''?'') agc_api_stand_stream [Raw ''+OK '', Text ''done''] =
       Some (h, [AGC_STATUS_SUCCESS, AGC_STATUS_SUCCESS]) \<and> take (sh_len h) (sh_data h) = ''+OK done'')"
  using stream_collects [of "\<lambda>_. CHR ''?''" "[Text ''+OK '', Raw [CHR ''a'', NUL, CHR ''x''], Text ''lost'']"]
    stream_collects [of "\<lambda>_. CHR ''?''" "[Raw ''+OK '', Text ''done'']"]
  by (simp add: numeral_2_eq_2 numeral_3_eq_3) blast

section \<open>Lines of commands\<close>

lemma cut_none: "c \<notin> set s \<Longrightarrow> cut_char c s = (s, None)"
  by (simp add: cut_char_def)

lemma cut_some:
  assumes "c \<notin> set s"
  shows "cut_char c (s @ c # t) = (s, Some t)"
proof -
  have "takeWhile (\<lambda>x. x \<noteq> c) (s @ c # t) = s" using assms by (subst takeWhile_append2) auto
  moreover have "dropWhile (\<lambda>x. x \<noteq> c) (s @ c # t) = c # t" using assms by (subst dropWhile_append2) auto
  ultimately show ?thesis by (simp add: cut_char_def)
qed

type_synonym command = "string \<times> string \<times> string option"

fun cmd_line :: "command \<Rightarrow> string" where
  "cmd_line (u, c, a) = u @ CHR '' '' # c @ (case a of None \<Rightarrow> [] | Some a \<Rightarrow> CHR '' '' # a)"

fun words_ok :: "command \<Rightarrow> bool" where
  "words_ok (u, c, a) \<longleftrightarrow> CHR '' '' \<notin> set u \<and> CHR '' '' \<notin> set c \<and> CR \<notin> set (cmd_line (u, c, a)) \<and> LF \<notin> set (cmd_line (u, c, a))"

text \<open>What a line of commands means: each is executed on a fresh stream, one after the other.\<close>

fun run_commands :: "memory \<Rightarrow> 'w api list \<Rightarrow> 'w \<Rightarrow> command list \<Rightarrow> ('w \<times> (stream option \<times> agc_status) list) option" where
  "run_commands mem apis w [] = Some (w, [])"
| "run_commands mem apis w ((u, c, a) # cs) = do {
     (w, stream, status) \<leftarrow> agc_api_execute mem apis w (Some c) a (agc_api_stand_stream\<lparr>sh_uuid := Some u\<rparr>);
     (w, rs) \<leftarrow> run_commands mem apis w cs;
     Some (w, (Some stream, AGC_STATUS_SUCCESS) # rs) }"

lemma parse_and_exec_line:
  assumes "words_ok (u, c, a)"
  shows "parse_and_exec mem apis w (Some (cmd_line (u, c, a))) = do {
     (w, stream, status) \<leftarrow> agc_api_execute mem apis w (Some c) a (agc_api_stand_stream\<lparr>sh_uuid := Some u\<rparr>);
     Some (w, Some stream, AGC_STATUS_SUCCESS) }"
proof -
  let ?l = "cmd_line (u, c, a)"
  have l: "CR \<notin> set ?l" "LF \<notin> set ?l" using assms by (simp_all only: words_ok.simps not_False_eq_True)
  note l = l(1) cut_none [OF l(2)]
  have c: "cut_char (CHR '' '') ?l = (u, Some (c @ (case a of None \<Rightarrow> [] | Some a \<Rightarrow> CHR '' '' # a)))"
    unfolding cmd_line.simps using assms by (intro cut_some) simp
  have a: "cut_char (CHR '' '') (c @ (case a of None \<Rightarrow> [] | Some a \<Rightarrow> CHR '' '' # a)) = (c, a)"
    using assms by (cases a) (simp_all add: cut_none cut_some)
  show ?thesis unfolding parse_and_exec_def using l c a by (simp del: cmd_line.simps add: Let_def)
qed

lemma exec_commands_lines:
  "\<forall>c\<in>set cmds. words_ok c \<Longrightarrow> exec_commands mem apis w (map cmd_line cmds) = run_commands mem apis w cmds"
proof (induction cmds arbitrary: w)
  case (Cons x cmds)
  obtain u c a where x: "x = (u, c, a)" by (cases x)
  have "words_ok (u, c, a)" using Cons.prems x by simp
  note e = parse_and_exec_line [OF this]
  have IH: "exec_commands mem apis w' (map cmd_line cmds) = run_commands mem apis w' cmds" for w'
    using Cons.IH Cons.prems by simp
  show ?case unfolding x list.map exec_commands.simps run_commands.simps e IH
    by (cases "agc_api_execute mem apis w (Some c) a (agc_api_stand_stream\<lparr>sh_uuid := Some u\<rparr>)") (auto simp: Option.bind_assoc)
qed simp

text \<open>C29. A line of at most 100 commands \<open>uuid command argument\<close> between semicolons, without quotes,
  backslashes and line ends, executes these commands in this order, each with its argument on a fresh
  stream that carries its uuid.\<close>

theorem parse_execute_runs:
  assumes "\<forall>x\<in>set cmds. words_ok x \<and> plain (cmd_line x) \<and> CHR '';'' \<notin> set (cmd_line x) \<and> trim (cmd_line x) = cmd_line x"
    and "cmds \<noteq> []" "length cmds \<le> 100" "take 2 (join (CHR '';'') (map cmd_line cmds)) \<noteq> ''^^''"
  shows "agc_parse_execute mem apis w (Some (join (CHR '';'') (map cmd_line cmds))) = run_commands mem apis w cmds"
proof -
  have "last (map cmd_line cmds) \<noteq> []" using assms(2) by (cases "last cmds") (auto simp: last_map)
  moreover have "\<forall>f\<in>set (map cmd_line cmds). plain f \<and> CHR '';'' \<notin> set f \<and> trim f = f" using assms(1) by auto
  moreover have "CHR '';'' \<noteq> NUL \<and> CHR '';'' \<noteq> ESCAPE_META \<and> CHR '';'' \<noteq> QUOTE \<and> CHR '';'' \<noteq> CHR '' ''" by simp
  ultimately obtain buf argv where
    r: "agc_separate_string (Some (join (CHR '';'') (map cmd_line cmds) @ [NUL])) (CHR '';'') 100 = Some (buf, argv)"
    "fields_of (buf, argv) = map cmd_line cmds"
    using separate_join [of "map cmd_line cmds" "CHR '';''" 100 "[]"] assms(2-4) by auto
  have "exec_commands mem apis w (map cmd_line cmds) = run_commands mem apis w cmds"
    using assms(1) by (intro exec_commands_lines) blast
  then show ?thesis using r by (simp add: agc_parse_execute_def fields_of_def)
qed

definition count_api :: "nat api" where
  "count_api = \<lparr>api_name = ''count'', api_desc = None, api_syntax = None,
     api_function = (\<lambda>arg w stream. Some (w + (case arg of None \<Rightarrow> 1 | Some a \<Rightarrow> length a), stream, AGC_STATUS_SUCCESS))\<rparr>"

theorem parse_execute_runs_witness:
  "\<exists>r1 r2. agc_parse_execute None [count_api] 5 (Some ''u1 Count a b;u2 count'') = Some (9, [(Some r1, AGC_STATUS_SUCCESS), (Some r2, AGC_STATUS_SUCCESS)]) \<and>
     sh_uuid r1 = Some ''u1'' \<and> sh_uuid r2 = Some ''u2''"
proof -
  let ?cs = "[(''u1'', ''Count'', Some ''a b''), (''u2'', ''count'', None)] :: command list"
  have "strcaseeq ''count'' ''Count''" by code_simp
  moreover have "\<forall>x\<in>set ?cs. words_ok x \<and> plain (cmd_line x) \<and> CHR '';'' \<notin> set (cmd_line x) \<and> trim (cmd_line x) = cmd_line x"
    by (simp add: trim_def)
  note parse_execute_runs [OF this, of None "[count_api]" 5]
  ultimately show ?thesis by (simp add: agc_api_execute_def agc_api_find_def count_api_def)
qed

text \<open>A command without a blank makes the execution dereference a null pointer, whatever commands
  are registered: the test for null comes after its use.\<close>

lemma command_without_blank:
  assumes "plain s" "CHR '';'' \<notin> set s" "CHR '' '' \<notin> set s" "s \<noteq> []" "trim s = s" "take 2 s \<noteq> ''^^''"
  shows "agc_parse_execute mem apis w (Some s) = None"
proof -
  have "CHR '';'' \<noteq> NUL \<and> CHR '';'' \<noteq> ESCAPE_META \<and> CHR '';'' \<noteq> QUOTE \<and> CHR '';'' \<noteq> CHR '' ''" by simp
  then obtain buf argv where r: "agc_separate_string (Some (s @ [NUL])) (CHR '';'') 100 = Some (buf, argv)"
    "fields_of (buf, argv) = [s]"
    using separate_join [of "[s]" "CHR '';''" 100 "[]"] assms by auto
  have "set (fst (cut_char c s)) \<subseteq> set s" for c by (auto simp: cut_char_def dest: set_takeWhileD)
  then have "CHR '' '' \<notin> set (if CR \<in> set s then fst (cut_char CR s) else fst (cut_char LF s))" using assms(3) by auto
  note c = cut_none [OF this]
  have "parse_and_exec mem apis w (Some s) = None"
    by (simp only: parse_and_exec_def option.case Let_def c prod.case bind.simps)
  then show ?thesis using r by (simp add: agc_parse_execute_def fields_of_def)
qed

lemma command_without_blank_witness:
  "agc_parse_execute None ([] :: nat api list) 0 (Some ''version'') = None"
  by (rule command_without_blank) (simp_all add: trim_def)

end
