(* ===== verification/Media_Context.thy ===== *)
theory Media_Context
  imports Buffers
begin

text \<open>
  The media gateway's context (media_context.c and the socket functions of media_gtp_path.c): the local
  addresses, the sessions with their tunnels, and the sockets that sessions share and count.

  A session and a socket live at an address. Socket addresses are the bytes of a \<open>sockaddr\<close>. The
  operating system is a parameter: \<open>opens\<close> says whether binding a local address and connecting it to a
  remote one succeeds. Memory from \<open>malloc\<close> is not cleared, so a new session starts from an arbitrary
  one, the argument \<open>junk\<close>. Identifiers are the values of \<open>uint32_t\<close> variables.
\<close>

section \<open>Data\<close>

abbreviation MAX_MEDIA_SESSIONS :: nat where
  "MAX_MEDIA_SESSIONS \<equiv> 100000"

abbreviation MEDIA_FOUR_TIMES :: nat where
  "MEDIA_FOUR_TIMES \<equiv> 4"

definition MEDIA_CFG_GTP_IPV4 :: nat where
  "MEDIA_CFG_GTP_IPV4 = 0"

definition MEDIA_CFG_GTP_IPV6 :: nat where
  "MEDIA_CFG_GTP_IPV6 = 1"

datatype media_interface = MEDIA_INTERFACE_N3 | MEDIA_INTERFACE_N3_UPF

record gtp_node =
  gn_addr :: string
  gn_addrlen :: nat
  gn_sock :: ptr
  gn_ip_type :: nat
  gn_interface :: media_interface

record gtp_node_v2 =
  g2_ref :: int
  g2_sock :: ptr

record gtp_sock =
  gs_local :: string
  gs_remote :: string

record gtp_path =
  gp_remote_teid :: nat
  gp_local_teid :: nat
  gp_local_addr :: string
  gp_local_addrlen :: nat
  gp_remote_addr :: string
  gp_remote_addrlen :: nat
  gp_sock :: ptr

record sig_sess =
  ss_sess_id :: nat
  ss_sig_sess_id :: nat
  ss_gateway :: string
  ss_upf :: gtp_path
  ss_gnb :: gtp_path
  ss_upfv6 :: gtp_path
  ss_gnbv6 :: gtp_path
  ss_ue_addr :: string
  ss_qos_flow_id :: nat
  ss_last_act_time :: nat

record media_context =
  mc_next_sess_id :: nat
  mc_session_list :: "nat \<Rightarrow> ptr"
  mc_sessions :: "ptr \<Rightarrow> sig_sess option"
  mc_releasing :: "ptr list"
  mc_server_list :: "(ptr \<times> gtp_node) list"
  mc_server_list_v2 :: "(ptr \<times> gtp_node_v2) list"
  mc_socks :: "ptr \<Rightarrow> gtp_sock option"
  mc_brk :: ptr
  mc_hash_key_list :: "ptr list"
  mc_hash_keys :: "ptr \<Rightarrow> string option"
  mc_lbo_ip_table :: "string \<Rightarrow> ptr option"
  mc_ue_ip_table :: "string \<Rightarrow> ptr option"

text \<open>\<open>memcpy\<close> of \<open>n\<close> bytes over the contents of a variable, and \<open>memcmp\<close>.\<close>

definition overwrite :: "string \<Rightarrow> nat \<Rightarrow> string \<Rightarrow> string" where
  "overwrite old n new = take n new @ drop n old"

definition same_bytes :: "string \<Rightarrow> string \<Rightarrow> nat \<Rightarrow> bool" where
  "same_bytes a b n \<longleftrightarrow> take n a = take n b"

definition upd_sess :: "media_context \<Rightarrow> ptr \<Rightarrow> (sig_sess \<Rightarrow> sig_sess) \<Rightarrow> media_context option" where
  "upd_sess S p f = map_option (\<lambda>s. S\<lparr>mc_sessions := (mc_sessions S)(p \<mapsto> f s)\<rparr>) (mc_sessions S p)"

section \<open>Sockets (agc_gtp_path.c)\<close>

definition agc_gtp_open_v2 :: "(string \<Rightarrow> string \<Rightarrow> bool) \<Rightarrow> media_context \<Rightarrow> string \<Rightarrow> nat \<Rightarrow> string \<Rightarrow> nat \<Rightarrow>
    (media_context \<times> ptr) option" where
  "agc_gtp_open_v2 opens S loc loclen rem remlen =
     (if opens (take loclen loc) (take remlen rem) then
        Some (S\<lparr>mc_socks := (mc_socks S)(mc_brk S \<mapsto>
            \<lparr>gs_local = overwrite (replicate 128 NUL) loclen loc, gs_remote = overwrite (replicate 128 NUL) remlen rem\<rparr>),
          mc_brk := mc_brk S + 1\<rparr>, mc_brk S)
      else None)"

definition agc_gtp_close :: "media_context \<Rightarrow> ptr \<Rightarrow> (media_context \<times> agc_status) option" where
  "agc_gtp_close S sock =
     (if sock = NULL then Some (S, AGC_STATUS_FALSE)
      else do { s \<leftarrow> mc_socks S sock; Some (S\<lparr>mc_socks := (mc_socks S)(sock := None)\<rparr>, AGC_STATUS_SUCCESS) })"

section \<open>Local addresses\<close>

definition media_add_gtp_node :: "media_context \<Rightarrow> string \<Rightarrow> nat \<Rightarrow> nat \<Rightarrow> media_interface \<Rightarrow> media_context \<times> agc_status" where
  "media_add_gtp_node S addr addrlen ip_type it =
     (S\<lparr>mc_server_list := mc_server_list S @ [(mc_brk S, \<lparr>gn_addr = take addrlen addr, gn_addrlen = addrlen, gn_sock = NULL,
          gn_ip_type = ip_type, gn_interface = it\<rparr>)], mc_brk := mc_brk S + 1\<rparr>, AGC_STATUS_SUCCESS)"

definition media_remove_gtp_node :: "media_context \<Rightarrow> ptr \<Rightarrow> (media_context \<times> agc_status) option" where
  "media_remove_gtp_node S node =
     (if node = NULL then Some (S, AGC_STATUS_FALSE)
      else do {
        n \<leftarrow> map_of (mc_server_list S) node;
        let S = S\<lparr>mc_server_list := List.filter (\<lambda>(p, _). p \<noteq> node) (mc_server_list S)\<rparr>;
        S \<leftarrow> (if gn_sock n \<noteq> NULL then map_option fst (agc_gtp_close S (gn_sock n)) else Some S);
        Some (S, AGC_STATUS_SUCCESS) })"

fun remove_gtp_nodes :: "media_context \<Rightarrow> ptr list \<Rightarrow> media_context option" where
  "remove_gtp_nodes S [] = Some S"
| "remove_gtp_nodes S (p # ps) = do { (S, st) \<leftarrow> media_remove_gtp_node S p; remove_gtp_nodes S ps }"

definition media_remove_all_gtp_nodes :: "media_context \<Rightarrow> (media_context \<times> agc_status) option" where
  "media_remove_all_gtp_nodes S =
     map_option (\<lambda>S. (S, AGC_STATUS_SUCCESS)) (remove_gtp_nodes S (map fst (mc_server_list S)))"

definition media_gtp_node_first :: "media_context \<Rightarrow> ptr" where
  "media_gtp_node_first S = (case mc_server_list S of [] \<Rightarrow> NULL | (p, _) # _ \<Rightarrow> p)"

text \<open>The first node of an interface and a family.\<close>

definition first_node :: "media_context \<Rightarrow> media_interface \<Rightarrow> nat \<Rightarrow> gtp_node option" where
  "first_node S it ip = map_option snd (List.find (\<lambda>(_, n). gn_interface n = it \<and> gn_ip_type n = ip) (mc_server_list S))"

definition media_gtp_node_n3_v4_first :: "media_context \<Rightarrow> gtp_node option" where
  "media_gtp_node_n3_v4_first S = first_node S MEDIA_INTERFACE_N3 MEDIA_CFG_GTP_IPV4"

definition media_gtp_node_n3_v6_first :: "media_context \<Rightarrow> gtp_node option" where
  "media_gtp_node_n3_v6_first S = first_node S MEDIA_INTERFACE_N3 MEDIA_CFG_GTP_IPV6"

definition media_gtp_node_n3_upf_v4_first :: "media_context \<Rightarrow> gtp_node option" where
  "media_gtp_node_n3_upf_v4_first S = first_node S MEDIA_INTERFACE_N3_UPF MEDIA_CFG_GTP_IPV4"

definition media_gtp_node_n3_upf_v6_first :: "media_context \<Rightarrow> gtp_node option" where
  "media_gtp_node_n3_upf_v6_first S = first_node S MEDIA_INTERFACE_N3_UPF MEDIA_CFG_GTP_IPV6"

section \<open>Shared sockets and their reference counts\<close>

definition media_add_gtp_node_v2 :: "media_context \<Rightarrow> ptr \<Rightarrow> media_context \<times> agc_status" where
  "media_add_gtp_node_v2 S sock =
     (if sock = NULL then (S, AGC_STATUS_FALSE)
      else (S\<lparr>mc_server_list_v2 := mc_server_list_v2 S @ [(mc_brk S, \<lparr>g2_ref = 1, g2_sock = sock\<rparr>)],
              mc_brk := mc_brk S + 1\<rparr>, AGC_STATUS_SUCCESS))"

definition set_ref :: "media_context \<Rightarrow> ptr \<Rightarrow> (int \<Rightarrow> int) \<Rightarrow> media_context" where
  "set_ref S node f = S\<lparr>mc_server_list_v2 :=
     map (\<lambda>(p, n). (p, if p = node then n\<lparr>g2_ref := f (g2_ref n)\<rparr> else n)) (mc_server_list_v2 S)\<rparr>"

definition media_add_gtp_node_ref_v2 :: "media_context \<Rightarrow> ptr \<Rightarrow> (media_context \<times> agc_status) option" where
  "media_add_gtp_node_ref_v2 S node =
     (if node = NULL then Some (S, AGC_STATUS_FALSE)
      else do { n \<leftarrow> map_of (mc_server_list_v2 S) node; Some (set_ref S node (\<lambda>r. r + 1), AGC_STATUS_SUCCESS) })"

definition media_remove_gtp_node_v2 :: "media_context \<Rightarrow> ptr \<Rightarrow> (media_context \<times> agc_status) option" where
  "media_remove_gtp_node_v2 S node =
     (if node = NULL then Some (S, AGC_STATUS_FALSE)
      else do {
        n \<leftarrow> map_of (mc_server_list_v2 S) node;
        let S = S\<lparr>mc_server_list_v2 := List.filter (\<lambda>(p, _). p \<noteq> node) (mc_server_list_v2 S)\<rparr>;
        S \<leftarrow> (if g2_sock n \<noteq> NULL then map_option fst (agc_gtp_close S (g2_sock n)) else Some S);
        Some (S, AGC_STATUS_SUCCESS) })"

definition media_del_gtp_node_ref_v2 :: "media_context \<Rightarrow> ptr \<Rightarrow> (media_context \<times> agc_status) option" where
  "media_del_gtp_node_ref_v2 S sock =
     (if sock = NULL then Some (S, AGC_STATUS_FALSE)
      else (case List.find (\<lambda>(_, n). g2_sock n = sock) (mc_server_list_v2 S) of
          None \<Rightarrow> Some (S, AGC_STATUS_SUCCESS)
        | Some (p, n) \<Rightarrow> do {
            let S = set_ref S p (\<lambda>r. r - 1);
            S \<leftarrow> (if g2_ref n - 1 \<le> 0 then map_option fst (media_remove_gtp_node_v2 S p) else Some S);
            Some (S, AGC_STATUS_SUCCESS) }))"

fun remove_gtp_nodes_v2 :: "media_context \<Rightarrow> ptr list \<Rightarrow> media_context option" where
  "remove_gtp_nodes_v2 S [] = Some S"
| "remove_gtp_nodes_v2 S (p # ps) = do { (S, st) \<leftarrow> media_remove_gtp_node_v2 S p; remove_gtp_nodes_v2 S ps }"

definition media_remove_all_gtp_nodes_v2 :: "media_context \<Rightarrow> (media_context \<times> agc_status) option" where
  "media_remove_all_gtp_nodes_v2 S =
     map_option (\<lambda>S. (S, AGC_STATUS_SUCCESS)) (remove_gtp_nodes_v2 S (map fst (mc_server_list_v2 S)))"

text \<open>The first node whose socket has these addresses; as many bytes are compared as the lengths say.\<close>

fun node_find :: "(ptr \<Rightarrow> gtp_sock option) \<Rightarrow> string \<Rightarrow> nat \<Rightarrow> string \<Rightarrow> nat \<Rightarrow> (ptr \<times> gtp_node_v2) list \<Rightarrow>
    (ptr \<times> gtp_node_v2) option option" where
  "node_find K loc loclen rem remlen [] = Some None"
| "node_find K loc loclen rem remlen ((p, n) # ns) =
     (if g2_sock n = NULL then node_find K loc loclen rem remlen ns
      else do {
        k \<leftarrow> K (g2_sock n);
        if same_bytes (gs_local k) loc loclen \<and> same_bytes (gs_remote k) rem remlen then Some (Some (p, n))
        else node_find K loc loclen rem remlen ns })"

definition media_gtp_node_find :: "media_context \<Rightarrow> gtp_path \<Rightarrow> (ptr \<times> gtp_node_v2) option option" where
  "media_gtp_node_find S g = node_find (mc_socks S) (gp_local_addr g) (gp_local_addrlen g)
     (gp_remote_addr g) (gp_remote_addrlen g) (mc_server_list_v2 S)"

datatype opened = Shared | Opened | Failed

text \<open>The socket of one tunnel of a session: a shared one when there is one with its addresses, else a new one.\<close>

definition open_path :: "(string \<Rightarrow> string \<Rightarrow> bool) \<Rightarrow> media_context \<Rightarrow> ptr \<Rightarrow> (sig_sess \<Rightarrow> gtp_path) \<Rightarrow>
    ((gtp_path \<Rightarrow> gtp_path) \<Rightarrow> sig_sess \<Rightarrow> sig_sess) \<Rightarrow> (media_context \<times> opened) option" where
  "open_path opens S p get upd = do {
     s \<leftarrow> mc_sessions S p;
     let g = get s;
     r \<leftarrow> media_gtp_node_find S g;
     case r of
       Some (q, n) \<Rightarrow> do {
         (S, st) \<leftarrow> media_add_gtp_node_ref_v2 S q;
         S \<leftarrow> upd_sess S p (upd (\<lambda>g. g\<lparr>gp_sock := g2_sock n\<rparr>));
         Some (S, Shared) }
     | None \<Rightarrow> (case agc_gtp_open_v2 opens S (gp_local_addr g) (gp_local_addrlen g) (gp_remote_addr g) (gp_remote_addrlen g) of
           None \<Rightarrow> Some (S, Failed)
         | Some (S, sock) \<Rightarrow> do {
             S \<leftarrow> upd_sess S p (upd (\<lambda>g. g\<lparr>gp_sock := sock\<rparr>));
             Some (fst (media_add_gtp_node_v2 S sock), Opened) }) }"

text \<open>The tunnel over IPv6 is only looked at when the one over IPv4 needed a new socket.\<close>

definition open_paths :: "(string \<Rightarrow> string \<Rightarrow> bool) \<Rightarrow> media_context \<Rightarrow> ptr \<Rightarrow>
    (sig_sess \<Rightarrow> gtp_path) \<Rightarrow> ((gtp_path \<Rightarrow> gtp_path) \<Rightarrow> sig_sess \<Rightarrow> sig_sess) \<Rightarrow>
    (sig_sess \<Rightarrow> gtp_path) \<Rightarrow> ((gtp_path \<Rightarrow> gtp_path) \<Rightarrow> sig_sess \<Rightarrow> sig_sess) \<Rightarrow> (media_context \<times> agc_status) option" where
  "open_paths opens S p get4 upd4 get6 upd6 =
     (if p = NULL then Some (S, AGC_STATUS_FALSE)
      else do {
        S \<leftarrow> upd_sess S p (upd4 (\<lambda>g. g\<lparr>gp_sock := NULL\<rparr>) \<circ> upd6 (\<lambda>g. g\<lparr>gp_sock := NULL\<rparr>));
        (S, r) \<leftarrow> open_path opens S p get4 upd4;
        case r of
          Shared \<Rightarrow> Some (S, AGC_STATUS_SUCCESS)
        | Failed \<Rightarrow> Some (S, AGC_STATUS_FALSE)
        | Opened \<Rightarrow> map_option (\<lambda>(S, _). (S, AGC_STATUS_SUCCESS)) (open_path opens S p get6 upd6) })"

definition media_upf_gtp_open :: "(string \<Rightarrow> string \<Rightarrow> bool) \<Rightarrow> media_context \<Rightarrow> ptr \<Rightarrow> (media_context \<times> agc_status) option" where
  "media_upf_gtp_open opens S p = open_paths opens S p ss_upf ss_upf_update ss_upfv6 ss_upfv6_update"

definition media_gnb_gtp_open :: "(string \<Rightarrow> string \<Rightarrow> bool) \<Rightarrow> media_context \<Rightarrow> ptr \<Rightarrow> (media_context \<times> agc_status) option" where
  "media_gnb_gtp_open opens S p = open_paths opens S p ss_gnb ss_gnb_update ss_gnbv6 ss_gnbv6_update"

definition close_paths :: "media_context \<Rightarrow> ptr \<Rightarrow> (sig_sess \<Rightarrow> gtp_path) \<Rightarrow> (sig_sess \<Rightarrow> gtp_path) \<Rightarrow> (media_context \<times> agc_status) option" where
  "close_paths S p get4 get6 =
     (if p = NULL then Some (S, AGC_STATUS_FALSE)
      else do {
        s \<leftarrow> mc_sessions S p;
        (S, st) \<leftarrow> media_del_gtp_node_ref_v2 S (gp_sock (get4 s));
        S \<leftarrow> (if gp_sock (get6 s) \<noteq> NULL then map_option fst (media_del_gtp_node_ref_v2 S (gp_sock (get6 s))) else Some S);
        Some (S, AGC_STATUS_SUCCESS) })"

definition media_upf_gtp_close :: "media_context \<Rightarrow> ptr \<Rightarrow> (media_context \<times> agc_status) option" where
  "media_upf_gtp_close S p = close_paths S p ss_upf ss_upfv6"

definition media_gnb_gtp_close :: "media_context \<Rightarrow> ptr \<Rightarrow> (media_context \<times> agc_status) option" where
  "media_gnb_gtp_close S p = close_paths S p ss_gnb ss_gnbv6"

section \<open>Sessions\<close>

definition MEDIA_SESS_NEXT_ID :: "nat \<Rightarrow> nat \<Rightarrow> nat \<Rightarrow> nat" where
  "MEDIA_SESS_NEXT_ID i lo hi = (if i = hi then lo else i + 1)"

text \<open>The search for a free identifier: the number of tries left, the table and the last identifier.\<close>

fun find_slot :: "nat \<Rightarrow> (nat \<Rightarrow> ptr) \<Rightarrow> nat \<Rightarrow> nat \<times> nat option" where
  "find_slot 0 T i = (i, None)"
| "find_slot (Suc n) T i = (let i = MEDIA_SESS_NEXT_ID i 1 (MAX_MEDIA_SESSIONS - 1) in
     if T i = NULL then (i, Some i) else find_slot n T i)"

text \<open>A tunnel of a new session, over what was in its memory before.\<close>

definition new_path :: "gtp_path \<Rightarrow> nat \<Rightarrow> gtp_node option \<Rightarrow> gtp_path" where
  "new_path junk teid node = (case node of
     None \<Rightarrow> junk\<lparr>gp_remote_teid := 0, gp_local_teid := teid, gp_local_addrlen := 0, gp_remote_addrlen := 0\<rparr>
   | Some n \<Rightarrow> junk\<lparr>gp_remote_teid := 0, gp_local_teid := teid,
       gp_local_addr := overwrite (gp_local_addr junk) (gn_addrlen n) (gn_addr n), gp_local_addrlen := gn_addrlen n,
       gp_remote_addrlen := 0, gp_sock := NULL\<rparr>)"

definition new_sess :: "sig_sess \<Rightarrow> nat \<Rightarrow> nat \<Rightarrow> gtp_node \<Rightarrow> gtp_node option \<Rightarrow> gtp_node \<Rightarrow> gtp_node option \<Rightarrow> sig_sess" where
  "new_sess junk sess_id now v4 v6 upf_v4 upf_v6 = junk\<lparr>
     ss_sess_id := sess_id, ss_last_act_time := now, ss_qos_flow_id := 0, ss_ue_addr := replicate 16 NUL,
     ss_gnb := new_path (ss_gnb junk) (sess_id * MEDIA_FOUR_TIMES) (Some v4),
     ss_upf := new_path (ss_upf junk) (sess_id * MEDIA_FOUR_TIMES + 1) (Some upf_v4),
     ss_gnbv6 := new_path (ss_gnbv6 junk) (sess_id * MEDIA_FOUR_TIMES + 2) v6,
     ss_upfv6 := new_path (ss_upfv6 junk) (sess_id * MEDIA_FOUR_TIMES + 3) upf_v6\<rparr>"

definition or_else :: "'a option \<Rightarrow> 'a option \<Rightarrow> 'a option" where
  "or_else a b = (case a of None \<Rightarrow> b | Some _ \<Rightarrow> a)"

definition media_add_media_sig_sess :: "media_context \<Rightarrow> sig_sess \<Rightarrow> nat \<Rightarrow> (media_context \<times> ptr) option" where
  "media_add_media_sig_sess S junk now =
     (let v4 = media_gtp_node_n3_v4_first S; v6 = media_gtp_node_n3_v6_first S;
          upf_v4 = media_gtp_node_n3_upf_v4_first S; upf_v6 = media_gtp_node_n3_upf_v6_first S in
      if v4 = None \<and> v6 = None then Some (S, NULL)
      else (let upf_v4 = or_else upf_v4 v4; upf_v6 = or_else upf_v6 v6;
                (i, slot) = find_slot MAX_MEDIA_SESSIONS (mc_session_list S) (mc_next_sess_id S);
                S = S\<lparr>mc_next_sess_id := i\<rparr> in
        case slot of
          None \<Rightarrow> Some (S, NULL)
        | Some sess_id \<Rightarrow> do {
            g4 \<leftarrow> v4;
            u4 \<leftarrow> upf_v4;
            let p = mc_brk S;
            Some (S\<lparr>mc_session_list := (mc_session_list S)(sess_id := p), mc_brk := p + 1,
                mc_sessions := (mc_sessions S)(p \<mapsto> new_sess junk sess_id now g4 v6 u4 upf_v6)\<rparr>, p) }))"

definition media_find_media_sig_sess_by_id :: "media_context \<Rightarrow> nat \<Rightarrow> ptr" where
  "media_find_media_sig_sess_by_id S sess_id = (if MAX_MEDIA_SESSIONS \<le> sess_id then NULL else mc_session_list S sess_id)"

definition media_find_media_sig_sess_by_teid :: "media_context \<Rightarrow> nat \<Rightarrow> ptr" where
  "media_find_media_sig_sess_by_teid S teid = (let sess_id = teid div MEDIA_FOUR_TIMES in
     if MAX_MEDIA_SESSIONS \<le> sess_id then NULL else mc_session_list S sess_id)"

text \<open>The memory of a removed session is freed by a timer.\<close>

definition media_remove_media_sig_sess :: "media_context \<Rightarrow> ptr \<Rightarrow> (media_context \<times> agc_status) option" where
  "media_remove_media_sig_sess S p =
     (if p = NULL then Some (S, AGC_STATUS_FALSE)
      else do {
        s \<leftarrow> mc_sessions S p;
        if MAX_MEDIA_SESSIONS \<le> ss_sess_id s then Some (S, AGC_STATUS_FALSE)
        else do {
          (S, st) \<leftarrow> media_upf_gtp_close S p;
          (S, st) \<leftarrow> media_gnb_gtp_close S p;
          Some (S\<lparr>mc_session_list := (mc_session_list S)(ss_sess_id s := NULL),
                  mc_releasing := mc_releasing S @ [p]\<rparr>, AGC_STATUS_SUCCESS) } })"

definition media_on_release_timer :: "media_context \<Rightarrow> ptr \<Rightarrow> media_context option" where
  "media_on_release_timer S p = do {
     s \<leftarrow> mc_sessions S p;
     Some (S\<lparr>mc_sessions := (mc_sessions S)(p := None), mc_releasing := remove1 p (mc_releasing S)\<rparr>) }"

text \<open>The table keeps the addresses of the freed sessions.\<close>

fun free_slots :: "media_context \<Rightarrow> nat list \<Rightarrow> media_context option" where
  "free_slots S [] = Some S"
| "free_slots S (i # is) = (let p = mc_session_list S i in
     if p = NULL then free_slots S is
     else do { s \<leftarrow> mc_sessions S p; free_slots (S\<lparr>mc_sessions := (mc_sessions S)(p := None)\<rparr>) is })"

definition media_remove_all_media_sig_sess :: "media_context \<Rightarrow> (media_context \<times> agc_status) option" where
  "media_remove_all_media_sig_sess S =
     map_option (\<lambda>S. (S, AGC_STATUS_SUCCESS)) (free_slots S [0..<MAX_MEDIA_SESSIONS])"

definition media_context_shutdown :: "media_context \<Rightarrow> (media_context \<times> agc_status) option" where
  "media_context_shutdown S = do {
     let S = S\<lparr>mc_lbo_ip_table := (\<lambda>_. None), mc_ue_ip_table := (\<lambda>_. None)\<rparr>;
     (S, st) \<leftarrow> media_remove_all_media_sig_sess S;
     (S, st) \<leftarrow> media_remove_all_gtp_nodes S;
     (S, st) \<leftarrow> media_remove_all_gtp_nodes_v2 S;
     Some (S, AGC_STATUS_SUCCESS) }"

section \<open>Addresses for the local break out\<close>

text \<open>The layout of \<open>sockaddr_in\<close> and \<open>sockaddr_in6\<close> on Linux.\<close>

definition ss_family :: "string \<Rightarrow> nat" where
  "ss_family a = of_char (a ! 0) + 256 * of_char (a ! 1)"

definition AF_INET :: nat where
  "AF_INET = 2"

definition sin_addr :: "string \<Rightarrow> string" where
  "sin_addr a = take 4 (drop 4 a)"

definition sin6_addr :: "string \<Rightarrow> string" where
  "sin6_addr a = take 16 (drop 8 a)"

text \<open>The status of the addition is a failure although it succeeds.\<close>

definition media_add_lbo_node :: "media_context \<Rightarrow> string \<Rightarrow> media_context \<times> agc_status" where
  "media_add_lbo_node S addr =
     (let key = (if ss_family addr = AF_INET then sin_addr addr else sin6_addr addr); p = mc_brk S
      in (S\<lparr>mc_hash_key_list := mc_hash_key_list S @ [p], mc_hash_keys := (mc_hash_keys S)(p \<mapsto> key),
            mc_lbo_ip_table := (mc_lbo_ip_table S)(key \<mapsto> p), mc_brk := p + 1\<rparr>, AGC_STATUS_FALSE))"

definition media_find_lbo_node_by_key :: "media_context \<Rightarrow> string \<Rightarrow> ptr option" where
  "media_find_lbo_node_by_key S key = mc_lbo_ip_table S key"

text \<open>The list and the table keep the addresses of the freed nodes.\<close>

fun free_keys :: "media_context \<Rightarrow> ptr list \<Rightarrow> media_context option" where
  "free_keys S [] = Some S"
| "free_keys S (p # ps) = do { k \<leftarrow> mc_hash_keys S p; free_keys (S\<lparr>mc_hash_keys := (mc_hash_keys S)(p := None)\<rparr>) ps }"

definition media_remove_all_hash_key :: "media_context \<Rightarrow> (media_context \<times> agc_status) option" where
  "media_remove_all_hash_key S = map_option (\<lambda>S. (S, AGC_STATUS_SUCCESS)) (free_keys S (mc_hash_key_list S))"

section \<open>The table of sessions\<close>

definition teids_ok :: "sig_sess \<Rightarrow> bool" where
  "teids_ok s \<longleftrightarrow> gp_local_teid (ss_gnb s) = ss_sess_id s * MEDIA_FOUR_TIMES \<and>
     gp_local_teid (ss_upf s) = ss_sess_id s * MEDIA_FOUR_TIMES + 1 \<and>
     gp_local_teid (ss_gnbv6 s) = ss_sess_id s * MEDIA_FOUR_TIMES + 2 \<and>
     gp_local_teid (ss_upfv6 s) = ss_sess_id s * MEDIA_FOUR_TIMES + 3"

definition local_teids :: "sig_sess \<Rightarrow> nat set" where
  "local_teids s = {gp_local_teid (ss_gnb s), gp_local_teid (ss_upf s), gp_local_teid (ss_gnbv6 s), gp_local_teid (ss_upfv6 s)}"

definition in_table :: "media_context \<Rightarrow> ptr \<Rightarrow> bool" where
  "in_table S p \<longleftrightarrow> p \<noteq> NULL \<and> (\<exists>i. mc_session_list S i = p)"

text \<open>
  A slot in use holds the session with its identifier; the sessions waiting for their timer are
  allocated and not in the table.
\<close>

definition sess_ok :: "media_context \<Rightarrow> bool" where
  "sess_ok S \<longleftrightarrow> mc_next_sess_id S < MAX_MEDIA_SESSIONS \<and> 0 < mc_brk S \<and>
     (\<forall>p. mc_sessions S p \<noteq> None \<longrightarrow> p < mc_brk S) \<and>
     (\<forall>i. mc_session_list S i \<noteq> NULL \<longrightarrow> 0 < i \<and> i < MAX_MEDIA_SESSIONS \<and>
        (\<exists>s. mc_sessions S (mc_session_list S i) = Some s \<and> ss_sess_id s = i \<and> teids_ok s)) \<and>
     distinct (mc_releasing S) \<and>
     (\<forall>p\<in>set (mc_releasing S). mc_sessions S p \<noteq> None \<and> \<not> in_table S p)"

lemma sess_okD:
  assumes "sess_ok S"
  shows "mc_next_sess_id S < MAX_MEDIA_SESSIONS" "0 < mc_brk S" "mc_sessions S p \<noteq> None \<Longrightarrow> p < mc_brk S"
    and "mc_session_list S i \<noteq> NULL \<Longrightarrow> 0 < i \<and> i < MAX_MEDIA_SESSIONS \<and>
        (\<exists>s. mc_sessions S (mc_session_list S i) = Some s \<and> ss_sess_id s = i \<and> teids_ok s)"
    and "distinct (mc_releasing S)"
    and "p \<in> set (mc_releasing S) \<Longrightarrow> mc_sessions S p \<noteq> None \<and> \<not> in_table S p"
  using assms unfolding sess_ok_def by blast+

lemma slot_unique:
  assumes "sess_ok S" "mc_session_list S i = p" "mc_session_list S j = p" "p \<noteq> NULL"
  shows "i = j"
  using sess_okD(4) [OF assms(1), of i] sess_okD(4) [OF assms(1), of j] assms(2-4) by fastforce

lemma next_id: "i < MAX_MEDIA_SESSIONS \<Longrightarrow> MEDIA_SESS_NEXT_ID i 1 (MAX_MEDIA_SESSIONS - 1) = i mod 99999 + 1"
  by (simp add: MEDIA_SESS_NEXT_ID_def)

lemma next_id_range: "i < MAX_MEDIA_SESSIONS \<Longrightarrow>
    0 < MEDIA_SESS_NEXT_ID i 1 (MAX_MEDIA_SESSIONS - 1) \<and> MEDIA_SESS_NEXT_ID i 1 (MAX_MEDIA_SESSIONS - 1) < MAX_MEDIA_SESSIONS"
  by (auto simp: MEDIA_SESS_NEXT_ID_def)

lemma find_slot_result:
  assumes "i < MAX_MEDIA_SESSIONS"
  shows "fst (find_slot n T i) < MAX_MEDIA_SESSIONS \<and>
    (case snd (find_slot n T i) of None \<Rightarrow> True | Some j \<Rightarrow> 0 < j \<and> j < MAX_MEDIA_SESSIONS \<and> T j = NULL)"
  using assms
proof (induction n arbitrary: i)
  case (Suc n)
  then show ?case using next_id_range [OF Suc.prems] Suc.IH by (simp add: Let_def)
qed simp

lemma find_slot_fst: "snd (find_slot n T i) = Some j \<Longrightarrow> fst (find_slot n T i) = j"
  by (induction n arbitrary: i) (auto simp: Let_def split: if_splits)

text \<open>The tries go through all identifiers.\<close>

lemma find_slot_misses:
  assumes "i < MAX_MEDIA_SESSIONS" "snd (find_slot n T i) = None" "k < n"
  shows "T ((i + k) mod 99999 + 1) \<noteq> NULL"
  using assms
proof (induction n arbitrary: i k)
  case (Suc n)
  let ?i = "MEDIA_SESS_NEXT_ID i 1 (MAX_MEDIA_SESSIONS - 1)"
  have i: "?i = i mod 99999 + 1" by (rule next_id [OF Suc.prems(1)])
  have r: "?i < MAX_MEDIA_SESSIONS" using next_id_range [OF Suc.prems(1)] by blast
  have t: "T ?i \<noteq> NULL" "snd (find_slot n T ?i) = None" using Suc.prems(2) by (auto simp: Let_def split: if_splits)
  show ?case
  proof (cases k)
    case 0
    then show ?thesis using t(1) i by simp
  next
    case (Suc m)
    then have "T ((?i + m) mod 99999 + 1) \<noteq> NULL" using Suc.IH [OF r t(2)] Suc.prems(3) by simp
    moreover have "(i mod 99999 + Suc m) mod 99999 = (i + Suc m) mod 99999" by (rule mod_add_left_eq)
    then have "(?i + m) mod 99999 = (i + k) mod 99999" unfolding i Suc by simp
    ultimately show ?thesis by simp
  qed
qed simp

lemma find_slot_complete:
  assumes "i < MAX_MEDIA_SESSIONS" "0 < j" "j < MAX_MEDIA_SESSIONS" "T j = NULL"
  shows "snd (find_slot MAX_MEDIA_SESSIONS T i) \<noteq> None"
proof
  assume n: "snd (find_slot MAX_MEDIA_SESSIONS T i) = None"
  define k where "k = (j - 1 + 2 * 99999 - i) mod 99999"
  have "(i + k) mod 99999 = (i + (j - 1 + 2 * 99999 - i)) mod 99999" unfolding k_def by (simp add: mod_simps)
  also have "i + (j - 1 + 2 * 99999 - i) = j - 1 + 2 * 99999" using assms(1) by simp
  also have "(j - 1 + 2 * 99999) mod 99999 = (j - 1) mod 99999" by (rule mod_mult_self1)
  also have "\<dots> = j - 1" using assms(2,3) by (intro mod_less) linarith
  finally have "(i + k) mod 99999 + 1 = j" using assms(2) by simp
  moreover have "k < MAX_MEDIA_SESSIONS" using mod_less_divisor [of 99999 "j - 1 + 2 * 99999 - i"] by (simp only: k_def)
  ultimately show False using find_slot_misses [OF assms(1) n, of k] assms(4) by simp
qed

lemma add_sess_cases:
  assumes "sess_ok S" "media_gtp_node_n3_v4_first S = Some g4"
  shows "(\<forall>i. 0 < i \<and> i < MAX_MEDIA_SESSIONS \<longrightarrow> mc_session_list S i \<noteq> NULL) \<and>
       (\<exists>i. media_add_media_sig_sess S junk now = Some (S\<lparr>mc_next_sess_id := i\<rparr>, NULL) \<and> sess_ok (S\<lparr>mc_next_sess_id := i\<rparr>)) \<or>
     (\<exists>i u4. 0 < i \<and> i < MAX_MEDIA_SESSIONS \<and> mc_session_list S i = NULL \<and>
       (let p = mc_brk S; s = new_sess junk i now g4 (media_gtp_node_n3_v6_first S) u4
            (or_else (media_gtp_node_n3_upf_v6_first S) (media_gtp_node_n3_v6_first S));
          S' = S\<lparr>mc_next_sess_id := i, mc_session_list := (mc_session_list S)(i := p), mc_brk := p + 1,
            mc_sessions := (mc_sessions S)(p \<mapsto> s)\<rparr>
        in media_add_media_sig_sess S junk now = Some (S', p) \<and> sess_ok S'))"
proof -
  let ?T = "mc_session_list S" and ?n = "mc_next_sess_id S"
  obtain i slot where f: "find_slot MAX_MEDIA_SESSIONS ?T ?n = (i, slot)" by (cases "find_slot MAX_MEDIA_SESSIONS ?T ?n")
  have n: "?n < MAX_MEDIA_SESSIONS" by (rule sess_okD(1) [OF assms(1)])
  note r = find_slot_result [OF n, of MAX_MEDIA_SESSIONS ?T, unfolded f]
  obtain u4 where u4: "or_else (media_gtp_node_n3_upf_v4_first S) (Some g4) = Some u4"
    by (cases "media_gtp_node_n3_upf_v4_first S") (auto simp: or_else_def)
  show ?thesis
  proof (cases slot)
    case None
    then have "\<forall>i. 0 < i \<and> i < MAX_MEDIA_SESSIONS \<longrightarrow> ?T i \<noteq> NULL"
      using find_slot_complete [OF n, of _ ?T] f by auto
    moreover have "media_add_media_sig_sess S junk now = Some (S\<lparr>mc_next_sess_id := i\<rparr>, NULL)"
      using None f assms(2) by (simp add: media_add_media_sig_sess_def Let_def)
    moreover have "sess_ok (S\<lparr>mc_next_sess_id := i\<rparr>)"
      using assms(1) r by (simp add: sess_ok_def in_table_def)
    ultimately show ?thesis by blast
  next
    case (Some j)
    have j: "i = j" "0 < j" "j < MAX_MEDIA_SESSIONS" "?T j = NULL"
      using r Some find_slot_fst [of MAX_MEDIA_SESSIONS ?T ?n j] f by auto
    let ?p = "mc_brk S"
    let ?s = "new_sess junk j now g4 (media_gtp_node_n3_v6_first S) u4
        (or_else (media_gtp_node_n3_upf_v6_first S) (media_gtp_node_n3_v6_first S))"
    let ?S = "S\<lparr>mc_next_sess_id := j, mc_session_list := ?T(j := ?p), mc_brk := ?p + 1, mc_sessions := (mc_sessions S)(?p \<mapsto> ?s)\<rparr>"
    have "media_add_media_sig_sess S junk now = Some (?S, ?p)"
      using Some f assms(2) u4 j(1) by (simp add: media_add_media_sig_sess_def Let_def)
    moreover have "sess_ok ?S"
    proof -
      have fresh: "mc_sessions S ?p = None" using sess_okD(3) [OF assms(1), of ?p] by (cases "mc_sessions S ?p") auto
      have p: "?p \<noteq> NULL" using sess_okD(2) [OF assms(1)] by simp
      have "ss_sess_id ?s = j \<and> teids_ok ?s"
        by (simp add: new_sess_def teids_ok_def new_path_def split: option.split)
      moreover have "?p \<notin> set (mc_releasing S)" using sess_okD(6) [OF assms(1), of ?p] fresh by auto
      moreover have "?T i \<noteq> ?p" for i using sess_okD(4) [OF assms(1), of i] p fresh by auto
      ultimately show ?thesis using assms(1) j p fresh
        by (auto simp: sess_ok_def in_table_def less_Suc_eq)
    qed
    ultimately show ?thesis using j unfolding Let_def by blast
  qed
qed

section \<open>Reference counts\<close>

definition path_socks :: "sig_sess \<Rightarrow> ptr list" where
  "path_socks s = [gp_sock (ss_upf s), gp_sock (ss_upfv6 s), gp_sock (ss_gnb s), gp_sock (ss_gnbv6 s)]"

text \<open>How often the tunnels of the sessions in the table use a socket.\<close>

definition uses_of :: "media_context \<Rightarrow> ptr \<Rightarrow> ptr \<Rightarrow> nat" where
  "uses_of S k p = (if p = NULL then 0 else case mc_sessions S p of None \<Rightarrow> 0 | Some s \<Rightarrow> count_list (path_socks s) k)"

definition refs :: "media_context \<Rightarrow> ptr \<Rightarrow> nat" where
  "refs S k = (\<Sum>i<MAX_MEDIA_SESSIONS. uses_of S k (mc_session_list S i))"

abbreviation shared_socks :: "media_context \<Rightarrow> ptr set" where
  "shared_socks S \<equiv> set (map (g2_sock \<circ> snd) (mc_server_list_v2 S))"

text \<open>
  The nodes of the shared sockets count \<open>rf\<close>: each socket has one node, its counter is its number of
  uses, and the open sockets are exactly the used ones.
\<close>

definition counted :: "(ptr \<Rightarrow> nat) \<Rightarrow> media_context \<Rightarrow> bool" where
  "counted rf S \<longleftrightarrow> 0 < mc_brk S \<and> distinct (map fst (mc_server_list_v2 S)) \<and>
     distinct (map (g2_sock \<circ> snd) (mc_server_list_v2 S)) \<and>
     (\<forall>(q, n)\<in>set (mc_server_list_v2 S). q \<noteq> NULL \<and> q < mc_brk S \<and> g2_ref n = int (rf (g2_sock n))) \<and>
     (\<forall>k. k \<noteq> NULL \<longrightarrow> (0 < rf k \<longleftrightarrow> k \<in> shared_socks S)) \<and>
     NULL \<notin> shared_socks S \<and> (\<forall>k\<in>shared_socks S. k < mc_brk S) \<and> dom (mc_socks S) = shared_socks S"

lemma countedD:
  assumes "counted rf S"
  shows "0 < mc_brk S" "distinct (map fst (mc_server_list_v2 S))" "distinct (map (g2_sock \<circ> snd) (mc_server_list_v2 S))"
    and "NULL \<notin> shared_socks S" "dom (mc_socks S) = shared_socks S"
  using assms unfolding counted_def by - (elim conjE, assumption)+

lemma counted_node:
  assumes "counted rf S" "(q, n) \<in> set (mc_server_list_v2 S)"
  shows "q \<noteq> NULL" "q < mc_brk S" "g2_ref n = int (rf (g2_sock n))" "g2_sock n \<in> shared_socks S" "g2_sock n \<noteq> NULL"
proof -
  have "\<forall>(q, n)\<in>set (mc_server_list_v2 S). q \<noteq> NULL \<and> q < mc_brk S \<and> g2_ref n = int (rf (g2_sock n))"
    using assms(1) unfolding counted_def by (elim conjE)
  from bspec [OF this assms(2)] show "q \<noteq> NULL" "q < mc_brk S" "g2_ref n = int (rf (g2_sock n))" by simp_all
  show k: "g2_sock n \<in> shared_socks S" using image_eqI [OF _ assms(2), of "g2_sock n" "g2_sock \<circ> snd"] by simp
  show "g2_sock n \<noteq> NULL" using countedD(4) [OF assms(1)] k by metis
qed

lemma counted_used:
  assumes "counted rf S"
  shows "k \<noteq> NULL \<Longrightarrow> 0 < rf k \<longleftrightarrow> k \<in> shared_socks S" "k \<in> shared_socks S \<Longrightarrow> k < mc_brk S"
proof -
  have a: "\<forall>k. k \<noteq> NULL \<longrightarrow> (0 < rf k \<longleftrightarrow> k \<in> shared_socks S)" "\<forall>k\<in>shared_socks S. k < mc_brk S"
    using assms unfolding counted_def by - (elim conjE, assumption)+
  show "k \<noteq> NULL \<Longrightarrow> 0 < rf k \<longleftrightarrow> k \<in> shared_socks S" using spec [OF a(1), of k] by (rule mp)
  show "k \<in> shared_socks S \<Longrightarrow> k < mc_brk S" using a(2) by (rule bspec)
qed

lemma countedI:
  assumes "0 < mc_brk S" "distinct (map fst (mc_server_list_v2 S))" "distinct (map (g2_sock \<circ> snd) (mc_server_list_v2 S))"
    and "\<And>q n. (q, n) \<in> set (mc_server_list_v2 S) \<Longrightarrow> q \<noteq> NULL \<and> q < mc_brk S \<and> g2_ref n = int (rf (g2_sock n))"
    and "\<And>k. k \<noteq> NULL \<Longrightarrow> 0 < rf k \<longleftrightarrow> k \<in> shared_socks S"
    and "NULL \<notin> shared_socks S" "\<And>k. k \<in> shared_socks S \<Longrightarrow> k < mc_brk S" "dom (mc_socks S) = shared_socks S"
  shows "counted rf S"
proof -
  have "\<forall>(q, n)\<in>set (mc_server_list_v2 S). q \<noteq> NULL \<and> q < mc_brk S \<and> g2_ref n = int (rf (g2_sock n))"
    using assms(4) by (simp add: Ball_def)
  moreover have "\<forall>k. k \<noteq> NULL \<longrightarrow> (0 < rf k \<longleftrightarrow> k \<in> shared_socks S)" using assms(5) by (intro allI impI)
  moreover have "\<forall>k\<in>shared_socks S. k < mc_brk S" using assms(7) by (rule ballI)
  ultimately show ?thesis unfolding counted_def by (intro conjI assms(1-3,6,8))
qed

lemma counted_cong:
  assumes c: "counted rf S" and eq: "\<And>k. k \<noteq> NULL \<Longrightarrow> rf' k = rf k"
  shows "counted rf' S"
proof (rule countedI)
  show "q \<noteq> NULL \<and> q < mc_brk S \<and> g2_ref n = int (rf' (g2_sock n))" if "(q, n) \<in> set (mc_server_list_v2 S)" for q n
    using counted_node [OF c that] eq by simp
  show "0 < rf' k \<longleftrightarrow> k \<in> shared_socks S" if "k \<noteq> NULL" for k
    using counted_used(1) [OF c that] eq [OF that] by simp
qed (use countedD [OF c] counted_used(2) [OF c] in \<open>assumption | simp\<close>)+

text \<open>The parts of the context that the socket functions leave alone.\<close>

definition same_sessions :: "media_context \<Rightarrow> media_context \<Rightarrow> bool" where
  "same_sessions S S' \<longleftrightarrow> mc_next_sess_id S' = mc_next_sess_id S \<and> mc_session_list S' = mc_session_list S \<and>
     mc_sessions S' = mc_sessions S \<and> mc_releasing S' = mc_releasing S \<and> mc_server_list S' = mc_server_list S \<and>
     mc_brk S \<le> mc_brk S'"

lemma same_sessions_refl [simp]: "same_sessions S S"
  by (simp add: same_sessions_def)

lemma same_sessions_trans: "same_sessions S S1 \<Longrightarrow> same_sessions S1 S2 \<Longrightarrow> same_sessions S S2"
  by (auto simp: same_sessions_def)

lemma same_sessions_refs: "same_sessions S S' \<Longrightarrow> refs S' = refs S"
  unfolding same_sessions_def refs_def uses_of_def by (elim conjE) (simp only:)

lemma same_sessions_ok:
  assumes "same_sessions S S'" "sess_ok S"
  shows "sess_ok S'"
proof -
  have eq: "mc_next_sess_id S' = mc_next_sess_id S" "mc_session_list S' = mc_session_list S"
    "mc_sessions S' = mc_sessions S" "mc_releasing S' = mc_releasing S" "mc_brk S \<le> mc_brk S'"
    using assms(1) by (simp_all add: same_sessions_def)
  have "p < mc_brk S'" if "mc_sessions S p \<noteq> None" for p
    using sess_okD(3) [OF assms(2) that] eq(5) by simp
  moreover have "0 < mc_brk S'" using sess_okD(2) [OF assms(2)] eq(5) by simp
  ultimately show ?thesis using assms(2) unfolding sess_ok_def in_table_def eq(1-4) by blast
qed

lemma set_ref_nodes:
  "map fst (mc_server_list_v2 (set_ref S q f)) = map fst (mc_server_list_v2 S)"
  "map (g2_sock \<circ> snd) (mc_server_list_v2 (set_ref S q f)) = map (g2_sock \<circ> snd) (mc_server_list_v2 S)"
  by (simp_all add: set_ref_def case_prod_beta cong: if_cong)

lemma set_ref_same: "same_sessions S (set_ref S q f)" "mc_socks (set_ref S q f) = mc_socks S" "mc_brk (set_ref S q f) = mc_brk S"
  by (simp_all add: set_ref_def same_sessions_def)

lemma node_unique:
  assumes "counted rf S" "(q, n) \<in> set (mc_server_list_v2 S)" "(q', n') \<in> set (mc_server_list_v2 S)"
  shows "q = q' \<longleftrightarrow> g2_sock n = g2_sock n'" "q = q' \<Longrightarrow> n = n'"
  using distinct_map_fst_unique [OF countedD(2) [OF assms(1)] assms(2,3)]
    distinct_map_fst_unique [OF countedD(3) [OF assms(1)] assms(2,3)] by auto

lemma set_ref_mem:
  assumes "(q', m) \<in> set (mc_server_list_v2 (set_ref S q f))"
  obtains m0 where "(q', m0) \<in> set (mc_server_list_v2 S)" "g2_sock m = g2_sock m0"
    "g2_ref m = (if q' = q then f (g2_ref m0) else g2_ref m0)"
  using assms by (auto simp: set_ref_def split: if_splits)

lemma set_ref_counted:
  assumes c: "counted rf S" and n: "(q, n) \<in> set (mc_server_list_v2 S)" and v: "int v = f (g2_ref n)" "0 < v"
  shows "counted (rf(g2_sock n := v)) (set_ref S q f)"
proof (rule countedI)
  fix q' m assume "(q', m) \<in> set (mc_server_list_v2 (set_ref S q f))"
  then obtain m0 where m0: "(q', m0) \<in> set (mc_server_list_v2 S)" "g2_sock m = g2_sock m0"
    "g2_ref m = (if q' = q then f (g2_ref m0) else g2_ref m0)" by (rule set_ref_mem)
  show "q' \<noteq> NULL \<and> q' < mc_brk (set_ref S q f) \<and> g2_ref m = int ((rf(g2_sock n := v)) (g2_sock m))"
    using counted_node [OF c m0(1)] node_unique [OF c m0(1) n] m0(2,3) v(1) by (auto simp: set_ref_same)
next
  fix k :: ptr assume "k \<noteq> NULL"
  then show "0 < (rf(g2_sock n := v)) k \<longleftrightarrow> k \<in> shared_socks (set_ref S q f)"
    using counted_used(1) [OF c, of k] counted_node(4) [OF c n] v(2) by (simp only: set_ref_nodes) auto
qed (use countedD [OF c] counted_used(2) [OF c] in \<open>simp_all only: set_ref_nodes set_ref_same not_False_eq_True\<close>)

text \<open>Taking another reference, a new socket, and giving a reference back.\<close>

lemma add_ref_counted:
  assumes c: "counted rf S" and n: "(q, n) \<in> set (mc_server_list_v2 S)"
  shows "\<exists>S'. media_add_gtp_node_ref_v2 S q = Some (S', AGC_STATUS_SUCCESS) \<and>
     counted (rf(g2_sock n := rf (g2_sock n) + 1)) S' \<and> same_sessions S S'"
proof -
  have "map_of (mc_server_list_v2 S) q = Some n" using countedD(2) [OF c] n by simp
  then have "media_add_gtp_node_ref_v2 S q = Some (set_ref S q (\<lambda>r. r + 1), AGC_STATUS_SUCCESS)"
    using counted_node(1) [OF c n] by (simp add: media_add_gtp_node_ref_v2_def)
  moreover have "counted (rf(g2_sock n := rf (g2_sock n) + 1)) (set_ref S q (\<lambda>r. r + 1))"
    by (rule set_ref_counted [OF c n]) (simp_all add: counted_node(3) [OF c n])
  ultimately show ?thesis using set_ref_same(1) by blast
qed

lemma new_sock_counted:
  assumes c: "counted rf S" and o: "agc_gtp_open_v2 opens S loc loclen rem remlen = Some (S1, sock)"
  shows "sock \<noteq> NULL" "rf sock = 0" "counted (rf(sock := 1)) (fst (media_add_gtp_node_v2 S1 sock))"
    "same_sessions S S1" "same_sessions S1 (fst (media_add_gtp_node_v2 S1 sock))"
proof -
  let ?L = "mc_server_list_v2 S" and ?S2 = "fst (media_add_gtp_node_v2 S1 sock)"
  have s: "sock = mc_brk S" "mc_brk S1 = mc_brk S + 1" "mc_server_list_v2 S1 = ?L" "dom (mc_socks S1) = insert sock (dom (mc_socks S))"
    "same_sessions S S1"
    using o by (auto simp: agc_gtp_open_v2_def same_sessions_def split: if_splits)
  show n: "sock \<noteq> NULL" using countedD(1) [OF c] s(1) by simp
  have k: "sock \<notin> shared_socks S" using counted_used(2) [OF c, of sock] s(1) by auto
  then show z: "rf sock = 0" using counted_used(1) [OF c n] by simp
  show "same_sessions S S1" by (rule s(5))
  show "same_sessions S1 ?S2" using n by (simp add: media_add_gtp_node_v2_def same_sessions_def)
  have S2: "mc_server_list_v2 ?S2 = ?L @ [(mc_brk S1, \<lparr>g2_ref = 1, g2_sock = sock\<rparr>)]" "mc_brk ?S2 = mc_brk S1 + 1" "mc_socks ?S2 = mc_socks S1"
    using n s(3) by (simp_all add: media_add_gtp_node_v2_def)
  show "counted (rf(sock := 1)) ?S2"
  proof (rule countedI)
    show "distinct (map fst (mc_server_list_v2 ?S2))"
      using countedD(2) [OF c] counted_node(2) [OF c] s(2) by (force simp: S2)
    show "distinct (map (g2_sock \<circ> snd) (mc_server_list_v2 ?S2))" using countedD(3) [OF c] k by (simp add: S2)
    show "q \<noteq> NULL \<and> q < mc_brk ?S2 \<and> g2_ref m = int ((rf(sock := 1)) (g2_sock m))" if "(q, m) \<in> set (mc_server_list_v2 ?S2)" for q m
    proof (cases "(q, m) \<in> set ?L")
      case True
      have "g2_sock m \<noteq> sock" using counted_node(4) [OF c True] k by metis
      then show ?thesis using counted_node(1-3) [OF c True] s(2) S2(2) by simp
    next
      case False
      then show ?thesis using that s(2) S2 by simp
    qed
    show "0 < (rf(sock := 1)) j \<longleftrightarrow> j \<in> shared_socks ?S2" if "j \<noteq> NULL" for j
      using counted_used(1) [OF c that] by (simp add: S2)
    show "j < mc_brk ?S2" if "j \<in> shared_socks ?S2" for j
    proof (cases "j = sock")
      case True
      then show ?thesis using s(1,2) S2(2) by simp
    next
      case False
      then have "j \<in> shared_socks S" using that by (simp add: S2)
      then show ?thesis using counted_used(2) [OF c] s(2) S2(2) by fastforce
    qed
    show "NULL \<notin> shared_socks ?S2" using countedD(4) [OF c] n by (simp add: S2)
    show "dom (mc_socks ?S2) = shared_socks ?S2" using countedD(5) [OF c] s(4) by (simp add: S2)
  qed (simp add: S2)
qed

lemma find_node:
  assumes c: "counted rf S" and k: "k \<in> shared_socks S"
  obtains q n where "List.find (\<lambda>(_, n). g2_sock n = k) (mc_server_list_v2 S) = Some (q, n)"
    "(q, n) \<in> set (mc_server_list_v2 S)" "g2_sock n = k"
proof -
  let ?P = "\<lambda>(_, n). g2_sock n = k"
  obtain x where x: "x \<in> set (mc_server_list_v2 S)" "?P x" using k by auto
  have "List.find ?P (mc_server_list_v2 S) \<noteq> None"
  proof
    assume "List.find ?P (mc_server_list_v2 S) = None"
    then show False using x unfolding find_None_iff by blast
  qed
  then obtain y where y: "List.find ?P (mc_server_list_v2 S) = Some y" by blast
  then obtain i where i: "i < length (mc_server_list_v2 S)" "?P (mc_server_list_v2 S ! i)" "y = mc_server_list_v2 S ! i"
    unfolding find_Some_iff by (elim exE conjE)
  have "y \<in> set (mc_server_list_v2 S)" "?P y" using nth_mem [OF i(1)] i(2) by (simp_all only: i(3))
  then show thesis using that [of "fst y" "snd y"] y by (simp add: case_prod_beta)
qed

lemma filter_changed:
  "List.filter (\<lambda>(p, _). p \<noteq> q) (map (\<lambda>(p, n). (p, if p = q then g n else n)) L) = List.filter (\<lambda>(p, _). p \<noteq> q) L"
  by (induction L) auto

lemma remove_node_counted:
  assumes c: "counted rf S" and n: "(q, n) \<in> set (mc_server_list_v2 S)"
  shows "\<exists>S'. media_remove_gtp_node_v2 (set_ref S q f) q = Some (S', AGC_STATUS_SUCCESS) \<and>
     counted (rf(g2_sock n := 0)) S' \<and> same_sessions S S'"
proof -
  let ?S = "set_ref S q f" and ?L = "mc_server_list_v2 S"
  let ?S1 = "?S\<lparr>mc_server_list_v2 := List.filter (\<lambda>(p, _). p \<noteq> q) (mc_server_list_v2 ?S)\<rparr>"
  let ?S2 = "?S1\<lparr>mc_socks := (mc_socks S)(g2_sock n := None)\<rparr>"
  note nn = counted_node [OF c n]
  have "(q, n\<lparr>g2_ref := f (g2_ref n)\<rparr>) \<in> set (mc_server_list_v2 ?S)" using n by (force simp: set_ref_def)
  then have m: "map_of (mc_server_list_v2 ?S) q = Some (n\<lparr>g2_ref := f (g2_ref n)\<rparr>)"
    using countedD(2) [OF c] by (intro map_of_is_SomeI) (simp_all only: set_ref_nodes)
  obtain k where k: "mc_socks S (g2_sock n) = Some k" using nn(4) countedD(5) [OF c] by blast
  have "agc_gtp_close ?S1 (g2_sock n) = Some (?S2, AGC_STATUS_SUCCESS)"
    using nn(5) k by (simp add: agc_gtp_close_def set_ref_same)
  then have r: "media_remove_gtp_node_v2 ?S q = Some (?S2, AGC_STATUS_SUCCESS)"
    using m nn(1,5) by (simp add: media_remove_gtp_node_v2_def Let_def)
  have L: "mc_server_list_v2 ?S2 = List.filter (\<lambda>(p, _). p \<noteq> q) ?L"
    by (simp add: set_ref_def filter_changed)
  have socks: "shared_socks ?S2 = shared_socks S - {g2_sock n}"
  proof -
    have "x \<in> set (map (g2_sock \<circ> snd) (List.filter (\<lambda>(p, _). p \<noteq> q) ?L)) \<longleftrightarrow> x \<in> shared_socks S \<and> x \<noteq> g2_sock n" for x
      using node_unique(1) [OF c _ n] by force
    then show ?thesis unfolding L by blast
  qed
  have "counted (rf(g2_sock n := 0)) ?S2"
  proof (rule countedI)
    show "distinct (map fst (mc_server_list_v2 ?S2))" unfolding L by (rule distinct_map_filter [OF countedD(2) [OF c]])
    show "distinct (map (g2_sock \<circ> snd) (mc_server_list_v2 ?S2))" unfolding L by (rule distinct_map_filter [OF countedD(3) [OF c]])
    show "p \<noteq> NULL \<and> p < mc_brk ?S2 \<and> g2_ref m = int ((rf(g2_sock n := 0)) (g2_sock m))" if "(p, m) \<in> set (mc_server_list_v2 ?S2)" for p m
    proof -
      have pm: "(p, m) \<in> set ?L" "p \<noteq> q" using that unfolding L by auto
      then show ?thesis using counted_node(1-3) [OF c pm(1)] node_unique(1) [OF c pm(1) n] by (simp add: set_ref_same)
    qed
    show "0 < (rf(g2_sock n := 0)) j \<longleftrightarrow> j \<in> shared_socks ?S2" if "j \<noteq> NULL" for j
      using counted_used(1) [OF c that] unfolding socks by simp
    show "j < mc_brk ?S2" if "j \<in> shared_socks ?S2" for j
      using counted_used(2) [OF c, of j] that unfolding socks by (simp add: set_ref_same)
    show "dom (mc_socks ?S2) = shared_socks ?S2" unfolding socks using countedD(5) [OF c] by simp
    show "NULL \<notin> shared_socks ?S2" unfolding socks using countedD(4) [OF c] by simp
  qed (simp add: set_ref_same countedD(1) [OF c])
  moreover have "same_sessions S ?S2" by (simp add: same_sessions_def set_ref_def)
  ultimately show ?thesis using r by blast
qed

lemma del_ref_counted:
  assumes c: "counted rf S" and k: "k \<noteq> NULL \<Longrightarrow> 0 < rf k"
  shows "\<exists>S' st. media_del_gtp_node_ref_v2 S k = Some (S', st) \<and> counted (rf(k := rf k - 1)) S' \<and> same_sessions S S'"
proof (cases "k = NULL")
  case True
  have "counted (rf(k := rf k - 1)) S" by (rule counted_cong [OF c]) (use True in simp)
  then show ?thesis using True by (simp add: media_del_gtp_node_ref_v2_def)
next
  case False
  have "k \<in> shared_socks S" using counted_used(1) [OF c False] k [OF False] by simp
  from find_node [OF c this] obtain q n where f: "List.find (\<lambda>(_, n). g2_sock n = k) (mc_server_list_v2 S) = Some (q, n)"
    "(q, n) \<in> set (mc_server_list_v2 S)" "g2_sock n = k" .
  have ref: "g2_ref n = int (rf k)" using counted_node(3) [OF c f(2)] f(3) by simp
  show ?thesis
  proof (cases "g2_ref n - 1 \<le> 0")
    case True
    then have "rf k - 1 = 0" using ref by simp
    then show ?thesis using remove_node_counted [OF c f(2), of "\<lambda>r. r - 1"] True False f(1,3)
      by (auto simp: media_del_gtp_node_ref_v2_def Let_def)
  next
    case pos: False
    then have "counted (rf(k := rf k - 1)) (set_ref S q (\<lambda>r. r - 1))"
      using set_ref_counted [OF c f(2), of "rf k - 1" "\<lambda>r. r - 1"] ref f(3) by simp
    then show ?thesis using pos False f(1) set_ref_same(1) [of S q "\<lambda>r. r - 1"]
      by (simp add: media_del_gtp_node_ref_v2_def Let_def)
  qed
qed

lemma node_find_counted:
  assumes "\<forall>(q, n)\<in>set L. g2_sock n \<noteq> NULL \<and> K (g2_sock n) \<noteq> None"
  shows "\<exists>r. node_find K loc loclen rem remlen L = Some r \<and> (case r of None \<Rightarrow> True | Some x \<Rightarrow> x \<in> set L)"
  using assms
proof (induction L)
  case (Cons x L)
  obtain q n where x: "x = (q, n)" by (cases x)
  then obtain k where "K (g2_sock n) = Some k" "g2_sock n \<noteq> NULL" using Cons.prems by auto
  then show ?case using Cons.IH Cons.prems x by (auto split: option.splits)
qed simp

lemma gtp_node_find_counted:
  assumes c: "counted rf S"
  shows "\<exists>r. media_gtp_node_find S g = Some r \<and> (case r of None \<Rightarrow> True | Some x \<Rightarrow> x \<in> set (mc_server_list_v2 S))"
  unfolding media_gtp_node_find_def
proof (rule node_find_counted)
  have "g2_sock n \<noteq> NULL \<and> mc_socks S (g2_sock n) \<noteq> None" if "(q, n) \<in> set (mc_server_list_v2 S)" for q n
    using counted_node(4,5) [OF c that] countedD(5) [OF c] by blast
  then show "\<forall>(q, n)\<in>set (mc_server_list_v2 S). g2_sock n \<noteq> NULL \<and> mc_socks S (g2_sock n) \<noteq> None" by blast
qed

section \<open>Opening the tunnels of a session\<close>

lemma counted_sessions [simp]: "counted rf (S\<lparr>mc_sessions := x\<rparr>) = counted rf S"
  by (simp add: counted_def)

lemma refs_slot:
  assumes "i < MAX_MEDIA_SESSIONS" "\<And>j. j \<noteq> i \<Longrightarrow> uses_of S' k (mc_session_list S' j) = uses_of S k (mc_session_list S j)"
  shows "refs S' k + uses_of S k (mc_session_list S i) = refs S k + uses_of S' k (mc_session_list S' i)"
proof -
  have i: "i \<in> {..<MAX_MEDIA_SESSIONS}" using assms(1) by (simp only: lessThan_iff)
  have "refs T k = uses_of T k (mc_session_list T i) + (\<Sum>j\<in>{..<MAX_MEDIA_SESSIONS} - {i}. uses_of T k (mc_session_list T j))" for T
    unfolding refs_def by (rule sum.remove [OF finite_lessThan i])
  moreover have "(\<Sum>j\<in>{..<MAX_MEDIA_SESSIONS} - {i}. uses_of S' k (mc_session_list S' j)) =
      (\<Sum>j\<in>{..<MAX_MEDIA_SESSIONS} - {i}. uses_of S k (mc_session_list S j))"
    by (rule sum.cong [OF refl]) (use assms(2) in blast)
  ultimately show ?thesis by (simp only: ac_simps)
qed

text \<open>A tunnel of a session: a place to read and write.\<close>

locale tunnel =
  fixes get :: "sig_sess \<Rightarrow> gtp_path"
    and upd :: "(gtp_path \<Rightarrow> gtp_path) \<Rightarrow> sig_sess \<Rightarrow> sig_sess"
  assumes get_upd: "get (upd f s) = f (get s)"
    and keeps_id: "ss_sess_id (upd f s) = ss_sess_id s"
    and keeps_teids: "teids_ok (upd (\<lambda>g. g\<lparr>gp_sock := k\<rparr>) s) = teids_ok s"
    and counts: "count_list (path_socks (upd (\<lambda>g. g\<lparr>gp_sock := k\<rparr>) s)) j + of_bool (gp_sock (get s) = j) =
      count_list (path_socks s) j + of_bool (k = j)"
begin

lemma set_sock:
  fixes k :: ptr
  assumes "sess_ok S" "mc_session_list S i = p" "p \<noteq> NULL" "mc_sessions S p = Some s"
  defines "S' \<equiv> S\<lparr>mc_sessions := (mc_sessions S)(p \<mapsto> upd (\<lambda>g. g\<lparr>gp_sock := k\<rparr>) s)\<rparr>"
  shows "upd_sess S p (upd (\<lambda>g. g\<lparr>gp_sock := k\<rparr>)) = Some S'" "sess_ok S'"
    "refs S' j + of_bool (gp_sock (get s) = j) = refs S j + of_bool (k = j)"
proof -
  show "upd_sess S p (upd (\<lambda>g. g\<lparr>gp_sock := k\<rparr>)) = Some S'" using assms(4) by (simp add: upd_sess_def S'_def)
  have i: "0 < i \<and> i < MAX_MEDIA_SESSIONS \<and> (\<exists>s. mc_sessions S (mc_session_list S i) = Some s \<and> ss_sess_id s = i \<and> teids_ok s)"
    by (rule sess_okD(4) [OF assms(1)]) (use assms(2,3) in simp)
  then have s: "ss_sess_id s = i" "teids_ok s" "i < MAX_MEDIA_SESSIONS" using assms(2,4) by auto
  have u: "mc_session_list S m = p \<longleftrightarrow> m = i" for m using slot_unique [OF assms(1) _ assms(2) assms(3)] assms(2) by blast
  show "sess_ok S'"
    unfolding sess_ok_def in_table_def
  proof (intro conjI allI impI ballI)
    show "mc_next_sess_id S' < MAX_MEDIA_SESSIONS" "0 < mc_brk S'" "distinct (mc_releasing S')"
      using sess_okD [OF assms(1)] by (simp_all add: S'_def)
    show "q < mc_brk S'" if "mc_sessions S' q \<noteq> None" for q
      using that sess_okD(3) [OF assms(1), of q] sess_okD(3) [OF assms(1), of p] assms(4)
      by (cases "q = p") (simp_all add: S'_def)
    fix m assume m: "mc_session_list S' m \<noteq> NULL"
    then have "0 < m \<and> m < MAX_MEDIA_SESSIONS \<and> (\<exists>s. mc_sessions S (mc_session_list S m) = Some s \<and> ss_sess_id s = m \<and> teids_ok s)"
      by (intro sess_okD(4) [OF assms(1)]) (simp add: S'_def)
    then show "0 < m" "m < MAX_MEDIA_SESSIONS"
      "\<exists>s. mc_sessions S' (mc_session_list S' m) = Some s \<and> ss_sess_id s = m \<and> teids_ok s"
      using u [of m] s keeps_id keeps_teids by (auto simp: S'_def)
  next
    fix q assume "q \<in> set (mc_releasing S')"
    then have "mc_sessions S q \<noteq> None \<and> \<not> in_table S q" by (intro sess_okD(6) [OF assms(1)]) (simp add: S'_def)
    then show "mc_sessions S' q \<noteq> None" "\<not> (q \<noteq> NULL \<and> (\<exists>i. mc_session_list S' i = q))"
      by (auto simp: S'_def in_table_def)
  qed
  have "refs S' j + uses_of S j (mc_session_list S i) = refs S j + uses_of S' j (mc_session_list S' i)"
  proof (rule refs_slot [OF s(3)])
    fix m assume "m \<noteq> i"
    then have "mc_session_list S m \<noteq> p" using u by blast
    then show "uses_of S' j (mc_session_list S' m) = uses_of S j (mc_session_list S m)"
      by (simp add: S'_def uses_of_def)
  qed
  then show "refs S' j + of_bool (gp_sock (get s) = j) = refs S j + of_bool (k = j)"
    using counts [of k s j] assms(2-4) by (simp add: uses_of_def S'_def)
qed

end

interpretation upf: tunnel ss_upf ss_upf_update
  by unfold_locales (simp_all add: teids_ok_def path_socks_def)

interpretation upfv6: tunnel ss_upfv6 ss_upfv6_update
  by unfold_locales (simp_all add: teids_ok_def path_socks_def)

interpretation gnb: tunnel ss_gnb ss_gnb_update
  by unfold_locales (simp_all add: teids_ok_def path_socks_def)

interpretation gnbv6: tunnel ss_gnbv6 ss_gnbv6_update
  by unfold_locales (simp_all add: teids_ok_def path_socks_def)

text \<open>
  The state of the gateway is consistent. A session that opens tunnels which are open already drops its
  sockets without giving the references back: these lost references, listed in \<open>L\<close>, stay counted for
  good. In a state that is simply ok there are none.
\<close>

definition gateway_with :: "ptr list \<Rightarrow> media_context \<Rightarrow> bool" where
  "gateway_with L S \<longleftrightarrow> sess_ok S \<and> counted (\<lambda>k. refs S k + count_list L k) S"

abbreviation gateway_ok :: "media_context \<Rightarrow> bool" where
  "gateway_ok S \<equiv> gateway_with [] S"

lemma gateway_ok_iff: "gateway_ok S \<longleftrightarrow> sess_ok S \<and> counted (refs S) S"
  by (simp add: gateway_with_def)

lemma gateway_withD:
  assumes "gateway_with L S"
  shows "sess_ok S" "counted (\<lambda>k. refs S k + count_list L k) S"
  using assms by (simp_all add: gateway_with_def)

lemma gateway_withI:
  assumes "counted rf S" "sess_ok S" "\<And>k. k \<noteq> NULL \<Longrightarrow> refs S k + count_list L k = rf k"
  shows "gateway_with L S"
  using counted_cong [OF assms(1), of "\<lambda>k. refs S k + count_list L k"] assms(2,3) by (simp add: gateway_with_def)

definition lost_socks :: "gtp_path \<Rightarrow> gtp_path \<Rightarrow> ptr list" where
  "lost_socks g g6 = List.filter (\<lambda>k. k \<noteq> NULL) [gp_sock g, gp_sock g6]"

lemma count_lost: "k \<noteq> NULL \<Longrightarrow> count_list (lost_socks g g6) k = of_bool (gp_sock g = k) + of_bool (gp_sock g6 = k)"
  by (auto simp: lost_socks_def)

lemma nothing_lost [simp]: "gp_sock g = NULL \<Longrightarrow> gp_sock g6 = NULL \<Longrightarrow> lost_socks g g6 = []"
  by (simp add: lost_socks_def)

text \<open>A step changes nothing but one session and the sockets.\<close>

definition only_sess :: "media_context \<Rightarrow> ptr \<Rightarrow> sig_sess \<Rightarrow> media_context \<Rightarrow> bool" where
  "only_sess S p s S' \<longleftrightarrow> mc_session_list S' = mc_session_list S \<and> mc_releasing S' = mc_releasing S \<and>
     mc_server_list S' = mc_server_list S \<and> mc_sessions S' = (mc_sessions S)(p \<mapsto> s)"

lemma only_sess_self: "mc_sessions S p = Some s \<Longrightarrow> only_sess S p s S"
  by (auto simp: only_sess_def)

lemma only_sess_trans: "only_sess S p s S1 \<Longrightarrow> only_sess S1 p s1 S2 \<Longrightarrow> only_sess S p s1 S2"
  by (simp add: only_sess_def)

context tunnel
begin

text \<open>Putting a counted socket where there was none.\<close>

lemma put_sock:
  fixes L :: "ptr list"
  defines "rf S \<equiv> \<lambda>j. refs S j + count_list L j"
  assumes "sess_ok S" "mc_session_list S i = p" "p \<noteq> NULL" "mc_sessions S p = Some s" "gp_sock (get s) = NULL"
    and "counted ((rf S)(k := rf S k + 1)) T" "same_sessions S T"
  shows "\<exists>S'. upd_sess T p (upd (\<lambda>g. g\<lparr>gp_sock := k\<rparr>)) = Some S' \<and> gateway_with L S' \<and>
     only_sess S p (upd (\<lambda>g. g\<lparr>gp_sock := k\<rparr>) s) S' \<and> S' = T\<lparr>mc_sessions := mc_sessions S'\<rparr>"
proof -
  have T: "mc_session_list T i = p" "mc_sessions T p = Some s" using assms(3,5,8) by (simp_all add: same_sessions_def)
  note ss = set_sock [OF same_sessions_ok [OF assms(8,2)] T(1) assms(4) T(2), of k]
  let ?S = "T\<lparr>mc_sessions := (mc_sessions T)(p \<mapsto> upd (\<lambda>g. g\<lparr>gp_sock := k\<rparr>) s)\<rparr>"
  have "refs ?S j + count_list L j = ((rf S)(k := rf S k + 1)) j" if "j \<noteq> NULL" for j
    using ss(3) [of j] that assms(6) same_sessions_refs [OF assms(8)] by (auto simp: rf_def split: if_splits)
  moreover have "counted ((rf S)(k := rf S k + 1)) ?S" using assms(7) by simp
  ultimately have "gateway_with L ?S" using ss(2) by (intro gateway_withI)
  moreover have "only_sess S p (upd (\<lambda>g. g\<lparr>gp_sock := k\<rparr>) s) ?S" using assms(8) by (simp add: only_sess_def same_sessions_def)
  ultimately show ?thesis using ss(1) by auto
qed

lemma open_path_ok:
  assumes "gateway_with L S" "mc_session_list S i = p" "p \<noteq> NULL" "mc_sessions S p = Some s" "gp_sock (get s) = NULL"
  shows "\<exists>S' r s'. open_path opens S p get upd = Some (S', r) \<and> gateway_with L S' \<and> only_sess S p s' S' \<and>
     (s' = s \<or> (\<exists>f. s' = upd f s))"
proof -
  let ?rf = "\<lambda>j. refs S j + count_list L j"
  note ok = gateway_withD [OF assms(1)]
  let ?g = "get s"
  from gtp_node_find_counted [OF ok(2), of ?g] obtain r where r: "media_gtp_node_find S ?g = Some r"
    "case r of None \<Rightarrow> True | Some x \<Rightarrow> x \<in> set (mc_server_list_v2 S)" by blast
  show ?thesis
  proof (cases r)
    case (Some x)
    obtain q n where x: "x = (q, n)" by (cases x)
    then have n: "(q, n) \<in> set (mc_server_list_v2 S)" using r(2) Some by simp
    from add_ref_counted [OF ok(2) n] obtain T where T: "media_add_gtp_node_ref_v2 S q = Some (T, AGC_STATUS_SUCCESS)"
      "counted (?rf(g2_sock n := ?rf (g2_sock n) + 1)) T" "same_sessions S T" by blast
    from put_sock [OF ok(1) assms(2-5) T(2,3)] obtain S' where
      "upd_sess T p (upd (\<lambda>g. g\<lparr>gp_sock := g2_sock n\<rparr>)) = Some S'" "gateway_with L S'"
      "only_sess S p (upd (\<lambda>g. g\<lparr>gp_sock := g2_sock n\<rparr>) s) S'" by blast
    then show ?thesis using r(1) Some x T(1) assms(4) by (auto simp: open_path_def)
  next
    case None
    show ?thesis
    proof (cases "agc_gtp_open_v2 opens S (gp_local_addr ?g) (gp_local_addrlen ?g) (gp_remote_addr ?g) (gp_remote_addrlen ?g)")
      case o: None
      then show ?thesis using r(1) None assms(1,4) only_sess_self [of S p s] by (auto simp: open_path_def)
    next
      case (Some y)
      obtain S1 sock where y: "y = (S1, sock)" by (cases y)
      note nk = new_sock_counted [OF ok(2) Some [unfolded y]]
      let ?T = "fst (media_add_gtp_node_v2 S1 sock)"
      have "?rf(sock := ?rf sock + 1) = ?rf(sock := 1)" using nk(2) by simp
      then have "counted (?rf(sock := ?rf sock + 1)) ?T" using nk(3) by (simp only:)
      from put_sock [OF ok(1) assms(2-5) this same_sessions_trans [OF nk(4,5)]] obtain S' where
        S': "upd_sess ?T p (upd (\<lambda>g. g\<lparr>gp_sock := sock\<rparr>)) = Some S'" "gateway_with L S'"
        "only_sess S p (upd (\<lambda>g. g\<lparr>gp_sock := sock\<rparr>) s) S'" by blast
      have "\<exists>S2. upd_sess S1 p (upd (\<lambda>g. g\<lparr>gp_sock := sock\<rparr>)) = Some S2 \<and> fst (media_add_gtp_node_v2 S2 sock) = S'"
        using S'(1) nk(1) by (auto simp: upd_sess_def media_add_gtp_node_v2_def)
      then have "open_path opens S p get upd = Some (S', Opened)"
        using r(1) None Some y assms(4) by (auto simp: open_path_def)
      then show ?thesis using S'(2,3) by blast
    qed
  qed
qed

end

locale tunnel_pair = v4: tunnel get4 upd4 + v6: tunnel get6 upd6
  for get4 upd4 get6 upd6 +
  assumes other: "get6 (upd4 f s) = get6 s" "get4 (upd6 f s) = get4 s"
begin

lemma clear_socks:
  assumes "gateway_with L S" "mc_session_list S i = p" "p \<noteq> NULL" "mc_sessions S p = Some s"
  shows "\<exists>S' s'. upd_sess S p (upd4 (\<lambda>g. g\<lparr>gp_sock := NULL\<rparr>) \<circ> upd6 (\<lambda>g. g\<lparr>gp_sock := NULL\<rparr>)) = Some S' \<and>
     gateway_with (L @ lost_socks (get4 s) (get6 s)) S' \<and>
     only_sess S p s' S' \<and> gp_sock (get4 s') = NULL \<and> gp_sock (get6 s') = NULL"
proof -
  note ok = gateway_withD [OF assms(1)]
  let ?s6 = "upd6 (\<lambda>g. g\<lparr>gp_sock := NULL\<rparr>) s"
  let ?s4 = "upd4 (\<lambda>g. g\<lparr>gp_sock := NULL\<rparr>) ?s6"
  let ?S6 = "S\<lparr>mc_sessions := (mc_sessions S)(p \<mapsto> ?s6)\<rparr>"
  let ?S4 = "?S6\<lparr>mc_sessions := (mc_sessions ?S6)(p \<mapsto> ?s4)\<rparr>"
  note a = v6.set_sock [OF ok(1) assms(2,3,4), of NULL]
  have b0: "mc_session_list ?S6 i = p" "mc_sessions ?S6 p = Some ?s6" using assms(2) by simp_all
  note b = v4.set_sock [OF a(2) b0(1) assms(3) b0(2), of NULL]
  have g4: "get4 ?s6 = get4 s" using other(2) by simp
  have "refs ?S4 j + count_list (L @ lost_socks (get4 s) (get6 s)) j = refs S j + count_list L j" if "j \<noteq> NULL" for j
    using a(3) [of j] b(3) [of j] that g4 by (simp add: count_list_append count_lost)
  moreover have "counted (\<lambda>j. refs S j + count_list L j) ?S4" using ok(2) by simp
  ultimately have "gateway_with (L @ lost_socks (get4 s) (get6 s)) ?S4" using b(2) by (intro gateway_withI)
  moreover have "only_sess S p ?s4 ?S4" by (simp add: only_sess_def)
  moreover have "upd_sess S p (upd4 (\<lambda>g. g\<lparr>gp_sock := NULL\<rparr>) \<circ> upd6 (\<lambda>g. g\<lparr>gp_sock := NULL\<rparr>)) = Some ?S4"
    using assms(4) by (simp add: upd_sess_def)
  moreover have "gp_sock (get4 ?s4) = NULL" "gp_sock (get6 ?s4) = NULL" by (simp_all add: v4.get_upd v6.get_upd other)
  ultimately show ?thesis by blast
qed

lemma open_paths_ok:
  assumes "gateway_with L S" "mc_session_list S i = p" "p \<noteq> NULL" "mc_sessions S p = Some s"
  shows "\<exists>S' st s'. open_paths opens S p get4 upd4 get6 upd6 = Some (S', st) \<and>
     gateway_with (L @ lost_socks (get4 s) (get6 s)) S' \<and> only_sess S p s' S'"
proof -
  let ?L = "L @ lost_socks (get4 s) (get6 s)"
  from clear_socks [OF assms] obtain S1 s1 where
    1: "upd_sess S p (upd4 (\<lambda>g. g\<lparr>gp_sock := NULL\<rparr>) \<circ> upd6 (\<lambda>g. g\<lparr>gp_sock := NULL\<rparr>)) = Some S1" "gateway_with ?L S1"
    "only_sess S p s1 S1" "gp_sock (get4 s1) = NULL" "gp_sock (get6 s1) = NULL" by blast
  have p1: "mc_session_list S1 i = p" "mc_sessions S1 p = Some s1" using 1(3) assms(2) by (simp_all add: only_sess_def)
  from v4.open_path_ok [OF 1(2) p1(1) assms(3) p1(2) 1(4), of opens] obtain S2 r s2 where
    2: "open_path opens S1 p get4 upd4 = Some (S2, r)" "gateway_with ?L S2" "only_sess S1 p s2 S2" "s2 = s1 \<or> (\<exists>f. s2 = upd4 f s1)" by blast
  show ?thesis
  proof (cases "r = Opened")
    case False
    then have "\<exists>st. open_paths opens S p get4 upd4 get6 upd6 = Some (S2, st)"
      using 1(1) 2(1) assms(3) by (cases r) (simp_all add: open_paths_def)
    then show ?thesis using 2(2) only_sess_trans [OF 1(3) 2(3)] by blast
  next
    case True
    have p2: "mc_session_list S2 i = p" "mc_sessions S2 p = Some s2" using 2(3) p1(1) by (simp_all add: only_sess_def)
    have "gp_sock (get6 s2) = NULL" using 2(4) 1(5) other(1) by auto
    from v6.open_path_ok [OF 2(2) p2(1) assms(3) p2(2) this, of opens] obtain S3 r3 s3 where
      3: "open_path opens S2 p get6 upd6 = Some (S3, r3)" "gateway_with ?L S3" "only_sess S2 p s3 S3" by blast
    have "open_paths opens S p get4 upd4 get6 upd6 = Some (S3, AGC_STATUS_SUCCESS)"
      using 1(1) 2(1) 3(1) assms(3) True by (simp add: open_paths_def)
    then show ?thesis using 3(2) only_sess_trans [OF only_sess_trans [OF 1(3) 2(3)] 3(3)] by blast
  qed
qed

end

interpretation upf_pair: tunnel_pair ss_upf ss_upf_update ss_upfv6 ss_upfv6_update
  by unfold_locales simp_all

interpretation gnb_pair: tunnel_pair ss_gnb ss_gnb_update ss_gnbv6 ss_gnbv6_update
  by unfold_locales simp_all

section \<open>Removing a session\<close>

fun del_refs :: "media_context \<Rightarrow> ptr list \<Rightarrow> media_context option" where
  "del_refs S [] = Some S"
| "del_refs S (k # ks) = do { (S, st) \<leftarrow> media_del_gtp_node_ref_v2 S k; del_refs S ks }"

lemma del_refs_counted:
  assumes "counted rf S" "\<And>k. k \<noteq> NULL \<Longrightarrow> count_list ks k \<le> rf k"
  shows "\<exists>S'. del_refs S ks = Some S' \<and> counted (\<lambda>k. rf k - count_list ks k) S' \<and> same_sessions S S'"
  using assms
proof (induction ks arbitrary: S rf)
  case (Cons j ks)
  have "0 < rf j" if "j \<noteq> NULL" using Cons.prems(2) [OF that] by simp
  from del_ref_counted [OF Cons.prems(1) this] obtain S1 st where
    1: "media_del_gtp_node_ref_v2 S j = Some (S1, st)" "counted (rf(j := rf j - 1)) S1" "same_sessions S S1" by blast
  have "count_list ks k \<le> (rf(j := rf j - 1)) k" if "k \<noteq> NULL" for k using Cons.prems(2) [OF that] by auto
  from Cons.IH [OF 1(2) this] obtain S2 where
    2: "del_refs S1 ks = Some S2" "counted (\<lambda>k. (rf(j := rf j - 1)) k - count_list ks k) S2" "same_sessions S1 S2" by blast
  have "counted (\<lambda>k. rf k - count_list (j # ks) k) S2" by (rule counted_cong [OF 2(2)]) auto
  then show ?case using 1(1) 2(1) same_sessions_trans [OF 1(3) 2(3)] by simp
qed simp

lemma del_refs_append: "del_refs S (ks @ ks') = Option.bind (del_refs S ks) (\<lambda>S. del_refs S ks')"
proof (induction ks arbitrary: S)
  case (Cons k ks)
  then show ?case by (cases "media_del_gtp_node_ref_v2 S k") auto
qed simp

lemma del_null: "media_del_gtp_node_ref_v2 S NULL = Some (S, AGC_STATUS_FALSE)"
  by (simp add: media_del_gtp_node_ref_v2_def)

lemma close_paths_refs:
  assumes "p \<noteq> NULL" "mc_sessions S p = Some s"
  shows "close_paths S p get4 get6 = map_option (\<lambda>S. (S, AGC_STATUS_SUCCESS)) (del_refs S [gp_sock (get4 s), gp_sock (get6 s)])"
proof (cases "media_del_gtp_node_ref_v2 S (gp_sock (get4 s))")
  case (Some x)
  then show ?thesis using assms
    by (cases "gp_sock (get6 s) = NULL"; cases "media_del_gtp_node_ref_v2 (fst x) (gp_sock (get6 s))"; cases x)
      (auto simp: close_paths_def del_null)
qed (use assms in \<open>simp add: close_paths_def\<close>)

lemma uses_le_refs:
  assumes "i < MAX_MEDIA_SESSIONS"
  shows "uses_of S k (mc_session_list S i) \<le> refs S k"
  unfolding refs_def by (rule member_le_sum) (use assms in \<open>simp_all only: lessThan_iff finite_lessThan zero_le\<close>)

lemma remove_sess_counted:
  assumes ok: "sess_ok S" "counted rf S" and slot: "mc_session_list S i = p" "p \<noteq> NULL"
    and used: "\<And>s k. mc_sessions S p = Some s \<Longrightarrow> k \<noteq> NULL \<Longrightarrow> count_list (path_socks s) k \<le> rf k"
  shows "\<exists>S' s. media_remove_media_sig_sess S p = Some (S', AGC_STATUS_SUCCESS) \<and> sess_ok S' \<and> i < MAX_MEDIA_SESSIONS \<and>
     mc_sessions S p = Some s \<and> counted (\<lambda>k. rf k - count_list (path_socks s) k) S' \<and>
     mc_session_list S' = (mc_session_list S)(i := NULL) \<and> mc_server_list S' = mc_server_list S \<and>
     mc_sessions S' = mc_sessions S"
proof -
  have "0 < i \<and> i < MAX_MEDIA_SESSIONS \<and> (\<exists>s. mc_sessions S (mc_session_list S i) = Some s \<and> ss_sess_id s = i \<and> teids_ok s)"
    by (rule sess_okD(4) [OF ok(1)]) (use slot in simp)
  then obtain s where i: "i < MAX_MEDIA_SESSIONS" and s: "mc_sessions S p = Some s" "ss_sess_id s = i" using slot(1) by blast
  note le = used [OF s(1)]
  from del_refs_counted [OF ok(2) le] obtain T where
    T: "del_refs S (path_socks s) = Some T" "counted (\<lambda>k. rf k - count_list (path_socks s) k) T" "same_sessions S T" by blast
  obtain S1 where S1: "del_refs S [gp_sock (ss_upf s), gp_sock (ss_upfv6 s)] = Some S1"
    "del_refs S1 [gp_sock (ss_gnb s), gp_sock (ss_gnbv6 s)] = Some T"
    using T(1) del_refs_append [of S "[gp_sock (ss_upf s), gp_sock (ss_upfv6 s)]" "[gp_sock (ss_gnb s), gp_sock (ss_gnbv6 s)]"]
    by (auto simp: path_socks_def simp del: del_refs.simps split: Option.bind_splits)
  have "count_list [gp_sock (ss_upf s), gp_sock (ss_upfv6 s)] k \<le> rf k" if "k \<noteq> NULL" for k
    using le [OF that] by (simp add: path_socks_def split: if_splits)
  from del_refs_counted [OF ok(2) this] S1(1) have "mc_sessions S1 p = Some s" by (auto simp: same_sessions_def s(1))
  then have c: "media_upf_gtp_close S p = Some (S1, AGC_STATUS_SUCCESS)" "media_gnb_gtp_close S1 p = Some (T, AGC_STATUS_SUCCESS)"
    using close_paths_refs [OF slot(2) s(1), of ss_upf ss_upfv6] close_paths_refs [OF slot(2), of S1 s ss_gnb ss_gnbv6] S1
    by (simp_all add: media_upf_gtp_close_def media_gnb_gtp_close_def del: del_refs.simps)
  let ?S = "T\<lparr>mc_session_list := (mc_session_list T)(i := NULL), mc_releasing := mc_releasing T @ [p]\<rparr>"
  have r: "media_remove_media_sig_sess S p = Some (?S, AGC_STATUS_SUCCESS)"
    using slot(2) s i c by (simp add: media_remove_media_sig_sess_def)
  have t: "mc_session_list T = mc_session_list S" "mc_sessions T = mc_sessions S" "mc_releasing T = mc_releasing S"
    "mc_next_sess_id T = mc_next_sess_id S" "mc_server_list T = mc_server_list S"
    using T(3) by (simp_all add: same_sessions_def)
  note okT = same_sessions_ok [OF T(3) ok(1)]
  have u: "mc_session_list S m = p \<longleftrightarrow> m = i" for m using slot_unique [OF ok(1) _ slot(1) slot(2)] slot(1) by blast
  have "sess_ok ?S"
    unfolding sess_ok_def
  proof (intro conjI allI impI ballI)
    show "mc_next_sess_id ?S < MAX_MEDIA_SESSIONS" "0 < mc_brk ?S" using sess_okD(1,2) [OF okT] by simp_all
    show "q < mc_brk ?S" if "mc_sessions ?S q \<noteq> None" for q using sess_okD(3) [OF okT, of q] that by simp
    have "in_table S p" using slot by (auto simp: in_table_def)
    then have "p \<notin> set (mc_releasing S)" using sess_okD(6) [OF ok(1), of p] by blast
    then show "distinct (mc_releasing ?S)" using sess_okD(5) [OF ok(1)] t(3) by simp
    fix m assume m: "mc_session_list ?S m \<noteq> NULL"
    then have "mc_session_list T m \<noteq> NULL" by (simp split: if_splits)
    from sess_okD(4) [OF okT this] m show "0 < m" "m < MAX_MEDIA_SESSIONS"
      "\<exists>s. mc_sessions ?S (mc_session_list ?S m) = Some s \<and> ss_sess_id s = m \<and> teids_ok s" by (simp_all split: if_splits)
  next
    fix q assume "q \<in> set (mc_releasing ?S)"
    then have q: "q = p \<or> q \<in> set (mc_releasing S)" using t(3) by auto
    then show "mc_sessions ?S q \<noteq> None" using sess_okD(6) [OF ok(1), of q] s(1) t(2) by auto
    show "\<not> in_table ?S q"
    proof (cases "q = p")
      case True
      then show ?thesis using u t(1) slot(2) by (auto simp: in_table_def)
    next
      case False
      then have "\<not> in_table S q" using q sess_okD(6) [OF ok(1), of q] by blast
      then show ?thesis using t(1) by (auto simp: in_table_def)
    qed
  qed
  moreover have "counted (\<lambda>k. rf k - count_list (path_socks s) k) ?S" using T(2) by (simp add: counted_def)
  ultimately show ?thesis using r t s(1) i by auto
qed

lemma remove_sess_ok:
  assumes "gateway_with L S" "mc_session_list S i = p" "p \<noteq> NULL"
  shows "\<exists>S'. media_remove_media_sig_sess S p = Some (S', AGC_STATUS_SUCCESS) \<and> gateway_with L S' \<and>
     mc_session_list S' = (mc_session_list S)(i := NULL) \<and> mc_server_list S' = mc_server_list S"
proof -
  let ?rf = "\<lambda>k. refs S k + count_list L k"
  note ok = gateway_withD [OF assms(1)]
  have i: "i < MAX_MEDIA_SESSIONS" using sess_okD(4) [OF ok(1), of i] assms(2,3) by blast
  have use: "uses_of S k (mc_session_list S i) = count_list (path_socks s) k" if "mc_sessions S p = Some s" for k s
    using assms(2,3) that by (simp add: uses_of_def)
  have le: "count_list (path_socks s) k \<le> refs S k" if "mc_sessions S p = Some s" for s k
    using uses_le_refs [OF i, of S k] use [OF that, of k] by simp
  then have "count_list (path_socks s) k \<le> ?rf k" if "mc_sessions S p = Some s" for s k
    using that by (simp add: trans_le_add1)
  from remove_sess_counted [OF ok assms(2,3) this] obtain S' s where
    r: "media_remove_media_sig_sess S p = Some (S', AGC_STATUS_SUCCESS)" "sess_ok S'" "mc_sessions S p = Some s"
      "counted (\<lambda>k. ?rf k - count_list (path_socks s) k) S'" "mc_session_list S' = (mc_session_list S)(i := NULL)"
      "mc_server_list S' = mc_server_list S" "mc_sessions S' = mc_sessions S" by blast
  have "refs S' k + count_list L k = ?rf k - count_list (path_socks s) k" for k
  proof -
    have "uses_of S' k (mc_session_list S' m) = uses_of S k (mc_session_list S m)" if "m \<noteq> i" for m
      using that r(5,7) by (simp add: uses_of_def)
    from refs_slot [OF i this] show ?thesis using use [OF r(3), of k] le [OF r(3), of k] r(5) by (simp add: uses_of_def)
  qed
  then have "gateway_with L S'" using r(2,4) by (intro gateway_withI)
  then show ?thesis using r by blast
qed

lemma release_timer_ok:
  assumes "gateway_with L S" "p \<in> set (mc_releasing S)"
  shows "\<exists>S'. media_on_release_timer S p = Some S' \<and> gateway_with L S' \<and> mc_server_list S' = mc_server_list S"
proof -
  note ok = gateway_withD [OF assms(1)]
  have p: "mc_sessions S p \<noteq> None" "\<not> in_table S p" using sess_okD(6) [OF ok(1) assms(2)] by simp_all
  let ?S = "S\<lparr>mc_sessions := (mc_sessions S)(p := None), mc_releasing := remove1 p (mc_releasing S)\<rparr>"
  have t: "mc_session_list S i = NULL \<or> mc_session_list S i \<noteq> p" for i using p(2) by (auto simp: in_table_def)
  have "sess_ok ?S"
    unfolding sess_ok_def
  proof (intro conjI allI impI ballI)
    show "mc_next_sess_id ?S < MAX_MEDIA_SESSIONS" "0 < mc_brk ?S" using sess_okD(1,2) [OF ok(1)] by simp_all
    show "q < mc_brk ?S" if "mc_sessions ?S q \<noteq> None" for q using sess_okD(3) [OF ok(1), of q] that by (simp split: if_splits)
    show "distinct (mc_releasing ?S)" using sess_okD(5) [OF ok(1)] by simp
    fix m assume m: "mc_session_list ?S m \<noteq> NULL"
    then have m0: "mc_session_list S m \<noteq> NULL" by simp
    then have "mc_session_list S m \<noteq> p" using t [of m] by blast
    then show "0 < m" "m < MAX_MEDIA_SESSIONS"
      "\<exists>s. mc_sessions ?S (mc_session_list ?S m) = Some s \<and> ss_sess_id s = m \<and> teids_ok s"
      using sess_okD(4) [OF ok(1) m0] by simp_all
  next
    fix q assume "q \<in> set (mc_releasing ?S)"
    then have q: "q \<noteq> p" "q \<in> set (mc_releasing S)" using sess_okD(5) [OF ok(1)] by simp_all
    then show "mc_sessions ?S q \<noteq> None" "\<not> in_table ?S q" using sess_okD(6) [OF ok(1) q(2)] by (simp_all add: in_table_def)
  qed
  moreover have "counted (\<lambda>k. refs ?S k + count_list L k) ?S"
  proof -
    have "uses_of ?S k (mc_session_list ?S i) = uses_of S k (mc_session_list S i)" for k i
      using t [of i] by (auto simp: uses_of_def)
    then have "refs ?S = refs S" unfolding refs_def by presburger
    then show ?thesis using ok(2) by (simp add: counted_def)
  qed
  ultimately show ?thesis using p(1) by (auto simp: media_on_release_timer_def gateway_with_def)
qed

text \<open>A new session whose tunnels all have a local address has no socket yet.\<close>

lemma add_sess_ok:
  assumes "gateway_with L S" "media_gtp_node_n3_v4_first S = Some g4" "media_gtp_node_n3_v6_first S = Some g6"
  shows "\<exists>S' p. media_add_media_sig_sess S junk now = Some (S', p) \<and> gateway_with L S' \<and> mc_server_list S' = mc_server_list S"
proof -
  note ok = gateway_withD [OF assms(1)]
  from add_sess_cases [OF ok(1) assms(2), of junk now, unfolded Let_def] show ?thesis
  proof (elim disjE conjE exE)
    fix i assume a: "media_add_media_sig_sess S junk now = Some (S\<lparr>mc_next_sess_id := i\<rparr>, NULL)" "sess_ok (S\<lparr>mc_next_sess_id := i\<rparr>)"
    have "uses_of (S\<lparr>mc_next_sess_id := i\<rparr>) k q = uses_of S k q" for k q by (simp add: uses_of_def)
    then have "refs (S\<lparr>mc_next_sess_id := i\<rparr>) = refs S" unfolding refs_def by simp
    then have "counted (\<lambda>k. refs (S\<lparr>mc_next_sess_id := i\<rparr>) k + count_list L k) (S\<lparr>mc_next_sess_id := i\<rparr>)"
      using ok(2) by (simp add: counted_def)
    then show ?thesis using a by (simp add: gateway_with_def)
  next
    fix i u4
    let ?p = "mc_brk S"
    let ?s = "new_sess junk i now g4 (media_gtp_node_n3_v6_first S) u4 (or_else (media_gtp_node_n3_upf_v6_first S) (media_gtp_node_n3_v6_first S))"
    let ?S = "S\<lparr>mc_next_sess_id := i, mc_session_list := (mc_session_list S)(i := ?p), mc_brk := ?p + 1, mc_sessions := (mc_sessions S)(?p \<mapsto> ?s)\<rparr>"
    assume i: "0 < i" "i < MAX_MEDIA_SESSIONS" "mc_session_list S i = NULL"
      and a: "media_add_media_sig_sess S junk now = Some (?S, ?p)" "sess_ok ?S"
    obtain u6 where "or_else (media_gtp_node_n3_upf_v6_first S) (Some g6) = Some u6"
      by (cases "media_gtp_node_n3_upf_v6_first S") (auto simp: or_else_def)
    then have "path_socks ?s = [NULL, NULL, NULL, NULL]"
      using assms(3) by (simp add: path_socks_def new_sess_def new_path_def)
    then have u: "uses_of ?S k ?p = 0" if "k \<noteq> NULL" for k using that by (simp add: uses_of_def)
    have "refs ?S k = refs S k" if "k \<noteq> NULL" for k
    proof -
      have "uses_of ?S k (mc_session_list ?S j) = uses_of S k (mc_session_list S j)" if "j \<noteq> i" for j
      proof (cases "mc_session_list S j = NULL")
        case False
        from sess_okD(4) [OF ok(1) this] have "mc_sessions S (mc_session_list S j) \<noteq> None" by blast
        then have "mc_session_list S j \<noteq> ?p" using sess_okD(3) [OF ok(1), of ?p] by auto
        then show ?thesis using that by (simp add: uses_of_def)
      qed (use that in \<open>simp add: uses_of_def\<close>)
      from refs_slot [OF i(2) this] show ?thesis using u [OF that] i(3) by (simp add: uses_of_def)
    qed
    then have "counted (\<lambda>k. refs ?S k + count_list L k) S" using counted_cong [OF ok(2), of "\<lambda>k. refs ?S k + count_list L k"] by simp
    then have "counted (\<lambda>k. refs ?S k + count_list L k) ?S" by (auto simp: counted_def less_Suc_eq)
    then show ?thesis using a by (simp add: gateway_with_def)
  qed
qed

text \<open>
  The steps of the gateway, with a configuration that has local addresses of both families: sessions
  are added and removed, their addresses and the user they serve are set, their tunnels are opened (also
  again, as a repeated request and a handover do), and the timer frees removed ones. A step is labelled
  with the sockets whose reference is lost in it.
\<close>

inductive media_step :: "ptr list \<Rightarrow> media_context \<Rightarrow> media_context \<Rightarrow> bool" where
  ms_add: "media_add_media_sig_sess S junk now = Some (S', p) \<Longrightarrow> media_step [] S S'"
| ms_set: "in_table S p \<Longrightarrow> mc_sessions S p = Some s \<Longrightarrow> ss_sess_id s' = ss_sess_id s \<Longrightarrow> teids_ok s' = teids_ok s \<Longrightarrow>
    path_socks s' = path_socks s \<Longrightarrow> media_step [] S (S\<lparr>mc_sessions := (mc_sessions S)(p \<mapsto> s'), mc_ue_ip_table := users\<rparr>)"
| ms_upf: "in_table S p \<Longrightarrow> mc_sessions S p = Some s \<Longrightarrow>
    media_upf_gtp_open opens S p = Some (S', st) \<Longrightarrow> media_step (lost_socks (ss_upf s) (ss_upfv6 s)) S S'"
| ms_gnb: "in_table S p \<Longrightarrow> mc_sessions S p = Some s \<Longrightarrow>
    media_gnb_gtp_open opens S p = Some (S', st) \<Longrightarrow> media_step (lost_socks (ss_gnb s) (ss_gnbv6 s)) S S'"
| ms_remove: "in_table S p \<Longrightarrow> media_remove_media_sig_sess S p = Some (S', st) \<Longrightarrow> media_step [] S S'"
| ms_timer: "p \<in> set (mc_releasing S) \<Longrightarrow> media_on_release_timer S p = Some S' \<Longrightarrow> media_step [] S S'"

inductive_cases media_stepE: "media_step l S S'"

text \<open>A run with all the references lost in it.\<close>

inductive media_run :: "media_context \<Rightarrow> ptr list \<Rightarrow> media_context \<Rightarrow> bool" where
  mr_start: "media_run S [] S"
| mr_step: "media_run S L S1 \<Longrightarrow> media_step l S1 S2 \<Longrightarrow> media_run S (L @ l) S2"

definition both_families :: "media_context \<Rightarrow> bool" where
  "both_families S \<longleftrightarrow> media_gtp_node_n3_v4_first S \<noteq> None \<and> media_gtp_node_n3_v6_first S \<noteq> None"

lemma both_families_cong: "mc_server_list S' = mc_server_list S \<Longrightarrow> both_families S' = both_families S"
  by (simp add: both_families_def media_gtp_node_n3_v4_first_def media_gtp_node_n3_v6_first_def first_node_def)

text \<open>Fields other than the identifiers and the sockets can be set.\<close>

lemma set_sess_ok:
  assumes "gateway_with L S" "mc_session_list S i = p" "p \<noteq> NULL" "mc_sessions S p = Some s"
    and "ss_sess_id s' = ss_sess_id s" "teids_ok s' = teids_ok s" "path_socks s' = path_socks s"
  shows "gateway_with L (S\<lparr>mc_sessions := (mc_sessions S)(p \<mapsto> s')\<rparr>)"
proof -
  note ok = gateway_withD [OF assms(1)]
  let ?S = "S\<lparr>mc_sessions := (mc_sessions S)(p \<mapsto> s')\<rparr>"
  have "uses_of ?S k q = uses_of S k q" for k q using assms(4,7) by (simp add: uses_of_def)
  then have "refs ?S = refs S" unfolding refs_def by (simp add: fun_eq_iff)
  then have "counted (\<lambda>k. refs ?S k + count_list L k) ?S" using ok(2) by simp
  moreover have "sess_ok ?S"
    unfolding sess_ok_def in_table_def
  proof (intro conjI allI impI ballI)
    show "mc_next_sess_id ?S < MAX_MEDIA_SESSIONS" "0 < mc_brk ?S" "distinct (mc_releasing ?S)"
      using sess_okD [OF ok(1)] by simp_all
    show "q < mc_brk ?S" if "mc_sessions ?S q \<noteq> None" for q
      using that sess_okD(3) [OF ok(1), of q] sess_okD(3) [OF ok(1), of p] assms(4) by (cases "q = p") simp_all
    fix m assume m: "mc_session_list ?S m \<noteq> NULL"
    then have "0 < m \<and> m < MAX_MEDIA_SESSIONS \<and> (\<exists>s. mc_sessions S (mc_session_list S m) = Some s \<and> ss_sess_id s = m \<and> teids_ok s)"
      by (intro sess_okD(4) [OF ok(1)]) simp
    then show "0 < m" "m < MAX_MEDIA_SESSIONS"
      "\<exists>s. mc_sessions ?S (mc_session_list ?S m) = Some s \<and> ss_sess_id s = m \<and> teids_ok s"
      using assms(4-6) by auto
  next
    fix q assume "q \<in> set (mc_releasing ?S)"
    then have "mc_sessions S q \<noteq> None \<and> \<not> in_table S q" by (intro sess_okD(6) [OF ok(1)]) simp
    then show "mc_sessions ?S q \<noteq> None" "\<not> (q \<noteq> NULL \<and> (\<exists>i. mc_session_list ?S i = q))"
      by (auto simp: in_table_def)
  qed
  ultimately show ?thesis by (simp add: gateway_with_def)
qed

lemma users_ok: "gateway_with L (S\<lparr>mc_ue_ip_table := u\<rparr>) = gateway_with L S"
proof -
  have "uses_of (S\<lparr>mc_ue_ip_table := u\<rparr>) k q = uses_of S k q" for k q by (simp add: uses_of_def)
  then have "refs (S\<lparr>mc_ue_ip_table := u\<rparr>) = refs S" unfolding refs_def by simp
  then show ?thesis by (simp add: gateway_with_def sess_ok_def in_table_def counted_def)
qed

lemma media_step_ok:
  assumes "media_step l S S'" "gateway_with L S" "both_families S"
  shows "gateway_with (L @ l) S' \<and> both_families S'"
  using assms(1)
proof cases
  case (ms_add junk now p)
  obtain g4 g6 where "media_gtp_node_n3_v4_first S = Some g4" "media_gtp_node_n3_v6_first S = Some g6"
    using assms(3) by (auto simp: both_families_def)
  from add_sess_ok [OF assms(2) this, of junk now] obtain S1 p1 where
    "media_add_media_sig_sess S junk now = Some (S1, p1)" "gateway_with L S1" "mc_server_list S1 = mc_server_list S" by blast
  then show ?thesis using ms_add assms(3) both_families_cong [of S1 S] by simp
next
  case (ms_set p s s' users)
  then obtain i where "mc_session_list S i = p" "p \<noteq> NULL" by (auto simp: in_table_def)
  from set_sess_ok [OF assms(2) this ms_set(4-7)] have "gateway_with L S'"
    unfolding ms_set(2) by (simp only: users_ok)
  moreover have "both_families S'" using assms(3) both_families_cong [of S' S] unfolding ms_set(2) by simp
  ultimately show ?thesis using ms_set(1) by simp
next
  case (ms_upf p s opens st)
  then obtain i where "mc_session_list S i = p" "p \<noteq> NULL" by (auto simp: in_table_def)
  from upf_pair.open_paths_ok [OF assms(2) this ms_upf(3), of opens] obtain S1 st1 s1 where
    "media_upf_gtp_open opens S p = Some (S1, st1)" "gateway_with (L @ l) S1" "mc_server_list S1 = mc_server_list S"
    unfolding media_upf_gtp_open_def ms_upf(1) only_sess_def by blast
  then show ?thesis using ms_upf(4) assms(3) both_families_cong [of S1 S] by simp
next
  case (ms_gnb p s opens st)
  then obtain i where "mc_session_list S i = p" "p \<noteq> NULL" by (auto simp: in_table_def)
  from gnb_pair.open_paths_ok [OF assms(2) this ms_gnb(3), of opens] obtain S1 st1 s1 where
    "media_gnb_gtp_open opens S p = Some (S1, st1)" "gateway_with (L @ l) S1" "mc_server_list S1 = mc_server_list S"
    unfolding media_gnb_gtp_open_def ms_gnb(1) only_sess_def by blast
  then show ?thesis using ms_gnb(4) assms(3) both_families_cong [of S1 S] by simp
next
  case (ms_remove p st)
  then obtain i where "mc_session_list S i = p" "p \<noteq> NULL" by (auto simp: in_table_def)
  from remove_sess_ok [OF assms(2) this] obtain S1 where
    "media_remove_media_sig_sess S p = Some (S1, AGC_STATUS_SUCCESS)" "gateway_with L S1" "mc_server_list S1 = mc_server_list S" by blast
  then show ?thesis using ms_remove(1,3) assms(3) both_families_cong [of S1 S] by simp
next
  case (ms_timer p)
  from release_timer_ok [OF assms(2) ms_timer(2)] obtain S1 where
    "media_on_release_timer S p = Some S1" "gateway_with L S1" "mc_server_list S1 = mc_server_list S" by blast
  then show ?thesis using ms_timer(1,3) assms(3) both_families_cong [of S1 S] by simp
qed

lemma media_run_ok:
  assumes "media_run S L S'" "gateway_ok S" "both_families S"
  shows "gateway_with L S' \<and> both_families S'"
  using assms by induction (auto dest: media_step_ok)

text \<open>The start: no sessions, no sockets, the local addresses of the configuration.\<close>

definition start_context :: "nat \<Rightarrow> (ptr \<times> gtp_node) list \<Rightarrow> ptr \<Rightarrow> media_context" where
  "start_context rnd nodes brk = \<lparr>mc_next_sess_id = rnd mod MAX_MEDIA_SESSIONS, mc_session_list = (\<lambda>_. NULL),
     mc_sessions = (\<lambda>_. None), mc_releasing = [], mc_server_list = nodes, mc_server_list_v2 = [],
     mc_socks = (\<lambda>_. None), mc_brk = brk, mc_hash_key_list = [], mc_hash_keys = (\<lambda>_. None),
     mc_lbo_ip_table = (\<lambda>_. None), mc_ue_ip_table = (\<lambda>_. None)\<rparr>"

lemma start_ok: "0 < brk \<Longrightarrow> gateway_ok (start_context rnd nodes brk)"
  by (auto simp: gateway_ok_iff sess_ok_def counted_def start_context_def refs_def uses_of_def in_table_def)

text \<open>C19. A new session gets a free identifier between 1 and 99999, and fails only when all are in use.
  From then on the session is found by its identifier and by any of its four tunnel identifiers, and
  what every other identifier finds does not change.\<close>

theorem media_session_lookup:
  assumes "gateway_ok S" "media_gtp_node_n3_v4_first S \<noteq> None"
  shows "\<exists>S' p. media_add_media_sig_sess S junk now = Some (S', p) \<and>
     (if \<forall>i. 0 < i \<and> i < MAX_MEDIA_SESSIONS \<longrightarrow> mc_session_list S i \<noteq> NULL
      then p = NULL \<and> mc_session_list S' = mc_session_list S
      else p \<noteq> NULL \<and> (\<exists>s. mc_sessions S' p = Some s \<and> media_find_media_sig_sess_by_id S (ss_sess_id s) = NULL \<and>
        (\<forall>i. media_find_media_sig_sess_by_id S' i = (if i = ss_sess_id s then p else media_find_media_sig_sess_by_id S i)) \<and>
        (\<forall>t. media_find_media_sig_sess_by_teid S' t =
          (if t \<in> local_teids s then p else media_find_media_sig_sess_by_teid S t))))"
proof -
  have ok: "sess_ok S" using assms(1) by (simp add: gateway_ok_iff)
  obtain g4 where g4: "media_gtp_node_n3_v4_first S = Some g4" using assms(2) by blast
  from add_sess_cases [OF ok g4, of junk now, unfolded Let_def] show ?thesis
  proof (elim disjE conjE exE)
    fix i assume "\<forall>i. 0 < i \<and> i < MAX_MEDIA_SESSIONS \<longrightarrow> mc_session_list S i \<noteq> NULL"
      and a: "media_add_media_sig_sess S junk now = Some (S\<lparr>mc_next_sess_id := i\<rparr>, NULL)"
    then show ?thesis by simp
  next
    fix i u4
    let ?p = "mc_brk S"
    let ?s = "new_sess junk i now g4 (media_gtp_node_n3_v6_first S) u4 (or_else (media_gtp_node_n3_upf_v6_first S) (media_gtp_node_n3_v6_first S))"
    let ?S = "S\<lparr>mc_next_sess_id := i, mc_session_list := (mc_session_list S)(i := ?p), mc_brk := ?p + 1, mc_sessions := (mc_sessions S)(?p \<mapsto> ?s)\<rparr>"
    assume i: "0 < i" "i < MAX_MEDIA_SESSIONS" "mc_session_list S i = NULL"
      and a: "media_add_media_sig_sess S junk now = Some (?S, ?p)" "sess_ok ?S"
    have s: "ss_sess_id ?s = i" "local_teids ?s = {i * 4, i * 4 + 1, i * 4 + 2, i * 4 + 3}"
      by (simp_all add: new_sess_def local_teids_def new_path_def split: option.split)
    have t: "t \<in> local_teids ?s \<longleftrightarrow> t div 4 = i" for t unfolding s(2) by auto
    have "\<not> (\<forall>i. 0 < i \<and> i < MAX_MEDIA_SESSIONS \<longrightarrow> mc_session_list S i \<noteq> NULL)" using i by blast
    moreover have "?p \<noteq> NULL" using sess_okD(2) [OF ok] by simp
    moreover have "mc_sessions ?S ?p = Some ?s" by simp
    moreover have "media_find_media_sig_sess_by_id S (ss_sess_id ?s) = NULL"
      using s(1) i(3) by (simp add: media_find_media_sig_sess_by_id_def)
    moreover have "\<forall>j. media_find_media_sig_sess_by_id ?S j = (if j = ss_sess_id ?s then ?p else media_find_media_sig_sess_by_id S j)"
      unfolding s(1) using i(2) by (simp add: media_find_media_sig_sess_by_id_def)
    moreover have "\<forall>u. media_find_media_sig_sess_by_teid ?S u = (if u \<in> local_teids ?s then ?p else media_find_media_sig_sess_by_teid S u)"
      unfolding t using i(2) by (simp add: media_find_media_sig_sess_by_teid_def Let_def)
    ultimately show ?thesis using a(1) by (simp only: if_False) blast
  qed
qed

definition demo_path :: "nat \<Rightarrow> ptr \<Rightarrow> gtp_path" where
  "demo_path teid sock = \<lparr>gp_remote_teid = 0, gp_local_teid = teid, gp_local_addr = [], gp_local_addrlen = 0,
     gp_remote_addr = [], gp_remote_addrlen = 0, gp_sock = sock\<rparr>"

definition demo_sess :: "nat \<Rightarrow> ptr \<Rightarrow> ptr \<Rightarrow> sig_sess" where
  "demo_sess i sock sock6 = \<lparr>ss_sess_id = i, ss_sig_sess_id = 0, ss_gateway = [], ss_upf = demo_path (i * 4 + 1) sock,
     ss_gnb = demo_path (i * 4) NULL, ss_upfv6 = demo_path (i * 4 + 3) NULL, ss_gnbv6 = demo_path (i * 4 + 2) sock6,
     ss_ue_addr = [], ss_qos_flow_id = 0, ss_last_act_time = 0\<rparr>"

definition demo_nodes :: "(ptr \<times> gtp_node) list" where
  "demo_nodes = [(1, \<lparr>gn_addr = replicate 16 (CHR ''4''), gn_addrlen = 16, gn_sock = NULL, gn_ip_type = MEDIA_CFG_GTP_IPV4, gn_interface = MEDIA_INTERFACE_N3\<rparr>),
     (2, \<lparr>gn_addr = replicate 28 (CHR ''6''), gn_addrlen = 28, gn_sock = NULL, gn_ip_type = MEDIA_CFG_GTP_IPV6, gn_interface = MEDIA_INTERFACE_N3\<rparr>)]"

definition demo_gateway :: media_context where
  "demo_gateway = start_context 41 demo_nodes 3"

lemma demo_gateway_ok: "gateway_ok demo_gateway" "both_families demo_gateway"
  "media_gtp_node_n3_v4_first demo_gateway \<noteq> None" "mc_session_list demo_gateway = (\<lambda>_. NULL)"
proof -
  show "gateway_ok demo_gateway" unfolding demo_gateway_def by (rule start_ok) simp
qed (simp_all add: demo_gateway_def both_families_def media_gtp_node_n3_v4_first_def media_gtp_node_n3_v6_first_def
      first_node_def start_context_def demo_nodes_def MEDIA_CFG_GTP_IPV4_def MEDIA_CFG_GTP_IPV6_def)

theorem media_session_lookup_witness:
  "\<exists>S p s. media_add_media_sig_sess demo_gateway (demo_sess 0 0 0) 7 = Some (S, p) \<and> p \<noteq> NULL \<and> mc_sessions S p = Some s \<and>
     media_find_media_sig_sess_by_id S (ss_sess_id s) = p"
proof -
  have "\<not> (\<forall>i. 0 < i \<and> i < MAX_MEDIA_SESSIONS \<longrightarrow> mc_session_list demo_gateway i \<noteq> NULL)"
    unfolding demo_gateway_ok(4) by (simp add: exI [of _ 1])
  then show ?thesis using media_session_lookup [OF demo_gateway_ok(1,3), of "demo_sess 0 0 0" 7] by (simp only: if_False) metis
qed

lemma open_socks:
  assumes "gateway_with L S"
  shows "dom (mc_socks S) = {k. k \<noteq> NULL \<and> 0 < refs S k + count_list L k}"
proof -
  note c = gateway_withD(2) [OF assms]
  have u: "k \<in> shared_socks S \<longleftrightarrow> k \<noteq> NULL \<and> 0 < refs S k + count_list L k" for k
  proof (cases "k = NULL")
    case True
    then show ?thesis using countedD(4) [OF c] by simp
  next
    case False
    then show ?thesis using counted_used(1) [OF c False] by (simp only: simp_thms)
  qed
  show ?thesis unfolding countedD(5) [OF c] by (rule set_eqI) (simp only: u mem_Collect_eq)
qed

text \<open>C6. With local addresses of both families, after any sequence of steps the sessions and sockets
  agree. Let L be the sockets whose reference a session lost by opening its tunnels again without closing
  them. A socket is open exactly when a tunnel of a session in the table uses it or it is in L, it has one
  node whose counter is the number of these uses and of these losses, removing any session in the table
  succeeds, and this holds again for what then remains: a socket in L is never closed any more.\<close>

theorem media_sockets_counted:
  assumes "media_run (start_context rnd nodes brk) L S" "0 < brk" "both_families (start_context rnd nodes brk)"
  shows "dom (mc_socks S) = {k. k \<noteq> NULL \<and> 0 < refs S k + count_list L k} \<and>
     (\<forall>(q, n)\<in>set (mc_server_list_v2 S). g2_ref n = int (refs S (g2_sock n) + count_list L (g2_sock n))) \<and>
     distinct (map (g2_sock \<circ> snd) (mc_server_list_v2 S)) \<and> shared_socks S = dom (mc_socks S) \<and>
     (\<forall>p. in_table S p \<longrightarrow> (\<exists>S'. media_remove_media_sig_sess S p = Some (S', AGC_STATUS_SUCCESS) \<and> \<not> in_table S' p \<and>
       dom (mc_socks S') = {k. k \<noteq> NULL \<and> 0 < refs S' k + count_list L k}))"
proof -
  have g: "gateway_with L S" using media_run_ok [OF assms(1) start_ok [OF assms(2)] assms(3)] by blast
  note ok = gateway_withD [OF g]
  have "\<exists>S'. media_remove_media_sig_sess S p = Some (S', AGC_STATUS_SUCCESS) \<and> \<not> in_table S' p \<and>
      dom (mc_socks S') = {k. k \<noteq> NULL \<and> 0 < refs S' k + count_list L k}" if "in_table S p" for p
  proof -
    obtain i where i: "mc_session_list S i = p" "p \<noteq> NULL" using \<open>in_table S p\<close> by (auto simp: in_table_def)
    from remove_sess_ok [OF g i] obtain S' where S': "media_remove_media_sig_sess S p = Some (S', AGC_STATUS_SUCCESS)"
      "mc_session_list S' = (mc_session_list S)(i := NULL)" "gateway_with L S'" by blast
    have "mc_session_list S j \<noteq> p" if "j \<noteq> i" for j using slot_unique [OF ok(1) _ i(1) i(2), of j] that by blast
    then have "\<not> in_table S' p" using S'(2) i(2) by (auto simp: in_table_def)
    then show ?thesis using S'(1) open_socks [OF S'(3)] by blast
  qed
  moreover have "\<forall>(q, n)\<in>set (mc_server_list_v2 S). g2_ref n = int (refs S (g2_sock n) + count_list L (g2_sock n))"
    using counted_node(3) [OF ok(2)] by blast
  ultimately show ?thesis using open_socks [OF g] countedD(3,5) [OF ok(2)] by blast
qed

text \<open>A session opens its tunnels to the UPF, and once more: the two sockets of the first time are lost.\<close>

lemma demo_slot: "find_slot MAX_MEDIA_SESSIONS (\<lambda>_. NULL) 41 = (42, Some 42)"
proof -
  have n: "(100000::nat) = Suc 99999" by simp
  show ?thesis unfolding n by (subst find_slot.simps(2)) (simp add: MEDIA_SESS_NEXT_ID_def)
qed

definition demo_paths :: sig_sess where
  "demo_paths = (let s = demo_sess 42 0 0 in
     s\<lparr>ss_last_act_time := 7, ss_ue_addr := replicate 16 NUL,
       ss_gnb := (ss_gnb s)\<lparr>gp_local_addr := replicate 16 (CHR ''4''), gp_local_addrlen := 16\<rparr>,
       ss_upf := (ss_upf s)\<lparr>gp_local_addr := replicate 16 (CHR ''4''), gp_local_addrlen := 16\<rparr>,
       ss_gnbv6 := (ss_gnbv6 s)\<lparr>gp_local_addr := replicate 28 (CHR ''6''), gp_local_addrlen := 28\<rparr>,
       ss_upfv6 := (ss_upfv6 s)\<lparr>gp_local_addr := replicate 28 (CHR ''6''), gp_local_addrlen := 28\<rparr>\<rparr>)"

definition demo_added :: media_context where
  "demo_added = demo_gateway\<lparr>mc_next_sess_id := 42, mc_session_list := (\<lambda>_. NULL)(42 := 3), mc_brk := 4,
     mc_sessions := [3 \<mapsto> demo_paths]\<rparr>"

lemma demo_add: "media_add_media_sig_sess demo_gateway (demo_sess 0 0 0) 7 = Some (demo_added, 3)"
  by (simp add: media_add_media_sig_sess_def demo_gateway_def start_context_def demo_slot demo_nodes_def
      media_gtp_node_n3_v4_first_def media_gtp_node_n3_v6_first_def media_gtp_node_n3_upf_v4_first_def
      media_gtp_node_n3_upf_v6_first_def first_node_def MEDIA_CFG_GTP_IPV4_def MEDIA_CFG_GTP_IPV6_def or_else_def
      new_sess_def new_path_def demo_sess_def demo_path_def overwrite_def demo_paths_def demo_added_def Let_def)

lemma demo_families: "take 28 (overwrite (replicate 128 NUL) 16 (replicate 16 (CHR ''4''))) \<noteq> replicate 28 (CHR ''6'')"
  by code_simp

lemma demo_open:
  "\<exists>S s. media_upf_gtp_open (\<lambda>_ _. True) demo_added 3 = Some (S, AGC_STATUS_SUCCESS) \<and> mc_session_list S 42 = 3 \<and>
     mc_sessions S 3 = Some s \<and> gp_sock (ss_upf s) = 4 \<and> gp_sock (ss_upfv6 s) = 6"
  by (simp add: media_upf_gtp_open_def open_paths_def open_path_def upd_sess_def media_gtp_node_find_def agc_gtp_open_v2_def
      media_add_gtp_node_v2_def demo_added_def demo_gateway_def start_context_def demo_paths_def demo_sess_def demo_path_def
      same_bytes_def demo_families Let_def)

theorem media_sockets_counted_witness:
  "\<exists>S p S'. media_run demo_gateway [4, 6] S \<and> in_table S p \<and> 4 \<in> dom (mc_socks S) \<and>
     media_remove_media_sig_sess S p = Some (S', AGC_STATUS_SUCCESS) \<and> 4 \<in> dom (mc_socks S') \<and> 6 \<in> dom (mc_socks S')"
proof -
  obtain S s where S: "media_upf_gtp_open (\<lambda>_ _. True) demo_added 3 = Some (S, AGC_STATUS_SUCCESS)" "mc_session_list S 42 = 3"
    "mc_sessions S 3 = Some s" "gp_sock (ss_upf s) = 4" "gp_sock (ss_upfv6 s) = 6" using demo_open by blast
  have "in_table demo_added 3" "mc_sessions demo_added 3 = Some demo_paths"
    "lost_socks (ss_upf demo_paths) (ss_upfv6 demo_paths) = []"
    by (auto simp: in_table_def demo_added_def demo_paths_def demo_sess_def demo_path_def Let_def)
  note 1 = mr_step [OF mr_step [OF mr_start ms_add [OF demo_add]] ms_upf [OF this(1,2) S(1), unfolded this(3)]]
  have "gateway_ok S" using media_run_ok [OF 1 demo_gateway_ok(1,2)] by simp
  from upf_pair.open_paths_ok [OF this S(2) _ S(3)] obtain T st where
    T: "media_upf_gtp_open (\<lambda>_ _. True) S 3 = Some (T, st)" "mc_session_list T 42 = 3"
    using S(2) unfolding media_upf_gtp_open_def only_sess_def by fastforce
  have "in_table S 3" using S(2) by (auto simp: in_table_def)
  note 2 = mr_step [OF 1 ms_upf [OF this S(3) T(1)]]
  have run: "media_run demo_gateway [4, 6] T" using 2 S(4,5) by (simp add: lost_socks_def)
  have t: "in_table T 3" using T(2) by (auto simp: in_table_def)
  note c = media_sockets_counted [OF run [unfolded demo_gateway_def] zero_less_numeral demo_gateway_ok(2) [unfolded demo_gateway_def]]
  from c t obtain T' where T': "media_remove_media_sig_sess T 3 = Some (T', AGC_STATUS_SUCCESS)"
    "dom (mc_socks T') = {k. k \<noteq> NULL \<and> 0 < refs T' k + count_list [4, 6] k}" by blast
  have "4 \<in> dom (mc_socks T)" using c by simp
  moreover have "4 \<in> dom (mc_socks T')" "6 \<in> dom (mc_socks T')" unfolding T'(2) by simp_all
  ultimately show ?thesis using run t T'(1) by blast
qed

text \<open>Without a local address of the IPv6 family the socket of the tunnel over IPv6 of a new session
  keeps what was in its memory. When this is by chance the socket of another session (memory of a freed
  session is used again), removing the new session closes that socket while the other session uses it.\<close>

lemma media_stale_socket:
  assumes "gateway_ok S" "media_gtp_node_n3_v4_first S \<noteq> None" "media_gtp_node_n3_v6_first S = None"
    and "media_gtp_node_n3_upf_v6_first S = None" "0 < i" "i < MAX_MEDIA_SESSIONS" "mc_session_list S i = NULL"
    and "refs S k = 1" "k \<noteq> NULL" "gp_sock (ss_gnbv6 junk) = k" "gp_sock (ss_upfv6 junk) = NULL"
  shows "\<exists>S1 p S2. media_add_media_sig_sess S junk now = Some (S1, p) \<and>
     media_remove_media_sig_sess S1 p = Some (S2, AGC_STATUS_SUCCESS) \<and>
     mc_socks S k \<noteq> None \<and> mc_socks S2 k = None \<and> refs S2 k = 1"
proof -
  have ok: "sess_ok S" "counted (refs S) S" using assms(1) by (simp_all add: gateway_ok_iff)
  obtain g4 where g4: "media_gtp_node_n3_v4_first S = Some g4" using assms(2) by blast
  have "\<not> (\<forall>i. 0 < i \<and> i < MAX_MEDIA_SESSIONS \<longrightarrow> mc_session_list S i \<noteq> NULL)" using assms(5-7) by blast
  with add_sess_cases [OF ok(1) g4, of junk now] assms(3,4) obtain j u4 where
    j: "0 < j" "j < MAX_MEDIA_SESSIONS" "mc_session_list S j = NULL"
      and l: "let p = mc_brk S; s = new_sess junk j now g4 None u4 None;
          S' = S\<lparr>mc_next_sess_id := j, mc_session_list := (mc_session_list S)(j := p), mc_brk := p + 1,
            mc_sessions := (mc_sessions S)(p \<mapsto> s)\<rparr>
        in media_add_media_sig_sess S junk now = Some (S', p) \<and> sess_ok S'"
    by (simp only: or_else_def option.case) blast
  let ?p = "mc_brk S" and ?s = "new_sess junk j now g4 None u4 None"
  let ?S1 = "S\<lparr>mc_next_sess_id := j, mc_session_list := (mc_session_list S)(j := ?p), mc_brk := ?p + 1, mc_sessions := (mc_sessions S)(?p \<mapsto> ?s)\<rparr>"
  have a: "media_add_media_sig_sess S junk now = Some (?S1, ?p)" "sess_ok ?S1" using l by (simp_all add: Let_def)
  have ps: "path_socks ?s = [NULL, NULL, NULL, k]"
    using assms(10,11) by (simp add: path_socks_def new_sess_def new_path_def)
  have c: "counted (refs S) ?S1" using ok(2) by (auto simp: counted_def less_Suc_eq)
  have p: "?p \<noteq> NULL" using sess_okD(2) [OF ok(1)] by simp
  have used: "count_list (path_socks s) m \<le> refs S m" if "mc_sessions ?S1 ?p = Some s" "m \<noteq> NULL" for s m
    using that ps assms(8) by auto
  have slot: "mc_session_list ?S1 j = ?p" by simp
  from remove_sess_counted [OF a(2) c slot p used] obtain S2 s where
    r: "media_remove_media_sig_sess ?S1 ?p = Some (S2, AGC_STATUS_SUCCESS)" "mc_sessions ?S1 ?p = Some s"
      "counted (\<lambda>m. refs S m - count_list (path_socks s) m) S2" "mc_session_list S2 = (mc_session_list ?S1)(j := NULL)"
      "mc_sessions S2 = mc_sessions ?S1" by blast
  have "refs S k - count_list (path_socks s) k = 0" using r(2) ps assms(8) by simp
  then have "k \<notin> shared_socks S2" using counted_used(1) [OF r(3) assms(9)] by simp
  then have "mc_socks S2 k = None" using countedD(5) [OF r(3)] by blast
  moreover have "mc_socks S k \<noteq> None"
    using counted_used(1) [OF ok(2) assms(9)] countedD(5) [OF ok(2)] assms(8) by auto
  moreover have "refs S2 k = refs S k"
  proof -
    have "uses_of S2 k (mc_session_list S2 m) = uses_of S k (mc_session_list S m)" for m
    proof (cases "mc_session_list S m = NULL")
      case False
      from sess_okD(4) [OF ok(1) this] have "mc_sessions S (mc_session_list S m) \<noteq> None" by blast
      then have "mc_session_list S m \<noteq> ?p" using sess_okD(3) [OF ok(1), of ?p] by auto
      then show ?thesis using r(4,5) j(3) False by (auto simp: uses_of_def)
    qed (use r(4) in \<open>simp add: uses_of_def\<close>)
    then show ?thesis unfolding refs_def by simp
  qed
  ultimately show ?thesis using a(1) r(1) assms(8) by auto
qed

definition demo_v4_only :: media_context where
  "demo_v4_only = (start_context 0 [hd demo_nodes] 13)\<lparr>mc_session_list := (\<lambda>_. NULL)(5 := 10),
     mc_sessions := [10 \<mapsto> demo_sess 5 11 NULL], mc_server_list_v2 := [(12, \<lparr>g2_ref = 1, g2_sock = 11\<rparr>)],
     mc_socks := [11 \<mapsto> \<lparr>gs_local = [], gs_remote = []\<rparr>]\<rparr>"

lemma demo_v4_refs: "refs demo_v4_only k = (if k = 11 then 1 else if k = NULL then 3 else 0)"
proof -
  let ?S = "start_context 0 [hd demo_nodes] 13"
  have "refs demo_v4_only k + uses_of ?S k (mc_session_list ?S 5) = refs ?S k + uses_of demo_v4_only k (mc_session_list demo_v4_only 5)"
    by (rule refs_slot) (simp_all add: demo_v4_only_def start_context_def uses_of_def)
  moreover have "refs ?S k = 0" by (simp add: refs_def start_context_def uses_of_def)
  ultimately show ?thesis
    by (simp add: demo_v4_only_def start_context_def uses_of_def demo_sess_def demo_path_def path_socks_def)
qed

lemma demo_v4_ok: "gateway_ok demo_v4_only"
proof -
  have f: "mc_server_list_v2 demo_v4_only = [(12, \<lparr>g2_ref = 1, g2_sock = 11\<rparr>)]" "mc_brk demo_v4_only = 13"
    "mc_socks demo_v4_only = [11 \<mapsto> \<lparr>gs_local = [], gs_remote = []\<rparr>]"
    by (simp_all add: demo_v4_only_def start_context_def)
  have "sess_ok demo_v4_only"
    by (simp add: sess_ok_def demo_v4_only_def start_context_def demo_sess_def demo_path_def teids_ok_def)
  moreover have "counted (refs demo_v4_only) demo_v4_only"
    by (rule countedI) (auto simp: demo_v4_refs f)
  ultimately show ?thesis by (simp add: gateway_ok_iff)
qed

lemma media_stale_socket_witness:
  "\<exists>S1 p S2. media_add_media_sig_sess demo_v4_only (demo_sess 99 5 11) 7 = Some (S1, p) \<and>
     media_remove_media_sig_sess S1 p = Some (S2, AGC_STATUS_SUCCESS) \<and> mc_socks S2 11 = None \<and> refs S2 11 = 1"
proof -
  have "media_gtp_node_n3_v4_first demo_v4_only \<noteq> None" "media_gtp_node_n3_v6_first demo_v4_only = None"
    "media_gtp_node_n3_upf_v6_first demo_v4_only = None" "mc_session_list demo_v4_only 1 = NULL"
    by (simp_all add: media_gtp_node_n3_v4_first_def media_gtp_node_n3_v6_first_def media_gtp_node_n3_upf_v6_first_def
        first_node_def demo_v4_only_def start_context_def demo_nodes_def MEDIA_CFG_GTP_IPV4_def MEDIA_CFG_GTP_IPV6_def)
  from media_stale_socket [OF demo_v4_ok this(1,2,3) _ _ this(4), of 11 "demo_sess 99 5 11" 7]
  show ?thesis by (auto simp: demo_v4_refs demo_sess_def demo_path_def)
qed

end
