(* ===== verification/Gtp_Path.thy ===== *)
theory Gtp_Path
  imports Media_Context
begin

text \<open>
  The packets of the media gateway (media_gtp_path.c, media_tun_path.c): what arrives from a gNB or a
  UPF is forwarded through the tunnels of its session or, for addresses of the local break out, goes
  without its GTP header to the tun device; what the tun device delivers goes to the gNB of the user.

  Packets are byte strings; a receive buffer has its full size, with the received bytes at its start.
  Reading or writing outside a buffer is \<^term>\<open>None\<close>. The operating system is a parameter: \<open>wr\<close> says
  whether a write to a socket, \<open>tun_ok\<close> whether a write to the tun device succeeds; \<open>junk\<close> is what a
  local buffer contains before it is written. What is sent is part of the result.
\<close>

section \<open>Headers\<close>

abbreviation MAX_GTP_BUFFER :: nat where
  "MAX_GTP_BUFFER \<equiv> 1500"

abbreviation MAX_GTP_MTU :: nat where
  "MAX_GTP_MTU \<equiv> 1600"

definition GTPV1U_HEADER_LEN :: nat where
  "GTPV1U_HEADER_LEN = 8"

definition GTPV2C_HEADER_LEN :: nat where
  "GTPV2C_HEADER_LEN = 12"

definition GTP_EXT_HEADER_LEN_UNIT :: nat where
  "GTP_EXT_HEADER_LEN_UNIT = 4"

definition GTPU_MSGTYPE_ECHO_REQ :: nat where
  "GTPU_MSGTYPE_ECHO_REQ = 1"

definition GTPU_MSGTYPE_ECHO_RSP :: nat where
  "GTPU_MSGTYPE_ECHO_RSP = 2"

definition GTPU_MSGTYPE_END_MARKER :: nat where
  "GTPU_MSGTYPE_END_MARKER = 254"

definition GTPU_MSGTYPE_GPDU :: nat where
  "GTPU_MSGTYPE_GPDU = 255"

definition GTPU_FLAGS_DEFAULT_PDU :: nat where
  "GTPU_FLAGS_DEFAULT_PDU = 0x34"

definition GTPU_FLAGS_NULL_NEXT_EXTENSION :: nat where
  "GTPU_FLAGS_NULL_NEXT_EXTENSION = 0x30"

definition GTPU_NEXT_EXT_HEAD_TYPE :: nat where
  "GTPU_NEXT_EXT_HEAD_TYPE = 0x85"

text \<open>The flag bits: \<open>GTPU_FLAGS_PN\<close> is bit 0, \<open>GTPU_FLAGS_S\<close> bit 1, \<open>GTPU_FLAGS_E\<close> bit 2.\<close>

definition flag_PN :: "nat \<Rightarrow> bool" where
  "flag_PN f = bit f 0"

definition flag_S :: "nat \<Rightarrow> bool" where
  "flag_S f = bit f 1"

definition flag_E :: "nat \<Rightarrow> bool" where
  "flag_E f = bit f 2"

definition byte_at :: "string \<Rightarrow> nat \<Rightarrow> nat option" where
  "byte_at buf i = (if i < length buf then Some (of_char (buf ! i)) else None)"

definition sub_bytes :: "string \<Rightarrow> nat \<Rightarrow> nat \<Rightarrow> string option" where
  "sub_bytes buf off n = (if off + n \<le> length buf then Some (take n (drop off buf)) else None)"

text \<open>Network byte order.\<close>

fun be_bytes :: "nat \<Rightarrow> nat \<Rightarrow> string" where
  "be_bytes 0 v = []"
| "be_bytes (Suc n) v = be_bytes n (v div 256) @ [char_of (v mod 256)]"

definition be_val :: "string \<Rightarrow> nat" where
  "be_val bs = foldl (\<lambda>a c. 256 * a + of_char c) 0 bs"

record gtp_header =
  gh_flags :: nat
  gh_type :: nat
  gh_length :: nat
  gh_teid :: nat

definition get_header :: "string \<Rightarrow> gtp_header option" where
  "get_header buf = do {
     f \<leftarrow> byte_at buf 0; t \<leftarrow> byte_at buf 1; l \<leftarrow> sub_bytes buf 2 2; i \<leftarrow> sub_bytes buf 4 4;
     Some \<lparr>gh_flags = f, gh_type = t, gh_length = be_val l, gh_teid = be_val i\<rparr> }"

definition header_bytes :: "gtp_header \<Rightarrow> string" where
  "header_bytes h = char_of (gh_flags h) # char_of (gh_type h) # be_bytes 2 (gh_length h) @ be_bytes 4 (gh_teid h)"

definition set_teid :: "string \<Rightarrow> nat \<Rightarrow> string option" where
  "set_teid buf teid = copy_at buf 4 (be_bytes 4 teid)"

text \<open>The source and destination of the IP packet at an offset; none when its version is neither 4 nor 6.\<close>

definition ip_addrs :: "string \<Rightarrow> nat \<Rightarrow> (string \<times> string) option option" where
  "ip_addrs buf off = do {
     v \<leftarrow> byte_at buf off;
     if v div 16 = 4 then do { s \<leftarrow> sub_bytes buf (off + 12) 4; d \<leftarrow> sub_bytes buf (off + 16) 4; Some (Some (s, d)) }
     else if v div 16 = 6 then do { s \<leftarrow> sub_bytes buf (off + 8) 16; d \<leftarrow> sub_bytes buf (off + 24) 16; Some (Some (s, d)) }
     else Some None }"

section \<open>Sending\<close>

datatype effect = Sent ptr string | Tun string

type_synonym os_write = "ptr \<Rightarrow> string \<Rightarrow> bool"

definition agc_gtp_add_message :: "os_write \<Rightarrow> media_context \<Rightarrow> ptr \<Rightarrow> string \<Rightarrow> nat \<Rightarrow> (effect list \<times> agc_status) option" where
  "agc_gtp_add_message wr S sock buf len =
     (if sock = NULL then Some ([], AGC_STATUS_FALSE)
      else do {
        k \<leftarrow> mc_socks S sock;
        d \<leftarrow> sub_bytes buf 0 len;
        if wr sock d then Some ([Sent sock d], AGC_STATUS_SUCCESS) else Some ([], AGC_STATUS_FALSE) })"

definition media_gtp_send_n3_end_mark :: "os_write \<Rightarrow> media_context \<Rightarrow> ptr \<Rightarrow> effect list option" where
  "media_gtp_send_n3_end_mark wr S p =
     (if p = NULL then Some []
      else do {
        s \<leftarrow> mc_sessions S p;
        let mark = (\<lambda>teid. header_bytes \<lparr>gh_flags = GTPU_FLAGS_NULL_NEXT_EXTENSION, gh_type = GTPU_MSGTYPE_END_MARKER,
          gh_length = 0, gh_teid = teid\<rparr>);
        if gp_remote_teid (ss_gnb s) \<noteq> 0
        then map_option fst (agc_gtp_add_message wr S (gp_sock (ss_gnb s)) (mark (gp_remote_teid (ss_gnb s))) GTPV1U_HEADER_LEN)
        else if gp_remote_teid (ss_gnbv6 s) \<noteq> 0
        then map_option fst (agc_gtp_add_message wr S (gp_sock (ss_gnbv6 s)) (mark (gp_remote_teid (ss_gnbv6 s))) GTPV1U_HEADER_LEN)
        else Some [] })"

section \<open>From the tunnels\<close>

definition gtp_header_len :: "string \<Rightarrow> nat option" where
  "gtp_header_len buf = do {
     f \<leftarrow> byte_at buf 0;
     if flag_E f then map_option (\<lambda>b. GTPV2C_HEADER_LEN + b * GTP_EXT_HEADER_LEN_UNIT) (byte_at buf GTPV2C_HEADER_LEN)
     else Some GTPV2C_HEADER_LEN }"

text \<open>
  The first packet of a user sets the flow identifier of the session and enters its address into the
  table. The key of the entry is a pointer to the copy of the address in the session, so a lookup finds
  the entry only while that copy still is the address it was entered with (\<open>media_tun_path_recv_cb\<close>).
\<close>

definition note_user :: "media_context \<Rightarrow> ptr \<Rightarrow> string \<Rightarrow> string \<Rightarrow> (media_context \<times> bool) option" where
  "note_user S p buf buf_send = do {
     s \<leftarrow> mc_sessions S p;
     if ss_qos_flow_id s = 0 then do {
       q \<leftarrow> byte_at buf 14;
       S \<leftarrow> upd_sess S p (\<lambda>s. s\<lparr>ss_qos_flow_id := q\<rparr>);
       a \<leftarrow> ip_addrs buf_send 0;
       case a of
         None \<Rightarrow> Some (S, False)
       | Some (src, _) \<Rightarrow> do {
           S \<leftarrow> upd_sess S p (\<lambda>s. s\<lparr>ss_ue_addr := overwrite (ss_ue_addr s) (length src) src\<rparr>);
           Some (S\<lparr>mc_ue_ip_table := (mc_ue_ip_table S)(src \<mapsto> p)\<rparr>, True) } }
     else Some (S, True) }"

text \<open>A packet shorter than its headers makes the length of the copy negative.\<close>

definition media_gtp_packet_filter :: "(string \<Rightarrow> bool) \<Rightarrow> string \<Rightarrow> media_context \<Rightarrow> ptr \<Rightarrow> string \<Rightarrow> nat \<Rightarrow>
    (media_context \<times> effect list \<times> agc_status) option" where
  "media_gtp_packet_filter tun_ok junk S p buf len =
     (if p = NULL then Some (S, [], AGC_STATUS_FALSE)
      else do {
        hl \<leftarrow> gtp_header_len buf;
        a \<leftarrow> ip_addrs buf hl;
        case a of
          None \<Rightarrow> Some (S, [], AGC_STATUS_FALSE)
        | Some (src, dst) \<Rightarrow> do {
            ensure (hl \<le> len);
            packet \<leftarrow> sub_bytes buf hl (len - hl);
            let buf_send = packet @ drop (length packet) junk;
            if media_find_lbo_node_by_key S dst = None then Some (S, [], AGC_STATUS_FALSE)
            else do {
              (S, ok) \<leftarrow> note_user S p buf buf_send;
              if \<not> ok then Some (S, [], AGC_STATUS_FALSE)
              else if tun_ok packet then Some (S, [Tun packet], AGC_STATUS_SUCCESS)
              else Some (S, [], AGC_STATUS_FALSE) } } })"

definition forward :: "os_write \<Rightarrow> media_context \<Rightarrow> gtp_path \<Rightarrow> string \<Rightarrow> nat \<Rightarrow> (media_context \<times> effect list) option" where
  "forward wr S g buf len = do {
     buf \<leftarrow> set_teid buf (gp_remote_teid g);
     (out, st) \<leftarrow> agc_gtp_add_message wr S (gp_sock g) buf len;
     Some (S, out) }"

definition break_out :: "os_write \<Rightarrow> (string \<Rightarrow> bool) \<Rightarrow> string \<Rightarrow> media_context \<Rightarrow> ptr \<Rightarrow> gtp_path \<Rightarrow> string \<Rightarrow> nat \<Rightarrow>
    (media_context \<times> effect list) option" where
  "break_out wr tun_ok junk S p g buf len = do {
     (S, out, st) \<leftarrow> media_gtp_packet_filter tun_ok junk S p buf len;
     if st = AGC_STATUS_SUCCESS then Some (S, out) else forward wr S g buf len }"

text \<open>
  The answer to an echo request. It is built in an uncleared buffer, the sequence numbers are copied
  from that buffer itself, and only \<open>length\<close> bytes of it are sent.
\<close>

definition echo_tail :: "nat \<Rightarrow> string \<Rightarrow> string" where
  "echo_tail flags junk =
     (if flag_PN flags \<or> flag_S flags then
        (if flag_S flags then [junk ! 8, junk ! 9] else [NUL, NUL]) @
        (if flag_PN flags then [junk ! 10] else [NUL]) @ [NUL]
      else []) @ [char_of (14::nat), NUL]"

definition media_gtp_path_handle_echo_req :: "os_write \<Rightarrow> string \<Rightarrow> media_context \<Rightarrow> ptr \<Rightarrow> string \<Rightarrow> effect list option" where
  "media_gtp_path_handle_echo_req wr junk S sock buf = do {
     h \<leftarrow> get_header buf;
     if gh_flags h div 32 \<noteq> 1 then Some []
     else if gh_type h \<noteq> GTPU_MSGTYPE_ECHO_REQ then Some []
     else do {
       let f = gh_flags h;
       let tl = echo_tail f junk;
       let resp = header_bytes \<lparr>gh_flags = 0x30 + (if flag_S f then 2 else 0) + (if flag_PN f then 1 else 0),
         gh_type = GTPU_MSGTYPE_ECHO_RSP, gh_length = length tl, gh_teid = 0\<rparr> @ tl;
       map_option fst (agc_gtp_add_message wr S sock resp (length tl)) } }"

definition media_gtp_path_recv_cb :: "os_write \<Rightarrow> (string \<Rightarrow> bool) \<Rightarrow> string \<Rightarrow> media_context \<Rightarrow> ptr \<Rightarrow> string option \<Rightarrow> int \<Rightarrow>
    (media_context \<times> effect list) option" where
  "media_gtp_path_recv_cb wr tun_ok junk S sock buf len = (case buf of
     None \<Rightarrow> Some (S, [])
   | Some buf \<Rightarrow>
       if len < 0 then Some (S, [])
       else do {
         let n = nat len;
         h \<leftarrow> get_header buf;
         if gh_type h = GTPU_MSGTYPE_ECHO_REQ then
           map_option (\<lambda>out. (S, out)) (media_gtp_path_handle_echo_req wr junk S sock buf)
         else if gh_type h = GTPU_MSGTYPE_GPDU \<or> gh_type h = GTPU_MSGTYPE_END_MARKER then do {
           let teid = gh_teid h;
           let p = media_find_media_sig_sess_by_teid S teid;
           if p = NULL then Some (S, [])
           else do {
             s \<leftarrow> mc_sessions S p;
             if teid = gp_local_teid (ss_gnb s) then break_out wr tun_ok junk S p (ss_upf s) buf n
             else if teid = gp_local_teid (ss_upf s) then forward wr S (ss_gnb s) buf n
             else if teid = gp_local_teid (ss_gnbv6 s) then break_out wr tun_ok junk S p (ss_upfv6 s) buf n
             else if teid = gp_local_teid (ss_upfv6 s) then forward wr S (ss_gnbv6 s) buf n
             else Some (S, []) } }
         else Some (S, []) })"

section \<open>From the tun device\<close>

text \<open>\<open>g\<close> is the static buffer the packets are built in.\<close>

definition media_tun_send_gtp_to_ue :: "os_write \<Rightarrow> media_context \<Rightarrow> ptr \<Rightarrow> string \<Rightarrow> string \<Rightarrow> nat \<Rightarrow> (string \<times> effect list) option" where
  "media_tun_send_gtp_to_ue wr S p g buf len =
     (if p = NULL \<or> MAX_GTP_MTU < len then Some (g, [])
      else do {
        s \<leftarrow> mc_sessions S p;
        g \<leftarrow> copy_at g 0 (header_bytes \<lparr>gh_flags = GTPU_FLAGS_DEFAULT_PDU, gh_type = GTPU_MSGTYPE_GPDU,
          gh_length = len + GTPV1U_HEADER_LEN, gh_teid = gp_remote_teid (ss_gnb s)\<rparr>);
        g \<leftarrow> copy_at g 11 [char_of GTPU_NEXT_EXT_HEAD_TYPE, char_of (1::nat), NUL, char_of (ss_qos_flow_id s), NUL];
        let offset = GTPV2C_HEADER_LEN + GTP_EXT_HEADER_LEN_UNIT;
        packet \<leftarrow> sub_bytes buf 0 len;
        g \<leftarrow> copy_at g offset packet;
        if gp_remote_teid (ss_gnb s) \<noteq> 0 then do {
          (out, st) \<leftarrow> agc_gtp_add_message wr S (gp_sock (ss_gnb s)) g (len + offset);
          Some (g, out) }
        else if gp_remote_teid (ss_gnbv6 s) \<noteq> 0 then do {
          g \<leftarrow> set_teid g (gp_remote_teid (ss_gnbv6 s));
          (out, st) \<leftarrow> agc_gtp_add_message wr S (gp_sock (ss_gnbv6 s)) g (len + offset);
          Some (g, out) }
        else Some (g, []) })"

definition media_tun_path_recv_cb :: "os_write \<Rightarrow> media_context \<Rightarrow> string \<Rightarrow> string \<Rightarrow> nat \<Rightarrow> (string \<times> effect list) option" where
  "media_tun_path_recv_cb wr S g buf len = do {
     a \<leftarrow> ip_addrs buf 0;
     case a of
       None \<Rightarrow> Some (g, [])
     | Some (src, dst) \<Rightarrow>
         (case mc_ue_ip_table S dst of
            None \<Rightarrow> Some (g, [])
          | Some p \<Rightarrow> do {
              s \<leftarrow> mc_sessions S p;
              if take (length dst) (ss_ue_addr s) = dst then media_tun_send_gtp_to_ue wr S p g buf len
              else Some (g, []) }) }"

section \<open>Bytes\<close>

lemma be_bytes_length [simp]: "length (be_bytes n v) = n"
  by (induction n arbitrary: v) simp_all

lemma be_val_snoc: "be_val (bs @ [c]) = 256 * be_val bs + of_char c"
  by (simp add: be_val_def)

lemma be_val_bytes: "v < 256 ^ n \<Longrightarrow> be_val (be_bytes n v) = v"
proof (induction n arbitrary: v)
  case 0
  then show ?case by (simp add: be_val_def)
next
  case (Suc n)
  have "v div 256 < 256 ^ n" using Suc.prems by (simp add: less_mult_imp_div_less mult.commute)
  from Suc.IH [OF this] show ?case by (simp add: be_val_snoc)
qed

lemma header_bytes_length [simp]: "length (header_bytes h) = 8"
  by (simp add: header_bytes_def)

lemma get_header_parts:
  assumes "length x = 4" "length w = 4"
  shows "get_header (x @ w @ r) = Some \<lparr>gh_flags = of_char (x ! 0), gh_type = of_char (x ! 1),
     gh_length = be_val (drop 2 x), gh_teid = be_val w\<rparr>"
  using assms by (simp add: get_header_def byte_at_def sub_bytes_def nth_append)

text \<open>Headers in range are read back.\<close>

lemma header_roundtrip:
  assumes "gh_flags h < 256" "gh_type h < 256" "gh_length h < 65536" "gh_teid h < 2 ^ 32"
  shows "get_header (header_bytes h @ r) = Some h"
proof -
  let ?x = "char_of (gh_flags h) # char_of (gh_type h) # be_bytes 2 (gh_length h)"
  have "get_header (?x @ be_bytes 4 (gh_teid h) @ r) = Some \<lparr>gh_flags = of_char (?x ! 0), gh_type = of_char (?x ! 1),
     gh_length = be_val (drop 2 ?x), gh_teid = be_val (be_bytes 4 (gh_teid h))\<rparr>"
    by (rule get_header_parts) simp_all
  also have "be_val (be_bytes 4 (gh_teid h)) = gh_teid h" by (rule be_val_bytes) (use assms(4) in simp)
  also have "be_val (drop 2 ?x) = gh_length h" using be_val_bytes [of "gh_length h" 2] assms(3) by simp
  finally show ?thesis using assms(1,2) by (simp add: header_bytes_def)
qed

lemma set_teid_header:
  assumes "8 \<le> len" "len \<le> length buf" "get_header buf = Some h" "v < 2 ^ 32"
  shows "\<exists>buf' d. set_teid buf v = Some buf' \<and> sub_bytes buf' 0 len = Some d \<and> length d = len \<and>
     get_header d = Some (h\<lparr>gh_teid := v\<rparr>) \<and> drop 8 d = drop 8 (take len buf)"
proof -
  define x y z where "x = take 4 buf" and "y = take 4 (drop 4 buf)" and "z = drop 8 buf"
  have l: "length x = 4" "length y = 4" "len - 8 \<le> length z" using assms(1,2) by (simp_all add: x_def y_def z_def)
  have buf: "buf = x @ y @ z"
    unfolding x_def y_def z_def by (metis append_take_drop_id drop_drop numeral_Bit0)
  have h: "h = \<lparr>gh_flags = of_char (x ! 0), gh_type = of_char (x ! 1), gh_length = be_val (drop 2 x), gh_teid = be_val y\<rparr>"
    using get_header_parts [OF l(1,2), of z] assms(3) buf by simp
  let ?b = "x @ be_bytes 4 v @ z" and ?d = "x @ be_bytes 4 v @ take (len - 8) z"
  have "set_teid buf v = Some ?b" using l by (simp add: set_teid_def copy_at_def buf)
  moreover have "sub_bytes ?b 0 len = Some ?d" using l assms(1) by (simp add: sub_bytes_def)
  moreover have "get_header ?d = Some (h\<lparr>gh_teid := v\<rparr>)"
    using get_header_parts [OF l(1) be_bytes_length, of v "take (len - 8) z"] be_val_bytes [of v 4] assms(4) h by simp
  moreover have "length ?d = len" using l assms(1) by simp
  moreover have "drop 8 ?d = drop 8 (take len buf)" using l assms(1) by (simp add: buf)
  ultimately show ?thesis by blast
qed

lemma forward_sends:
  assumes "8 \<le> len" "len \<le> length buf" "get_header buf = Some h" "gp_remote_teid g < 2 ^ 32"
    and "gp_sock g \<noteq> NULL" "mc_socks S (gp_sock g) \<noteq> None" "\<And>d. wr (gp_sock g) d"
  shows "\<exists>d. forward wr S g buf len = Some (S, [Sent (gp_sock g) d]) \<and> length d = len \<and>
     get_header d = Some (h\<lparr>gh_teid := gp_remote_teid g\<rparr>) \<and> drop 8 d = drop 8 (take len buf)"
  using set_teid_header [OF assms(1-4)] assms(5-7)
  by (auto simp: forward_def agc_gtp_add_message_def)

lemma sub_bytes_Some: "off + n \<le> length buf \<Longrightarrow> sub_bytes buf off n = Some (take n (drop off buf))"
  by (simp add: sub_bytes_def)

text \<open>A packet with a header that it is long enough for passes the filter when no address is broken out.\<close>

lemma header_len_bound:
  assumes "gtp_header_len buf = Some hl"
  shows "12 \<le> hl \<and> hl \<le> 1032"
proof -
  have "hl = 12 \<or> (\<exists>c :: char. hl = 12 + of_char c * 4)"
    using assms by (auto simp: gtp_header_len_def byte_at_def GTPV2C_HEADER_LEN_def GTP_EXT_HEADER_LEN_UNIT_def
        split: if_splits Option.bind_splits)
  then show ?thesis
  proof
    assume "\<exists>c :: char. hl = 12 + of_char c * 4"
    then obtain c :: char where "hl = 12 + of_char c * 4" by blast
    moreover have "of_char c < (256 :: nat)" by (rule nat_of_char_less_256)
    ultimately show ?thesis by linarith
  qed simp
qed

lemma ip_addrs_defined: "off + 40 \<le> length buf \<Longrightarrow> ip_addrs buf off \<noteq> None"
  by (simp add: ip_addrs_def byte_at_def sub_bytes_def)

lemma ip_addrs_append: "ip_addrs w off = Some a \<Longrightarrow> ip_addrs (w @ r) off = Some a"
  by (auto simp: ip_addrs_def byte_at_def sub_bytes_def nth_append split: if_splits Option.bind_splits)

lemma ip_addrs_offset: "ip_addrs (x @ w) (length x + off) = ip_addrs w off"
  by (simp add: ip_addrs_def byte_at_def sub_bytes_def nth_append)

text \<open>What the filter does with a packet whose destination is not broken out: it leaves it to the caller,
  unless the packet is shorter than the headers and the byte behind them looks like an IP packet.\<close>

definition not_broken_out :: "media_context \<Rightarrow> string \<Rightarrow> nat \<Rightarrow> bool" where
  "not_broken_out S buf hl \<longleftrightarrow> (case ip_addrs buf hl of
     Some (Some (src, dst)) \<Rightarrow> media_find_lbo_node_by_key S dst = None | _ \<Rightarrow> True)"

lemma filter_passes:
  assumes "not_broken_out S buf hl" "length buf = MAX_GTP_BUFFER" "gtp_header_len buf = Some hl" "len \<le> MAX_GTP_BUFFER"
  shows "media_gtp_packet_filter tun_ok junk S p buf len =
    (if p \<noteq> NULL \<and> len < hl \<and> ip_addrs buf hl \<noteq> Some None then None else Some (S, [], AGC_STATUS_FALSE))"
proof -
  have "hl + 40 \<le> length buf" using header_len_bound [OF assms(3)] assms(2) by simp
  then obtain a where "ip_addrs buf hl = Some a" using ip_addrs_defined by blast
  then show ?thesis using assms
    by (auto simp: media_gtp_packet_filter_def not_broken_out_def sub_bytes_def split: option.split)
qed

text \<open>Where a packet that arrives for a tunnel leaves, and the tunnels from a gNB.\<close>

definition tunnel_ends :: "((sig_sess \<Rightarrow> gtp_path) \<times> (sig_sess \<Rightarrow> gtp_path)) set" where
  "tunnel_ends = {(ss_gnb, ss_upf), (ss_upf, ss_gnb), (ss_gnbv6, ss_upfv6), (ss_upfv6, ss_gnbv6)}"

lemma find_by_local_teid:
  assumes "sess_ok S" "mc_session_list S i = p" "p \<noteq> NULL" "mc_sessions S p = Some s"
  shows "teids_ok s" "t \<in> local_teids s \<Longrightarrow> media_find_media_sig_sess_by_teid S t = p"
proof -
  have "0 < i \<and> i < MAX_MEDIA_SESSIONS \<and> (\<exists>s. mc_sessions S (mc_session_list S i) = Some s \<and> ss_sess_id s = i \<and> teids_ok s)"
    by (rule sess_okD(4) [OF assms(1)]) (use assms(2,3) in simp)
  then have s: "i < MAX_MEDIA_SESSIONS" "ss_sess_id s = i" "teids_ok s" using assms(2,4) by auto
  show "teids_ok s" by (rule s(3))
  assume "t \<in> local_teids s"
  then have "t div 4 = i" using s by (auto simp: local_teids_def teids_ok_def)
  then show "media_find_media_sig_sess_by_teid S t = p"
    using s(1) assms(2) by (simp add: media_find_media_sig_sess_by_teid_def Let_def)
qed

definition uplinks :: "((sig_sess \<Rightarrow> gtp_path) \<times> (sig_sess \<Rightarrow> gtp_path)) set" where
  "uplinks = {(ss_gnb, ss_upf), (ss_gnbv6, ss_upfv6)}"

lemma tunnel_kinds:
  fixes f g :: "sig_sess \<Rightarrow> gtp_path"
  shows "f \<in> {ss_upf, ss_upfv6} \<Longrightarrow> g \<in> {ss_gnb, ss_gnbv6} \<Longrightarrow> f \<noteq> g"
proof -
  obtain a b :: gtp_path where ab: "a \<noteq> b"
    using that [of "undefined\<lparr>gp_sock := 0\<rparr>" "undefined\<lparr>gp_sock := 1\<rparr>"] by (metis gtp_path.select_convs gtp_path.simps zero_neq_one)
  define x where "x = (undefined :: sig_sess)\<lparr>ss_upf := a, ss_upfv6 := a, ss_gnb := b, ss_gnbv6 := b\<rparr>"
  have x: "ss_upf x = a" "ss_upfv6 x = a" "ss_gnb x = b" "ss_gnbv6 x = b" by (simp_all add: x_def)
  assume "f \<in> {ss_upf, ss_upfv6}" "g \<in> {ss_gnb, ss_gnbv6}"
  then have "f x = a" "g x = b" using x by auto
  with ab show "f \<noteq> g" by auto
qed

lemma not_broken_out_empty: "mc_lbo_ip_table S = (\<lambda>_. None) \<Longrightarrow> not_broken_out S buf hl"
  by (simp add: not_broken_out_def media_find_lbo_node_by_key_def split: option.split)

text \<open>C11. A packet or end marker of any length from the eight bytes of a header on that arrives for one of
  the four tunnels of a session leaves through the tunnel at the other end, with nothing but its tunnel
  identifier changed to the remote one, and the context does not change; for the two tunnels from a gNB
  this holds when the destination of the packet is not broken out, and with one exception: a packet
  from a gNB that is shorter than the 12 bytes (and extension headers) the filter takes for its headers
  makes the gateway crash, unless the byte left in the buffer behind these headers is not that of an IP
  packet. An end marker is such a packet.\<close>

theorem gtp_forwards:
  assumes "get_header buf = Some h" "gh_type h = GTPU_MSGTYPE_GPDU \<or> gh_type h = GTPU_MSGTYPE_END_MARKER"
    and "length buf = MAX_GTP_BUFFER" "gtp_header_len buf = Some hl" "8 \<le> len" "len \<le> MAX_GTP_BUFFER"
    and "sess_ok S" "mc_session_list S i = p" "p \<noteq> NULL" "mc_sessions S p = Some s"
    and "(inp, out) \<in> tunnel_ends" "gh_teid h = gp_local_teid (inp s)" "(inp, out) \<in> uplinks \<Longrightarrow> not_broken_out S buf hl"
    and "gp_remote_teid (out s) < 2 ^ 32" "gp_sock (out s) \<noteq> NULL" "mc_socks S (gp_sock (out s)) \<noteq> None" "\<And>d. wr (gp_sock (out s)) d"
  shows "if (inp, out) \<in> uplinks \<and> len < hl \<and> ip_addrs buf hl \<noteq> Some None
    then media_gtp_path_recv_cb wr tun_ok junk S sock (Some buf) (int len) = None
    else \<exists>d. media_gtp_path_recv_cb wr tun_ok junk S sock (Some buf) (int len) = Some (S, [Sent (gp_sock (out s)) d]) \<and>
     length d = len \<and> get_header d = Some (h\<lparr>gh_teid := gp_remote_teid (out s)\<rparr>) \<and> drop 8 d = drop 8 (take len buf)"
proof -
  have "len \<le> length buf" using assms(3,6) by simp
  from forward_sends [OF assms(5) this assms(1,14,15,16), of wr] assms(17) obtain d where
    d: "forward wr S (out s) buf len = Some (S, [Sent (gp_sock (out s)) d])" "length d = len"
      "get_header d = Some (h\<lparr>gh_teid := gp_remote_teid (out s)\<rparr>)" "drop 8 d = drop 8 (take len buf)" by blast
  let ?crash = "len < hl \<and> ip_addrs buf hl \<noteq> Some None"
  have b: "break_out wr tun_ok junk S p (out s) buf len = (if ?crash then None else forward wr S (out s) buf len)"
    if "(inp, out) \<in> uplinks"
    using filter_passes [OF assms(13) [OF that] assms(3,4,6), of tun_ok junk p] assms(9) by (simp add: break_out_def)
  note t = find_by_local_teid [OF assms(7-10)]
  have "gh_teid h \<in> local_teids s" using assms(11,12) by (auto simp: tunnel_ends_def local_teids_def)
  note f = t(2) [OF this]
  have ty: "gh_type h \<noteq> GTPU_MSGTYPE_ECHO_REQ"
    using assms(2) by (auto simp: GTPU_MSGTYPE_ECHO_REQ_def GTPU_MSGTYPE_GPDU_def GTPU_MSGTYPE_END_MARKER_def)
  have "media_gtp_path_recv_cb wr tun_ok junk S sock (Some buf) (int len) =
    (if gh_teid h = gp_local_teid (ss_gnb s) then break_out wr tun_ok junk S p (ss_upf s) buf len
     else if gh_teid h = gp_local_teid (ss_upf s) then forward wr S (ss_gnb s) buf len
     else if gh_teid h = gp_local_teid (ss_gnbv6 s) then break_out wr tun_ok junk S p (ss_upfv6 s) buf len
     else if gh_teid h = gp_local_teid (ss_upfv6 s) then forward wr S (ss_gnbv6 s) buf len
     else Some (S, []))"
    using assms(1,2,9,10) f ty
    by (simp add: media_gtp_path_recv_cb_def Let_def split del: if_split cong: if_weak_cong) (simp only: f)
  also have "\<dots> = (if (inp, out) \<in> uplinks then break_out wr tun_ok junk S p (out s) buf len else forward wr S (out s) buf len)"
  proof -
    have up: "(ss_gnb, ss_upf) \<in> uplinks" "(ss_gnbv6, ss_upfv6) \<in> uplinks" by (simp_all add: uplinks_def)
    have down: "(f, g) \<notin> uplinks" if "f \<in> {ss_upf, ss_upfv6}" for f g
      using tunnel_kinds [OF that, of ss_gnb] tunnel_kinds [OF that, of ss_gnbv6] by (simp add: uplinks_def)
    consider "inp = ss_gnb" "out = ss_upf" | "inp = ss_upf" "out = ss_gnb"
      | "inp = ss_gnbv6" "out = ss_upfv6" | "inp = ss_upfv6" "out = ss_gnbv6"
      using assms(11) by (auto simp: tunnel_ends_def)
    then show ?thesis using assms(12) t(1) up down [of ss_upf] down [of ss_upfv6] unfolding teids_ok_def
      by cases simp_all
  qed
  finally have r: "media_gtp_path_recv_cb wr tun_ok junk S sock (Some buf) (int len) =
    (if (inp, out) \<in> uplinks then break_out wr tun_ok junk S p (out s) buf len else forward wr S (out s) buf len)" .
  show ?thesis using b d unfolding r by (cases "(inp, out) \<in> uplinks") auto
qed

definition demo_out :: gtp_path where
  "demo_out = (demo_path 21 11)\<lparr>gp_remote_teid := 305419896\<rparr>"

definition demo_media :: media_context where
  "demo_media = demo_v4_only\<lparr>mc_sessions := [10 \<mapsto> (demo_sess 5 11 NULL)\<lparr>ss_upf := demo_out\<rparr>]\<rparr>"

definition demo_packet :: string where
  "demo_packet = header_bytes \<lparr>gh_flags = 0x30, gh_type = 255, gh_length = 20, gh_teid = 20\<rparr> @ replicate 1492 (CHR ''E'')"

lemma demo_media_ok: "sess_ok demo_media"
  by (simp add: sess_ok_def demo_media_def demo_v4_only_def start_context_def demo_sess_def demo_path_def demo_out_def teids_ok_def)

definition demo_mark :: string where
  "demo_mark = header_bytes \<lparr>gh_flags = 0x30, gh_type = 254, gh_length = 0, gh_teid = 20\<rparr> @ replicate 1492 (CHR ''E'')"

lemma demo_header_len: "gtp_header_len (header_bytes (h\<lparr>gh_flags := 0x30\<rparr>) @ replicate 1492 c) = Some 12"
  by (simp add: gtp_header_len_def byte_at_def header_bytes_def flag_E_def GTPV2C_HEADER_LEN_def bit_iff_odd)

theorem gtp_forwards_witness:
  "(\<exists>d. media_gtp_path_recv_cb (\<lambda>_ _. True) (\<lambda>_. True) [] demo_media 99 (Some demo_packet) 60 = Some (demo_media, [Sent 11 d]) \<and>
     length d = 60 \<and> get_header d = Some \<lparr>gh_flags = 0x30, gh_type = 255, gh_length = 20, gh_teid = 305419896\<rparr>) \<and>
   media_gtp_path_recv_cb (\<lambda>_ _. True) (\<lambda>_. True) [] demo_media 99 (Some demo_mark) 8 = None"
proof -
  let ?h = "\<lparr>gh_flags = 0x30, gh_type = 255, gh_length = 20, gh_teid = 20\<rparr>"
  let ?m = "\<lparr>gh_flags = 0x30, gh_type = 254, gh_length = 0, gh_teid = 20\<rparr>"
  have h: "get_header demo_packet = Some ?h" "get_header demo_mark = Some ?m"
    unfolding demo_packet_def demo_mark_def by (rule header_roundtrip; simp)+
  have hl: "gtp_header_len demo_packet = Some 12" "gtp_header_len demo_mark = Some 12"
    using demo_header_len [of ?h] demo_header_len [of ?m] by (simp_all add: demo_packet_def demo_mark_def)
  have l: "length demo_packet = MAX_GTP_BUFFER" "length demo_mark = MAX_GTP_BUFFER"
    by (simp_all add: demo_packet_def demo_mark_def)
  have u: "(ss_gnb, ss_upf) \<in> tunnel_ends" "(ss_gnb, ss_upf) \<in> uplinks" by (simp_all add: tunnel_ends_def uplinks_def)
  define s where "s = (demo_sess 5 11 NULL)\<lparr>ss_upf := demo_out\<rparr>"
  have S: "mc_session_list demo_media 5 = 10" "mc_sessions demo_media 10 = Some s" "mc_socks demo_media 11 \<noteq> None"
    by (simp_all add: demo_media_def demo_v4_only_def start_context_def s_def)
  have "mc_lbo_ip_table demo_media = (\<lambda>_. None)" by (simp add: demo_media_def demo_v4_only_def start_context_def)
  note n = not_broken_out_empty [OF this]
  have g: "gp_local_teid (ss_gnb s) = 20" "ss_upf s = demo_out" by (simp_all add: s_def demo_sess_def demo_path_def)
  have o: "gp_remote_teid demo_out = 305419896" "gp_sock demo_out = 11" by (simp_all add: demo_out_def demo_path_def)
  have E: "ip_addrs demo_mark 12 \<noteq> Some None"
    by (auto simp: ip_addrs_def byte_at_def sub_bytes_def demo_mark_def nth_append header_bytes_def)
  have t: "GTPU_MSGTYPE_END_MARKER = 254" "GTPU_MSGTYPE_GPDU = 255"
    by (simp_all add: GTPU_MSGTYPE_END_MARKER_def GTPU_MSGTYPE_GPDU_def)
  note rule = gtp_forwards [where wr = "\<lambda>_ _. True" and tun_ok = "\<lambda>_. True" and junk = "[]" and sock = 99,
      OF _ _ _ _ _ _ demo_media_ok S(1) _ S(2) u(1) _ n]
  show ?thesis
    using rule [OF h(1) _ l(1) hl(1), of 60] rule [OF h(2) _ l(2) hl(2), of 8] g o u(2) S(3) E t by simp blast
qed

section \<open>The local break out\<close>

text \<open>The first packet of a user that is broken out goes to the tun device and makes the user known.\<close>

lemma overwrite_take: "take (length x) (overwrite a (length x) x) = x"
  by (simp add: overwrite_def)

lemma lbo_uplink:
  assumes "get_header buf = Some h" "gh_type h = GTPU_MSGTYPE_GPDU" "gtp_header_len buf = Some hl" "hl \<le> len" "len \<le> length buf"
    and "sess_ok S" "mc_session_list S i = p" "p \<noteq> NULL" "mc_sessions S p = Some s" "gh_teid h = gp_local_teid (ss_gnb s)"
    and "ss_qos_flow_id s = 0" "byte_at buf 14 = Some q"
    and "media_find_lbo_node_by_key S dst \<noteq> None"
    and "ip_addrs (drop hl (take len buf)) 0 = Some (Some (src, dst))" "tun_ok (drop hl (take len buf))"
  shows "\<exists>S'. media_gtp_path_recv_cb wr tun_ok junk S sock (Some buf) (int len) = Some (S', [Tun (drop hl (take len buf))]) \<and>
     mc_sessions S' p = Some (s\<lparr>ss_qos_flow_id := q, ss_ue_addr := overwrite (ss_ue_addr s) (length src) src\<rparr>) \<and>
     mc_ue_ip_table S' src = Some p \<and> mc_socks S' = mc_socks S"
proof -
  let ?pk = "drop hl (take len buf)"
  let ?b = "?pk @ drop (length ?pk) junk"
  have pk: "sub_bytes buf hl (len - hl) = Some ?pk" using assms(4,5) by (simp add: sub_bytes_def drop_take)
  have a: "ip_addrs ?b 0 = Some (Some (src, dst))" by (rule ip_addrs_append [OF assms(14)])
  have "ip_addrs (take hl buf @ ?pk @ drop len buf) (length (take hl buf) + 0) = Some (Some (src, dst))"
    unfolding ip_addrs_offset by (rule ip_addrs_append [OF assms(14)])
  moreover have "take hl buf @ ?pk @ drop len buf = buf"
    using assms(4,5) by (metis append.assoc append_take_drop_id min.absorb1 take_take)
  ultimately have b: "ip_addrs buf hl = Some (Some (src, dst))" using assms(4,5) by simp
  define S1 where "S1 = S\<lparr>mc_sessions := (mc_sessions S)(p \<mapsto> s\<lparr>ss_qos_flow_id := q\<rparr>)\<rparr>"
  define S2 where "S2 = S1\<lparr>mc_sessions := (mc_sessions S1)(p \<mapsto> s\<lparr>ss_qos_flow_id := q,
    ss_ue_addr := overwrite (ss_ue_addr s) (length src) src\<rparr>)\<rparr>"
  define S3 where "S3 = S2\<lparr>mc_ue_ip_table := (mc_ue_ip_table S2)(src \<mapsto> p)\<rparr>"
  have n: "note_user S p buf ?b = Some (S3, True)"
    using assms(9,11,12) a by (simp add: note_user_def upd_sess_def S1_def S2_def S3_def)
  have f: "media_gtp_packet_filter tun_ok junk S p buf len = Some (S3, [Tun ?pk], AGC_STATUS_SUCCESS)"
    using assms(3,4,8,13,15) b pk n by (simp add: media_gtp_packet_filter_def)
  note t = find_by_local_teid [OF assms(6-9)]
  have "gh_teid h \<in> local_teids s" using assms(10) by (simp add: local_teids_def)
  note g = t(2) [OF this]
  have ty: "gh_type h \<noteq> GTPU_MSGTYPE_ECHO_REQ"
    using assms(2) by (simp add: GTPU_MSGTYPE_ECHO_REQ_def GTPU_MSGTYPE_GPDU_def)
  have "media_gtp_path_recv_cb wr tun_ok junk S sock (Some buf) (int len) = break_out wr tun_ok junk S p (ss_upf s) buf len"
    using assms(1,2,8,9,10) ty g by (simp add: media_gtp_path_recv_cb_def Let_def)
  also have "\<dots> = Some (S3, [Tun ?pk])" using f by (simp add: break_out_def)
  finally show ?thesis
    by (intro exI [of _ S3] conjI) (simp_all add: S3_def S2_def S1_def)
qed

text \<open>What the tun device delivers for a known user.\<close>

definition downlink_bytes :: "string \<Rightarrow> sig_sess \<Rightarrow> string \<Rightarrow> string" where
  "downlink_bytes g s packet = header_bytes \<lparr>gh_flags = GTPU_FLAGS_DEFAULT_PDU, gh_type = GTPU_MSGTYPE_GPDU,
     gh_length = length packet + GTPV1U_HEADER_LEN, gh_teid = gp_remote_teid (ss_gnb s)\<rparr> @
     take 3 (drop 8 g) @ [char_of GTPU_NEXT_EXT_HEAD_TYPE, char_of (1::nat), NUL, char_of (ss_qos_flow_id s), NUL] @ packet"

lemma tun_builds:
  assumes "mc_sessions S p = Some s" "p \<noteq> NULL" "length g = MAX_GTP_BUFFER" "n \<le> length buf" "n \<le> MAX_GTP_BUFFER - 16"
    and "gp_remote_teid (ss_gnb s) \<noteq> 0" "gp_sock (ss_gnb s) \<noteq> NULL" "mc_socks S (gp_sock (ss_gnb s)) \<noteq> None"
    and "\<And>d. wr (gp_sock (ss_gnb s)) d"
  shows "\<exists>g'. media_tun_send_gtp_to_ue wr S p g buf n = Some (g', [Sent (gp_sock (ss_gnb s)) (downlink_bytes g s (take n buf))]) \<and>
     length g' = MAX_GTP_BUFFER"
proof -
  define a b c r where "a = take 8 g" and "b = take 3 (drop 8 g)" and "c = take 5 (drop 11 g)" and "r = drop 16 g"
  have l: "length a = 8" "length b = 3" "length c = 5" "length r = 1484" using assms(3) by (simp_all add: a_def b_def c_def r_def)
  have g: "g = a @ b @ c @ r"
  proof -
    have "take 3 (drop 8 g) @ drop 3 (drop 8 g) = drop 8 g" "take 5 (drop 11 g) @ drop 5 (drop 11 g) = drop 11 g"
      by (rule append_take_drop_id)+
    then show ?thesis unfolding a_def b_def c_def r_def by (simp add: append_take_drop_id [of 8 g])
  qed
  let ?h = "header_bytes \<lparr>gh_flags = GTPU_FLAGS_DEFAULT_PDU, gh_type = GTPU_MSGTYPE_GPDU,
     gh_length = n + GTPV1U_HEADER_LEN, gh_teid = gp_remote_teid (ss_gnb s)\<rparr>"
  define e where "e = [char_of GTPU_NEXT_EXT_HEAD_TYPE, char_of (1::nat), NUL, char_of (ss_qos_flow_id s), NUL]"
  have le: "length e = 5" by (simp add: e_def)
  let ?g = "?h @ b @ e @ take n buf @ drop n r"
  have 1: "copy_at g 0 ?h = Some (?h @ b @ c @ r)" using l by (simp add: copy_at_def g)
  have 2: "copy_at (?h @ b @ c @ r) 11 e = Some (?h @ b @ e @ r)"
    using l le by (simp add: copy_at_def)
  have 3: "copy_at (?h @ b @ e @ r) 16 (take n buf) = Some ?g"
    using l le assms(4,5) by (simp add: copy_at_def)
  have d: "downlink_bytes g s (take n buf) = ?h @ b @ e @ take n buf"
    using assms(4) by (simp add: downlink_bytes_def b_def e_def)
  have 4: "sub_bytes ?g 0 (n + 16) = Some (downlink_bytes g s (take n buf))"
    unfolding d using l le assms(4,5) by (simp add: sub_bytes_def)
  have 5: "sub_bytes buf 0 n = Some (take n buf)" using assms(4) by (simp add: sub_bytes_def)
  have "agc_gtp_add_message wr S (gp_sock (ss_gnb s)) ?g (n + 16) =
     Some ([Sent (gp_sock (ss_gnb s)) (downlink_bytes g s (take n buf))], AGC_STATUS_SUCCESS)"
    unfolding agc_gtp_add_message_def 4 using assms(7-9) by auto
  then have "media_tun_send_gtp_to_ue wr S p g buf n = Some (?g, [Sent (gp_sock (ss_gnb s)) (downlink_bytes g s (take n buf))])"
    using assms(1,2,5,6) 1 2 [unfolded e_def] 3 [unfolded e_def] 5
    by (simp add: media_tun_send_gtp_to_ue_def GTPV2C_HEADER_LEN_def GTP_EXT_HEADER_LEN_UNIT_def e_def)
  moreover have "length ?g = MAX_GTP_BUFFER" using l le assms(4,5) by simp
  ultimately show ?thesis by blast
qed

lemma downlink_header:
  assumes "length packet < 65528" "gp_remote_teid (ss_gnb s) < 2 ^ 32" "length g = MAX_GTP_BUFFER"
  shows "get_header (downlink_bytes g s packet) = Some \<lparr>gh_flags = GTPU_FLAGS_DEFAULT_PDU, gh_type = GTPU_MSGTYPE_GPDU,
     gh_length = length packet + GTPV1U_HEADER_LEN, gh_teid = gp_remote_teid (ss_gnb s)\<rparr>"
    "gtp_header_len (downlink_bytes g s packet) = Some 16" "drop 16 (downlink_bytes g s packet) = packet"
    "byte_at (downlink_bytes g s packet) 14 = Some (ss_qos_flow_id s mod 256)"
proof -
  show "get_header (downlink_bytes g s packet) = Some \<lparr>gh_flags = GTPU_FLAGS_DEFAULT_PDU, gh_type = GTPU_MSGTYPE_GPDU,
     gh_length = length packet + GTPV1U_HEADER_LEN, gh_teid = gp_remote_teid (ss_gnb s)\<rparr>"
    unfolding downlink_bytes_def by (rule header_roundtrip)
      (use assms(1,2) in \<open>simp_all add: GTPU_FLAGS_DEFAULT_PDU_def GTPU_MSGTYPE_GPDU_def GTPV1U_HEADER_LEN_def\<close>)
  have l: "length (take 3 (drop 8 g)) = 3" using assms(3) by simp
  show "gtp_header_len (downlink_bytes g s packet) = Some 16"
    using l by (simp add: gtp_header_len_def byte_at_def downlink_bytes_def nth_append header_bytes_def flag_E_def
        GTPU_FLAGS_DEFAULT_PDU_def GTPV2C_HEADER_LEN_def GTP_EXT_HEADER_LEN_UNIT_def bit_iff_odd)
  show "drop 16 (downlink_bytes g s packet) = packet" using l by (simp add: downlink_bytes_def)
  show "byte_at (downlink_bytes g s packet) 14 = Some (ss_qos_flow_id s mod 256)"
    using l by (simp add: byte_at_def downlink_bytes_def nth_append)
qed

text \<open>C18. The first packet of a user for a broken out address leaves through the tun device without its
  GTP header; from then on a packet for the address it came from is sent to the gNB of the session, with a
  header of 16 bytes that carries the remote tunnel identifier and the flow identifier of the user, and
  the packet itself behind it.\<close>

theorem lbo_roundtrip:
  assumes "get_header buf = Some h" "gh_type h = GTPU_MSGTYPE_GPDU" "gtp_header_len buf = Some hl" "hl \<le> len" "len \<le> length buf"
    and "sess_ok S" "mc_session_list S i = p" "p \<noteq> NULL" "mc_sessions S p = Some s" "gh_teid h = gp_local_teid (ss_gnb s)"
    and "ss_qos_flow_id s = 0" "byte_at buf 14 = Some q"
    and "media_find_lbo_node_by_key S dst \<noteq> None"
    and "ip_addrs (drop hl (take len buf)) 0 = Some (Some (src, dst))" "tun_ok (drop hl (take len buf))"
    and "gp_remote_teid (ss_gnb s) \<noteq> 0" "gp_remote_teid (ss_gnb s) < 2 ^ 32" "gp_sock (ss_gnb s) \<noteq> NULL"
    and "mc_socks S (gp_sock (ss_gnb s)) \<noteq> None" "\<And>d. wr (gp_sock (ss_gnb s)) d"
    and "ip_addrs back 0 = Some (Some (x, src))" "n \<le> length back" "n \<le> MAX_GTP_BUFFER - 16" "length g = MAX_GTP_BUFFER"
  shows "\<exists>S' g' d. media_gtp_path_recv_cb wr tun_ok junk S sock (Some buf) (int len) = Some (S', [Tun (drop hl (take len buf))]) \<and>
     media_tun_path_recv_cb wr S' g back n = Some (g', [Sent (gp_sock (ss_gnb s)) d]) \<and>
     get_header d = Some \<lparr>gh_flags = GTPU_FLAGS_DEFAULT_PDU, gh_type = GTPU_MSGTYPE_GPDU,
       gh_length = n + GTPV1U_HEADER_LEN, gh_teid = gp_remote_teid (ss_gnb s)\<rparr> \<and>
     gtp_header_len d = Some 16 \<and> drop 16 d = take n back \<and> byte_at d 14 = Some (q mod 256)"
proof -
  let ?s = "s\<lparr>ss_qos_flow_id := q, ss_ue_addr := overwrite (ss_ue_addr s) (length src) src\<rparr>"
  obtain S' where S': "media_gtp_path_recv_cb wr tun_ok junk S sock (Some buf) (int len) = Some (S', [Tun (drop hl (take len buf))])"
    "mc_sessions S' p = Some ?s" "mc_ue_ip_table S' src = Some p" "mc_socks S' = mc_socks S"
    using lbo_uplink [where wr = wr and tun_ok = tun_ok and junk = junk and sock = sock, OF assms(1-15)] by blast
  have "mc_socks S' (gp_sock (ss_gnb ?s)) \<noteq> None" using S'(4) assms(19) by simp
  from tun_builds [OF S'(2) assms(8,24,22,23) _ _ this, of wr] obtain g' where
    g: "media_tun_send_gtp_to_ue wr S' p g back n = Some (g', [Sent (gp_sock (ss_gnb s)) (downlink_bytes g ?s (take n back))])"
    using assms(16,18,20) by auto
  have "media_tun_path_recv_cb wr S' g back n = Some (g', [Sent (gp_sock (ss_gnb s)) (downlink_bytes g ?s (take n back))])"
    using assms(21) S'(2,3) g by (simp add: media_tun_path_recv_cb_def overwrite_take)
  moreover have "length (take n back) = n" using assms(22) by simp
  moreover have "n < 65528" using assms(23) by simp
  moreover note downlink_header [of "take n back" ?s g]
  ultimately show ?thesis using S'(1) assms(17,24) by (intro exI conjI) simp_all
qed

definition demo_lbo :: media_context where
  "demo_lbo = demo_v4_only\<lparr>mc_sessions := [10 \<mapsto> (demo_sess 5 11 NULL)\<lparr>ss_gnb := (demo_path 20 11)\<lparr>gp_remote_teid := 77\<rparr>\<rparr>],
     mc_lbo_ip_table := [''LBO!'' \<mapsto> 12]\<rparr>"

definition demo_ip :: "string \<Rightarrow> string \<Rightarrow> string" where
  "demo_ip src dst = CHR ''E'' # replicate 11 NUL @ src @ dst @ ''data''"

definition demo_uplink :: string where
  "demo_uplink = header_bytes \<lparr>gh_flags = 0x34, gh_type = 255, gh_length = 28, gh_teid = 20\<rparr> @
     [NUL, NUL, NUL, CHR 0x85, CHR 0x01, NUL, CHR 0x09, NUL] @ demo_ip ''USER'' ''LBO!''"

lemma demo_lbo_ok: "sess_ok demo_lbo"
  by (simp add: sess_ok_def demo_lbo_def demo_v4_only_def start_context_def demo_sess_def demo_path_def teids_ok_def)

theorem lbo_roundtrip_witness:
  "\<exists>S' g' d. media_gtp_path_recv_cb (\<lambda>_ _. True) (\<lambda>_. True) [] demo_lbo 11 (Some demo_uplink) 40 =
       Some (S', [Tun (demo_ip ''USER'' ''LBO!'')]) \<and>
     media_tun_path_recv_cb (\<lambda>_ _. True) S' (replicate 1500 NUL) (demo_ip ''LBO!'' ''USER'') 24 = Some (g', [Sent 11 d]) \<and>
     drop 16 d = demo_ip ''LBO!'' ''USER'' \<and> byte_at d 14 = Some 9"
proof -
  let ?h = "\<lparr>gh_flags = 0x34, gh_type = 255, gh_length = 28, gh_teid = 20\<rparr>"
  let ?s = "(demo_sess 5 11 NULL)\<lparr>ss_gnb := (demo_path 20 11)\<lparr>gp_remote_teid := 77\<rparr>\<rparr>"
  have h: "get_header demo_uplink = Some ?h" unfolding demo_uplink_def by (rule header_roundtrip) simp_all
  have hl: "gtp_header_len demo_uplink = Some 16"
    by (simp add: gtp_header_len_def byte_at_def demo_uplink_def header_bytes_def flag_E_def GTPV2C_HEADER_LEN_def
        GTP_EXT_HEADER_LEN_UNIT_def bit_iff_odd nth_append)
  have l: "length demo_uplink = 40" by (simp add: demo_uplink_def demo_ip_def)
  have q: "byte_at demo_uplink 14 = Some 9" by (simp add: byte_at_def demo_uplink_def header_bytes_def nth_append)
  have pk: "drop 16 demo_uplink = demo_ip ''USER'' ''LBO!''" by (simp add: demo_uplink_def)
  have ip: "ip_addrs (demo_ip a b) 0 = Some (Some (a, b))" if "length a = 4" "length b = 4" for a b
    using that by (simp add: ip_addrs_def byte_at_def sub_bytes_def demo_ip_def nth_append)
  have S: "mc_session_list demo_lbo 5 = 10" "mc_sessions demo_lbo 10 = Some ?s" "media_find_lbo_node_by_key demo_lbo ''LBO!'' \<noteq> None"
    "mc_socks demo_lbo 11 \<noteq> None"
    by (simp_all add: demo_lbo_def demo_v4_only_def start_context_def media_find_lbo_node_by_key_def)
  have f: "gp_local_teid (ss_gnb ?s) = 20" "ss_qos_flow_id ?s = 0" "gp_remote_teid (ss_gnb ?s) = 77" "gp_sock (ss_gnb ?s) = 11"
    by (simp_all add: demo_sess_def demo_path_def)
  have k: "length (demo_ip ''LBO!'' ''USER'') = 24" by (simp add: demo_ip_def)
  show ?thesis
    using lbo_roundtrip [OF h _ hl _ _ demo_lbo_ok S(1) _ S(2) _ f(2) q S(3), of 40 "''USER''" "\<lambda>_. True" "\<lambda>_ _. True"
        "demo_ip ''LBO!'' ''USER''" "''LBO!''" 24 "replicate 1500 NUL" "[]" 11] S(4) f l k ip
    by (simp add: pk GTPU_MSGTYPE_GPDU_def) blast
qed

section \<open>Errors\<close>

text \<open>The answer to an echo request is cut off: only as many bytes are sent as follow the header,
  two or six, so that the receiver does not even get the whole header.\<close>

lemma echo_answer_cut_off:
  assumes "get_header buf = Some h" "gh_type h = GTPU_MSGTYPE_ECHO_REQ" "gh_flags h div 32 = 1"
    and "sock \<noteq> NULL" "mc_socks S sock \<noteq> None" "\<And>d. wr sock d"
  shows "\<exists>d. media_gtp_path_recv_cb wr tun_ok junk S sock (Some buf) (int len) = Some (S, [Sent sock d]) \<and>
     length d = (if flag_PN (gh_flags h) \<or> flag_S (gh_flags h) then 6 else 2) \<and> get_header d = None"
proof -
  let ?t = "echo_tail (gh_flags h) junk"
  have l: "length ?t = (if flag_PN (gh_flags h) \<or> flag_S (gh_flags h) then 6 else 2)" by (simp add: echo_tail_def)
  obtain r where r: "media_gtp_path_handle_echo_req wr junk S sock buf =
      map_option fst (agc_gtp_add_message wr S sock (header_bytes r @ ?t) (length ?t))"
    using assms(1-3) by (simp add: media_gtp_path_handle_echo_req_def Let_def)
  have "sub_bytes (header_bytes r @ ?t) 0 (length ?t) = Some (take (length ?t) (header_bytes r))"
    using l by (simp add: sub_bytes_def)
  then have "media_gtp_path_handle_echo_req wr junk S sock buf = Some [Sent sock (take (length ?t) (header_bytes r))]"
    using assms(4-6) by (auto simp: r agc_gtp_add_message_def)
  then have "media_gtp_path_recv_cb wr tun_ok junk S sock (Some buf) (int len) = Some (S, [Sent sock (take (length ?t) (header_bytes r))])"
    using assms(1,2) by (simp add: media_gtp_path_recv_cb_def)
  moreover have "length (take (length ?t) (header_bytes r)) = (if flag_PN (gh_flags h) \<or> flag_S (gh_flags h) then 6 else 2)"
    using l by simp
  ultimately show ?thesis
    by (intro exI [of _ "take (length ?t) (header_bytes r)"] conjI) (auto simp: get_header_def sub_bytes_def split: Option.bind_splits)
qed

lemma echo_answer_witness:
  "\<exists>d. media_gtp_path_recv_cb (\<lambda>_ _. True) (\<lambda>_. True) (replicate 14 NUL) demo_v4_only 11
      (Some (header_bytes \<lparr>gh_flags = 0x32, gh_type = 1, gh_length = 4, gh_teid = 0\<rparr> @ replicate 1492 NUL)) 12 =
        Some (demo_v4_only, [Sent 11 d]) \<and> length d = 6"
proof -
  let ?h = "\<lparr>gh_flags = 0x32, gh_type = 1, gh_length = 4, gh_teid = 0\<rparr>"
  have h: "get_header (header_bytes ?h @ replicate 1492 NUL) = Some ?h" by (rule header_roundtrip) simp_all
  have "mc_socks demo_v4_only 11 \<noteq> None" by (simp add: demo_v4_only_def)
  then show ?thesis
    using echo_answer_cut_off [OF h _ _ _ _, of 11 demo_v4_only "\<lambda>_ _. True" "\<lambda>_. True" "replicate 14 NUL" 12]
    by (auto simp: GTPU_MSGTYPE_ECHO_REQ_def flag_S_def bit_iff_odd)
qed

text \<open>The socket functions do not touch the table of users.\<close>

lemma del_ref_users: "media_del_gtp_node_ref_v2 S k = Some (S', st) \<Longrightarrow> mc_ue_ip_table S' = mc_ue_ip_table S"
  by (auto simp: media_del_gtp_node_ref_v2_def media_remove_gtp_node_v2_def agc_gtp_close_def set_ref_def Let_def
      split: if_splits option.splits Option.bind_splits prod.splits)

lemma close_paths_users: "close_paths S p get4 get6 = Some (S', st) \<Longrightarrow> mc_ue_ip_table S' = mc_ue_ip_table S"
  by (auto simp: close_paths_def dest!: del_ref_users split: if_splits Option.bind_splits)

lemma remove_users: "media_remove_media_sig_sess S p = Some (S', st) \<Longrightarrow> mc_ue_ip_table S' = mc_ue_ip_table S"
  by (auto simp: media_remove_media_sig_sess_def media_upf_gtp_close_def media_gnb_gtp_close_def
      dest!: close_paths_users split: if_splits Option.bind_splits)

text \<open>A packet from the tun device for a user whose session was removed and freed by the release
  timer reads the freed session: the table of users still leads to it.\<close>

lemma removed_user_still_known:
  assumes "gateway_ok S" "mc_session_list S i = p" "p \<noteq> NULL" "mc_ue_ip_table S dst = Some p"
    and "ip_addrs buf 0 = Some (Some (src, dst))" "len \<le> MAX_GTP_MTU"
  shows "\<exists>S1 S2. media_remove_media_sig_sess S p = Some (S1, AGC_STATUS_SUCCESS) \<and> media_on_release_timer S1 p = Some S2 \<and>
     gateway_ok S2 \<and> media_tun_path_recv_cb wr S2 g buf len = None"
proof -
  obtain S1 where r: "media_remove_media_sig_sess S p = Some (S1, AGC_STATUS_SUCCESS)" "gateway_ok S1"
    using remove_sess_ok [OF assms(1-3)] by blast
  from r(1) assms(3) have "p \<in> set (mc_releasing S1)"
    by (auto simp: media_remove_media_sig_sess_def split: if_splits Option.bind_splits)
  from release_timer_ok [OF r(2) this] obtain S2 where t: "media_on_release_timer S1 p = Some S2" "gateway_ok S2" by blast
  have "mc_ue_ip_table S2 dst = Some p" "mc_sessions S2 p = None"
    using t(1) remove_users [OF r(1)] assms(4) by (auto simp: media_on_release_timer_def split: Option.bind_splits)
  then have "media_tun_path_recv_cb wr S2 g buf len = None"
    using assms(3,5,6) by (simp add: media_tun_path_recv_cb_def media_tun_send_gtp_to_ue_def)
  then show ?thesis using r(1) t by blast
qed

lemma removed_user_witness:
  "\<exists>S1 S2. media_remove_media_sig_sess (demo_v4_only\<lparr>mc_ue_ip_table := [''USER'' \<mapsto> 10]\<rparr>) 10 = Some (S1, AGC_STATUS_SUCCESS) \<and>
     media_on_release_timer S1 10 = Some S2 \<and>
     media_tun_path_recv_cb (\<lambda>_ _. True) S2 (replicate 1500 NUL) (demo_ip ''LBO!'' ''USER'') 24 = None"
proof -
  let ?S = "demo_v4_only\<lparr>mc_ue_ip_table := [''USER'' \<mapsto> 10]\<rparr>"
  have "sess_ok ?S" using demo_v4_ok by (simp add: gateway_ok_iff sess_ok_def in_table_def)
  moreover have "refs ?S = refs demo_v4_only"
  proof
    fix k
    have "uses_of ?S k m = uses_of demo_v4_only k m" for m by (simp add: uses_of_def)
    then show "refs ?S k = refs demo_v4_only k" unfolding refs_def by simp
  qed
  moreover have "counted rf ?S = counted rf demo_v4_only" for rf by (simp add: counted_def)
  ultimately have "gateway_ok ?S" using demo_v4_ok by (simp add: gateway_ok_iff)
  moreover have "mc_session_list ?S 5 = 10" by (simp add: demo_v4_only_def)
  moreover have "ip_addrs (demo_ip ''LBO!'' ''USER'') 0 = Some (Some (''LBO!'', ''USER''))"
    by (simp add: ip_addrs_def byte_at_def sub_bytes_def demo_ip_def)
  ultimately show ?thesis
    using removed_user_still_known [of ?S 5 10 "''USER''" "demo_ip ''LBO!'' ''USER''" "''LBO!''" 24 "\<lambda>_ _. True" "replicate 1500 NUL"]
    by auto
qed

end
