(* ===== verification/Gateway_Events.thy ===== *)
theory Gateway_Events
  imports Event_Bus Gtp_Path Utils
begin

text \<open>
  What the two sides of the gateway share to talk to each other (sig_media_path.h, media_sig_path.h):
  the names of the headers, the macros that build, fire and read events, and the text form of
  addresses. A side of the gateway is its event bus and a state of its own.

  IPv4 addresses are converted as the C library does it; the conversion of IPv6 addresses is a
  parameter (\<open>ntop6\<close>, \<open>pton6\<close>). A socket address is written into a local variable whose contents
  \<open>stack\<close> are not cleared.
\<close>

section \<open>Addresses\<close>

fun dot_fields :: "string \<Rightarrow> string list" where
  "dot_fields [] = [[]]"
| "dot_fields (c # s) = (let fs = dot_fields s in
     if c = CHR ''.'' then [] # fs else (c # hd fs) # tl fs)"

definition octet :: "string \<Rightarrow> char option" where
  "octet f = (if f \<noteq> [] \<and> list_all is_digit f \<and> (hd f = CHR ''0'' \<longrightarrow> tl f = []) \<and> digits_val f < 256
     then Some (char_of (digits_val f)) else None)"

definition inet_pton4 :: "string \<Rightarrow> string option" where
  "inet_pton4 s = (case dot_fields s of
     [a, b, c, d] \<Rightarrow> do { a \<leftarrow> octet a; b \<leftarrow> octet b; c \<leftarrow> octet c; d \<leftarrow> octet d; Some [a, b, c, d] }
   | _ \<Rightarrow> None)"

definition inet_ntop4 :: "string \<Rightarrow> string" where
  "inet_ntop4 b = dec_nat (of_char (b ! 0)) @ CHR ''.'' # dec_nat (of_char (b ! 1)) @ CHR ''.'' #
     dec_nat (of_char (b ! 2)) @ CHR ''.'' # dec_nat (of_char (b ! 3))"

text \<open>\<open>sin_family\<close>, \<open>sin_port\<close> (network order), \<open>sin_addr\<close>; a text that is no address leaves the bytes.\<close>

definition AF_INET6 :: nat where
  "AF_INET6 = 10"

definition le_bytes2 :: "nat \<Rightarrow> string" where
  "le_bytes2 v = [char_of (v mod 256), char_of (v div 256)]"

definition set_sin :: "string \<Rightarrow> nat option \<Rightarrow> string option \<Rightarrow> string" where
  "set_sin stack port addr = le_bytes2 AF_INET @
     (case port of None \<Rightarrow> take 2 (drop 2 stack) | Some n \<Rightarrow> be_bytes 2 n) @
     (case addr of None \<Rightarrow> take 4 (drop 4 stack) | Some a \<Rightarrow> a) @ drop 8 stack"

definition set_sin6 :: "string \<Rightarrow> nat option \<Rightarrow> string option \<Rightarrow> string" where
  "set_sin6 stack port addr = le_bytes2 AF_INET6 @
     (case port of None \<Rightarrow> take 2 (drop 2 stack) | Some n \<Rightarrow> be_bytes 2 n) @ take 4 (drop 4 stack) @
     (case addr of None \<Rightarrow> take 16 (drop 8 stack) | Some a \<Rightarrow> a) @ drop 24 stack"

text \<open>\<open>sizeof(struct sockaddr_in)\<close>, \<open>sizeof(struct sockaddr_in6)\<close> and \<open>sizeof(agc_std_sockaddr_t)\<close>.\<close>

definition SIN_LEN :: nat where
  "SIN_LEN = 16"

definition SIN6_LEN :: nat where
  "SIN6_LEN = 28"

section \<open>Headers and message types\<close>

definition H_TYPE :: string where "H_TYPE = ''_type''"
definition H_ERRCODE :: string where "H_ERRCODE = ''_errcode''"
definition H_MEDIA_SESSID :: string where "H_MEDIA_SESSID = ''_media_sessid''"
definition H_SIG_SESSID :: string where "H_SIG_SESSID = ''_sig_sessid''"
definition H_SIG_HOSTNAME :: string where "H_SIG_HOSTNAME = ''_sig_hostname''"
definition H_UPF_TEID :: string where "H_UPF_TEID = ''_upf_teid''"
definition H_GNB_TEID :: string where "H_GNB_TEID = ''_gnb_teid''"
definition H_GNB_IPADDR :: string where "H_GNB_IPADDR = ''_gnb_ipaddr''"
definition H_UPF_IPADDR :: string where "H_UPF_IPADDR = ''_upf_ipaddr''"
definition H_TO_UPF_TEID :: string where "H_TO_UPF_TEID = ''_to_upf_teid''"
definition H_TO_GNB_TEID :: string where "H_TO_GNB_TEID = ''_to_gnb_teid''"
definition H_TO_GNB_IPADDR :: string where "H_TO_GNB_IPADDR = ''_to_gnb_ipaddr''"
definition H_TO_UPF_IPADDR :: string where "H_TO_UPF_IPADDR = ''_to_upf_ipaddr''"
definition H_UPF_TEID_V6 :: string where "H_UPF_TEID_V6 = ''_upf_teid_v6''"
definition H_GNB_TEID_V6 :: string where "H_GNB_TEID_V6 = ''_gnb_teid_v6''"
definition H_GNB_IPADDR_V6 :: string where "H_GNB_IPADDR_V6 = ''_gnb_ipaddrv6''"
definition H_UPF_IPADDR_V6 :: string where "H_UPF_IPADDR_V6 = ''_upf_ipaddrv6''"
definition H_TO_UPF_TEID_V6 :: string where "H_TO_UPF_TEID_V6 = ''_to_upf_teid_v6''"
definition H_TO_GNB_TEID_V6 :: string where "H_TO_GNB_TEID_V6 = ''_to_gnb_teid_v6''"
definition H_TO_GNB_IPADDR_V6 :: string where "H_TO_GNB_IPADDR_V6 = ''_to_gnb_ipaddrv6''"
definition H_TO_UPF_IPADDR_V6 :: string where "H_TO_UPF_IPADDR_V6 = ''_to_upf_ipaddrv6''"
definition EVENT_HEADER_ROUTING :: string where "EVENT_HEADER_ROUTING = ''_routingkey''"

lemmas header_name_defs = H_TYPE_def H_ERRCODE_def H_MEDIA_SESSID_def H_SIG_SESSID_def H_SIG_HOSTNAME_def
  H_UPF_TEID_def H_GNB_TEID_def H_GNB_IPADDR_def H_UPF_IPADDR_def H_TO_UPF_TEID_def H_TO_GNB_TEID_def
  H_TO_GNB_IPADDR_def H_TO_UPF_IPADDR_def H_UPF_TEID_V6_def H_GNB_TEID_V6_def H_GNB_IPADDR_V6_def
  H_UPF_IPADDR_V6_def H_TO_UPF_TEID_V6_def H_TO_GNB_TEID_V6_def H_TO_GNB_IPADDR_V6_def
  H_TO_UPF_IPADDR_V6_def EVENT_HEADER_ROUTING_def

datatype msg_type = MSET_UPF_SETUP_REQ | MSET_UPF_SETUP_RSP | MSET_GNB_SETUP_REQ | MSET_GNB_SETUP_RSP |
  MSET_SESS_CHECK_REQ | MSET_SESS_CHECK_RSP | MSET_SESS_RELEASE_REQ | MSET_SESS_RELEASE_RSP |
  MSET_SESS_RELEASE_IND | MSET_UPF_UPDATE_REQ | MSET_UPF_UPDATE_RSP | MSET_GNB_UPDATE_REQ | MSET_GNB_UPDATE_RSP

definition msg_types :: "msg_type list" where
  "msg_types = [MSET_UPF_SETUP_REQ, MSET_UPF_SETUP_RSP, MSET_GNB_SETUP_REQ, MSET_GNB_SETUP_RSP, MSET_SESS_CHECK_REQ,
     MSET_SESS_CHECK_RSP, MSET_SESS_RELEASE_REQ, MSET_SESS_RELEASE_RSP, MSET_SESS_RELEASE_IND, MSET_UPF_UPDATE_REQ,
     MSET_UPF_UPDATE_RSP, MSET_GNB_UPDATE_REQ, MSET_GNB_UPDATE_RSP]"

text \<open>The number of a type, and the type of a number.\<close>

fun type_num :: "msg_type \<Rightarrow> nat" where
  "type_num MSET_UPF_SETUP_REQ = 0" | "type_num MSET_UPF_SETUP_RSP = 1" | "type_num MSET_GNB_SETUP_REQ = 2"
| "type_num MSET_GNB_SETUP_RSP = 3" | "type_num MSET_SESS_CHECK_REQ = 4" | "type_num MSET_SESS_CHECK_RSP = 5"
| "type_num MSET_SESS_RELEASE_REQ = 6" | "type_num MSET_SESS_RELEASE_RSP = 7" | "type_num MSET_SESS_RELEASE_IND = 8"
| "type_num MSET_UPF_UPDATE_REQ = 9" | "type_num MSET_UPF_UPDATE_RSP = 10" | "type_num MSET_GNB_UPDATE_REQ = 11"
| "type_num MSET_GNB_UPDATE_RSP = 12"

definition num_type :: "nat \<Rightarrow> msg_type option" where
  "num_type n = (if n < length msg_types then Some (msg_types ! n) else None)"

definition EVENT_ID_SIG2MEDIA :: int where "EVENT_ID_SIG2MEDIA = 3"
definition EVENT_ID_MEDIA2SIG :: int where "EVENT_ID_MEDIA2SIG = 4"
definition MSEC_SUCCESS :: nat where "MSEC_SUCCESS = 0"

text \<open>\<open>agc_atoui\<close> as a number.\<close>

definition atoui :: "string \<Rightarrow> nat" where
  "atoui s = unat (agc_atoui s)"

section \<open>Building and firing events\<close>

text \<open>
  A value that is given to \<open>agc_event_add_header\<close> as the format itself: a conversion in it would read an
  argument that is not there, which is \<^term>\<open>None\<close>. Numbers are formatted with \<open>%u\<close>.
\<close>

fun as_format :: "string \<Rightarrow> string option" where
  "as_format [] = Some []"
| "as_format [c] = (if c = CHR ''%'' then None else Some [c])"
| "as_format (c # d # s) = (if c \<noteq> CHR ''%'' then map_option ((#) c) (as_format (d # s))
     else if d = CHR ''%'' then map_option ((#) d) (as_format s) else None)"

text \<open>The macro \<open>ADD_HEADER\<close> for one header after the other; the event is destroyed when one fails.\<close>

fun add_headers :: "emem \<Rightarrow> event \<Rightarrow> (string \<times> string) list \<Rightarrow> (emem \<times> event option) option" where
  "add_headers M e [] = Some (M, Some e)"
| "add_headers M e ((name, fmt) # hs) = do {
     d \<leftarrow> as_format fmt;
     (M, e, st) \<leftarrow> agc_event_add_header M e name (Some d);
     if st \<noteq> AGC_STATUS_SUCCESS then agc_event_destroy M (Some e) else add_headers M e hs }"

text \<open>\<open>CREATE\<close>, the headers, \<open>FIRE\<close>; \<open>debug\<close> and \<open>rnd\<close> are the random numbers that are drawn.\<close>

definition send_event :: "bus \<Rightarrow> int \<Rightarrow> int \<Rightarrow> nat \<Rightarrow> (string \<times> string) list \<Rightarrow> (bus \<times> agc_status) option" where
  "send_event S event_id debug rnd hs = do {
     let e = (agc_event_create event_id 0)\<lparr>ev_debug := debug\<rparr>;
     (M, r) \<leftarrow> add_headers (bus_mem S) e hs;
     let S = S\<lparr>bus_mem := M\<rparr>;
     case r of
       None \<Rightarrow> Some (S, AGC_STATUS_FALSE)
     | Some e \<Rightarrow> do {
         (S, st) \<leftarrow> agc_event_fire S (Some (Plain e)) rnd;
         if st \<noteq> AGC_STATUS_SUCCESS then map_option (\<lambda>S. (S, AGC_STATUS_FALSE)) (destroy_queued S (Plain e))
         else Some (S, AGC_STATUS_SUCCESS) } }"

text \<open>\<open>sprintf\<close> into \<open>routing\<close>, which has 255 bytes.\<close>

definition routing_to :: "string \<Rightarrow> string \<Rightarrow> string option" where
  "routing_to gateway name = (if length gateway + 1 + length name < 255 then Some (gateway @ CHR ''.'' # name) else None)"

section \<open>Reading events\<close>

text \<open>\<open>GET_HEADER\<close>: without the header the event is destroyed and the handler returns.\<close>

definition with_header :: "bus \<times> 'w \<Rightarrow> event \<Rightarrow> string \<Rightarrow> (string \<Rightarrow> (bus \<times> 'w) option) \<Rightarrow> (bus \<times> 'w) option" where
  "with_header G e name k = do {
     v \<leftarrow> agc_event_get_header (bus_mem (fst G)) e (Some name);
     case v of
       Some t \<Rightarrow> k t
     | None \<Rightarrow> map_option (\<lambda>(M, _). ((fst G)\<lparr>bus_mem := M\<rparr>, snd G)) (agc_event_destroy (bus_mem (fst G)) (Some e)) }"

definition opt_header :: "bus \<times> 'w \<Rightarrow> event \<Rightarrow> string \<Rightarrow> string option option" where
  "opt_header G e name = agc_event_get_header (bus_mem (fst G)) e (Some name)"

text \<open>An event reaches its handler from the dispatch thread, which destroys it afterwards.\<close>

definition handle_event :: "(bus \<times> 'w \<Rightarrow> event \<Rightarrow> (bus \<times> 'w) option) \<Rightarrow> bus \<times> 'w \<Rightarrow> event \<Rightarrow> (bus \<times> 'w) option" where
  "handle_event cb G e = do {
     (S, w) \<leftarrow> cb G e;
     map_option (\<lambda>S. (S, w)) (give_back S (Plain e)) }"

section \<open>Laws\<close>

lemma num_type_num [simp]: "num_type (type_num t) = Some t"
  by (cases t) (simp_all add: num_type_def msg_types_def)

lemma type_num_small: "type_num t < 13"
  by (cases t) simp_all

lemma atoui_dec [simp]: "n < 2 ^ 32 \<Longrightarrow> atoui (dec_nat n) = n"
  by (simp add: atoui_def agc_atoui_def atol_dec_nat unat_of_nat take_bit_nat_eq_self)

text \<open>No two header names are the same in any letter case.\<close>

definition header_names :: "string list" where
  "header_names = [H_TYPE, H_ERRCODE, H_MEDIA_SESSID, H_SIG_SESSID, H_SIG_HOSTNAME, H_UPF_TEID, H_GNB_TEID, H_GNB_IPADDR,
     H_UPF_IPADDR, H_TO_UPF_TEID, H_TO_GNB_TEID, H_TO_GNB_IPADDR, H_TO_UPF_IPADDR, H_UPF_TEID_V6, H_GNB_TEID_V6,
     H_GNB_IPADDR_V6, H_UPF_IPADDR_V6, H_TO_UPF_TEID_V6, H_TO_GNB_TEID_V6, H_TO_GNB_IPADDR_V6, H_TO_UPF_IPADDR_V6,
     EVENT_HEADER_ROUTING]"

lemma header_names_apart: "distinct (map (map ascii_lower) header_names)"
  unfolding header_names_def header_name_defs by code_simp

lemma strcaseeq_names [simp]:
  assumes "a \<in> set header_names" "b \<in> set header_names"
  shows "strcaseeq a b \<longleftrightarrow> a = b"
proof -
  have "inj_on (map ascii_lower) (set header_names)" using header_names_apart by (simp add: distinct_map)
  then show ?thesis using assms by (auto simp: strcaseeq_def inj_on_def)
qed

lemma header_names_mem [simp]:
  "H_TYPE \<in> set header_names" "H_ERRCODE \<in> set header_names" "H_MEDIA_SESSID \<in> set header_names"
  "H_SIG_SESSID \<in> set header_names" "H_SIG_HOSTNAME \<in> set header_names" "H_UPF_TEID \<in> set header_names"
  "H_GNB_TEID \<in> set header_names" "H_GNB_IPADDR \<in> set header_names" "H_UPF_IPADDR \<in> set header_names"
  "H_TO_UPF_TEID \<in> set header_names" "H_TO_GNB_TEID \<in> set header_names" "H_TO_GNB_IPADDR \<in> set header_names"
  "H_TO_UPF_IPADDR \<in> set header_names" "H_UPF_TEID_V6 \<in> set header_names" "H_GNB_TEID_V6 \<in> set header_names"
  "H_GNB_IPADDR_V6 \<in> set header_names" "H_UPF_IPADDR_V6 \<in> set header_names" "H_TO_UPF_TEID_V6 \<in> set header_names"
  "H_TO_GNB_TEID_V6 \<in> set header_names" "H_TO_GNB_IPADDR_V6 \<in> set header_names" "H_TO_UPF_IPADDR_V6 \<in> set header_names"
  "EVENT_HEADER_ROUTING \<in> set header_names"
  by (simp_all add: header_names_def)

lemma header_names_distinct: "distinct header_names" "distinct (rev header_names)"
  using header_names_apart by (auto simp: distinct_map)

lemmas header_neqs [simp] = header_names_distinct [unfolded header_names_def, simplified]

text \<open>Addresses are read back.\<close>

lemma dot_fields_plain: "CHR ''.'' \<notin> set f \<Longrightarrow> dot_fields f = [f]"
  by (induction f) (auto simp: Let_def)

lemma dot_fields_dot: "CHR ''.'' \<notin> set f \<Longrightarrow> dot_fields (f @ CHR ''.'' # r) = f # dot_fields r"
  by (induction f) (auto simp: Let_def)

lemma no_dot_dec: "CHR ''.'' \<notin> set (dec_nat n)"
  using dec_nat_digits [of "CHR ''.''" n] by (auto simp: is_digit_def)

lemma octet_dec: "octet (dec_nat (of_char (c :: char))) = Some c"
proof -
  let ?n = "of_char c :: nat"
  have "hd (dec_nat ?n) = CHR ''0'' \<Longrightarrow> tl (dec_nat ?n) = []"
  proof -
    assume "hd (dec_nat ?n) = CHR ''0''"
    then have "?n = 0" using dec_nat_hd [of ?n] by blast
    then show ?thesis by (subst dec_nat.simps) simp
  qed
  moreover have "list_all is_digit (dec_nat ?n)" by (simp add: list_all_iff dec_nat_digits)
  moreover have "?n < 256" by (rule nat_of_char_less_256)
  ultimately show ?thesis by (simp add: octet_def digits_val_dec_nat)
qed

lemma list_of_4: "length b = 4 \<Longrightarrow> [b ! 0, b ! 1, b ! 2, b ! 3] = b"
  by (rule nth_equalityI) (auto simp: less_Suc_eq numeral_eq_Suc)

lemma inet_pton_ntop4:
  assumes "length b = 4"
  shows "inet_pton4 (inet_ntop4 b) = Some b"
  using list_of_4 [OF assms]
  by (simp add: inet_pton4_def inet_ntop4_def dot_fields_dot dot_fields_plain no_dot_dec octet_dec)

definition no_percent :: "string \<Rightarrow> bool" where
  "no_percent s \<longleftrightarrow> CHR ''%'' \<notin> set s"

lemma as_format_plain [simp]: "no_percent s \<Longrightarrow> as_format s = Some s"
  by (induction s rule: as_format.induct) (auto simp: no_percent_def)

lemma no_percent_append [simp]: "no_percent (s @ t) \<longleftrightarrow> no_percent s \<and> no_percent t"
  by (simp add: no_percent_def)

lemma no_percent_Cons [simp]: "no_percent (c # t) \<longleftrightarrow> c \<noteq> CHR ''%'' \<and> no_percent t"
  by (auto simp: no_percent_def)

lemma no_percent_Nil [simp]: "no_percent []"
  by (simp add: no_percent_def)

lemma no_percent_dec [simp]: "no_percent (dec_nat n)"
  using dec_nat_digits [of "CHR ''%''" n] by (auto simp: no_percent_def is_digit_def)

lemma no_percent_ntop4 [simp]: "no_percent (inet_ntop4 b)"
  by (simp add: inet_ntop4_def)

text \<open>Fresh memory of an event bus, and the events it holds.\<close>

definition bus_ok :: "bus \<Rightarrow> bool" where
  "bus_ok S \<longleftrightarrow> bus_running S \<and> 0 < bus_max S \<and> (\<forall>i. length (bus_queues S i) < DISPATCH_QUEUE_LIMIT) \<and>
     0 < em_brk (bus_mem S) \<and> (\<forall>p. em_brk (bus_mem S) \<le> p \<longrightarrow> em_headers (bus_mem S) p = None)"

abbreviation some_values :: "(string \<times> string) list \<Rightarrow> (string \<times> string option) list" where
  "some_values hs \<equiv> map (\<lambda>(n, v). (n, Some v)) hs"

lemma add_headers_ok:
  assumes "event_ok M e cs" "\<forall>c\<in>addrs cs. b \<le> c" "b \<le> em_brk M" "\<forall>(n, v)\<in>set hs. no_percent v"
  shows "\<exists>M' e' cs'. add_headers M e hs = Some (M', Some e') \<and> event_ok M' e' cs' \<and>
     map snd cs' = map snd cs @ some_values hs \<and> em_brk M \<le> em_brk M' \<and>
     (\<forall>p<b. em_headers M' p = em_headers M p) \<and> e' = e\<lparr>ev_headers := ev_headers e', ev_last := ev_last e'\<rparr>"
  using assms
proof (induction hs arbitrary: M e cs)
  case Nil
  then show ?case by auto
next
  case (Cons h hs)
  obtain n v where h: "h = (n, v)" by (cases h) auto
  obtain M1 e1 where 1: "agc_event_base_add_header_nocheck M e n v = Some (M1, e1)"
    "event_ok M1 e1 (cs @ [(em_brk M, n, Some v)])" "em_brk M1 = em_brk M + 1" "same_outside (addrs cs \<union> {em_brk M}) M M1"
    "e1 = e\<lparr>ev_headers := ev_headers e1, ev_last := ev_last e1\<rparr>"
    using nocheck_ok [OF Cons.prems(1), of n v] by blast
  have "\<forall>c\<in>addrs (cs @ [(em_brk M, n, Some v)]). b \<le> c" using Cons.prems(2,3) by auto
  moreover have "b \<le> em_brk M1" using 1(3) Cons.prems(3) by simp
  ultimately obtain M2 e2 cs2 where 2: "add_headers M1 e1 hs = Some (M2, Some e2)" "event_ok M2 e2 cs2"
    "map snd cs2 = map snd (cs @ [(em_brk M, n, Some v)]) @ some_values hs" "em_brk M1 \<le> em_brk M2"
    "\<forall>p<b. em_headers M2 p = em_headers M1 p" "e2 = e1\<lparr>ev_headers := ev_headers e2, ev_last := ev_last e2\<rparr>"
    using Cons.IH [OF 1(2)] Cons.prems(4) h by auto
  have "em_headers M1 p = em_headers M p" if "p < b" for p
  proof -
    have "p \<notin> addrs cs \<union> {em_brk M}" using that Cons.prems(2,3) by (auto simp: not_le [symmetric])
    then show ?thesis using 1(4) unfolding same_outside_def by blast
  qed
  moreover have "add_headers M e (h # hs) = Some (M2, Some e2)"
    using 1(1) 2(1) Cons.prems(4) h by (simp add: agc_event_add_header_def)
  moreover have "e2 = e\<lparr>ev_headers := ev_headers e2, ev_last := ev_last e2\<rparr>"
    by (subst 2(6), subst 1(5)) simp
  ultimately show ?case using 1(3) 2(2-5) h by (intro exI [of _ M2] exI [of _ e2] exI [of _ cs2]) auto
qed

lemma event_headers_frame:
  assumes "event_headers M e kvs" "\<forall>p<em_brk M. em_headers M' p = em_headers M p" "em_brk M \<le> em_brk M'"
    and "\<forall>p. em_brk M' \<le> p \<longrightarrow> em_headers M' p = None"
  shows "event_headers M' e kvs"
proof -
  obtain cs where cs: "event_ok M e cs" "map snd cs = kvs" using assms(1) by (auto simp: event_headers_def)
  have "em_headers M' x = em_headers M x" if "x \<in> addrs cs" for x
  proof -
    have "seg (em_headers M) (ev_headers e) cs NULL" using cs(1) by (simp add: event_ok_def)
    from seg_addrs [OF this that] have "em_headers M x \<noteq> None" by blast
    then have "x < em_brk M" using cs(1) by (force simp: event_ok_def not_less [symmetric])
    then show ?thesis using assms(2) by simp
  qed
  then have "seg (em_headers M') (ev_headers e) cs NULL = seg (em_headers M) (ev_headers e) cs NULL" by (rule seg_cong)
  then have "event_ok M' e cs" using cs(1) assms(3,4) by (auto simp: event_ok_def)
  then show ?thesis using cs(2) by (auto simp: event_headers_def)
qed

text \<open>What firing an event does to a bus.\<close>

definition sent :: "bus \<Rightarrow> int \<Rightarrow> nat \<Rightarrow> (string \<times> string) list \<Rightarrow> bus \<Rightarrow> event \<Rightarrow> bool" where
  "sent S i rnd hs S' e \<longleftrightarrow> bus_queues S' = (bus_queues S)(rnd mod bus_max S := bus_queues S (rnd mod bus_max S) @ [Plain e]) \<and>
     event_headers (bus_mem S') e (some_values hs) \<and> ev_id e = i \<and>
     (\<forall>e0 kvs. event_headers (bus_mem S) e0 kvs \<longrightarrow> event_headers (bus_mem S') e0 kvs) \<and>
     bus_running S' = bus_running S \<and> bus_max S' = bus_max S"

lemma send_event_ok:
  assumes "bus_ok S" "\<forall>(n, v)\<in>set hs. no_percent v"
  shows "\<exists>S' e. send_event S i dbg rnd hs = Some (S', AGC_STATUS_SUCCESS) \<and> sent S i rnd hs S' e"
proof -
  let ?e = "(agc_event_create i 0)\<lparr>ev_debug := dbg\<rparr>"
  have ok: "0 < em_brk (bus_mem S)" "\<forall>p. em_brk (bus_mem S) \<le> p \<longrightarrow> em_headers (bus_mem S) p = None"
    using assms(1) by (simp_all add: bus_ok_def)
  have "event_ok (bus_mem S) ?e []" using ok by (simp add: event_ok_def agc_event_create_def)
  from add_headers_ok [OF this, of "em_brk (bus_mem S)" hs] assms(2) obtain M' e' cs' where
    a: "add_headers (bus_mem S) ?e hs = Some (M', Some e')" "event_ok M' e' cs'" "map snd cs' = some_values hs"
      "em_brk (bus_mem S) \<le> em_brk M'" "\<forall>p<em_brk (bus_mem S). em_headers M' p = em_headers (bus_mem S) p"
      "e' = ?e\<lparr>ev_headers := ev_headers e', ev_last := ev_last e'\<rparr>" by auto
  have e: "ev_id e' = i" "ev_source e' = 0" by (subst a(6), simp add: agc_event_create_def)+
  let ?k = "rnd mod bus_max S"
  let ?S = "S\<lparr>bus_mem := M', bus_queues := (bus_queues S)(?k := bus_queues S ?k @ [Plain e']), bus_fired := bus_fired S @ [Plain e']\<rparr>"
  have "send_event S i dbg rnd hs = Some (?S, AGC_STATUS_SUCCESS)"
    using a(1) e assms(1) by (simp add: send_event_def agc_event_fire_def source_of_def bus_ok_def Let_def)
  moreover have "event_headers M' e0 kvs" if "event_headers (bus_mem S) e0 kvs" for e0 kvs
    by (rule event_headers_frame [OF that a(5,4)]) (use a(2) in \<open>simp add: event_ok_def\<close>)
  moreover have "event_headers M' e' (some_values hs)" using a(2,3) by (auto simp: event_headers_def)
  ultimately show ?thesis using e(1) by (intro exI [of _ ?S] exI [of _ e']) (simp add: sent_def)
qed

text \<open>Reading.\<close>

lemma with_header_found [simp]:
  assumes "event_headers (bus_mem (fst G)) e kvs" "lookup n kvs = Some v"
  shows "with_header G e n k = k v"
  using he.get_law [OF assms(1), of n] assms(2) by (simp add: with_header_def)

lemma opt_header_ok [simp]:
  assumes "event_headers (bus_mem (fst G)) e kvs"
  shows "opt_header G e n = Some (lookup n kvs)"
  using he.get_law [OF assms, of n] by (simp add: opt_header_def)

end
