(* ===== verification/Media_Sig.thy ===== *)
theory Media_Sig
  imports Gateway_Events
begin

text \<open>
  The media side of the messages (media_sig_path.c): the handlers of the requests of the signalling
  gateway, which add, update, check and release the sessions of the media context, and the responses.

  The side is its event bus and \<open>media_gw\<close>, the media context with the packets that were sent. What
  comes from outside is in \<open>media_env\<close>: the system calls, the contents of memory that is not cleared,
  the clock, random numbers and the conversion of IPv6 addresses.
\<close>

section \<open>State\<close>

record media_gw =
  mg_ctx :: media_context
  mg_out :: "effect list"

record media_env =
  me_write :: os_write
  me_opens :: "string \<Rightarrow> string \<Rightarrow> bool"
  me_sess :: sig_sess
  me_now :: nat
  me_rnd :: nat
  me_debug :: int
  me_stack :: string
  me_pton6 :: "string \<Rightarrow> string option"
  me_ntop6 :: "string \<Rightarrow> string"

type_synonym media_side = "bus \<times> media_gw"

definition MEDIA_GTPV1_U_UDP_PORT :: nat where
  "MEDIA_GTPV1_U_UDP_PORT = 2152"

abbreviation ctx :: "media_side \<Rightarrow> media_context" where
  "ctx G \<equiv> mg_ctx (snd G)"

definition put_ctx :: "media_side \<Rightarrow> media_context \<Rightarrow> media_side" where
  "put_ctx G C = (fst G, (snd G)\<lparr>mg_ctx := C\<rparr>)"

section \<open>Responses\<close>

definition respond :: "media_env \<Rightarrow> media_side \<Rightarrow> (string \<times> string) list \<Rightarrow> (media_side \<times> agc_status) option" where
  "respond env G hs = map_option (\<lambda>(S, st). ((S, snd G), st)) (send_event (fst G) EVENT_ID_MEDIA2SIG (me_debug env) (me_rnd env) hs)"

definition upf_setup_rsp_headers :: "media_env \<Rightarrow> sig_sess \<Rightarrow> string \<Rightarrow> (string \<times> string) list" where
  "upf_setup_rsp_headers env s routing =
     [(H_TYPE, dec_nat (type_num MSET_UPF_SETUP_RSP)), (H_MEDIA_SESSID, dec_nat (ss_sess_id s)),
      (H_SIG_SESSID, dec_nat (ss_sig_sess_id s)), (H_TO_UPF_TEID, dec_nat (gp_local_teid (ss_upf s))),
      (H_TO_GNB_TEID, dec_nat (gp_local_teid (ss_gnb s))), (H_ERRCODE, dec_nat MSEC_SUCCESS),
      (H_TO_UPF_IPADDR, inet_ntop4 (sin_addr (gp_local_addr (ss_upf s)))),
      (H_TO_GNB_IPADDR, inet_ntop4 (sin_addr (gp_local_addr (ss_gnb s)))),
      (EVENT_HEADER_ROUTING, routing)] @
     (if gp_local_addrlen (ss_upfv6 s) \<noteq> 0 \<and> gp_local_addrlen (ss_gnbv6 s) \<noteq> 0
      then [(H_TO_UPF_TEID_V6, dec_nat (gp_local_teid (ss_upfv6 s))), (H_TO_GNB_TEID_V6, dec_nat (gp_local_teid (ss_gnbv6 s))),
        (H_TO_UPF_IPADDR_V6, me_ntop6 env (sin6_addr (gp_local_addr (ss_upfv6 s)))),
        (H_TO_GNB_IPADDR_V6, me_ntop6 env (sin6_addr (gp_local_addr (ss_gnbv6 s))))]
      else [])"

definition media_sig_path_send_upf_setup_rsp :: "media_env \<Rightarrow> media_side \<Rightarrow> ptr \<Rightarrow> (media_side \<times> agc_status) option" where
  "media_sig_path_send_upf_setup_rsp env G p =
     (if p = NULL then Some (G, AGC_STATUS_FALSE)
      else do {
        s \<leftarrow> mc_sessions (ctx G) p;
        routing \<leftarrow> routing_to (ss_gateway s) ''media2sig'';
        respond env G (upf_setup_rsp_headers env s routing) })"

definition rsp_headers :: "msg_type \<Rightarrow> nat \<Rightarrow> sig_sess \<Rightarrow> string \<Rightarrow> (string \<times> string) list" where
  "rsp_headers t errcode s routing =
     [(H_TYPE, dec_nat (type_num t)), (H_MEDIA_SESSID, dec_nat (ss_sess_id s)), (H_SIG_SESSID, dec_nat (ss_sig_sess_id s)),
      (H_ERRCODE, dec_nat errcode), (EVENT_HEADER_ROUTING, routing)]"

definition media_sig_path_send_error_rsp :: "media_env \<Rightarrow> media_side \<Rightarrow> ptr \<Rightarrow> msg_type \<Rightarrow> nat \<Rightarrow> (media_side \<times> agc_status) option" where
  "media_sig_path_send_error_rsp env G p t errcode =
     (if p = NULL then Some (G, AGC_STATUS_FALSE)
      else do {
        s \<leftarrow> mc_sessions (ctx G) p;
        routing \<leftarrow> routing_to (ss_gateway s) ''media2sig'';
        respond env G (rsp_headers t errcode s routing) })"

definition media_sig_path_send_gnb_setup_rsp :: "media_env \<Rightarrow> media_side \<Rightarrow> ptr \<Rightarrow> (media_side \<times> agc_status) option" where
  "media_sig_path_send_gnb_setup_rsp env G p = media_sig_path_send_error_rsp env G p MSET_GNB_SETUP_RSP MSEC_SUCCESS"

text \<open>A session whose response cannot be sent is removed.\<close>

definition answered :: "(media_side \<times> agc_status) option \<Rightarrow> ptr \<Rightarrow> (media_side \<Rightarrow> media_side option) \<Rightarrow> media_side option" where
  "answered r p k = do {
     (G, st) \<leftarrow> r;
     if st \<noteq> AGC_STATUS_SUCCESS then map_option (\<lambda>(C, _). put_ctx G C) (media_remove_media_sig_sess (ctx G) p)
     else k G }"

section \<open>Requests\<close>

definition set_remote :: "nat \<Rightarrow> nat \<Rightarrow> string \<Rightarrow> gtp_path \<Rightarrow> gtp_path" where
  "set_remote teid len addr g = g\<lparr>gp_remote_teid := teid, gp_remote_addrlen := len,
     gp_remote_addr := overwrite (gp_remote_addr g) len addr\<rparr>"

definition sin_of :: "media_env \<Rightarrow> string \<Rightarrow> string" where
  "sin_of env t = set_sin (me_stack env) (Some MEDIA_GTPV1_U_UDP_PORT) (inet_pton4 t)"

definition sin6_of :: "media_env \<Rightarrow> string \<Rightarrow> string" where
  "sin6_of env t = set_sin6 (me_stack env) (Some MEDIA_GTPV1_U_UDP_PORT) (me_pton6 env t)"

text \<open>The tunnel over IPv6 to the UPF gets the tunnel identifier of the one over IPv4.\<close>

definition set_upf :: "media_env \<Rightarrow> nat \<Rightarrow> string \<Rightarrow> string option \<Rightarrow> sig_sess \<Rightarrow> sig_sess" where
  "set_upf env teid addr addr6 s =
     (let s = s\<lparr>ss_upf := set_remote teid SIN_LEN (sin_of env addr) (ss_upf s)\<rparr> in
      case addr6 of None \<Rightarrow> s | Some t \<Rightarrow> s\<lparr>ss_upfv6 := set_remote teid SIN6_LEN (sin6_of env t) (ss_upfv6 s)\<rparr>)"

definition media_sig_handle_upf_setup_req :: "media_env \<Rightarrow> media_side \<Rightarrow> event \<Rightarrow> media_side option" where
  "media_sig_handle_upf_setup_req env G e =
     with_header G e H_SIG_SESSID (\<lambda>sig_sess_id.
     with_header G e H_UPF_IPADDR (\<lambda>addr. do {
       teid6 \<leftarrow> opt_header G e H_UPF_TEID_V6;
       addr6 \<leftarrow> opt_header G e H_UPF_IPADDR_V6;
       with_header G e H_UPF_TEID (\<lambda>teid. do {
         (C, p) \<leftarrow> media_add_media_sig_sess (ctx G) (me_sess env) (me_now env);
         let G = put_ctx G C;
         if p = NULL then Some G
         else with_header G e H_SIG_HOSTNAME (\<lambda>host. do {
           ensure (length host < 255);
           C \<leftarrow> upd_sess C p (\<lambda>s. set_upf env (atoui teid) addr addr6 (s\<lparr>ss_sig_sess_id := atoui sig_sess_id, ss_gateway := host\<rparr>));
           answered (media_sig_path_send_upf_setup_rsp env (put_ctx G C) p) p (\<lambda>G.
             map_option (\<lambda>(C, _). put_ctx G C) (media_upf_gtp_open (me_opens env) (ctx G) p)) }) }) }))"

text \<open>An unknown session is logged with a field of the null pointer.\<close>

definition media_sig_handle_upf_update_req :: "media_env \<Rightarrow> media_side \<Rightarrow> event \<Rightarrow> media_side option" where
  "media_sig_handle_upf_update_req env G e =
     with_header G e H_SIG_SESSID (\<lambda>sig_sess_id.
     with_header G e H_MEDIA_SESSID (\<lambda>sess_id.
       let p = media_find_media_sig_sess_by_id (ctx G) (atoui sess_id) in
       if p = NULL then None
       else with_header G e H_UPF_IPADDR (\<lambda>addr. do {
         teid6 \<leftarrow> opt_header G e H_UPF_TEID_V6;
         addr6 \<leftarrow> opt_header G e H_UPF_IPADDR_V6;
         with_header G e H_UPF_TEID (\<lambda>teid. do {
           C \<leftarrow> upd_sess (ctx G) p (set_upf env (atoui teid) addr addr6);
           answered (media_sig_path_send_error_rsp env (put_ctx G C) p MSET_UPF_UPDATE_RSP 0) p Some }) })))"

definition media_sig_handle_gnb_setup_req :: "media_env \<Rightarrow> media_side \<Rightarrow> event \<Rightarrow> media_side option" where
  "media_sig_handle_gnb_setup_req env G e =
     with_header G e H_SIG_SESSID (\<lambda>sig_sess_id.
     with_header G e H_MEDIA_SESSID (\<lambda>sess_id.
       let p = media_find_media_sig_sess_by_id (ctx G) (atoui sess_id) in
       if p = NULL then Some G
       else do {
         s \<leftarrow> mc_sessions (ctx G) p;
         if atoui sig_sess_id \<noteq> ss_sig_sess_id s then Some G
         else with_header G e H_GNB_IPADDR (\<lambda>addr. do {
           teid6 \<leftarrow> opt_header G e H_GNB_TEID_V6;
           addr6 \<leftarrow> opt_header G e H_GNB_IPADDR_V6;
           with_header G e H_GNB_TEID (\<lambda>teid. do {
             out \<leftarrow> (if gp_remote_teid (ss_gnb s) \<noteq> 0 then media_gtp_send_n3_end_mark (me_write env) (ctx G) p else Some []);
             C \<leftarrow> upd_sess (ctx G) p (\<lambda>s. s\<lparr>ss_gnb := set_remote (atoui teid) SIN_LEN (sin_of env addr) (ss_gnb s)\<rparr>);
             C \<leftarrow> (case addr6 of
                 None \<Rightarrow> Some C
               | Some t \<Rightarrow> upd_sess C p (\<lambda>s. s\<lparr>ss_gnbv6 := set_remote (case teid6 of None \<Rightarrow> 0 | Some x \<Rightarrow> atoui x)
                   SIN6_LEN (sin6_of env t) (ss_gnbv6 s)\<rparr>));
             (C, _) \<leftarrow> media_gnb_gtp_open (me_opens env) C p;
             let G = (fst G, (snd G)\<lparr>mg_ctx := C, mg_out := mg_out (snd G) @ out\<rparr>);
             answered (media_sig_path_send_gnb_setup_rsp env G p) p Some }) }) }))"

definition media_sig_handle_check_sess_req :: "media_env \<Rightarrow> media_side \<Rightarrow> event \<Rightarrow> media_side option" where
  "media_sig_handle_check_sess_req env G e =
     with_header G e H_SIG_SESSID (\<lambda>sig_sess_id.
     with_header G e H_MEDIA_SESSID (\<lambda>sess_id.
       let p = media_find_media_sig_sess_by_id (ctx G) (atoui sess_id) in
       if p = NULL then None
       else map_option fst (media_sig_path_send_error_rsp env G p MSET_SESS_CHECK_RSP 0)))"

definition media_sig_handle_sess_release_req :: "media_env \<Rightarrow> media_side \<Rightarrow> event \<Rightarrow> media_side option" where
  "media_sig_handle_sess_release_req env G e =
     with_header G e H_SIG_SESSID (\<lambda>sig_sess_id.
     with_header G e H_MEDIA_SESSID (\<lambda>sess_id.
       let p = media_find_media_sig_sess_by_id (ctx G) (atoui sess_id) in
       if p = NULL then Some G
       else do {
         s \<leftarrow> mc_sessions (ctx G) p;
         if atoui sig_sess_id \<noteq> ss_sig_sess_id s then Some G
         else do {
           (G, _) \<leftarrow> media_sig_path_send_error_rsp env G p MSET_SESS_RELEASE_RSP 0;
           map_option (\<lambda>(C, _). put_ctx G C) (media_remove_media_sig_sess (ctx G) p) } }))"

definition media_sig_path_event_callback :: "media_env \<Rightarrow> media_side \<Rightarrow> event \<Rightarrow> media_side option" where
  "media_sig_path_event_callback env G e =
     with_header G e H_TYPE (\<lambda>t. case num_type (atoui t) of
         Some MSET_UPF_SETUP_REQ \<Rightarrow> media_sig_handle_upf_setup_req env G e
       | Some MSET_GNB_SETUP_REQ \<Rightarrow> media_sig_handle_gnb_setup_req env G e
       | Some MSET_SESS_CHECK_REQ \<Rightarrow> media_sig_handle_check_sess_req env G e
       | Some MSET_SESS_RELEASE_REQ \<Rightarrow> media_sig_handle_sess_release_req env G e
       | Some MSET_UPF_UPDATE_REQ \<Rightarrow> media_sig_handle_upf_update_req env G e
       | _ \<Rightarrow> Some G)"

definition media_sig_path_bind :: "bus \<Rightarrow> ptr \<Rightarrow> (bus \<times> agc_status) option" where
  "media_sig_path_bind S callback = map_option (\<lambda>(S, st).
     (S, if st \<noteq> AGC_STATUS_SUCCESS then AGC_STATUS_FALSE else AGC_STATUS_SUCCESS))
     (agc_event_bind S ''MEDIA_SEB_NAME'' EVENT_ID_SIG2MEDIA callback)"

section \<open>What the steps leave alone\<close>

text \<open>A session but for its sockets.\<close>

definition no_socks :: "sig_sess \<Rightarrow> sig_sess" where
  "no_socks s = s\<lparr>ss_upf := (ss_upf s)\<lparr>gp_sock := NULL\<rparr>, ss_gnb := (ss_gnb s)\<lparr>gp_sock := NULL\<rparr>,
     ss_upfv6 := (ss_upfv6 s)\<lparr>gp_sock := NULL\<rparr>, ss_gnbv6 := (ss_gnbv6 s)\<lparr>gp_sock := NULL\<rparr>\<rparr>"

lemma no_socks_upd [simp]:
  "no_socks (ss_upf_update (\<lambda>g. g\<lparr>gp_sock := k\<rparr>) s) = no_socks s"
  "no_socks (ss_upfv6_update (\<lambda>g. g\<lparr>gp_sock := k\<rparr>) s) = no_socks s"
  "no_socks (ss_gnb_update (\<lambda>g. g\<lparr>gp_sock := k\<rparr>) s) = no_socks s"
  "no_socks (ss_gnbv6_update (\<lambda>g. g\<lparr>gp_sock := k\<rparr>) s) = no_socks s"
  by (simp_all add: no_socks_def)

lemma no_socks_fields:
  assumes "no_socks s' = no_socks s"
  shows "ss_sess_id s' = ss_sess_id s" "ss_sig_sess_id s' = ss_sig_sess_id s" "ss_gateway s' = ss_gateway s"
    "(ss_upf s')\<lparr>gp_sock := NULL\<rparr> = (ss_upf s)\<lparr>gp_sock := NULL\<rparr>" "(ss_upfv6 s')\<lparr>gp_sock := NULL\<rparr> = (ss_upfv6 s)\<lparr>gp_sock := NULL\<rparr>"
    "(ss_gnb s')\<lparr>gp_sock := NULL\<rparr> = (ss_gnb s)\<lparr>gp_sock := NULL\<rparr>" "(ss_gnbv6 s')\<lparr>gp_sock := NULL\<rparr> = (ss_gnbv6 s)\<lparr>gp_sock := NULL\<rparr>"
  using arg_cong [OF assms, of ss_sess_id] arg_cong [OF assms, of ss_sig_sess_id] arg_cong [OF assms, of ss_gateway]
    arg_cong [OF assms, of ss_upf] arg_cong [OF assms, of ss_upfv6] arg_cong [OF assms, of ss_gnb] arg_cong [OF assms, of ss_gnbv6]
  by (simp_all add: no_socks_def)

lemma path_fields:
  assumes "g'\<lparr>gp_sock := k\<rparr> = g\<lparr>gp_sock := k\<rparr>"
  shows "gp_local_teid g' = gp_local_teid g" "gp_local_addr g' = gp_local_addr g" "gp_local_addrlen g' = gp_local_addrlen g"
    "gp_remote_teid g' = gp_remote_teid g" "gp_remote_addr g' = gp_remote_addr g" "gp_remote_addrlen g' = gp_remote_addrlen g"
  using arg_cong [OF assms, of gp_local_teid] arg_cong [OF assms, of gp_local_addr] arg_cong [OF assms, of gp_local_addrlen]
    arg_cong [OF assms, of gp_remote_teid] arg_cong [OF assms, of gp_remote_addr] arg_cong [OF assms, of gp_remote_addrlen]
  by simp_all

lemma open_path_socks:
  assumes "open_path opens S p get upd = Some (S', r)" "\<And>k s. no_socks (upd (\<lambda>g. g\<lparr>gp_sock := k\<rparr>) s) = no_socks s"
  shows "map_option no_socks (mc_sessions S' p) = map_option no_socks (mc_sessions S p)"
  using assms
  by (auto simp: open_path_def upd_sess_def media_add_gtp_node_ref_v2_def set_ref_def agc_gtp_open_v2_def media_add_gtp_node_v2_def
      Let_def split: if_splits option.splits prod.splits bind_splits)

lemma open_paths_socks:
  assumes "open_paths opens S p get4 upd4 get6 upd6 = Some (S', st)"
    and "\<And>k s. no_socks (upd4 (\<lambda>g. g\<lparr>gp_sock := k\<rparr>) s) = no_socks s" "\<And>k s. no_socks (upd6 (\<lambda>g. g\<lparr>gp_sock := k\<rparr>) s) = no_socks s"
  shows "map_option no_socks (mc_sessions S' p) = map_option no_socks (mc_sessions S p)"
proof (cases "p = NULL")
  case True
  then show ?thesis using assms(1) by (simp add: open_paths_def)
next
  case False
  obtain S1 where 1: "upd_sess S p (upd4 (\<lambda>g. g\<lparr>gp_sock := NULL\<rparr>) \<circ> upd6 (\<lambda>g. g\<lparr>gp_sock := NULL\<rparr>)) = Some S1"
    using assms(1) False by (cases "upd_sess S p (upd4 (\<lambda>g. g\<lparr>gp_sock := NULL\<rparr>) \<circ> upd6 (\<lambda>g. g\<lparr>gp_sock := NULL\<rparr>))") (auto simp: open_paths_def)
  have e1: "map_option no_socks (mc_sessions S1 p) = map_option no_socks (mc_sessions S p)"
    using 1 assms(2,3) by (auto simp: upd_sess_def)
  obtain S2 r where 2: "open_path opens S1 p get4 upd4 = Some (S2, r)"
    using assms(1) False 1 by (cases "open_path opens S1 p get4 upd4") (auto simp: open_paths_def)
  have e2: "map_option no_socks (mc_sessions S2 p) = map_option no_socks (mc_sessions S1 p)" by (rule open_path_socks [OF 2 assms(2)])
  show ?thesis
  proof (cases "r = Opened")
    case True
    then obtain r' where "open_path opens S2 p get6 upd6 = Some (S', r')" using assms(1) False 1 2 by (auto simp: open_paths_def)
    from open_path_socks [OF this assms(3)] show ?thesis using e1 e2 by simp
  next
    case f: False
    then have "S' = S2" using assms(1) False 1 2 by (cases r) (auto simp: open_paths_def)
    then show ?thesis using e1 e2 by simp
  qed
qed

section \<open>Setting up a session\<close>

text \<open>What the media gateway promises for a setup request: a new session that is found by its identifiers
  and has the addresses of the request, and a response that tells the identifiers and addresses of its ends.\<close>

definition set_up :: "media_env \<Rightarrow> media_side \<Rightarrow> media_side \<Rightarrow> nat \<Rightarrow> string \<Rightarrow> nat \<Rightarrow> string \<Rightarrow> sig_sess \<Rightarrow> event \<Rightarrow> bool" where
  "set_up env G G' sig_sess_id host teid addr s e' \<longleftrightarrow>
     gateway_ok (ctx G') \<and> mc_session_list (ctx G) (ss_sess_id s) = NULL \<and>
     media_find_media_sig_sess_by_id (ctx G') (ss_sess_id s) \<noteq> NULL \<and>
     mc_sessions (ctx G') (media_find_media_sig_sess_by_id (ctx G') (ss_sess_id s)) = Some s \<and>
     teids_ok s \<and> ss_sess_id s < MAX_MEDIA_SESSIONS \<and> ss_sig_sess_id s = sig_sess_id \<and> ss_gateway s = host \<and>
     gp_remote_teid (ss_upf s) = teid \<and> gp_remote_addr (ss_upf s) = overwrite (gp_remote_addr (ss_upf (me_sess env))) SIN_LEN addr \<and>
     sent (fst G) EVENT_ID_MEDIA2SIG (me_rnd env) (upf_setup_rsp_headers env s (host @ ''.media2sig'')) (fst G') e'"

lemma upf_setup_rsp_headers_cong:
  assumes "no_socks s' = no_socks s"
  shows "upf_setup_rsp_headers env s' r = upf_setup_rsp_headers env s r"
  using no_socks_fields [OF assms] path_fields [OF no_socks_fields(4) [OF assms]] path_fields [OF no_socks_fields(5) [OF assms]]
    path_fields [OF no_socks_fields(6) [OF assms]] path_fields [OF no_socks_fields(7) [OF assms]]
  by (simp add: upf_setup_rsp_headers_def)

lemma upf_setup_rsp_plain:
  assumes "no_percent r" "\<And>a. no_percent (me_ntop6 env a)"
  shows "\<forall>(n, v)\<in>set (upf_setup_rsp_headers env s r). no_percent v"
  using assms by (auto simp: upf_setup_rsp_headers_def)

lemma routing_ok [simp]: "length g + length n < 254 \<Longrightarrow> routing_to g n = Some (g @ CHR ''.'' # n)"
  by (simp add: routing_to_def)

lemma upf_setup_handled:
  assumes ok: "bus_ok S" "gateway_ok (mg_ctx W)" "both_families (mg_ctx W)"
    and free: "0 < i" "i < MAX_MEDIA_SESSIONS" "mc_session_list (mg_ctx W) i = NULL"
    and e: "event_headers (bus_mem S) e kvs"
    and hs: "lookup H_SIG_SESSID kvs = Some sig_sess_id" "lookup H_UPF_IPADDR kvs = Some addr"
      "lookup H_UPF_TEID kvs = Some teid" "lookup H_SIG_HOSTNAME kvs = Some host"
    and fmt: "no_percent host" "length host < 245" "\<And>a. no_percent (me_ntop6 env a)"
  shows "\<exists>G' s e'. media_sig_handle_upf_setup_req env (S, W) e = Some G' \<and>
     set_up env (S, W) G' (atoui sig_sess_id) host (atoui teid) (sin_of env addr) s e'"
proof -
  let ?C = "mg_ctx W"
  obtain g4 g6 where g: "media_gtp_node_n3_v4_first ?C = Some g4" "media_gtp_node_n3_v6_first ?C = Some g6"
    using ok(3) by (auto simp: both_families_def)
  have s_ok: "sess_ok ?C" using ok(2) by (simp add: gateway_ok_iff)
  from add_sess_cases [OF s_ok g(1), of "me_sess env" "me_now env"] free obtain j u4 where
    j: "0 < j" "j < MAX_MEDIA_SESSIONS" "mc_session_list ?C j = NULL" and
    a: "let p = mc_brk ?C; s = new_sess (me_sess env) j (me_now env) g4 (media_gtp_node_n3_v6_first ?C) u4
            (or_else (media_gtp_node_n3_upf_v6_first ?C) (media_gtp_node_n3_v6_first ?C));
          S' = ?C\<lparr>mc_next_sess_id := j, mc_session_list := (mc_session_list ?C)(j := p), mc_brk := p + 1,
            mc_sessions := (mc_sessions ?C)(p \<mapsto> s)\<rparr>
        in media_add_media_sig_sess ?C (me_sess env) (me_now env) = Some (S', p) \<and> sess_ok S'" by blast
  obtain u6 where u6: "or_else (media_gtp_node_n3_upf_v6_first ?C) (Some g6) = Some u6"
    by (cases "media_gtp_node_n3_upf_v6_first ?C") (auto simp: or_else_def)
  let ?p = "mc_brk ?C"
  let ?s = "new_sess (me_sess env) j (me_now env) g4 (Some g6) u4 (Some u6)"
  let ?C1 = "?C\<lparr>mc_next_sess_id := j, mc_session_list := (mc_session_list ?C)(j := ?p), mc_brk := ?p + 1, mc_sessions := (mc_sessions ?C)(?p \<mapsto> ?s)\<rparr>"
  have add: "media_add_media_sig_sess ?C (me_sess env) (me_now env) = Some (?C1, ?p)" using a g(2) u6 by (simp add: Let_def)
  have c1: "gateway_ok ?C1"
    using add_sess_ok [OF ok(2) g, of "me_sess env" "me_now env"] add by auto
  have p: "?p \<noteq> NULL" using sess_okD(2) [OF s_ok] by simp
  let ?s2 = "set_upf env (atoui teid) addr (lookup H_UPF_IPADDR_V6 kvs) (?s\<lparr>ss_sig_sess_id := atoui sig_sess_id, ss_gateway := host\<rparr>)"
  have s2: "ss_sess_id ?s2 = j" "teids_ok ?s2" "path_socks ?s2 = [NULL, NULL, NULL, NULL]" "teids_ok ?s" "ss_sess_id ?s = j"
      "path_socks ?s = [NULL, NULL, NULL, NULL]" "ss_sig_sess_id ?s2 = atoui sig_sess_id" "ss_gateway ?s2 = host"
      "gp_remote_teid (ss_upf ?s2) = atoui teid"
      "gp_remote_addr (ss_upf ?s2) = overwrite (gp_remote_addr (ss_upf (me_sess env))) SIN_LEN (sin_of env addr)"
    by (simp_all add: set_upf_def Let_def set_remote_def new_sess_def new_path_def teids_ok_def path_socks_def split: option.split)
  let ?C2 = "?C1\<lparr>mc_sessions := (mc_sessions ?C1)(?p \<mapsto> ?s2)\<rparr>"
  have c2: "gateway_ok ?C2"
    by (rule set_sess_ok [OF c1, of j ?p ?s]) (use p s2 in simp_all)
  let ?r = "host @ ''.media2sig''"
  from send_event_ok [OF ok(1) upf_setup_rsp_plain [of ?r env ?s2], of EVENT_ID_MEDIA2SIG "me_debug env" "me_rnd env"] fmt obtain S' e' where
    snd: "send_event S EVENT_ID_MEDIA2SIG (me_debug env) (me_rnd env) (upf_setup_rsp_headers env ?s2 ?r) = Some (S', AGC_STATUS_SUCCESS)"
      "sent S EVENT_ID_MEDIA2SIG (me_rnd env) (upf_setup_rsp_headers env ?s2 ?r) S' e'" by auto
  have rsp: "media_sig_path_send_upf_setup_rsp env (S, W\<lparr>mg_ctx := ?C2\<rparr>) ?p = Some ((S', W\<lparr>mg_ctx := ?C2\<rparr>), AGC_STATUS_SUCCESS)"
    using p s2(8) snd(1) fmt(2) by (simp add: media_sig_path_send_upf_setup_rsp_def respond_def)
  have c2': "mc_session_list ?C2 j = ?p" "mc_sessions ?C2 ?p = Some ?s2" by simp_all
  have nosock: "gp_sock (ss_upf ?s2) = NULL" "gp_sock (ss_upfv6 ?s2) = NULL" using s2(3) by (simp_all add: path_socks_def)
  from upf_pair.open_paths_ok [OF c2 c2'(1) p c2'(2), of "me_opens env"] obtain C3 st s3 where
    o: "open_paths (me_opens env) ?C2 ?p ss_upf ss_upf_update ss_upfv6 ss_upfv6_update = Some (C3, st)" "gateway_ok C3" "only_sess ?C2 ?p s3 C3"
    using nosock by auto
  have s3: "mc_sessions C3 ?p = Some s3" "mc_session_list C3 j = ?p" using o(3) by (simp_all add: only_sess_def)
  have ns: "no_socks s3 = no_socks ?s2"
    using open_paths_socks [OF o(1)] s3(1) by simp
  note f = no_socks_fields [OF ns] path_fields [OF no_socks_fields(4) [OF ns]] path_fields [OF no_socks_fields(5) [OF ns]]
    path_fields [OF no_socks_fields(6) [OF ns]] path_fields [OF no_socks_fields(7) [OF ns]]
  have "media_sig_handle_upf_setup_req env (S, W) e = Some (S', W\<lparr>mg_ctx := C3\<rparr>)"
    using e hs add p rsp o(1) fmt(2)
    by (simp add: media_sig_handle_upf_setup_req_def put_ctx_def upd_sess_def answered_def media_upf_gtp_open_def)
  moreover have "set_up env (S, W) (S', W\<lparr>mg_ctx := C3\<rparr>) (atoui sig_sess_id) host (atoui teid) (sin_of env addr) s3 e'"
    using o(2) s3 s2 j p f snd(2) upf_setup_rsp_headers_cong [OF ns]
    by (simp add: set_up_def media_find_media_sig_sess_by_id_def teids_ok_def)
  ultimately show ?thesis by blast
qed

end
