(* ===== verification/Node_Ids.thy ===== *)
theory Node_Ids
  imports Prelude "HOL-Library.Word"
begin

unbundle bit_operations_syntax

text \<open>
  The identifiers of the signalling gateway: networks (PlmnUtil.cc), radio nodes (RanNodeId.cc) and
  tracking areas (Tai.cc). The maps of the gateway are keyed by radio nodes, so their order has to be
  a strict total order that agrees with their equality.
\<close>

section \<open>Networks\<close>

record plmn_id =
  mcc1 :: "4 word"
  mcc2 :: "4 word"
  mcc3 :: "4 word"
  mnc1 :: "4 word"
  mnc2 :: "4 word"
  mnc3 :: "4 word"

definition PLMN_ID_DIGIT1 :: "nat \<Rightarrow> nat" where
  "PLMN_ID_DIGIT1 x = x div 10 div 10 mod 10"

definition PLMN_ID_DIGIT2 :: "nat \<Rightarrow> nat" where
  "PLMN_ID_DIGIT2 x = x div 10 mod 10"

definition PLMN_ID_DIGIT3 :: "nat \<Rightarrow> nat" where
  "PLMN_ID_DIGIT3 x = x mod 10"

definition plmn_id_mcc :: "plmn_id \<Rightarrow> nat" where
  "plmn_id_mcc p = unat (mcc1 p) * 10 * 10 + unat (mcc2 p) * 10 + unat (mcc3 p)"

definition plmn_id_mnc :: "plmn_id \<Rightarrow> nat" where
  "plmn_id_mnc p = (if mnc1 p = 0xF then unat (mnc2 p) * 10 + unat (mnc3 p)
     else unat (mnc1 p) * 10 * 10 + unat (mnc2 p) * 10 + unat (mnc3 p))"

definition plmn_id_mnc_len :: "plmn_id \<Rightarrow> nat" where
  "plmn_id_mnc_len p = (if mnc1 p = 0xF then 2 else 3)"

definition plmn_id_build :: "nat \<Rightarrow> nat \<Rightarrow> nat \<Rightarrow> plmn_id" where
  "plmn_id_build mcc mnc mnc_len =
     \<lparr>mcc1 = of_nat (PLMN_ID_DIGIT1 mcc), mcc2 = of_nat (PLMN_ID_DIGIT2 mcc), mcc3 = of_nat (PLMN_ID_DIGIT3 mcc),
      mnc1 = (if mnc_len = 2 then 0xF else of_nat (PLMN_ID_DIGIT1 mnc)),
      mnc2 = of_nat (PLMN_ID_DIGIT2 mnc), mnc3 = of_nat (PLMN_ID_DIGIT3 mnc)\<rparr>"

section \<open>Radio nodes\<close>

datatype RanNodeType = RNT_GNB_ID | RNT_NG_ENB_ID | RNT_N3IWF_ID

datatype RanNgEnbType = RNET_MACRO_NG_ENB | RNET_SHORT_NG_ENB | RNET_LONG_NG_ENB | RNET_NULL

fun type_code :: "RanNodeType \<Rightarrow> 64 word" where
  "type_code RNT_GNB_ID = 1" | "type_code RNT_NG_ENB_ID = 2" | "type_code RNT_N3IWF_ID = 3"

fun enb_code :: "RanNgEnbType \<Rightarrow> 64 word" where
  "enb_code RNET_MACRO_NG_ENB = 1" | "enb_code RNET_SHORT_NG_ENB = 2" | "enb_code RNET_LONG_NG_ENB = 3"
| "enb_code RNET_NULL = 0xF"

datatype RanNodeId = RanNodeId (rn_plmn: plmn_id) (rn_type: RanNodeType) (rn_enb: RanNgEnbType) (rn_id: "32 word")

definition RanNodeId_default :: RanNodeId where
  "RanNodeId_default = RanNodeId \<lparr>mcc1 = 0xF, mcc2 = 0xF, mcc3 = 0xF, mnc1 = 0xF, mnc2 = 0xF, mnc3 = 0xF\<rparr>
     RNT_GNB_ID RNET_NULL 0xFFFFFFFF"

definition touint64_t :: "RanNodeId \<Rightarrow> 64 word" where
  "touint64_t a =
     (push_bit 58 (ucast (mcc1 (rn_plmn a))) OR push_bit 54 (ucast (mcc2 (rn_plmn a))) OR push_bit 50 (ucast (mcc3 (rn_plmn a))) OR
      push_bit 46 (ucast (mnc1 (rn_plmn a))) OR push_bit 42 (ucast (mnc2 (rn_plmn a))) OR push_bit 38 (ucast (mnc3 (rn_plmn a))) OR
      push_bit 36 (type_code (rn_type a)) OR push_bit 32 (enb_code (rn_enb a))) +
     (ucast (rn_id a) AND 0xFFFFFFFF)"

definition node_eq :: "RanNodeId \<Rightarrow> RanNodeId \<Rightarrow> bool" where
  "node_eq a b \<longleftrightarrow> mcc1 (rn_plmn a) = mcc1 (rn_plmn b) \<and> mcc2 (rn_plmn a) = mcc2 (rn_plmn b) \<and>
     mcc3 (rn_plmn a) = mcc3 (rn_plmn b) \<and> mnc1 (rn_plmn a) = mnc1 (rn_plmn b) \<and>
     mnc2 (rn_plmn a) = mnc2 (rn_plmn b) \<and> mnc3 (rn_plmn a) = mnc3 (rn_plmn b) \<and>
     rn_type a = rn_type b \<and> rn_enb a = rn_enb b \<and> rn_id a = rn_id b"

definition node_less :: "RanNodeId \<Rightarrow> RanNodeId \<Rightarrow> bool" where
  "node_less a b \<longleftrightarrow> touint64_t a < touint64_t b"

text \<open>The digits are printed with the stream operator of their type, which is that of characters.\<close>

definition node_toString :: "RanNodeId \<Rightarrow> string" where
  "node_toString a = ''RanNodeId:('' @
     concat (map (\<lambda>(n, f). '' '' @ n @ '':'' @ [char_of (unat (f (rn_plmn a)))])
       [(''MCC1'', mcc1), (''MCC2'', mcc2), (''MCC3'', mcc3), (''MNC1'', mnc1), (''MNC2'', mnc2), (''MNC3'', mnc3)]) @
     (case rn_type a of RNT_GNB_ID \<Rightarrow> '' Type:GNB'' | RNT_NG_ENB_ID \<Rightarrow> '' Type:NGENB'' | RNT_N3IWF_ID \<Rightarrow> '' Type:N3IWF'') @
     (case rn_enb a of RNET_MACRO_NG_ENB \<Rightarrow> '' NgEnbType:MACRO'' | RNET_SHORT_NG_ENB \<Rightarrow> '' NgEnbType:SHORT''
       | RNET_LONG_NG_ENB \<Rightarrow> '' NgEnbType:LONG'' | RNET_NULL \<Rightarrow> '' NgEnbType:NULL'') @
     '' ID:'' @ dec_nat (unat (rn_id a)) @ '')''"

section \<open>Tracking areas\<close>

record tai =
  tai_MCC :: "16 word"
  tai_MNC :: "16 word"
  tai_TAC :: "16 word"
  tai_Valid :: bool
  tai_Ascii :: string
  tai_Hex :: string

definition Tai_default :: tai where
  "Tai_default = \<lparr>tai_MCC = 0xFFFF, tai_MNC = 0xFFFF, tai_TAC = 0xFFFF, tai_Valid = True, tai_Ascii = [], tai_Hex = []\<rparr>"

definition hex_char :: "nat \<Rightarrow> char" where
  "hex_char d = (if d < 10 then char_of (48 + d) else char_of (87 + d))"

fun hex_nat :: "nat \<Rightarrow> string" where
  "hex_nat n = (if n < 16 then [hex_char n] else hex_nat (n div 16) @ [hex_char (n mod 16)])"

declare hex_nat.simps [simp del]

definition pad2 :: "string \<Rightarrow> string" where
  "pad2 s = (if length s < 2 then CHR ''0'' # s else s)"

definition getFqdn :: "tai \<Rightarrow> string" where
  "getFqdn t = (let tac_lb = unat (tai_TAC t AND 0xFF); tac_hb = unat (drop_bit 8 (tai_TAC t AND 0xFF00)) in
     ''tac-lb'' @ pad2 (hex_nat tac_lb) @ ''.tac-hb'' @ pad2 (hex_nat tac_hb) @
     ''.tac.epc.mnc'' @ pad2 (hex_nat (unat (tai_MNC t))) @ ''.mcc'' @ hex_nat (unat (tai_MCC t)) @ ''.3gppnetwork.org'')"

definition tai_toString :: "tai \<Rightarrow> string" where
  "tai_toString t = ''Tai:('' @ '' MCC:'' @ dec_nat (unat (tai_MCC t)) @ '' MNC:'' @ dec_nat (unat (tai_MNC t)) @
     '' TAC:'' @ dec_nat (unat (tai_TAC t)) @ '')''"

definition tai_eq :: "tai \<Rightarrow> tai \<Rightarrow> bool" where
  "tai_eq a b \<longleftrightarrow> tai_Valid a \<and> tai_Valid b \<and> tai_MCC a = tai_MCC b \<and> tai_MNC a = tai_MNC b \<and>
     tai_TAC a = tai_TAC b \<and> tai_Ascii a = tai_Ascii b \<and> tai_Hex a = tai_Hex b"

section \<open>Order\<close>

text \<open>Every field can be read off the number.\<close>

fun type_bits :: "RanNodeType \<Rightarrow> 2 word" where
  "type_bits RNT_GNB_ID = 1" | "type_bits RNT_NG_ENB_ID = 2" | "type_bits RNT_N3IWF_ID = 3"

fun enb_bits :: "RanNgEnbType \<Rightarrow> 4 word" where
  "enb_bits RNET_MACRO_NG_ENB = 1" | "enb_bits RNET_SHORT_NG_ENB = 2" | "enb_bits RNET_LONG_NG_ENB = 3"
| "enb_bits RNET_NULL = 0xF"

lemma codes: "type_code t = ucast (type_bits t)" "enb_code b = ucast (enb_bits b)"
  by (cases t, simp_all) (cases b, simp_all)

lemma codes_inj: "type_bits t = type_bits t' \<longleftrightarrow> t = t'" "enb_bits b = enb_bits b' \<longleftrightarrow> b = b'"
  by (cases t; cases t', simp_all) (cases b; cases b', simp_all)

lemma small_bit: "bit (w :: 4 word) n \<Longrightarrow> n < 4" "bit (v :: 2 word) n \<Longrightarrow> n < 2" "bit (u :: 32 word) n \<Longrightarrow> n < 32"
  using bit_imp_le_length [of w n] bit_imp_le_length [of v n] bit_imp_le_length [of u n] by simp_all

lemma low_mask: "ucast (w :: 32 word) AND 0xFFFFFFFF = (ucast w :: 64 word)"
proof -
  have m: "(0xFFFFFFFF :: 64 word) = mask 32" by (simp add: mask_eq_exp_minus_1)
  show ?thesis unfolding m by (rule bit_word_eqI) (auto simp: bit_simps dest: small_bit)
qed

lemma widened_bit: "bit (ucast (w :: 32 word) :: 64 word) i \<longleftrightarrow> i < 64 \<and> bit w i"
  by (simp add: bit_simps)

lemma shifted_bit:
  "bit (push_bit k (ucast (w :: 4 word)) :: 64 word) i \<longleftrightarrow> i < 64 \<and> k \<le> i \<and> bit w (i - k)"
  "bit (push_bit k (ucast (v :: 2 word)) :: 64 word) i \<longleftrightarrow> i < 64 \<and> k \<le> i \<and> bit v (i - k)"
  by (auto simp: bit_simps dest: small_bit)

lemma node_bits:
  "bit (touint64_t a) i \<longleftrightarrow> i < 64 \<and>
     (58 \<le> i \<and> bit (mcc1 (rn_plmn a)) (i - 58) \<or> 54 \<le> i \<and> bit (mcc2 (rn_plmn a)) (i - 54) \<or>
      50 \<le> i \<and> bit (mcc3 (rn_plmn a)) (i - 50) \<or> 46 \<le> i \<and> bit (mnc1 (rn_plmn a)) (i - 46) \<or>
      42 \<le> i \<and> bit (mnc2 (rn_plmn a)) (i - 42) \<or> 38 \<le> i \<and> bit (mnc3 (rn_plmn a)) (i - 38) \<or>
      36 \<le> i \<and> bit (type_bits (rn_type a)) (i - 36) \<or> 32 \<le> i \<and> bit (enb_bits (rn_enb a)) (i - 32) \<or>
      bit (rn_id a) i)"
proof -
  let ?h = "push_bit 58 (ucast (mcc1 (rn_plmn a))) OR push_bit 54 (ucast (mcc2 (rn_plmn a))) OR push_bit 50 (ucast (mcc3 (rn_plmn a))) OR
      push_bit 46 (ucast (mnc1 (rn_plmn a))) OR push_bit 42 (ucast (mnc2 (rn_plmn a))) OR push_bit 38 (ucast (mnc3 (rn_plmn a))) OR
      push_bit 36 (type_code (rn_type a)) OR push_bit 32 (enb_code (rn_enb a)) :: 64 word"
  have "\<not> bit ?h n" if "n < 32" for n using that by (simp add: bit_simps)
  moreover have "\<not> bit (ucast (rn_id a) :: 64 word) n" if "\<not> n < 32" for n
    using that by (auto simp: bit_simps dest: small_bit)
  ultimately have "\<not> bit ?h n \<or> \<not> bit (ucast (rn_id a) :: 64 word) n" for n by blast
  then have e: "touint64_t a = ?h OR ucast (rn_id a)"
    unfolding touint64_t_def low_mask by (rule disjunctive_add)
  show ?thesis unfolding e codes bit_or_iff shifted_bit widened_bit by argo
qed

lemma high_bit [simp]: "4 \<le> n \<Longrightarrow> \<not> bit (w :: 4 word) n" "2 \<le> n \<Longrightarrow> \<not> bit (v :: 2 word) n"
    "32 \<le> n \<Longrightarrow> \<not> bit (u :: 32 word) n"
  by (auto dest: small_bit)

lemma field_bits:
  "n < 4 \<Longrightarrow> bit (mcc1 (rn_plmn a)) n = bit (touint64_t a) (n + 58)"
  "n < 4 \<Longrightarrow> bit (mcc2 (rn_plmn a)) n = bit (touint64_t a) (n + 54)"
  "n < 4 \<Longrightarrow> bit (mcc3 (rn_plmn a)) n = bit (touint64_t a) (n + 50)"
  "n < 4 \<Longrightarrow> bit (mnc1 (rn_plmn a)) n = bit (touint64_t a) (n + 46)"
  "n < 4 \<Longrightarrow> bit (mnc2 (rn_plmn a)) n = bit (touint64_t a) (n + 42)"
  "n < 4 \<Longrightarrow> bit (mnc3 (rn_plmn a)) n = bit (touint64_t a) (n + 38)"
  "n < 2 \<Longrightarrow> bit (type_bits (rn_type a)) n = bit (touint64_t a) (n + 36)"
  "n < 4 \<Longrightarrow> bit (enb_bits (rn_enb a)) n = bit (touint64_t a) (n + 32)"
  "n < 32 \<Longrightarrow> bit (rn_id a) n = bit (touint64_t a) n"
  by (simp_all add: node_bits)

lemma touint64_inj:
  assumes "touint64_t a = touint64_t b"
  shows "node_eq a b"
proof -
  have "mcc1 (rn_plmn a) = mcc1 (rn_plmn b)" "mcc2 (rn_plmn a) = mcc2 (rn_plmn b)" "mcc3 (rn_plmn a) = mcc3 (rn_plmn b)"
    "mnc1 (rn_plmn a) = mnc1 (rn_plmn b)" "mnc2 (rn_plmn a) = mnc2 (rn_plmn b)" "mnc3 (rn_plmn a) = mnc3 (rn_plmn b)"
    "rn_id a = rn_id b"
    by (rule bit_word_eqI, simp add: field_bits assms)+
  moreover have "type_bits (rn_type a) = type_bits (rn_type b)" "enb_bits (rn_enb a) = enb_bits (rn_enb b)"
    by (rule bit_word_eqI, simp add: field_bits assms)+
  ultimately show ?thesis by (simp add: node_eq_def codes_inj)
qed

lemma node_eq_iff: "node_eq a b \<longleftrightarrow> a = b"
  by (cases a; cases b) (auto simp: node_eq_def intro: plmn_id.equality)

text \<open>Radio nodes are linearly ordered; this is the order of the keys of the maps.\<close>

instantiation RanNodeId :: linorder
begin

definition less_RanNodeId :: "RanNodeId \<Rightarrow> RanNodeId \<Rightarrow> bool" where
  "less_RanNodeId a b = node_less a b"

definition less_eq_RanNodeId :: "RanNodeId \<Rightarrow> RanNodeId \<Rightarrow> bool" where
  "less_eq_RanNodeId a b = (touint64_t a \<le> touint64_t b)"

instance
proof
  fix a b c :: RanNodeId
  show "a < b \<longleftrightarrow> a \<le> b \<and> \<not> b \<le> a" by (auto simp: less_RanNodeId_def less_eq_RanNodeId_def node_less_def)
  show "a \<le> a" by (simp add: less_eq_RanNodeId_def)
  show "a \<le> b \<Longrightarrow> b \<le> c \<Longrightarrow> a \<le> c" by (auto simp: less_eq_RanNodeId_def)
  show "a = b" if "a \<le> b" "b \<le> a"
  proof -
    have "touint64_t a = touint64_t b" using that by (simp add: less_eq_RanNodeId_def)
    then show ?thesis by (simp add: touint64_inj flip: node_eq_iff)
  qed
  show "a \<le> b \<or> b \<le> a" by (auto simp: less_eq_RanNodeId_def)
qed

end

text \<open>C36. The number of a radio node determines it: two nodes are equal exactly when their numbers are,
  so the order of the nodes is a strict total order that agrees with their equality, which is what the
  maps with radio nodes as keys rely on.\<close>

theorem node_order_total:
  "(node_eq a b \<longleftrightarrow> touint64_t a = touint64_t b) \<and> (node_eq a b \<longleftrightarrow> \<not> node_less a b \<and> \<not> node_less b a) \<and>
   \<not> (node_less a b \<and> node_less b a)"
proof -
  have "node_eq a b \<longleftrightarrow> touint64_t a = touint64_t b"
    using touint64_inj [of a b] node_eq_iff [of a b] by auto
  then show ?thesis by (auto simp: node_less_def)
qed

text \<open>A network that is built from a country and a network code gives them and the length of the
  network code back.\<close>

lemma plmn_roundtrip:
  assumes "mcc < 1000" "mnc_len = 2 \<and> mnc < 100 \<or> mnc_len = 3 \<and> mnc < 1000"
  shows "plmn_id_mcc (plmn_id_build mcc mnc mnc_len) = mcc \<and> plmn_id_mnc (plmn_id_build mcc mnc mnc_len) = mnc \<and>
     plmn_id_mnc_len (plmn_id_build mcc mnc mnc_len) = mnc_len"
proof -
  have d: "unat (of_nat m :: 4 word) = m" if "m < 10" for m
    using that by (simp add: unat_of_nat take_bit_nat_eq_self)
  have f: "(of_nat (n mod 10) :: 4 word) \<noteq> 0xF" for n
  proof
    assume "(of_nat (n mod 10) :: 4 word) = 0xF"
    then have "n mod 10 = unat (0xF :: 4 word)" using d [of "n mod 10"] by simp
    also have "\<dots> = 15" by simp
    finally show False using mod_less_divisor [of 10 n] by simp
  qed
  have ten: "n div 10 mod 10 * 10 + n mod 10 = n" if "n < 100" for n :: nat
  proof -
    have "n div 10 < 10" using that by (simp add: less_mult_imp_div_less)
    then show ?thesis by (simp add: div_mult_mod_eq)
  qed
  have hundred: "n div 10 div 10 mod 10 * 10 * 10 + n div 10 mod 10 * 10 + n mod 10 = n" if "n < 1000" for n :: nat
  proof -
    have "n div 10 < 100" using that by (simp add: less_mult_imp_div_less)
    from ten [OF this] have "n div 10 div 10 mod 10 * 10 + n div 10 mod 10 = n div 10" .
    then have "(n div 10 div 10 mod 10 * 10 + n div 10 mod 10) * 10 + n mod 10 = n div 10 * 10 + n mod 10" by (rule arg_cong)
    then show ?thesis by (simp only: add_mult_distrib div_mult_mod_eq)
  qed
  show ?thesis using assms ten hundred
    by (auto simp: plmn_id_build_def plmn_id_mcc_def plmn_id_mnc_def plmn_id_mnc_len_def PLMN_ID_DIGIT1_def
        PLMN_ID_DIGIT2_def PLMN_ID_DIGIT3_def d f)
qed


end
