(* ===== verification/Ngap_Ies.thy ===== *)
theory Ngap_Ies
  imports Node_Ids
begin

text \<open>
  The decoded network messages of the signalling gateway (NgapMessage.h). The ASN.1 library is not part
  of the repository: a decoded message is its kind, its procedure and the list of its information
  elements, of which the gateway reads the ones below. A bit or byte_char string is the list of its bytes; \<^term>\<open>None\<close>
  is a buffer that is \<open>NULL\<close>. A transfer container is kept as its bytes until it is decoded.
\<close>

section \<open>Kinds and procedures\<close>

datatype pdu_choice = PDU_NOTHING | PDU_initiatingMessage | PDU_successfulOutcome | PDU_unsuccessfulOutcome

text \<open>\<open>id_AMFConfigurationUpdate\<close> is the procedure with the number 0.\<close>

datatype proc_code = id_AMFConfigurationUpdate | id_AMFStatusIndication | id_DeactivateTrace | id_DownlinkNASTransport |
  id_DownlinkNonUEAssociatedNRPPaTransport | id_DownlinkRANStatusTransfer | id_DownlinkUEAssociatedNRPPaTransport |
  id_ErrorIndication | id_HandoverCancel | id_HandoverNotification | id_HandoverPreparation | id_HandoverResourceAllocation |
  id_InitialContextSetup | id_InitialUEMessage | id_LocationReportingControl | id_LocationReport | id_NASNonDeliveryIndication |
  id_NGReset | id_NGSetup | id_OverloadStart | id_OverloadStop | id_Paging | id_PathSwitchRequest | id_PDUSessionResourceModify |
  id_PDUSessionResourceModifyIndication | id_PDUSessionResourceRelease | id_PDUSessionResourceSetup |
  id_PDUSessionResourceNotify | id_PWSCancel | id_RANConfigurationUpdate | id_RerouteNASRequest |
  id_RRCInactiveTransitionReport | id_TraceStart | id_UEContextModification | id_UEContextRelease |
  id_UEContextReleaseRequest | id_UERadioCapabilityCheck | id_UERadioCapabilityInfoIndication | id_UETNLABindingRelease |
  id_UplinkNASTransport | id_UplinkRANStatusTransfer | id_WriteReplaceWarning | id_other nat

section \<open>Information elements\<close>

record gtp_tunnel =
  gt_teid :: "string option"
  gt_addr :: string

datatype tnl_information = TNL_gTPTunnel gtp_tunnel | TNL_other

text \<open>A session of a list of sessions: its identifier, its slice (type and differentiator) and its container.\<close>

record pdu_item =
  pi_id :: nat
  pi_sst :: "string option"
  pi_sd :: "string option"
  pi_transfer :: string

text \<open>What is in the containers: the elements of a request, and the answer.\<close>

record qos_flow =
  qf_identifier :: nat
  qf_nonDynamic :: "(nat \<times> nat option) option option"
  qf_priorityLevelARP :: nat
  qf_pre_emptionCapability :: nat
  qf_pre_emptionVulnerability :: nat

datatype pdu_type = PT_ipv4 | PT_ipv6 | PT_ipv4v6 | PT_other nat

datatype setup_ie =
    TI_PDUSessionAggregateMaximumBitRate nat nat
  | TI_PDUSessionType pdu_type
  | TI_QosFlowSetupRequestList "qos_flow list"
  | TI_UL_NGU_UP_TNLInformation tnl_information
  | TI_other nat string

text \<open>
  The containers of the answers and of a path switch: the end of the tunnel, the result of the security
  check, the quality of service flows and the forwarding of radio bearers.
\<close>

record drb_item =
  dr_id :: nat
  dr_dl :: "tnl_information option"
  dr_ul :: "tnl_information option"

record setup_rsp =
  sr_tnl :: tnl_information
  sr_security :: bool
  sr_flows :: "nat list"
  sr_drbs :: "drb_item list option"
  sr_rest :: string

record ho_command =
  hc_flows :: "nat list"
  hc_drbs :: "drb_item list option"

text \<open>
  A codec of a container: the encoder gives the bytes it has written and the number of their bits.
  In the container of a handover are the target cell (network and identity) and the radio bearers of every
  PDU session.
\<close>

record 'a codec =
  cd_dec :: "string \<Rightarrow> 'a option"
  cd_enc :: "'a \<Rightarrow> (string \<times> nat) option"

record s2t_container =
  st_nR_CGI :: "(string \<times> string) option"
  st_drbs :: "(nat \<times> nat list) list option"

text \<open>The target of a handover: a radio node with the tracking area (network and code).\<close>

datatype count_value = COUNT12 nat nat | COUNT18 nat nat | COUNT_other

record drb_status =
  ds_id :: nat
  ds_ul :: count_value
  ds_dl :: count_value

datatype ue_ngap_ids = UE_pair nat nat | UE_amf nat | UE_other

datatype reset_type = Reset_nG_Interface | Reset_partOfNG_Interface

datatype ngran_id = GNB_ID string | GNB_ID_other | ENB_macro string | ENB_short_macro string | ENB_long_macro string | ENB_other

datatype global_node_id = Global_gNB string ngran_id | Global_ngENB string ngran_id | Global_other

datatype target_id = Target_RAN global_node_id string string | Target_other

text \<open>The causes the gateway gives itself; another one is passed on.\<close>

datatype cause = Cause_unspecified | Cause_successful_handover | Cause_handover_desirable | Cause_unknown_PLMN | Cause_other nat

datatype time_to_wait = TTW_v1s | TTW_v2s | TTW_v5s | TTW_v10s | TTW_v20s | TTW_v60s

text \<open>A tracking area: its code and, for every network of it, the slices.\<close>

record ta_item =
  ta_tac :: string
  ta_plmns :: "(string \<times> string list) list"

datatype ngap_ie =
    IE_RAN_UE_NGAP_ID nat
  | IE_AMF_UE_NGAP_ID nat
  | IE_SourceAMF_UE_NGAP_ID nat
  | IE_UE_NGAP_IDs ue_ngap_ids
  | IE_NAS_PDU string
  | IE_ResetType reset_type
  | IE_UEAggregateMaximumBitRate nat nat
  | IE_GUAMI string string string string
  | IE_AllowedNSSAI "(string \<times> string option) list"
  | IE_UESecurityCapabilities string string string string
  | IE_SecurityKey string
  | IE_SetupListSUReq "pdu_item list"
  | IE_SetupListCxtReq "pdu_item list"
  | IE_SetupListSURes "pdu_item list"
  | IE_SetupListCxtRes "pdu_item list"
  | IE_ModifyListModReq "pdu_item list"
  | IE_ReleaseListRelCmd "nat list"
  | IE_GlobalRANNodeID global_node_id
  | IE_RANNodeName string
  | IE_SupportedTAList "ta_item list"
  | IE_PagingDRX nat
  | IE_DefaultPagingDRX nat
  | IE_AMFName string
  | IE_RelativeAMFCapacity nat
  | IE_ServedGUAMIList "(string \<times> string \<times> string \<times> string) list"
  | IE_PLMNSupportList "(string \<times> string list) list"
  | IE_Cause cause
  | IE_TimeToWait time_to_wait
  | IE_WarningAreaList
  | IE_TAIListForPaging "string list"
  | IE_UnavailableGUAMIList nat
  | IE_SetupListHOReq "pdu_item list"
  | IE_AdmittedList "pdu_item list"
  | IE_ToBeSwitchedDLList "pdu_item list"
  | IE_SwitchedList "pdu_item list"
  | IE_SourceToTarget string
  | IE_TargetToSource string
  | IE_SecurityContext nat string
  | IE_HandoverType bool
  | IE_TargetID target_id
  | IE_HandoverList "(nat \<times> string) list"
  | IE_RANStatusTransfer "drb_status list"
  | IE_UserLocation string string string string
  | IE_other nat string

text \<open>
  A network in three bytes, the first digit of each pair in the low half (PlmnUtil.h), and the byte of a
  number that is stored in a \<open>uint8_t\<close>.
\<close>

abbreviation byte_char :: "nat \<Rightarrow> char" where
  "byte_char n \<equiv> char_of n"

abbreviation char_byte :: "char \<Rightarrow> nat" where
  "char_byte c \<equiv> of_char c"

definition PLMN_ID_LEN :: nat where
  "PLMN_ID_LEN = 3"

definition plmn_bytes :: "plmn_id \<Rightarrow> string" where
  "plmn_bytes p = [byte_char (unat (mcc1 p) + 16 * unat (mcc2 p)), byte_char (unat (mcc3 p) + 16 * unat (mnc1 p)),
     byte_char (unat (mnc2 p) + 16 * unat (mnc3 p))]"

definition plmn_of_bytes :: "string \<Rightarrow> plmn_id option" where
  "plmn_of_bytes b = (if length b < PLMN_ID_LEN then None else
     let x = char_byte (b ! 0); y = char_byte (b ! 1); z = char_byte (b ! 2) in
     Some \<lparr>mcc1 = of_nat (x mod 16), mcc2 = of_nat (x div 16), mcc3 = of_nat (y mod 16), mnc1 = of_nat (y div 16),
       mnc2 = of_nat (z mod 16), mnc3 = of_nat (z div 16)\<rparr>)"

lemma nibble_less: "unat (w :: 4 word) < 16"
  using unsigned_less[of w] by simp

lemma plmn_bytes_roundtrip [simp]: "plmn_of_bytes (plmn_bytes p @ rest) = Some p"
proof -
  have "char_byte (byte_char (unat a + 16 * unat b)) = unat a + 16 * unat b" for a b :: "4 word"
    using nibble_less[of a] nibble_less[of b] by (simp add: of_char_of)
  then show ?thesis by (simp add: plmn_bytes_def plmn_of_bytes_def PLMN_ID_LEN_def Let_def nibble_less)
qed

lemma length_plmn_bytes [simp]: "length (plmn_bytes p) = PLMN_ID_LEN"
  by (simp add: plmn_bytes_def PLMN_ID_LEN_def)

section \<open>Reading and rewriting elements\<close>

text \<open>
  Every handler runs over the elements and keeps a pointer to the last element of each kind it needs. The
  element is read, and sometimes rewritten in place, through this pointer.
\<close>

definition last_ie :: "(ngap_ie \<Rightarrow> 'a option) \<Rightarrow> ngap_ie list \<Rightarrow> 'a option" where
  "last_ie f ies = fold (\<lambda>ie acc. case f ie of None \<Rightarrow> acc | Some x \<Rightarrow> Some x) ies None"

fun set_last_ie :: "(ngap_ie \<Rightarrow> bool) \<Rightarrow> ngap_ie \<Rightarrow> ngap_ie list \<Rightarrow> ngap_ie list" where
  "set_last_ie sel v [] = []"
| "set_last_ie sel v (ie # ies) =
     (if list_ex sel ies then ie # set_last_ie sel v ies else if sel ie then v # ies else ie # ies)"

fun upd_last_ie :: "(ngap_ie \<Rightarrow> bool) \<Rightarrow> (ngap_ie \<Rightarrow> ngap_ie) \<Rightarrow> ngap_ie list \<Rightarrow> ngap_ie list" where
  "upd_last_ie sel f [] = []"
| "upd_last_ie sel f (ie # ies) =
     (if list_ex sel ies then ie # upd_last_ie sel f ies else if sel ie then f ie # ies else ie # ies)"

fun ran_id :: "ngap_ie \<Rightarrow> nat option" where
  "ran_id (IE_RAN_UE_NGAP_ID n) = Some n" | "ran_id _ = None"

fun amf_id :: "ngap_ie \<Rightarrow> nat option" where
  "amf_id (IE_AMF_UE_NGAP_ID n) = Some n" | "amf_id _ = None"

fun source_amf_id :: "ngap_ie \<Rightarrow> nat option" where
  "source_amf_id (IE_SourceAMF_UE_NGAP_ID n) = Some n" | "source_amf_id _ = None"

definition set_ran_id :: "nat \<Rightarrow> ngap_ie list \<Rightarrow> ngap_ie list" where
  "set_ran_id n = set_last_ie (\<lambda>ie. ran_id ie \<noteq> None) (IE_RAN_UE_NGAP_ID n)"

definition set_amf_id :: "nat \<Rightarrow> ngap_ie list \<Rightarrow> ngap_ie list" where
  "set_amf_id n = set_last_ie (\<lambda>ie. amf_id ie \<noteq> None) (IE_AMF_UE_NGAP_ID n)"

lemma last_ie_append [simp]:
  "last_ie f (ies @ [ie]) = (case f ie of None \<Rightarrow> last_ie f ies | Some x \<Rightarrow> Some x)"
  unfolding last_ie_def fold_append fold_simps comp_apply ..

lemma last_ie_Nil [simp]: "last_ie f [] = None"
  by (simp add: last_ie_def)

lemma last_ie_Cons: "last_ie f (ie # ies) = (case last_ie f ies of None \<Rightarrow> f ie | Some x \<Rightarrow> Some x)"
  by (induction ies rule: rev_induct) (auto simp: last_ie_def split: option.splits)

lemma last_ie_ex: "last_ie f ies = None \<longleftrightarrow> \<not> list_ex (\<lambda>ie. f ie \<noteq> None) ies"
  by (induction ies) (auto simp: last_ie_Cons split: option.splits)

lemma last_ie_other:
  assumes "\<And>ie. sel ie \<Longrightarrow> f ie = f v"
  shows "last_ie f (set_last_ie sel v ies) = last_ie f ies"
  using assms by (induction ies) (auto simp: last_ie_Cons split: option.splits)

lemma last_ie_set_same:
  assumes "f v = Some x" "last_ie f ies \<noteq> None"
  shows "last_ie f (set_last_ie (\<lambda>ie. f ie \<noteq> None) v ies) = Some x"
  using assms(2)
proof (induction ies)
  case (Cons ie ies)
  show ?case
  proof (cases "last_ie f ies")
    case None
    then have "\<not> list_ex (\<lambda>ie. f ie \<noteq> None) ies" by (simp add: last_ie_ex)
    then show ?thesis using None Cons.prems assms(1) by (auto simp: last_ie_Cons)
  next
    case (Some y)
    then have "list_ex (\<lambda>ie. f ie \<noteq> None) ies" using last_ie_ex[of f ies] by auto
    then show ?thesis using Some Cons.IH by (simp add: last_ie_Cons)
  qed
qed simp

lemma length_set_last_ie [simp]: "length (set_last_ie sel v ies) = length ies"
  by (induction ies) auto

text \<open>An element is replaced in place; the others and the order stay.\<close>

lemma set_last_ie_at:
  assumes "list_ex sel ies"
  obtains xs ie ys where "ies = xs @ ie # ys" "sel ie" "\<not> list_ex sel ys" "set_last_ie sel v ies = xs @ v # ys"
proof -
  have "\<exists>xs ie ys. ies = xs @ ie # ys \<and> sel ie \<and> \<not> list_ex sel ys \<and> set_last_ie sel v ies = xs @ v # ys"
    using assms
  proof (induction ies)
    case (Cons a as)
    show ?case
    proof (cases "list_ex sel as")
      case True
      then obtain xs ie ys where *: "as = xs @ ie # ys" "sel ie" "\<not> list_ex sel ys" "set_last_ie sel v as = xs @ v # ys"
        using Cons.IH by blast
      have "a # as = (a # xs) @ ie # ys" "set_last_ie sel v (a # as) = (a # xs) @ v # ys" using * True by simp_all
      then show ?thesis using *(2,3) by blast
    next
      case False
      then have "sel a" using Cons.prems by simp
      then have "a # as = [] @ a # as" "set_last_ie sel v (a # as) = [] @ v # as" using False by simp_all
      then show ?thesis using False \<open>sel a\<close> by blast
    qed
  qed simp
  then show ?thesis using that by blast
qed

lemma ran_set_ran [simp]: "last_ie ran_id (set_ran_id n ies) = map_option (\<lambda>_. n) (last_ie ran_id ies)"
proof (cases "last_ie ran_id ies")
  case None
  then have "\<not> list_ex (\<lambda>ie. ran_id ie \<noteq> None) ies" by (simp add: last_ie_ex)
  then have "set_ran_id n ies = ies" unfolding set_ran_id_def by (induction ies) auto
  then show ?thesis using None by simp
next
  case (Some m)
  then have "last_ie ran_id (set_ran_id n ies) = Some n" unfolding set_ran_id_def by (intro last_ie_set_same) simp_all
  then show ?thesis using Some by simp
qed

lemma amf_set_amf [simp]: "last_ie amf_id (set_amf_id n ies) = map_option (\<lambda>_. n) (last_ie amf_id ies)"
proof (cases "last_ie amf_id ies")
  case None
  then have "\<not> list_ex (\<lambda>ie. amf_id ie \<noteq> None) ies" by (simp add: last_ie_ex)
  then have "set_amf_id n ies = ies" unfolding set_amf_id_def by (induction ies) auto
  then show ?thesis using None by simp
next
  case (Some m)
  then have "last_ie amf_id (set_amf_id n ies) = Some n" unfolding set_amf_id_def by (intro last_ie_set_same) simp_all
  then show ?thesis using Some by simp
qed

lemma ran_id_cases: "ran_id ie \<noteq> None \<longleftrightarrow> (\<exists>n. ie = IE_RAN_UE_NGAP_ID n)"
  by (cases ie) auto

lemma amf_id_cases: "amf_id ie \<noteq> None \<longleftrightarrow> (\<exists>n. ie = IE_AMF_UE_NGAP_ID n)"
  by (cases ie) auto

lemma ran_set_amf [simp]: "last_ie ran_id (set_amf_id n ies) = last_ie ran_id ies"
  unfolding set_amf_id_def amf_id_cases by (rule last_ie_other) auto

lemma amf_set_ran [simp]: "last_ie amf_id (set_ran_id n ies) = last_ie amf_id ies"
  unfolding set_ran_id_def ran_id_cases by (rule last_ie_other) auto

end
