(* ===== verification/Ngap_Sess.thy ===== *)
theory Ngap_Sess
  imports Gateway_Events Ngap_Ies
begin

text \<open>
  The state of the signalling gateway and its NGAP sessions (NgapSessManager.cc): creation with a free
  identifier, lookup, the delayed release, the supervision timers and the containers kept for handovers.

  The tables of the two session managers have 100000 entries; an access outside is \<^term>\<open>None\<close>. A pending
  timer is kept with the address it was started for; what other managers do with a message is recorded
  in a log.
\<close>

section \<open>State\<close>

abbreviation MAX_SIG_SESSIONS :: nat where
  "MAX_SIG_SESSIONS \<equiv> 100000"

abbreviation INVALIDE_ID :: nat where
  "INVALIDE_ID \<equiv> 0xFFFFFFFF"

definition INVALIDE_ID_X64 :: nat where
  "INVALIDE_ID_X64 = 0x7FFFFFFFFFFFFFFF"

definition INVALID_PDU_SESSION_ID :: nat where
  "INVALID_PDU_SESSION_ID = 0xFF"

definition MAX_PDU_SESSION_SIZE :: nat where
  "MAX_PDU_SESSION_SIZE = 20"

definition SIG_NEXT_ID :: "nat \<Rightarrow> nat \<Rightarrow> nat \<Rightarrow> nat" where
  "SIG_NEXT_ID i mn mx = (if i = mx then mn else i + 1)"

datatype ran_gw_relation = Ralation_RAN_Handover_NULL | Ralation_RAN_Handover_IN_SAME_GW | Ralation_RAN_Handover_NOT_IN_SAME_GW

datatype handover_state = HO_State_NULL | HO_State_IN_SAME_GW | HO_State_SendRelCommandWaitRelComplete

record guami_cfg =
  gu_AMFRegionID :: nat
  gu_AMFSetId :: nat
  gu_AMFPointer :: nat
  gu_plmn :: string

record ngap_session =
  ns_sessId :: nat
  ns_amfId :: nat
  ns_amfUeId :: nat
  ns_gnbUeId :: nat
  ns_gnbId :: RanNodeId
  ns_gnb_sctp_index :: nat
  ns_stream_no :: nat
  ns_eHandoverflag :: ran_gw_relation
  ns_TgtGnbId :: RanNodeId
  ns_TgtGnbUeId :: nat
  ns_eHOState :: handover_state
  ns_maxBitrateUl :: nat
  ns_maxBitrateDl :: nat
  ns_allowedSNnsaiSD :: nat
  ns_allowedSNnsaiSST :: nat
  ns_nRencryptionAlgorithms :: nat
  ns_nRintegrityProtectionAlgorithms :: nat
  ns_eUTRAencryptionAlgorithms :: nat
  ns_eUTRAintegrityProtectionAlgorithms :: nat
  ns_securityContext :: string
  ns_guami :: guami_cfg
  ns_nextHopChainingCount :: nat
  ns_vecPduSessionID :: "nat list"
  ns_pdu_resource_count :: nat
  ns_pdu_sess_rsp_count :: nat
  ns_release_timer_started :: bool

text \<open>\<open>nm_present\<close>: the decoded message is (still) owned by the structure.\<close>

record ngap_message =
  nm_amfUeId :: nat
  nm_sessId :: nat
  nm_gnbUeId :: nat
  nm_amfId :: nat
  nm_stream_no :: nat
  nm_PDUChoice :: pdu_choice
  nm_ProcCode :: proc_code
  nm_idSigGW :: nat
  nm_ranNodeId :: RanNodeId
  nm_sockSource :: nat
  nm_sockTarget :: nat
  nm_max_sctp_stream :: nat
  nm_present :: bool
  nm_ies :: "ngap_ie list"
  nm_nasMessageType :: nat
  nm_nasSequence :: nat

record sig_path =
  sp_media_teid :: nat
  sp_remote_teid :: nat
  sp_local_addr :: string
  sp_local_addrlen :: nat
  sp_remote_addr :: string
  sp_remote_addrlen :: nat

text \<open>
  What a request says about a PDU session. Of the union of the quality of service only the part for
  non-dynamic characteristics is ever written.
\<close>

record pdu_resource =
  pr_pdu_session_id :: nat
  pr_sst :: nat
  pr_sd :: nat
  pr_maxbitrate_dl :: nat
  pr_maxbitrate_ul :: nat
  pr_qos_flow_id :: nat
  pr_dynamic :: bool
  pr_fiveQI :: nat
  pr_priorityLevelQos :: nat
  pr_priorityLevelARP :: nat
  pr_pre_emptionCapability :: nat
  pr_pre_emptionVulnerability :: nat

definition zero_resource :: pdu_resource where
  "zero_resource = \<lparr>pr_pdu_session_id = 0, pr_sst = 0, pr_sd = 0, pr_maxbitrate_dl = 0, pr_maxbitrate_ul = 0,
     pr_qos_flow_id = 0, pr_dynamic = False, pr_fiveQI = 0, pr_priorityLevelQos = 0, pr_priorityLevelARP = 0,
     pr_pre_emptionCapability = 0, pr_pre_emptionVulnerability = 0\<rparr>"

record sig_media_sess =
  sm_sig_sess_id :: nat
  sm_media_sess_id :: nat
  sm_ngap_sess_id :: nat
  sm_pdu_resource_id :: nat
  sm_MediaGWName :: string
  sm_upf :: sig_path
  sm_gnb :: sig_path
  sm_upfv6 :: sig_path
  sm_gnbv6 :: sig_path
  sm_timer :: bool
  sm_pdu_resource :: pdu_resource
  sm_target_teid :: nat
  sm_target_addr :: string
  sm_target_addrlen :: nat
  sm_target_teid_v6 :: nat
  sm_target_addr_v6 :: string
  sm_target_addrlen_v6 :: nat

datatype sig_timer = Pdu_Timer ptr | Ngap_Timer ptr | Release_Timer ptr

datatype ngap_call =
  AMF_InitialContextSetupReqByMedia ngap_message | AMF_PDUSessionResourceSetupReqByMedia ngap_message |
  AMF_HandoverReqByMedia ngap_message | GNB_InitialContextSetupSuccessRspByMedia ngap_message |
  GNB_PDUSessionSetupRspByMedia ngap_message | GNB_PathSwitchRequestByMedia ngap_message |
  GNB_HandoverReqAckMedia ngap_message | SendDownLayerSctp ngap_message | SendUpLayerSctp ngap_message

record sig_gw =
  sg_ngap_current :: nat
  sg_ngap_stream :: nat
  sg_ngap_list :: "nat \<Rightarrow> ptr"
  sg_ngaps :: "ptr \<Rightarrow> ngap_session option"
  sg_timer_list :: "nat \<Rightarrow> ptr"
  sg_timer_ctx :: "ptr \<Rightarrow> nat option"
  sg_containers :: "nat \<Rightarrow> string option"
  sg_pdu_current :: nat
  sg_pdu_list :: "nat \<Rightarrow> ptr"
  sg_pdus :: "ptr \<Rightarrow> sig_media_sess option"
  sg_msgs :: "nat \<Rightarrow> ngap_message option"
  sg_map :: "nat \<Rightarrow> nat \<Rightarrow> nat"
  sg_drb :: "nat \<Rightarrow> nat option"
  sg_medias :: "(nat \<times> string) list"
  sg_pending :: "sig_timer list"
  sg_calls :: "ngap_call list"
  sg_brk :: ptr

section \<open>NGAP sessions\<close>

definition GetNgapSession :: "sig_gw \<Rightarrow> nat \<Rightarrow> ptr option" where
  "GetNgapSession W i = (if MAX_SIG_SESSIONS \<le> i then None else if sg_ngap_list W i = NULL then None else Some (sg_ngap_list W i))"

definition upd_ngap :: "sig_gw \<Rightarrow> ptr \<Rightarrow> (ngap_session \<Rightarrow> ngap_session) \<Rightarrow> sig_gw option" where
  "upd_ngap W p f = map_option (\<lambda>s. W\<lparr>sg_ngaps := (sg_ngaps W)(p \<mapsto> f s)\<rparr>) (sg_ngaps W p)"

text \<open>The loop over the identifiers: the current one, and the free one if there is any.\<close>

fun sig_slot :: "nat \<Rightarrow> (nat \<Rightarrow> ptr) \<Rightarrow> nat \<Rightarrow> nat \<times> nat option" where
  "sig_slot 0 T i = (i, None)"
| "sig_slot (Suc n) T i = (let i = SIG_NEXT_ID i 1 (MAX_SIG_SESSIONS - 1) in
     if T i = NULL then (i, Some i) else sig_slot n T i)"

definition MAX_SECURITY_CONTEXT_LEN :: nat where
  "MAX_SECURITY_CONTEXT_LEN = 32"

text \<open>The node of a new session and the handover target, and what is left of a handover after a reset.\<close>

definition no_plmn :: plmn_id where
  "no_plmn = \<lparr>mcc1 = 0, mcc2 = 0, mcc3 = 0, mnc1 = 0, mnc2 = 0, mnc3 = 0\<rparr>"

definition new_NgapSession :: ngap_session where
  "new_NgapSession = \<lparr>ns_sessId = INVALIDE_ID, ns_amfId = INVALIDE_ID, ns_amfUeId = INVALIDE_ID_X64,
     ns_gnbUeId = INVALIDE_ID, ns_gnbId = RanNodeId no_plmn RNT_GNB_ID RNET_NULL 0,
     ns_gnb_sctp_index = INVALIDE_ID, ns_stream_no = 0, ns_eHandoverflag = Ralation_RAN_Handover_NULL,
     ns_TgtGnbId = RanNodeId no_plmn RNT_GNB_ID RNET_NULL 0, ns_TgtGnbUeId = INVALIDE_ID, ns_eHOState = HO_State_NULL,
     ns_maxBitrateUl = 0, ns_maxBitrateDl = 0, ns_allowedSNnsaiSD = 0, ns_allowedSNnsaiSST = 0,
     ns_nRencryptionAlgorithms = 0, ns_nRintegrityProtectionAlgorithms = 0, ns_eUTRAencryptionAlgorithms = 0,
     ns_eUTRAintegrityProtectionAlgorithms = 0, ns_securityContext = replicate MAX_SECURITY_CONTEXT_LEN NUL,
     ns_guami = \<lparr>gu_AMFRegionID = 0, gu_AMFSetId = 0, gu_AMFPointer = 0, gu_plmn = replicate 3 NUL\<rparr>, ns_nextHopChainingCount = 0,
     ns_vecPduSessionID = replicate MAX_PDU_SESSION_SIZE INVALID_PDU_SESSION_ID,
     ns_pdu_resource_count = 0, ns_pdu_sess_rsp_count = 0, ns_release_timer_started = False\<rparr>"

definition ResetHandoverInfo :: "ngap_session \<Rightarrow> ngap_session" where
  "ResetHandoverInfo s = s\<lparr>ns_TgtGnbUeId := INVALIDE_ID, ns_eHOState := HO_State_NULL,
     ns_eHandoverflag := Ralation_RAN_Handover_NULL, ns_TgtGnbId := RanNodeId_default\<rparr>"

text \<open>A message that is built by the gateway; its AMF is not initialised.\<close>

definition new_NgapMessage :: "nat \<Rightarrow> ngap_message" where
  "new_NgapMessage junk = \<lparr>nm_amfUeId = INVALIDE_ID_X64, nm_sessId = INVALIDE_ID, nm_gnbUeId = INVALIDE_ID, nm_amfId = junk,
     nm_stream_no = 0, nm_PDUChoice = PDU_NOTHING, nm_ProcCode = id_AMFConfigurationUpdate, nm_idSigGW = 0,
     nm_ranNodeId = RanNodeId_default, nm_sockSource = 0, nm_sockTarget = 0, nm_max_sctp_stream = 0, nm_present = False,
     nm_ies = [], nm_nasMessageType = 0, nm_nasSequence = 0\<rparr>"

definition AddNgapSess :: "sig_gw \<Rightarrow> ptr \<Rightarrow> sig_gw option" where
  "AddNgapSess W p = do {
     s \<leftarrow> sg_ngaps W p;
     ensure (ns_sessId s < MAX_SIG_SESSIONS);
     Some (W\<lparr>sg_ngap_list := (sg_ngap_list W)(ns_sessId s := p)\<rparr>) }"

definition startNgapSessTimer :: "sig_gw \<Rightarrow> nat \<Rightarrow> sig_gw option" where
  "startNgapSessTimer W i = (let p = sg_brk W in do {
     ensure (i < MAX_SIG_SESSIONS);
     Some (W\<lparr>sg_brk := p + 1, sg_timer_ctx := (sg_timer_ctx W)(p \<mapsto> i), sg_timer_list := (sg_timer_list W)(i := p),
       sg_pending := sg_pending W @ [Ngap_Timer p]\<rparr>) })"

text \<open>The stream number is given out and the next one is computed, within the streams of the association.\<close>

definition next_stream :: "sig_gw \<Rightarrow> ngap_message \<Rightarrow> sig_gw" where
  "next_stream W info = (let n = sg_ngap_stream W + 1 in
     W\<lparr>sg_ngap_stream := (if nm_max_sctp_stream info \<le> n then 1 else n)\<rparr>)"

definition NewNgapSession :: "sig_gw \<Rightarrow> ngap_message \<Rightarrow> (sig_gw \<times> ptr option) option" where
  "NewNgapSession W info =
     (let (i, slot) = sig_slot MAX_SIG_SESSIONS (sg_ngap_list W) (sg_ngap_current W); W = W\<lparr>sg_ngap_current := i\<rparr> in
      case slot of
        None \<Rightarrow> Some (W, None)
      | Some sessId \<Rightarrow> do {
          let p = sg_brk W;
          let s = new_NgapSession\<lparr>ns_gnbUeId := nm_gnbUeId info, ns_amfUeId := INVALIDE_ID_X64,
            ns_gnb_sctp_index := nm_sockSource info, ns_sessId := sessId, ns_stream_no := sg_ngap_stream W,
            ns_gnbId := nm_ranNodeId info, ns_amfId := nm_amfId info\<rparr>;
          let W = next_stream W info;
          W \<leftarrow> AddNgapSess (W\<lparr>sg_brk := p + 1, sg_ngaps := (sg_ngaps W)(p \<mapsto> s)\<rparr>) p;
          W \<leftarrow> startNgapSessTimer W sessId;
          Some (W, GetNgapSession W sessId) })"

text \<open>\<open>esm\<close> gives the association of a radio node, as the EsmManager knows it.\<close>

definition NewNgapSessionFromAmf :: "(RanNodeId \<Rightarrow> nat option) \<Rightarrow> sig_gw \<Rightarrow> ngap_message \<Rightarrow> nat \<Rightarrow> (sig_gw \<times> ptr option) option" where
  "NewNgapSessionFromAmf esm W info gNodeId =
     (let (i, slot) = sig_slot MAX_SIG_SESSIONS (sg_ngap_list W) (sg_ngap_current W); W = W\<lparr>sg_ngap_current := i\<rparr> in
      case slot of
        None \<Rightarrow> Some (W, None)
      | Some sessId \<Rightarrow>
          let node = RanNodeId (rn_plmn (ns_gnbId new_NgapSession)) RNT_GNB_ID RNET_NULL (of_nat gNodeId) in
          case esm node of
            None \<Rightarrow> Some (W, None)
          | Some sctp \<Rightarrow> do {
              let p = sg_brk W;
              let s = new_NgapSession\<lparr>ns_gnbUeId := INVALIDE_ID, ns_gnbId := node, ns_gnb_sctp_index := sctp,
                ns_amfId := nm_amfId info, ns_sessId := sessId, ns_stream_no := sg_ngap_stream W\<rparr>;
              let W = next_stream W info;
              W \<leftarrow> AddNgapSess (W\<lparr>sg_brk := p + 1, sg_ngaps := (sg_ngaps W)(p \<mapsto> s)\<rparr>) p;
              Some (W, GetNgapSession W sessId) })"

text \<open>The first session of a radio node with the user and without an AMF side.\<close>

fun find_ngap :: "sig_gw \<Rightarrow> RanNodeId \<Rightarrow> nat \<Rightarrow> nat list \<Rightarrow> ptr option option" where
  "find_ngap W node gnbUeId [] = Some None"
| "find_ngap W node gnbUeId (i # is) = (let p = sg_ngap_list W i in
     if p = NULL then find_ngap W node gnbUeId is
     else do {
       s \<leftarrow> sg_ngaps W p;
       if node_eq (ns_gnbId s) node \<and> ns_gnbUeId s = gnbUeId \<and> ns_amfUeId s = INVALIDE_ID_X64 then Some (Some p)
       else find_ngap W node gnbUeId is })"

definition GetNgapSession_of_node :: "sig_gw \<Rightarrow> RanNodeId \<Rightarrow> nat \<Rightarrow> ptr option option" where
  "GetNgapSession_of_node W node gnbUeId = find_ngap W node gnbUeId [0..<MAX_SIG_SESSIONS]"

definition startSessReleaseTimer :: "sig_gw \<Rightarrow> ptr \<Rightarrow> sig_gw" where
  "startSessReleaseTimer W p = W\<lparr>sg_pending := sg_pending W @ [Release_Timer p]\<rparr>"

text \<open>The identifier \<open>MAX_NGAP_SESSIONS\<close> passes the check.\<close>

definition RemoveNgapSess :: "sig_gw \<Rightarrow> nat \<Rightarrow> sig_gw option" where
  "RemoveNgapSess W i =
     (if MAX_SIG_SESSIONS < i then Some W
      else do {
        ensure (i < MAX_SIG_SESSIONS);
        let p = sg_ngap_list W i;
        if p = NULL then Some W
        else do {
          s \<leftarrow> sg_ngaps W p;
          if ns_release_timer_started s then Some W
          else upd_ngap (startSessReleaseTimer W p) p (\<lambda>s. s\<lparr>ns_release_timer_started := True\<rparr>) } })"

definition DeleteNgapSession :: "sig_gw \<Rightarrow> nat \<Rightarrow> sig_gw option" where
  "DeleteNgapSession W i = RemoveNgapSess W i"

definition GetNgapSess :: "sig_gw \<Rightarrow> nat \<Rightarrow> ptr option" where
  "GetNgapSess W i = (if MAX_SIG_SESSIONS < i then Some NULL else do { ensure (i < MAX_SIG_SESSIONS); Some (sg_ngap_list W i) })"

definition SafeRemoveNgapSess :: "sig_gw \<Rightarrow> nat \<Rightarrow> sig_gw" where
  "SafeRemoveNgapSess W i = (if MAX_SIG_SESSIONS \<le> i then W else W\<lparr>sg_ngap_list := (sg_ngap_list W)(i := NULL)\<rparr>)"

definition onSessReleaseTimer :: "sig_gw \<Rightarrow> ptr \<Rightarrow> sig_gw option" where
  "onSessReleaseTimer W p =
     (if p = NULL then Some W
      else do {
        s \<leftarrow> sg_ngaps W p;
        let W = SafeRemoveNgapSess W (ns_sessId s);
        Some (W\<lparr>sg_ngaps := (sg_ngaps W)(p := None)\<rparr>) })"

text \<open>A stopped timer stays pending; its context gets an invalid identifier.\<close>

definition stopNgapSessTimer :: "sig_gw \<Rightarrow> nat \<Rightarrow> sig_gw option" where
  "stopNgapSessTimer W i =
     (if MAX_SIG_SESSIONS < i then Some W
      else do {
        ensure (i < MAX_SIG_SESSIONS);
        let p = sg_timer_list W i;
        W \<leftarrow> (if p \<noteq> NULL then map_option (\<lambda>_. W\<lparr>sg_timer_ctx := (sg_timer_ctx W)(p \<mapsto> INVALIDE_ID)\<rparr>) (sg_timer_ctx W p)
          else Some W);
        Some (W\<lparr>sg_timer_list := (sg_timer_list W)(i := NULL)\<rparr>) })"

definition handleNgapSessTimeout :: "sig_gw \<Rightarrow> ptr \<Rightarrow> sig_gw option" where
  "handleNgapSessTimeout W p =
     (if p = NULL then Some W
      else do {
        i \<leftarrow> sg_timer_ctx W p;
        W \<leftarrow> RemoveNgapSess W i;
        W \<leftarrow> stopNgapSessTimer W i;
        Some (W\<lparr>sg_timer_ctx := (sg_timer_ctx W)(p := None)\<rparr>) })"

definition SaveSourceToTarget_TransparentContainer :: "sig_gw \<Rightarrow> nat \<Rightarrow> string \<Rightarrow> sig_gw" where
  "SaveSourceToTarget_TransparentContainer W i container = W\<lparr>sg_containers := (sg_containers W)(i \<mapsto> container)\<rparr>"

definition GetSourceToTarget_TransparentContainer :: "sig_gw \<Rightarrow> nat \<Rightarrow> sig_gw \<times> string option" where
  "GetSourceToTarget_TransparentContainer W i = (case sg_containers W i of
     None \<Rightarrow> (W, None) | Some c \<Rightarrow> (W\<lparr>sg_containers := (sg_containers W)(i := None)\<rparr>, Some c))"

text \<open>The type of a NAS message; its header is read before the length is looked at.\<close>

definition DecodeNasPdu :: "ngap_message \<Rightarrow> string option \<Rightarrow> nat \<Rightarrow> ngap_message option" where
  "DecodeNasPdu info nas_pdu len = (case nas_pdu of
     None \<Rightarrow> Some info
   | Some buf \<Rightarrow> do {
       epd \<leftarrow> byte_at buf 0;
       if epd \<noteq> 0x2E \<and> epd \<noteq> 0x7E then Some info
       else do {
         sec \<leftarrow> byte_at buf 1;
         if sec mod 16 = 0 \<and> 2 < len then map_option (\<lambda>t. info\<lparr>nm_nasMessageType := t\<rparr>) (byte_at buf 2)
         else do {
           info \<leftarrow> (if sec mod 16 = 3 then do {
               inner \<leftarrow> byte_at buf 8;
               if inner mod 16 = 0 \<and> 9 < len then map_option (\<lambda>t. info\<lparr>nm_nasMessageType := t\<rparr>) (byte_at buf 9) else Some info }
             else Some info);
           if 6 < len then map_option (\<lambda>n. info\<lparr>nm_nasSequence := n\<rparr>) (byte_at buf 6) else Some info } } })"

end
