(* ===== verification/Pdu_Sess.thy ===== *)
theory Pdu_Sess
  imports Ngap_Sess
begin

text \<open>
  The PDU sessions of the signalling gateway (PduSessManager.cc) and its side of the messages to the
  media gateways (sig_media_path.cc).

  The side is its event bus and \<^typ>\<open>sig_gw\<close>. What comes from outside is in \<open>sig_env\<close>: the host name,
  the random numbers, memory that is not cleared and the conversion of IPv6 addresses. The random
  numbers are indexed by the events fired so far. A network message that is handed on is recorded in
  the log of calls.
\<close>

section \<open>State\<close>

abbreviation MAX_PDU_SESSION_ID :: nat where
  "MAX_PDU_SESSION_ID \<equiv> 255"

record sig_env =
  se_hostname :: string
  se_rnd :: "nat \<Rightarrow> nat"
  se_debug :: "nat \<Rightarrow> int"
  se_sess :: sig_media_sess
  se_stack :: string
  se_pton6 :: "string \<Rightarrow> string option"
  se_ntop6 :: "string \<Rightarrow> string"

type_synonym sig_side = "bus \<times> sig_gw"

abbreviation gw :: "sig_side \<Rightarrow> sig_gw" where
  "gw G \<equiv> snd G"

definition put_gw :: "sig_side \<Rightarrow> sig_gw \<Rightarrow> sig_side" where
  "put_gw G W = (fst G, W)"

text \<open>The transport address of a tunnel end: identifier, length and bytes of the address, over IPv4 and over IPv6.\<close>

record transport =
  tr_teid :: nat
  tr_addrlen :: nat
  tr_addr :: string
  tr_teid6 :: nat
  tr_addrlen6 :: nat
  tr_addr6 :: string

section \<open>Requests to the media gateway\<close>

definition request :: "sig_env \<Rightarrow> sig_side \<Rightarrow> (string \<times> string) list \<Rightarrow> (sig_side \<times> agc_status) option" where
  "request env G hs = (let n = length (bus_fired (fst G)) in
     map_option (\<lambda>(S, st). ((S, snd G), st)) (send_event (fst G) EVENT_ID_SIG2MEDIA (se_debug env n) (se_rnd env n) hs))"

definition addr_headers :: "sig_env \<Rightarrow> string \<Rightarrow> string \<Rightarrow> sig_path \<Rightarrow> (string \<times> string) list" where
  "addr_headers env h_teid6 h_addr6 p6 = (if 0 < sp_remote_addrlen p6
     then [(h_teid6, dec_nat (sp_remote_teid p6)), (h_addr6, se_ntop6 env (sin6_addr (sp_remote_addr p6)))] else [])"

definition upf_setup_req_headers :: "sig_env \<Rightarrow> nat \<Rightarrow> sig_path \<Rightarrow> sig_path \<Rightarrow> string \<Rightarrow> (string \<times> string) list" where
  "upf_setup_req_headers env pdu_sess_id p4 p6 routing =
     [(H_TYPE, dec_nat (type_num MSET_UPF_SETUP_REQ)), (H_SIG_SESSID, dec_nat pdu_sess_id),
       (H_UPF_TEID, dec_nat (sp_remote_teid p4)), (H_UPF_IPADDR, inet_ntop4 (sin_addr (sp_remote_addr p4))),
       (H_SIG_HOSTNAME, se_hostname env), (EVENT_HEADER_ROUTING, routing)] @ addr_headers env H_UPF_TEID_V6 H_UPF_IPADDR_V6 p6"

definition sig_media_path_send_upf_setup_req :: "sig_env \<Rightarrow> sig_side \<Rightarrow> nat \<Rightarrow> sig_path \<Rightarrow> sig_path \<Rightarrow> string \<Rightarrow> (sig_side \<times> agc_status) option" where
  "sig_media_path_send_upf_setup_req env G pdu_sess_id p4 p6 name = do {
     routing \<leftarrow> routing_to name ''sig2media'';
     request env G (upf_setup_req_headers env pdu_sess_id p4 p6 routing) }"

definition sig_media_path_send_gnb_setup_req :: "sig_env \<Rightarrow> sig_side \<Rightarrow> nat \<Rightarrow> nat \<Rightarrow> sig_path \<Rightarrow> sig_path \<Rightarrow> string \<Rightarrow> (sig_side \<times> agc_status) option" where
  "sig_media_path_send_gnb_setup_req env G pdu_sess_id media_sess_id p4 p6 name = do {
     routing \<leftarrow> routing_to name ''sig2media'';
     request env G ([(H_TYPE, dec_nat (type_num MSET_GNB_SETUP_REQ)), (H_MEDIA_SESSID, dec_nat media_sess_id),
       (H_SIG_SESSID, dec_nat pdu_sess_id), (H_GNB_TEID, dec_nat (sp_remote_teid p4)),
       (H_GNB_IPADDR, inet_ntop4 (sin_addr (sp_remote_addr p4))),
       (H_SIG_HOSTNAME, se_hostname env), (EVENT_HEADER_ROUTING, routing)] @ addr_headers env H_GNB_TEID_V6 H_GNB_IPADDR_V6 p6) }"

definition sig_media_path_send_req :: "sig_env \<Rightarrow> sig_side \<Rightarrow> nat \<Rightarrow> nat \<Rightarrow> msg_type \<Rightarrow> string \<Rightarrow> (sig_side \<times> agc_status) option" where
  "sig_media_path_send_req env G pdu_sess_id media_sess_id t name = do {
     routing \<leftarrow> routing_to name ''sig2media'';
     request env G [(H_TYPE, dec_nat (type_num t)), (H_MEDIA_SESSID, dec_nat media_sess_id),
       (H_SIG_SESSID, dec_nat pdu_sess_id), (H_SIG_HOSTNAME, se_hostname env), (EVENT_HEADER_ROUTING, routing)] }"

definition sig_media_path_send_upf_update_req :: "sig_env \<Rightarrow> sig_side \<Rightarrow> nat \<Rightarrow> nat \<Rightarrow> sig_path \<Rightarrow> sig_path \<Rightarrow> string \<Rightarrow> (sig_side \<times> agc_status) option" where
  "sig_media_path_send_upf_update_req env G pdu_sess_id media_sess_id p4 p6 name = do {
     routing \<leftarrow> routing_to name ''sig2media'';
     request env G ([(H_TYPE, dec_nat (type_num MSET_UPF_UPDATE_REQ)), (H_MEDIA_SESSID, dec_nat media_sess_id),
       (H_SIG_SESSID, dec_nat pdu_sess_id), (H_UPF_TEID, dec_nat (sp_remote_teid p4)),
       (H_UPF_IPADDR, inet_ntop4 (sin_addr (sp_remote_addr p4))),
       (H_SIG_HOSTNAME, se_hostname env), (EVENT_HEADER_ROUTING, routing)] @ addr_headers env H_UPF_TEID_V6 H_UPF_IPADDR_V6 p6) }"

section \<open>Sessions\<close>

text \<open>\<open>strcpy\<close> into \<open>MediaGWName\<close>, which has 255 bytes.\<close>

fun selectMediaGW :: "(nat \<times> string) list \<Rightarrow> nat \<Rightarrow> string option option" where
  "selectMediaGW [] i = Some None"
| "selectMediaGW ((k, name) # ms) i = (if i = k then do { ensure (length name < 255); Some (Some name) } else selectMediaGW ms i)"

definition no_tunnel :: "sig_path \<Rightarrow> sig_path" where
  "no_tunnel p = p\<lparr>sp_media_teid := 0, sp_remote_teid := 0, sp_local_addrlen := 0, sp_remote_addrlen := 0\<rparr>"

text \<open>A new session, over what was in its memory before.\<close>

definition new_pdu :: "sig_media_sess \<Rightarrow> string \<Rightarrow> nat \<Rightarrow> sig_media_sess" where
  "new_pdu junk name pdu_sess_id = junk\<lparr>sm_MediaGWName := name, sm_gnbv6 := no_tunnel (sm_gnbv6 junk),
     sm_upfv6 := no_tunnel (sm_upfv6 junk), sm_target_teid := 0, sm_target_teid_v6 := 0,
     sm_target_addrlen := 0, sm_target_addrlen_v6 := 0, sm_sig_sess_id := pdu_sess_id\<rparr>"

text \<open>Without a media gateway the allocated session is lost.\<close>

definition newPduSess :: "sig_env \<Rightarrow> sig_gw \<Rightarrow> ngap_message \<Rightarrow> (sig_gw \<times> ptr) option" where
  "newPduSess env W info =
     (let (i, slot) = sig_slot MAX_SIG_SESSIONS (sg_pdu_list W) (sg_pdu_current W); W = W\<lparr>sg_pdu_current := i\<rparr> in
      case slot of
        None \<Rightarrow> Some (W, NULL)
      | Some pdu_sess_id \<Rightarrow> do {
          let p = sg_brk W;
          let W = W\<lparr>sg_brk := p + 1, sg_pdus := (sg_pdus W)(p \<mapsto> se_sess env)\<rparr>;
          name \<leftarrow> selectMediaGW (sg_medias W) (nm_idSigGW info);
          case name of
            None \<Rightarrow> Some (W, NULL)
          | Some name \<Rightarrow>
              Some (W\<lparr>sg_pdus := (sg_pdus W)(p \<mapsto> new_pdu (se_sess env) name pdu_sess_id), sg_pdu_list := (sg_pdu_list W)(pdu_sess_id := p)\<rparr>, p) })"

text \<open>The identifier \<open>MAX_PDU_SESSIONS\<close> passes the check.\<close>

definition getPduSess :: "sig_gw \<Rightarrow> nat \<Rightarrow> ptr option" where
  "getPduSess W pdu_sess_id =
     (if MAX_SIG_SESSIONS < pdu_sess_id then Some NULL
      else do { ensure (pdu_sess_id < MAX_SIG_SESSIONS); Some (sg_pdu_list W pdu_sess_id) })"

definition getPduSess_of_ngap :: "sig_gw \<Rightarrow> nat \<Rightarrow> nat \<Rightarrow> ptr option" where
  "getPduSess_of_ngap W ngap_sessid r =
     (if MAX_SIG_SESSIONS \<le> ngap_sessid \<or> MAX_PDU_SESSION_ID \<le> r then Some NULL else getPduSess W (sg_map W r ngap_sessid))"

definition deletePduSess :: "sig_gw \<Rightarrow> nat \<Rightarrow> sig_gw option" where
  "deletePduSess W pdu_sess_id =
     (if MAX_SIG_SESSIONS < pdu_sess_id then Some W
      else do {
        ensure (pdu_sess_id < MAX_SIG_SESSIONS);
        let p = sg_pdu_list W pdu_sess_id;
        if p = NULL then Some (W\<lparr>sg_pdu_list := (sg_pdu_list W)(pdu_sess_id := NULL)\<rparr>)
        else map_option (\<lambda>_. W\<lparr>sg_pdu_list := (sg_pdu_list W)(pdu_sess_id := NULL), sg_pdus := (sg_pdus W)(p := None)\<rparr>)
          (sg_pdus W p) })"

definition set_map :: "sig_gw \<Rightarrow> nat \<Rightarrow> nat \<Rightarrow> nat \<Rightarrow> sig_gw" where
  "set_map W ngap_sessid r pdu_sessid =
     (if MAX_SIG_SESSIONS \<le> ngap_sessid \<or> MAX_PDU_SESSION_ID \<le> r then W
      else W\<lparr>sg_map := (sg_map W)(r := (sg_map W r)(ngap_sessid := pdu_sessid))\<rparr>)"

definition newSessMap :: "sig_gw \<Rightarrow> nat \<Rightarrow> nat \<Rightarrow> nat \<Rightarrow> sig_gw" where
  "newSessMap W ngap_sessid r pdu_sessid = set_map W ngap_sessid r pdu_sessid"

definition deleteSessMap :: "sig_gw \<Rightarrow> nat \<Rightarrow> nat \<Rightarrow> sig_gw" where
  "deleteSessMap W ngap_sessid r = set_map W ngap_sessid r INVALIDE_ID"

definition convertNgapSess2PduSess :: "sig_gw \<Rightarrow> nat \<Rightarrow> nat \<Rightarrow> nat option" where
  "convertNgapSess2PduSess W ngap_sessid r =
     (if MAX_SIG_SESSIONS \<le> ngap_sessid \<or> MAX_PDU_SESSION_ID \<le> r then None else Some (sg_map W r ngap_sessid))"

definition hasPduSession :: "sig_gw \<Rightarrow> nat \<Rightarrow> nat \<Rightarrow> bool" where
  "hasPduSession W ngap_sessid r \<longleftrightarrow> \<not> (MAX_SIG_SESSIONS \<le> ngap_sessid \<or> MAX_PDU_SESSION_ID \<le> r) \<and> sg_map W r ngap_sessid \<noteq> INVALIDE_ID"

definition upd_pdu :: "sig_gw \<Rightarrow> ptr \<Rightarrow> (sig_media_sess \<Rightarrow> sig_media_sess) \<Rightarrow> sig_gw option" where
  "upd_pdu W p f = map_option (\<lambda>s. W\<lparr>sg_pdus := (sg_pdus W)(p \<mapsto> f s)\<rparr>) (sg_pdus W p)"

text \<open>The timer is only forgotten, not removed; a message saved under the identifier of the PDU session is freed.\<close>

definition startSessTimer :: "sig_gw \<Rightarrow> ptr \<Rightarrow> sig_gw option" where
  "startSessTimer W p =
     (if p = NULL then Some W
      else do { W \<leftarrow> upd_pdu W p (\<lambda>s. s\<lparr>sm_timer := True\<rparr>); Some (W\<lparr>sg_pending := sg_pending W @ [Pdu_Timer p]\<rparr>) })"

definition stopSessTimer :: "sig_gw \<Rightarrow> ptr \<Rightarrow> sig_gw option" where
  "stopSessTimer W p =
     (if p = NULL then Some W
      else do {
        W \<leftarrow> upd_pdu W p (\<lambda>s. s\<lparr>sm_timer := False\<rparr>);
        s \<leftarrow> sg_pdus W p;
        ensure (sm_sig_sess_id s < MAX_SIG_SESSIONS);
        Some (W\<lparr>sg_msgs := (sg_msgs W)(sm_sig_sess_id s := None)\<rparr>) })"

definition set_msg :: "sig_gw \<Rightarrow> nat \<Rightarrow> ngap_message option \<Rightarrow> sig_gw option" where
  "set_msg W i m = do { ensure (i < MAX_SIG_SESSIONS); Some (W\<lparr>sg_msgs := (sg_msgs W)(i := m)\<rparr>) }"

definition get_msg :: "sig_gw \<Rightarrow> nat \<Rightarrow> ngap_message option option" where
  "get_msg W i = do { ensure (i < MAX_SIG_SESSIONS); Some (sg_msgs W i) }"

text \<open>The message is moved into the table, where it stays until the media gateway has answered.\<close>

definition save_msg :: "sig_gw \<Rightarrow> nat \<Rightarrow> ngap_message \<Rightarrow> (sig_gw \<times> ngap_message) option" where
  "save_msg W i info = (if nm_present info
     then do { W \<leftarrow> set_msg W i (Some info); Some (W, info\<lparr>nm_present := False\<rparr>) } else Some (W, info))"

section \<open>Requests of the NGAP layer\<close>

definition set_remote4 :: "transport \<Rightarrow> sig_path \<Rightarrow> sig_path" where
  "set_remote4 t p = p\<lparr>sp_remote_teid := tr_teid t, sp_remote_addrlen := tr_addrlen t,
     sp_remote_addr := overwrite (sp_remote_addr p) (tr_addrlen t) (tr_addr t)\<rparr>"

definition set_remote6 :: "transport \<Rightarrow> sig_path \<Rightarrow> sig_path" where
  "set_remote6 t p = p\<lparr>sp_remote_teid := tr_teid6 t, sp_remote_addrlen := tr_addrlen6 t,
     sp_remote_addr := overwrite (sp_remote_addr p) (tr_addrlen6 t) (tr_addr6 t)\<rparr>"

definition set_upf_end :: "transport \<Rightarrow> sig_media_sess \<Rightarrow> sig_media_sess" where
  "set_upf_end t s = s\<lparr>sm_upf := set_remote4 t (sm_upf s), sm_upfv6 := set_remote6 t (sm_upfv6 s)\<rparr>"

definition set_gnb_end :: "transport \<Rightarrow> sig_media_sess \<Rightarrow> sig_media_sess" where
  "set_gnb_end t s = s\<lparr>sm_gnb := set_remote4 t (sm_gnb s), sm_gnbv6 := set_remote6 t (sm_gnbv6 s)\<rparr>"

definition processSessSetupReq :: "sig_env \<Rightarrow> sig_side \<Rightarrow> ngap_message \<Rightarrow> nat \<Rightarrow> transport \<Rightarrow> (sig_side \<times> ngap_message \<times> bool) option" where
  "processSessSetupReq env G info r t = do {
     (W, p) \<leftarrow> newPduSess env (gw G) info;
     if p = NULL then Some (put_gw G W, info, False)
     else do {
       s \<leftarrow> sg_pdus W p;
       let W = newSessMap W (nm_sessId info) r (sm_sig_sess_id s);
       (W, info) \<leftarrow> save_msg W (nm_sessId info) info;
       W \<leftarrow> upd_pdu W p (\<lambda>s. set_upf_end t (s\<lparr>sm_ngap_sess_id := nm_sessId info, sm_pdu_resource_id := r\<rparr>));
       s \<leftarrow> sg_pdus W p;
       (G, st) \<leftarrow> sig_media_path_send_upf_setup_req env (put_gw G W) (sm_sig_sess_id s) (sm_upf s) (sm_upfv6 s) (sm_MediaGWName s);
       W \<leftarrow> startSessTimer (gw G) p;
       Some (put_gw G W, info, st = AGC_STATUS_SUCCESS) } }"

definition processSessSetupRsp :: "sig_env \<Rightarrow> sig_side \<Rightarrow> ngap_message \<Rightarrow> nat \<Rightarrow> transport \<Rightarrow> (sig_side \<times> ngap_message \<times> bool) option" where
  "processSessSetupRsp env G info r t = do {
     p \<leftarrow> getPduSess_of_ngap (gw G) (nm_sessId info) r;
     if p = NULL then Some (G, info, False)
     else do {
       (W, info) \<leftarrow> save_msg (gw G) (nm_sessId info) info;
       W \<leftarrow> upd_pdu W p (set_gnb_end t);
       s \<leftarrow> sg_pdus W p;
       (G, st) \<leftarrow> sig_media_path_send_gnb_setup_req env (put_gw G W) (sm_sig_sess_id s) (sm_media_sess_id s) (sm_gnb s) (sm_gnbv6 s)
         (sm_MediaGWName s);
       if st \<noteq> AGC_STATUS_SUCCESS then Some (G, info, False)
       else do { W \<leftarrow> startSessTimer (gw G) p; Some (put_gw G W, info, True) } } }"

definition processSessSetupfail :: "sig_env \<Rightarrow> sig_side \<Rightarrow> ngap_message \<Rightarrow> nat \<Rightarrow> (sig_side \<times> bool) option" where
  "processSessSetupfail env G info r = do {
     p \<leftarrow> getPduSess_of_ngap (gw G) (nm_sessId info) r;
     if p = NULL then Some (G, False)
     else do {
       s \<leftarrow> sg_pdus (gw G) p;
       (G, _) \<leftarrow> sig_media_path_send_req env G (sm_sig_sess_id s) (sm_media_sess_id s) MSET_SESS_RELEASE_REQ (sm_MediaGWName s);
       W \<leftarrow> deletePduSess (gw G) (sm_sig_sess_id s);
       Some (put_gw G W, True) } }"

text \<open>The message is saved under the identifier of the PDU session.\<close>

definition processSessUpdateUpf :: "sig_env \<Rightarrow> sig_side \<Rightarrow> ngap_message \<Rightarrow> nat \<Rightarrow> transport \<Rightarrow> (sig_side \<times> ngap_message \<times> bool) option" where
  "processSessUpdateUpf env G info r t = do {
     p \<leftarrow> getPduSess_of_ngap (gw G) (nm_sessId info) r;
     if p = NULL then Some (G, info, False)
     else do {
       s \<leftarrow> sg_pdus (gw G) p;
       (W, info) \<leftarrow> save_msg (gw G) (sm_sig_sess_id s) info;
       W \<leftarrow> upd_pdu W p (set_upf_end t);
       s \<leftarrow> sg_pdus W p;
       (G, st) \<leftarrow> sig_media_path_send_upf_update_req env (put_gw G W) (sm_sig_sess_id s) (sm_media_sess_id s) (sm_upf s) (sm_upfv6 s)
         (sm_MediaGWName s);
       if st \<noteq> AGC_STATUS_SUCCESS then Some (G, info, False)
       else do { W \<leftarrow> startSessTimer (gw G) p; Some (put_gw G W, info, True) } } }"

definition processSessUpdateGnb :: "sig_side \<Rightarrow> ngap_message \<Rightarrow> nat \<Rightarrow> transport \<Rightarrow> (sig_side \<times> ngap_message \<times> bool) option" where
  "processSessUpdateGnb G info r t = Some (G, info, True)"

definition ReleasePduSess :: "sig_env \<Rightarrow> sig_side \<Rightarrow> nat \<Rightarrow> nat \<Rightarrow> (sig_side \<times> bool) option" where
  "ReleasePduSess env G ngap_sessid r = do {
     p \<leftarrow> getPduSess_of_ngap (gw G) ngap_sessid r;
     if p = NULL then Some (G, False)
     else do {
       s \<leftarrow> sg_pdus (gw G) p;
       (G, _) \<leftarrow> sig_media_path_send_req env G (sm_sig_sess_id s) (sm_media_sess_id s) MSET_SESS_RELEASE_REQ (sm_MediaGWName s);
       W \<leftarrow> deletePduSess (gw G) (sm_sig_sess_id s);
       Some (put_gw G (deleteSessMap W ngap_sessid r), True) } }"

definition Process :: "sig_env \<Rightarrow> sig_side \<Rightarrow> ngap_message \<Rightarrow> nat \<Rightarrow> transport \<Rightarrow> (sig_side \<times> ngap_message \<times> bool) option" where
  "Process env G info r t = (case nm_PDUChoice info of
       PDU_initiatingMessage \<Rightarrow> (case nm_ProcCode info of
           id_InitialContextSetup \<Rightarrow> processSessSetupReq env G info r t
         | id_PDUSessionResourceSetup \<Rightarrow> do {
             (G, info, ok) \<leftarrow> processSessUpdateUpf env G info r t;
             if ok then Some (G, info, True) else processSessSetupReq env G info r t }
         | id_HandoverNotification \<Rightarrow> processSessSetupRsp env G info r t
         | _ \<Rightarrow> Some (G, info, True))
     | PDU_successfulOutcome \<Rightarrow> (case nm_ProcCode info of
           id_InitialContextSetup \<Rightarrow> processSessSetupRsp env G info r t
         | id_PDUSessionResourceSetup \<Rightarrow> processSessSetupRsp env G info r t
         | _ \<Rightarrow> Some (G, info, True))
     | _ \<Rightarrow> Some (G, info, True))"

definition UpdatePduSessResource :: "sig_gw \<Rightarrow> nat \<Rightarrow> nat \<Rightarrow> pdu_resource \<Rightarrow> (sig_gw \<times> bool) option" where
  "UpdatePduSessResource W ngap_sessid r resource = do {
     p \<leftarrow> getPduSess_of_ngap W ngap_sessid r;
     if p = NULL then Some (W, False)
     else map_option (\<lambda>W. (W, True)) (upd_pdu W p (\<lambda>s. s\<lparr>sm_pdu_resource := resource\<rparr>)) }"

definition GetPduSessResource :: "sig_gw \<Rightarrow> nat \<Rightarrow> nat \<Rightarrow> pdu_resource option option" where
  "GetPduSessResource W ngap_sessid r = do {
     p \<leftarrow> getPduSess_of_ngap W ngap_sessid r;
     if p = NULL then Some None else map_option (\<lambda>s. Some (sm_pdu_resource s)) (sg_pdus W p) }"

text \<open>The buffers of the caller keep the bytes behind the length of an address.\<close>

definition gtp_info :: "sig_path \<Rightarrow> sig_path \<Rightarrow> string \<Rightarrow> string \<Rightarrow> string \<times> nat \<times> string \<times> nat" where
  "gtp_info p4 p6 addr addr6 = (overwrite addr (sp_local_addrlen p4) (sp_local_addr p4), sp_media_teid p4,
     overwrite addr6 (sp_local_addrlen p6) (sp_local_addr p6), sp_media_teid p6)"

definition GetGnbGtpInfo :: "sig_gw \<Rightarrow> nat \<Rightarrow> nat \<Rightarrow> string \<Rightarrow> string \<Rightarrow> (string \<times> nat \<times> string \<times> nat) option option" where
  "GetGnbGtpInfo W ngap_sessid r addr addr6 = do {
     p \<leftarrow> getPduSess_of_ngap W ngap_sessid r;
     if p = NULL then Some None else map_option (\<lambda>s. Some (gtp_info (sm_gnb s) (sm_gnbv6 s) addr addr6)) (sg_pdus W p) }"

definition GetUpfGtpInfo :: "sig_gw \<Rightarrow> nat \<Rightarrow> nat \<Rightarrow> string \<Rightarrow> string \<Rightarrow> (string \<times> nat \<times> string \<times> nat) option option" where
  "GetUpfGtpInfo W ngap_sessid r addr addr6 = do {
     p \<leftarrow> getPduSess_of_ngap W ngap_sessid r;
     if p = NULL then Some None else map_option (\<lambda>s. Some (gtp_info (sm_upf s) (sm_upfv6 s) addr addr6)) (sg_pdus W p) }"

section \<open>Responses of the media gateway\<close>

definition count_rsp :: "sig_gw \<Rightarrow> ptr \<Rightarrow> sig_gw option" where
  "count_rsp W n = upd_ngap W n (\<lambda>s. s\<lparr>ns_pdu_sess_rsp_count := (ns_pdu_sess_rsp_count s + 1) mod 256\<rparr>)"

definition log_call :: "sig_gw \<Rightarrow> ngap_call list \<Rightarrow> sig_gw" where
  "log_call W cs = W\<lparr>sg_calls := sg_calls W @ cs\<rparr>"

text \<open>The saved message of an NGAP session, once all its PDU sessions were answered.\<close>

definition take_msg :: "sig_gw \<Rightarrow> ptr \<Rightarrow> (sig_gw \<times> ngap_message option) option" where
  "take_msg W n = do {
     s \<leftarrow> sg_ngaps W n;
     if ns_pdu_resource_count s \<le> ns_pdu_sess_rsp_count s then do {
       m \<leftarrow> get_msg W (ns_sessId s);
       case m of None \<Rightarrow> Some (W, None) | Some info \<Rightarrow> map_option (\<lambda>W. (W, Some info)) (set_msg W (ns_sessId s) None) }
     else Some (W, None) }"

definition upf_setup_calls :: "ngap_message \<Rightarrow> ngap_call list" where
  "upf_setup_calls info = (if nm_PDUChoice info = PDU_initiatingMessage then (case nm_ProcCode info of
       id_InitialContextSetup \<Rightarrow> [AMF_InitialContextSetupReqByMedia info]
     | id_PDUSessionResourceSetup \<Rightarrow> [AMF_PDUSessionResourceSetupReqByMedia info]
     | id_HandoverResourceAllocation \<Rightarrow> [AMF_HandoverReqByMedia info]
     | _ \<Rightarrow> []) else [])"

definition gnb_setup_calls :: "ngap_message \<Rightarrow> ngap_call list" where
  "gnb_setup_calls info = (case nm_ProcCode info of
       id_InitialContextSetup \<Rightarrow> [GNB_InitialContextSetupSuccessRspByMedia info]
     | id_PDUSessionResourceSetup \<Rightarrow> [GNB_PDUSessionSetupRspByMedia info]
     | id_PathSwitchRequest \<Rightarrow> [GNB_PathSwitchRequestByMedia info]
     | id_HandoverResourceAllocation \<Rightarrow> [GNB_HandoverReqAckMedia info]
     | _ \<Rightarrow> [])"

text \<open>\<open>to_gnb\<close> and \<open>to_upf\<close> are the ends that the media gateway has opened.\<close>

definition set_local4 :: "transport \<Rightarrow> sig_path \<Rightarrow> sig_path" where
  "set_local4 t p = p\<lparr>sp_media_teid := tr_teid t, sp_local_addrlen := tr_addrlen t,
     sp_local_addr := overwrite (sp_local_addr p) (tr_addrlen t) (tr_addr t)\<rparr>"

definition set_local6 :: "transport \<Rightarrow> sig_path \<Rightarrow> sig_path" where
  "set_local6 t p = (if 0 < tr_addrlen6 t then p\<lparr>sp_media_teid := tr_teid6 t, sp_local_addrlen := tr_addrlen6 t,
     sp_local_addr := overwrite (sp_local_addr p) (tr_addrlen6 t) (tr_addr6 t)\<rparr> else p)"

definition set_media_ends :: "nat \<Rightarrow> transport \<Rightarrow> transport \<Rightarrow> sig_media_sess \<Rightarrow> sig_media_sess" where
  "set_media_ends media_sess_id to_gnb to_upf s = s\<lparr>sm_media_sess_id := media_sess_id,
     sm_gnb := set_local4 to_gnb (sm_gnb s), sm_upf := set_local4 to_upf (sm_upf s),
     sm_gnbv6 := set_local6 to_gnb (sm_gnbv6 s), sm_upfv6 := set_local6 to_upf (sm_upfv6 s)\<rparr>"

definition handleUpfSetupRsp :: "sig_gw \<Rightarrow> nat \<Rightarrow> nat \<Rightarrow> transport \<Rightarrow> transport \<Rightarrow> sig_gw option" where
  "handleUpfSetupRsp W pdu_sess_id media_sess_id to_gnb to_upf = do {
     p \<leftarrow> getPduSess W pdu_sess_id;
     if p = NULL then Some W
     else do {
       s \<leftarrow> sg_pdus W p;
       case GetNgapSession W (sm_ngap_sess_id s) of
         None \<Rightarrow> Some W
       | Some n \<Rightarrow> do {
           W \<leftarrow> count_rsp W n;
           W \<leftarrow> upd_pdu W p (set_media_ends media_sess_id to_gnb to_upf);
           (W, m) \<leftarrow> take_msg W n;
           let W = (case m of None \<Rightarrow> W | Some info \<Rightarrow> log_call W (upf_setup_calls info));
           stopSessTimer W p } } }"

definition handleGnbSetupRsp :: "sig_gw \<Rightarrow> nat \<Rightarrow> sig_gw option" where
  "handleGnbSetupRsp W pdu_sess_id = do {
     p \<leftarrow> getPduSess W pdu_sess_id;
     if p = NULL then Some W
     else do {
       s \<leftarrow> sg_pdus W p;
       case GetNgapSession W (sm_ngap_sess_id s) of
         None \<Rightarrow> Some W
       | Some n \<Rightarrow> do {
           W \<leftarrow> count_rsp W n;
           (W, m) \<leftarrow> take_msg W n;
           let W = (case m of None \<Rightarrow> W | Some info \<Rightarrow> log_call W (gnb_setup_calls info));
           stopSessTimer W p } } }"

definition handleSessCheckRsp :: "sig_gw \<Rightarrow> nat \<Rightarrow> sig_gw option" where
  "handleSessCheckRsp W pdu_sess_id = map_option (\<lambda>_. W) (getPduSess W pdu_sess_id)"

definition handleSessReleaseInd :: "sig_gw \<Rightarrow> nat \<Rightarrow> sig_gw option" where
  "handleSessReleaseInd W pdu_sess_id = Some W"

text \<open>The message saved under the identifier of the PDU session is dropped.\<close>

definition handleUpfUpdateRsp :: "sig_gw \<Rightarrow> nat \<Rightarrow> sig_gw option" where
  "handleUpfUpdateRsp W pdu_sess_id = do {
     p \<leftarrow> getPduSess W pdu_sess_id;
     if p = NULL then Some W
     else do {
       m \<leftarrow> get_msg W pdu_sess_id;
       if m = None then Some W
       else do { W \<leftarrow> set_msg W pdu_sess_id None; stopSessTimer W p } } }"

section \<open>Timers\<close>

definition timeout_calls :: "ngap_message \<Rightarrow> ngap_call list" where
  "timeout_calls info =
     (if nm_ProcCode info \<in> {id_InitialContextSetup, id_PDUSessionResourceSetup, id_PDUSessionResourceRelease}
      then [if nm_PDUChoice info = PDU_initiatingMessage then SendDownLayerSctp info else SendUpLayerSctp info] else [])"

definition handleSessTimeout :: "sig_gw \<Rightarrow> nat \<Rightarrow> sig_gw option" where
  "handleSessTimeout W pdu_sess_id = do {
     p \<leftarrow> getPduSess W pdu_sess_id;
     if p = NULL then Some W
     else do {
       s \<leftarrow> sg_pdus W p;
       case GetNgapSession W (sm_ngap_sess_id s) of
         None \<Rightarrow> Some W
       | Some n \<Rightarrow> do {
           W \<leftarrow> count_rsp W n;
           ns \<leftarrow> sg_ngaps W n;
           m \<leftarrow> (if ns_pdu_sess_rsp_count ns \<le> ns_pdu_resource_count ns then get_msg W pdu_sess_id else Some None);
           W \<leftarrow> (if m = None then Some W else set_msg W pdu_sess_id None);
           W \<leftarrow> upd_pdu W p (\<lambda>s. s\<lparr>sm_timer := False\<rparr>);
           Some (case m of None \<Rightarrow> W | Some info \<Rightarrow> log_call W (timeout_calls info)) } } }"

text \<open>The timer reads its session.\<close>

definition onSessTimer :: "sig_gw \<Rightarrow> ptr \<Rightarrow> sig_gw option" where
  "onSessTimer W p = (if p = NULL then Some W else do { s \<leftarrow> sg_pdus W p; handleSessTimeout W (sm_sig_sess_id s) })"

text \<open>
  A pending timer event: its entry leaves the list and its callback runs. The timers run for 4, 30 and 3
  seconds, so a later one may be due first: any of them, the one with number \<open>k\<close>, may be next.
\<close>

definition run_timer :: "nat \<Rightarrow> sig_gw \<Rightarrow> sig_gw option" where
  "run_timer k W =
     (if length (sg_pending W) \<le> k then Some W
      else (let t = sg_pending W ! k; W = W\<lparr>sg_pending := take k (sg_pending W) @ drop (Suc k) (sg_pending W)\<rparr> in case t of
         Pdu_Timer p \<Rightarrow> onSessTimer W p
       | Ngap_Timer p \<Rightarrow> handleNgapSessTimeout W p
       | Release_Timer p \<Rightarrow> onSessReleaseTimer W p))"

section \<open>Handovers\<close>

definition set_target :: "transport \<Rightarrow> sig_media_sess \<Rightarrow> sig_media_sess" where
  "set_target t s = s\<lparr>sm_target_teid := tr_teid t, sm_target_teid_v6 := tr_teid6 t, sm_target_addrlen := tr_addrlen t,
     sm_target_addrlen_v6 := tr_addrlen6 t, sm_target_addr := overwrite (sm_target_addr s) (tr_addrlen t) (tr_addr t),
     sm_target_addr_v6 := overwrite (sm_target_addr_v6 s) (tr_addrlen6 t) (tr_addr6 t)\<rparr>"

definition clear_target :: "sig_media_sess \<Rightarrow> sig_media_sess" where
  "clear_target s = s\<lparr>sm_target_teid := 0, sm_target_teid_v6 := 0, sm_target_addrlen := 0, sm_target_addrlen_v6 := 0\<rparr>"

definition target_of :: "sig_media_sess \<Rightarrow> transport" where
  "target_of s = \<lparr>tr_teid = sm_target_teid s, tr_addrlen = sm_target_addrlen s, tr_addr = sm_target_addr s,
     tr_teid6 = sm_target_teid_v6 s, tr_addrlen6 = sm_target_addrlen_v6 s, tr_addr6 = sm_target_addr_v6 s\<rparr>"

definition prepareHoTargetGnbAddr :: "sig_gw \<Rightarrow> nat \<Rightarrow> nat \<Rightarrow> transport \<Rightarrow> (sig_gw \<times> bool) option" where
  "prepareHoTargetGnbAddr W ngap_sessid r t = do {
     p \<leftarrow> getPduSess_of_ngap W ngap_sessid r;
     if p = NULL then Some (W, False) else map_option (\<lambda>W. (W, True)) (upd_pdu W p (set_target t)) }"

definition prepareHoDrb :: "sig_gw \<Rightarrow> nat \<Rightarrow> nat \<Rightarrow> nat \<Rightarrow> sig_gw \<times> bool" where
  "prepareHoDrb W ngap_sessid r drb = (case convertNgapSess2PduSess W ngap_sessid r of
     None \<Rightarrow> (W, False) | Some i \<Rightarrow> (W\<lparr>sg_drb := (sg_drb W)(i \<mapsto> drb)\<rparr>, True))"

definition getHoDrb :: "sig_gw \<Rightarrow> nat \<Rightarrow> nat \<Rightarrow> nat option" where
  "getHoDrb W ngap_sessid r = (case convertNgapSess2PduSess W ngap_sessid r of None \<Rightarrow> None | Some i \<Rightarrow> sg_drb W i)"

definition finishHo :: "sig_env \<Rightarrow> sig_side \<Rightarrow> nat \<Rightarrow> nat \<Rightarrow> (sig_side \<times> bool) option" where
  "finishHo env G ngap_sessid r = (case convertNgapSess2PduSess (gw G) ngap_sessid r of
     None \<Rightarrow> Some (G, False)
   | Some i \<Rightarrow> do {
       p \<leftarrow> getPduSess (gw G) i;
       if p = NULL then Some (G, False)
       else do {
         W \<leftarrow> upd_pdu (gw G) p (\<lambda>s. set_gnb_end (target_of s) s);
         s \<leftarrow> sg_pdus W p;
         (G, _) \<leftarrow> sig_media_path_send_gnb_setup_req env (put_gw G W) (sm_sig_sess_id s) (sm_media_sess_id s) (sm_gnb s) (sm_gnbv6 s)
           (sm_MediaGWName s);
         W \<leftarrow> upd_pdu (gw G) p clear_target;
         Some (put_gw G (W\<lparr>sg_drb := (sg_drb W)(i := None)\<rparr>), True) } })"

definition resetHoTargetGnbAddr :: "sig_gw \<Rightarrow> nat \<Rightarrow> nat \<Rightarrow> (sig_gw \<times> bool) option" where
  "resetHoTargetGnbAddr W ngap_sessid r = do {
     p \<leftarrow> getPduSess_of_ngap W ngap_sessid r;
     if p = NULL then Some (W, False)
     else do {
       W \<leftarrow> upd_pdu W p clear_target;
       s \<leftarrow> sg_pdus W p;
       Some (W\<lparr>sg_drb := (sg_drb W)(sm_sig_sess_id s := None)\<rparr>, True) } }"

section \<open>Messages of the media gateway\<close>

text \<open>An address over IPv4 always has its length; one over IPv6 has length 0 without its header.\<close>

definition media_end :: "sig_env \<Rightarrow> string \<Rightarrow> string \<Rightarrow> string option \<Rightarrow> string option \<Rightarrow> transport" where
  "media_end env teid addr teid6 addr6 =
     \<lparr>tr_teid = atoui teid, tr_addrlen = SIN_LEN, tr_addr = set_sin (se_stack env) None (inet_pton4 addr),
      tr_teid6 = (case teid6 of None \<Rightarrow> 0 | Some t \<Rightarrow> atoui t), tr_addrlen6 = (case addr6 of None \<Rightarrow> 0 | Some _ \<Rightarrow> SIN6_LEN),
      tr_addr6 = (case addr6 of None \<Rightarrow> se_stack env | Some a \<Rightarrow> set_sin6 (se_stack env) None (se_pton6 env a))\<rparr>"

definition sig_media_handle_upf_setup_rsp :: "sig_env \<Rightarrow> sig_side \<Rightarrow> event \<Rightarrow> sig_side option" where
  "sig_media_handle_upf_setup_rsp env G e =
     with_header G e H_ERRCODE (\<lambda>errcode.
     if atoui errcode \<noteq> MSEC_SUCCESS then Some G
     else with_header G e H_SIG_SESSID (\<lambda>sig_sess_id.
     with_header G e H_MEDIA_SESSID (\<lambda>media_sess_id.
     with_header G e H_TO_UPF_TEID (\<lambda>upf_teid.
     with_header G e H_TO_GNB_TEID (\<lambda>gnb_teid.
     with_header G e H_TO_UPF_IPADDR (\<lambda>upf_addr.
     with_header G e H_TO_GNB_IPADDR (\<lambda>gnb_addr. do {
       upf_addr6 \<leftarrow> opt_header G e H_TO_UPF_IPADDR_V6;
       gnb_addr6 \<leftarrow> opt_header G e H_TO_GNB_IPADDR_V6;
       upf_teid6 \<leftarrow> opt_header G e H_TO_UPF_TEID_V6;
       gnb_teid6 \<leftarrow> opt_header G e H_TO_GNB_TEID_V6;
       map_option (put_gw G) (handleUpfSetupRsp (gw G) (atoui sig_sess_id) (atoui media_sess_id)
         (media_end env gnb_teid gnb_addr gnb_teid6 gnb_addr6) (media_end env upf_teid upf_addr upf_teid6 upf_addr6)) })))))))"

definition with_answer :: "sig_side \<Rightarrow> event \<Rightarrow> (sig_gw \<Rightarrow> nat \<Rightarrow> sig_gw option) \<Rightarrow> sig_side option" where
  "with_answer G e h =
     with_header G e H_ERRCODE (\<lambda>errcode.
     if atoui errcode \<noteq> MSEC_SUCCESS then Some G
     else with_header G e H_SIG_SESSID (\<lambda>sig_sess_id.
     with_header G e H_MEDIA_SESSID (\<lambda>media_sess_id. map_option (put_gw G) (h (gw G) (atoui sig_sess_id)))))"

definition sig_media_handle_upf_update_rsp :: "sig_side \<Rightarrow> event \<Rightarrow> sig_side option" where
  "sig_media_handle_upf_update_rsp G e = with_answer G e handleUpfUpdateRsp"

definition sig_media_handle_gnb_setup_rsp :: "sig_side \<Rightarrow> event \<Rightarrow> sig_side option" where
  "sig_media_handle_gnb_setup_rsp G e = with_answer G e handleGnbSetupRsp"

text \<open>The answer to a check is handled as the answer to a setup.\<close>

definition sig_media_handle_check_sess_rsp :: "sig_side \<Rightarrow> event \<Rightarrow> sig_side option" where
  "sig_media_handle_check_sess_rsp G e =
     with_header G e H_SIG_SESSID (\<lambda>sig_sess_id.
     with_header G e H_MEDIA_SESSID (\<lambda>media_sess_id.
     with_header G e H_ERRCODE (\<lambda>errcode. map_option (put_gw G) (handleGnbSetupRsp (gw G) (atoui sig_sess_id)))))"

definition sig_media_handle_sess_release_ind :: "sig_side \<Rightarrow> event \<Rightarrow> sig_side option" where
  "sig_media_handle_sess_release_ind G e =
     with_header G e H_SIG_SESSID (\<lambda>sig_sess_id.
     with_header G e H_MEDIA_SESSID (\<lambda>media_sess_id.
     with_header G e H_ERRCODE (\<lambda>errcode. map_option (put_gw G) (handleSessReleaseInd (gw G) (atoui sig_sess_id)))))"

definition sig_media_path_event_callback :: "sig_env \<Rightarrow> sig_side \<Rightarrow> event \<Rightarrow> sig_side option" where
  "sig_media_path_event_callback env G e =
     with_header G e H_TYPE (\<lambda>t. case num_type (atoui t) of
         Some MSET_UPF_SETUP_RSP \<Rightarrow> sig_media_handle_upf_setup_rsp env G e
       | Some MSET_GNB_SETUP_RSP \<Rightarrow> sig_media_handle_gnb_setup_rsp G e
       | Some MSET_SESS_CHECK_RSP \<Rightarrow> sig_media_handle_check_sess_rsp G e
       | Some MSET_SESS_RELEASE_IND \<Rightarrow> sig_media_handle_sess_release_ind G e
       | Some MSET_UPF_UPDATE_RSP \<Rightarrow> sig_media_handle_upf_update_rsp G e
       | _ \<Rightarrow> Some G)"

definition sig_media_path_bind :: "bus \<Rightarrow> ptr \<Rightarrow> (bus \<times> agc_status) option" where
  "sig_media_path_bind S callback = map_option (\<lambda>(S, st).
     (S, if st \<noteq> AGC_STATUS_SUCCESS then AGC_STATUS_FALSE else AGC_STATUS_SUCCESS))
     (agc_event_bind S ''SIG_SEB_NAME'' EVENT_ID_MEDIA2SIG callback)"

section \<open>Loss of an AMF or a radio node\<close>

fun release_all :: "sig_env \<Rightarrow> sig_side \<Rightarrow> nat \<Rightarrow> nat list \<Rightarrow> sig_side option" where
  "release_all env G ngap_sessid [] = Some G"
| "release_all env G ngap_sessid (r # rs) =
     (if r = INVALID_PDU_SESSION_ID then release_all env G ngap_sessid rs
      else do { (G, _) \<leftarrow> ReleasePduSess env G ngap_sessid r; release_all env G ngap_sessid rs })"

fun amf_sessions :: "sig_env \<Rightarrow> sig_side \<Rightarrow> nat \<Rightarrow> nat list \<Rightarrow> sig_side option" where
  "amf_sessions env G amfId [] = Some G"
| "amf_sessions env G amfId (i # is) = (let p = sg_ngap_list (gw G) i in
     if p = NULL then amf_sessions env G amfId is
     else do {
       s \<leftarrow> sg_ngaps (gw G) p;
       if ns_amfId s \<noteq> amfId then amf_sessions env G amfId is
       else do {
         G \<leftarrow> release_all env G (ns_sessId s) (ns_vecPduSessionID s);
         W \<leftarrow> RemoveNgapSess (gw G) i;
         amf_sessions env (put_gw G W) amfId is } })"

definition DeleteAllAmfSession :: "sig_env \<Rightarrow> sig_side \<Rightarrow> nat \<Rightarrow> sig_side option" where
  "DeleteAllAmfSession env G amfId = amf_sessions env G amfId [0..<MAX_SIG_SESSIONS]"

text \<open>The loops over the PDU sessions of a radio node: \<open>i\<close> is incremented in place of \<open>j\<close>.\<close>

partial_function (option) gnb_inner :: "sig_env \<Rightarrow> sig_side \<Rightarrow> ptr \<Rightarrow> nat \<Rightarrow> nat \<Rightarrow> (sig_side \<times> nat) option" where
  "gnb_inner env G p i j =
     (if MAX_PDU_SESSION_SIZE \<le> j then Some (G, i)
      else do {
        s \<leftarrow> sg_ngaps (gw G) p;
        r \<leftarrow> (if j < length (ns_vecPduSessionID s) then Some (ns_vecPduSessionID s ! j) else None);
        if r = INVALID_PDU_SESSION_ID then gnb_inner env G p (i + 1) j
        else do { (G, _) \<leftarrow> ReleasePduSess env G (ns_sessId s) r; gnb_inner env G p (i + 1) j } })"

partial_function (option) gnb_sessions :: "sig_env \<Rightarrow> (ngap_session \<Rightarrow> bool) \<Rightarrow> sig_side \<Rightarrow> nat \<Rightarrow> sig_side option" where
  "gnb_sessions env sel G i =
     (if MAX_SIG_SESSIONS \<le> i then Some G
      else let p = sg_ngap_list (gw G) i in
        if p = NULL then gnb_sessions env sel G (i + 1)
        else do {
          s \<leftarrow> sg_ngaps (gw G) p;
          if \<not> sel s then gnb_sessions env sel G (i + 1)
          else do {
            (G, i) \<leftarrow> gnb_inner env G p i 0;
            W \<leftarrow> RemoveNgapSess (gw G) i;
            gnb_sessions env sel (put_gw G W) (i + 1) } })"

definition DeleteAllGnbSession :: "sig_env \<Rightarrow> sig_side \<Rightarrow> RanNodeId \<Rightarrow> sig_side option" where
  "DeleteAllGnbSession env G node = gnb_sessions env (\<lambda>s. node_eq (ns_gnbId s) node) G 0"

definition DeleteAllGnbSession_of_sctp :: "sig_env \<Rightarrow> sig_side \<Rightarrow> nat \<Rightarrow> sig_side option" where
  "DeleteAllGnbSession_of_sctp env G sctp_index = gnb_sessions env (\<lambda>s. ns_gnb_sctp_index s = sctp_index) G 0"

section \<open>The tables\<close>

lemma sig_slot_eq: "sig_slot n T i = find_slot n T i"
  by (induction n arbitrary: i) (simp_all add: SIG_NEXT_ID_def MEDIA_SESS_NEXT_ID_def Let_def)

text \<open>A slot in use holds an allocated session with its identifier.\<close>

definition pdus_ok :: "sig_gw \<Rightarrow> bool" where
  "pdus_ok W \<longleftrightarrow> sg_pdu_current W < MAX_SIG_SESSIONS \<and> (\<forall>p. sg_pdus W p \<noteq> None \<longrightarrow> p < sg_brk W) \<and>
     (\<forall>i. sg_pdu_list W i \<noteq> NULL \<longrightarrow> 0 < i \<and> i < MAX_SIG_SESSIONS \<and>
        (\<exists>s. sg_pdus W (sg_pdu_list W i) = Some s \<and> sm_sig_sess_id s = i))"

definition ngaps_ok :: "sig_gw \<Rightarrow> bool" where
  "ngaps_ok W \<longleftrightarrow> sg_ngap_current W < MAX_SIG_SESSIONS \<and> (\<forall>p. sg_ngaps W p \<noteq> None \<longrightarrow> p < sg_brk W) \<and>
     (\<forall>i. sg_ngap_list W i \<noteq> NULL \<longrightarrow> 0 < i \<and> i < MAX_SIG_SESSIONS \<and>
        (\<exists>s. sg_ngaps W (sg_ngap_list W i) = Some s \<and> ns_sessId s = i))"

definition sig_ok :: "sig_gw \<Rightarrow> bool" where
  "sig_ok W \<longleftrightarrow> 0 < sg_brk W \<and> pdus_ok W \<and> ngaps_ok W"

lemma pdus_okD:
  assumes "pdus_ok W"
  shows "sg_pdu_current W < MAX_SIG_SESSIONS" "sg_pdus W p \<noteq> None \<Longrightarrow> p < sg_brk W"
    and "sg_pdu_list W i \<noteq> NULL \<Longrightarrow> 0 < i \<and> i < MAX_SIG_SESSIONS \<and> (\<exists>s. sg_pdus W (sg_pdu_list W i) = Some s \<and> sm_sig_sess_id s = i)"
  using assms unfolding pdus_ok_def by blast+

lemma ngaps_okD:
  assumes "ngaps_ok W"
  shows "sg_ngap_current W < MAX_SIG_SESSIONS" "sg_ngaps W p \<noteq> None \<Longrightarrow> p < sg_brk W"
    and "sg_ngap_list W i \<noteq> NULL \<Longrightarrow> 0 < i \<and> i < MAX_SIG_SESSIONS \<and> (\<exists>s. sg_ngaps W (sg_ngap_list W i) = Some s \<and> ns_sessId s = i)"
  using assms unfolding ngaps_ok_def by blast+

text \<open>The tables depend on nothing else.\<close>

lemma sig_ok_frame [simp]:
  "sig_ok (W\<lparr>sg_map := a\<rparr>) = sig_ok W" "sig_ok (W\<lparr>sg_msgs := b\<rparr>) = sig_ok W" "sig_ok (W\<lparr>sg_drb := c\<rparr>) = sig_ok W"
  "sig_ok (W\<lparr>sg_pending := d\<rparr>) = sig_ok W" "sig_ok (W\<lparr>sg_calls := e\<rparr>) = sig_ok W" "sig_ok (W\<lparr>sg_containers := f\<rparr>) = sig_ok W"
  "sig_ok (W\<lparr>sg_timer_list := g\<rparr>) = sig_ok W" "sig_ok (W\<lparr>sg_timer_ctx := h\<rparr>) = sig_ok W" "sig_ok (W\<lparr>sg_ngap_stream := k\<rparr>) = sig_ok W"
  by (simp_all add: sig_ok_def pdus_ok_def ngaps_ok_def)

lemma newPduSess_ok:
  assumes "sig_ok W" "selectMediaGW (sg_medias W) (nm_idSigGW info) = Some (Some name)"
    and "0 < k" "k < MAX_SIG_SESSIONS" "sg_pdu_list W k = NULL"
  shows "\<exists>i. 0 < i \<and> i < MAX_SIG_SESSIONS \<and> sg_pdu_list W i = NULL \<and>
     newPduSess env W info = Some (W\<lparr>sg_pdu_current := i, sg_brk := sg_brk W + 1, sg_pdus := (sg_pdus W)(sg_brk W \<mapsto> new_pdu (se_sess env) name i),
       sg_pdu_list := (sg_pdu_list W)(i := sg_brk W)\<rparr>, sg_brk W)"
proof -
  let ?f = "find_slot MAX_SIG_SESSIONS (sg_pdu_list W) (sg_pdu_current W)"
  have c: "sg_pdu_current W < MAX_SIG_SESSIONS" using assms(1) pdus_okD(1) by (auto simp: sig_ok_def)
  obtain i where i: "snd ?f = Some i" using find_slot_complete [OF c assms(3,4), of "sg_pdu_list W"] assms(5) by auto
  have r: "0 < i" "i < MAX_SIG_SESSIONS" "sg_pdu_list W i = NULL"
    using find_slot_result [OF c, of MAX_SIG_SESSIONS "sg_pdu_list W"] i by auto
  have f: "?f = (i, Some i)" using find_slot_fst [OF i] i by (metis prod.collapse)
  show ?thesis
    using r f assms(2) by (intro exI [of _ i]) (auto simp: newPduSess_def sig_slot_eq Let_def)
qed

section \<open>Setting up a session\<close>

text \<open>The environment formats addresses without conversions.\<close>

definition plain_env :: "sig_env \<Rightarrow> bool" where
  "plain_env env \<longleftrightarrow> no_percent (se_hostname env) \<and> length (se_hostname env) < 245 \<and> (\<forall>a. no_percent (se_ntop6 env a))"

lemma upf_setup_req_plain:
  assumes "plain_env env" "no_percent r"
  shows "\<forall>(n, v)\<in>set (upf_setup_req_headers env i p4 p6 r). no_percent v"
  using assms by (auto simp: upf_setup_req_headers_def addr_headers_def plain_env_def)

definition requested :: "sig_env \<Rightarrow> string \<Rightarrow> ngap_message \<Rightarrow> nat \<Rightarrow> transport \<Rightarrow> nat \<Rightarrow> sig_media_sess" where
  "requested env name info r t i = (set_upf_end t ((new_pdu (se_sess env) name i)\<lparr>sm_ngap_sess_id := nm_sessId info,
     sm_pdu_resource_id := r\<rparr>))\<lparr>sm_timer := True\<rparr>"

lemma requested_fields [simp]:
  "sm_sig_sess_id (requested env name info r t i) = i" "sm_MediaGWName (requested env name info r t i) = name"
  "sm_ngap_sess_id (requested env name info r t i) = nm_sessId info"
  "sp_remote_teid (sm_upf (requested env name info r t i)) = tr_teid t"
  "sp_remote_addr (sm_upf (requested env name info r t i)) = overwrite (sp_remote_addr (sm_upf (se_sess env))) (tr_addrlen t) (tr_addr t)"
  by (simp_all add: requested_def set_upf_end_def set_remote4_def new_pdu_def)

lemma setup_requested:
  assumes "bus_ok S" "sig_ok W" "plain_env env"
    and "selectMediaGW (sg_medias W) (nm_idSigGW info) = Some (Some name)" "length name < 245" "no_percent name"
    and "0 < k" "k < MAX_SIG_SESSIONS" "sg_pdu_list W k = NULL"
    and "nm_sessId info < MAX_SIG_SESSIONS" "r < MAX_PDU_SESSION_ID" "nm_present info"
  shows "\<exists>i s S' e'. 0 < i \<and> i < MAX_SIG_SESSIONS \<and> sg_pdu_list W i = NULL \<and> s = requested env name info r t i \<and>
     processSessSetupReq env (S, W) info r t = Some ((S', W\<lparr>sg_pdu_current := i, sg_brk := sg_brk W + 1,
       sg_pdus := (sg_pdus W)(sg_brk W \<mapsto> s), sg_pdu_list := (sg_pdu_list W)(i := sg_brk W),
       sg_map := (sg_map W)(r := (sg_map W r)(nm_sessId info := i)), sg_msgs := (sg_msgs W)(nm_sessId info \<mapsto> info),
       sg_pending := sg_pending W @ [Pdu_Timer (sg_brk W)]\<rparr>), info\<lparr>nm_present := False\<rparr>, True) \<and>
     sent S EVENT_ID_SIG2MEDIA (se_rnd env (length (bus_fired S)))
       (upf_setup_req_headers env i (sm_upf s) (sm_upfv6 s) (name @ ''.sig2media'')) S' e'"
proof -
  from newPduSess_ok [OF assms(2,4,7-9), of env] obtain i where i: "0 < i" "i < MAX_SIG_SESSIONS" "sg_pdu_list W i = NULL"
    "newPduSess env W info = Some (W\<lparr>sg_pdu_current := i, sg_brk := sg_brk W + 1,
       sg_pdus := (sg_pdus W)(sg_brk W \<mapsto> new_pdu (se_sess env) name i), sg_pdu_list := (sg_pdu_list W)(i := sg_brk W)\<rparr>, sg_brk W)"
    by blast
  have p: "0 < sg_brk W" using assms(2) by (simp add: sig_ok_def)
  let ?s = "set_upf_end t ((new_pdu (se_sess env) name i)\<lparr>sm_ngap_sess_id := nm_sessId info, sm_pdu_resource_id := r\<rparr>)"
  let ?n = "length (bus_fired S)"
  have s: "sm_sig_sess_id ?s = i" "sm_MediaGWName ?s = name" "sm_sig_sess_id (new_pdu (se_sess env) name i) = i"
    by (simp_all add: set_upf_end_def new_pdu_def)
  from send_event_ok [OF assms(1) upf_setup_req_plain [OF assms(3), of "name @ ''.sig2media''" i "sm_upf ?s" "sm_upfv6 ?s"],
      of EVENT_ID_SIG2MEDIA "se_debug env ?n" "se_rnd env ?n"] assms(6) obtain S' e' where
    snd: "send_event S EVENT_ID_SIG2MEDIA (se_debug env ?n) (se_rnd env ?n)
        (upf_setup_req_headers env i (sm_upf ?s) (sm_upfv6 ?s) (name @ ''.sig2media'')) = Some (S', AGC_STATUS_SUCCESS)"
      "sent S EVENT_ID_SIG2MEDIA (se_rnd env ?n) (upf_setup_req_headers env i (sm_upf ?s) (sm_upfv6 ?s) (name @ ''.sig2media'')) S' e'"
    by auto
  have "sm_upf (requested env name info r t i) = sm_upf ?s" "sm_upfv6 (requested env name info r t i) = sm_upfv6 ?s"
    by (simp_all add: requested_def)
  moreover have "processSessSetupReq env (S, W) info r t = Some ((S', W\<lparr>sg_pdu_current := i, sg_brk := sg_brk W + 1,
       sg_pdus := (sg_pdus W)(sg_brk W \<mapsto> requested env name info r t i), sg_pdu_list := (sg_pdu_list W)(i := sg_brk W),
       sg_map := (sg_map W)(r := (sg_map W r)(nm_sessId info := i)), sg_msgs := (sg_msgs W)(nm_sessId info \<mapsto> info),
       sg_pending := sg_pending W @ [Pdu_Timer (sg_brk W)]\<rparr>), info\<lparr>nm_present := False\<rparr>, True)"
    using i p s snd(1) assms(5,10-12)
    by (simp add: processSessSetupReq_def newSessMap_def set_map_def save_msg_def set_msg_def upd_pdu_def requested_def
        sig_media_path_send_upf_setup_req_def request_def startSessTimer_def put_gw_def routing_to_def Let_def)
  ultimately show ?thesis using i snd(2)
    by (intro exI [of _ i] exI [of _ "requested env name info r t i"] exI [of _ S'] exI [of _ e']) simp
qed

text \<open>The answer: the ends of the media gateway are noted and the saved message is handed on.\<close>

lemma setup_answered:
  assumes "sg_pdu_list W i = p" "p \<noteq> NULL" "i < MAX_SIG_SESSIONS" "sg_pdus W p = Some s" "sm_sig_sess_id s = i"
    and "GetNgapSession W (sm_ngap_sess_id s) = Some n" "sg_ngaps W n = Some ns" "ns_sessId ns = sm_ngap_sess_id s"
    and "ns_pdu_resource_count ns \<le> (ns_pdu_sess_rsp_count ns + 1) mod 256" "sg_msgs W (sm_ngap_sess_id s) = Some info"
  shows "\<exists>W'. handleUpfSetupRsp W i m to_gnb to_upf = Some W' \<and>
     sg_pdus W' = (sg_pdus W)(p \<mapsto> (set_media_ends m to_gnb to_upf s)\<lparr>sm_timer := False\<rparr>) \<and> sg_pdu_list W' = sg_pdu_list W \<and>
     sg_map W' = sg_map W \<and> sg_msgs W' = (sg_msgs W)(sm_ngap_sess_id s := None, i := None) \<and>
     sg_calls W' = sg_calls W @ upf_setup_calls info"
proof -
  have "sm_ngap_sess_id s < MAX_SIG_SESSIONS" "sg_ngap_list W (sm_ngap_sess_id s) = n"
    using assms(6) by (simp_all add: GetNgapSession_def split: if_splits)
  then show ?thesis using assms
    by (simp add: handleUpfSetupRsp_def getPduSess_def GetNgapSession_def count_rsp_def upd_ngap_def upd_pdu_def take_msg_def get_msg_def
        set_msg_def log_call_def stopSessTimer_def set_media_ends_def Let_def)
qed

section \<open>A concrete gateway\<close>

definition demo_bus :: bus where
  "demo_bus = \<lparr>bus_templates = init_ids, bus_node_mem = (\<lambda>_. None), bus_node_brk = 1, bus_nodes = (\<lambda>_. []),
     bus_queues = (\<lambda>_. []), bus_running = True, bus_source = 0, bus_max = 3, bus_mem = \<lparr>em_headers = (\<lambda>_. None), em_brk = 1\<rparr>,
     bus_fast = \<lparr>fs_events = (\<lambda>_. None), fs_brk = 1, fs_queues = (\<lambda>_. None), fs_limit = (\<lambda>_. 0)\<rparr>,
     bus_log = [], bus_fired = [], bus_done = []\<rparr>"

definition demo_bytes :: string where
  "demo_bytes = replicate 128 NUL"

definition demo_sig_path :: sig_path where
  "demo_sig_path = \<lparr>sp_media_teid = 0, sp_remote_teid = 0, sp_local_addr = demo_bytes, sp_local_addrlen = 0,
     sp_remote_addr = demo_bytes, sp_remote_addrlen = 0\<rparr>"

definition demo_junk :: sig_media_sess where
  "demo_junk = \<lparr>sm_sig_sess_id = 0, sm_media_sess_id = 0, sm_ngap_sess_id = 0, sm_pdu_resource_id = 0, sm_MediaGWName = [],
     sm_upf = demo_sig_path, sm_gnb = demo_sig_path, sm_upfv6 = demo_sig_path, sm_gnbv6 = demo_sig_path, sm_timer = False,
     sm_pdu_resource = zero_resource, sm_target_teid = 0, sm_target_addr = [], sm_target_addrlen = 0, sm_target_teid_v6 = 0,
     sm_target_addr_v6 = [], sm_target_addrlen_v6 = 0\<rparr>"

definition demo_sig_env :: sig_env where
  "demo_sig_env = \<lparr>se_hostname = ''sig1'', se_rnd = (\<lambda>_. 7), se_debug = (\<lambda>_. 1), se_sess = demo_junk, se_stack = demo_bytes,
     se_pton6 = (\<lambda>_. None), se_ntop6 = (\<lambda>_. ''::'')\<rparr>"

definition demo_ngap :: ngap_session where
  "demo_ngap = new_NgapSession\<lparr>ns_sessId := 3, ns_pdu_resource_count := 1\<rparr>"

definition demo_info :: ngap_message where
  "demo_info = (new_NgapMessage 0)\<lparr>nm_sessId := 3, nm_gnbUeId := 0, nm_amfId := 1, nm_PDUChoice := PDU_initiatingMessage, nm_ProcCode := id_InitialContextSetup,
     nm_idSigGW := 1, nm_ranNodeId := RanNodeId_default, nm_sockSource := 0, nm_max_sctp_stream := 2, nm_present := True,
     nm_nasMessageType := 0, nm_nasSequence := 0\<rparr>"

definition demo_sig :: sig_gw where
  "demo_sig = \<lparr>sg_ngap_current = 3, sg_ngap_stream = 1, sg_ngap_list = (\<lambda>_. NULL)(3 := 50), sg_ngaps = [50 \<mapsto> demo_ngap],
     sg_timer_list = (\<lambda>_. NULL), sg_timer_ctx = (\<lambda>_. None), sg_containers = (\<lambda>_. None), sg_pdu_current = 0,
     sg_pdu_list = (\<lambda>_. NULL), sg_pdus = (\<lambda>_. None), sg_msgs = (\<lambda>_. None), sg_map = (\<lambda>_ _. INVALIDE_ID), sg_drb = (\<lambda>_. None),
     sg_medias = [(1, ''media1'')], sg_pending = [], sg_calls = [], sg_brk = 60\<rparr>"

definition demo_transport :: transport where
  "demo_transport = \<lparr>tr_teid = 77, tr_addrlen = SIN_LEN, tr_addr = replicate 16 (CHR ''a''), tr_teid6 = 0, tr_addrlen6 = 0, tr_addr6 = []\<rparr>"

lemma demo_env_ok: "plain_env demo_sig_env" "4 \<le> length (se_stack demo_sig_env)"
proof -
  show "4 \<le> length (se_stack demo_sig_env)" unfolding demo_sig_env_def sig_env.select_convs demo_bytes_def length_replicate by simp
qed (simp_all add: plain_env_def demo_sig_env_def)

lemma demo_bus_ok: "bus_ok demo_bus"
  by (simp add: bus_ok_def demo_bus_def)

lemma demo_sig_fields [simp]:
  "sg_medias demo_sig = [(1, ''media1'')]" "sg_calls demo_sig = []" "sg_ngaps demo_sig = [50 \<mapsto> demo_ngap]" "sg_brk demo_sig = 60"
  "sg_pdus demo_sig = (\<lambda>_. None)" "sg_pdu_list demo_sig = (\<lambda>_. NULL)" "sg_ngap_list demo_sig = (\<lambda>_. NULL)(3 := 50)"
  "sg_pdu_current demo_sig = 0" "sg_ngap_current demo_sig = 3" "ns_sessId demo_ngap = 3" "nm_sessId demo_info = 3" "nm_idSigGW demo_info = 1"
  by (simp_all add: demo_sig_def demo_ngap_def demo_info_def)

lemma demo_sig_ok: "sig_ok demo_sig"
  by (simp add: sig_ok_def pdus_ok_def ngaps_ok_def)

lemma demo_sides: "selectMediaGW (sg_medias demo_sig) (nm_idSigGW demo_info) = Some (Some ''media1'')"
    "GetNgapSession demo_sig (nm_sessId demo_info) = Some 50" "sg_ngaps demo_sig 50 = Some demo_ngap"
  by (simp_all add: GetNgapSession_def)

end
