(* ===== verification/Sess_Setup.thy ===== *)
theory Sess_Setup
  imports Media_Sig Pdu_Sess
begin

text \<open>
  The two sides of the gateway together: a network message that starts a PDU session makes the signalling
  side ask the media side for a session, the media side opens it and answers, and the signalling side
  notes its ends and hands the message on.

  Between the sides events travel as JSON through a message broker (Event_Json): they arrive on another
  event bus, with the same headers and possibly more behind them.
\<close>

section \<open>Events that arrive\<close>

definition foreign :: "(string \<times> string option) list \<Rightarrow> bool" where
  "foreign kvs \<longleftrightarrow> (\<forall>(n, v)\<in>set kvs. \<forall>h\<in>set header_names. \<not> strcaseeq n h)"

definition arrives :: "(string \<times> string) list \<Rightarrow> bus \<Rightarrow> event \<Rightarrow> bool" where
  "arrives hs S e \<longleftrightarrow> (\<exists>extra. foreign extra \<and> event_headers (bus_mem S) e (some_values hs @ extra))"

lemma lookup_foreign: "foreign extra \<Longrightarrow> n \<in> set header_names \<Longrightarrow> lookup n extra = None"
  by (induction extra) (auto simp: foreign_def)

lemma lookup_arrived:
  "foreign extra \<Longrightarrow> n \<in> set header_names \<Longrightarrow> lookup n (some_values hs @ extra) = lookup n (some_values hs)"
  by (induction hs) (auto simp: lookup_foreign)

text \<open>The headers that JSON adds on the way are foreign.\<close>

lemma json_headers_foreign: "foreign [(''_name'', v), (''_length'', w)]"
  by (simp add: foreign_def header_names_def header_name_defs strcaseeq_def) code_simp

section \<open>Addresses\<close>

lemma sin_addr_parts: "length x = 2 \<Longrightarrow> length y = 2 \<Longrightarrow> length a = 4 \<Longrightarrow> sin_addr (x @ y @ a @ r) = a"
  by (simp add: sin_addr_def)

lemma length_le_bytes2 [simp]: "length (le_bytes2 v) = 2"
  by (simp add: le_bytes2_def)

lemma sin_addr_overwrite:
  assumes "8 \<le> length a"
  shows "sin_addr (overwrite b SIN_LEN a) = sin_addr a"
proof -
  have "drop 4 (take SIN_LEN a) = take 12 (drop 4 a)" by (simp add: SIN_LEN_def drop_take)
  moreover have "4 \<le> length (take 12 (drop 4 a))" "4 \<le> length (take SIN_LEN a)" using assms by (simp_all add: SIN_LEN_def)
  ultimately show ?thesis by (simp add: sin_addr_def overwrite_def)
qed

lemma length_sin_addr: "8 \<le> length a \<Longrightarrow> length (sin_addr a) = 4"
  by (simp add: sin_addr_def)

lemma sin_of_parts:
  assumes "length a = 4"
  shows "sin_addr (sin_of env (inet_ntop4 a)) = a" "8 \<le> length (sin_of env (inet_ntop4 a))"
  using assms by (simp_all add: sin_of_def set_sin_def inet_pton_ntop4 sin_addr_parts)

lemma set_sin_parts:
  assumes "length a = 4" "4 \<le> length stack"
  shows "sin_addr (set_sin stack None (inet_pton4 (inet_ntop4 a))) = a" "8 \<le> length (set_sin stack None (inet_pton4 (inet_ntop4 a)))"
proof -
  have "length (take 2 (drop 2 stack)) = 2" using assms(2) by simp
  then show "sin_addr (set_sin stack None (inet_pton4 (inet_ntop4 a))) = a" "8 \<le> length (set_sin stack None (inet_pton4 (inet_ntop4 a)))"
    using assms by (simp_all add: set_sin_def inet_pton_ntop4 sin_addr_parts)
qed

section \<open>The two halves\<close>

lemma request_handled:
  assumes "bus_ok T" "gateway_ok (mg_ctx V)" "both_families (mg_ctx V)"
    and "0 < l" "l < MAX_MEDIA_SESSIONS" "mc_session_list (mg_ctx V) l = NULL" "\<And>a. no_percent (me_ntop6 menv a)"
    and "arrives (upf_setup_req_headers env i p4 p6 routing) T e" "plain_env env"
    and "i < 2 ^ 32" "sp_remote_teid p4 < 2 ^ 32"
  shows "\<exists>G' s e'. media_sig_path_event_callback menv (T, V) e = Some G' \<and>
     set_up menv (T, V) G' i (se_hostname env) (sp_remote_teid p4) (sin_of menv (inet_ntop4 (sin_addr (sp_remote_addr p4)))) s e'"
proof -
  let ?hs = "upf_setup_req_headers env i p4 p6 routing"
  obtain extra where x: "foreign extra" "event_headers (bus_mem T) e (some_values ?hs @ extra)" using assms(8) by (auto simp: arrives_def)
  have l: "lookup h (some_values ?hs @ extra) = lookup h (some_values ?hs)" if "h \<in> set header_names" for h
    by (rule lookup_arrived [OF x(1) that])
  have "lookup H_SIG_SESSID (some_values ?hs @ extra) = Some (dec_nat i)"
    "lookup H_UPF_IPADDR (some_values ?hs @ extra) = Some (inet_ntop4 (sin_addr (sp_remote_addr p4)))"
    "lookup H_UPF_TEID (some_values ?hs @ extra) = Some (dec_nat (sp_remote_teid p4))"
    "lookup H_SIG_HOSTNAME (some_values ?hs @ extra) = Some (se_hostname env)"
    by (simp_all add: l, simp_all add: upf_setup_req_headers_def)
  moreover have "no_percent (se_hostname env)" "length (se_hostname env) < 245" using assms(9) by (simp_all add: plain_env_def)
  ultimately have "\<exists>G' s e'. media_sig_handle_upf_setup_req menv (T, V) e = Some G' \<and>
      set_up menv (T, V) G' (atoui (dec_nat i)) (se_hostname env) (atoui (dec_nat (sp_remote_teid p4)))
        (sin_of menv (inet_ntop4 (sin_addr (sp_remote_addr p4)))) s e'"
    by (rule upf_setup_handled [OF assms(1-6) x(2) _ _ _ _ _ _ assms(7)])
  with assms(10,11) obtain G' s e' where
    h: "media_sig_handle_upf_setup_req menv (T, V) e = Some G'"
    "set_up menv (T, V) G' i (se_hostname env) (sp_remote_teid p4) (sin_of menv (inet_ntop4 (sin_addr (sp_remote_addr p4)))) s e'"
    by (simp only: atoui_dec) blast
  have "lookup H_TYPE (some_values ?hs @ extra) = Some (dec_nat (type_num MSET_UPF_SETUP_REQ))"
    by (simp add: l, simp add: upf_setup_req_headers_def)
  then have "media_sig_path_event_callback menv (T, V) e = Some G'"
    using x(2) h(1) type_num_small [of MSET_UPF_SETUP_REQ] num_type_num [of MSET_UPF_SETUP_REQ]
    by (simp add: media_sig_path_event_callback_def del: num_type_num)
  then show ?thesis using h(2) by blast
qed

lemma response_handled:
  assumes "arrives (upf_setup_rsp_headers menv s routing) S e"
    and "ss_sig_sess_id s < 2 ^ 32" "ss_sess_id s < MAX_MEDIA_SESSIONS" "teids_ok s"
  shows "\<exists>to_gnb to_upf. sig_media_path_event_callback env (S, W) e =
       map_option (put_gw (S, W)) (handleUpfSetupRsp W (ss_sig_sess_id s) (ss_sess_id s) to_gnb to_upf) \<and>
     tr_teid to_gnb = gp_local_teid (ss_gnb s) \<and> tr_teid to_upf = gp_local_teid (ss_upf s) \<and>
     tr_addrlen to_gnb = SIN_LEN \<and> tr_addrlen to_upf = SIN_LEN \<and>
     tr_addr to_gnb = set_sin (se_stack env) None (inet_pton4 (inet_ntop4 (sin_addr (gp_local_addr (ss_gnb s))))) \<and>
     tr_addr to_upf = set_sin (se_stack env) None (inet_pton4 (inet_ntop4 (sin_addr (gp_local_addr (ss_upf s)))))"
proof -
  let ?hs = "upf_setup_rsp_headers menv s routing"
  obtain extra where x: "foreign extra" "event_headers (bus_mem S) e (some_values ?hs @ extra)" using assms(1) by (auto simp: arrives_def)
  let ?kvs = "some_values ?hs @ extra"
  have l: "lookup h ?kvs = lookup h (some_values ?hs)" if "h \<in> set header_names" for h
    by (rule lookup_arrived [OF x(1) that])
  have v: "lookup H_TYPE ?kvs = Some (dec_nat (type_num MSET_UPF_SETUP_RSP))" "lookup H_ERRCODE ?kvs = Some (dec_nat MSEC_SUCCESS)"
    "lookup H_SIG_SESSID ?kvs = Some (dec_nat (ss_sig_sess_id s))" "lookup H_MEDIA_SESSID ?kvs = Some (dec_nat (ss_sess_id s))"
    "lookup H_TO_UPF_TEID ?kvs = Some (dec_nat (gp_local_teid (ss_upf s)))" "lookup H_TO_GNB_TEID ?kvs = Some (dec_nat (gp_local_teid (ss_gnb s)))"
    "lookup H_TO_UPF_IPADDR ?kvs = Some (inet_ntop4 (sin_addr (gp_local_addr (ss_upf s))))"
    "lookup H_TO_GNB_IPADDR ?kvs = Some (inet_ntop4 (sin_addr (gp_local_addr (ss_gnb s))))"
    by (simp_all add: l, simp_all add: upf_setup_rsp_headers_def)
  have small: "ss_sess_id s < 2 ^ 32" "gp_local_teid (ss_upf s) < 2 ^ 32" "gp_local_teid (ss_gnb s) < 2 ^ 32"
    using assms(3,4) by (simp_all add: teids_ok_def)
  let ?to_gnb = "media_end env (dec_nat (gp_local_teid (ss_gnb s))) (inet_ntop4 (sin_addr (gp_local_addr (ss_gnb s))))
    (lookup H_TO_GNB_TEID_V6 ?kvs) (lookup H_TO_GNB_IPADDR_V6 ?kvs)"
  let ?to_upf = "media_end env (dec_nat (gp_local_teid (ss_upf s))) (inet_ntop4 (sin_addr (gp_local_addr (ss_upf s))))
    (lookup H_TO_UPF_TEID_V6 ?kvs) (lookup H_TO_UPF_IPADDR_V6 ?kvs)"
  have "sig_media_handle_upf_setup_rsp env (S, W) e =
      map_option (put_gw (S, W)) (handleUpfSetupRsp W (ss_sig_sess_id s) (ss_sess_id s) ?to_gnb ?to_upf)"
    using x(2) v small assms(2) by (simp add: sig_media_handle_upf_setup_rsp_def MSEC_SUCCESS_def)
  then have "sig_media_path_event_callback env (S, W) e =
      map_option (put_gw (S, W)) (handleUpfSetupRsp W (ss_sig_sess_id s) (ss_sess_id s) ?to_gnb ?to_upf)"
    using x(2) v(1) type_num_small [of MSET_UPF_SETUP_RSP] num_type_num [of MSET_UPF_SETUP_RSP]
    by (simp add: sig_media_path_event_callback_def del: num_type_num)
  then show ?thesis using small by (intro exI [of _ ?to_gnb] exI [of _ ?to_upf]) (simp add: media_end_def)
qed

section \<open>The whole exchange\<close>

text \<open>
  Both sides know the session under the identifiers of the other; packets with the tunnel identifiers
  that the network gets for its ends reach it; its remote end is the one of the message; the message
  was handed on.
\<close>

definition linked :: "sig_gw \<Rightarrow> ptr \<Rightarrow> media_context \<Rightarrow> sig_sess \<Rightarrow> transport \<Rightarrow> bool" where
  "linked W p C s t \<longleftrightarrow> (\<exists>u. sg_pdus W p = Some u \<and> sm_media_sess_id u = ss_sess_id s \<and> ss_sig_sess_id s = sm_sig_sess_id u \<and>
     mc_sessions C (media_find_media_sig_sess_by_teid C (sp_media_teid (sm_gnb u))) = Some s \<and>
     mc_sessions C (media_find_media_sig_sess_by_teid C (sp_media_teid (sm_upf u))) = Some s \<and>
     sp_media_teid (sm_gnb u) = gp_local_teid (ss_gnb s) \<and> sp_media_teid (sm_upf u) = gp_local_teid (ss_upf s) \<and>
     gp_remote_teid (ss_upf s) = tr_teid t \<and> sin_addr (gp_remote_addr (ss_upf s)) = sin_addr (tr_addr t) \<and>
     (8 \<le> length (gp_local_addr (ss_gnb s)) \<longrightarrow> sin_addr (sp_local_addr (sm_gnb u)) = sin_addr (gp_local_addr (ss_gnb s))))"

lemma linked_after:
  assumes up: "set_up menv (T, V) G' i host (tr_teid t) (sin_of menv (inet_ntop4 (sin_addr (sp_remote_addr (sm_upf q))))) s e'"
    and ends: "tr_teid to_gnb = gp_local_teid (ss_gnb s)" "tr_teid to_upf = gp_local_teid (ss_upf s)" "tr_addrlen to_gnb = SIN_LEN"
      "tr_addr to_gnb = set_sin (se_stack env) None (inet_pton4 (inet_ntop4 (sin_addr (gp_local_addr (ss_gnb s)))))"
    and stack: "4 \<le> length (se_stack env)" and t: "tr_addrlen t = SIN_LEN" "SIN_LEN \<le> length (tr_addr t)"
    and q: "sm_sig_sess_id q = i" "sp_remote_addr (sm_upf q) = overwrite b (tr_addrlen t) (tr_addr t)"
    and W: "sg_pdus W p = Some ((set_media_ends (ss_sess_id s) to_gnb to_upf q)\<lparr>sm_timer := False\<rparr>)"
  shows "linked W p (ctx G') s t"
proof -
  note u = up [unfolded set_up_def, simplified]
  have id: "gp_local_teid (ss_gnb s) div 4 = ss_sess_id s" "gp_local_teid (ss_upf s) div 4 = ss_sess_id s"
    using u by (simp_all add: teids_ok_def)
  have c: "ss_sess_id s < MAX_MEDIA_SESSIONS" "mc_sessions (ctx G') (media_find_media_sig_sess_by_id (ctx G') (ss_sess_id s)) = Some s"
    using u by blast+
  have c2: "mc_sessions (ctx G') (mc_session_list (ctx G') (ss_sess_id s)) = Some s"
    using c by (simp add: media_find_media_sig_sess_by_id_def)
  have a: "sin_addr (sp_remote_addr (sm_upf q)) = sin_addr (tr_addr t)"
    using t q(2) sin_addr_overwrite [of "tr_addr t" b] by (simp add: SIN_LEN_def)
  have la: "length (sin_addr (tr_addr t)) = 4" using t(2) by (intro length_sin_addr) (simp add: SIN_LEN_def)
  note so = sin_of_parts [OF la, of menv]
  have r: "sin_addr (gp_remote_addr (ss_upf s)) = sin_addr (tr_addr t)"
    using u a so(1) sin_addr_overwrite [OF so(2)] by simp
  have g: "sin_addr (overwrite (sp_local_addr (sm_gnb q)) SIN_LEN (tr_addr to_gnb)) = sin_addr (gp_local_addr (ss_gnb s))"
    if "8 \<le> length (gp_local_addr (ss_gnb s))"
    using set_sin_parts [OF length_sin_addr [OF that] stack] ends(4) sin_addr_overwrite [of "tr_addr to_gnb"] by simp
  show ?thesis
    using u id r g W q(1) ends(1-3) c(1) c2
    by (simp add: linked_def set_media_ends_def set_local4_def media_find_media_sig_sess_by_teid_def
        media_find_media_sig_sess_by_id_def Let_def)
qed

text \<open>The signalling side while it waits for the answer to a request, and what the answer makes of it.\<close>

definition asked :: "sig_env \<Rightarrow> string \<Rightarrow> ngap_message \<Rightarrow> nat \<Rightarrow> transport \<Rightarrow> nat \<Rightarrow> sig_gw \<Rightarrow> sig_gw" where
  "asked env name info r t i W = W\<lparr>sg_pdu_current := i, sg_brk := sg_brk W + 1,
     sg_pdus := (sg_pdus W)(sg_brk W \<mapsto> requested env name info r t i), sg_pdu_list := (sg_pdu_list W)(i := sg_brk W),
     sg_map := (sg_map W)(r := (sg_map W r)(nm_sessId info := i)), sg_msgs := (sg_msgs W)(nm_sessId info \<mapsto> info),
     sg_pending := sg_pending W @ [Pdu_Timer (sg_brk W)]\<rparr>"

lemma asked_found:
  assumes "nm_sessId info < MAX_SIG_SESSIONS" "r < MAX_PDU_SESSION_ID" "i < MAX_SIG_SESSIONS"
    and "sg_pdu_list V = sg_pdu_list (asked env name info r t i W)" "sg_map V = sg_map (asked env name info r t i W)"
  shows "getPduSess_of_ngap V (nm_sessId info) r = Some (sg_brk W)"
  using assms by (simp add: asked_def getPduSess_of_ngap_def getPduSess_def)

lemma answer_links:
  assumes up: "set_up menv (T, V) (T1, V1) i (se_hostname env) (tr_teid t)
      (sin_of menv (inet_ntop4 (sin_addr (sp_remote_addr (sm_upf (requested env name info r t i)))))) s e'"
    and a: "arrives (upf_setup_rsp_headers menv s (se_hostname env @ ''.media2sig'')) S e"
    and W: "sg_brk W \<noteq> NULL" "GetNgapSession W (nm_sessId info) = Some n" "sg_ngaps W n = Some ns" "ns_sessId ns = nm_sessId info"
      "ns_pdu_resource_count ns \<le> (ns_pdu_sess_rsp_count ns + 1) mod 256"
    and i: "i < MAX_SIG_SESSIONS" and r: "r < MAX_PDU_SESSION_ID" and stack: "4 \<le> length (se_stack env)"
    and t: "tr_addrlen t = SIN_LEN" "SIN_LEN \<le> length (tr_addr t)"
    and msg: "nm_PDUChoice info = PDU_initiatingMessage" "nm_ProcCode info = id_InitialContextSetup"
  shows "\<exists>W2. sig_media_path_event_callback env (S, asked env name info r t i W) e = Some (S, W2) \<and>
    getPduSess_of_ngap W2 (nm_sessId info) r = Some (sg_brk W) \<and> linked W2 (sg_brk W) (mg_ctx V1) s t \<and>
    sg_calls W2 = sg_calls W @ [AMF_InitialContextSetupReqByMedia info]"
proof -
  let ?q = "requested env name info r t i" and ?p = "sg_brk W" and ?W1 = "asked env name info r t i W"
  have s: "ss_sig_sess_id s = i" "ss_sess_id s < MAX_MEDIA_SESSIONS" "teids_ok s" "ss_sig_sess_id s < 2 ^ 32"
    using up i by (simp_all add: set_up_def)
  from response_handled [OF a s(4,2,3), of env ?W1] obtain to_gnb to_upf where
    c: "sig_media_path_event_callback env (S, ?W1) e = map_option (put_gw (S, ?W1)) (handleUpfSetupRsp ?W1 i (ss_sess_id s) to_gnb to_upf)"
    and ends: "tr_teid to_gnb = gp_local_teid (ss_gnb s)" "tr_teid to_upf = gp_local_teid (ss_upf s)" "tr_addrlen to_gnb = SIN_LEN"
      "tr_addr to_gnb = set_sin (se_stack env) None (inet_pton4 (inet_ntop4 (sin_addr (gp_local_addr (ss_gnb s)))))"
    unfolding s(1) by blast
  have w: "sg_pdu_list ?W1 i = ?p" "sg_pdus ?W1 ?p = Some ?q" "sm_sig_sess_id ?q = i"
    "GetNgapSession ?W1 (sm_ngap_sess_id ?q) = Some n" "sg_ngaps ?W1 n = Some ns" "ns_sessId ns = sm_ngap_sess_id ?q"
    "sg_msgs ?W1 (sm_ngap_sess_id ?q) = Some info"
    using W(2-4) by (simp_all add: asked_def GetNgapSession_def split: if_splits)
  from setup_answered [OF w(1) W(1) i w(2-6) W(5) w(7), of "ss_sess_id s" to_gnb to_upf] obtain W2 where
    W2: "handleUpfSetupRsp ?W1 i (ss_sess_id s) to_gnb to_upf = Some W2"
    "sg_pdus W2 = (sg_pdus ?W1)(?p \<mapsto> (set_media_ends (ss_sess_id s) to_gnb to_upf ?q)\<lparr>sm_timer := False\<rparr>)"
    "sg_pdu_list W2 = sg_pdu_list ?W1" "sg_map W2 = sg_map ?W1" "sg_calls W2 = sg_calls ?W1 @ upf_setup_calls info" by blast
  have "linked W2 ?p (mg_ctx V1) s t"
    using linked_after [OF up ends stack t requested_fields(1,5), of W2 ?p] W2(2) by simp
  moreover have "nm_sessId info < MAX_SIG_SESSIONS" using W(2) by (simp add: GetNgapSession_def split: if_splits)
  ultimately show ?thesis
    using c W2(1,5) msg asked_found [OF _ r i W2(3,4)] by (simp add: put_gw_def upf_setup_calls_def asked_def)
qed

text \<open>C3. 
  An InitialContextSetup of the network sets up a session: the signalling side asks the media side,
  which opens the session and answers; when the answer arrives both sides are linked and the saved
  message is handed on.
\<close>

theorem session_setup:
  assumes sig: "bus_ok S" "sig_ok W" "plain_env env" "4 \<le> length (se_stack env)"
      "selectMediaGW (sg_medias W) (nm_idSigGW info) = Some (Some name)" "length name < 245" "no_percent name"
      "0 < k" "k < MAX_SIG_SESSIONS" "sg_pdu_list W k = NULL"
    and media: "gateway_ok (mg_ctx V)" "both_families (mg_ctx V)" "0 < l" "l < MAX_MEDIA_SESSIONS"
      "mc_session_list (mg_ctx V) l = NULL" "\<And>a. no_percent (me_ntop6 menv a)"
    and msg: "nm_PDUChoice info = PDU_initiatingMessage" "nm_ProcCode info = id_InitialContextSetup" "nm_present info"
      "r < MAX_PDU_SESSION_ID" "GetNgapSession W (nm_sessId info) = Some n" "sg_ngaps W n = Some ns"
      "ns_pdu_resource_count ns \<le> (ns_pdu_sess_rsp_count ns + 1) mod 256"
    and t: "tr_teid t < 2 ^ 32" "tr_addrlen t = SIN_LEN" "SIN_LEN \<le> length (tr_addr t)"
  shows "\<exists>S1 W1 p hs e. Process env (S, W) info r t = Some ((S1, W1), info\<lparr>nm_present := False\<rparr>, True) \<and>
     getPduSess_of_ngap W1 (nm_sessId info) r = Some p \<and>
     sent S EVENT_ID_SIG2MEDIA (se_rnd env (length (bus_fired S))) hs S1 e \<and>
     (\<forall>T e1. bus_ok T \<and> arrives hs T e1 \<longrightarrow>
       (\<exists>T1 V1 s hs2 e2. media_sig_path_event_callback menv (T, V) e1 = Some (T1, V1) \<and>
         sent T EVENT_ID_MEDIA2SIG (me_rnd menv) hs2 T1 e2 \<and>
         (\<forall>S2 e3. arrives hs2 S2 e3 \<longrightarrow>
           (\<exists>W2. sig_media_path_event_callback env (S2, W1) e3 = Some (S2, W2) \<and>
             getPduSess_of_ngap W2 (nm_sessId info) r = Some p \<and> linked W2 p (mg_ctx V1) s t \<and>
             sg_calls W2 = sg_calls W @ [AMF_InitialContextSetupReqByMedia info]))))"
proof -
  have n: "nm_sessId info < MAX_SIG_SESSIONS" "sg_ngap_list W (nm_sessId info) = n" "n \<noteq> NULL"
    using msg(5) by (auto simp: GetNgapSession_def split: if_splits)
  have nsid: "ns_sessId ns = nm_sessId info"
    using sig(2) ngaps_okD(3) [of W "nm_sessId info"] n msg(6) by (auto simp: sig_ok_def)
  obtain i S1 e where i: "i < MAX_SIG_SESSIONS" and
    1: "processSessSetupReq env (S, W) info r t = Some ((S1, asked env name info r t i W), info\<lparr>nm_present := False\<rparr>, True)"
      "sent S EVENT_ID_SIG2MEDIA (se_rnd env (length (bus_fired S))) (upf_setup_req_headers env i
        (sm_upf (requested env name info r t i)) (sm_upfv6 (requested env name info r t i)) (name @ ''.sig2media'')) S1 e"
    unfolding asked_def using setup_requested [OF sig(1-3,5-10) n(1) msg(4,3), of t] by blast
  let ?q = "requested env name info r t i" and ?p = "sg_brk W" and ?W1 = "asked env name info r t i W"
  let ?hs = "upf_setup_req_headers env i (sm_upf ?q) (sm_upfv6 ?q) (name @ ''.sig2media'')"
  have p: "?p \<noteq> NULL" using sig(2) by (simp add: sig_ok_def)
  have media_half: "\<exists>T1 V1 s hs2 e2. media_sig_path_event_callback menv (T, V) e1 = Some (T1, V1) \<and>
         sent T EVENT_ID_MEDIA2SIG (me_rnd menv) hs2 T1 e2 \<and>
         (\<forall>S2 e3. arrives hs2 S2 e3 \<longrightarrow>
           (\<exists>W2. sig_media_path_event_callback env (S2, ?W1) e3 = Some (S2, W2) \<and>
             getPduSess_of_ngap W2 (nm_sessId info) r = Some ?p \<and> linked W2 ?p (mg_ctx V1) s t \<and>
             sg_calls W2 = sg_calls W @ [AMF_InitialContextSetupReqByMedia info]))"
    if T: "bus_ok T" "arrives ?hs T e1" for T e1
  proof -
    have "i < 2 ^ 32" "sp_remote_teid (sm_upf ?q) < 2 ^ 32" using i t(1) by simp_all
    from request_handled [OF T(1) media T(2) sig(3) this] obtain T1 V1 s e' where
      m: "media_sig_path_event_callback menv (T, V) e1 = Some (T1, V1)" and
      up: "set_up menv (T, V) (T1, V1) i (se_hostname env) (tr_teid t) (sin_of menv (inet_ntop4 (sin_addr (sp_remote_addr (sm_upf ?q))))) s e'"
      unfolding requested_fields by (metis surj_pair)
    have "sent T EVENT_ID_MEDIA2SIG (me_rnd menv) (upf_setup_rsp_headers menv s (se_hostname env @ ''.media2sig'')) T1 e'"
      using up by (simp add: set_up_def)
    then show ?thesis using m answer_links [OF up _ p msg(5,6) nsid msg(7) i msg(4) sig(4) t(2,3) msg(1,2)] by blast
  qed
  have "Process env (S, W) info r t = Some ((S1, ?W1), info\<lparr>nm_present := False\<rparr>, True)"
    using 1(1) msg(1,2) by (simp add: Process_def)
  then show ?thesis using asked_found [OF n(1) msg(4) i, of ?W1] 1(2) media_half by blast
qed

text \<open>A run with the sides on one bus.\<close>

lemma sent_arrives:
  assumes "bus_ok S" "sent S i rnd hs S' e" "\<And>j. length (bus_queues S j) + 1 < DISPATCH_QUEUE_LIMIT"
  shows "bus_ok S' \<and> arrives hs S' e"
proof -
  have h: "event_headers (bus_mem S') e (some_values hs)" using assms(2) by (simp add: sent_def)
  then obtain cs where "event_ok (bus_mem S') e cs" unfolding event_headers_def by blast
  then have "0 < em_brk (bus_mem S') \<and> (\<forall>p. em_brk (bus_mem S') \<le> p \<longrightarrow> em_headers (bus_mem S') p = None)"
    unfolding event_ok_def by blast
  moreover have "length (bus_queues S' j) < DISPATCH_QUEUE_LIMIT" for j
  proof -
    have "length (bus_queues S' j) \<le> length (bus_queues S j) + 1" using assms(2) by (simp add: sent_def)
    then show ?thesis using assms(3) [of j] by (rule le_less_trans)
  qed
  moreover have "bus_running S'" "0 < bus_max S'"
  proof -
    have "bus_running S' = bus_running S" "bus_max S' = bus_max S" using assms(2) unfolding sent_def by - (elim conjE, assumption)+
    then show "bus_running S'" "0 < bus_max S'" using assms(1) by (simp_all add: bus_ok_def)
  qed
  ultimately have "bus_ok S'" unfolding bus_ok_def by blast
  moreover have "foreign []" by (simp add: foreign_def)
  then have "arrives hs S' e" using h unfolding arrives_def by (intro exI [of _ "[]"]) simp
  ultimately show ?thesis by blast
qed

definition demo_media_env :: media_env where
  "demo_media_env = \<lparr>me_write = (\<lambda>_ _. True), me_opens = (\<lambda>_ _. True), me_sess = demo_sess 0 0 0, me_now = 5, me_rnd = 1, me_debug = 2,
     me_stack = demo_bytes, me_pton6 = (\<lambda>_. None), me_ntop6 = (\<lambda>_. ''::'')\<rparr>"

lemma demo_media_env_ok: "no_percent (me_ntop6 demo_media_env a)"
  by (simp add: demo_media_env_def)

theorem session_setup_witness:
  "\<exists>S1 W1 e T1 V1 e2 W2 p s. Process demo_sig_env (demo_bus, demo_sig) demo_info 5 demo_transport =
       Some ((S1, W1), demo_info\<lparr>nm_present := False\<rparr>, True) \<and>
     media_sig_path_event_callback demo_media_env (S1, \<lparr>mg_ctx = demo_gateway, mg_out = []\<rparr>) e = Some (T1, V1) \<and>
     sig_media_path_event_callback demo_sig_env (T1, W1) e2 = Some (T1, W2) \<and> linked W2 p (mg_ctx V1) s demo_transport \<and>
     sg_calls W2 = [AMF_InitialContextSetupReqByMedia demo_info]"
proof -
  let ?V = "\<lparr>mg_ctx = demo_gateway, mg_out = []\<rparr>"
  have V: "gateway_ok (mg_ctx ?V)" "both_families (mg_ctx ?V)" "mc_session_list (mg_ctx ?V) 1 = NULL" using demo_gateway_ok by simp_all
  have n: "length ''media1'' < 245" "no_percent ''media1''" by simp_all
  have slots: "0 < (1::nat)" "1 < MAX_SIG_SESSIONS" "sg_pdu_list demo_sig 1 = NULL" by simp_all
  have msg: "nm_PDUChoice demo_info = PDU_initiatingMessage" "nm_ProcCode demo_info = id_InitialContextSetup" "nm_present demo_info"
    "5 < MAX_PDU_SESSION_ID" by (simp_all add: demo_info_def)
  have c: "ns_pdu_resource_count demo_ngap \<le> (ns_pdu_sess_rsp_count demo_ngap + 1) mod 256" by (simp add: demo_ngap_def new_NgapSession_def)
  have t: "tr_teid demo_transport < 2 ^ 32" "tr_addrlen demo_transport = SIN_LEN" "SIN_LEN \<le> length (tr_addr demo_transport)"
    by (simp_all add: demo_transport_def SIN_LEN_def)
  from session_setup [OF demo_bus_ok demo_sig_ok demo_env_ok(1,2) demo_sides(1) n slots V(1,2) slots(1,2) V(3) demo_media_env_ok msg demo_sides(2,3) c t]
  obtain S1 W1 p hs e where 1: "Process demo_sig_env (demo_bus, demo_sig) demo_info 5 demo_transport =
       Some ((S1, W1), demo_info\<lparr>nm_present := False\<rparr>, True)"
    "sent demo_bus EVENT_ID_SIG2MEDIA (se_rnd demo_sig_env (length (bus_fired demo_bus))) hs S1 e" and
    m: "\<And>T e1. bus_ok T \<and> arrives hs T e1 \<longrightarrow>
       (\<exists>T1 V1 s hs2 e2. media_sig_path_event_callback demo_media_env (T, ?V) e1 = Some (T1, V1) \<and>
         sent T EVENT_ID_MEDIA2SIG (me_rnd demo_media_env) hs2 T1 e2 \<and>
         (\<forall>S2 e3. arrives hs2 S2 e3 \<longrightarrow>
           (\<exists>W2. sig_media_path_event_callback demo_sig_env (S2, W1) e3 = Some (S2, W2) \<and>
             getPduSess_of_ngap W2 (nm_sessId demo_info) 5 = Some p \<and> linked W2 p (mg_ctx V1) s demo_transport \<and>
             sg_calls W2 = sg_calls demo_sig @ [AMF_InitialContextSetupReqByMedia demo_info])))" by metis
  have q: "length (bus_queues demo_bus j) + 1 < DISPATCH_QUEUE_LIMIT" for j by (simp add: demo_bus_def)
  note a = sent_arrives [OF demo_bus_ok 1(2) q]
  from m [of S1 e] a obtain T1 V1 s hs2 e2 where 2: "media_sig_path_event_callback demo_media_env (S1, ?V) e = Some (T1, V1)"
    "sent S1 EVENT_ID_MEDIA2SIG (me_rnd demo_media_env) hs2 T1 e2" and
    g: "\<And>S2 e3. arrives hs2 S2 e3 \<longrightarrow> (\<exists>W2. sig_media_path_event_callback demo_sig_env (S2, W1) e3 = Some (S2, W2) \<and>
             getPduSess_of_ngap W2 (nm_sessId demo_info) 5 = Some p \<and> linked W2 p (mg_ctx V1) s demo_transport \<and>
             sg_calls W2 = sg_calls demo_sig @ [AMF_InitialContextSetupReqByMedia demo_info])" by metis
  have "length (bus_queues S1 j) + 1 < DISPATCH_QUEUE_LIMIT" for j using 1(2) by (simp add: sent_def demo_bus_def)
  from sent_arrives [OF _ 2(2) this] a have "arrives hs2 T1 e2" by blast
  with g [of T1 e2] 1(1) 2(1) show ?thesis unfolding demo_sig_fields(2) append_Nil by blast
qed

section \<open>Messages without a type\<close>

lemma destroyed_twice:
  assumes "event_headers M e kvs" "kvs \<noteq> []"
  shows "\<exists>M'. agc_event_destroy M (Some e) = Some (M', None) \<and> agc_event_destroy M' (Some e) = None"
proof -
  obtain cs where cs: "event_ok M e cs" "map snd cs = kvs" using assms(1) by (auto simp: event_headers_def)
  then obtain c ds where d: "cs = c # ds" using assms(2) by (cases cs) auto
  have s: "seg (em_headers M) (ev_headers e) cs NULL" "distinct (map fst cs)" using cs(1) by (simp_all add: event_ok_def)
  from destroy_loop_ok [OF s] obtain M' where
    M': "destroy_loop M (ev_headers e) = Some M'" "\<forall>x\<in>addrs cs. em_headers M' x = None" by blast
  have h: "ev_headers e = fst c" "ev_headers e \<noteq> NULL" using s(1) d by (cases c; auto)+
  have "em_headers M' (ev_headers e) = None" using M'(2) d h(1) by simp
  then have "destroy_loop M' (ev_headers e) = None" using h(2) by (subst destroy_loop.simps) simp
  then show ?thesis using M'(1) by (simp add: agc_event_destroy_def)
qed

lemma header_missing:
  assumes "event_headers (bus_mem S) e kvs" "kvs \<noteq> []" "lookup n kvs = None"
  shows "handle_event (\<lambda>G e. with_header G e n (k G e)) (S, w) e = None"
proof -
  from destroyed_twice [OF assms(1,2)] obtain M' where
    M': "agc_event_destroy (bus_mem S) (Some e) = Some (M', None)" "agc_event_destroy M' (Some e) = None" by blast
  then show ?thesis using he.get_law [OF assms(1), of n] assms(3)
    by (simp add: handle_event_def with_header_def give_back_def destroy_queued_def)
qed

text \<open>
  Both sides destroy a message that has no type, and the dispatch thread that brought it destroys it
  again: the headers are freed twice.
\<close>

lemma malformed_message_freed_twice:
  assumes "event_headers (bus_mem S) e kvs" "kvs \<noteq> []" "lookup H_TYPE kvs = None"
  shows "handle_event (media_sig_path_event_callback menv) (S, V) e = None \<and>
     handle_event (sig_media_path_event_callback env) (S, W) e = None"
  unfolding media_sig_path_event_callback_def [abs_def] sig_media_path_event_callback_def [abs_def]
  by (intro conjI header_missing [OF assms])

lemma malformed_message_witness:
  "handle_event (media_sig_path_event_callback demo_media_env) (demo_bus\<lparr>bus_mem := demo_mem\<rparr>, \<lparr>mg_ctx = demo_gateway, mg_out = []\<rparr>) demo_event = None"
proof -
  have "event_headers (bus_mem (demo_bus\<lparr>bus_mem := demo_mem\<rparr>)) demo_event [(''Name'', Some ''v''), (''_t'', Some ''7'')]"
    using demo_event_headers by simp
  from malformed_message_freed_twice [OF this] show ?thesis by (simp add: H_TYPE_def strcaseeq_def ascii_lower_def)
qed

end
