(* ===== verification/Sig_Laws.thy ===== *)
theory Sig_Laws
  imports Pdu_Sess
begin

text \<open>
  What the sessions of the signalling gateway promise, whatever the order of its operations: the tables
  stay consistent. And where they go wrong: the loss of a radio node, a session that is released while
  its timer runs, messages of other sessions.
\<close>

section \<open>The tables stay consistent\<close>

lemma set_pdu_ok:
  assumes "sig_ok W" "sg_pdus W p = Some s" "sm_sig_sess_id s' = sm_sig_sess_id s"
  shows "sig_ok (W\<lparr>sg_pdus := (sg_pdus W)(p \<mapsto> s')\<rparr>)"
proof -
  have "pdus_ok (W\<lparr>sg_pdus := (sg_pdus W)(p \<mapsto> s')\<rparr>)"
    unfolding pdus_ok_def
  proof (intro conjI allI impI)
    have ok: "pdus_ok W" using assms(1) by (simp add: sig_ok_def)
    show "sg_pdu_current (W\<lparr>sg_pdus := (sg_pdus W)(p \<mapsto> s')\<rparr>) < MAX_SIG_SESSIONS" using pdus_okD(1) [OF ok] by simp
    show "q < sg_brk (W\<lparr>sg_pdus := (sg_pdus W)(p \<mapsto> s')\<rparr>)" if "sg_pdus (W\<lparr>sg_pdus := (sg_pdus W)(p \<mapsto> s')\<rparr>) q \<noteq> None" for q
      using that pdus_okD(2) [OF ok, of q] pdus_okD(2) [OF ok, of p] assms(2) by (cases "q = p") simp_all
    fix i assume "sg_pdu_list (W\<lparr>sg_pdus := (sg_pdus W)(p \<mapsto> s')\<rparr>) i \<noteq> NULL"
    then have "0 < i \<and> i < MAX_SIG_SESSIONS \<and> (\<exists>s. sg_pdus W (sg_pdu_list W i) = Some s \<and> sm_sig_sess_id s = i)"
      by (intro pdus_okD(3) [OF ok]) simp
    then show "0 < i" "i < MAX_SIG_SESSIONS" "\<exists>u. sg_pdus (W\<lparr>sg_pdus := (sg_pdus W)(p \<mapsto> s')\<rparr>) (sg_pdu_list (W\<lparr>sg_pdus := (sg_pdus W)(p \<mapsto> s')\<rparr>) i) = Some u \<and> sm_sig_sess_id u = i"
      using assms(2,3) by auto
  qed
  then show ?thesis using assms(1) by (simp add: sig_ok_def ngaps_ok_def)
qed

lemma upd_pdu_ok:
  assumes "upd_pdu W p f = Some W'" "sig_ok W" "\<And>s. sm_sig_sess_id (f s) = sm_sig_sess_id s"
  shows "sig_ok W'"
  using assms set_pdu_ok by (auto simp: upd_pdu_def)

lemma set_ngap_ok:
  assumes "sig_ok W" "sg_ngaps W p = Some s" "ns_sessId s' = ns_sessId s"
  shows "sig_ok (W\<lparr>sg_ngaps := (sg_ngaps W)(p \<mapsto> s')\<rparr>)"
proof -
  have "ngaps_ok (W\<lparr>sg_ngaps := (sg_ngaps W)(p \<mapsto> s')\<rparr>)"
    unfolding ngaps_ok_def
  proof (intro conjI allI impI)
    have ok: "ngaps_ok W" using assms(1) by (simp add: sig_ok_def)
    show "sg_ngap_current (W\<lparr>sg_ngaps := (sg_ngaps W)(p \<mapsto> s')\<rparr>) < MAX_SIG_SESSIONS" using ngaps_okD(1) [OF ok] by simp
    show "q < sg_brk (W\<lparr>sg_ngaps := (sg_ngaps W)(p \<mapsto> s')\<rparr>)" if "sg_ngaps (W\<lparr>sg_ngaps := (sg_ngaps W)(p \<mapsto> s')\<rparr>) q \<noteq> None" for q
      using that ngaps_okD(2) [OF ok, of q] ngaps_okD(2) [OF ok, of p] assms(2) by (cases "q = p") simp_all
    fix i assume "sg_ngap_list (W\<lparr>sg_ngaps := (sg_ngaps W)(p \<mapsto> s')\<rparr>) i \<noteq> NULL"
    then have "0 < i \<and> i < MAX_SIG_SESSIONS \<and> (\<exists>s. sg_ngaps W (sg_ngap_list W i) = Some s \<and> ns_sessId s = i)"
      by (intro ngaps_okD(3) [OF ok]) simp
    then show "0 < i" "i < MAX_SIG_SESSIONS" "\<exists>u. sg_ngaps (W\<lparr>sg_ngaps := (sg_ngaps W)(p \<mapsto> s')\<rparr>) (sg_ngap_list (W\<lparr>sg_ngaps := (sg_ngaps W)(p \<mapsto> s')\<rparr>) i) = Some u \<and> ns_sessId u = i"
      using assms(2,3) by auto
  qed
  then show ?thesis using assms(1) by (simp add: sig_ok_def pdus_ok_def)
qed

lemma upd_ngap_ok:
  assumes "upd_ngap W p f = Some W'" "sig_ok W" "\<And>s. ns_sessId (f s) = ns_sessId s"
  shows "sig_ok W'"
  using assms set_ngap_ok by (auto simp: upd_ngap_def)

text \<open>A freed session leaves its slot, and no other slot has it.\<close>

lemma free_pdu_ok:
  assumes "sig_ok W" "sg_pdu_list W i = p" "p \<noteq> NULL"
  shows "sig_ok (W\<lparr>sg_pdu_list := (sg_pdu_list W)(i := NULL), sg_pdus := (sg_pdus W)(p := None)\<rparr>)"
proof -
  have ok: "pdus_ok W" using assms(1) by (simp add: sig_ok_def)
  let ?W = "W\<lparr>sg_pdu_list := (sg_pdu_list W)(i := NULL), sg_pdus := (sg_pdus W)(p := None)\<rparr>"
  have "sg_pdu_list W j = p \<Longrightarrow> j = i" for j using pdus_okD(3) [OF ok, of j] pdus_okD(3) [OF ok, of i] assms(2,3) by auto
  then have "pdus_ok ?W" using pdus_okD(1-3) [OF ok] unfolding pdus_ok_def
    by (simp add: fun_upd_def)
  then show ?thesis using assms(1) by (simp add: sig_ok_def ngaps_ok_def)
qed

lemma empty_slot_ok:
  assumes "sig_ok W" "sg_pdu_list W i = NULL"
  shows "sig_ok (W\<lparr>sg_pdu_list := (sg_pdu_list W)(i := NULL)\<rparr>)"
proof -
  have "(sg_pdu_list W)(i := NULL) = sg_pdu_list W" using assms(2) by auto
  then show ?thesis using assms(1) by simp
qed

lemma deletePduSess_ok:
  assumes "deletePduSess W i = Some W'" "sig_ok W"
  shows "sig_ok W'"
  using assms free_pdu_ok [of W i] empty_slot_ok [of W i]
  by (auto simp: deletePduSess_def Let_def ensure_def split: if_splits)

lemma free_ngap_ok:
  assumes "sig_ok W" "sg_ngaps W p = Some s"
  shows "sig_ok (W\<lparr>sg_ngap_list := (sg_ngap_list W)(ns_sessId s := NULL), sg_ngaps := (sg_ngaps W)(p := None)\<rparr>)"
proof -
  have ok: "ngaps_ok W" using assms(1) by (simp add: sig_ok_def)
  let ?W = "W\<lparr>sg_ngap_list := (sg_ngap_list W)(ns_sessId s := NULL), sg_ngaps := (sg_ngaps W)(p := None)\<rparr>"
  have "sg_ngap_list W j = p \<Longrightarrow> sg_ngap_list W j \<noteq> NULL \<Longrightarrow> j = ns_sessId s" for j
    using ngaps_okD(3) [OF ok, of j] assms(2) by auto
  then have "ngaps_ok ?W" using ngaps_okD(1-3) [OF ok] unfolding ngaps_ok_def
    by (simp add: fun_upd_def) blast
  then show ?thesis using assms(1) by (simp add: sig_ok_def pdus_ok_def)
qed

text \<open>Operations that only replace a session by one with the same identifier, or touch other parts.\<close>

lemma same_id [simp]:
  "sm_sig_sess_id (set_upf_end t s) = sm_sig_sess_id s" "sm_sig_sess_id (set_gnb_end t s) = sm_sig_sess_id s"
  "sm_sig_sess_id (set_media_ends m a b s) = sm_sig_sess_id s" "sm_sig_sess_id (set_target t s) = sm_sig_sess_id s"
  "sm_sig_sess_id (clear_target s) = sm_sig_sess_id s"
  by (simp_all add: set_upf_end_def set_gnb_end_def set_media_ends_def set_target_def clear_target_def)

lemma set_map_ok [simp]: "sig_ok (set_map W n r i) = sig_ok W"
  by (simp add: set_map_def)

lemma set_msg_ok: "set_msg W i m = Some W' \<Longrightarrow> sig_ok W \<Longrightarrow> sig_ok W'"
  by (auto simp: set_msg_def ensure_def split: if_splits)

lemma save_msg_ok: "save_msg W i info = Some (W', info') \<Longrightarrow> sig_ok W \<Longrightarrow> sig_ok W'"
  by (auto simp: save_msg_def Option.bind_eq_Some_conv dest: set_msg_ok split: if_splits)

lemma startSessTimer_ok:
  assumes "startSessTimer W p = Some W'" "sig_ok W"
  shows "sig_ok W'"
  using assms upd_pdu_ok [of W p "\<lambda>s. s\<lparr>sm_timer := True\<rparr>"]
  by (auto simp: startSessTimer_def Option.bind_eq_Some_conv split: if_splits)

lemma stopSessTimer_ok:
  assumes "stopSessTimer W p = Some W'" "sig_ok W"
  shows "sig_ok W'"
  using assms upd_pdu_ok [of W p "\<lambda>s. s\<lparr>sm_timer := False\<rparr>"]
  by (auto simp: stopSessTimer_def ensure_def Option.bind_eq_Some_conv split: if_splits)

lemma request_gw: "request env G hs = Some (G', st) \<Longrightarrow> gw G' = gw G"
  by (auto simp: request_def Let_def)

lemma send_gw:
  "sig_media_path_send_upf_setup_req env G i p4 p6 name = Some (G', st) \<Longrightarrow> gw G' = gw G"
  "sig_media_path_send_gnb_setup_req env G i m p4 p6 name = Some (G', st) \<Longrightarrow> gw G' = gw G"
  "sig_media_path_send_upf_update_req env G i m p4 p6 name = Some (G', st) \<Longrightarrow> gw G' = gw G"
  "sig_media_path_send_req env G i m ty name = Some (G', st) \<Longrightarrow> gw G' = gw G"
  by (auto simp: sig_media_path_send_upf_setup_req_def sig_media_path_send_gnb_setup_req_def sig_media_path_send_upf_update_req_def
      sig_media_path_send_req_def Option.bind_eq_Some_conv dest: request_gw)

lemma gw_put [simp]: "gw (put_gw G W) = W"
  by (simp add: put_gw_def)

lemma pdus_okI:
  assumes "sg_pdu_current W < MAX_SIG_SESSIONS" "\<And>p. sg_pdus W p \<noteq> None \<Longrightarrow> p < sg_brk W"
    and "\<And>i. sg_pdu_list W i \<noteq> NULL \<Longrightarrow> 0 < i \<and> i < MAX_SIG_SESSIONS \<and> (\<exists>s. sg_pdus W (sg_pdu_list W i) = Some s \<and> sm_sig_sess_id s = i)"
  shows "pdus_ok W"
  using assms unfolding pdus_ok_def by blast

lemma newPduSess_keeps:
  assumes "newPduSess env W info = Some (W', p)" "sig_ok W"
  shows "sig_ok W' \<and> (p \<noteq> NULL \<longrightarrow> sg_pdus W' p \<noteq> None)"
proof -
  let ?f = "find_slot MAX_SIG_SESSIONS (sg_pdu_list W) (sg_pdu_current W)"
  obtain i slot where f: "?f = (i, slot)" by (cases ?f)
  have ok: "pdus_ok W" "0 < sg_brk W" "ngaps_ok W" using assms(2) by (simp_all add: sig_ok_def)
  note r = find_slot_result [OF pdus_okD(1) [OF ok(1)], of MAX_SIG_SESSIONS "sg_pdu_list W", unfolded f, simplified]
  have "pdus_ok (W\<lparr>sg_pdu_current := i\<rparr>)"
    by (rule pdus_okI) (use r pdus_okD(2,3) [OF ok(1)] in simp_all)
  then have cur: "sig_ok (W\<lparr>sg_pdu_current := i\<rparr>)" using ok by (simp add: sig_ok_def ngaps_ok_def)
  show ?thesis
  proof (cases slot)
    case None
    then have "W' = W\<lparr>sg_pdu_current := i\<rparr>" "p = NULL" using assms(1) f by (auto simp: newPduSess_def sig_slot_eq)
    then show ?thesis using cur by simp
  next
    case (Some j)
    have j: "i = j" "0 < j" "j < MAX_SIG_SESSIONS" "sg_pdu_list W j = NULL"
      using r Some find_slot_fst [of MAX_SIG_SESSIONS "sg_pdu_list W" "sg_pdu_current W" j] f by auto
    have n: "sg_pdus W (sg_brk W) = None" using pdus_okD(2) [OF ok(1), of "sg_brk W"] by (cases "sg_pdus W (sg_brk W)") auto
    have d: "sg_pdu_list W k \<noteq> sg_brk W" for k using pdus_okD(3) [OF ok(1), of k] ok(2) n by auto
    let ?W1 = "\<lambda>s. W\<lparr>sg_pdu_current := j, sg_brk := sg_brk W + 1, sg_pdus := (sg_pdus W)(sg_brk W \<mapsto> s)\<rparr>"
    have ng: "ngaps_ok (W\<lparr>sg_pdu_current := j, sg_brk := sg_brk W + 1, sg_pdus := a, sg_pdu_list := b\<rparr>)" for a b
      using ok(3) by (auto simp: ngaps_ok_def less_Suc_eq)
    have p1: "pdus_ok (W\<lparr>sg_pdu_current := j, sg_brk := sg_brk W + 1, sg_pdus := (sg_pdus W)(sg_brk W \<mapsto> s), sg_pdu_list := T\<rparr>)"
      if "\<And>k. T k \<noteq> NULL \<Longrightarrow> k = j \<and> T k = sg_brk W \<and> sm_sig_sess_id s = j \<or> T k = sg_pdu_list W k" for s T
      unfolding pdus_ok_def
    proof (intro conjI allI impI, goal_cases)
      case 1
      show ?case using j(3) by simp
    next
      case (2 q)
      then show ?case using pdus_okD(2) [OF ok(1), of q] by (cases "q = sg_brk W") simp_all
    next
      case (3 k)
      from that [of k] 3 pdus_okD(3) [OF ok(1), of k] j(2) show ?case by auto
    next
      case (4 k)
      from that [of k] 4 pdus_okD(3) [OF ok(1), of k] j(3) show ?case by auto
    next
      case (5 k)
      from that [of k] 5 pdus_okD(3) [OF ok(1), of k] d [of k] show ?case by auto
    qed
    have 1: "sig_ok (?W1 s)" for s
      using p1 [of "sg_pdu_list W" s] ng [of "sg_pdu_list W" "(sg_pdus W)(sg_brk W \<mapsto> s)"] by (simp add: sig_ok_def)
    have 2: "sig_ok (W\<lparr>sg_pdu_current := j, sg_brk := sg_brk W + 1, sg_pdus := (sg_pdus W)(sg_brk W \<mapsto> s),
        sg_pdu_list := (sg_pdu_list W)(j := sg_brk W)\<rparr>)" if "sm_sig_sess_id s = j" for s
      using p1 [of "(sg_pdu_list W)(j := sg_brk W)" s] that ng [of "(sg_pdu_list W)(j := sg_brk W)" "(sg_pdus W)(sg_brk W \<mapsto> s)"]
      by (simp add: sig_ok_def)
    obtain name where name: "selectMediaGW (sg_medias W) (nm_idSigGW info) = Some name"
      using assms(1) f Some by (auto simp: newPduSess_def sig_slot_eq Let_def Option.bind_eq_Some_conv)
    show ?thesis
    proof (cases name)
      case None
      then show ?thesis using assms(1) f Some name 1 [of "se_sess env"] j(1) by (simp add: newPduSess_def sig_slot_eq Let_def)
    next
      case (Some nm)
      then show ?thesis using assms(1) f \<open>slot = Some j\<close> name 2 [of "new_pdu (se_sess env) nm j"] j(1)
        by (auto simp: newPduSess_def sig_slot_eq Let_def new_pdu_def)
    qed
  qed
qed

text \<open>The requests.\<close>

lemma processSessSetupReq_ok:
  assumes "processSessSetupReq env G info r t = Some (G', info', b)" "sig_ok (gw G)"
  shows "sig_ok (gw G')"
proof -
  obtain W p where 1: "newPduSess env (gw G) info = Some (W, p)"
    using assms(1) by (auto simp: processSessSetupReq_def Option.bind_eq_Some_conv)
  note ok = newPduSess_keeps [OF 1 assms(2)]
  show ?thesis
  proof (cases "p = NULL")
    case True
    then show ?thesis using assms(1) 1 ok by (auto simp: processSessSetupReq_def)
  next
    case False
    let ?u = "\<lambda>info1 s. set_upf_end t (s\<lparr>sm_ngap_sess_id := nm_sessId info1, sm_pdu_resource_id := r\<rparr>)"
    obtain s where s: "sg_pdus W p = Some s"
      using assms(1) 1 False by (auto simp: processSessSetupReq_def Let_def Option.bind_eq_Some_conv)
    obtain W1 info1 where 2: "save_msg (newSessMap W (nm_sessId info) r (sm_sig_sess_id s)) (nm_sessId info) info = Some (W1, info1)"
      using assms(1) 1 False s by (auto simp: processSessSetupReq_def Let_def Option.bind_eq_Some_conv)
    obtain W2 where 3: "upd_pdu W1 p (?u info1) = Some W2"
      using assms(1) 1 False s 2 by (auto simp: processSessSetupReq_def Let_def Option.bind_eq_Some_conv)
    obtain s2 where s2: "sg_pdus W2 p = Some s2"
      using assms(1) 1 False s 2 3 by (auto simp: processSessSetupReq_def Let_def Option.bind_eq_Some_conv)
    obtain G1 st where 4: "sig_media_path_send_upf_setup_req env (put_gw G W2) (sm_sig_sess_id s2) (sm_upf s2) (sm_upfv6 s2) (sm_MediaGWName s2) = Some (G1, st)"
      using assms(1) 1 False s 2 3 s2 by (auto simp: processSessSetupReq_def Let_def Option.bind_eq_Some_conv)
    obtain W3 where 5: "startSessTimer (gw G1) p = Some W3" "G' = put_gw G1 W3"
      using assms(1) 1 False s 2 3 s2 4 by (auto simp: processSessSetupReq_def Let_def Option.bind_eq_Some_conv)
    have "sig_ok W1" by (rule save_msg_ok [OF 2]) (use ok in \<open>simp add: newSessMap_def\<close>)
    then have "sig_ok W2" by (intro upd_pdu_ok [OF 3]) simp_all
    then have "sig_ok (gw G1)" using send_gw(1) [OF 4] by simp
    then show ?thesis using startSessTimer_ok [OF 5(1)] 5(2) by simp
  qed
qed

lemma upd_ends_ok:
  "upd_pdu W p (set_gnb_end t) = Some W' \<Longrightarrow> sig_ok W \<Longrightarrow> sig_ok W'"
  "upd_pdu W p (set_upf_end t) = Some W' \<Longrightarrow> sig_ok W \<Longrightarrow> sig_ok W'"
  by (erule (1) upd_pdu_ok, simp)+

lemma processSessSetupRsp_ok:
  assumes "processSessSetupRsp env G info r t = Some (G', info', b)" "sig_ok (gw G)"
  shows "sig_ok (gw G')"
  using assms
  by (auto simp: processSessSetupRsp_def Option.bind_eq_Some_conv split: if_splits
      dest!: send_gw intro: save_msg_ok upd_ends_ok)
    (meson save_msg_ok upd_ends_ok startSessTimer_ok)+

lemma processSessUpdateUpf_ok:
  assumes "processSessUpdateUpf env G info r t = Some (G', info', b)" "sig_ok (gw G)"
  shows "sig_ok (gw G')"
  using assms
  by (auto simp: processSessUpdateUpf_def Option.bind_eq_Some_conv split: if_splits
      dest!: send_gw intro: save_msg_ok upd_ends_ok)
    (meson save_msg_ok upd_ends_ok startSessTimer_ok)+

lemma Process_ok:
  assumes "Process env G info r t = Some (G', info', b)" "sig_ok (gw G)"
  shows "sig_ok (gw G')"
  using assms
  by (auto simp: Process_def Option.bind_eq_Some_conv split: pdu_choice.splits proc_code.splits if_splits
      dest: processSessSetupReq_ok processSessSetupRsp_ok processSessUpdateUpf_ok)

lemma processSessSetupfail_ok:
  assumes "processSessSetupfail env G info r = Some (G', b)" "sig_ok (gw G)"
  shows "sig_ok (gw G')"
  using assms
  by (auto simp: processSessSetupfail_def Option.bind_eq_Some_conv split: if_splits dest!: send_gw deletePduSess_ok)

lemma ReleasePduSess_ok:
  assumes "ReleasePduSess env G n r = Some (G', b)" "sig_ok (gw G)"
  shows "sig_ok (gw G')"
  using assms
  by (auto simp: ReleasePduSess_def deleteSessMap_def Option.bind_eq_Some_conv split: if_splits dest!: send_gw deletePduSess_ok)

lemma finishHo_ok:
  assumes "finishHo env G n r = Some (G', b)" "sig_ok (gw G)"
  shows "sig_ok (gw G')"
proof (cases "convertNgapSess2PduSess (gw G) n r")
  case None
  then show ?thesis using assms by (simp add: finishHo_def)
next
  case (Some i)
  obtain p where p: "getPduSess (gw G) i = Some p" using assms(1) Some by (auto simp: finishHo_def Option.bind_eq_Some_conv)
  show ?thesis
  proof (cases "p = NULL")
    case False
    then obtain W1 where 1: "upd_pdu (gw G) p (\<lambda>s. set_gnb_end (target_of s) s) = Some W1"
      using assms(1) Some p by (auto simp: finishHo_def Option.bind_eq_Some_conv)
    obtain s where s: "sg_pdus W1 p = Some s"
      using assms(1) Some p False 1 by (auto simp: finishHo_def Option.bind_eq_Some_conv)
    obtain G1 st where 2: "sig_media_path_send_gnb_setup_req env (put_gw G W1) (sm_sig_sess_id s) (sm_media_sess_id s) (sm_gnb s) (sm_gnbv6 s) (sm_MediaGWName s) = Some (G1, st)"
      using assms(1) Some p False 1 s by (auto simp: finishHo_def Option.bind_eq_Some_conv)
    obtain W2 where 3: "upd_pdu (gw G1) p clear_target = Some W2" "G' = put_gw G1 (W2\<lparr>sg_drb := (sg_drb W2)(i := None)\<rparr>)"
      using assms(1) Some p False 1 s 2 by (auto simp: finishHo_def Option.bind_eq_Some_conv)
    have "sig_ok W1" by (rule upd_pdu_ok [OF 1 assms(2)]) simp
    then have "sig_ok (gw G1)" using send_gw(2) [OF 2] by simp
    then have "sig_ok W2" by (rule upd_pdu_ok [OF 3(1)]) simp
    then show ?thesis using 3(2) by simp
  qed (use assms Some p in \<open>simp add: finishHo_def\<close>)
qed

lemma handover_ok:
  "prepareHoTargetGnbAddr W n r t = Some (W', b) \<Longrightarrow> sig_ok W \<Longrightarrow> sig_ok W'"
  "resetHoTargetGnbAddr W n r = Some (W', b) \<Longrightarrow> sig_ok W \<Longrightarrow> sig_ok W'"
  "UpdatePduSessResource W n r x = Some (W', b) \<Longrightarrow> sig_ok W \<Longrightarrow> sig_ok W'"
  "prepareHoDrb W n r drb = (W', b) \<Longrightarrow> sig_ok W \<Longrightarrow> sig_ok W'"
  by (auto simp: prepareHoTargetGnbAddr_def resetHoTargetGnbAddr_def UpdatePduSessResource_def prepareHoDrb_def Option.bind_eq_Some_conv
      split: if_splits option.splits dest: upd_pdu_ok)

text \<open>The responses and the timers.\<close>

lemma count_rsp_ok: "count_rsp W n = Some W' \<Longrightarrow> sig_ok W \<Longrightarrow> sig_ok W'"
  unfolding count_rsp_def by (erule (1) upd_ngap_ok) simp

lemma log_call_ok [simp]: "sig_ok (log_call W cs) = sig_ok W"
  by (simp add: log_call_def)

lemma take_msg_ok: "take_msg W n = Some (W', m) \<Longrightarrow> sig_ok W \<Longrightarrow> sig_ok W'"
  by (auto simp: take_msg_def Option.bind_eq_Some_conv split: if_splits option.splits dest: set_msg_ok)

lemma upd_media_ends_ok: "upd_pdu W p (set_media_ends m a b) = Some W' \<Longrightarrow> sig_ok W \<Longrightarrow> sig_ok W'"
  by (erule (1) upd_pdu_ok) simp

lemma upd_timer_ok: "upd_pdu W p (\<lambda>s. s\<lparr>sm_timer := b\<rparr>) = Some W' \<Longrightarrow> sig_ok W \<Longrightarrow> sig_ok W'"
  by (erule (1) upd_pdu_ok) simp

lemma stopSessTimer_log:
  "stopSessTimer (case m of None \<Rightarrow> W | Some info \<Rightarrow> log_call W (f info)) p = Some W' \<Longrightarrow> sig_ok W \<Longrightarrow> sig_ok W'"
  by (erule stopSessTimer_ok) (simp split: option.split)

lemma handleUpfSetupRsp_ok: "handleUpfSetupRsp W i m a b = Some W' \<Longrightarrow> sig_ok W \<Longrightarrow> sig_ok W'"
  by (auto simp: handleUpfSetupRsp_def Let_def Option.bind_eq_Some_conv split: if_splits option.splits)
    (meson count_rsp_ok take_msg_ok upd_media_ends_ok stopSessTimer_ok log_call_ok)+

lemma handleGnbSetupRsp_ok: "handleGnbSetupRsp W i = Some W' \<Longrightarrow> sig_ok W \<Longrightarrow> sig_ok W'"
  by (auto simp: handleGnbSetupRsp_def Let_def Option.bind_eq_Some_conv split: if_splits option.splits)
    (meson count_rsp_ok take_msg_ok stopSessTimer_ok log_call_ok)+

lemma handleUpfUpdateRsp_ok: "handleUpfUpdateRsp W i = Some W' \<Longrightarrow> sig_ok W \<Longrightarrow> sig_ok W'"
  by (auto simp: handleUpfUpdateRsp_def Option.bind_eq_Some_conv split: if_splits)
    (meson set_msg_ok stopSessTimer_ok)+

lemma handleSessTimeout_ok:
  assumes "handleSessTimeout W i = Some W'" "sig_ok W"
  shows "sig_ok W'"
proof -
  obtain p where p: "getPduSess W i = Some p" using assms(1) by (auto simp: handleSessTimeout_def Option.bind_eq_Some_conv)
  show ?thesis
  proof (cases "p = NULL")
    case False
    then obtain s where s: "sg_pdus W p = Some s" using assms(1) p by (auto simp: handleSessTimeout_def Option.bind_eq_Some_conv)
    show ?thesis
    proof (cases "GetNgapSession W (sm_ngap_sess_id s)")
      case None
      then show ?thesis using assms p s False by (simp add: handleSessTimeout_def)
    next
      case (Some n)
      obtain W1 where 1: "count_rsp W n = Some W1"
        using assms(1) p s False Some by (auto simp: handleSessTimeout_def Option.bind_eq_Some_conv)
      then have "sig_ok W1" using count_rsp_ok assms(2) by blast
      obtain ns where ns: "sg_ngaps W1 n = Some ns"
        using assms(1) p s False Some 1 by (auto simp: handleSessTimeout_def Option.bind_eq_Some_conv)
      let ?m = "if ns_pdu_sess_rsp_count ns \<le> ns_pdu_resource_count ns then get_msg W1 i else Some None"
      obtain m where m: "?m = Some m"
        using assms(1) p s False Some 1 ns by (cases ?m) (simp_all add: handleSessTimeout_def)
      obtain W2 where 2: "(if m = None then Some W1 else set_msg W1 i None) = Some W2"
        using assms(1) p s False Some 1 ns m by (cases "if m = None then Some W1 else set_msg W1 i None") (simp_all add: handleSessTimeout_def)
      have r: "\<exists>W3. upd_pdu W2 p (\<lambda>s. s\<lparr>sm_timer := False\<rparr>) = Some W3 \<and>
          W' = (case m of None \<Rightarrow> W3 | Some info \<Rightarrow> log_call W3 (timeout_calls info))"
        using assms(1) p s False Some 1 ns m 2 by (cases "upd_pdu W2 p (\<lambda>s. s\<lparr>sm_timer := False\<rparr>)") (simp_all add: handleSessTimeout_def)
      have "sig_ok W2" using 2 \<open>sig_ok W1\<close> set_msg_ok [of W1 i None W2] by (simp split: if_splits)
      then show ?thesis using r upd_timer_ok by (auto split: option.splits)
    qed
  qed (use assms p in \<open>simp add: handleSessTimeout_def\<close>)
qed

lemma onSessTimer_ok: "onSessTimer W p = Some W' \<Longrightarrow> sig_ok W \<Longrightarrow> sig_ok W'"
  by (auto simp: onSessTimer_def Option.bind_eq_Some_conv split: if_splits dest: handleSessTimeout_ok)

lemma upd_release_ok: "upd_ngap W p (\<lambda>s. s\<lparr>ns_release_timer_started := b\<rparr>) = Some W' \<Longrightarrow> sig_ok W \<Longrightarrow> sig_ok W'"
  by (erule (1) upd_ngap_ok) simp

lemma RemoveNgapSess_ok: "RemoveNgapSess W i = Some W' \<Longrightarrow> sig_ok W \<Longrightarrow> sig_ok W'"
  by (auto simp: RemoveNgapSess_def startSessReleaseTimer_def Let_def ensure_def Option.bind_eq_Some_conv split: if_splits
      dest: upd_release_ok)

lemma stopNgapSessTimer_ok: "stopNgapSessTimer W i = Some W' \<Longrightarrow> sig_ok W \<Longrightarrow> sig_ok W'"
  by (auto simp: stopNgapSessTimer_def Let_def ensure_def Option.bind_eq_Some_conv split: if_splits)

lemma handleNgapSessTimeout_ok: "handleNgapSessTimeout W p = Some W' \<Longrightarrow> sig_ok W \<Longrightarrow> sig_ok W'"
  by (auto simp: handleNgapSessTimeout_def Option.bind_eq_Some_conv split: if_splits dest: RemoveNgapSess_ok stopNgapSessTimer_ok)

lemma onSessReleaseTimer_ok:
  assumes "onSessReleaseTimer W p = Some W'" "sig_ok W"
  shows "sig_ok W'"
proof (cases "p = NULL")
  case False
  then obtain s where s: "sg_ngaps W p = Some s" using assms(1) by (auto simp: onSessReleaseTimer_def Option.bind_eq_Some_conv)
  show ?thesis
  proof (cases "ns_sessId s < MAX_SIG_SESSIONS")
    case True
    then show ?thesis using assms(1) False s free_ngap_ok [OF assms(2) s] by (simp add: onSessReleaseTimer_def SafeRemoveNgapSess_def Let_def)
  next
    case f: False
    have ok: "ngaps_ok W" using assms(2) by (simp add: sig_ok_def)
    then have "sg_ngap_list W (ns_sessId s) = NULL" using ngaps_okD(3) [OF ok, of "ns_sessId s"] f by auto
    then have "(sg_ngap_list W)(ns_sessId s := NULL) = sg_ngap_list W" by auto
    then show ?thesis using assms(1) False s f free_ngap_ok [OF assms(2) s] by (simp add: onSessReleaseTimer_def SafeRemoveNgapSess_def Let_def)
  qed
qed (use assms in \<open>simp add: onSessReleaseTimer_def\<close>)

lemma run_timer_ok: "run_timer k W = Some W' \<Longrightarrow> sig_ok W \<Longrightarrow> sig_ok W'"
  by (auto simp: run_timer_def Let_def split: if_splits sig_timer.splits
      dest: onSessTimer_ok handleNgapSessTimeout_ok onSessReleaseTimer_ok)

text \<open>The messages.\<close>

lemma with_header_keeps:
  assumes "with_header G e n k = Some G'" "sig_ok (gw G)" "\<And>v G'. k v = Some G' \<Longrightarrow> sig_ok (gw G')"
  shows "sig_ok (gw G')"
proof -
  obtain v where v: "agc_event_get_header (bus_mem (fst G)) e (Some n) = Some v"
    using assms(1) by (auto simp: with_header_def Option.bind_eq_Some_conv)
  show ?thesis
  proof (cases v)
    case None
    then show ?thesis using assms(1,2) v by (auto simp: with_header_def)
  next
    case (Some t)
    then have "k t = Some G'" using assms(1) v by (simp add: with_header_def)
    then show ?thesis by (rule assms(3))
  qed
qed

lemma upf_setup_rsp_ok: "sig_media_handle_upf_setup_rsp env G e = Some G' \<Longrightarrow> sig_ok (gw G) \<Longrightarrow> sig_ok (gw G')"
  unfolding sig_media_handle_upf_setup_rsp_def
  by (elim with_header_keeps) (auto split: if_splits elim!: with_header_keeps simp: put_gw_def Option.bind_eq_Some_conv dest: handleUpfSetupRsp_ok)

lemma answer_ok:
  assumes "with_answer G e h = Some G'" "sig_ok (gw G)" "\<And>W i W'. h W i = Some W' \<Longrightarrow> sig_ok W \<Longrightarrow> sig_ok W'"
  shows "sig_ok (gw G')"
  using assms(1,2) unfolding with_answer_def
  by (elim with_header_keeps) (auto split: if_splits elim!: with_header_keeps simp: put_gw_def dest: assms(3))

lemma callback_ok:
  assumes "sig_media_path_event_callback env G e = Some G'" "sig_ok (gw G)"
  shows "sig_ok (gw G')"
proof -
  have c: "sig_ok (gw G')" if "sig_media_handle_check_sess_rsp G e = Some G'" for G'
    using that assms(2) unfolding sig_media_handle_check_sess_rsp_def
    by (elim with_header_keeps) (auto elim!: with_header_keeps simp: put_gw_def dest: handleGnbSetupRsp_ok)
  have r: "sig_ok (gw G')" if "sig_media_handle_sess_release_ind G e = Some G'" for G'
    using that assms(2) unfolding sig_media_handle_sess_release_ind_def
    by (elim with_header_keeps) (auto elim!: with_header_keeps simp: put_gw_def handleSessReleaseInd_def)
  have "sig_ok (gw G')" if "(case num_type (atoui t) of
         Some MSET_UPF_SETUP_RSP \<Rightarrow> sig_media_handle_upf_setup_rsp env G e
       | Some MSET_GNB_SETUP_RSP \<Rightarrow> sig_media_handle_gnb_setup_rsp G e
       | Some MSET_SESS_CHECK_RSP \<Rightarrow> sig_media_handle_check_sess_rsp G e
       | Some MSET_SESS_RELEASE_IND \<Rightarrow> sig_media_handle_sess_release_ind G e
       | Some MSET_UPF_UPDATE_RSP \<Rightarrow> sig_media_handle_upf_update_rsp G e
       | _ \<Rightarrow> Some G) = Some G'" for t G'
    using that assms(2) c r upf_setup_rsp_ok answer_ok [of G e handleGnbSetupRsp] answer_ok [of G e handleUpfUpdateRsp]
      handleGnbSetupRsp_ok handleUpfUpdateRsp_ok
    by (auto simp: sig_media_handle_gnb_setup_rsp_def sig_media_handle_upf_update_rsp_def split: option.splits msg_type.splits)
  then show ?thesis using assms unfolding sig_media_path_event_callback_def by (elim with_header_keeps)
qed

text \<open>New NGAP sessions.\<close>

lemma next_stream_ok [simp]: "sig_ok (next_stream W info) = sig_ok W"
  by (simp add: next_stream_def Let_def)

lemma ngaps_okI:
  assumes "sg_ngap_current W < MAX_SIG_SESSIONS" "\<And>p. sg_ngaps W p \<noteq> None \<Longrightarrow> p < sg_brk W"
    and "\<And>i. sg_ngap_list W i \<noteq> NULL \<Longrightarrow> 0 < i \<and> i < MAX_SIG_SESSIONS \<and> (\<exists>s. sg_ngaps W (sg_ngap_list W i) = Some s \<and> ns_sessId s = i)"
  shows "ngaps_ok W"
  using assms unfolding ngaps_ok_def by blast

lemma bigger_brk_ok:
  assumes "sig_ok W"
  shows "sig_ok (W\<lparr>sg_brk := sg_brk W + 1\<rparr>)"
proof -
  have ok: "pdus_ok W" "ngaps_ok W" using assms by (simp_all add: sig_ok_def)
  have "p < sg_brk W + 1" if "sg_pdus W p \<noteq> None" for p using pdus_okD(2) [OF ok(1) that] by simp
  then have "pdus_ok (W\<lparr>sg_brk := sg_brk W + 1\<rparr>)" using pdus_okD(1,3) [OF ok(1)] by (intro pdus_okI) simp_all
  moreover have "p < sg_brk W + 1" if "sg_ngaps W p \<noteq> None" for p using ngaps_okD(2) [OF ok(2) that] by simp
  then have "ngaps_ok (W\<lparr>sg_brk := sg_brk W + 1\<rparr>)" using ngaps_okD(1,3) [OF ok(2)] by (intro ngaps_okI) simp_all
  ultimately show ?thesis by (simp add: sig_ok_def)
qed

lemma startNgapSessTimer_ok: "startNgapSessTimer W i = Some W' \<Longrightarrow> sig_ok W \<Longrightarrow> sig_ok W'"
  using bigger_brk_ok [of W] by (auto simp: startNgapSessTimer_def Let_def ensure_def split: if_splits)

text \<open>A new session in a free slot.\<close>

lemma AddNgapSess_ok:
  assumes "sig_ok W" "0 < i" "i < MAX_SIG_SESSIONS" "ns_sessId s = i"
    and "AddNgapSess (W\<lparr>sg_brk := sg_brk W + 1, sg_ngaps := (sg_ngaps W)(sg_brk W \<mapsto> s)\<rparr>) (sg_brk W) = Some W'"
  shows "sig_ok W'"
proof -
  have ok: "pdus_ok W" "0 < sg_brk W" "ngaps_ok W" using assms(1) by (simp_all add: sig_ok_def)
  have W': "W' = W\<lparr>sg_brk := sg_brk W + 1, sg_ngaps := (sg_ngaps W)(sg_brk W \<mapsto> s), sg_ngap_list := (sg_ngap_list W)(i := sg_brk W)\<rparr>"
    using assms(3-5) by (simp add: AddNgapSess_def)
  have n: "sg_ngaps W (sg_brk W) = None" using ngaps_okD(2) [OF ok(3), of "sg_brk W"] by (cases "sg_ngaps W (sg_brk W)") auto
  have d: "sg_ngap_list W k \<noteq> sg_brk W" for k using ngaps_okD(3) [OF ok(3), of k] ok(2) n by auto
  have "ngaps_ok W'"
    unfolding ngaps_ok_def
  proof (intro conjI allI impI, goal_cases)
    case 1
    show ?case using ngaps_okD(1) [OF ok(3)] W' by simp
  next
    case (2 q)
    then show ?case using ngaps_okD(2) [OF ok(3), of q] W' by (cases "q = sg_brk W") simp_all
  next
    case (3 k)
    then show ?case using ngaps_okD(3) [OF ok(3), of k] assms(2) W' by (cases "k = i") auto
  next
    case (4 k)
    then show ?case using ngaps_okD(3) [OF ok(3), of k] assms(3) W' by (cases "k = i") auto
  next
    case (5 k)
    then show ?case using ngaps_okD(3) [OF ok(3), of k] d [of k] assms(4) W' by (cases "k = i") auto
  qed
  moreover have "pdus_ok W'"
  proof -
    have "sg_pdus W q \<noteq> None \<Longrightarrow> q < sg_brk W + 1" for q using pdus_okD(2) [OF ok(1), of q] by linarith
    then show ?thesis using pdus_okD(1,3) [OF ok(1)] W' by (intro pdus_okI) simp_all
  qed
  ultimately show ?thesis using W' by (simp add: sig_ok_def)
qed

lemma slot_found:
  assumes "sig_ok W" "sig_slot MAX_SIG_SESSIONS (sg_ngap_list W) (sg_ngap_current W) = (i, slot)"
  shows "sig_ok (W\<lparr>sg_ngap_current := i\<rparr>)" "slot = Some j \<Longrightarrow> 0 < j \<and> j < MAX_SIG_SESSIONS"
proof -
  have ok: "pdus_ok W" "0 < sg_brk W" "ngaps_ok W" using assms(1) by (simp_all add: sig_ok_def)
  note r = find_slot_result [OF ngaps_okD(1) [OF ok(3)], of MAX_SIG_SESSIONS "sg_ngap_list W"]
  have "i < MAX_SIG_SESSIONS" using r assms(2) by (simp add: sig_slot_eq)
  then have "ngaps_ok (W\<lparr>sg_ngap_current := i\<rparr>)" using ngaps_okD(2,3) [OF ok(3)] unfolding ngaps_ok_def by simp
  then show "sig_ok (W\<lparr>sg_ngap_current := i\<rparr>)" using ok by (simp add: sig_ok_def pdus_ok_def)
  show "0 < j \<and> j < MAX_SIG_SESSIONS" if "slot = Some j" using r assms(2) that by (simp add: sig_slot_eq)
qed

lemma NewNgapSession_ok:
  assumes "NewNgapSession W info = Some (W', q)" "sig_ok W"
  shows "sig_ok W'"
proof -
  obtain i slot where f: "sig_slot MAX_SIG_SESSIONS (sg_ngap_list W) (sg_ngap_current W) = (i, slot)" by fastforce
  note fs = slot_found [OF assms(2) f]
  show ?thesis
  proof (cases slot)
    case None
    then show ?thesis using assms(1) f fs(1) by (auto simp: NewNgapSession_def)
  next
    case (Some j)
    let ?V = "next_stream (W\<lparr>sg_ngap_current := i\<rparr>) info"
    let ?s = "new_NgapSession\<lparr>ns_gnbUeId := nm_gnbUeId info, ns_amfUeId := INVALIDE_ID_X64, ns_gnb_sctp_index := nm_sockSource info,
      ns_sessId := j, ns_stream_no := sg_ngap_stream W, ns_gnbId := nm_ranNodeId info, ns_amfId := nm_amfId info\<rparr>"
    have V: "sg_brk ?V = sg_brk W" "sg_ngaps ?V = sg_ngaps W" by (simp_all add: next_stream_def Let_def)
    obtain W1 where 1: "AddNgapSess (?V\<lparr>sg_brk := sg_brk ?V + 1, sg_ngaps := (sg_ngaps ?V)(sg_brk ?V \<mapsto> ?s)\<rparr>) (sg_brk ?V) = Some W1"
      and 2: "startNgapSessTimer W1 j = Some W'"
      using assms(1) f Some by (auto simp: NewNgapSession_def Let_def Option.bind_eq_Some_conv V)
    have "sig_ok W1" by (rule AddNgapSess_ok [OF _ _ _ _ 1, of j]) (use fs Some in simp_all)
    then show ?thesis by (rule startNgapSessTimer_ok [OF 2])
  qed
qed

lemma NewNgapSessionFromAmf_ok:
  assumes "NewNgapSessionFromAmf esm W info g = Some (W', q)" "sig_ok W"
  shows "sig_ok W'"
proof -
  obtain i slot where f: "sig_slot MAX_SIG_SESSIONS (sg_ngap_list W) (sg_ngap_current W) = (i, slot)" by fastforce
  note fs = slot_found [OF assms(2) f]
  let ?node = "RanNodeId (rn_plmn (ns_gnbId new_NgapSession)) RNT_GNB_ID RNET_NULL (of_nat g)"
  show ?thesis
  proof (cases "slot = None \<or> esm ?node = None")
    case True
    then show ?thesis using assms(1) f fs(1) by (auto simp: NewNgapSessionFromAmf_def Let_def split: option.splits)
  next
    case False
    then obtain j sctp where j: "slot = Some j" "esm ?node = Some sctp" by auto
    let ?V = "next_stream (W\<lparr>sg_ngap_current := i\<rparr>) info"
    let ?s = "new_NgapSession\<lparr>ns_gnbUeId := INVALIDE_ID, ns_gnbId := ?node, ns_gnb_sctp_index := sctp,
      ns_amfId := nm_amfId info, ns_sessId := j, ns_stream_no := sg_ngap_stream W\<rparr>"
    have V: "sg_brk ?V = sg_brk W" "sg_ngaps ?V = sg_ngaps W" by (simp_all add: next_stream_def Let_def)
    have 1: "AddNgapSess (?V\<lparr>sg_brk := sg_brk ?V + 1, sg_ngaps := (sg_ngaps ?V)(sg_brk ?V \<mapsto> ?s)\<rparr>) (sg_brk ?V) = Some W'"
      using assms(1) f j by (auto simp: NewNgapSessionFromAmf_def Let_def Option.bind_eq_Some_conv V)
    show ?thesis by (rule AddNgapSess_ok [OF _ _ _ _ 1, of j]) (use fs j in simp_all)
  qed
qed

text \<open>The loss of an AMF.\<close>

lemma release_all_ok: "release_all env G n rs = Some G' \<Longrightarrow> sig_ok (gw G) \<Longrightarrow> sig_ok (gw G')"
proof (induction rs arbitrary: G)
  case (Cons r rs)
  show ?case
  proof (cases "r = INVALID_PDU_SESSION_ID")
    case True
    then show ?thesis using Cons by simp
  next
    case False
    then obtain G1 b where "ReleasePduSess env G n r = Some (G1, b)" "release_all env G1 n rs = Some G'"
      using Cons.prems(1) by (auto simp: Option.bind_eq_Some_conv)
    then show ?thesis using Cons.IH [of G1] ReleasePduSess_ok [of env G n r G1 b] Cons.prems(2) by simp
  qed
qed simp

lemma amf_sessions_ok: "amf_sessions env G a is = Some G' \<Longrightarrow> sig_ok (gw G) \<Longrightarrow> sig_ok (gw G')"
proof (induction "is" arbitrary: G)
  case (Cons i "is")
  show ?case
  proof (cases "sg_ngap_list (gw G) i = NULL")
    case True
    then show ?thesis using Cons by (simp add: Let_def)
  next
    case False
    then obtain s where s: "sg_ngaps (gw G) (sg_ngap_list (gw G) i) = Some s"
      using Cons.prems(1) by (auto simp: Let_def Option.bind_eq_Some_conv)
    show ?thesis
    proof (cases "ns_amfId s = a")
      case True
      then obtain G1 W1 where 1: "release_all env G (ns_sessId s) (ns_vecPduSessionID s) = Some G1" "RemoveNgapSess (gw G1) i = Some W1"
        "amf_sessions env (put_gw G1 W1) a is = Some G'"
        using Cons.prems(1) False s by (auto simp: Let_def Option.bind_eq_Some_conv)
      have "sig_ok W1" using release_all_ok [OF 1(1) Cons.prems(2)] RemoveNgapSess_ok [OF 1(2)] by blast
      then show ?thesis using Cons.IH [OF 1(3)] by simp
    next
      case f: False
      then show ?thesis using Cons False s by (simp add: Let_def)
    qed
  qed
qed simp

section \<open>The loss of a radio node\<close>

text \<open>The inner loop never ends, whatever the session holds.\<close>

lemma gnb_inner_stuck:
  assumes "j < MAX_PDU_SESSION_SIZE"
  shows "gnb_inner env G p i j = None"
proof -
  have "\<not> j < MAX_PDU_SESSION_SIZE" if "gnb_inner env G p i j = Some y" for y
  proof (rule gnb_inner.raw_induct [OF _ that])
    fix f env G p i j y
    assume ih: "\<And>env G p i j y. f env G p i j = Some y \<Longrightarrow> \<not> j < MAX_PDU_SESSION_SIZE"
      and step: "(if MAX_PDU_SESSION_SIZE \<le> j then Some (G, i)
      else do {
        s \<leftarrow> sg_ngaps (gw G) p;
        r \<leftarrow> (if j < length (ns_vecPduSessionID s) then Some (ns_vecPduSessionID s ! j) else None);
        if r = INVALID_PDU_SESSION_ID then f env G p (i + 1) j
        else do { (G, _) \<leftarrow> ReleasePduSess env G (ns_sessId s) r; f env G p (i + 1) j } }) = Some y"
    show "\<not> j < MAX_PDU_SESSION_SIZE"
    proof
      assume j: "j < MAX_PDU_SESSION_SIZE"
      obtain H where "f env H p (i + 1) j = Some y"
        using step j by (cases G) (auto simp: Option.bind_eq_Some_conv split: if_splits)
      from ih [OF this] j show False by simp
    qed
  qed
  then show ?thesis using assms by (cases "gnb_inner env G p i j") blast+
qed

lemma gnb_sessions_result:
  assumes "sig_ok (gw G)"
  shows "gnb_sessions env sel G i =
    (if \<exists>j\<ge>i. \<exists>s. sg_ngap_list (gw G) j \<noteq> NULL \<and> sg_ngaps (gw G) (sg_ngap_list (gw G) j) = Some s \<and> sel s then None else Some G)"
proof (induction "MAX_SIG_SESSIONS - i" arbitrary: i)
  case 0
  have e: "sg_ngap_list (gw G) j = NULL" if "j \<ge> i" for j
  proof (rule ccontr)
    assume n: "sg_ngap_list (gw G) j \<noteq> NULL"
    have "ngaps_ok (gw G)" using assms by (simp add: sig_ok_def)
    from ngaps_okD(3) [OF this n] have "j < MAX_SIG_SESSIONS" by blast
    then show False using that 0 by simp
  qed
  have "\<not> (\<exists>j\<ge>i. \<exists>s. sg_ngap_list (gw G) j \<noteq> NULL \<and> sg_ngaps (gw G) (sg_ngap_list (gw G) j) = Some s \<and> sel s)"
  proof (intro notI, elim exE conjE)
    fix j s assume "i \<le> j" "sg_ngap_list (gw G) j \<noteq> NULL"
    then show False using e [of j] by simp
  qed
  moreover have "MAX_SIG_SESSIONS \<le> i" using 0 by simp
  then have "gnb_sessions env sel G i = Some G" by (subst gnb_sessions.simps) (simp only: if_True)
  ultimately show ?case by (simp only: if_False)
next
  case (Suc m)
  have i: "\<not> MAX_SIG_SESSIONS \<le> i" and m: "m = MAX_SIG_SESSIONS - (i + 1)" using Suc(2) by linarith+
  note IH = Suc(1) [OF m]
  let ?p = "sg_ngap_list (gw G) i"
  have split: "(\<exists>j\<ge>i. P j) \<longleftrightarrow> P i \<or> (\<exists>j\<ge>i + 1. P j)" for P :: "nat \<Rightarrow> bool"
  proof
    assume "\<exists>j\<ge>i. P j"
    then obtain j where j: "i \<le> j" "P j" by blast
    then show "P i \<or> (\<exists>j\<ge>i + 1. P j)" by (cases "j = i") auto
  next
    assume "P i \<or> (\<exists>j\<ge>i + 1. P j)"
    then show "\<exists>j\<ge>i. P j"
    proof (elim disjE exE conjE)
      fix j assume "i + 1 \<le> j" "P j"
      then show ?thesis by (intro exI [of _ j]) simp
    qed blast
  qed
  show ?case
  proof (cases "?p = NULL")
    case True
    then have "gnb_sessions env sel G i = gnb_sessions env sel G (i + 1)" using i by (subst gnb_sessions.simps) (simp only: Let_def if_True if_False refl)
    then show ?thesis unfolding IH split [of "\<lambda>j. \<exists>s. sg_ngap_list (gw G) j \<noteq> NULL \<and> sg_ngaps (gw G) (sg_ngap_list (gw G) j) = Some s \<and> sel s"]
      using True by (simp only: not_True_eq_False simp_thms)
  next
    case False
    have "ngaps_ok (gw G)" using assms by (simp add: sig_ok_def)
    from ngaps_okD(3) [OF this False] obtain s where s: "sg_ngaps (gw G) ?p = Some s" by blast
    show ?thesis
    proof (cases "sel s")
      case True
      have "gnb_inner env G ?p i 0 = None" by (rule gnb_inner_stuck) (simp add: MAX_PDU_SESSION_SIZE_def)
      then have "gnb_sessions env sel G i = None"
        using i False s True by (subst gnb_sessions.simps) (simp only: Let_def if_False Option.bind.simps not_True_eq_False)
      moreover have "\<exists>j\<ge>i. \<exists>s. sg_ngap_list (gw G) j \<noteq> NULL \<and> sg_ngaps (gw G) (sg_ngap_list (gw G) j) = Some s \<and> sel s"
        using False s True le_refl by blast
      ultimately show ?thesis by (simp only: if_True)
    next
      case f: False
      then have "gnb_sessions env sel G i = gnb_sessions env sel G (i + 1)"
        using i False s by (subst gnb_sessions.simps) (simp only: Let_def if_False if_True Option.bind.bind_lunit not_False_eq_True)
      moreover have "\<not> (\<exists>u. ?p \<noteq> NULL \<and> sg_ngaps (gw G) ?p = Some u \<and> sel u)" using s f by simp
      ultimately show ?thesis unfolding IH split [of "\<lambda>j. \<exists>s. sg_ngap_list (gw G) j \<noteq> NULL \<and> sg_ngaps (gw G) (sg_ngap_list (gw G) j) = Some s \<and> sel s"]
        by (simp only: simp_thms)
    qed
  qed
qed

section \<open>Properties\<close>

text \<open>
  The state after \<open>Init\<close>, and the steps of the gateway in any order. The timers fire in any order. The managers
  of messages write to the fields of a user (the list of its PDU sessions and their count, its identifiers
  and addresses, the state of a handover); here they may write anything but the number of the session.
\<close>

definition start_sig :: "(nat \<times> string) list \<Rightarrow> sig_gw" where
  "start_sig medias = \<lparr>sg_ngap_current = 0, sg_ngap_stream = 1, sg_ngap_list = (\<lambda>_. NULL), sg_ngaps = (\<lambda>_. None),
     sg_timer_list = (\<lambda>_. NULL), sg_timer_ctx = (\<lambda>_. None), sg_containers = (\<lambda>_. None), sg_pdu_current = 0,
     sg_pdu_list = (\<lambda>_. NULL), sg_pdus = (\<lambda>_. None), sg_msgs = (\<lambda>_. None), sg_map = (\<lambda>_ _. INVALIDE_ID), sg_drb = (\<lambda>_. None),
     sg_medias = medias, sg_pending = [], sg_calls = [], sg_brk = 1\<rparr>"

inductive sig_step :: "sig_side \<Rightarrow> sig_side \<Rightarrow> bool" where
  st_process: "Process env G info r t = Some (G', info', b) \<Longrightarrow> sig_step G G'"
| st_fail: "processSessSetupfail env G info r = Some (G', b) \<Longrightarrow> sig_step G G'"
| st_release: "ReleasePduSess env G n r = Some (G', b) \<Longrightarrow> sig_step G G'"
| st_resource: "UpdatePduSessResource W n r x = Some (W', b) \<Longrightarrow> sig_step (S, W) (S, W')"
| st_prepare: "prepareHoTargetGnbAddr W n r t = Some (W', b) \<Longrightarrow> sig_step (S, W) (S, W')"
| st_drb: "prepareHoDrb W n r drb = (W', b) \<Longrightarrow> sig_step (S, W) (S, W')"
| st_reset: "resetHoTargetGnbAddr W n r = Some (W', b) \<Longrightarrow> sig_step (S, W) (S, W')"
| st_finish: "finishHo env G n r = Some (G', b) \<Longrightarrow> sig_step G G'"
| st_message: "sig_media_path_event_callback env G e = Some G' \<Longrightarrow> sig_step G G'"
| st_timer: "run_timer k W = Some W' \<Longrightarrow> sig_step (S, W) (S, W')"
| st_ngap: "NewNgapSession W info = Some (W', q) \<Longrightarrow> sig_step (S, W) (S, W')"
| st_ngap_amf: "NewNgapSessionFromAmf esm W info g = Some (W', q) \<Longrightarrow> sig_step (S, W) (S, W')"
| st_remove: "RemoveNgapSess W i = Some W' \<Longrightarrow> sig_step (S, W) (S, W')"
| st_stop: "stopNgapSessTimer W i = Some W' \<Longrightarrow> sig_step (S, W) (S, W')"
| st_save: "sig_step (S, W) (S, SaveSourceToTarget_TransparentContainer W i c)"
| st_get: "sig_step (S, W) (S, fst (GetSourceToTarget_TransparentContainer W i))"
| st_amf: "DeleteAllAmfSession env G a = Some G' \<Longrightarrow> sig_step G G'"
| st_gnb: "DeleteAllGnbSession env G node = Some G' \<Longrightarrow> sig_step G G'"
| st_sctp: "DeleteAllGnbSession_of_sctp env G i = Some G' \<Longrightarrow> sig_step G G'"
| st_managers: "upd_ngap W p f = Some W' \<Longrightarrow> \<forall>s. ns_sessId (f s) = ns_sessId s \<Longrightarrow> sig_step (S, W) (S, W')"
| st_bus: "sig_step (S, W) (S', W)"

lemma sig_step_ok:
  assumes "sig_step G G'" "sig_ok (gw G)"
  shows "sig_ok (gw G')"
  using assms
proof cases
  case (st_process env info r t info' b)
  then show ?thesis using Process_ok assms(2) by blast
next
  case (st_fail env info r b)
  then show ?thesis using processSessSetupfail_ok assms(2) by blast
next
  case (st_release env n r b)
  then show ?thesis using ReleasePduSess_ok assms(2) by blast
next
  case (st_finish env n r b)
  then show ?thesis using finishHo_ok assms(2) by blast
next
  case (st_message env e)
  then show ?thesis using callback_ok assms(2) by blast
next
  case (st_get S W i)
  then show ?thesis using assms(2) by (simp add: GetSourceToTarget_TransparentContainer_def split: option.split)
next
  case (st_amf env a)
  then show ?thesis using amf_sessions_ok assms(2) unfolding DeleteAllAmfSession_def by blast
next
  case (st_gnb env node)
  then show ?thesis using gnb_sessions_result [OF assms(2)] assms(2) by (simp add: DeleteAllGnbSession_def split: if_splits)
next
  case (st_sctp env i)
  then show ?thesis using gnb_sessions_result [OF assms(2)] assms(2) by (simp add: DeleteAllGnbSession_of_sctp_def split: if_splits)
qed (use assms(2) in \<open>auto simp: SaveSourceToTarget_TransparentContainer_def dest: handover_ok run_timer_ok NewNgapSession_ok
      NewNgapSessionFromAmf_ok RemoveNgapSess_ok stopNgapSessTimer_ok upd_ngap_ok\<close>)

lemma sig_steps_ok: "sig_step\<^sup>*\<^sup>* G G' \<Longrightarrow> sig_ok (gw G) \<Longrightarrow> sig_ok (gw G')"
  by (induction rule: rtranclp_induct) (blast intro: sig_step_ok)+

lemma start_sig_ok: "sig_ok (start_sig medias)"
  by (simp add: sig_ok_def pdus_ok_def ngaps_ok_def start_sig_def)

text \<open>C13. 
  Whatever the order of requests, answers, timers and losses, and whatever the managers write to the
  fields of a user but its number: a slot of the two tables of sessions that
  is in use holds an allocated session with the identifier of the slot, and no session is in two slots.
\<close>

theorem sig_tables_consistent:
  assumes "sig_step\<^sup>*\<^sup>* (S, start_sig medias) (S', W)"
  shows "(\<forall>i. sg_pdu_list W i \<noteq> NULL \<longrightarrow> 0 < i \<and> i < MAX_SIG_SESSIONS \<and>
        (\<exists>s. sg_pdus W (sg_pdu_list W i) = Some s \<and> sm_sig_sess_id s = i)) \<and>
     (\<forall>i. sg_ngap_list W i \<noteq> NULL \<longrightarrow> 0 < i \<and> i < MAX_SIG_SESSIONS \<and>
        (\<exists>s. sg_ngaps W (sg_ngap_list W i) = Some s \<and> ns_sessId s = i)) \<and>
     inj_on (sg_pdu_list W) {i. sg_pdu_list W i \<noteq> NULL} \<and> inj_on (sg_ngap_list W) {i. sg_ngap_list W i \<noteq> NULL}"
proof -
  have "sig_ok (gw (S', W))" by (rule sig_steps_ok [OF assms]) (simp add: start_sig_ok)
  then have ok: "pdus_ok W" "ngaps_ok W" by (simp_all add: sig_ok_def)
  have 1: "inj_on (sg_pdu_list W) {i. sg_pdu_list W i \<noteq> NULL}"
  proof (rule inj_onI, unfold mem_Collect_eq)
    fix i j assume a: "sg_pdu_list W i \<noteq> NULL" "sg_pdu_list W j \<noteq> NULL" "sg_pdu_list W i = sg_pdu_list W j"
    obtain s where s: "sg_pdus W (sg_pdu_list W i) = Some s" "sm_sig_sess_id s = i" using pdus_okD(3) [OF ok(1) a(1)] by blast
    obtain t where t: "sg_pdus W (sg_pdu_list W j) = Some t" "sm_sig_sess_id t = j" using pdus_okD(3) [OF ok(1) a(2)] by blast
    show "i = j" using s t unfolding a(3) by simp
  qed
  have 2: "inj_on (sg_ngap_list W) {i. sg_ngap_list W i \<noteq> NULL}"
  proof (rule inj_onI, unfold mem_Collect_eq)
    fix i j assume a: "sg_ngap_list W i \<noteq> NULL" "sg_ngap_list W j \<noteq> NULL" "sg_ngap_list W i = sg_ngap_list W j"
    obtain s where s: "sg_ngaps W (sg_ngap_list W i) = Some s" "ns_sessId s = i" using ngaps_okD(3) [OF ok(2) a(1)] by blast
    obtain t where t: "sg_ngaps W (sg_ngap_list W j) = Some t" "ns_sessId t = j" using ngaps_okD(3) [OF ok(2) a(2)] by blast
    show "i = j" using s t unfolding a(3) by simp
  qed
  have 3: "\<forall>i. sg_pdu_list W i \<noteq> NULL \<longrightarrow> 0 < i \<and> i < MAX_SIG_SESSIONS \<and> (\<exists>s. sg_pdus W (sg_pdu_list W i) = Some s \<and> sm_sig_sess_id s = i)"
    by (intro allI impI) (rule pdus_okD(3) [OF ok(1)])
  have 4: "\<forall>i. sg_ngap_list W i \<noteq> NULL \<longrightarrow> 0 < i \<and> i < MAX_SIG_SESSIONS \<and> (\<exists>s. sg_ngaps W (sg_ngap_list W i) = Some s \<and> ns_sessId s = i)"
    by (intro allI impI) (rule ngaps_okD(3) [OF ok(2)])
  show ?thesis by (intro conjI 1 2 3 4)
qed

theorem sig_tables_witness:
  "\<exists>W q s. NewNgapSession (start_sig []) demo_info = Some (W, Some q) \<and> sg_ngap_list W 1 = q \<and>
     sg_ngaps W q = Some s \<and> ns_sessId s = 1"
proof -
  have slot: "sig_slot MAX_SIG_SESSIONS (\<lambda>_. NULL) 0 = (1, Some 1)"
    using sig_slot.simps(2) [of 99999 "\<lambda>_. NULL" 0] by (simp add: SIG_NEXT_ID_def)
  have "\<exists>W. NewNgapSession (start_sig []) demo_info = Some (W, Some 1) \<and> sg_ngap_list W 1 = 1"
    using slot by (simp add: NewNgapSession_def start_sig_def next_stream_def AddNgapSess_def startNgapSessTimer_def GetNgapSession_def Let_def)
  then obtain W where W: "NewNgapSession (start_sig []) demo_info = Some (W, Some 1)" "sg_ngap_list W 1 = 1" by blast
  have "sig_step\<^sup>*\<^sup>* (demo_bus, start_sig []) (demo_bus, W)" using st_ngap [OF W(1)] by blast
  from conjunct1 [OF conjunct2 [OF sig_tables_consistent [OF this]]] W(2) obtain s where "sg_ngaps W 1 = Some s" "ns_sessId s = 1"
    by (metis one_neq_zero)
  then show ?thesis using W by blast
qed

text \<open>C37. 
  When a radio node is lost the gateway goes through its sessions: without one it is done, with any it
  never comes back, because the loop over the PDU sessions increments the counter of the outer loop.
\<close>

theorem lost_node_never_returns:
  assumes "sig_step\<^sup>*\<^sup>* (S, start_sig medias) G"
  shows "DeleteAllGnbSession env G node =
    (if \<exists>i s. sg_ngap_list (gw G) i \<noteq> NULL \<and> sg_ngaps (gw G) (sg_ngap_list (gw G) i) = Some s \<and> node_eq (ns_gnbId s) node
     then None else Some G)"
proof -
  have "sig_ok (gw G)" by (rule sig_steps_ok [OF assms]) (simp add: start_sig_ok)
  from gnb_sessions_result [OF this, of env "\<lambda>s. node_eq (ns_gnbId s) node" 0] show ?thesis
    unfolding DeleteAllGnbSession_def by (simp only: le0 simp_thms)
qed

theorem lost_node_witness:
  "\<exists>W q. NewNgapSession (start_sig []) demo_info = Some (W, Some q) \<and>
     DeleteAllGnbSession demo_sig_env (demo_bus, W) RanNodeId_default = None"
proof -
  have slot: "sig_slot MAX_SIG_SESSIONS (\<lambda>_. NULL) 0 = (1, Some 1)"
    using sig_slot.simps(2) [of 99999 "\<lambda>_. NULL" 0] by (simp add: SIG_NEXT_ID_def)
  have "\<exists>W s. NewNgapSession (start_sig []) demo_info = Some (W, Some 1) \<and> sg_ngap_list W 1 = 1 \<and>
      sg_ngaps W 1 = Some s \<and> ns_gnbId s = RanNodeId_default"
    using slot by (simp add: NewNgapSession_def start_sig_def next_stream_def AddNgapSess_def startNgapSessTimer_def GetNgapSession_def Let_def demo_info_def)
  then obtain W s where W: "NewNgapSession (start_sig []) demo_info = Some (W, Some 1)" "sg_ngap_list W 1 = 1"
    "sg_ngaps W 1 = Some s" "ns_gnbId s = RanNodeId_default" by blast
  have "sig_step\<^sup>*\<^sup>* (demo_bus, start_sig []) (demo_bus, W)" using st_ngap [OF W(1)] by blast
  note r = lost_node_never_returns [OF this, of demo_sig_env RanNodeId_default]
  have "\<exists>i s. sg_ngap_list (gw (demo_bus, W)) i \<noteq> NULL \<and> sg_ngaps (gw (demo_bus, W)) (sg_ngap_list (gw (demo_bus, W)) i) = Some s \<and>
      node_eq (ns_gnbId s) RanNodeId_default"
    using W by (intro exI [of _ 1] exI [of _ s]) (simp add: node_eq_def)
  then have "DeleteAllGnbSession demo_sig_env (demo_bus, W) RanNodeId_default = None" using r by (simp only: if_True)
  then show ?thesis using W(1) by blast
qed

text \<open>C38. 
  A session that is released while its timer runs: the release frees it and leaves the timer pending;
  when it fires, whichever place it has among the pending timers, it reads the freed session.
\<close>

theorem timer_reads_released_session:
  assumes "bus_ok S" "sig_ok W" "plain_env env"
    and "getPduSess_of_ngap W n r = Some p" "p \<noteq> NULL" "sg_pdus W p = Some s" "length (sm_MediaGWName s) < 245" "no_percent (sm_MediaGWName s)"
    and "k < length (sg_pending W)" "sg_pending W ! k = Pdu_Timer p"
  shows "\<exists>S' W'. ReleasePduSess env (S, W) n r = Some ((S', W'), True) \<and> sg_pending W' = sg_pending W \<and> run_timer k W' = None"
proof -
  have ok: "pdus_ok W" using assms(2) by (simp add: sig_ok_def)
  obtain i where i: "i < MAX_SIG_SESSIONS" "sg_pdu_list W i = p"
    using assms(4,5) by (auto simp: getPduSess_of_ngap_def getPduSess_def ensure_def split: if_splits)
  then have id: "sm_sig_sess_id s = i" using pdus_okD(3) [OF ok, of i] assms(5,6) by auto
  let ?hs = "[(H_TYPE, dec_nat (type_num MSET_SESS_RELEASE_REQ)), (H_MEDIA_SESSID, dec_nat (sm_media_sess_id s)),
       (H_SIG_SESSID, dec_nat i), (H_SIG_HOSTNAME, se_hostname env), (EVENT_HEADER_ROUTING, sm_MediaGWName s @ ''.sig2media'')]"
  let ?n = "length (bus_fired S)"
  have "\<forall>(n, v)\<in>set ?hs. no_percent v" using assms(3,8) by (simp add: plain_env_def)
  from send_event_ok [OF assms(1) this, of EVENT_ID_SIG2MEDIA "se_debug env ?n" "se_rnd env ?n"] obtain S' e where
    "send_event S EVENT_ID_SIG2MEDIA (se_debug env ?n) (se_rnd env ?n) ?hs = Some (S', AGC_STATUS_SUCCESS)" by blast
  then have "sig_media_path_send_req env (S, W) (sm_sig_sess_id s) (sm_media_sess_id s) MSET_SESS_RELEASE_REQ (sm_MediaGWName s) =
      Some ((S', W), AGC_STATUS_SUCCESS)"
    using assms(7) id by (simp add: sig_media_path_send_req_def request_def routing_to_def)
  then have "ReleasePduSess env (S, W) n r = Some ((S', deleteSessMap (W\<lparr>sg_pdu_list := (sg_pdu_list W)(i := NULL),
      sg_pdus := (sg_pdus W)(p := None)\<rparr>) n r), True)"
    using assms(4-6) i id by (simp add: ReleasePduSess_def deletePduSess_def put_gw_def)
  moreover have "run_timer k (deleteSessMap (W\<lparr>sg_pdu_list := (sg_pdu_list W)(i := NULL), sg_pdus := (sg_pdus W)(p := None)\<rparr>) n r) = None"
    using assms(5,9,10) by (simp add: run_timer_def deleteSessMap_def set_map_def onSessTimer_def)
  moreover have "sg_pending (deleteSessMap (W\<lparr>sg_pdu_list := (sg_pdu_list W)(i := NULL), sg_pdus := (sg_pdus W)(p := None)\<rparr>) n r) = sg_pending W"
    by (simp add: deleteSessMap_def set_map_def)
  ultimately show ?thesis by blast
qed

text \<open>The concrete gateway with a PDU session of NGAP session 3 in slot 1.\<close>

definition demo_busy :: sig_gw where
  "demo_busy = demo_sig\<lparr>sg_pdu_list := (\<lambda>_. NULL)(1 := 55), sg_pdus := [55 \<mapsto> requested demo_sig_env ''media1'' demo_info 5 demo_transport 1],
     sg_map := (\<lambda>_ _. INVALIDE_ID)(5 := (\<lambda>_. INVALIDE_ID)(3 := 1)), sg_pending := [Pdu_Timer 55],
     sg_msgs := [3 \<mapsto> demo_info, 1 \<mapsto> demo_info\<lparr>nm_sessId := 1\<rparr>]\<rparr>"

lemma demo_busy_ok: "sig_ok demo_busy"
proof -
  have "pdus_ok demo_busy" by (rule pdus_okI) (simp_all add: demo_busy_def split: if_splits)
  moreover have "ngaps_ok demo_busy" by (rule ngaps_okI) (simp_all add: demo_busy_def split: if_splits)
  ultimately show ?thesis by (simp add: sig_ok_def demo_busy_def)
qed

theorem released_session_witness:
  "\<exists>S' W'. ReleasePduSess demo_sig_env (demo_bus, demo_busy) 3 5 = Some ((S', W'), True) \<and>
     sg_pending W' = sg_pending demo_busy \<and> run_timer 0 W' = None"
  by (rule timer_reads_released_session [OF demo_bus_ok demo_busy_ok demo_env_ok(1), of 3 5 55 "requested demo_sig_env ''media1'' demo_info 5 demo_transport 1" 0])
    (simp_all add: demo_busy_def getPduSess_of_ngap_def getPduSess_def)

text \<open>C39. 
  The answer to a setup frees the message that is saved under the identifier of the PDU session. That
  is the message of another NGAP session, which is never handed on.
\<close>

theorem answer_drops_other_message:
  assumes "sg_pdu_list W i = p" "p \<noteq> NULL" "i < MAX_SIG_SESSIONS" "sg_pdus W p = Some s" "sm_sig_sess_id s = i"
    and "GetNgapSession W (sm_ngap_sess_id s) = Some n" "sg_ngaps W n = Some ns" "ns_sessId ns = sm_ngap_sess_id s"
    and "ns_pdu_resource_count ns \<le> (ns_pdu_sess_rsp_count ns + 1) mod 256" "sg_msgs W (sm_ngap_sess_id s) = Some info"
    and "i \<noteq> sm_ngap_sess_id s" "sg_msgs W i = Some other"
  shows "\<exists>W'. handleUpfSetupRsp W i m to_gnb to_upf = Some W' \<and> sg_msgs W' i = None \<and>
     sg_calls W' = sg_calls W @ upf_setup_calls info"
  using setup_answered [OF assms(1-10), of m to_gnb to_upf] by auto

theorem drops_other_witness:
  "\<exists>W'. sg_msgs demo_busy 1 = Some (demo_info\<lparr>nm_sessId := 1\<rparr>) \<and>
     handleUpfSetupRsp demo_busy 1 9 demo_transport demo_transport = Some W' \<and> sg_msgs W' 1 = None \<and>
     sg_calls W' = [AMF_InitialContextSetupReqByMedia demo_info]"
proof -
  let ?q = "requested demo_sig_env ''media1'' demo_info 5 demo_transport 1"
  have a: "sg_pdu_list demo_busy 1 = 55" "(55::nat) \<noteq> NULL" "1 < MAX_SIG_SESSIONS" "sg_pdus demo_busy 55 = Some ?q" "sm_sig_sess_id ?q = 1"
    "GetNgapSession demo_busy (sm_ngap_sess_id ?q) = Some 50" "sg_ngaps demo_busy 50 = Some demo_ngap" "ns_sessId demo_ngap = sm_ngap_sess_id ?q"
    "ns_pdu_resource_count demo_ngap \<le> (ns_pdu_sess_rsp_count demo_ngap + 1) mod 256" "sg_msgs demo_busy (sm_ngap_sess_id ?q) = Some demo_info"
    "1 \<noteq> sm_ngap_sess_id ?q" "sg_msgs demo_busy 1 = Some (demo_info\<lparr>nm_sessId := 1\<rparr>)"
    by (simp_all add: demo_busy_def GetNgapSession_def) (simp add: demo_ngap_def new_NgapSession_def)
  have "sg_calls demo_busy @ upf_setup_calls demo_info = [AMF_InitialContextSetupReqByMedia demo_info]"
    by (simp add: demo_busy_def upf_setup_calls_def) (simp add: demo_info_def)
  then show ?thesis using answer_drops_other_message [OF a, of 9 demo_transport demo_transport] a(12) by simp
qed

end
