(* ===== verification/Ngap_Relay.thy ===== *)
theory Ngap_Relay
  imports Pdu_Sess
begin

text \<open>
  The associations of the signalling gateway with radio nodes (EsmManager.cc) and AMFs (AsmManager.cc),
  and the translation of user identifiers between the two sides (ApmManager.cc, EpmManager.cc). The state
  is the associations and the sessions; a message that is handed to an association is recorded in the
  log of calls.

  Towards an AMF the gateway is a radio node that calls the user by the identifier of the session; towards
  a radio node it is an AMF that calls the user by the same identifier. So a message has both its
  identifiers replaced when it is relayed.
\<close>

section \<open>Associations\<close>

abbreviation MAX_ESM_SESSIONS :: nat where
  "MAX_ESM_SESSIONS \<equiv> 2000"

abbreviation MAX_AMF_SESSIONS :: nat where
  "MAX_AMF_SESSIONS \<equiv> 2000"

record esm_context =
  ec_sctp_index :: nat
  ec_stream_no :: nat
  ec_ranNodeId :: RanNodeId
  ec_pagingDRX :: nat
  ec_gnbName :: string
  ec_tac :: "nat list"
  ec_idSigGW :: nat

record asm_context =
  ac_sctp_index :: nat
  ac_stream_no :: nat
  ac_isNgSetup :: bool
  ac_relativeCapacity :: nat
  ac_ConnTimes :: nat
  ac_amfName :: string
  ac_amfId :: nat
  ac_idSigGW :: nat
  ac_priority :: nat

text \<open>
  The contexts of AMFs are shared by two tables. \<open>nw_timers\<close> are the pending timers of AMF contexts.
\<close>

record ran_net =
  nw_esm :: "nat \<Rightarrow> esm_context option"
  nw_amf_list :: "nat \<Rightarrow> ptr"
  nw_amf_sctp_list :: "nat \<Rightarrow> ptr"
  nw_asm :: "ptr \<Rightarrow> asm_context option"
  nw_amfid :: nat
  nw_timers :: "ptr list"
  nw_brk :: ptr

type_synonym relay = "ran_net \<times> sig_side"

abbreviation rgw :: "relay \<Rightarrow> sig_gw" where
  "rgw R \<equiv> gw (snd R)"

definition put_side :: "relay \<Rightarrow> sig_side \<Rightarrow> relay" where
  "put_side R G = (fst R, G)"

definition put_rgw :: "relay \<Rightarrow> sig_gw \<Rightarrow> relay" where
  "put_rgw R W = (fst R, put_gw (snd R) W)"

definition put_net :: "relay \<Rightarrow> ran_net \<Rightarrow> relay" where
  "put_net R N = (N, snd R)"

definition GetEsmContext :: "ran_net \<Rightarrow> nat \<Rightarrow> esm_context option" where
  "GetEsmContext N sctp_index = (if MAX_ESM_SESSIONS \<le> sctp_index then None else nw_esm N sctp_index)"

fun first_esm :: "ran_net \<Rightarrow> (esm_context \<Rightarrow> bool) \<Rightarrow> nat list \<Rightarrow> esm_context option" where
  "first_esm N sel [] = None"
| "first_esm N sel (i # is) = (case nw_esm N i of
     None \<Rightarrow> first_esm N sel is
   | Some c \<Rightarrow> if sel c then Some c else first_esm N sel is)"

definition GetEsmContext_of_node :: "ran_net \<Rightarrow> RanNodeId \<Rightarrow> esm_context option" where
  "GetEsmContext_of_node N node = first_esm N (\<lambda>c. node_eq (ec_ranNodeId c) node) [0..<MAX_ESM_SESSIONS]"

text \<open>The number of the node is compared with itself, so only the type decides.\<close>

definition GetEsmContextByRanNodeId :: "ran_net \<Rightarrow> RanNodeId \<Rightarrow> esm_context option" where
  "GetEsmContextByRanNodeId N node = first_esm N (\<lambda>c. rn_id (ec_ranNodeId c) = rn_id (ec_ranNodeId c) \<and>
     rn_enb node = rn_enb (ec_ranNodeId c)) [0..<MAX_ESM_SESSIONS]"

definition FindRanNodeId :: "ran_net \<Rightarrow> nat \<Rightarrow> RanNodeId option" where
  "FindRanNodeId N sctp_index =
     (if MAX_ESM_SESSIONS \<le> sctp_index then None else map_option ec_ranNodeId (nw_esm N sctp_index))"

definition GetTargetSock :: "ran_net \<Rightarrow> nat \<Rightarrow> nat option" where
  "GetTargetSock N amfid =
     (if MAX_AMF_SESSIONS \<le> amfid then Some 0
      else if nw_amf_list N amfid = NULL then Some 0
      else map_option ac_sctp_index (nw_asm N (nw_amf_list N amfid)))"

definition GetAmfIdBySock :: "ran_net \<Rightarrow> nat \<Rightarrow> nat option" where
  "GetAmfIdBySock N sctp_index =
     (if MAX_AMF_SESSIONS \<le> sctp_index then Some 0
      else if nw_amf_sctp_list N sctp_index = NULL then Some 0
      else map_option ac_amfId (nw_asm N (nw_amf_sctp_list N sctp_index)))"

text \<open>The last AMF of the gateway that is set up.\<close>

fun select_amf :: "ran_net \<Rightarrow> nat \<Rightarrow> nat \<Rightarrow> nat list \<Rightarrow> nat option" where
  "select_amf N g acc [] = Some acc"
| "select_amf N g acc (i # is) = (let p = nw_amf_sctp_list N i in
     if p = NULL then select_amf N g acc is
     else do {
       c \<leftarrow> nw_asm N p;
       select_amf N g (if ac_idSigGW c = g \<and> ac_isNgSetup c then ac_amfId c else acc) is })"

definition SelectAmf :: "ran_net \<Rightarrow> nat \<Rightarrow> nat option" where
  "SelectAmf N idSigGW = select_amf N idSigGW 0 [0..<MAX_AMF_SESSIONS]"

section \<open>Sending\<close>

definition send_down :: "relay \<Rightarrow> ngap_message \<Rightarrow> relay" where
  "send_down R info = put_rgw R (log_call (rgw R) [SendDownLayerSctp info])"

definition send_up :: "relay \<Rightarrow> ngap_message \<Rightarrow> relay" where
  "send_up R info = put_rgw R (log_call (rgw R) [SendUpLayerSctp info])"

fun to_all :: "relay \<Rightarrow> ngap_message \<Rightarrow> nat list \<Rightarrow> relay \<times> ngap_message" where
  "to_all R info [] = (R, info)"
| "to_all R info (i # is) = (case nw_esm (fst R) i of
     None \<Rightarrow> to_all R info is
   | Some c \<Rightarrow> (let info = info\<lparr>nm_sockTarget := ec_sctp_index c\<rparr> in to_all (send_down R info) info is))"

definition SendToAllRAN :: "relay \<Rightarrow> ngap_message \<Rightarrow> relay \<times> ngap_message" where
  "SendToAllRAN R info = to_all R info [0..<MAX_ESM_SESSIONS]"

section \<open>The environment\<close>

text \<open>
  What comes from outside: the environment of the sessions, what an integer holds that was never set, the
  configuration database (of a gateway: its parameters, networks, tracking areas, slices and AMF
  identifiers) and the codec of the transfer containers.
\<close>

datatype node_kind = CFG_GNB | CFG_NG_ENB | CFG_N3IWF | CFG_other_node

datatype enb_kind = CFG_NGE_MACRO | CFG_NGE_SHORT_MACRO | CFG_NGE_LONG_MACRO | CFG_NGE_other

record vgw_param =
  vp_AMFName :: string
  vp_AMFCapacity :: nat
  vp_gNBid :: nat
  vp_gNBName :: string
  vp_Plmn :: plmn_id
  vp_DRX :: nat
  vp_gNBType :: node_kind
  vp_ngeNBType :: enb_kind

record guami_param =
  gp_plmn :: plmn_id
  gp_AMFRegionID :: nat
  gp_AMFSetId :: nat
  gp_AMFPointer :: nat

record relay_env =
  re_sig :: sig_env
  re_junk :: nat
  re_vgw :: "nat \<Rightarrow> vgw_param option"
  re_bplmns :: "nat \<Rightarrow> (nat \<times> plmn_id) list option"
  re_tacs :: "nat \<Rightarrow> (nat \<times> nat) list option"
  re_tac_plmns :: "nat \<Rightarrow> nat \<Rightarrow> (nat \<times> plmn_id) list option"
  re_nssais :: "nat \<Rightarrow> nat \<Rightarrow> nat list option"
  re_guamis :: "nat \<Rightarrow> guami_param list option"
  re_setup_req :: "setup_ie list codec"
  re_setup_rsp :: "setup_rsp codec"
  re_ho_ack :: "setup_rsp codec"
  re_switch_req :: "setup_rsp codec"
  re_switch_ack :: "setup_rsp codec"
  re_ho_command :: "ho_command codec"
  re_s2t :: "string \<Rightarrow> s2t_container option"

section \<open>Translation of user identifiers\<close>

text \<open>The identifier of a session has 32 bits, so a longer one is cut.\<close>

definition AMF_ConvertNgapId :: "relay \<Rightarrow> ngap_message \<Rightarrow> nat option \<Rightarrow> nat option \<Rightarrow>
    (relay \<times> ngap_message \<times> (nat \<times> nat) option) option" where
  "AMF_ConvertNgapId R info ranUeId amfUeId = (case (ranUeId, amfUeId) of
     (Some rid, Some aid) \<Rightarrow> (let info = info\<lparr>nm_sessId := rid mod 2 ^ 32, nm_amfUeId := aid mod 2 ^ 64\<rparr> in
       case GetNgapSession (rgw R) (nm_sessId info) of
         None \<Rightarrow> Some (R, info, None)
       | Some p \<Rightarrow> do {
           s \<leftarrow> sg_ngaps (rgw R) p;
           case GetEsmContext (fst R) (ns_gnb_sctp_index s) of
             None \<Rightarrow> Some (R, info, None)
           | Some esm \<Rightarrow> do {
               W \<leftarrow> upd_ngap (rgw R) p (\<lambda>s. s\<lparr>ns_amfUeId := nm_amfUeId info\<rparr>);
               let info' = info\<lparr>nm_gnbUeId := ns_gnbUeId s, nm_ranNodeId := ns_gnbId s, nm_stream_no := ns_stream_no s,
                 nm_sockTarget := ec_sctp_index esm\<rparr>;
               Some (put_rgw R W, info', Some (ns_gnbUeId s, nm_sessId info)) } })
   | _ \<Rightarrow> Some (R, info, None))"

definition GNB_ConvertNgapId :: "relay_env \<Rightarrow> relay \<Rightarrow> ngap_message \<Rightarrow> nat option \<Rightarrow> nat option \<Rightarrow>
    (ngap_message \<times> (nat \<times> nat) option) option" where
  "GNB_ConvertNgapId env R info ranUeId amfUeId = (case ranUeId of
     None \<Rightarrow> Some (info, None)
   | Some rid \<Rightarrow> (let ueid = (case amfUeId of None \<Rightarrow> re_junk env | Some aid \<Rightarrow> aid);
         info = info\<lparr>nm_gnbUeId := rid mod 2 ^ 32, nm_sessId := ueid mod 2 ^ 32\<rparr> in
       case GetNgapSession (rgw R) (nm_sessId info) of
         None \<Rightarrow> Some (info, None)
       | Some p \<Rightarrow> do {
           s \<leftarrow> sg_ngaps (rgw R) p;
           sock \<leftarrow> GetTargetSock (fst R) (ns_amfId s);
           let info = info\<lparr>nm_amfUeId := ns_amfUeId s, nm_stream_no := ns_stream_no s, nm_sockTarget := sock\<rparr>;
           Some (info, Some (ns_sessId s, ns_amfUeId s)) }))"

text \<open>The two identifiers of a message are replaced in its elements.\<close>

definition put_ids :: "nat \<times> nat \<Rightarrow> ngap_message \<Rightarrow> ngap_message" where
  "put_ids ids info = info\<lparr>nm_ies := set_amf_id (snd ids) (set_ran_id (fst ids) (nm_ies info))\<rparr>"

definition amf_convert :: "relay \<Rightarrow> ngap_message \<Rightarrow> (relay \<times> ngap_message \<times> bool) option" where
  "amf_convert R info = do {
     (R, info, ids) \<leftarrow> AMF_ConvertNgapId R info (last_ie ran_id (nm_ies info)) (last_ie amf_id (nm_ies info));
     case ids of None \<Rightarrow> Some (R, info, False) | Some ids \<Rightarrow> Some (R, put_ids ids info, True) }"

definition gnb_convert :: "relay_env \<Rightarrow> relay \<Rightarrow> ngap_message \<Rightarrow> (ngap_message \<times> bool) option" where
  "gnb_convert env R info = do {
     (info, ids) \<leftarrow> GNB_ConvertNgapId env R info (last_ie ran_id (nm_ies info)) (last_ie amf_id (nm_ies info));
     case ids of None \<Rightarrow> Some (info, False) | Some ids \<Rightarrow> Some (put_ids ids info, True) }"

text \<open>
  A handler takes the environment, the state and the message; its result is the state, the message as it
  was rewritten and whether it succeeded. Most messages are only translated and sent on.
\<close>

type_synonym relayed = "(relay \<times> ngap_message \<times> bool) option"

type_synonym handler = "relay_env \<Rightarrow> relay \<Rightarrow> ngap_message \<Rightarrow> relayed"

definition amf_relay :: "relay \<Rightarrow> ngap_message \<Rightarrow> relayed" where
  "amf_relay R info = do {
     (R, info, ok) \<leftarrow> amf_convert R info;
     if ok then Some (send_down R info, info, True) else Some (R, info, False) }"

definition gnb_relay :: "relay_env \<Rightarrow> relay \<Rightarrow> ngap_message \<Rightarrow> relayed" where
  "gnb_relay env R info = do {
     (info, ok) \<leftarrow> gnb_convert env R info;
     if ok then Some (send_up R info, info, True) else Some (R, info, False) }"

text \<open>The NAS messages are looked at while the elements are read.\<close>

fun read_nas :: "ngap_message \<Rightarrow> ngap_ie list \<Rightarrow> ngap_message option" where
  "read_nas info [] = Some info"
| "read_nas info (ie # ies) = (case ie of
     IE_NAS_PDU buf \<Rightarrow> do { info \<leftarrow> DecodeNasPdu info (Some buf) (length buf); read_nas info ies }
   | _ \<Rightarrow> read_nas info ies)"

end
