(* ===== verification/Sig_Links.thy ===== *)
theory Sig_Links
  imports Ngap_Relay
begin

text \<open>
  Setting up the associations: with the AMFs (AsmManager.cc), which the gateway asks for a setup until they
  answer, and with the radio nodes (EsmManager.cc and GNB_SetupReq of EpmManager.cc), which ask the gateway.
\<close>

section \<open>Messages of the gateway itself\<close>

text \<open>A message that is built with \<open>calloc\<close>: its kind, its procedure and its elements.\<close>

definition built :: "pdu_choice \<Rightarrow> proc_code \<Rightarrow> ngap_ie list \<Rightarrow> ngap_message \<Rightarrow> ngap_message" where
  "built choice proc ies info = info\<lparr>nm_PDUChoice := choice, nm_ProcCode := proc, nm_present := True, nm_ies := ies\<rparr>"

text \<open>A message towards an AMF that is no answer for a user.\<close>

definition amf_msg :: "relay_env \<Rightarrow> nat \<Rightarrow> nat \<Rightarrow> nat \<Rightarrow> ngap_message" where
  "amf_msg env amfId sock idSigGW = (new_NgapMessage (re_junk env))\<lparr>nm_amfUeId := 0, nm_gnbUeId := 0, nm_amfId := amfId,
     nm_sockSource := sock, nm_sockTarget := sock, nm_idSigGW := idSigGW\<rparr>"

definition AsmManager_SendResetAck :: "relay_env \<Rightarrow> relay \<Rightarrow> ngap_message \<Rightarrow> relay" where
  "AsmManager_SendResetAck env R info = send_up R (built PDU_successfulOutcome id_NGReset []
     (amf_msg env (nm_amfId info) (nm_sockSource info) (nm_idSigGW info)))"

definition SendCfgUpdAck :: "relay_env \<Rightarrow> relay \<Rightarrow> ngap_message \<Rightarrow> relay" where
  "SendCfgUpdAck env R info = send_up R (built PDU_successfulOutcome id_AMFConfigurationUpdate []
     (amf_msg env (nm_amfId info) (nm_sockSource info) (nm_idSigGW info)))"

text \<open>The answer is built in the message of the radio node, but another one, which is empty, is sent upwards.\<close>

definition EsmManager_SendResetAck :: "relay_env \<Rightarrow> relay \<Rightarrow> ngap_message \<Rightarrow> relay \<times> ngap_message" where
  "EsmManager_SendResetAck env R info =
     (send_up R (amf_msg env (nm_amfId info) (nm_sockSource info) (nm_idSigGW info)),
      built PDU_successfulOutcome id_NGReset [] info)"

section \<open>Setup towards an AMF\<close>

definition node_id_ie :: "vgw_param \<Rightarrow> global_node_id" where
  "node_id_ie p = (let n = vp_gNBid p in case vp_gNBType p of
     CFG_GNB \<Rightarrow> Global_gNB (plmn_bytes (vp_Plmn p)) (GNB_ID [byte_char (n div 2 ^ 16), byte_char (n div 2 ^ 8), byte_char n])
   | CFG_NG_ENB \<Rightarrow> Global_ngENB (plmn_bytes (vp_Plmn p)) (case vp_ngeNBType p of
         CFG_NGE_MACRO \<Rightarrow> ENB_macro [byte_char (n div 2 ^ 12), byte_char (n div 2 ^ 4), byte_char (n mod 16 * 2 ^ 4)]
       | CFG_NGE_SHORT_MACRO \<Rightarrow> ENB_short_macro [byte_char (n div 2 ^ 10), byte_char (n div 2 ^ 2), byte_char (n mod 4 * 2 ^ 2)]
       | CFG_NGE_LONG_MACRO \<Rightarrow> ENB_long_macro [byte_char (n div 2 ^ 13), byte_char (n div 2 ^ 5), byte_char (n mod 32 * 2 ^ 5)]
       | CFG_NGE_other \<Rightarrow> ENB_other)
   | _ \<Rightarrow> Global_other)"

text \<open>
  The loops of this message count in 8 bits, so they do not end for 256 entries or more: \<^term>\<open>None\<close>. The
  inner \<^term>\<open>None\<close> is a query that fails.
\<close>

definition counted8 :: "'a list \<Rightarrow> 'a list option" where
  "counted8 xs = (if length xs \<le> 255 then Some xs else None)"

fun plmn_items :: "relay_env \<Rightarrow> nat \<Rightarrow> (nat \<times> plmn_id) list \<Rightarrow> (string \<times> string list) list option option" where
  "plmn_items env g [] = Some (Some [])"
| "plmn_items env g ((idBplmn, plmn) # ps) = (case re_nssais env g idBplmn of
     None \<Rightarrow> Some None
   | Some [] \<Rightarrow> Some None
   | Some ssts \<Rightarrow> do {
       ssts \<leftarrow> counted8 ssts;
       rest \<leftarrow> plmn_items env g ps;
       Some (map_option (\<lambda>is. (plmn_bytes plmn, map (\<lambda>sst. [byte_char sst]) ssts) # is) rest) })"

fun ta_items :: "relay_env \<Rightarrow> nat \<Rightarrow> (nat \<times> nat) list \<Rightarrow> ta_item list option option" where
  "ta_items env g [] = Some (Some [])"
| "ta_items env g ((idTA, tac) # ts) = (case re_tac_plmns env g idTA of
     None \<Rightarrow> Some None
   | Some [] \<Rightarrow> Some None
   | Some ps \<Rightarrow> do {
       ps \<leftarrow> counted8 ps;
       items \<leftarrow> plmn_items env g ps;
       case items of
         None \<Rightarrow> Some None
       | Some items \<Rightarrow> do {
           rest \<leftarrow> ta_items env g ts;
           Some (map_option (\<lambda>is. \<lparr>ta_tac = [byte_char (tac div 2 ^ 16), byte_char (tac div 2 ^ 8), byte_char tac], ta_plmns = items\<rparr> # is) rest) } })"

definition SendNgSetup :: "relay_env \<Rightarrow> relay \<Rightarrow> ngap_message \<Rightarrow> (relay \<times> bool) option" where
  "SendNgSetup env R info = (case re_vgw env (nm_idSigGW info) of
     None \<Rightarrow> Some (R, False)
   | Some p \<Rightarrow> (case re_tacs env (nm_idSigGW info) of
         None \<Rightarrow> Some (R, False)
       | Some [] \<Rightarrow> Some (R, False)
       | Some tacs \<Rightarrow> do {
           tacs \<leftarrow> counted8 tacs;
           items \<leftarrow> ta_items env (nm_idSigGW info) tacs;
           case items of
             None \<Rightarrow> Some (R, False)
           | Some items \<Rightarrow> Some (send_up R (built PDU_initiatingMessage id_NGSetup
               ([IE_GlobalRANNodeID (node_id_ie p)] @
                (if vp_gNBName p \<noteq> [] then [IE_RANNodeName (vp_gNBName p)] else []) @
                [IE_SupportedTAList items, IE_DefaultPagingDRX (vp_DRX p)]) info), True) }))"

section \<open>AMF contexts\<close>

definition upd_asm :: "ran_net \<Rightarrow> ptr \<Rightarrow> (asm_context \<Rightarrow> asm_context) \<Rightarrow> ran_net option" where
  "upd_asm N p f = map_option (\<lambda>c. N\<lparr>nw_asm := (nw_asm N)(p \<mapsto> f c)\<rparr>) (nw_asm N p)"

definition AsmManager_Init :: "ran_net \<Rightarrow> ran_net" where
  "AsmManager_Init N = N\<lparr>nw_amf_sctp_list := (\<lambda>_. NULL), nw_amf_list := (\<lambda>_. NULL)\<rparr>"

definition AddTimer :: "relay \<Rightarrow> ptr \<Rightarrow> relay" where
  "AddTimer R p = put_net R (fst R\<lparr>nw_timers := nw_timers (fst R) @ [p]\<rparr>)"

definition CheckSctpToAmf :: "relay_env \<Rightarrow> relay \<Rightarrow> ptr \<Rightarrow> relay option" where
  "CheckSctpToAmf env R p =
     (if p = NULL then Some R
      else do {
        c \<leftarrow> nw_asm (fst R) p;
        if ac_isNgSetup c then Some R
        else do {
          (R, _) \<leftarrow> SendNgSetup env R (amf_msg env (ac_amfId c) (ac_sctp_index c) (ac_idSigGW c));
          Some (AddTimer R p) } })"

text \<open>The first pending timer fires: they all run for the same time (\<open>AMF_SCTP_TIMER\<close>).\<close>

definition AsmManager_OnTimer :: "relay_env \<Rightarrow> relay \<Rightarrow> relay option" where
  "AsmManager_OnTimer env R = (case nw_timers (fst R) of
     [] \<Rightarrow> Some R
   | p # ps \<Rightarrow> CheckSctpToAmf env (put_net R (fst R\<lparr>nw_timers := ps\<rparr>)) p)"

definition AsmManager_Clear :: "relay_env \<Rightarrow> relay \<Rightarrow> nat \<Rightarrow> (relay \<times> bool) option" where
  "AsmManager_Clear env R amfid =
     (if MAX_AMF_SESSIONS \<le> amfid then Some (R, False)
      else do {
        let p = nw_amf_list (fst R) amfid;
        N \<leftarrow> upd_asm (fst R) p (\<lambda>c. c\<lparr>ac_isNgSetup := False\<rparr>);
        R \<leftarrow> CheckSctpToAmf env (put_net R N) p;
        Some (R, True) })"

definition AsmManager_Restart :: "relay_env \<Rightarrow> relay \<Rightarrow> nat \<Rightarrow> (relay \<times> bool) option" where
  "AsmManager_Restart env R sctp_index =
     (if MAX_AMF_SESSIONS \<le> sctp_index then Some (R, False)
      else do {
        let p = nw_amf_sctp_list (fst R) sctp_index;
        N \<leftarrow> upd_asm (fst R) p (\<lambda>c. c\<lparr>ac_isNgSetup := False\<rparr>);
        R \<leftarrow> CheckSctpToAmf env (put_net R N) p;
        c \<leftarrow> nw_asm (fst R) p;
        G \<leftarrow> DeleteAllAmfSession (re_sig env) (snd R) (ac_amfId c);
        Some (put_side R G, True) })"

text \<open>The identifiers of AMFs are counted from 1 and index a table. The function returns no value at its end.\<close>

definition AddAmf :: "relay \<Rightarrow> nat \<Rightarrow> nat \<Rightarrow> nat \<Rightarrow> relay option" where
  "AddAmf R idSigGW sctp_index priority = (let N = fst R in
     if MAX_AMF_SESSIONS \<le> sctp_index then Some R
     else if nw_amf_sctp_list N sctp_index \<noteq> NULL then Some R
     else do {
       let p = nw_brk N;
       let c = \<lparr>ac_sctp_index = sctp_index, ac_stream_no = 0, ac_isNgSetup = False, ac_relativeCapacity = 0, ac_ConnTimes = 0,
         ac_amfName = [], ac_amfId = nw_amfid N, ac_idSigGW = idSigGW, ac_priority = priority\<rparr>;
       ensure (nw_amfid N < MAX_AMF_SESSIONS);
       Some (AddTimer (put_net R (N\<lparr>nw_brk := p + 1, nw_amfid := nw_amfid N + 1, nw_asm := (nw_asm N)(p \<mapsto> c),
         nw_amf_sctp_list := (nw_amf_sctp_list N)(sctp_index := p),
         nw_amf_list := (nw_amf_list N)(nw_amfid N := p)\<rparr>)) p) })"

fun setup_ies :: "ngap_ie list \<Rightarrow> asm_context \<Rightarrow> asm_context" where
  "setup_ies [] c = c"
| "setup_ies (IE_RelativeAMFCapacity n # ies) c = setup_ies ies (c\<lparr>ac_relativeCapacity := n\<rparr>)"
| "setup_ies (IE_AMFName s # ies) c = setup_ies ies (c\<lparr>ac_amfName := s\<rparr>)"
| "setup_ies (_ # ies) c = setup_ies ies c"

definition handleNgSetupResponse :: "relay \<Rightarrow> nat \<Rightarrow> ngap_message \<Rightarrow> (relay \<times> bool) option" where
  "handleNgSetupResponse R sctp_index info =
     (if MAX_AMF_SESSIONS \<le> sctp_index then Some (R, False)
      else let p = nw_amf_sctp_list (fst R) sctp_index in
        if p = NULL then Some (R, False)
        else do {
          N \<leftarrow> upd_asm (fst R) p (\<lambda>c. setup_ies (nm_ies info) (c\<lparr>ac_isNgSetup := True\<rparr>));
          Some (put_net R N, True) })"

section \<open>Radio nodes\<close>

datatype rni_check = NGAP_CHECK_RNI_OK | NGAP_CHECK_RNI_PLMN_ERROR | NGAP_CHECK_RNI_UNKNOW_ERROR

text \<open>A new context; what the constructor does not set is not initialised.\<close>

definition new_EsmContext :: "relay_env \<Rightarrow> esm_context" where
  "new_EsmContext env = \<lparr>ec_sctp_index = 0, ec_stream_no = 0, ec_ranNodeId = RanNodeId_default, ec_pagingDRX = re_junk env,
     ec_gnbName = [], ec_tac = [], ec_idSigGW = 0\<rparr>"

definition set_node :: "(plmn_id \<Rightarrow> plmn_id) \<Rightarrow> (RanNodeType \<Rightarrow> RanNodeType) \<Rightarrow> (RanNgEnbType \<Rightarrow> RanNgEnbType) \<Rightarrow>
    (32 word \<Rightarrow> 32 word) \<Rightarrow> esm_context \<Rightarrow> esm_context" where
  "set_node fp ft fe fi c = c\<lparr>ec_ranNodeId := (case ec_ranNodeId c of RanNodeId p t e i \<Rightarrow> RanNodeId (fp p) (ft t) (fe e) (fi i))\<rparr>"

text \<open>The network of the node has to be that of the gateway or one of its broadcast networks.\<close>

definition HandlePlmn :: "relay_env \<Rightarrow> string \<Rightarrow> esm_context \<Rightarrow> (esm_context \<times> rni_check) option" where
  "HandlePlmn env PLMNidentity c = (case (re_vgw env (ec_idSigGW c), re_bplmns env (ec_idSigGW c)) of
     (Some p, Some plmns) \<Rightarrow>
       if length PLMNidentity \<noteq> PLMN_ID_LEN then Some (c, NGAP_CHECK_RNI_PLMN_ERROR)
       else do {
         plmn \<leftarrow> plmn_of_bytes PLMNidentity;
         if plmn \<noteq> vp_Plmn p \<and> plmn \<notin> snd ` set plmns then Some (c, NGAP_CHECK_RNI_PLMN_ERROR)
         else Some (set_node (\<lambda>_. plmn) id id id c, NGAP_CHECK_RNI_OK) }
   | _ \<Rightarrow> Some (c, NGAP_CHECK_RNI_PLMN_ERROR))"

text \<open>The bytes of an identifier are read without a look at its length; a macro node has four.\<close>

definition id_bytes :: "string \<Rightarrow> nat \<Rightarrow> nat list option" where
  "id_bytes b n = (if length b < n then None else Some (map char_byte (take n b)))"

definition gid4 :: "string \<Rightarrow> nat \<Rightarrow> nat option" where
  "gid4 b k = map_option (\<lambda>v. v ! 0 * 2 ^ (16 + k) + v ! 1 * 2 ^ (8 + k) + v ! 2 * 2 ^ k + v ! 3 div 2 ^ k) (id_bytes b 4)"

definition HandleGlobalRANNodeID :: "relay_env \<Rightarrow> global_node_id \<Rightarrow> esm_context \<Rightarrow> (esm_context \<times> rni_check) option" where
  "HandleGlobalRANNodeID env g c = (case g of
     Global_gNB plmn i \<Rightarrow> do {
       (c, cause) \<leftarrow> HandlePlmn env plmn c;
       if cause \<noteq> NGAP_CHECK_RNI_OK then Some (c, cause)
       else (case i of
           GNB_ID b \<Rightarrow> do {
             v \<leftarrow> id_bytes b 3;
             let gid = v ! 0 * 2 ^ 16 + v ! 1 * 2 ^ 8 + v ! 2;
             Some (set_node id (\<lambda>_. RNT_GNB_ID) id (\<lambda>_. of_nat gid) c, NGAP_CHECK_RNI_OK) }
         | _ \<Rightarrow> Some (c, NGAP_CHECK_RNI_UNKNOW_ERROR)) }
   | Global_ngENB plmn i \<Rightarrow> do {
       (c, cause) \<leftarrow> HandlePlmn env plmn c;
       if cause \<noteq> NGAP_CHECK_RNI_OK then Some (c, cause)
       else (let c = set_node id (\<lambda>_. RNT_NG_ENB_ID) id id c;
                 enb = (\<lambda>k b t. map_option (\<lambda>gid. (set_node id id (\<lambda>_. t) (\<lambda>_. of_nat gid) c, NGAP_CHECK_RNI_OK)) (gid4 b k)) in
         case i of
           ENB_macro b \<Rightarrow> enb 4 b RNET_MACRO_NG_ENB
         | ENB_short_macro b \<Rightarrow> enb 2 b RNET_SHORT_NG_ENB
         | ENB_long_macro b \<Rightarrow> enb 5 b RNET_LONG_NG_ENB
         | _ \<Rightarrow> Some (c, NGAP_CHECK_RNI_OK)) }
   | Global_other \<Rightarrow> Some (c, NGAP_CHECK_RNI_UNKNOW_ERROR))"

section \<open>The setup of a radio node\<close>

text \<open>A message towards a radio node that is no answer for a user.\<close>

definition gnb_msg :: "relay_env \<Rightarrow> ngap_message \<Rightarrow> ngap_message" where
  "gnb_msg env info = (new_NgapMessage (re_junk env))\<lparr>nm_gnbUeId := INVALIDE_ID, nm_amfUeId := INVALIDE_ID_X64,
     nm_sessId := INVALIDE_ID, nm_sockSource := nm_sockSource info, nm_sockTarget := nm_sockSource info, nm_stream_no := 0\<rparr>"

definition SendNgSetupFailure :: "relay_env \<Rightarrow> relay \<Rightarrow> rni_check \<Rightarrow> ngap_message \<Rightarrow> relay" where
  "SendNgSetupFailure env R cause info = send_down R (built PDU_unsuccessfulOutcome id_NGSetup
     [IE_Cause (if cause = NGAP_CHECK_RNI_PLMN_ERROR then Cause_unknown_PLMN else Cause_unspecified), IE_TimeToWait TTW_v10s]
     (gnb_msg env info))"

text \<open>The set identifier of an AMF has ten bits and its pointer six, at the upper end of their bytes.\<close>

definition guami_item :: "guami_param \<Rightarrow> string \<times> string \<times> string \<times> string" where
  "guami_item g = (plmn_bytes (gp_plmn g), [byte_char (gp_AMFRegionID g)],
     [byte_char (gp_AMFSetId g div 2 ^ 2), byte_char (gp_AMFSetId g mod 4 * 2 ^ 6)], [byte_char (gp_AMFPointer g * 2 ^ 2)])"

fun support_items :: "relay_env \<Rightarrow> nat \<Rightarrow> (nat \<times> plmn_id) list \<Rightarrow> (string \<times> string list) list option" where
  "support_items env g [] = Some []"
| "support_items env g ((idBplmn, plmn) # ps) = (case re_nssais env g idBplmn of
     None \<Rightarrow> None
   | Some [] \<Rightarrow> None
   | Some ssts \<Rightarrow> map_option (\<lambda>is. (plmn_bytes plmn, map (\<lambda>sst. [byte_char sst]) ssts) # is) (support_items env g ps))"

definition SendNgSetupResponse :: "relay_env \<Rightarrow> relay \<Rightarrow> ngap_message \<Rightarrow> relay \<times> bool" where
  "SendNgSetupResponse env R info = (let g = nm_idSigGW info in
     case (re_vgw env g, re_bplmns env g, re_guamis env g) of
       (Some p, Some (b # bs), Some (u # us)) \<Rightarrow> (case support_items env g (b # bs) of
           None \<Rightarrow> (R, False)
         | Some items \<Rightarrow> (send_down R (built PDU_successfulOutcome id_NGSetup
             ((if vp_AMFName p \<noteq> [] then [IE_AMFName (vp_AMFName p)] else []) @
              [IE_ServedGUAMIList (map guami_item (u # us)), IE_RelativeAMFCapacity (vp_AMFCapacity p), IE_PLMNSupportList items])
             ((gnb_msg env info)\<lparr>nm_ranNodeId := nm_ranNodeId info\<rparr>)), True))
     | _ \<Rightarrow> (R, False))"

definition EsmManager_Exit :: "ran_net \<Rightarrow> ran_net" where
  "EsmManager_Exit N = N\<lparr>nw_esm := (\<lambda>_. None)\<rparr>"

definition EsmManager_Setup :: "ran_net \<Rightarrow> ngap_message \<Rightarrow> esm_context \<Rightarrow> ran_net \<times> bool" where
  "EsmManager_Setup N info c = (if MAX_ESM_SESSIONS \<le> nm_sockSource info then (N, False)
     else (N\<lparr>nw_esm := (nw_esm N)(nm_sockSource info \<mapsto> c)\<rparr>, True))"

definition EsmManager_Update :: "ran_net \<Rightarrow> ngap_message \<Rightarrow> esm_context \<Rightarrow> ran_net \<times> bool" where
  "EsmManager_Update N info c =
     (if MAX_ESM_SESSIONS \<le> nm_sockSource info then (N, False)
      else if nw_esm N (nm_sockSource info) = None then (N, False)
      else if \<not> node_eq (nm_ranNodeId info) (ec_ranNodeId c) then (N, False)
      else (N\<lparr>nw_esm := (nw_esm N)(nm_sockSource info \<mapsto> c)\<rparr>, True))"

text \<open>The elements of the request are read into the context; the tracking areas are kept for later.\<close>

fun setup_req_ies :: "relay_env \<Rightarrow> ngap_ie list \<Rightarrow> esm_context \<Rightarrow> ta_item list option \<Rightarrow>
    (esm_context \<times> ta_item list option \<times> rni_check) option" where
  "setup_req_ies env [] c tas = Some (c, tas, NGAP_CHECK_RNI_OK)"
| "setup_req_ies env (ie # ies) c tas = (case ie of
     IE_PagingDRX n \<Rightarrow> setup_req_ies env ies (c\<lparr>ec_pagingDRX := n mod 256\<rparr>) tas
   | IE_RANNodeName s \<Rightarrow> setup_req_ies env ies (c\<lparr>ec_gnbName := s\<rparr>) tas
   | IE_SupportedTAList is \<Rightarrow> setup_req_ies env ies c (Some is)
   | IE_GlobalRANNodeID g \<Rightarrow> do {
       (c, cause) \<leftarrow> HandleGlobalRANNodeID env g c;
       if cause \<noteq> NGAP_CHECK_RNI_OK then Some (c, tas, cause) else setup_req_ies env ies c tas }
   | _ \<Rightarrow> setup_req_ies env ies c tas)"

fun tac_values :: "ta_item list \<Rightarrow> nat list option" where
  "tac_values [] = Some []"
| "tac_values (t # ts) = do {
     v \<leftarrow> id_bytes (ta_tac t) 3;
     vs \<leftarrow> tac_values ts;
     Some ((v ! 0 * 2 ^ 16 + v ! 1 * 2 ^ 8 + v ! 2) # vs) }"

definition GNB_SetupReq :: handler where
  "GNB_SetupReq env R info = do {
     let c = (new_EsmContext env)\<lparr>ec_sctp_index := nm_sockSource info, ec_idSigGW := nm_idSigGW info\<rparr>;
     (c, tas, cause) \<leftarrow> setup_req_ies env (nm_ies info) c None;
     if cause \<noteq> NGAP_CHECK_RNI_OK then Some (SendNgSetupFailure env R cause info, info, False)
     else (case tas of
         None \<Rightarrow> Some (SendNgSetupFailure env R NGAP_CHECK_RNI_UNKNOW_ERROR info, info, False)
       | Some is \<Rightarrow> do {
           tacs \<leftarrow> tac_values is;
           let c = c\<lparr>ec_tac := tacs\<rparr>;
           let info = info\<lparr>nm_ranNodeId := ec_ranNodeId c\<rparr>;
           let R = put_net R (fst (EsmManager_Setup (fst R) info c));
           Some (fst (SendNgSetupResponse env R info), info, True) }) }"

definition CheckRANinGW :: "ran_net \<Rightarrow> ngap_message \<Rightarrow> RanNodeId \<Rightarrow> ngap_message \<times> ran_gw_relation" where
  "CheckRANinGW N info ranid = (case first_esm N (\<lambda>c. node_eq ranid (ec_ranNodeId c)) [0..<MAX_ESM_SESSIONS] of
     None \<Rightarrow> (info, Ralation_RAN_Handover_NOT_IN_SAME_GW)
   | Some c \<Rightarrow> (info\<lparr>nm_gnbUeId := INVALIDE_ID, nm_ranNodeId := ec_ranNodeId c\<rparr>, Ralation_RAN_Handover_IN_SAME_GW))"

end
