(* ===== verification/Apm.thy ===== *)
theory Apm
  imports Sig_Links
begin

text \<open>
  The handlers of messages from an AMF (ApmManager.cc), without those that open tunnels. A handler runs
  over the elements for the identifiers of the user, translates them and sends the message to the radio
  node; some handlers do more.
\<close>

section \<open>Messages that are only relayed\<close>

definition AMF_UEContextModificationReq :: handler where
  "AMF_UEContextModificationReq env R info = amf_relay R info"

definition AMF_HandoverCommand :: handler where
  "AMF_HandoverCommand env R info = amf_relay R info"

definition AMF_HandoverPreparationFailure :: handler where
  "AMF_HandoverPreparationFailure env R info = amf_relay R info"

definition AMF_HandoverCancelAck :: handler where
  "AMF_HandoverCancelAck env R info = amf_relay R info"

definition AMF_DLRanStatusTsfer :: handler where
  "AMF_DLRanStatusTsfer env R info = amf_relay R info"

definition AMF_UERadioCapabilityCheckReq :: handler where
  "AMF_UERadioCapabilityCheckReq env R info = amf_relay R info"

definition AMF_PDUSessionResourceModifyConfirm :: handler where
  "AMF_PDUSessionResourceModifyConfirm env R info = amf_relay R info"

definition AMF_TraceStart :: handler where
  "AMF_TraceStart env R info = amf_relay R info"

definition AMF_DeActTrace :: handler where
  "AMF_DeActTrace env R info = amf_relay R info"

definition AMF_LocRepCtr :: handler where
  "AMF_LocRepCtr env R info = amf_relay R info"

definition AMF_UETNLABindingRelReq :: handler where
  "AMF_UETNLABindingRelReq env R info = amf_relay R info"

definition AMF_DLUEAsNRPPaTrspt :: handler where
  "AMF_DLUEAsNRPPaTrspt env R info = amf_relay R info"

definition AMF_RerouteNASReq :: handler where
  "AMF_RerouteNASReq env R info = amf_relay R info"

text \<open>The first container of the list is decoded, which changes nothing.\<close>

definition AMF_PDUSessionResourceModifyReq :: handler where
  "AMF_PDUSessionResourceModifyReq env R info = amf_relay R info"

definition AMF_ErrorIndication :: handler where
  "AMF_ErrorIndication env R info =
     (if last_ie ran_id (nm_ies info) = None \<or> last_ie amf_id (nm_ies info) = None then Some (R, info, False)
      else amf_relay R info)"

section \<open>Messages for a user that change the session\<close>

text \<open>When the translation fails, the identifier is printed without a test for \<open>NULL\<close>.\<close>

definition AMF_DownlinkNASTransport :: handler where
  "AMF_DownlinkNASTransport env R info = do {
     info \<leftarrow> read_nas info (nm_ies info);
     (R, info, ok) \<leftarrow> amf_convert R info;
     if \<not> ok then do { ensure (last_ie ran_id (nm_ies info) \<noteq> None); Some (R, info, False) }
     else do {
       let R = send_down R info;
       W \<leftarrow> stopNgapSessTimer (rgw R) (nm_sessId info);
       Some (put_rgw R W, info, True) } }"

fun release_list :: "ngap_ie \<Rightarrow> nat list option" where
  "release_list (IE_ReleaseListRelCmd rs) = Some rs" | "release_list _ = None"

fun release_each :: "sig_env \<Rightarrow> sig_side \<Rightarrow> nat \<Rightarrow> nat list \<Rightarrow> sig_side option" where
  "release_each env G n [] = Some G"
| "release_each env G n (r # rs) = do { (G, _) \<leftarrow> ReleasePduSess env G n (r mod 256); release_each env G n rs }"

definition AMF_PDUSessionResourceReleaseCmd :: handler where
  "AMF_PDUSessionResourceReleaseCmd env R info = do {
     (R, info, ok) \<leftarrow> amf_convert R info;
     if \<not> ok then Some (R, info, False)
     else do {
       G \<leftarrow> (case last_ie release_list (nm_ies info) of
           None \<Rightarrow> Some (snd R) | Some rs \<Rightarrow> release_each (re_sig env) (snd R) (nm_sessId info) rs);
       Some (send_down (put_side R G) info, info, True) } }"

text \<open>All PDU sessions of a user are released and the session is deleted.\<close>

definition release_user :: "relay_env \<Rightarrow> relay \<Rightarrow> ngap_message \<Rightarrow> relayed" where
  "release_user env R info = (case GetNgapSession (rgw R) (nm_sessId info) of
     None \<Rightarrow> Some (R, info, False)
   | Some p \<Rightarrow> do {
       s \<leftarrow> sg_ngaps (rgw R) p;
       G \<leftarrow> release_all (re_sig env) (snd R) (nm_sessId info) (ns_vecPduSessionID s);
       W \<leftarrow> DeleteNgapSession (gw G) (nm_sessId info);
       Some (put_side R (put_gw G W), info, True) })"

text \<open>
  The identifiers of a release command are in one element. A command that names only the AMF side of the
  user is answered with success and neither sent on nor carried out.
\<close>

fun pair_ran :: "ngap_ie \<Rightarrow> nat option" where
  "pair_ran (IE_UE_NGAP_IDs (UE_pair r a)) = Some r" | "pair_ran _ = None"

fun pair_amf :: "ngap_ie \<Rightarrow> nat option" where
  "pair_amf (IE_UE_NGAP_IDs (UE_pair r a)) = Some a"
| "pair_amf (IE_UE_NGAP_IDs (UE_amf a)) = Some a"
| "pair_amf _ = None"

fun put_pair_ran :: "nat \<Rightarrow> ngap_ie \<Rightarrow> ngap_ie" where
  "put_pair_ran n (IE_UE_NGAP_IDs (UE_pair r a)) = IE_UE_NGAP_IDs (UE_pair n a)" | "put_pair_ran n ie = ie"

fun put_pair_amf :: "nat \<Rightarrow> ngap_ie \<Rightarrow> ngap_ie" where
  "put_pair_amf n (IE_UE_NGAP_IDs (UE_pair r a)) = IE_UE_NGAP_IDs (UE_pair r n)"
| "put_pair_amf n (IE_UE_NGAP_IDs (UE_amf a)) = IE_UE_NGAP_IDs (UE_amf n)"
| "put_pair_amf n ie = ie"

definition put_pair :: "nat \<times> nat \<Rightarrow> ngap_message \<Rightarrow> ngap_message" where
  "put_pair ids info = info\<lparr>nm_ies :=
     upd_last_ie (\<lambda>ie. pair_ran ie \<noteq> None) (put_pair_ran (fst ids))
       (upd_last_ie (\<lambda>ie. pair_amf ie \<noteq> None) (put_pair_amf (snd ids)) (nm_ies info))\<rparr>"

definition AMF_UEContextReleaseCommand :: handler where
  "AMF_UEContextReleaseCommand env R info =
     (if IE_UE_NGAP_IDs UE_other \<in> set (nm_ies info) then Some (R, info, False)
      else if last_ie pair_ran (nm_ies info) = None then Some (R, info, True)
      else do {
        (R, info, ids) \<leftarrow> AMF_ConvertNgapId R info (last_ie pair_ran (nm_ies info)) (last_ie pair_amf (nm_ies info));
        case ids of
          None \<Rightarrow> Some (R, info, False)
        | Some ids \<Rightarrow> (let info = put_pair ids info in release_user env (send_down R info) info) })"

section \<open>Messages for all radio nodes\<close>

definition AMF_OverloadStart :: handler where
  "AMF_OverloadStart env R info = (let (R, info) = SendToAllRAN R info in Some (R, info, True))"

definition AMF_OverloadStop :: handler where
  "AMF_OverloadStop env R info = (let (R, info) = SendToAllRAN R info in Some (R, info, True))"

definition AMF_DLNonUEAsNRPPaTrspt :: handler where
  "AMF_DLNonUEAsNRPPaTrspt env R info = (let (R, info) = SendToAllRAN R info in Some (R, info, True))"

text \<open>A warning for an area is not sent at all.\<close>

definition to_all_unless_area :: "relay \<Rightarrow> ngap_message \<Rightarrow> relayed" where
  "to_all_unless_area R info = (if IE_WarningAreaList \<in> set (nm_ies info) then Some (R, info, True)
     else let (R, info) = SendToAllRAN R info in Some (R, info, True))"

definition AMF_WriteRepWarningReq :: handler where
  "AMF_WriteRepWarningReq env R info = to_all_unless_area R info"

definition AMF_PWSCancelReq :: handler where
  "AMF_PWSCancelReq env R info = to_all_unless_area R info"

text \<open>The tracking areas of a paging are only printed: no radio node is told.\<close>

fun paging_areas :: "ngap_ie \<Rightarrow> string list option" where
  "paging_areas (IE_TAIListForPaging ts) = Some ts" | "paging_areas _ = None"

definition AMF_Paging :: handler where
  "AMF_Paging env R info = (case last_ie paging_areas (nm_ies info) of
     None \<Rightarrow> Some (R, info, True)
   | Some ts \<Rightarrow> do { ensure (\<forall>t \<in> set ts. 3 \<le> length t); Some (R, info, True) })"

section \<open>Messages about the association\<close>

fun reset_of :: "ngap_ie \<Rightarrow> reset_type option" where
  "reset_of (IE_ResetType t) = Some t" | "reset_of _ = None"

definition AMF_Reset :: handler where
  "AMF_Reset env R info = do {
     t \<leftarrow> last_ie reset_of (nm_ies info);
     (R, info) \<leftarrow> (case t of
         Reset_nG_Interface \<Rightarrow> do {
           G \<leftarrow> DeleteAllAmfSession (re_sig env) (snd R) (nm_amfId info);
           Some (SendToAllRAN (put_side R G) info) }
       | Reset_partOfNG_Interface \<Rightarrow> Some (R, info));
     Some (AsmManager_SendResetAck env R info, info, True) }"

definition AMF_ResetAck :: handler where
  "AMF_ResetAck env R info = Some (R, info, True)"

text \<open>Stopping the timer is an empty function; the time to wait is computed and not used.\<close>

definition AMF_NgSetupResponse :: handler where
  "AMF_NgSetupResponse env R info =
     (if nm_amfId info = INVALIDE_ID then Some (R, info, False)
      else if nm_ProcCode info \<noteq> id_NGSetup then Some (R, info, True)
      else if nm_PDUChoice info = PDU_successfulOutcome then do {
        (R, _) \<leftarrow> handleNgSetupResponse R (nm_sockSource info) info;
        Some (R, info, True) }
      else do {
        (R, _) \<leftarrow> AsmManager_Clear env R (nm_amfId info);
        Some (R, info, False) })"

fun unavailable :: "ngap_ie \<Rightarrow> nat option" where
  "unavailable (IE_UnavailableGUAMIList n) = Some n" | "unavailable _ = None"

text \<open>The list is read without a test for its presence.\<close>

definition AMF_StatusInd :: handler where
  "AMF_StatusInd env R info = do { _ \<leftarrow> last_ie unavailable (nm_ies info); Some (R, info, True) }"

definition AMF_CfgUpdate :: handler where
  "AMF_CfgUpdate env R info = Some (SendCfgUpdAck env R info, info, True)"

end
