(* ===== verification/Epm.thy ===== *)
theory Epm
  imports Sig_Links Apm
begin

text \<open>
  The handlers of messages from a radio node (EpmManager.cc), without those that open tunnels, and the
  answers that the gateway gives itself while it moves a user between two of its radio nodes
  (EsmManager.cc).
\<close>

section \<open>Messages that are only relayed\<close>

definition GNB_PDUSessionModifyRsp :: handler where
  "GNB_PDUSessionModifyRsp env R info = gnb_relay env R info"

definition GNB_PDUSessionModifyInd :: handler where
  "GNB_PDUSessionModifyInd env R info = gnb_relay env R info"

definition GNB_PDUSessionReleaseRsp :: handler where
  "GNB_PDUSessionReleaseRsp env R info = gnb_relay env R info"

definition GNB_PDUSessionRsrNotify :: handler where
  "GNB_PDUSessionRsrNotify env R info = gnb_relay env R info"

definition GNB_UEContextModificationSuccessRsp :: handler where
  "GNB_UEContextModificationSuccessRsp env R info = gnb_relay env R info"

definition GNB_UEContextModificationFailureRsp :: handler where
  "GNB_UEContextModificationFailureRsp env R info = gnb_relay env R info"

definition GNB_UERadioCapInfoInd :: handler where
  "GNB_UERadioCapInfoInd env R info = gnb_relay env R info"

definition GNB_RRCInactTrstRpt :: handler where
  "GNB_RRCInactTrstRpt env R info = gnb_relay env R info"

definition GNB_LocationReport :: handler where
  "GNB_LocationReport env R info = gnb_relay env R info"

definition GNB_ErrorIndication :: handler where
  "GNB_ErrorIndication env R info =
     (if last_ie ran_id (nm_ies info) = None \<or> last_ie amf_id (nm_ies info) = None then Some (R, info, False)
      else gnb_relay env R info)"

definition GNB_UplinkNASTransport :: handler where
  "GNB_UplinkNASTransport env R info = do {
     info \<leftarrow> read_nas info (nm_ies info);
     (R, info, ok) \<leftarrow> gnb_relay env R info;
     ensure (ok \<or> last_ie ran_id (nm_ies info) \<noteq> None);
     Some (R, info, ok) }"

definition GNB_NASNonDeliveryIndication :: handler where
  "GNB_NASNonDeliveryIndication env R info = do {
     info \<leftarrow> read_nas info (nm_ies info);
     gnb_relay env R info }"

section \<open>Messages that change the session\<close>

text \<open>The first message of a user: a session is created for it, and its identifier is given to the AMF.\<close>

definition GNB_InitialUEMessage :: handler where
  "GNB_InitialUEMessage env R info =
     (if rn_id (nm_ranNodeId info) = 0xFFFFFFFF then Some (R, info, False)
      else do {
        info \<leftarrow> read_nas info (nm_ies info);
        rid \<leftarrow> last_ie ran_id (nm_ies info);
        amfId \<leftarrow> SelectAmf (fst R) (nm_idSigGW info);
        let info = info\<lparr>nm_gnbUeId := rid mod 2 ^ 32, nm_amfId := amfId\<rparr>;
        (W, p) \<leftarrow> NewNgapSession (rgw R) info;
        let R = put_rgw R W;
        case p of
          None \<Rightarrow> Some (R, info, False)
        | Some p \<Rightarrow> do {
            s \<leftarrow> sg_ngaps W p;
            sock \<leftarrow> GetTargetSock (fst R) (ns_amfId s);
            let info = info\<lparr>nm_sessId := ns_sessId s, nm_amfId := ns_amfId s, nm_sockTarget := sock,
              nm_ies := set_ran_id (ns_sessId s) (nm_ies info)\<rparr>;
            Some (send_up R info, info, True) } })"

fun fail_each :: "sig_env \<Rightarrow> sig_side \<Rightarrow> ngap_message \<Rightarrow> nat list \<Rightarrow> sig_side option" where
  "fail_each env G info [] = Some G"
| "fail_each env G info (r # rs) =
     (if r = INVALID_PDU_SESSION_ID then fail_each env G info rs
      else do { (G, _) \<leftarrow> processSessSetupfail env G info r; fail_each env G info rs })"

definition GNB_InitialContextSetupFailureRsp :: handler where
  "GNB_InitialContextSetupFailureRsp env R info = do {
     (info, ok) \<leftarrow> gnb_convert env R info;
     if \<not> ok then Some (R, info, False)
     else do {
       G \<leftarrow> (case GetNgapSession (rgw R) (nm_sessId info) of
           None \<Rightarrow> Some (snd R)
         | Some p \<Rightarrow> do { s \<leftarrow> sg_ngaps (rgw R) p; fail_each (re_sig env) (snd R) info (ns_vecPduSessionID s) });
       Some (send_up (put_side R G) info, info, True) } }"

definition GNB_UEContextReleaseReq :: handler where
  "GNB_UEContextReleaseReq env R info = do {
     (info, ok) \<leftarrow> gnb_convert env R info;
     if \<not> ok then Some (R, info, False) else release_user env (send_up R info) info }"

definition GNB_Reset :: handler where
  "GNB_Reset env R info = do {
     t \<leftarrow> last_ie reset_of (nm_ies info);
     G \<leftarrow> (case t of
         Reset_nG_Interface \<Rightarrow> DeleteAllGnbSession (re_sig env) (snd R) (nm_ranNodeId info)
       | Reset_partOfNG_Interface \<Rightarrow> Some (snd R));
     let (R, info) = EsmManager_SendResetAck env (put_side R G) info;
     Some (R, info, True) }"

definition GNB_ResetAck :: handler where
  "GNB_ResetAck env R info = Some (R, info, True)"

definition GNB_AMFStatusIndication :: handler where
  "GNB_AMFStatusIndication env R info = Some (R, info, True)"

definition GNB_RANConfigurationUpdate :: handler where
  "GNB_RANConfigurationUpdate env R info = Some (send_down R (built PDU_successfulOutcome id_RANConfigurationUpdate []
     ((gnb_msg env info)\<lparr>nm_ranNodeId := nm_ranNodeId info\<rparr>)), info, True)"

section \<open>A user that moves between radio nodes of the gateway\<close>

text \<open>The messages of a handover are built with the identifiers of the message that is handled.\<close>

definition ho_msg :: "relay_env \<Rightarrow> ngap_message \<Rightarrow> ngap_message" where
  "ho_msg env info = (new_NgapMessage (re_junk env))\<lparr>nm_amfUeId := nm_amfUeId info, nm_sessId := nm_sessId info,
     nm_gnbUeId := nm_gnbUeId info, nm_amfId := nm_amfId info, nm_ranNodeId := nm_ranNodeId info,
     nm_sockTarget := nm_sockTarget info\<rparr>"

definition SendUCRelCommand :: "relay_env \<Rightarrow> relay \<Rightarrow> ngap_message \<Rightarrow> relay" where
  "SendUCRelCommand env R info = send_down R (built PDU_initiatingMessage id_UEContextRelease
     [IE_UE_NGAP_IDs (UE_pair (nm_gnbUeId info) (nm_sessId info)), IE_Cause Cause_successful_handover]
     ((ho_msg env info)\<lparr>nm_amfUeId := nm_sessId info\<rparr>))"

definition SendHOPrepareFailure :: "relay_env \<Rightarrow> relay \<Rightarrow> ngap_message \<Rightarrow> cause option \<Rightarrow> relay" where
  "SendHOPrepareFailure env R info ptCause = send_down R (built PDU_unsuccessfulOutcome id_HandoverPreparation
     [IE_AMF_UE_NGAP_ID (nm_amfUeId info), IE_RAN_UE_NGAP_ID (nm_gnbUeId info),
      IE_Cause (case ptCause of None \<Rightarrow> Cause_unspecified | Some c \<Rightarrow> c)] (ho_msg env info))"

definition SendHandoverCancelAck :: "relay_env \<Rightarrow> relay \<Rightarrow> ngap_message \<Rightarrow> relay" where
  "SendHandoverCancelAck env R info = send_down R (built PDU_successfulOutcome id_HandoverCancel
     [IE_AMF_UE_NGAP_ID (nm_sessId info), IE_RAN_UE_NGAP_ID (nm_gnbUeId info)] (ho_msg env info))"

text \<open>The session of an uplink message, by the identifier the gateway had given to the radio node.\<close>

definition sess_of_amf_id :: "relay_env \<Rightarrow> ngap_message \<Rightarrow> ngap_message" where
  "sess_of_amf_id env info = info\<lparr>nm_sessId :=
     (case last_ie amf_id (nm_ies info) of None \<Rightarrow> re_junk env | Some n \<Rightarrow> n) mod 2 ^ 32\<rparr>"

definition in_same_gw :: "ngap_session \<Rightarrow> bool" where
  "in_same_gw s \<longleftrightarrow> ns_eHandoverflag s = Ralation_RAN_Handover_IN_SAME_GW"

definition GNB_UEContextReleaseComplete :: handler where
  "GNB_UEContextReleaseComplete env R info = (let info = sess_of_amf_id env info in
     case GetNgapSession (rgw R) (nm_sessId info) of
       None \<Rightarrow> Some (R, info, False)
     | Some p \<Rightarrow> do {
         s \<leftarrow> sg_ngaps (rgw R) p;
         if in_same_gw s \<and> ns_eHOState s = HO_State_SendRelCommandWaitRelComplete
         then do { W \<leftarrow> upd_ngap (rgw R) p ResetHandoverInfo; Some (put_rgw R W, info, True) }
         else gnb_relay env R info })"

fun reset_targets :: "sig_gw \<Rightarrow> nat \<Rightarrow> nat list \<Rightarrow> sig_gw option" where
  "reset_targets W n [] = Some W"
| "reset_targets W n (r # rs) =
     (if r = INVALID_PDU_SESSION_ID then reset_targets W n rs
      else do { (W, _) \<leftarrow> resetHoTargetGnbAddr W n r; reset_targets W n rs })"

fun finish_each :: "sig_env \<Rightarrow> sig_side \<Rightarrow> nat \<Rightarrow> nat list \<Rightarrow> sig_side option" where
  "finish_each env G n [] = Some G"
| "finish_each env G n (r # rs) =
     (if r = INVALID_PDU_SESSION_ID then finish_each env G n rs
      else do { (G, _) \<leftarrow> finishHo env G n r; finish_each env G n rs })"

fun cause_of :: "ngap_ie \<Rightarrow> cause option" where
  "cause_of (IE_Cause c) = Some c" | "cause_of _ = None"

text \<open>A failure names no identifier of the radio node, so only that of the AMF is replaced.\<close>

definition GNB_HandoverFailure :: handler where
  "GNB_HandoverFailure env R info = (let info = sess_of_amf_id env info in
     case GetNgapSession (rgw R) (nm_sessId info) of
       None \<Rightarrow> Some (R, info, False)
     | Some p \<Rightarrow> do {
         s \<leftarrow> sg_ngaps (rgw R) p;
         case GetEsmContext (fst R) (ns_gnb_sctp_index s) of
           None \<Rightarrow> Some (R, info, False)
         | Some esm \<Rightarrow>
             if in_same_gw s then do {
               let info = info\<lparr>nm_amfUeId := ns_sessId s, nm_gnbUeId := ns_gnbUeId s, nm_ranNodeId := ns_gnbId s,
                 nm_sockTarget := ec_sctp_index esm\<rparr>;
               W \<leftarrow> upd_ngap (rgw R) p ResetHandoverInfo;
               W \<leftarrow> reset_targets W (nm_sessId info) (ns_vecPduSessionID s);
               Some (SendHOPrepareFailure env (put_rgw R W) info (last_ie cause_of (nm_ies info)), info, True) }
             else do {
               (info, ids) \<leftarrow> GNB_ConvertNgapId env R info (Some 0) (last_ie amf_id (nm_ies info));
               case ids of
                 None \<Rightarrow> Some (R, info, False)
               | Some ids \<Rightarrow> (let info = info\<lparr>nm_ies := set_amf_id (snd ids) (nm_ies info)\<rparr> in
                   Some (send_up R info, info, True)) } })"

text \<open>
  The radio node that the user has reached. The session is moved to it, the media gateways are told, and the
  node that the user has left is asked to release the user.
\<close>

definition GNB_HandoverNotify :: handler where
  "GNB_HandoverNotify env R info = (let info = sess_of_amf_id env info in
     case GetNgapSession (rgw R) (nm_sessId info) of
       None \<Rightarrow> Some (R, info, False)
     | Some p \<Rightarrow> do {
         s \<leftarrow> sg_ngaps (rgw R) p;
         case GetEsmContext (fst R) (ns_gnb_sctp_index s) of
           None \<Rightarrow> Some (R, info, False)
         | Some esm \<Rightarrow>
             if in_same_gw s then do {
               W \<leftarrow> upd_ngap (rgw R) p (\<lambda>s. s\<lparr>ns_gnbId := ns_TgtGnbId s, ns_gnbUeId := ns_TgtGnbUeId s,
                 ns_gnb_sctp_index := nm_sockTarget info\<rparr>);
               let info = info\<lparr>nm_sessId := ns_sessId s, nm_amfUeId := ns_amfUeId s, nm_gnbUeId := ns_gnbUeId s,
                 nm_ranNodeId := ns_gnbId s, nm_sockTarget := ec_sctp_index esm\<rparr>;
               G \<leftarrow> finish_each (re_sig env) (put_gw (snd R) W) (ns_sessId s) (ns_vecPduSessionID s);
               let R = SendUCRelCommand env (put_side R G) info;
               W \<leftarrow> upd_ngap (rgw R) p (\<lambda>s. s\<lparr>ns_eHOState := HO_State_SendRelCommandWaitRelComplete\<rparr>);
               Some (put_rgw R W, info, True) }
             else gnb_relay env R info })"

definition GNB_HandoverCancel :: handler where
  "GNB_HandoverCancel env R info = do {
     rid \<leftarrow> last_ie ran_id (nm_ies info);
     let info = (sess_of_amf_id env info)\<lparr>nm_gnbUeId := rid mod 2 ^ 32\<rparr>;
     case GetNgapSession (rgw R) (nm_sessId info) of
       None \<Rightarrow> Some (R, info, False)
     | Some p \<Rightarrow> do {
         s \<leftarrow> sg_ngaps (rgw R) p;
         if in_same_gw s then do {
           W \<leftarrow> upd_ngap (rgw R) p ResetHandoverInfo;
           let info = info\<lparr>nm_sockTarget := nm_sockSource info\<rparr>;
           W \<leftarrow> reset_targets W (nm_sessId info) (ns_vecPduSessionID s);
           Some (SendHandoverCancelAck env (put_rgw R W) info, info, True) }
         else gnb_relay env R info } }"

end
