(* ===== verification/Tunnels.thy ===== *)
theory Tunnels
  imports Sig_Links
begin

text \<open>
  The handlers that open tunnels (ApmManager.cc, EpmManager.cc). A request or an answer carries, for
  every PDU session of a list, a container with an end of a tunnel. The end is taken out and handed to the
  media gateway; when that has answered, the saved message is completed with the end of the media gateway
  (the functions \<open>...ByMedia\<close>) and sent on.

  Memory that was released is told apart from \<open>NULL\<close>, because the pointers into a container outlive it.
\<close>

section \<open>Pointers into a container\<close>

datatype 'a ref = Null | Live 'a | Freed

fun free_ref :: "'a ref \<Rightarrow> 'a ref" where
  "free_ref Null = Null" | "free_ref _ = Freed"

fun deref :: "'a ref \<Rightarrow> 'a option option" where
  "deref Null = Some None" | "deref (Live x) = Some (Some x)" | "deref Freed = None"

record req_ptrs =
  rp_rate :: "(nat \<times> nat) ref"
  rp_type :: "pdu_type ref"
  rp_qos :: "qos_flow list ref"
  rp_tnl :: "tnl_information ref"

definition no_ptrs :: req_ptrs where
  "no_ptrs = \<lparr>rp_rate = Null, rp_type = Null, rp_qos = Null, rp_tnl = Null\<rparr>"

fun scan_ie :: "req_ptrs \<Rightarrow> setup_ie \<Rightarrow> req_ptrs" where
  "scan_ie P (TI_PDUSessionAggregateMaximumBitRate dl ul) = P\<lparr>rp_rate := Live (dl, ul)\<rparr>"
| "scan_ie P (TI_PDUSessionType t) = P\<lparr>rp_type := Live t\<rparr>"
| "scan_ie P (TI_QosFlowSetupRequestList qs) = P\<lparr>rp_qos := Live qs\<rparr>"
| "scan_ie P (TI_UL_NGU_UP_TNLInformation t) = P\<lparr>rp_tnl := Live t\<rparr>"
| "scan_ie P (TI_other _ _) = P"

definition free_ptrs :: "req_ptrs \<Rightarrow> req_ptrs" where
  "free_ptrs P = \<lparr>rp_rate = free_ref (rp_rate P), rp_type = free_ref (rp_type P), rp_qos = free_ref (rp_qos P),
     rp_tnl = free_ref (rp_tnl P)\<rparr>"

section \<open>Ends of tunnels\<close>

definition teid_value :: "string option \<Rightarrow> nat option" where
  "teid_value b = do {
     b \<leftarrow> b;
     v \<leftarrow> id_bytes b 4;
     Some (v ! 0 * 2 ^ 24 + v ! 1 * 2 ^ 16 + v ! 2 * 2 ^ 8 + v ! 3) }"

text \<open>
  The variables that the end is read into live as long as the handler, so an address of the item before is
  kept when the new one has another family. The downlink handler of a setup uses the identifier over IPv6
  too (\<open>both\<close>).
\<close>

definition read_tunnel :: "bool \<Rightarrow> gtp_tunnel \<Rightarrow> transport \<Rightarrow> transport option" where
  "read_tunnel both g t = do {
     teid \<leftarrow> teid_value (gt_teid g);
     let t = (if both then t\<lparr>tr_teid := teid, tr_teid6 := teid\<rparr> else t\<lparr>tr_teid := teid\<rparr>);
     let a = gt_addr g;
     Some (if length a = 4 then t\<lparr>tr_addr := set_sin (tr_addr t) None (Some a), tr_addrlen := SIN_LEN\<rparr>
       else if length a = 16 then t\<lparr>tr_addr6 := set_sin6 (tr_addr6 t) None (Some a), tr_addrlen6 := SIN6_LEN\<rparr>
       else if length a = 20 then t\<lparr>tr_addr := set_sin (tr_addr t) None (Some (take 4 a)), tr_addrlen := SIN_LEN,
         tr_addr6 := set_sin6 (tr_addr6 t) None (Some (drop 4 a)), tr_addrlen6 := SIN6_LEN\<rparr>
       else t) }"

definition new_transport :: "relay_env \<Rightarrow> transport" where
  "new_transport env = (let b = se_stack (re_sig env) in
     \<lparr>tr_teid = 0, tr_addrlen = 0, tr_addr = b, tr_teid6 = 0, tr_addrlen6 = 0, tr_addr6 = b\<rparr>)"

text \<open>
  An end is replaced in place. The old address is freed first; where no new one is stored (\<open>check\<close>: the
  family is compared, or a length that is not known) the container is left with freed memory, which is
  then read.
\<close>

definition write_tunnel :: "bool \<Rightarrow> nat \<Rightarrow> string \<Rightarrow> string \<Rightarrow> gtp_tunnel \<Rightarrow> gtp_tunnel option" where
  "write_tunnel check teid addr addr6 g = do {
     b \<leftarrow> (case gt_teid g of
         None \<Rightarrow> Some (be_bytes 4 teid)
       | Some b \<Rightarrow> if length b < 4 then None else Some (be_bytes 4 teid @ drop 4 b));
     let n = length (gt_addr g);
     a \<leftarrow> (if n = 4 then (if check \<and> ss_family addr \<noteq> AF_INET then None else Some (sin_addr addr))
       else if n = 16 then (if check \<and> ss_family addr6 \<noteq> AF_INET6 then None else Some (sin6_addr addr6))
       else if n = 20 then Some (sin_addr addr @ sin6_addr addr6)
       else None);
     Some \<lparr>gt_teid = Some b, gt_addr = a\<rparr> }"

text \<open>The encoder writes into a buffer of \<open>cap\<close> bytes and is not told so; a last byte that is not full is dropped.\<close>

definition reencode :: "'a codec \<Rightarrow> nat \<Rightarrow> 'a \<Rightarrow> string option" where
  "reencode c cap x = (case cd_enc c x of
     None \<Rightarrow> Some []
   | Some e \<Rightarrow> if cap < length (fst e) then None else Some (take (snd e div 8) (fst e)))"

section \<open>What a request says about a session\<close>

definition or_sd :: "nat \<Rightarrow> string \<Rightarrow> nat option" where
  "or_sd sd b = map_option (\<lambda>v. Bit_Operations.or sd (v ! 0 * 2 ^ 16 + v ! 1 * 2 ^ 8 + v ! 2)) (id_bytes b 3)"

definition qos_step :: "pdu_resource \<Rightarrow> qos_flow \<Rightarrow> pdu_resource" where
  "qos_step r q = (let r = r\<lparr>pr_qos_flow_id := qf_identifier q\<rparr>;
     r = (case qf_nonDynamic q of
         None \<Rightarrow> r
       | Some d \<Rightarrow> (case d of
             None \<Rightarrow> r
           | Some (fiveQI, prio) \<Rightarrow> (case prio of None \<Rightarrow> r\<lparr>pr_fiveQI := fiveQI\<rparr>
               | Some n \<Rightarrow> r\<lparr>pr_fiveQI := fiveQI, pr_priorityLevelQos := n\<rparr>))\<lparr>pr_dynamic := False\<rparr>) in
     r\<lparr>pr_priorityLevelARP := qf_priorityLevelARP q, pr_pre_emptionCapability := qf_pre_emptionCapability q,
       pr_pre_emptionVulnerability := qf_pre_emptionVulnerability q\<rparr>)"

definition put_rate :: "req_ptrs \<Rightarrow> pdu_resource \<Rightarrow> pdu_resource option" where
  "put_rate P r = do {
     x \<leftarrow> deref (rp_rate P);
     Some (case x of None \<Rightarrow> r | Some (dl, ul) \<Rightarrow> r\<lparr>pr_maxbitrate_dl := dl, pr_maxbitrate_ul := ul\<rparr>) }"

text \<open>The first quality of service flow, or each of them in turn.\<close>

definition put_qos :: "bool \<Rightarrow> req_ptrs \<Rightarrow> pdu_resource \<Rightarrow> pdu_resource option" where
  "put_qos only_first P r = do {
     x \<leftarrow> deref (rp_qos P);
     Some (case x of None \<Rightarrow> r | Some qs \<Rightarrow> fold (\<lambda>q r. qos_step r q) (if only_first then take 1 qs else qs) r) }"

fun put_first_free :: "nat \<Rightarrow> nat list \<Rightarrow> nat list" where
  "put_first_free r [] = []"
| "put_first_free r (v # vs) = (if v = INVALID_PDU_SESSION_ID then r # vs else v # put_first_free r vs)"

definition keep_pdu_id :: "sig_gw \<Rightarrow> ptr \<Rightarrow> nat \<Rightarrow> sig_gw option" where
  "keep_pdu_id W p r = upd_ngap W p (\<lambda>s. s\<lparr>ns_vecPduSessionID := put_first_free r (ns_vecPduSessionID s)\<rparr>)"

section \<open>Requests\<close>

text \<open>What a handler keeps while it runs over the items of a request.\<close>

record req_loop =
  lp_relay :: relay
  lp_info :: ngap_message
  lp_res :: pdu_resource
  lp_ptrs :: req_ptrs
  lp_tr :: transport
  lp_media :: bool
  lp_decoded :: bool

fun each_item :: "('s \<Rightarrow> pdu_item \<Rightarrow> 's option) \<Rightarrow> 's \<Rightarrow> pdu_item list \<Rightarrow> 's option" where
  "each_item step L [] = Some L"
| "each_item step L (it # its) = do { L \<leftarrow> step L it; each_item step L its }"

definition start_req :: "relay_env \<Rightarrow> relay \<Rightarrow> ngap_message \<Rightarrow> req_loop" where
  "start_req env R info = \<lparr>lp_relay = R, lp_info = info, lp_res = zero_resource, lp_ptrs = no_ptrs,
     lp_tr = new_transport env, lp_media = False, lp_decoded = False\<rparr>"

text \<open>The counters of a session, in 8 bits.\<close>

definition start_count :: "sig_gw \<Rightarrow> ptr \<Rightarrow> nat \<Rightarrow> sig_gw option" where
  "start_count W p n = upd_ngap W p (\<lambda>s. s\<lparr>ns_pdu_resource_count := n mod 256, ns_pdu_sess_rsp_count := 0\<rparr>)"

text \<open>
  A setup for a session that is known updates it. \<open>lp_media\<close> is not reset between the items, so once a
  session was started, one that is not known is not set up.
\<close>

definition su_tunnel :: "relay_env \<Rightarrow> ptr \<Rightarrow> req_loop \<Rightarrow> nat \<Rightarrow> gtp_tunnel \<Rightarrow> req_loop option" where
  "su_tunnel env p L r g = do {
     t \<leftarrow> read_tunnel True g (lp_tr L);
     let R = lp_relay L;
     let info = lp_info L;
     (R, info, m) \<leftarrow> (if hasPduSession (rgw R) (nm_sessId info) r then do {
         (G, info, m) \<leftarrow> processSessUpdateUpf (re_sig env) (snd R) info r t;
         Some (put_side R G, info, m) }
       else Some (R, info, lp_media L));
     (R, info, m) \<leftarrow> (if m then Some (R, info, m) else do {
         W \<leftarrow> keep_pdu_id (rgw R) p r;
         (G, info, m) \<leftarrow> processSessSetupReq (re_sig env) (put_gw (snd R) W) info r t;
         Some (put_side R G, info, m) });
     Some (L\<lparr>lp_relay := R, lp_info := info, lp_tr := t, lp_media := m\<rparr>) }"

definition store_resource :: "req_loop \<Rightarrow> nat \<Rightarrow> pdu_resource \<Rightarrow> req_loop option" where
  "store_resource L r res = do {
     (W, _) \<leftarrow> UpdatePduSessResource (rgw (lp_relay L)) (nm_sessId (lp_info L)) r res;
     Some (L\<lparr>lp_relay := put_rgw (lp_relay L) W, lp_res := res, lp_ptrs := free_ptrs (lp_ptrs L), lp_decoded := True\<rparr>) }"

definition su_step :: "relay_env \<Rightarrow> ptr \<Rightarrow> req_loop \<Rightarrow> pdu_item \<Rightarrow> req_loop option" where
  "su_step env p L it = (let r = pi_id it mod 256 in
     case cd_dec (re_setup_req env) (pi_transfer it) of
       None \<Rightarrow> if lp_decoded L then None else Some L
     | Some ies \<Rightarrow> do {
         let P = foldl scan_ie (lp_ptrs L) ies;
         tnl \<leftarrow> deref (rp_tnl P);
         L \<leftarrow> (case tnl of Some (TNL_gTPTunnel g) \<Rightarrow> su_tunnel env p L r g | _ \<Rightarrow> Some L);
         let res = lp_res L\<lparr>pr_pdu_session_id := pi_id it mod 2 ^ 32\<rparr>;
         sd \<leftarrow> (case pi_sd it of None \<Rightarrow> Some (pr_sd res) | Some b \<Rightarrow> if b = [] then Some (pr_sd res) else or_sd (pr_sd res) b);
         let res = res\<lparr>pr_sd := sd,
           pr_sst := (case pi_sst it of Some (c # _) \<Rightarrow> char_byte c | _ \<Rightarrow> pr_sst res)\<rparr>;
         res \<leftarrow> put_rate P res;
         res \<leftarrow> put_qos True P res;
         store_resource (L\<lparr>lp_ptrs := P\<rparr>) r res })"

definition AMF_PDUResourceSetupReq_UpdatePduSess :: "relay_env \<Rightarrow> relay \<Rightarrow> ngap_message \<Rightarrow> pdu_item list option \<Rightarrow> relayed" where
  "AMF_PDUResourceSetupReq_UpdatePduSess env R info items = (case GetNgapSession (rgw R) (nm_sessId info) of
     None \<Rightarrow> Some (R, info, False)
   | Some p \<Rightarrow> (case items of
         None \<Rightarrow> Some (R, info, False)
       | Some its \<Rightarrow> do {
           W \<leftarrow> start_count (rgw R) p (length its);
           L \<leftarrow> each_item (su_step env p) (start_req env (put_rgw R W) info) its;
           Some (lp_relay L, lp_info L, lp_media L) }))"

fun su_req :: "ngap_ie \<Rightarrow> pdu_item list option" where
  "su_req (IE_SetupListSUReq is) = Some is" | "su_req _ = None"

fun cxt_req :: "ngap_ie \<Rightarrow> pdu_item list option" where
  "cxt_req (IE_SetupListCxtReq is) = Some is" | "cxt_req _ = None"

fun rate_of :: "ngap_ie \<Rightarrow> (nat \<times> nat) option" where
  "rate_of (IE_UEAggregateMaximumBitRate ul dl) = Some (ul, dl)" | "rate_of _ = None"

definition put_user_rate :: "(nat \<times> nat) option \<Rightarrow> ngap_session \<Rightarrow> ngap_session" where
  "put_user_rate rate s = (case rate of None \<Rightarrow> s | Some (ul, dl) \<Rightarrow> s\<lparr>ns_maxBitrateUl := ul, ns_maxBitrateDl := dl\<rparr>)"

definition AMF_PDUSessionResourceSetupReq :: handler where
  "AMF_PDUSessionResourceSetupReq env R info = do {
     (R, info, ok) \<leftarrow> amf_convert R info;
     if \<not> ok then Some (R, info, False)
     else do {
       p \<leftarrow> GetNgapSession (rgw R) (nm_sessId info);
       W \<leftarrow> upd_ngap (rgw R) p (put_user_rate (last_ie rate_of (nm_ies info)));
       (R, info, media) \<leftarrow> AMF_PDUResourceSetupReq_UpdatePduSess env (put_rgw R W) info (last_ie su_req (nm_ies info));
       Some (if media then R else send_down R info, info, True) } }"

text \<open>Every other request with tunnels wants the type of the session and stores every item.\<close>

definition cxt_step :: "relay_env \<Rightarrow> ptr \<Rightarrow> req_loop \<Rightarrow> pdu_item \<Rightarrow> req_loop option" where
  "cxt_step env p L it = (let r = pi_id it mod 256 in
     case cd_dec (re_setup_req env) (pi_transfer it) of
       None \<Rightarrow> if lp_decoded L then None else Some L
     | Some ies \<Rightarrow> do {
         let P = foldl scan_ie (lp_ptrs L) ies;
         tnl \<leftarrow> (if rp_type P = Null then Some None else deref (rp_tnl P));
         L \<leftarrow> (case tnl of
             Some (TNL_gTPTunnel g) \<Rightarrow> do {
               t \<leftarrow> read_tunnel False g (lp_tr L);
               (G, info, m) \<leftarrow> processSessSetupReq (re_sig env) (snd (lp_relay L)) (lp_info L) r t;
               Some (L\<lparr>lp_relay := put_side (lp_relay L) G, lp_info := info, lp_tr := t, lp_media := m\<rparr>) }
           | _ \<Rightarrow> Some L);
         W \<leftarrow> keep_pdu_id (rgw (lp_relay L)) p r;
         let L = L\<lparr>lp_relay := put_rgw (lp_relay L) W\<rparr>;
         let res = lp_res L\<lparr>pr_pdu_session_id := r\<rparr>;
         sd \<leftarrow> (case pi_sd it of None \<Rightarrow> Some (pr_sd res) | Some b \<Rightarrow> or_sd (pr_sd res) b);
         sst \<leftarrow> do { b \<leftarrow> pi_sst it; id_bytes b 1 };
         res \<leftarrow> put_rate P (res\<lparr>pr_sd := sd, pr_sst := hd sst\<rparr>);
         res \<leftarrow> put_qos False P res;
         store_resource (L\<lparr>lp_ptrs := P\<rparr>) r res })"

definition update_pdus :: "relay_env \<Rightarrow> relay \<Rightarrow> ngap_message \<Rightarrow> pdu_item list option \<Rightarrow> relayed" where
  "update_pdus env R info items = (case GetNgapSession (rgw R) (nm_sessId info) of
     None \<Rightarrow> Some (R, info, False)
   | Some p \<Rightarrow> (case items of
         None \<Rightarrow> Some (R, info, False)
       | Some its \<Rightarrow> do {
           W \<leftarrow> start_count (rgw R) p (length its);
           L \<leftarrow> each_item (cxt_step env p) (start_req env (put_rgw R W) info) its;
           Some (lp_relay L, lp_info L, lp_media L) }))"

definition AMF_InitialContextSetupReq_UpdatePduSess :: "relay_env \<Rightarrow> relay \<Rightarrow> ngap_message \<Rightarrow> pdu_item list option \<Rightarrow> relayed" where
  "AMF_InitialContextSetupReq_UpdatePduSess env R info items = update_pdus env R info items"

section \<open>What a request says about the user\<close>

fun nssai_of :: "ngap_ie \<Rightarrow> (string \<times> string option) list option" where
  "nssai_of (IE_AllowedNSSAI is) = Some is" | "nssai_of _ = None"

fun guami_of :: "ngap_ie \<Rightarrow> (string \<times> string \<times> string \<times> string) option" where
  "guami_of (IE_GUAMI p r s t) = Some (p, r, s, t)" | "guami_of _ = None"

fun algorithms_of :: "ngap_ie \<Rightarrow> (string \<times> string \<times> string \<times> string) option" where
  "algorithms_of (IE_UESecurityCapabilities a b c d) = Some (a, b, c, d)" | "algorithms_of _ = None"

fun key_of :: "ngap_ie \<Rightarrow> string option" where
  "key_of (IE_SecurityKey k) = Some k" | "key_of _ = None"

text \<open>Only the first slice is stored; its differentiator is added to what was stored before.\<close>

definition put_nssai :: "(string \<times> string option) list option \<Rightarrow> ngap_session \<Rightarrow> ngap_session option" where
  "put_nssai x s = (case x of
     Some ((sst, sd) # _) \<Rightarrow> do {
       sd \<leftarrow> (case sd of None \<Rightarrow> Some (ns_allowedSNnsaiSD s) | Some b \<Rightarrow> or_sd (ns_allowedSNnsaiSD s) b);
       v \<leftarrow> id_bytes sst 1;
       Some (s\<lparr>ns_allowedSNnsaiSD := sd, ns_allowedSNnsaiSST := hd v\<rparr>) }
   | _ \<Rightarrow> Some s)"

text \<open>The pointer of an AMF is the upper six bits of its byte; the lower six are kept.\<close>

definition put_guami :: "(string \<times> string \<times> string \<times> string) option \<Rightarrow> ngap_session \<Rightarrow> ngap_session option" where
  "put_guami x s = (case x of
     None \<Rightarrow> Some s
   | Some (plmn, region, set_id, pointer) \<Rightarrow> do {
       r \<leftarrow> id_bytes region 1;
       i \<leftarrow> id_bytes set_id 2;
       q \<leftarrow> id_bytes pointer 1;
       ensure (PLMN_ID_LEN \<le> length plmn);
       Some (s\<lparr>ns_guami := \<lparr>gu_AMFRegionID = hd r, gu_AMFSetId = i ! 0 * 2 ^ 8 + i ! 1, gu_AMFPointer = hd q mod 2 ^ 6,
         gu_plmn = take PLMN_ID_LEN plmn\<rparr>\<rparr>) })"

definition be16 :: "string \<Rightarrow> nat option" where
  "be16 b = map_option (\<lambda>v. v ! 0 * 2 ^ 8 + v ! 1) (id_bytes b 2)"

definition put_algorithms :: "(string \<times> string \<times> string \<times> string) option \<Rightarrow> ngap_session \<Rightarrow> ngap_session option" where
  "put_algorithms x s = (case x of
     None \<Rightarrow> Some s
   | Some (a, b, c, d) \<Rightarrow> do {
       a \<leftarrow> be16 a; b \<leftarrow> be16 b; c \<leftarrow> be16 c; d \<leftarrow> be16 d;
       Some (s\<lparr>ns_nRencryptionAlgorithms := a, ns_nRintegrityProtectionAlgorithms := b, ns_eUTRAencryptionAlgorithms := c,
         ns_eUTRAintegrityProtectionAlgorithms := d\<rparr>) })"

text \<open>A key is copied with its own length into an array of 32 bytes.\<close>

definition put_key :: "string option \<Rightarrow> ngap_session \<Rightarrow> ngap_session option" where
  "put_key x s = (case x of
     None \<Rightarrow> Some s
   | Some k \<Rightarrow> do {
       ensure (length k \<le> MAX_SECURITY_CONTEXT_LEN);
       Some (s\<lparr>ns_securityContext := overwrite (ns_securityContext s) (length k) k\<rparr>) })"

definition set_sess :: "sig_gw \<Rightarrow> ptr \<Rightarrow> (ngap_session \<Rightarrow> ngap_session option) \<Rightarrow> sig_gw option" where
  "set_sess W p f = do { s \<leftarrow> sg_ngaps W p; s \<leftarrow> f s; Some (W\<lparr>sg_ngaps := (sg_ngaps W)(p \<mapsto> s)\<rparr>) }"

definition update_user :: "ngap_ie list \<Rightarrow> ngap_session \<Rightarrow> ngap_session option" where
  "update_user ies s = do {
     s \<leftarrow> put_nssai (last_ie nssai_of ies) (put_user_rate (last_ie rate_of ies) s);
     s \<leftarrow> put_guami (last_ie guami_of ies) s;
     put_algorithms (last_ie algorithms_of ies) s }"

definition AMF_InitialContextSetupReq_UpdateNgapSess :: "relay \<Rightarrow> ngap_message \<Rightarrow> (relay \<times> bool) option" where
  "AMF_InitialContextSetupReq_UpdateNgapSess R info = (case GetNgapSession (rgw R) (nm_sessId info) of
     None \<Rightarrow> Some (R, False)
   | Some p \<Rightarrow> do {
       W \<leftarrow> set_sess (rgw R) p (\<lambda>s. do { s \<leftarrow> update_user (nm_ies info) s; put_key (last_ie key_of (nm_ies info)) s });
       Some (put_rgw R W, True) })"

definition AMF_InitialContextSetupReq :: handler where
  "AMF_InitialContextSetupReq env R info = do {
     (R, info, ok) \<leftarrow> amf_convert R info;
     if \<not> ok then Some (R, info, False)
     else do {
       (R, _) \<leftarrow> AMF_InitialContextSetupReq_UpdateNgapSess R info;
       (R, info, media) \<leftarrow> AMF_InitialContextSetupReq_UpdatePduSess env R info (last_ie cxt_req (nm_ies info));
       Some (if media then R else send_down R info, info, True) } }"

section \<open>Requests that the media gateway has answered\<close>

fun upd_tnl :: "(gtp_tunnel \<Rightarrow> gtp_tunnel option) \<Rightarrow> setup_ie list \<Rightarrow> setup_ie list option" where
  "upd_tnl f [] = Some []"
| "upd_tnl f (ie # ies) =
     (if list_ex (\<lambda>ie. \<exists>t. ie = TI_UL_NGU_UP_TNLInformation t) ies then map_option ((#) ie) (upd_tnl f ies)
      else (case ie of
          TI_UL_NGU_UP_TNLInformation (TNL_gTPTunnel g) \<Rightarrow>
            map_option (\<lambda>g. TI_UL_NGU_UP_TNLInformation (TNL_gTPTunnel g) # ies) (f g)
        | _ \<Rightarrow> Some (ie # ies)))"

text \<open>The ends that the media gateway has opened; without a session the variables keep what they hold.\<close>

definition ends_or :: "relay_env \<Rightarrow> nat \<Rightarrow> (string \<times> nat \<times> string \<times> nat) option \<Rightarrow> string \<times> nat \<times> string" where
  "ends_or env teid x = (case x of
     None \<Rightarrow> (se_stack (re_sig env), teid, se_stack (re_sig env))
   | Some (addr, teid, addr6, teid6) \<Rightarrow> (addr, teid, addr6))"

type_synonym fill_state = "bool \<times> pdu_item list"

definition fill_req :: "relay_env \<Rightarrow> (pdu_item \<Rightarrow> nat) \<Rightarrow> relay \<Rightarrow> nat \<Rightarrow> fill_state \<Rightarrow> pdu_item \<Rightarrow> fill_state option" where
  "fill_req env cap R sessId x it = (case cd_dec (re_setup_req env) (pi_transfer it) of
     None \<Rightarrow> if fst x then None else Some (False, snd x @ [it])
   | Some ies \<Rightarrow> do {
       let st = se_stack (re_sig env);
       e \<leftarrow> GetGnbGtpInfo (rgw R) sessId (pi_id it mod 256) st st;
       let (addr, teid, addr6) = ends_or env 0 e;
       ies \<leftarrow> upd_tnl (write_tunnel True teid addr addr6) ies;
       b \<leftarrow> reencode (re_setup_req env) (cap it) ies;
       Some (True, snd x @ [it\<lparr>pi_transfer := b\<rparr>]) })"

definition old_size :: "pdu_item \<Rightarrow> nat" where
  "old_size it = length (pi_transfer it)"

definition AMF_PDUSessionResourceSetupReqByMedia :: handler where
  "AMF_PDUSessionResourceSetupReqByMedia env R info = (case last_ie su_req (nm_ies info) of
     None \<Rightarrow> Some (R, info, False)
   | Some its \<Rightarrow> do {
       (_, its) \<leftarrow> each_item (fill_req env old_size R (nm_sessId info)) (False, []) its;
       let info = info\<lparr>nm_ies := set_last_ie (\<lambda>ie. su_req ie \<noteq> None) (IE_SetupListSUReq its) (nm_ies info)\<rparr>;
       Some (send_down R info, info, True) })"

definition AMF_InitialContextSetupReqByMedia :: handler where
  "AMF_InitialContextSetupReqByMedia env R info = (case last_ie cxt_req (nm_ies info) of
     None \<Rightarrow> Some (send_down R info, info, True)
   | Some its \<Rightarrow> do {
       (_, its) \<leftarrow> each_item (fill_req env old_size R (nm_sessId info)) (False, []) its;
       let info = info\<lparr>nm_ies := set_last_ie (\<lambda>ie. cxt_req ie \<noteq> None) (IE_SetupListCxtReq its) (nm_ies info)\<rparr>;
       Some (send_down R info, info, True) })"

section \<open>Answers\<close>

record rsp_loop =
  rl_relay :: relay
  rl_info :: ngap_message
  rl_tr :: transport
  rl_media :: bool
  rl_decoded :: bool

definition start_rsp :: "relay_env \<Rightarrow> relay \<Rightarrow> ngap_message \<Rightarrow> rsp_loop" where
  "start_rsp env R info = \<lparr>rl_relay = R, rl_info = info, rl_tr = new_transport env, rl_media = False, rl_decoded = False\<rparr>"

definition rsp_step :: "relay_env \<Rightarrow> setup_rsp codec \<Rightarrow> rsp_loop \<Rightarrow> pdu_item \<Rightarrow> rsp_loop option" where
  "rsp_step env c L it = (case cd_dec c (pi_transfer it) of
     None \<Rightarrow> if rl_decoded L then None else Some L
   | Some x \<Rightarrow> do {
       L \<leftarrow> (case sr_tnl x of
           TNL_gTPTunnel g \<Rightarrow> do {
             t \<leftarrow> read_tunnel False g (rl_tr L);
             (G, info, m) \<leftarrow> processSessSetupRsp (re_sig env) (snd (rl_relay L)) (rl_info L) (pi_id it mod 256) t;
             Some (L\<lparr>rl_relay := put_side (rl_relay L) G, rl_info := info, rl_tr := t, rl_media := m\<rparr>) }
         | TNL_other \<Rightarrow> Some L);
       Some (L\<lparr>rl_decoded := True\<rparr>) })"

fun su_rsp :: "ngap_ie \<Rightarrow> pdu_item list option" where
  "su_rsp (IE_SetupListSURes is) = Some is" | "su_rsp _ = None"

fun cxt_rsp :: "ngap_ie \<Rightarrow> pdu_item list option" where
  "cxt_rsp (IE_SetupListCxtRes is) = Some is" | "cxt_rsp _ = None"

text \<open>An answer without the list, when no session was set up, is dropped.\<close>

definition GNB_PDUSessionSetupRsp :: handler where
  "GNB_PDUSessionSetupRsp env R info = do {
     (info, ok) \<leftarrow> gnb_convert env R info;
     if \<not> ok then do { ensure (last_ie ran_id (nm_ies info) \<noteq> None); Some (R, info, False) }
     else do {
       p \<leftarrow> GetNgapSession (rgw R) (nm_sessId info);
       case last_ie su_rsp (nm_ies info) of
         None \<Rightarrow> Some (R, info, True)
       | Some its \<Rightarrow> do {
           W \<leftarrow> start_count (rgw R) p (length its);
           L \<leftarrow> each_item (rsp_step env (re_setup_rsp env)) (start_rsp env (put_rgw R W) info) its;
           Some (if rl_media L then rl_relay L else send_up (rl_relay L) (rl_info L), rl_info L, True) } } }"

definition GNB_InitialContextSetupSuccessRsp :: handler where
  "GNB_InitialContextSetupSuccessRsp env R info = do {
     (info, ok) \<leftarrow> gnb_convert env R info;
     if \<not> ok then Some (R, info, False)
     else do {
       p \<leftarrow> GetNgapSession (rgw R) (nm_sessId info);
       L \<leftarrow> (case last_ie cxt_rsp (nm_ies info) of
           None \<Rightarrow> Some (start_rsp env R info)
         | Some its \<Rightarrow> do {
             W \<leftarrow> start_count (rgw R) p (length its);
             each_item (rsp_step env (re_setup_rsp env)) (start_rsp env (put_rgw R W) info) its });
       let R = (if rl_media L then rl_relay L else send_up (rl_relay L) (rl_info L));
       W \<leftarrow> stopNgapSessTimer (rgw R) (nm_sessId (rl_info L));
       Some (put_rgw R W, rl_info L, True) } }"

text \<open>An answer is completed with the end towards the AMF side; the result of the security check may be taken out.\<close>

definition fill_rsp :: "relay_env \<Rightarrow> bool \<Rightarrow> setup_rsp codec \<Rightarrow> (pdu_item \<Rightarrow> nat) \<Rightarrow> relay \<Rightarrow> nat \<Rightarrow> fill_state \<Rightarrow> pdu_item \<Rightarrow> fill_state option" where
  "fill_rsp env strip c cap R sessId x it = (case cd_dec c (pi_transfer it) of
     None \<Rightarrow> if fst x then None else Some (False, snd x @ [it])
   | Some y \<Rightarrow> do {
       let st = se_stack (re_sig env);
       e \<leftarrow> GetUpfGtpInfo (rgw R) sessId (pi_id it mod 256) st st;
       let (addr, teid, addr6) = ends_or env (re_junk env) e;
       tnl \<leftarrow> (case sr_tnl y of
           TNL_gTPTunnel g \<Rightarrow> map_option TNL_gTPTunnel (write_tunnel False teid addr addr6 g)
         | TNL_other \<Rightarrow> Some TNL_other);
       b \<leftarrow> reencode c (cap it) (y\<lparr>sr_tnl := tnl, sr_security := sr_security y \<and> \<not> strip\<rparr>);
       Some (True, snd x @ [it\<lparr>pi_transfer := b\<rparr>]) })"

definition GNB_PDUSessionSetupRspByMedia :: handler where
  "GNB_PDUSessionSetupRspByMedia env R info = (case last_ie su_rsp (nm_ies info) of
     None \<Rightarrow> Some (R, info, True)
   | Some its \<Rightarrow> do {
       (_, its) \<leftarrow> each_item (fill_rsp env True (re_setup_rsp env) (\<lambda>_. 100) R (nm_sessId info)) (False, []) its;
       let info = info\<lparr>nm_ies := set_last_ie (\<lambda>ie. su_rsp ie \<noteq> None) (IE_SetupListSURes its) (nm_ies info)\<rparr>;
       Some (send_up R info, info, True) })"

definition GNB_InitialContextSetupSuccessRspByMedia :: handler where
  "GNB_InitialContextSetupSuccessRspByMedia env R info = (case last_ie cxt_rsp (nm_ies info) of
     None \<Rightarrow> Some (R, info, True)
   | Some its \<Rightarrow> do {
       (_, its) \<leftarrow> each_item (fill_rsp env True (re_setup_rsp env) old_size R (nm_sessId info)) (False, []) its;
       let info = info\<lparr>nm_ies := set_last_ie (\<lambda>ie. cxt_rsp ie \<noteq> None) (IE_SetupListCxtRes its) (nm_ies info)\<rparr>;
       Some (send_up R info, info, True) })"

end
