(* ===== verification/Sig_Handover.thy ===== *)
theory Sig_Handover
  imports Epm Tunnels
begin

text \<open>
  Handovers (ApmManager.cc, EpmManager.cc, EsmManager.cc, AsmManager.cc). A user that moves between two radio
  nodes of the gateway is not reported to the AMF as a handover: the gateway asks the AMF for a path switch and
  plays the AMF towards both nodes. Every other handover is relayed, with its tunnels.
\<close>

section \<open>Messages with the ends of the media gateway\<close>

definition bytes2 :: "nat \<Rightarrow> string" where
  "bytes2 n = [byte_char (n div 2 ^ 8), byte_char n]"

definition bytes3 :: "nat \<Rightarrow> string" where
  "bytes3 n = [byte_char (n div 2 ^ 16), byte_char (n div 2 ^ 8), byte_char n]"

definition algorithms_ie :: "ngap_session \<Rightarrow> ngap_ie" where
  "algorithms_ie s = IE_UESecurityCapabilities (bytes2 (ns_nRencryptionAlgorithms s)) (bytes2 (ns_nRintegrityProtectionAlgorithms s))
     (bytes2 (ns_eUTRAencryptionAlgorithms s)) (bytes2 (ns_eUTRAintegrityProtectionAlgorithms s))"

text \<open>An end that is built: its address by the families that the buffers have. Without one it has no address.\<close>

definition built_tunnel :: "nat \<Rightarrow> string \<Rightarrow> string \<Rightarrow> gtp_tunnel" where
  "built_tunnel teid addr addr6 = \<lparr>gt_teid = Some (be_bytes 4 teid), gt_addr =
     (if ss_family addr = AF_INET then sin_addr addr else []) @ (if ss_family addr6 = AF_INET6 then sin6_addr addr6 else [])\<rparr>"

definition built_type :: "relay_env \<Rightarrow> string \<Rightarrow> string \<Rightarrow> pdu_type" where
  "built_type env addr addr6 =
     (if ss_family addr = AF_INET \<and> ss_family addr6 = AF_INET6 then PT_ipv4v6
      else if ss_family addr6 = AF_INET6 then PT_ipv6
      else if ss_family addr = AF_INET then PT_ipv4
      else PT_other (re_junk env))"

definition qos_of :: "pdu_resource \<Rightarrow> qos_flow" where
  "qos_of r = \<lparr>qf_identifier = pr_qos_flow_id r,
     qf_nonDynamic = (if pr_dynamic r then None else Some (Some (pr_fiveQI r,
       if 1 \<le> pr_priorityLevelQos r \<and> pr_priorityLevelQos r \<le> 127 then Some (pr_priorityLevelQos r) else None))),
     qf_priorityLevelARP = pr_priorityLevelARP r, qf_pre_emptionCapability = pr_pre_emptionCapability r,
     qf_pre_emptionVulnerability = pr_pre_emptionVulnerability r\<rparr>"

text \<open>One byte more than the encoder has counted.\<close>

definition reencode_plus :: "'a codec \<Rightarrow> nat \<Rightarrow> 'a \<Rightarrow> string option" where
  "reencode_plus c cap x = (case cd_enc c x of
     None \<Rightarrow> Some [NUL]
   | Some e \<Rightarrow> if cap < length (fst e) then None else Some (take (snd e div 8 + 1) (fst e @ [NUL])))"

text \<open>A message for every PDU session of the user that has its description and its tunnel.\<close>

fun pdu_items :: "relay_env \<Rightarrow> (nat \<Rightarrow> pdu_resource \<Rightarrow> string \<times> nat \<times> string \<times> nat \<Rightarrow> pdu_item option) \<Rightarrow>
    (nat \<Rightarrow> (string \<times> nat \<times> string \<times> nat) option option) \<Rightarrow> sig_gw \<Rightarrow> nat \<Rightarrow> nat list \<Rightarrow> pdu_item list option" where
  "pdu_items env mk ends W n [] = Some []"
| "pdu_items env mk ends W n (r # rs) =
     (if r = INVALID_PDU_SESSION_ID then pdu_items env mk ends W n rs
      else do {
        res \<leftarrow> GetPduSessResource W n r;
        case res of
          None \<Rightarrow> pdu_items env mk ends W n rs
        | Some res \<Rightarrow> do {
            e \<leftarrow> ends r;
            case e of
              None \<Rightarrow> pdu_items env mk ends W n rs
            | Some e \<Rightarrow> do { it \<leftarrow> mk r res e; its \<leftarrow> pdu_items env mk ends W n rs; Some (it # its) } } })"

definition ho_req_item :: "relay_env \<Rightarrow> ngap_session \<Rightarrow> nat \<Rightarrow> pdu_resource \<Rightarrow> string \<times> nat \<times> string \<times> nat \<Rightarrow> pdu_item option" where
  "ho_req_item env s r res e = (case e of (addr, teid, addr6, _) \<Rightarrow> do {
     b \<leftarrow> reencode (re_setup_req env) 200
       [TI_PDUSessionAggregateMaximumBitRate (pr_maxbitrate_dl res) (pr_maxbitrate_ul res),
        TI_UL_NGU_UP_TNLInformation (TNL_gTPTunnel (built_tunnel teid addr addr6)),
        TI_PDUSessionType (built_type env addr addr6), TI_QosFlowSetupRequestList [qos_of res]];
     Some \<lparr>pi_id = pr_pdu_session_id res, pi_sst = Some [byte_char (ns_allowedSNnsaiSST s)],
       pi_sd = Some (bytes3 (ns_allowedSNnsaiSD s)), pi_transfer = b\<rparr> })"

definition SendHandoverRequest :: "relay_env \<Rightarrow> relay \<Rightarrow> ngap_message \<Rightarrow> string option \<Rightarrow> (relay \<times> bool) option" where
  "SendHandoverRequest env R info s2t = (case (s2t, GetNgapSession (rgw R) (nm_sessId info)) of
     (Some c, Some p) \<Rightarrow> do {
       s \<leftarrow> sg_ngaps (rgw R) p;
       let st = se_stack (re_sig env);
       its \<leftarrow> pdu_items env (ho_req_item env s) (\<lambda>r. GetGnbGtpInfo (rgw R) (nm_sessId info) r st st) (rgw R) (nm_sessId info)
         (ns_vecPduSessionID s);
       Some (send_down R (built PDU_initiatingMessage id_HandoverResourceAllocation
         [IE_AMF_UE_NGAP_ID (nm_sessId info), IE_HandoverType True, IE_Cause Cause_handover_desirable,
          IE_UEAggregateMaximumBitRate (ns_maxBitrateUl s) (ns_maxBitrateDl s), algorithms_ie s,
          IE_SecurityContext (ns_nextHopChainingCount s) (ns_securityContext s), IE_SetupListHOReq its,
          IE_AllowedNSSAI [([byte_char (ns_allowedSNnsaiSST s)], Some (bytes3 (ns_allowedSNnsaiSD s)))], IE_SourceToTarget c,
          IE_GUAMI (gu_plmn (ns_guami s)) [byte_char (gu_AMFRegionID (ns_guami s))] (bytes2 (gu_AMFSetId (ns_guami s)))
            [byte_char (gu_AMFPointer (ns_guami s))]]
         ((ho_msg env info)\<lparr>nm_amfUeId := nm_sessId info\<rparr>)), True) }
   | _ \<Rightarrow> Some (R, False))"

definition switch_item :: "relay_env \<Rightarrow> nat \<Rightarrow> pdu_resource \<Rightarrow> string \<times> nat \<times> string \<times> nat \<Rightarrow> pdu_item option" where
  "switch_item env r res e = (case e of (addr, teid, addr6, _) \<Rightarrow> do {
     b \<leftarrow> reencode_plus (re_switch_req env) 200 \<lparr>sr_tnl = TNL_gTPTunnel (built_tunnel teid addr addr6), sr_security = False,
       sr_flows = [pr_qos_flow_id res], sr_drbs = None, sr_rest = []\<rparr>;
     Some \<lparr>pi_id = r, pi_sst = None, pi_sd = None, pi_transfer = b\<rparr> })"

definition SendPathSwithRequest :: "relay_env \<Rightarrow> relay \<Rightarrow> ngap_message \<Rightarrow> string \<times> string \<Rightarrow> string \<times> string \<Rightarrow> (relay \<times> bool) option" where
  "SendPathSwithRequest env R info nr_cgi tai = (case GetNgapSession (rgw R) (nm_sessId info) of
     None \<Rightarrow> Some (R, False)
   | Some p \<Rightarrow> do {
       s \<leftarrow> sg_ngaps (rgw R) p;
       let st = se_stack (re_sig env);
       its \<leftarrow> pdu_items env (switch_item env) (\<lambda>r. GetUpfGtpInfo (rgw R) (nm_sessId info) r st st) (rgw R) (nm_sessId info)
         (ns_vecPduSessionID s);
       Some (send_up R (built PDU_initiatingMessage id_PathSwitchRequest
         [IE_RAN_UE_NGAP_ID (nm_sessId info), IE_SourceAMF_UE_NGAP_ID (nm_amfUeId info),
          IE_UserLocation (fst nr_cgi) (snd nr_cgi) (fst tai) (snd tai), algorithms_ie s, IE_ToBeSwitchedDLList its]
         ((new_NgapMessage (re_junk env))\<lparr>nm_amfUeId := nm_amfUeId info, nm_gnbUeId := nm_sessId info, nm_amfId := nm_amfId info,
           nm_sockSource := nm_sockSource info, nm_sockTarget := nm_sockTarget info, nm_idSigGW := nm_idSigGW info\<rparr>)), True) })"

section \<open>The command to the node that is left\<close>

definition tunnel_of :: "tnl_information \<Rightarrow> gtp_tunnel option" where
  "tunnel_of t = (case t of TNL_gTPTunnel g \<Rightarrow> Some g | TNL_other \<Rightarrow> None)"

text \<open>
  For every radio bearer with forwarding, both ends are those of the media gateway. The kind is looked at
  for the downlink end and the identifier is taken from the uplink end.
\<close>

definition forward_end :: "relay_env \<Rightarrow> nat \<Rightarrow> nat \<Rightarrow> string \<Rightarrow> string \<Rightarrow> tnl_information option" where
  "forward_end env n teid addr addr6 = (if n < 4 then None
     else Some (TNL_gTPTunnel ((built_tunnel teid addr addr6)\<lparr>gt_teid := Some (be_bytes 4 teid @ replicate (n - 4) NUL)\<rparr>)))"

fun forward_drbs :: "relay_env \<Rightarrow> string \<Rightarrow> nat \<Rightarrow> string \<Rightarrow> drb_item list \<Rightarrow> drb_item list option" where
  "forward_drbs env addr teid addr6 [] = Some []"
| "forward_drbs env addr teid addr6 (d # ds) = do {
     e \<leftarrow> (case dr_ul d of
         None \<Rightarrow> Some None
       | Some ul \<Rightarrow> do {
           dl \<leftarrow> dr_dl d;
           case dl of
             TNL_other \<Rightarrow> Some None
           | TNL_gTPTunnel _ \<Rightarrow> do {
               g \<leftarrow> tunnel_of ul;
               e \<leftarrow> forward_end env (length (case gt_teid g of None \<Rightarrow> [] | Some b \<Rightarrow> b)) teid addr addr6;
               Some (Some e) } });
     rest \<leftarrow> forward_drbs env addr teid addr6 ds;
     Some (\<lparr>dr_id = dr_id d, dr_dl = e, dr_ul = e\<rparr> # rest) }"

fun command_items :: "relay_env \<Rightarrow> relay \<Rightarrow> nat \<Rightarrow> pdu_item list \<Rightarrow> (nat \<times> string) list option" where
  "command_items env R n [] = Some []"
| "command_items env R n (it # its) = do {
     b \<leftarrow> (case cd_dec (re_ho_ack env) (pi_transfer it) of
         None \<Rightarrow> Some []
       | Some x \<Rightarrow> do {
           let st = se_stack (re_sig env);
           drbs \<leftarrow> (case sr_drbs x of
               None \<Rightarrow> Some None
             | Some ds \<Rightarrow> do {
                 e \<leftarrow> GetGnbGtpInfo (rgw R) n (pi_id it mod 256) st st;
                 let (addr, teid, addr6) = ends_or env 0 e;
                 map_option Some (forward_drbs env addr teid addr6 ds) });
           reencode (re_ho_command env) 200 \<lparr>hc_flows = sr_flows x, hc_drbs = drbs\<rparr> });
     rest \<leftarrow> command_items env R n its;
     Some ((pi_id it, b) # rest) }"

definition SendHandoverCommand :: "relay_env \<Rightarrow> relay \<Rightarrow> ngap_message \<Rightarrow> string option \<Rightarrow> pdu_item list option \<Rightarrow> relay option" where
  "SendHandoverCommand env R info t2s admitted = do {
     its \<leftarrow> (case admitted of None \<Rightarrow> Some [] | Some its \<Rightarrow> command_items env R (nm_sessId info) its);
     c \<leftarrow> t2s;
     Some (send_down R (built PDU_successfulOutcome id_HandoverPreparation
       [IE_AMF_UE_NGAP_ID (nm_amfUeId info), IE_RAN_UE_NGAP_ID (nm_gnbUeId info), IE_HandoverType True, IE_HandoverList its,
        IE_TargetToSource c] (ho_msg env info))) }"

section \<open>Handovers that the AMF asks for\<close>

definition AMF_HandoverReq_UpdateNgapSess :: "relay \<Rightarrow> ngap_message \<Rightarrow> (relay \<times> bool) option" where
  "AMF_HandoverReq_UpdateNgapSess R info = (case GetNgapSession (rgw R) (nm_sessId info) of
     None \<Rightarrow> Some (R, False)
   | Some p \<Rightarrow> do { W \<leftarrow> set_sess (rgw R) p (update_user (nm_ies info)); Some (put_rgw R W, True) })"

definition AMF_HandoverReq_UpdatePduSess :: "relay_env \<Rightarrow> relay \<Rightarrow> ngap_message \<Rightarrow> pdu_item list option \<Rightarrow> relayed" where
  "AMF_HandoverReq_UpdatePduSess env R info items = update_pdus env R info items"

fun ho_req :: "ngap_ie \<Rightarrow> pdu_item list option" where
  "ho_req (IE_SetupListHOReq is) = Some is" | "ho_req _ = None"

fun s2t_of :: "ngap_ie \<Rightarrow> string option" where
  "s2t_of (IE_SourceToTarget c) = Some c" | "s2t_of _ = None"

fun t2s_of :: "ngap_ie \<Rightarrow> string option" where
  "t2s_of (IE_TargetToSource c) = Some c" | "t2s_of _ = None"

text \<open>
  The target is the node whose number is the first three bytes of the cell. The identifier of the new
  session is translated through a pointer to an integer of twice its size; what lies behind the integer is
  not modelled.
\<close>

definition AMF_HandoverReq :: handler where
  "AMF_HandoverReq env R info = (case last_ie s2t_of (nm_ies info) of
     None \<Rightarrow> Some (R, info, False)
   | Some b \<Rightarrow> do {
       c \<leftarrow> re_s2t env b;
       (_, cell) \<leftarrow> st_nR_CGI c;
       v \<leftarrow> id_bytes cell 3;
       (W, p) \<leftarrow> NewNgapSessionFromAmf (\<lambda>node. map_option ec_sctp_index (GetEsmContextByRanNodeId (fst R) node)) (rgw R) info
         (v ! 0 * 2 ^ 16 + v ! 1 * 2 ^ 8 + v ! 2);
       let R = put_rgw R W;
       case p of
         None \<Rightarrow> Some (R, info, False)
       | Some p \<Rightarrow> do {
           s \<leftarrow> sg_ngaps W p;
           (R, info, ids) \<leftarrow> AMF_ConvertNgapId R info (Some (ns_sessId s)) (last_ie amf_id (nm_ies info));
           case ids of
             None \<Rightarrow> Some (R, info, False)
           | Some ids \<Rightarrow> do {
               let info = info\<lparr>nm_ies := set_amf_id (snd ids) (nm_ies info)\<rparr>;
               (R, _) \<leftarrow> AMF_HandoverReq_UpdateNgapSess R info;
               (R, info, media) \<leftarrow> AMF_HandoverReq_UpdatePduSess env R info (last_ie ho_req (nm_ies info));
               Some (if media then R else send_down R info, info, True) } } })"

definition AMF_HandoverReqByMedia :: handler where
  "AMF_HandoverReqByMedia env R info = (case last_ie ho_req (nm_ies info) of
     None \<Rightarrow> Some (send_down R info, info, True)
   | Some its \<Rightarrow> do {
       (_, its) \<leftarrow> each_item (fill_req env (\<lambda>_. 200) R (nm_sessId info)) (False, []) its;
       let info = info\<lparr>nm_ies := set_last_ie (\<lambda>ie. ho_req ie \<noteq> None) (IE_SetupListHOReq its) (nm_ies info)\<rparr>;
       Some (send_down R info, info, True) })"

section \<open>The answer of the target\<close>

fun admitted_of :: "ngap_ie \<Rightarrow> pdu_item list option" where
  "admitted_of (IE_AdmittedList is) = Some is" | "admitted_of _ = None"

text \<open>The variables of an end belong to the item here, and only a container with a tunnel is freed.\<close>

definition ho_ack_step :: "relay_env \<Rightarrow> rsp_loop \<Rightarrow> pdu_item \<Rightarrow> rsp_loop option" where
  "ho_ack_step env L it = (case cd_dec (re_ho_ack env) (pi_transfer it) of
     None \<Rightarrow> if rl_decoded L then None else Some L
   | Some x \<Rightarrow> map_option (\<lambda>L. L\<lparr>rl_decoded := sr_tnl x \<noteq> TNL_other\<rparr>)
       (rsp_step env (re_ho_ack env) (L\<lparr>rl_tr := new_transport env\<rparr>) it))"

definition ho_target_step :: "relay_env \<Rightarrow> nat \<Rightarrow> rsp_loop \<Rightarrow> pdu_item \<Rightarrow> rsp_loop option" where
  "ho_target_step env n L it = (case cd_dec (re_ho_ack env) (pi_transfer it) of
     None \<Rightarrow> if rl_decoded L then None else Some L
   | Some x \<Rightarrow> (case sr_tnl x of
         TNL_other \<Rightarrow> Some (L\<lparr>rl_decoded := False\<rparr>)
       | TNL_gTPTunnel g \<Rightarrow> do {
           t \<leftarrow> read_tunnel False g (new_transport env);
           (W, _) \<leftarrow> prepareHoTargetGnbAddr (rgw (rl_relay L)) n (pi_id it mod 256) t;
           Some (L\<lparr>rl_relay := put_rgw (rl_relay L) W, rl_decoded := True\<rparr>) }))"

definition GNB_HandoverReqAck :: handler where
  "GNB_HandoverReqAck env R info = (let info = sess_of_amf_id env info in
     case GetNgapSession (rgw R) (nm_sessId info) of
       None \<Rightarrow> Some (R, info, False)
     | Some p \<Rightarrow> do {
         s \<leftarrow> sg_ngaps (rgw R) p;
         case GetEsmContext (fst R) (ns_gnb_sctp_index s) of
           None \<Rightarrow> Some (R, info, False)
         | Some esm \<Rightarrow> do {
             rid \<leftarrow> last_ie ran_id (nm_ies info);
             let admitted = last_ie admitted_of (nm_ies info);
             if in_same_gw s then do {
               W \<leftarrow> upd_ngap (rgw R) p (\<lambda>s. s\<lparr>ns_TgtGnbUeId := rid mod 2 ^ 32\<rparr>);
               let info = info\<lparr>nm_amfUeId := ns_sessId s, nm_gnbUeId := ns_gnbUeId s, nm_ranNodeId := ns_gnbId s,
                 nm_sockTarget := ec_sctp_index esm\<rparr>;
               L \<leftarrow> each_item (ho_target_step env (ns_sessId s)) (start_rsp env (put_rgw R W) info)
                 (case admitted of None \<Rightarrow> [] | Some its \<Rightarrow> its);
               R \<leftarrow> SendHandoverCommand env (rl_relay L) info (last_ie t2s_of (nm_ies info)) admitted;
               Some (R, info, True) }
             else do {
               W \<leftarrow> upd_ngap (rgw R) p (\<lambda>s. s\<lparr>ns_gnbUeId := rid mod 2 ^ 32\<rparr>);
               let R = put_rgw R W;
               (info, ok) \<leftarrow> gnb_convert env R info;
               if \<not> ok then Some (R, info, False)
               else do {
                 L \<leftarrow> (case admitted of
                     None \<Rightarrow> Some (start_rsp env R info)
                   | Some its \<Rightarrow> do {
                       W \<leftarrow> start_count (rgw R) p (length its);
                       each_item (ho_ack_step env) (start_rsp env (put_rgw R W) info) its });
                 Some (if rl_media L then rl_relay L else send_up (rl_relay L) (rl_info L), rl_info L, True) } } } })"

definition GNB_HandoverReqAckMedia :: handler where
  "GNB_HandoverReqAckMedia env R info = (case last_ie admitted_of (nm_ies info) of
     None \<Rightarrow> Some (R, info, True)
   | Some its \<Rightarrow> do {
       (_, its) \<leftarrow> each_item (fill_rsp env False (re_ho_ack env) (\<lambda>_. 200) R (nm_sessId info)) (False, []) its;
       let info = info\<lparr>nm_ies := set_last_ie (\<lambda>ie. admitted_of ie \<noteq> None) (IE_AdmittedList its) (nm_ies info)\<rparr>;
       Some (send_up R info, info, True) })"

section \<open>Path switch\<close>

fun to_switch_of :: "ngap_ie \<Rightarrow> pdu_item list option" where
  "to_switch_of (IE_ToBeSwitchedDLList is) = Some is" | "to_switch_of _ = None"

fun switched_of :: "ngap_ie \<Rightarrow> pdu_item list option" where
  "switched_of (IE_SwitchedList is) = Some is" | "switched_of _ = None"

fun security_of :: "ngap_ie \<Rightarrow> (nat \<times> string) option" where
  "security_of (IE_SecurityContext n k) = Some (n, k)" | "security_of _ = None"

text \<open>A request that starts no session of a media gateway is not sent on.\<close>

definition GNB_PathSwitchRequest :: handler where
  "GNB_PathSwitchRequest env R info = do {
     (info, ids) \<leftarrow> GNB_ConvertNgapId env R info (last_ie ran_id (nm_ies info)) (last_ie source_amf_id (nm_ies info));
     case ids of
       None \<Rightarrow> Some (R, info, False)
     | Some ids \<Rightarrow> do {
         let info = info\<lparr>nm_ies := set_last_ie (\<lambda>ie. source_amf_id ie \<noteq> None) (IE_SourceAMF_UE_NGAP_ID (snd ids))
           (set_ran_id (fst ids) (nm_ies info))\<rparr>;
         case last_ie to_switch_of (nm_ies info) of
           None \<Rightarrow> Some (R, info, False)
         | Some its \<Rightarrow> do {
             p \<leftarrow> GetNgapSession (rgw R) (nm_sessId info);
             W \<leftarrow> start_count (rgw R) p (length its);
             W \<leftarrow> upd_ngap W p (\<lambda>s. s\<lparr>ns_gnbUeId := nm_gnbUeId info, ns_gnbId := nm_ranNodeId info,
               ns_gnb_sctp_index := nm_sockSource info\<rparr>);
             s \<leftarrow> sg_ngaps W p;
             let info = info\<lparr>nm_amfUeId := ns_amfUeId s\<rparr>;
             L \<leftarrow> each_item (\<lambda>L. rsp_step env (re_switch_req env) (L\<lparr>rl_decoded := False\<rparr>)) (start_rsp env (put_rgw R W) info) its;
             Some (rl_relay L, rl_info L, True) } } }"

text \<open>The last byte of the container is put back behind what the encoder has counted.\<close>

definition fill_switch :: "relay_env \<Rightarrow> relay \<Rightarrow> nat \<Rightarrow> fill_state \<Rightarrow> pdu_item \<Rightarrow> fill_state option" where
  "fill_switch env R sessId x it = do {
     ensure (pi_transfer it \<noteq> []);
     case cd_dec (re_switch_req env) (pi_transfer it) of
       None \<Rightarrow> if fst x then None else Some (False, snd x @ [it])
     | Some y \<Rightarrow> do {
         let st = se_stack (re_sig env);
         e \<leftarrow> GetUpfGtpInfo (rgw R) sessId (pi_id it mod 256) st st;
         let (addr, teid, addr6) = ends_or env (re_junk env) e;
         g \<leftarrow> tunnel_of (sr_tnl y);
         g \<leftarrow> write_tunnel False teid addr addr6 g;
         b \<leftarrow> reencode (re_switch_req env) 100 (y\<lparr>sr_tnl := TNL_gTPTunnel g\<rparr>);
         ensure (length b < 100);
         Some (True, snd x @ [it\<lparr>pi_transfer := b @ [last (pi_transfer it)]\<rparr>]) } }"

definition GNB_PathSwitchRequestByMedia :: handler where
  "GNB_PathSwitchRequestByMedia env R info = (case last_ie to_switch_of (nm_ies info) of
     None \<Rightarrow> Some (R, info, True)
   | Some its \<Rightarrow> do {
       (_, its) \<leftarrow> each_item (fill_switch env R (nm_sessId info)) (False, []) its;
       let info = info\<lparr>nm_ies := set_last_ie (\<lambda>ie. to_switch_of ie \<noteq> None) (IE_ToBeSwitchedDLList its) (nm_ies info)\<rparr>;
       Some (send_up R info, info, True) })"

definition fill_switch_ack :: "relay_env \<Rightarrow> relay \<Rightarrow> nat \<Rightarrow> fill_state \<Rightarrow> pdu_item \<Rightarrow> fill_state option" where
  "fill_switch_ack env R sessId x it = (case cd_dec (re_switch_ack env) (pi_transfer it) of
     None \<Rightarrow> if fst x then None else Some (False, snd x @ [it])
   | Some y \<Rightarrow> do {
       let st = se_stack (re_sig env);
       e \<leftarrow> GetGnbGtpInfo (rgw R) sessId (pi_id it mod 256) st st;
       let (addr, teid, addr6) = ends_or env (re_junk env) e;
       g \<leftarrow> tunnel_of (sr_tnl y);
       g \<leftarrow> write_tunnel True teid addr addr6 g;
       b \<leftarrow> reencode_plus (re_switch_ack env) 100 (y\<lparr>sr_tnl := TNL_gTPTunnel g\<rparr>);
       Some (True, snd x @ [it\<lparr>pi_transfer := b\<rparr>]) })"

definition AMF_PathSwitchReqAck :: handler where
  "AMF_PathSwitchReqAck env R info = do {
     (R, info, ok) \<leftarrow> amf_convert R info;
     if \<not> ok then Some (R, info, False)
     else do {
       p \<leftarrow> GetNgapSession (rgw R) (nm_sessId info);
       s \<leftarrow> sg_ngaps (rgw R) p;
       info \<leftarrow> (case last_ie switched_of (nm_ies info) of
           None \<Rightarrow> Some info
         | Some its \<Rightarrow> do {
             (_, its) \<leftarrow> each_item (fill_switch_ack env R (nm_sessId info)) (False, []) its;
             Some (info\<lparr>nm_ies := set_last_ie (\<lambda>ie. switched_of ie \<noteq> None) (IE_SwitchedList its) (nm_ies info)\<rparr>) });
       let (W, c) = GetSourceToTarget_TransparentContainer (rgw R) (nm_sessId info);
       let R = put_rgw R W;
       if in_same_gw s \<and> c \<noteq> None then do {
         (n, k) \<leftarrow> last_ie security_of (nm_ies info);
         W \<leftarrow> set_sess W p (\<lambda>s. put_key (Some k) (s\<lparr>ns_nextHopChainingCount := n\<rparr>));
         let R = put_rgw R W;
         case GetEsmContext_of_node (fst R) (ns_TgtGnbId s) of
           None \<Rightarrow> Some (R, info, False)
         | Some esm \<Rightarrow> do {
             let info = info\<lparr>nm_gnbUeId := INVALIDE_ID, nm_ranNodeId := ec_ranNodeId esm, nm_sockTarget := ec_sctp_index esm\<rparr>;
             (R, _) \<leftarrow> SendHandoverRequest env R info c;
             Some (R, info, True) } }
       else Some (send_down R info, info, True) } }"

definition AMF_PathSwitchReqFailure :: handler where
  "AMF_PathSwitchReqFailure env R info = do {
     (R, info, ok) \<leftarrow> amf_convert R info;
     if \<not> ok then Some (R, info, False)
     else do {
       p \<leftarrow> GetNgapSession (rgw R) (nm_sessId info);
       s \<leftarrow> sg_ngaps (rgw R) p;
       if in_same_gw s then do {
         let info = info\<lparr>nm_amfUeId := ns_sessId s, nm_gnbUeId := ns_gnbUeId s, nm_ranNodeId := ns_gnbId s\<rparr>;
         W \<leftarrow> upd_ngap (rgw R) p ResetHandoverInfo;
         Some (SendHOPrepareFailure env (put_rgw R W) info None, info, True) }
       else Some (send_down R info, info, True) } }"

section \<open>Handovers that a radio node asks for\<close>

fun target_of_ie :: "ngap_ie \<Rightarrow> target_id option" where
  "target_of_ie (IE_TargetID t) = Some t" | "target_of_ie _ = None"

fun status_of :: "ngap_ie \<Rightarrow> drb_status list option" where
  "status_of (IE_RANStatusTransfer s) = Some s" | "status_of _ = None"

fun keep_drbs :: "sig_gw \<Rightarrow> nat \<Rightarrow> (nat \<times> nat list) list \<Rightarrow> sig_gw" where
  "keep_drbs W n [] = W"
| "keep_drbs W n ((r, ds) # xs) = keep_drbs (fold (\<lambda>d W. fst (prepareHoDrb W n (r mod 256) (d mod 256))) ds W) n xs"

text \<open>The container is given back only when its target cell is one of 5G.\<close>

definition GNB_GetInfoFromS2TTransparentContainer2 :: "relay_env \<Rightarrow> relay \<Rightarrow> ngap_message \<Rightarrow> string \<Rightarrow>
    relay \<times> s2t_container option \<times> bool" where
  "GNB_GetInfoFromS2TTransparentContainer2 env R info b = (case re_s2t env b of
     None \<Rightarrow> (R, None, False)
   | Some c \<Rightarrow> (case st_drbs c of
         None \<Rightarrow> (R, None, False)
       | Some xs \<Rightarrow> (put_rgw R (keep_drbs (rgw R) (nm_sessId info) xs), if st_nR_CGI c = None then None else Some c, True)))"

text \<open>The result is not looked at, and the target is read before its kind.\<close>

definition GNB_HandoverRequired :: handler where
  "GNB_HandoverRequired env R info =
     (if IE_HandoverType False \<in> set (nm_ies info) then Some (R, info, False)
      else case last_ie target_of_ie (nm_ies info) of
        None \<Rightarrow> Some (R, info, False)
      | Some target \<Rightarrow> do {
          (info, ok) \<leftarrow> gnb_convert env R info;
          if \<not> ok then Some (R, info, False)
          else do {
            p \<leftarrow> GetNgapSession (rgw R) (nm_sessId info);
            b \<leftarrow> last_ie s2t_of (nm_ies info);
            let (R, c, _) = GNB_GetInfoFromS2TTransparentContainer2 env R info b;
            c \<leftarrow> c;
            nr_cgi \<leftarrow> st_nR_CGI c;
            (g, plmn, tac) \<leftarrow> (case target of Target_RAN g plmn tac \<Rightarrow> Some (g, plmn, tac) | Target_other \<Rightarrow> None);
            (ctx, cause) \<leftarrow> HandleGlobalRANNodeID env g
              ((new_EsmContext env)\<lparr>ec_sctp_index := nm_sockSource info, ec_idSigGW := nm_idSigGW info\<rparr>);
            let (info', rel) = CheckRANinGW (fst R) info (ec_ranNodeId ctx);
            if cause = NGAP_CHECK_RNI_OK \<and> rel = Ralation_RAN_Handover_IN_SAME_GW then do {
              let W = SaveSourceToTarget_TransparentContainer (rgw R) (nm_sessId info') b;
              W \<leftarrow> upd_ngap W p (\<lambda>s. s\<lparr>ns_eHandoverflag := Ralation_RAN_Handover_IN_SAME_GW, ns_TgtGnbId := nm_ranNodeId info'\<rparr>);
              (R, _) \<leftarrow> SendPathSwithRequest env (put_rgw R W) info' nr_cgi (plmn, tac);
              Some (R, info', True) }
            else Some (send_up R info, info, True) } })"

definition SendDLRanStatusTsfer :: "relay_env \<Rightarrow> relay \<Rightarrow> ngap_message \<Rightarrow> drb_status list option \<Rightarrow> relay option" where
  "SendDLRanStatusTsfer env R info status = do {
     ds \<leftarrow> status;
     Some (send_down R (built PDU_initiatingMessage id_DownlinkRANStatusTransfer
       [IE_AMF_UE_NGAP_ID (nm_amfUeId info), IE_RAN_UE_NGAP_ID (nm_gnbUeId info), IE_RANStatusTransfer ds] (ho_msg env info))) }"

definition GNB_ULRanStatusTsfer :: handler where
  "GNB_ULRanStatusTsfer env R info = (let info = sess_of_amf_id env info in
     case GetNgapSession (rgw R) (nm_sessId info) of
       None \<Rightarrow> Some (R, info, False)
     | Some p \<Rightarrow> do {
         s \<leftarrow> sg_ngaps (rgw R) p;
         if in_same_gw s then do {
           let info = info\<lparr>nm_gnbUeId := ns_TgtGnbUeId s, nm_ranNodeId := ns_TgtGnbId s, nm_amfUeId := ns_sessId s\<rparr>;
           let info = (case GetEsmContext_of_node (fst R) (ns_TgtGnbId s) of
               None \<Rightarrow> info
             | Some esm \<Rightarrow> info\<lparr>nm_ranNodeId := ec_ranNodeId esm, nm_sockTarget := ec_sctp_index esm\<rparr>);
           R \<leftarrow> SendDLRanStatusTsfer env R info (last_ie status_of (nm_ies info));
           Some (R, info, True) }
         else gnb_relay env R info })"

end
