(* ===== verification/Nsm.thy ===== *)
theory Nsm
  imports Sig_Handover
begin

text \<open>
  The dispatch of network messages (NsmManager.cc, NgapProtocol.cc, the registrations in ApmManager.cc and
  EpmManager.cc): a packet of an association is decoded, and the handler that is registered for its kind
  and its procedure is called. An answer of the media gateway continues a message that was kept.

  The decoder and the encoder of the ASN.1 library and the numbers of the procedures are parameters.
\<close>

section \<open>The manager\<close>

abbreviation MAX_PDU_KEY :: nat where
  "MAX_PDU_KEY \<equiv> 1500"

abbreviation MOD_SIG_SCTP_NGAP_PPID :: nat where
  "MOD_SIG_SCTP_NGAP_PPID \<equiv> 60"

abbreviation MAX_BUFF_LENGTH :: nat where
  "MAX_BUFF_LENGTH \<equiv> 4096"

record sctp_link =
  lk_idSctpIndex :: nat
  lk_idSigGW :: nat
  lk_Priority :: nat
  lk_client :: bool

text \<open>The two tables of callbacks hold the handlers by the key of a message.\<close>

record nsm =
  nk_isInited :: bool
  nk_links :: "sctp_link list"
  nk_act_links :: "nat \<Rightarrow> nat option"
  nk_recvAmf :: "nat \<Rightarrow> handler option"
  nk_recvGnb :: "nat \<Rightarrow> handler option"
  nk_timers :: nat

record ngap_lib =
  nl_number :: "proc_code \<Rightarrow> nat"
  nl_decode :: "string \<Rightarrow> (pdu_choice \<times> proc_code \<times> ngap_ie list) option"
  nl_encode :: "ngap_message \<Rightarrow> (string \<times> nat) option"

fun choice_number :: "pdu_choice \<Rightarrow> nat" where
  "choice_number PDU_NOTHING = 0"
| "choice_number PDU_initiatingMessage = 1"
| "choice_number PDU_successfulOutcome = 2"
| "choice_number PDU_unsuccessfulOutcome = 3"

definition GetKey :: "nat \<Rightarrow> nat \<Rightarrow> nat" where
  "GetKey pduChoise procedureCode =
     (if 4 < pduChoise \<or> 255 < procedureCode then MAX_PDU_KEY else pduChoise * 2 ^ 8 + procedureCode)"

definition RegisterUpLayerRecv :: "nsm \<Rightarrow> nat \<Rightarrow> nat \<Rightarrow> handler \<Rightarrow> nsm" where
  "RegisterUpLayerRecv K pduChoise procedureCode callback = (let k = GetKey pduChoise procedureCode in
     if MAX_PDU_KEY \<le> k then K else K\<lparr>nk_recvAmf := (nk_recvAmf K)(k \<mapsto> callback)\<rparr>)"

definition RegisterDownLayerRecv :: "nsm \<Rightarrow> nat \<Rightarrow> nat \<Rightarrow> handler \<Rightarrow> nsm" where
  "RegisterDownLayerRecv K pduChoise procedureCode callback = (let k = GetKey pduChoise procedureCode in
     if MAX_PDU_KEY \<le> k then K else K\<lparr>nk_recvGnb := (nk_recvGnb K)(k \<mapsto> callback)\<rparr>)"

definition ProcessAmfMsg :: "ngap_lib \<Rightarrow> nsm \<Rightarrow> handler" where
  "ProcessAmfMsg L K env R info = (let k = GetKey (choice_number (nm_PDUChoice info)) (nl_number L (nm_ProcCode info)) in
     if MAX_PDU_KEY \<le> k then Some (R, info, False)
     else case nk_recvAmf K k of None \<Rightarrow> Some (R, info, False) | Some h \<Rightarrow> h env R info)"

definition ProcessGnbMsg :: "ngap_lib \<Rightarrow> nsm \<Rightarrow> handler" where
  "ProcessGnbMsg L K env R info = (let k = GetKey (choice_number (nm_PDUChoice info)) (nl_number L (nm_ProcCode info)) in
     if MAX_PDU_KEY \<le> k then Some (R, info, False)
     else case nk_recvGnb K k of None \<Rightarrow> Some (R, info, False) | Some h \<Rightarrow> h env R info)"

section \<open>Registration\<close>

definition apm_callbacks :: "(pdu_choice \<times> proc_code \<times> handler) list" where
  "apm_callbacks =
    [(PDU_initiatingMessage, id_PDUSessionResourceSetup, AMF_PDUSessionResourceSetupReq),
     (PDU_initiatingMessage, id_PDUSessionResourceModify, AMF_PDUSessionResourceModifyReq),
     (PDU_successfulOutcome, id_PDUSessionResourceModifyIndication, AMF_PDUSessionResourceModifyConfirm),
     (PDU_initiatingMessage, id_PDUSessionResourceRelease, AMF_PDUSessionResourceReleaseCmd),
     (PDU_initiatingMessage, id_InitialContextSetup, AMF_InitialContextSetupReq),
     (PDU_initiatingMessage, id_UEContextRelease, AMF_UEContextReleaseCommand),
     (PDU_initiatingMessage, id_UEContextModification, AMF_UEContextModificationReq),
     (PDU_initiatingMessage, id_UERadioCapabilityCheck, AMF_UERadioCapabilityCheckReq),
     (PDU_successfulOutcome, id_HandoverPreparation, AMF_HandoverCommand),
     (PDU_unsuccessfulOutcome, id_HandoverPreparation, AMF_HandoverPreparationFailure),
     (PDU_initiatingMessage, id_HandoverResourceAllocation, AMF_HandoverReq),
     (PDU_successfulOutcome, id_PathSwitchRequest, AMF_PathSwitchReqAck),
     (PDU_unsuccessfulOutcome, id_PathSwitchRequest, AMF_PathSwitchReqFailure),
     (PDU_successfulOutcome, id_HandoverCancel, AMF_HandoverCancelAck),
     (PDU_initiatingMessage, id_DownlinkRANStatusTransfer, AMF_DLRanStatusTsfer),
     (PDU_initiatingMessage, id_AMFStatusIndication, AMF_StatusInd),
     (PDU_initiatingMessage, id_LocationReportingControl, AMF_LocRepCtr),
     (PDU_initiatingMessage, id_Paging, AMF_Paging),
     (PDU_initiatingMessage, id_DownlinkNASTransport, AMF_DownlinkNASTransport),
     (PDU_initiatingMessage, id_DownlinkUEAssociatedNRPPaTransport, AMF_DLUEAsNRPPaTrspt),
     (PDU_initiatingMessage, id_DownlinkNonUEAssociatedNRPPaTransport, AMF_DLNonUEAsNRPPaTrspt),
     (PDU_initiatingMessage, id_NGReset, AMF_Reset),
     (PDU_successfulOutcome, id_NGReset, AMF_ResetAck),
     (PDU_initiatingMessage, id_RerouteNASRequest, AMF_RerouteNASReq),
     (PDU_initiatingMessage, id_TraceStart, AMF_TraceStart),
     (PDU_initiatingMessage, id_DeactivateTrace, AMF_DeActTrace),
     (PDU_initiatingMessage, id_UETNLABindingRelease, AMF_UETNLABindingRelReq),
     (PDU_initiatingMessage, id_ErrorIndication, AMF_ErrorIndication),
     (PDU_successfulOutcome, id_NGSetup, AMF_NgSetupResponse),
     (PDU_initiatingMessage, id_OverloadStart, AMF_OverloadStart),
     (PDU_initiatingMessage, id_OverloadStop, AMF_OverloadStop),
     (PDU_initiatingMessage, id_WriteReplaceWarning, AMF_WriteRepWarningReq),
     (PDU_initiatingMessage, id_PWSCancel, AMF_PWSCancelReq),
     (PDU_initiatingMessage, id_AMFConfigurationUpdate, AMF_CfgUpdate)]"

definition epm_callbacks :: "(pdu_choice \<times> proc_code \<times> handler) list" where
  "epm_callbacks =
    [(PDU_successfulOutcome, id_PDUSessionResourceSetup, GNB_PDUSessionSetupRsp),
     (PDU_initiatingMessage, id_PDUSessionResourceModifyIndication, GNB_PDUSessionModifyInd),
     (PDU_successfulOutcome, id_PDUSessionResourceModify, GNB_PDUSessionModifyRsp),
     (PDU_successfulOutcome, id_PDUSessionResourceRelease, GNB_PDUSessionReleaseRsp),
     (PDU_initiatingMessage, id_PDUSessionResourceNotify, GNB_PDUSessionRsrNotify),
     (PDU_successfulOutcome, id_InitialContextSetup, GNB_InitialContextSetupSuccessRsp),
     (PDU_unsuccessfulOutcome, id_InitialContextSetup, GNB_InitialContextSetupFailureRsp),
     (PDU_successfulOutcome, id_UEContextRelease, GNB_UEContextReleaseComplete),
     (PDU_initiatingMessage, id_UEContextReleaseRequest, GNB_UEContextReleaseReq),
     (PDU_successfulOutcome, id_UEContextModification, GNB_UEContextModificationSuccessRsp),
     (PDU_unsuccessfulOutcome, id_UEContextModification, GNB_UEContextModificationFailureRsp),
     (PDU_initiatingMessage, id_HandoverPreparation, GNB_HandoverRequired),
     (PDU_successfulOutcome, id_HandoverResourceAllocation, GNB_HandoverReqAck),
     (PDU_unsuccessfulOutcome, id_HandoverResourceAllocation, GNB_HandoverFailure),
     (PDU_initiatingMessage, id_PathSwitchRequest, GNB_PathSwitchRequest),
     (PDU_initiatingMessage, id_HandoverNotification, GNB_HandoverNotify),
     (PDU_initiatingMessage, id_HandoverCancel, GNB_HandoverCancel),
     (PDU_initiatingMessage, id_UplinkRANStatusTransfer, GNB_ULRanStatusTsfer),
     (PDU_initiatingMessage, id_AMFStatusIndication, GNB_AMFStatusIndication),
     (PDU_initiatingMessage, id_InitialUEMessage, GNB_InitialUEMessage),
     (PDU_initiatingMessage, id_UplinkNASTransport, GNB_UplinkNASTransport),
     (PDU_initiatingMessage, id_UERadioCapabilityInfoIndication, GNB_UERadioCapInfoInd),
     (PDU_initiatingMessage, id_NGReset, GNB_Reset),
     (PDU_successfulOutcome, id_NGReset, GNB_ResetAck),
     (PDU_initiatingMessage, id_RRCInactiveTransitionReport, GNB_RRCInactTrstRpt),
     (PDU_initiatingMessage, id_ErrorIndication, GNB_ErrorIndication),
     (PDU_initiatingMessage, id_NASNonDeliveryIndication, GNB_NASNonDeliveryIndication),
     (PDU_initiatingMessage, id_NGSetup, GNB_SetupReq),
     (PDU_initiatingMessage, id_LocationReport, GNB_LocationReport),
     (PDU_initiatingMessage, id_RANConfigurationUpdate, GNB_RANConfigurationUpdate)]"

definition APM_Init :: "ngap_lib \<Rightarrow> nsm \<Rightarrow> nsm" where
  "APM_Init L K = fold (\<lambda>(c, p, h) K. RegisterUpLayerRecv K (choice_number c) (nl_number L p) h) apm_callbacks K"

definition Epm_Init :: "ngap_lib \<Rightarrow> nsm \<Rightarrow> nsm" where
  "Epm_Init L K = fold (\<lambda>(c, p, h) K. RegisterDownLayerRecv K (choice_number c) (nl_number L p) h) epm_callbacks K"

section \<open>Decoding and encoding\<close>

text \<open>
  The procedure of a decoded message. The case of an initiating message goes on with that of a successful
  outcome, which reads the same field of the union; that of an unsuccessful outcome with the default.
\<close>

definition PostActionDecode :: "ngap_message \<Rightarrow> proc_code \<Rightarrow> ngap_message" where
  "PostActionDecode info code = info\<lparr>nm_ProcCode := (case nm_PDUChoice info of
     PDU_initiatingMessage \<Rightarrow> code
   | PDU_successfulOutcome \<Rightarrow> code
   | PDU_unsuccessfulOutcome \<Rightarrow> id_AMFConfigurationUpdate
   | PDU_NOTHING \<Rightarrow> id_AMFConfigurationUpdate)\<rparr>"

definition InterDecode :: "ngap_lib \<Rightarrow> string \<Rightarrow> ngap_message \<Rightarrow> ngap_message option" where
  "InterDecode L buf info = (case nl_decode L buf of
     None \<Rightarrow> None
   | Some (choice, code, ies) \<Rightarrow>
       Some (PostActionDecode (info\<lparr>nm_present := choice \<noteq> PDU_NOTHING, nm_ies := ies, nm_PDUChoice := choice\<rparr>) code))"

text \<open>
  The encoder writes at most \<open>MAX_BUFF_LENGTH\<close> bytes; bits of a last byte are not counted. The buffer
  it is given has 2000 bytes, and writing more is \<^term>\<open>None\<close>.
\<close>

definition InterEncode :: "ngap_lib \<Rightarrow> ngap_message \<Rightarrow> string option" where
  "InterEncode L info = (case nl_encode L info of
     None \<Rightarrow> None
   | Some (out, bits) \<Rightarrow> if MAX_BUFF_LENGTH < length out then None else Some (take (bits div 2 ^ 3) out))"

record sctp_message =
  sx_index :: nat
  sx_stream :: nat
  sx_ppid :: nat
  sx_data :: string

definition SendLayerSctp :: "ngap_lib \<Rightarrow> nsm \<Rightarrow> ngap_message \<Rightarrow> (sctp_message option \<times> bool) option" where
  "SendLayerSctp L K info =
     (if \<not> nk_isInited K then Some (None, False)
      else case InterEncode L info of
        None \<Rightarrow> Some (None, False)
      | Some data \<Rightarrow>
          if 2000 < length (fst (the (nl_encode L info))) then None
          else Some (Some \<lparr>sx_index = nm_sockTarget info, sx_stream = nm_stream_no info, sx_ppid = MOD_SIG_SCTP_NGAP_PPID,
            sx_data = data\<rparr>, True))"

section \<open>Packets and events of associations\<close>

definition packet_info :: "relay_env \<Rightarrow> nat \<Rightarrow> nat \<Rightarrow> nat \<Rightarrow> nat \<Rightarrow> ngap_message" where
  "packet_info env sctp_index stream_no idSigGW max_sctp_num = (new_NgapMessage (re_junk env))
     \<lparr>nm_stream_no := stream_no, nm_sockSource := sctp_index, nm_sockTarget := sctp_index, nm_idSigGW := idSigGW,
      nm_max_sctp_stream := max_sctp_num\<rparr>"

definition handle_amf_sctp_msg_read :: "ngap_lib \<Rightarrow> nsm \<Rightarrow> relay_env \<Rightarrow> relay \<Rightarrow> nat \<Rightarrow> nat \<Rightarrow> nat \<Rightarrow> string \<Rightarrow> nat \<Rightarrow> nat \<Rightarrow>
    relay option" where
  "handle_amf_sctp_msg_read L K env R sctp_index stream_no ppid buf idSigGW max_sctp_num =
     (if ppid \<noteq> MOD_SIG_SCTP_NGAP_PPID then Some R
      else do {
        amfId \<leftarrow> GetAmfIdBySock (fst R) sctp_index;
        case InterDecode L buf ((packet_info env sctp_index stream_no idSigGW max_sctp_num)\<lparr>nm_amfId := amfId\<rparr>) of
          None \<Rightarrow> Some R
        | Some info \<Rightarrow> map_option fst (ProcessAmfMsg L K env R info) })"

definition handle_gnb_sctp_msg_read :: "ngap_lib \<Rightarrow> nsm \<Rightarrow> relay_env \<Rightarrow> relay \<Rightarrow> nat \<Rightarrow> nat \<Rightarrow> nat \<Rightarrow> string \<Rightarrow> nat \<Rightarrow> nat \<Rightarrow>
    relay option" where
  "handle_gnb_sctp_msg_read L K env R sctp_index stream_no ppid buf idSigGW max_sctp_num =
     (if ppid \<noteq> MOD_SIG_SCTP_NGAP_PPID then Some R
      else if buf = [] then Some R
      else (let info = packet_info env sctp_index stream_no idSigGW max_sctp_num;
                info = (case GetEsmContext (fst R) sctp_index of
                  None \<Rightarrow> info | Some esm \<Rightarrow> info\<lparr>nm_ranNodeId := ec_ranNodeId esm\<rparr>) in
        case InterDecode L buf info of
          None \<Rightarrow> Some R
        | Some info \<Rightarrow> map_option fst (ProcessGnbMsg L K env R info)))"

definition handle_amf_sctp_err :: "relay_env \<Rightarrow> relay \<Rightarrow> nat \<Rightarrow> relay option" where
  "handle_amf_sctp_err env R sctp_index = map_option fst (AsmManager_Restart env R sctp_index)"

definition handle_gnb_sctp_err :: "relay_env \<Rightarrow> relay \<Rightarrow> nat \<Rightarrow> relay option" where
  "handle_gnb_sctp_err env R sctp_index =
     map_option (put_side R) (DeleteAllGnbSession_of_sctp (re_sig env) (snd R) sctp_index)"

text \<open>The links of the configuration: a client link is an AMF. A link is looked at once.\<close>

fun start_links :: "nsm \<Rightarrow> relay \<Rightarrow> sctp_link list \<Rightarrow> (nsm \<times> relay) option" where
  "start_links K R [] = Some (K, R)"
| "start_links K R (l # ls) =
     (if nk_act_links K (lk_idSctpIndex l) \<noteq> None then start_links K R ls
      else do {
        R \<leftarrow> (if lk_client l then AddAmf R (lk_idSigGW l) (lk_idSctpIndex l) (lk_Priority l) else Some R);
        start_links (K\<lparr>nk_act_links := (nk_act_links K)(lk_idSctpIndex l \<mapsto> lk_idSctpIndex l)\<rparr>) R ls })"

definition handle_sctp_timeout :: "nsm \<Rightarrow> relay \<Rightarrow> (nsm \<times> relay) option" where
  "handle_sctp_timeout K R = start_links K R (nk_links K)"

definition status_sctp :: "nsm \<Rightarrow> nat \<Rightarrow> bool" where
  "status_sctp K sctpindex = (nk_act_links K sctpindex \<noteq> None)"

text \<open>The timer is started once, unless as many links are active as there are links.\<close>

definition StartSctpTimer :: "nsm \<Rightarrow> nsm" where
  "StartSctpTimer K =
     (if length (nk_links K) \<noteq> card (dom (nk_act_links K)) then K\<lparr>nk_timers := nk_timers K + 1\<rparr> else K)"

definition NsmManager_Init :: "sctp_link list \<Rightarrow> nsm" where
  "NsmManager_Init links = (let K = StartSctpTimer \<lparr>nk_isInited = False, nk_links = links, nk_act_links = Map.empty,
       nk_recvAmf = Map.empty, nk_recvGnb = Map.empty, nk_timers = 0\<rparr> in K\<lparr>nk_isInited := True\<rparr>)"

section \<open>Answers of the media gateway\<close>

text \<open>
  The session manager has recorded the message it took from its table; the function it is given to runs
  before the next event.
\<close>

fun by_media :: "ngap_call \<Rightarrow> (handler \<times> ngap_message) option" where
  "by_media (ngap_call.AMF_InitialContextSetupReqByMedia info) = Some (AMF_InitialContextSetupReqByMedia, info)"
| "by_media (ngap_call.AMF_PDUSessionResourceSetupReqByMedia info) = Some (AMF_PDUSessionResourceSetupReqByMedia, info)"
| "by_media (ngap_call.AMF_HandoverReqByMedia info) = Some (AMF_HandoverReqByMedia, info)"
| "by_media (ngap_call.GNB_InitialContextSetupSuccessRspByMedia info) = Some (GNB_InitialContextSetupSuccessRspByMedia, info)"
| "by_media (ngap_call.GNB_PDUSessionSetupRspByMedia info) = Some (GNB_PDUSessionSetupRspByMedia, info)"
| "by_media (ngap_call.GNB_PathSwitchRequestByMedia info) = Some (GNB_PathSwitchRequestByMedia, info)"
| "by_media (ngap_call.GNB_HandoverReqAckMedia info) = Some (GNB_HandoverReqAckMedia, info)"
| "by_media (SendDownLayerSctp info) = None"
| "by_media (SendUpLayerSctp info) = None"

fun run_calls :: "relay_env \<Rightarrow> relay \<Rightarrow> ngap_call list \<Rightarrow> relay option" where
  "run_calls env R [] = Some R"
| "run_calls env R (c # cs) = (case by_media c of
     None \<Rightarrow> run_calls env R cs
   | Some (h, info) \<Rightarrow> do { (R, _, _) \<leftarrow> h env R info; run_calls env R cs })"

definition media_answer :: "relay_env \<Rightarrow> relay \<Rightarrow> event \<Rightarrow> relay option" where
  "media_answer env R e = do {
     G \<leftarrow> sig_media_path_event_callback (re_sig env) (snd R) e;
     run_calls env (put_side R G) (drop (length (sg_calls (rgw R))) (sg_calls (gw G))) }"

end
