(* ===== verification/Relay_Ok.thy ===== *)
theory Relay_Ok
  imports Nsm Sig_Laws
begin

text \<open>
  The tables of sessions stay consistent under every handler of a network message. A partial
  computation is reasoned about with a weakest precondition: \<open>post m P\<close> is that \<open>m\<close>, when it has a result,
  has one with \<open>P\<close>. The rules of the operations are collected, and a handler is then one call of the simplifier.
\<close>

section \<open>Results of partial computations\<close>

definition post :: "'a option \<Rightarrow> ('a \<Rightarrow> bool) \<Rightarrow> bool" where
  "post m P \<longleftrightarrow> (\<forall>x. m = Some x \<longrightarrow> P x)"

lemma postI: "(\<And>x. m = Some x \<Longrightarrow> P x) \<Longrightarrow> post m P"
  by (simp add: post_def)

lemma postD: "post m P \<Longrightarrow> m = Some x \<Longrightarrow> P x"
  by (simp add: post_def)

lemma post_Some [simp]: "post (Some x) P = P x"
  by (simp add: post_def)

lemma post_None [simp]: "post None P"
  by (simp add: post_def)

lemma post_bind [simp]: "post (Option.bind m f) P = post m (\<lambda>x. post (f x) P)"
  by (cases m) simp_all

lemma post_map [simp]: "post (map_option f m) P = post m (\<lambda>x. P (f x))"
  by (cases m) simp_all

lemma post_if [simp]: "post (if b then m else n) P = ((b \<longrightarrow> post m P) \<and> (\<not> b \<longrightarrow> post n P))"
  by simp

lemma post_ensure [simp]: "post (ensure b) P = (b \<longrightarrow> P ())"
  by (simp add: ensure_def)

lemma post_mono: "post m Q \<Longrightarrow> (\<And>x. Q x \<Longrightarrow> P x) \<Longrightarrow> post m P"
  by (simp add: post_def)

lemma post_trivial: "(\<And>x. P x) \<Longrightarrow> post m P"
  by (simp add: post_def)

named_theorems keeps

section \<open>The operations on sessions\<close>

text \<open>Writing one field of the two parts of the state.\<close>

lemma rgw_put [simp]: "rgw (put_rgw R W) = W" "rgw (put_side R G) = gw G" "rgw (put_net R N) = rgw R"
  by (simp_all add: put_rgw_def put_side_def put_net_def)

lemma fst_put [simp]: "fst (put_rgw R W) = fst R" "fst (put_side R G) = fst R" "fst (put_net R N) = N"
  by (simp_all add: put_rgw_def put_side_def put_net_def)

lemma snd_put [simp]: "snd (put_side R G) = G" "snd (put_net R N) = snd R"
  by (simp_all add: put_side_def put_net_def)

lemma send_ok [simp]: "sig_ok (rgw (send_down R info)) = sig_ok (rgw R)" "sig_ok (rgw (send_up R info)) = sig_ok (rgw R)"
  "fst (send_down R info) = fst R" "fst (send_up R info) = fst R"
  by (simp_all add: send_down_def send_up_def)

lemma upd_ngap_keeps [keeps]:
  assumes "sig_ok W" "\<And>s. ns_sessId (f s) = ns_sessId s" "\<And>W'. sig_ok W' \<Longrightarrow> P W'"
  shows "post (upd_ngap W p f) P"
  using assms upd_ngap_ok by (blast intro: postI)

lemma set_sess_keeps [keeps]:
  assumes "sig_ok W" "\<And>s. post (f s) (\<lambda>t. ns_sessId t = ns_sessId s)" "\<And>W'. sig_ok W' \<Longrightarrow> P W'"
  shows "post (set_sess W p f) P"
  using assms set_ngap_ok by (fastforce intro: postI dest: postD simp: set_sess_def Option.bind_eq_Some_conv)

lemma sess_post:
  assumes "sig_ok (gw G)"
  shows "post (processSessSetupReq env G info r t) (\<lambda>x. sig_ok (gw (fst x)))"
    and "post (processSessSetupRsp env G info r t) (\<lambda>x. sig_ok (gw (fst x)))"
    and "post (processSessUpdateUpf env G info r t) (\<lambda>x. sig_ok (gw (fst x)))"
    and "post (processSessSetupfail env G info r) (\<lambda>x. sig_ok (gw (fst x)))"
    and "post (ReleasePduSess env G n r) (\<lambda>x. sig_ok (gw (fst x)))"
    and "post (finishHo env G n r) (\<lambda>x. sig_ok (gw (fst x)))"
    and "post (release_all env G n rs) (\<lambda>x. sig_ok (gw x))"
    and "post (DeleteAllAmfSession env G a) (\<lambda>x. sig_ok (gw x))"
    and "post (DeleteAllGnbSession env G node) (\<lambda>x. sig_ok (gw x))"
    and "post (DeleteAllGnbSession_of_sctp env G a) (\<lambda>x. sig_ok (gw x))"
    and "post (sig_media_path_event_callback env G e) (\<lambda>x. sig_ok (gw x))"
  subgoal by (rule postI, use assms in \<open>auto dest: processSessSetupReq_ok\<close>)
  subgoal by (rule postI, use assms in \<open>auto dest: processSessSetupRsp_ok\<close>)
  subgoal by (rule postI, use assms in \<open>auto dest: processSessUpdateUpf_ok\<close>)
  subgoal by (rule postI, use assms in \<open>auto dest: processSessSetupfail_ok\<close>)
  subgoal by (rule postI, use assms in \<open>auto dest: ReleasePduSess_ok\<close>)
  subgoal by (rule postI, use assms in \<open>auto dest: finishHo_ok\<close>)
  subgoal by (rule postI, use assms in \<open>auto dest: release_all_ok\<close>)
  subgoal by (rule postI, use assms in \<open>auto dest: sig_step_ok [OF st_amf]\<close>)
  subgoal by (rule postI, use assms in \<open>auto dest: sig_step_ok [OF st_gnb]\<close>)
  subgoal by (rule postI, use assms in \<open>auto dest: sig_step_ok [OF st_sctp]\<close>)
  subgoal by (rule postI, use assms in \<open>auto dest: callback_ok\<close>)
  done

lemmas [keeps] = sess_post [THEN post_mono]

lemma gw_post:
  assumes "sig_ok W"
  shows "post (UpdatePduSessResource W n r x) (\<lambda>x. sig_ok (fst x))"
    and "post (prepareHoTargetGnbAddr W n r t) (\<lambda>x. sig_ok (fst x))"
    and "post (resetHoTargetGnbAddr W n r) (\<lambda>x. sig_ok (fst x))"
    and "post (NewNgapSession W info) (\<lambda>x. sig_ok (fst x))"
    and "post (NewNgapSessionFromAmf esm W info g) (\<lambda>x. sig_ok (fst x))"
    and "post (RemoveNgapSess W i) sig_ok"
    and "post (stopNgapSessTimer W i) sig_ok"
    and "post (run_timer k W) sig_ok"
  subgoal by (rule postI, use assms in \<open>auto dest: handover_ok(3)\<close>)
  subgoal by (rule postI, use assms in \<open>auto dest: handover_ok(1)\<close>)
  subgoal by (rule postI, use assms in \<open>auto dest: handover_ok(2)\<close>)
  subgoal by (rule postI, use assms in \<open>auto dest: NewNgapSession_ok\<close>)
  subgoal by (rule postI, use assms in \<open>auto dest: NewNgapSessionFromAmf_ok\<close>)
  subgoal by (rule postI, use assms in \<open>auto dest: RemoveNgapSess_ok\<close>)
  subgoal by (rule postI, use assms in \<open>auto dest: stopNgapSessTimer_ok\<close>)
  subgoal by (rule postI, use assms in \<open>auto dest: run_timer_ok\<close>)
  done

lemmas [keeps] = gw_post [THEN post_mono]

lemma DeleteNgapSession_keeps [keeps]: "sig_ok W \<Longrightarrow> (\<And>W'. sig_ok W' \<Longrightarrow> P W') \<Longrightarrow> post (DeleteNgapSession W i) P"
  unfolding DeleteNgapSession_def by (rule keeps)

lemma prepareHoDrb_fst [simp]: "sig_ok W \<Longrightarrow> sig_ok (fst (prepareHoDrb W n r d))"
  using handover_ok(4) by (metis prod.collapse)

lemma container_ok [simp]:
  "sig_ok W \<Longrightarrow> sig_ok (fst (GetSourceToTarget_TransparentContainer W i))"
  "sig_ok W \<Longrightarrow> sig_ok (SaveSourceToTarget_TransparentContainer W i c)"
  by (simp_all add: GetSourceToTarget_TransparentContainer_def SaveSourceToTarget_TransparentContainer_def split: option.split)

text \<open>What has no effect on the state.\<close>

lemma post_pure [keeps]:
  "(\<And>x. P0 x) \<Longrightarrow> post (sg_ngaps W p) P0"
  "(\<And>x. P1 x) \<Longrightarrow> post (GetTargetSock N a) P1"
  "(\<And>x. P2 x) \<Longrightarrow> post (GetAmfIdBySock N a) P2"
  "(\<And>x. P3 x) \<Longrightarrow> post (SelectAmf N g) P3"
  "(\<And>x. P4 x) \<Longrightarrow> post (last_ie f ies) P4"
  "(\<And>x. P5 x) \<Longrightarrow> post (read_nas info ies) P5"
  "(\<And>x. P6 x) \<Longrightarrow> post (GetNgapSession W i) P6"
  "(\<And>x. P7 x) \<Longrightarrow> post (counted8 xs) P7"
  "(\<And>x. P8 x) \<Longrightarrow> post (ta_items env g ts) P8"
  "(\<And>x. P9 x) \<Longrightarrow> post (nw_asm N q) P9"
  "(\<And>x. P11 x) \<Longrightarrow> post (id_bytes b n) P11"
  "(\<And>x. P13 x) \<Longrightarrow> post (tac_values ts1) P13"
  "(\<And>x. P14 x) \<Longrightarrow> post (HandleGlobalRANNodeID env gid c) P14"
  "(\<And>x. P15 x) \<Longrightarrow> post (deref y) P15"
  "(\<And>x. P16 x) \<Longrightarrow> post (read_tunnel both t tr) P16"
  "(\<And>x. P17 x) \<Longrightarrow> post (or_sd d b) P17"
  "(\<And>x. P18 x) \<Longrightarrow> post (put_rate ptrs res) P18"
  "(\<And>x. P19 x) \<Longrightarrow> post (put_qos fst_only ptrs res) P19"
  "(\<And>x. P20 x) \<Longrightarrow> post (GetGnbGtpInfo W n r st1 st2) P20"
  "(\<And>x. P21 x) \<Longrightarrow> post (GetUpfGtpInfo W n r st1 st2) P21"
  "(\<And>x. P22 x) \<Longrightarrow> post (pdu_items env mk ends W n rs) P22"
  "(\<And>x. P23 x) \<Longrightarrow> post (command_items env R n its) P23"
  "(\<And>x. P24 x) \<Longrightarrow> post (re_s2t env b) P24"
  "(\<And>x. P25 x) \<Longrightarrow> post (st_nR_CGI c1) P25"
  "(\<And>x. P26 x) \<Longrightarrow> post (tunnel_of tnl) P26"
  "(\<And>x. P27 x) \<Longrightarrow> post (pi_sst it1) P27" "(\<And>x. P28 x) \<Longrightarrow> post (dr_dl dr1) P28"
  "(\<And>x. P29 x) \<Longrightarrow> post (reencode cod cap xx) P29" "(\<And>x. P30 x) \<Longrightarrow> post (reencode_plus cod1 cap xx1) P30"
  "(\<And>x. P31 x) \<Longrightarrow> post (each_item (fill_req env cap2 R sid) fs its) P31"
  "(\<And>x. P32 x) \<Longrightarrow> post (each_item (fill_rsp env strip cod3 cap3 R sid) fs3 its) P32"
  "(\<And>x. P33 x) \<Longrightarrow> post (each_item (fill_switch env R sid) fs its) P33"
  "(\<And>x. P34 x) \<Longrightarrow> post (each_item (fill_switch_ack env R sid) fs its) P34"
  by (simp_all add: post_def)

section \<open>The associations\<close>

text \<open>
  The two tables of AMFs hold the same contexts, each under the numbers that the context says, and the
  timers belong to contexts. A radio node is in the table under the number of its association.
\<close>

definition amfs_ok :: "ran_net \<Rightarrow> bool" where
  "amfs_ok N \<longleftrightarrow> (\<forall>p. nw_asm N p \<noteq> None \<longrightarrow> 0 < p \<and> p < nw_brk N) \<and>
     (\<forall>i. nw_amf_sctp_list N i \<noteq> NULL \<longrightarrow> i < MAX_AMF_SESSIONS \<and> (\<exists>c. nw_asm N (nw_amf_sctp_list N i) = Some c \<and>
        ac_sctp_index c = i \<and> nw_amf_list N (ac_amfId c) = nw_amf_sctp_list N i)) \<and>
     (\<forall>a. nw_amf_list N a \<noteq> NULL \<longrightarrow> 0 < a \<and> a < nw_amfid N \<and> a < MAX_AMF_SESSIONS \<and>
        (\<exists>c. nw_asm N (nw_amf_list N a) = Some c \<and> ac_amfId c = a \<and> nw_amf_sctp_list N (ac_sctp_index c) = nw_amf_list N a))"

definition net_ok :: "ran_net \<Rightarrow> bool" where
  "net_ok N \<longleftrightarrow> 0 < nw_brk N \<and> 0 < nw_amfid N \<and> amfs_ok N \<and>
     (\<forall>i c. nw_esm N i = Some c \<longrightarrow> i < MAX_ESM_SESSIONS \<and> ec_sctp_index c = i) \<and>
     (\<forall>p \<in> set (nw_timers N). nw_asm N p \<noteq> None)"

lemma amfs_okI:
  assumes "\<And>p. nw_asm N p \<noteq> None \<Longrightarrow> 0 < p \<and> p < nw_brk N"
    and "\<And>i. nw_amf_sctp_list N i \<noteq> NULL \<Longrightarrow> i < MAX_AMF_SESSIONS \<and> (\<exists>c. nw_asm N (nw_amf_sctp_list N i) = Some c \<and>
        ac_sctp_index c = i \<and> nw_amf_list N (ac_amfId c) = nw_amf_sctp_list N i)"
    and "\<And>a. nw_amf_list N a \<noteq> NULL \<Longrightarrow> 0 < a \<and> a < nw_amfid N \<and> a < MAX_AMF_SESSIONS \<and>
        (\<exists>c. nw_asm N (nw_amf_list N a) = Some c \<and> ac_amfId c = a \<and> nw_amf_sctp_list N (ac_sctp_index c) = nw_amf_list N a)"
  shows "amfs_ok N"
  using assms unfolding amfs_ok_def by blast

lemma amfs_okD:
  assumes "amfs_ok N"
  shows "nw_asm N p \<noteq> None \<Longrightarrow> 0 < p \<and> p < nw_brk N"
    and "nw_amf_sctp_list N i \<noteq> NULL \<Longrightarrow> i < MAX_AMF_SESSIONS \<and> (\<exists>c. nw_asm N (nw_amf_sctp_list N i) = Some c \<and>
        ac_sctp_index c = i \<and> nw_amf_list N (ac_amfId c) = nw_amf_sctp_list N i)"
    and "nw_amf_list N a \<noteq> NULL \<Longrightarrow> 0 < a \<and> a < nw_amfid N \<and> a < MAX_AMF_SESSIONS \<and>
        (\<exists>c. nw_asm N (nw_amf_list N a) = Some c \<and> ac_amfId c = a \<and> nw_amf_sctp_list N (ac_sctp_index c) = nw_amf_list N a)"
  using assms unfolding amfs_ok_def by blast+

lemma setup_ies_ids [simp]: "ac_sctp_index (setup_ies ies c) = ac_sctp_index c" "ac_amfId (setup_ies ies c) = ac_amfId c"
  by (induction ies c rule: setup_ies.induct) simp_all

lemma upd_asm_ok:
  assumes "upd_asm N p f = Some N'" "net_ok N" "\<And>c. ac_sctp_index (f c) = ac_sctp_index c \<and> ac_amfId (f c) = ac_amfId c"
  shows "net_ok N'"
proof -
  obtain c where c: "nw_asm N p = Some c" and N': "N' = N\<lparr>nw_asm := (nw_asm N)(p \<mapsto> f c)\<rparr>" using assms(1) by (auto simp: upd_asm_def)
  have ok: "amfs_ok N" using assms(2) by (simp add: net_ok_def)
  have same: "\<exists>e. nw_asm N' q = Some e \<and> ac_sctp_index e = ac_sctp_index d \<and> ac_amfId e = ac_amfId d" if "nw_asm N q = Some d" for q d
    using that c assms(3) [of c] by (cases "q = p") (simp_all add: N')
  have tabs: "nw_amf_sctp_list N' = nw_amf_sctp_list N" "nw_amf_list N' = nw_amf_list N" "nw_amfid N' = nw_amfid N" "nw_brk N' = nw_brk N"
    by (simp_all add: N')
  have "amfs_ok N'"
  proof (rule amfs_okI, unfold tabs)
    fix q assume "nw_asm N' q \<noteq> None"
    then have "nw_asm N q \<noteq> None" using c N' by (auto split: if_splits)
    then show "0 < q \<and> q < nw_brk N" by (rule amfs_okD(1) [OF ok])
  next
    fix i assume "nw_amf_sctp_list N i \<noteq> NULL"
    from amfs_okD(2) [OF ok this] show "i < MAX_AMF_SESSIONS \<and> (\<exists>c. nw_asm N' (nw_amf_sctp_list N i) = Some c \<and>
        ac_sctp_index c = i \<and> nw_amf_list N (ac_amfId c) = nw_amf_sctp_list N i)"
      using same by metis
  next
    fix a assume "nw_amf_list N a \<noteq> NULL"
    from amfs_okD(3) [OF ok this] show "0 < a \<and> a < nw_amfid N \<and> a < MAX_AMF_SESSIONS \<and> (\<exists>c. nw_asm N' (nw_amf_list N a) = Some c \<and>
        ac_amfId c = a \<and> nw_amf_sctp_list N (ac_sctp_index c) = nw_amf_list N a)"
      using same by metis
  qed
  then show ?thesis using assms(2) c by (auto simp: net_ok_def N')
qed

lemma upd_asm_keeps [keeps]:
  assumes "net_ok N" "\<And>c. ac_sctp_index (f c) = ac_sctp_index c \<and> ac_amfId (f c) = ac_amfId c" "\<And>N'. net_ok N' \<Longrightarrow> P N'"
  shows "post (upd_asm N p f) P"
  using upd_asm_ok assms by (blast intro: postI)

lemma amfs_frame [simp]: "amfs_ok (N\<lparr>nw_timers := t\<rparr>) = amfs_ok N" "amfs_ok (N\<lparr>nw_esm := e\<rparr>) = amfs_ok N"
  by (simp_all add: amfs_ok_def)

lemma timers_ok: "net_ok N \<Longrightarrow> nw_timers N = p # ps \<Longrightarrow> net_ok (N\<lparr>nw_timers := ps\<rparr>) \<and> nw_asm N p \<noteq> None"
  by (simp add: net_ok_def)

lemma Setup_ok: "net_ok N \<Longrightarrow> ec_sctp_index c = nm_sockSource info \<Longrightarrow> net_ok (fst (EsmManager_Setup N info c))"
  by (simp add: EsmManager_Setup_def net_ok_def)

section \<open>Relays\<close>

abbreviation ok1 :: "relay \<Rightarrow> bool" where
  "ok1 R \<equiv> sig_ok (rgw R) \<and> net_ok (fst R)"

abbreviation ok2 :: "relay \<times> 'a \<Rightarrow> bool" where
  "ok2 x \<equiv> ok1 (fst x)"

lemma AMF_ConvertNgapId_post: "ok1 R \<Longrightarrow> post (AMF_ConvertNgapId R info a b) ok2"
  unfolding AMF_ConvertNgapId_def by (auto simp: Let_def split: option.split intro!: keeps)

lemmas [keeps] = post_mono [OF AMF_ConvertNgapId_post]

lemma amf_convert_post: "ok1 R \<Longrightarrow> post (amf_convert R info) ok2"
  unfolding amf_convert_def by (auto split: option.split intro!: keeps)

lemmas [keeps] = post_mono [OF amf_convert_post]

lemma gnb_convert_keeps [keeps]:
  "(\<And>x. P x) \<Longrightarrow> post (gnb_convert env R info) P" "(\<And>x. Q x) \<Longrightarrow> post (GNB_ConvertNgapId env R info a b) Q"
  by (auto intro: postI)

lemma relay_post: "ok1 R \<Longrightarrow> post (amf_relay R info) ok2" "ok1 R \<Longrightarrow> post (gnb_relay env R info) ok2"
  unfolding amf_relay_def gnb_relay_def by (auto intro!: keeps)

lemmas [keeps] = relay_post [THEN post_mono]

definition safe :: "handler \<Rightarrow> bool" where
  "safe h \<longleftrightarrow> (\<forall>env R info. ok1 R \<longrightarrow> post (h env R info) ok2)"

lemma safeI: "(\<And>env R info. ok1 R \<Longrightarrow> post (h env R info) ok2) \<Longrightarrow> safe h"
  by (simp add: safe_def)

lemma safeD: "safe h \<Longrightarrow> ok1 R \<Longrightarrow> post (h env R info) ok2"
  unfolding safe_def by blast

named_theorems plain_defs

lemmas [plain_defs] = AMF_UEContextModificationReq_def AMF_HandoverCommand_def AMF_HandoverPreparationFailure_def
  AMF_HandoverCancelAck_def AMF_DLRanStatusTsfer_def AMF_UERadioCapabilityCheckReq_def AMF_PDUSessionResourceModifyConfirm_def
  AMF_TraceStart_def AMF_DeActTrace_def AMF_LocRepCtr_def AMF_UETNLABindingRelReq_def AMF_DLUEAsNRPPaTrspt_def
  AMF_RerouteNASReq_def AMF_PDUSessionResourceModifyReq_def GNB_PDUSessionModifyRsp_def GNB_PDUSessionModifyInd_def
  GNB_PDUSessionReleaseRsp_def GNB_PDUSessionRsrNotify_def GNB_UEContextModificationSuccessRsp_def
  GNB_UEContextModificationFailureRsp_def GNB_UERadioCapInfoInd_def GNB_RRCInactTrstRpt_def GNB_LocationReport_def

lemma plain_safe:
  "safe (\<lambda>env R info. amf_relay R info)" "safe gnb_relay" "safe AMF_ErrorIndication" "safe GNB_ErrorIndication"
  by (rule safeI, auto simp: AMF_ErrorIndication_def GNB_ErrorIndication_def intro!: keeps)+

lemma GNB_UplinkNASTransport_safe: "safe GNB_UplinkNASTransport"
  by (rule safeI) (auto simp: GNB_UplinkNASTransport_def intro!: keeps)

lemma GNB_NASNonDeliveryIndication_safe: "safe GNB_NASNonDeliveryIndication"
  by (rule safeI) (auto simp: GNB_NASNonDeliveryIndication_def intro!: keeps)

lemma AMF_DownlinkNASTransport_safe: "safe AMF_DownlinkNASTransport"
  by (rule safeI) (auto simp: AMF_DownlinkNASTransport_def Let_def intro!: keeps)

text \<open>Loops over the PDU sessions of a user and over the items of a list.\<close>

lemma each_post:
  assumes "sig_ok (gw G)"
  shows "post (release_each env G n rs) (\<lambda>x. sig_ok (gw x))" "post (fail_each env G info rs) (\<lambda>x. sig_ok (gw x))"
    "post (finish_each env G n rs) (\<lambda>x. sig_ok (gw x))"
  using assms by (induction rs arbitrary: G) (auto intro!: keeps)

lemmas [keeps] = each_post [THEN post_mono]

lemma reset_targets_post: "sig_ok W \<Longrightarrow> post (reset_targets W n rs) sig_ok"
  by (induction rs arbitrary: W) (auto intro!: keeps)

lemmas [keeps] = reset_targets_post [THEN post_mono]

lemma each_item_post:
  assumes "I L" "\<And>L it. I L \<Longrightarrow> post (step L it) I"
  shows "post (each_item step L its) I"
  using assms(1) by (induction its arbitrary: L) (auto intro: post_mono assms(2))

section \<open>Handlers of messages from an AMF\<close>

lemma AMF_PDUSessionResourceReleaseCmd_safe: "safe AMF_PDUSessionResourceReleaseCmd"
  by (rule safeI) (auto simp: AMF_PDUSessionResourceReleaseCmd_def split: option.split intro!: keeps)

lemma release_user_post: "ok1 R \<Longrightarrow> post (release_user env R info) ok2"
  unfolding release_user_def by (auto split: option.split intro!: keeps)

lemmas [keeps] = release_user_post [THEN post_mono]

lemma AMF_UEContextReleaseCommand_safe: "safe AMF_UEContextReleaseCommand"
  by (rule safeI) (auto simp: AMF_UEContextReleaseCommand_def Let_def split: option.split intro!: keeps)

lemma to_all_ok [simp]: "sig_ok (rgw (fst (to_all R info is))) = sig_ok (rgw R)" "fst (fst (to_all R info is)) = fst R"
  by (induction R info "is" rule: to_all.induct) (auto simp: Let_def split: option.split)

lemma SendToAllRAN_ok [simp]:
  "sig_ok (rgw (fst (SendToAllRAN R info))) = sig_ok (rgw R)" "fst (fst (SendToAllRAN R info)) = fst R"
  by (simp_all add: SendToAllRAN_def)

lemma SendToAllRAN_pair: "SendToAllRAN R info = (R', info') \<Longrightarrow> ok1 R \<Longrightarrow> ok1 R'"
  using SendToAllRAN_ok by (metis fst_conv)

lemma broadcast_safe:
  "safe AMF_OverloadStart" "safe AMF_OverloadStop" "safe AMF_DLNonUEAsNRPPaTrspt" "safe AMF_WriteRepWarningReq" "safe AMF_PWSCancelReq"
  by (rule safeI, auto simp: AMF_OverloadStart_def AMF_OverloadStop_def AMF_DLNonUEAsNRPPaTrspt_def AMF_WriteRepWarningReq_def
      AMF_PWSCancelReq_def to_all_unless_area_def split: prod.split dest: SendToAllRAN_pair)+

lemma SendNgSetup_post: "ok1 R \<Longrightarrow> post (SendNgSetup env R info) (\<lambda>x. ok2 x \<and> fst (fst x) = fst R)"
  unfolding SendNgSetup_def by (auto simp: Let_def split: option.split list.split intro!: keeps)

lemmas [keeps] = SendNgSetup_post [THEN post_mono]

lemma AddTimer_ok [simp]: "rgw (AddTimer R p) = rgw R" "fst (AddTimer R p) = fst R\<lparr>nw_timers := nw_timers (fst R) @ [p]\<rparr>"
  by (simp_all add: AddTimer_def)

lemma timer_added: "net_ok N \<Longrightarrow> nw_asm N p \<noteq> None \<Longrightarrow> net_ok (N\<lparr>nw_timers := nw_timers N @ [p]\<rparr>)"
  by (simp add: net_ok_def)

lemma amf_added:
  assumes "net_ok N" "i < MAX_AMF_SESSIONS" "nw_amf_sctp_list N i = NULL" "nw_amfid N < MAX_AMF_SESSIONS"
    and "ac_sctp_index c = i" "ac_amfId c = nw_amfid N"
  shows "net_ok (N\<lparr>nw_brk := Suc (nw_brk N), nw_amfid := Suc (nw_amfid N), nw_asm := (nw_asm N)(nw_brk N \<mapsto> c),
     nw_amf_sctp_list := (nw_amf_sctp_list N)(i := nw_brk N), nw_amf_list := (nw_amf_list N)(nw_amfid N := nw_brk N)\<rparr>)"
    (is "net_ok ?N")
proof -
  have ok: "amfs_ok N" and pos: "0 < nw_brk N" "0 < nw_amfid N" using assms(1) by (simp_all add: net_ok_def)
  have fresh: "nw_asm N (nw_brk N) = None" using amfs_okD(1) [OF ok, of "nw_brk N"] by (cases "nw_asm N (nw_brk N)") auto
  have "amfs_ok ?N"
  proof (rule amfs_okI)
    fix p assume "nw_asm ?N p \<noteq> None"
    then show "0 < p \<and> p < nw_brk ?N" using amfs_okD(1) [OF ok, of p] pos by (cases "p = nw_brk N") auto
  next
    fix j assume j: "nw_amf_sctp_list ?N j \<noteq> NULL"
    show "j < MAX_AMF_SESSIONS \<and> (\<exists>d. nw_asm ?N (nw_amf_sctp_list ?N j) = Some d \<and> ac_sctp_index d = j \<and>
        nw_amf_list ?N (ac_amfId d) = nw_amf_sctp_list ?N j)"
    proof (cases "j = i")
      case True
      then show ?thesis using assms by simp
    next
      case False
      then have "nw_amf_sctp_list N j \<noteq> NULL" using j by simp
      from amfs_okD(2) [OF ok this] obtain d where d: "j < MAX_AMF_SESSIONS" "nw_asm N (nw_amf_sctp_list N j) = Some d"
        "ac_sctp_index d = j" "nw_amf_list N (ac_amfId d) = nw_amf_sctp_list N j" by blast
      have "nw_amf_list N (ac_amfId d) \<noteq> NULL" using d(4) \<open>nw_amf_sctp_list N j \<noteq> NULL\<close> by simp
      from amfs_okD(3) [OF ok this] have "ac_amfId d \<noteq> nw_amfid N" by simp
      moreover have "nw_amf_sctp_list N j \<noteq> nw_brk N" using d(2) fresh by auto
      ultimately show ?thesis using d False by simp
    qed
  next
    fix a assume a: "nw_amf_list ?N a \<noteq> NULL"
    show "0 < a \<and> a < nw_amfid ?N \<and> a < MAX_AMF_SESSIONS \<and> (\<exists>d. nw_asm ?N (nw_amf_list ?N a) = Some d \<and> ac_amfId d = a \<and>
        nw_amf_sctp_list ?N (ac_sctp_index d) = nw_amf_list ?N a)"
    proof (cases "a = nw_amfid N")
      case True
      then show ?thesis using assms pos by simp
    next
      case False
      then have "nw_amf_list N a \<noteq> NULL" using a by simp
      from amfs_okD(3) [OF ok this] obtain d where d: "0 < a" "a < nw_amfid N" "a < MAX_AMF_SESSIONS" "nw_asm N (nw_amf_list N a) = Some d"
        "ac_amfId d = a" "nw_amf_sctp_list N (ac_sctp_index d) = nw_amf_list N a" by blast
      have "ac_sctp_index d \<noteq> i" using d(6) assms(3) \<open>nw_amf_list N a \<noteq> NULL\<close> by auto
      moreover have "nw_amf_list N a \<noteq> nw_brk N" using d(4) fresh by auto
      ultimately show ?thesis using d False by simp
    qed
  qed
  then show ?thesis using assms(1) pos by (auto simp: net_ok_def)
qed

lemma AddAmf_post: "ok1 R \<Longrightarrow> post (AddAmf R g i pr) ok1"
proof -
  assume ok: "ok1 R"
  let ?c = "\<lparr>ac_sctp_index = i, ac_stream_no = 0, ac_isNgSetup = False, ac_relativeCapacity = 0, ac_ConnTimes = 0,
         ac_amfName = [], ac_amfId = nw_amfid (fst R), ac_idSigGW = g, ac_priority = pr\<rparr>"
  have "ok1 R'" if "AddAmf R g i pr = Some R'" for R'
  proof (cases "MAX_AMF_SESSIONS \<le> i \<or> nw_amf_sctp_list (fst R) i \<noteq> NULL \<or> MAX_AMF_SESSIONS \<le> nw_amfid (fst R)")
    case True
    then show ?thesis using that ok by (auto simp: AddAmf_def Let_def split: if_splits)
  next
    case False
    then show ?thesis using that ok timer_added [OF amf_added [of "fst R" i ?c], of "nw_brk (fst R)"]
      by (auto simp: AddAmf_def Let_def split: if_splits)
  qed
  then show ?thesis by (rule postI)
qed

lemma links_post:
  assumes "ok1 R"
  shows "post (CheckSctpToAmf env R p) ok1" "post (handleNgSetupResponse R i info) ok2"
proof -
  show "post (CheckSctpToAmf env R p) ok1"
  proof (cases "p = NULL \<or> nw_asm (fst R) p = None")
    case False
    then show ?thesis unfolding CheckSctpToAmf_def using assms by (auto intro!: keeps timer_added)
  qed (auto simp: CheckSctpToAmf_def assms)
  show "post (handleNgSetupResponse R i info) ok2"
    unfolding handleNgSetupResponse_def using assms by (auto simp: Let_def intro!: keeps)
qed

lemmas [keeps] = links_post [THEN post_mono] AddAmf_post [THEN post_mono]

lemma restart_post:
  assumes "ok1 R"
  shows "post (AsmManager_OnTimer env R) ok1" "post (AsmManager_Clear env R i) ok2" "post (AsmManager_Restart env R i) ok2"
  unfolding AsmManager_OnTimer_def AsmManager_Clear_def AsmManager_Restart_def using assms
  by (auto simp: Let_def timers_ok split: list.split intro!: keeps)

lemmas [keeps] = restart_post [THEN post_mono]

lemma reset_ack_ok [simp]:
  "sig_ok (rgw (AsmManager_SendResetAck env R info)) = sig_ok (rgw R)" "sig_ok (rgw (SendCfgUpdAck env R info)) = sig_ok (rgw R)"
  "sig_ok (rgw (fst (EsmManager_SendResetAck env R info))) = sig_ok (rgw R)"
  "fst (AsmManager_SendResetAck env R info) = fst R" "fst (SendCfgUpdAck env R info) = fst R"
  "fst (fst (EsmManager_SendResetAck env R info)) = fst R"
  by (simp_all add: AsmManager_SendResetAck_def SendCfgUpdAck_def EsmManager_SendResetAck_def Let_def)

lemma link_messages_safe: "safe AMF_Paging" "safe AMF_ResetAck" "safe AMF_StatusInd" "safe AMF_CfgUpdate" "safe AMF_NgSetupResponse"
  by (rule safeI, auto simp: AMF_Paging_def AMF_ResetAck_def AMF_StatusInd_def AMF_CfgUpdate_def AMF_NgSetupResponse_def
      split: option.split intro!: keeps)+

lemma AMF_Reset_safe: "safe AMF_Reset"
  by (rule safeI) (auto simp: AMF_Reset_def split: reset_type.split prod.split intro!: keeps dest: SendToAllRAN_pair)

text \<open>Requests with tunnels.\<close>

lemma start_count_post: "sig_ok W \<Longrightarrow> post (start_count W p n) sig_ok" "sig_ok W \<Longrightarrow> post (keep_pdu_id W p r) sig_ok"
  unfolding start_count_def keep_pdu_id_def by (auto intro!: keeps)

lemmas [keeps] = start_count_post [THEN post_mono]

abbreviation req_ok :: "req_loop \<Rightarrow> bool" where
  "req_ok L \<equiv> ok1 (lp_relay L)"

abbreviation rsp_ok :: "rsp_loop \<Rightarrow> bool" where
  "rsp_ok L \<equiv> ok1 (rl_relay L)"

lemma su_tunnel_post: "req_ok L \<Longrightarrow> post (su_tunnel env p L r g) req_ok"
  unfolding su_tunnel_def by (auto simp: Let_def intro!: keeps)

lemmas [keeps] = su_tunnel_post [THEN post_mono]

lemma store_resource_post: "req_ok L \<Longrightarrow> post (store_resource L r res) req_ok"
  unfolding store_resource_def by (auto intro!: keeps)

lemmas [keeps] = store_resource_post [THEN post_mono]

lemma su_step_post: "req_ok L \<Longrightarrow> post (su_step env p L it) req_ok"
  unfolding su_step_def by (auto simp: Let_def split: option.split tnl_information.split list.split intro!: keeps)

lemma cxt_step_post: "req_ok L \<Longrightarrow> post (cxt_step env p L it) req_ok"
  unfolding cxt_step_def by (auto simp: Let_def split: option.split tnl_information.split intro!: keeps)

lemma update_pdus_post:
  assumes "ok1 R"
  shows "post (AMF_PDUResourceSetupReq_UpdatePduSess env R info items) ok2" "post (update_pdus env R info items) ok2"
  unfolding AMF_PDUResourceSetupReq_UpdatePduSess_def update_pdus_def using assms
  by (auto split: option.split intro!: keeps post_mono [OF each_item_post [where I = req_ok]] su_step_post cxt_step_post
      simp: start_req_def)

lemmas [keeps] = update_pdus_post [THEN post_mono]

lemma AMF_PDUSessionResourceSetupReq_safe: "safe AMF_PDUSessionResourceSetupReq"
  by (rule safeI) (auto simp: AMF_PDUSessionResourceSetupReq_def put_user_rate_def split: option.split intro!: keeps)

text \<open>What is written into a session leaves its identifier.\<close>

lemma put_user_id [simp]: "ns_sessId (put_user_rate x s) = ns_sessId s"
  by (simp add: put_user_rate_def split: option.split)

lemma put_sess_id:
  "post (put_nssai x s) (\<lambda>t. ns_sessId t = ns_sessId s)" "post (put_guami y s) (\<lambda>t. ns_sessId t = ns_sessId s)"
  "post (put_algorithms z s) (\<lambda>t. ns_sessId t = ns_sessId s)" "post (put_key k s) (\<lambda>t. ns_sessId t = ns_sessId s)"
  by (auto simp: put_nssai_def put_guami_def put_algorithms_def put_key_def Let_def split: option.split list.split
      intro!: keeps post_trivial [of _ "be16 _"])

lemma update_user_id: "post (update_user ies s) (\<lambda>t. ns_sessId t = ns_sessId s)"
  unfolding update_user_def by (auto intro!: put_sess_id [THEN post_mono])

lemma update_user_post:
  assumes "ok1 R"
  shows "post (AMF_InitialContextSetupReq_UpdateNgapSess R info) ok2" "post (AMF_HandoverReq_UpdateNgapSess R info) ok2"
  unfolding AMF_InitialContextSetupReq_UpdateNgapSess_def AMF_HandoverReq_UpdateNgapSess_def using assms
  by (auto split: option.split intro!: keeps update_user_id [THEN post_mono] put_sess_id [THEN post_mono])

lemmas [keeps] = update_user_post [THEN post_mono]

lemma AMF_InitialContextSetupReq_safe: "safe AMF_InitialContextSetupReq"
  by (rule safeI) (auto simp: AMF_InitialContextSetupReq_def AMF_InitialContextSetupReq_UpdatePduSess_def intro!: keeps)

lemma AMF_HandoverReq_safe: "safe AMF_HandoverReq"
  by (rule safeI) (auto simp: AMF_HandoverReq_def AMF_HandoverReq_UpdatePduSess_def Let_def split: option.split intro!: keeps)

lemma by_media_safe:
  "safe AMF_PDUSessionResourceSetupReqByMedia" "safe AMF_InitialContextSetupReqByMedia" "safe AMF_HandoverReqByMedia"
  "safe GNB_PDUSessionSetupRspByMedia" "safe GNB_InitialContextSetupSuccessRspByMedia" "safe GNB_HandoverReqAckMedia"
  "safe GNB_PathSwitchRequestByMedia"
  by (rule safeI, auto simp: AMF_PDUSessionResourceSetupReqByMedia_def AMF_InitialContextSetupReqByMedia_def
      AMF_HandoverReqByMedia_def GNB_PDUSessionSetupRspByMedia_def GNB_InitialContextSetupSuccessRspByMedia_def
      GNB_HandoverReqAckMedia_def GNB_PathSwitchRequestByMedia_def Let_def split: option.split intro!: keeps)+

lemma SendHandoverRequest_post:
  assumes "ok1 R"
  shows "post (SendHandoverRequest env R info c) ok2" "post (SendPathSwithRequest env R info nr tai) ok2"
    "post (SendHandoverCommand env R info t2s its) ok1" "post (SendDLRanStatusTsfer env R info st) ok1"
  unfolding SendHandoverRequest_def SendPathSwithRequest_def SendHandoverCommand_def SendDLRanStatusTsfer_def using assms
  by (auto simp: Let_def split: option.split intro!: keeps post_trivial [of _ "t2s"] post_trivial [of _ "st"])

lemmas [keeps] = SendHandoverRequest_post [THEN post_mono]

lemma send_ho_ok [simp]: "sig_ok (rgw (SendUCRelCommand env R info)) = sig_ok (rgw R)"
  "sig_ok (rgw (SendHOPrepareFailure env R info c)) = sig_ok (rgw R)"
  "sig_ok (rgw (SendHandoverCancelAck env R info)) = sig_ok (rgw R)"
  "fst (SendUCRelCommand env R info) = fst R" "fst (SendHOPrepareFailure env R info c) = fst R"
  "fst (SendHandoverCancelAck env R info) = fst R"
  by (simp_all add: SendUCRelCommand_def SendHOPrepareFailure_def SendHandoverCancelAck_def)

lemma ResetHandoverInfo_id [simp]: "ns_sessId (ResetHandoverInfo s) = ns_sessId s"
  by (simp add: ResetHandoverInfo_def)

lemma AMF_PathSwitchReqFailure_safe: "safe AMF_PathSwitchReqFailure"
  by (rule safeI) (auto simp: AMF_PathSwitchReqFailure_def Let_def intro!: keeps)

lemma container_pair:
  "GetSourceToTarget_TransparentContainer W i = (W', c) \<Longrightarrow> sig_ok W \<Longrightarrow> sig_ok W'"
  using container_ok(1) by (metis fst_conv)

lemma AMF_PathSwitchReqAck_safe: "safe AMF_PathSwitchReqAck"
  by (rule safeI) (auto simp: AMF_PathSwitchReqAck_def Let_def split: option.split prod.split
      intro!: keeps put_sess_id [THEN post_mono] dest!: container_pair)

section \<open>Handlers of messages from a radio node\<close>

lemma GNB_InitialUEMessage_safe: "safe GNB_InitialUEMessage"
  by (rule safeI) (auto simp: GNB_InitialUEMessage_def Let_def split: option.split intro!: keeps)

lemma GNB_InitialContextSetupFailureRsp_safe: "safe GNB_InitialContextSetupFailureRsp"
  by (rule safeI) (auto simp: GNB_InitialContextSetupFailureRsp_def split: option.split intro!: keeps)

lemma GNB_UEContextReleaseReq_safe: "safe GNB_UEContextReleaseReq"
  by (rule safeI) (auto simp: GNB_UEContextReleaseReq_def intro!: keeps)

lemma EsmManager_SendResetAck_pair:
  "EsmManager_SendResetAck env R info = (R', i) \<Longrightarrow> ok1 R \<Longrightarrow> ok1 R'"
  using reset_ack_ok(3,6) by (metis fst_conv)

lemma GNB_Reset_safe: "safe GNB_Reset"
  by (rule safeI) (auto simp: GNB_Reset_def split: reset_type.split prod.split intro!: keeps dest: EsmManager_SendResetAck_pair)

lemma setup_answer_ok [simp]:
  "sig_ok (rgw (SendNgSetupFailure env R c info)) = sig_ok (rgw R)"
  "sig_ok (rgw (fst (SendNgSetupResponse env R info))) = sig_ok (rgw R)"
  "fst (SendNgSetupFailure env R c info) = fst R" "fst (fst (SendNgSetupResponse env R info)) = fst R"
  by (simp_all add: SendNgSetupFailure_def SendNgSetupResponse_def Let_def split: option.split list.split)

lemma node_messages_safe: "safe GNB_ResetAck" "safe GNB_AMFStatusIndication" "safe GNB_RANConfigurationUpdate"
  by (rule safeI, simp add: GNB_ResetAck_def GNB_AMFStatusIndication_def GNB_RANConfigurationUpdate_def)+

text \<open>Reading the setup request leaves the association of the context.\<close>

lemma set_node_index [simp]: "ec_sctp_index (set_node f g h k c) = ec_sctp_index c"
  by (simp add: set_node_def)

lemma HandlePlmn_index: "HandlePlmn env b c = Some (c', r) \<Longrightarrow> ec_sctp_index c' = ec_sctp_index c"
  by (auto simp: HandlePlmn_def Option.bind_eq_Some_conv split: option.splits if_splits)

lemma HandleGlobalRANNodeID_index: "HandleGlobalRANNodeID env g c = Some (c', r) \<Longrightarrow> ec_sctp_index c' = ec_sctp_index c"
proof (cases g)
  case (Global_gNB plmn i)
  assume h: "HandleGlobalRANNodeID env g c = Some (c', r)"
  then obtain d q where d: "HandlePlmn env plmn c = Some (d, q)" using Global_gNB
    by (auto simp: HandleGlobalRANNodeID_def Option.bind_eq_Some_conv)
  show ?thesis using h Global_gNB d HandlePlmn_index [OF d]
    by (cases i; cases "q = NGAP_CHECK_RNI_OK") (auto simp: HandleGlobalRANNodeID_def Option.bind_eq_Some_conv)
next
  case (Global_ngENB plmn i)
  assume h: "HandleGlobalRANNodeID env g c = Some (c', r)"
  then obtain d q where d: "HandlePlmn env plmn c = Some (d, q)" using Global_ngENB
    by (auto simp: HandleGlobalRANNodeID_def Option.bind_eq_Some_conv)
  show ?thesis using h Global_ngENB d HandlePlmn_index [OF d]
    by (cases i; cases "q = NGAP_CHECK_RNI_OK") (auto simp: HandleGlobalRANNodeID_def Let_def)
qed (simp add: HandleGlobalRANNodeID_def)

lemma setup_req_ies_index: "setup_req_ies env ies c tas = Some (c', tas', r) \<Longrightarrow> ec_sctp_index c' = ec_sctp_index c"
proof (induction ies arbitrary: c tas)
  case (Cons ie ies)
  show ?case
  proof (cases ie)
    case (IE_GlobalRANNodeID g)
    then obtain d q where d: "HandleGlobalRANNodeID env g c = Some (d, q)" using Cons.prems by (auto simp: Option.bind_eq_Some_conv)
    then show ?thesis using Cons IE_GlobalRANNodeID HandleGlobalRANNodeID_index [OF d] by (cases "q = NGAP_CHECK_RNI_OK") auto
  qed (use Cons.prems in \<open>auto dest!: Cons.IH\<close>)
qed simp

lemma setup_req_ies_post: "post (setup_req_ies env ies c tas) (\<lambda>x. ec_sctp_index (fst x) = ec_sctp_index c)"
  using setup_req_ies_index by (auto intro!: postI)

lemma GNB_SetupReq_safe: "safe GNB_SetupReq"
  by (rule safeI) (auto simp: GNB_SetupReq_def Let_def Setup_ok split: option.split intro!: setup_req_ies_post [THEN post_mono] keeps)

lemma GNB_UEContextReleaseComplete_safe: "safe GNB_UEContextReleaseComplete"
  by (rule safeI) (auto simp: GNB_UEContextReleaseComplete_def Let_def split: option.split intro!: keeps)

lemma GNB_HandoverFailure_safe: "safe GNB_HandoverFailure"
  by (rule safeI) (auto simp: GNB_HandoverFailure_def Let_def split: option.split intro!: keeps)

lemma GNB_HandoverNotify_safe: "safe GNB_HandoverNotify"
  by (rule safeI) (auto simp: GNB_HandoverNotify_def Let_def split: option.split intro!: keeps)

lemma GNB_HandoverCancel_safe: "safe GNB_HandoverCancel"
  by (rule safeI) (auto simp: GNB_HandoverCancel_def Let_def split: option.split intro!: keeps)

text \<open>Answers with tunnels.\<close>

lemma rsp_step_post: "rsp_ok L \<Longrightarrow> post (rsp_step env c L it) rsp_ok"
  unfolding rsp_step_def by (auto split: option.split tnl_information.split intro!: keeps)

lemma ho_steps_post:
  assumes "rsp_ok L"
  shows "post (ho_ack_step env L it) rsp_ok" "post (ho_target_step env n L it) rsp_ok"
  unfolding ho_ack_step_def ho_target_step_def using assms
  by (auto split: option.split tnl_information.split intro!: keeps rsp_step_post [THEN post_mono])

lemma rsp_items_post:
  assumes "rsp_ok L"
  shows "post (each_item (rsp_step env c) L its) rsp_ok" "post (each_item (ho_ack_step env) L its) rsp_ok"
    "post (each_item (ho_target_step env n) L its) rsp_ok"
    "post (each_item (\<lambda>L. rsp_step env c (L\<lparr>rl_decoded := False\<rparr>)) L its) rsp_ok"
  using assms by (auto intro!: each_item_post [where I = rsp_ok] rsp_step_post ho_steps_post)

lemmas [keeps] = rsp_items_post [THEN post_mono]

lemma start_rsp_relay [simp]: "rl_relay (start_rsp env R info) = R"
  by (simp add: start_rsp_def)

lemma GNB_PDUSessionSetupRsp_safe: "safe GNB_PDUSessionSetupRsp"
  by (rule safeI) (auto simp: GNB_PDUSessionSetupRsp_def Let_def split: option.split intro!: keeps)

lemma GNB_InitialContextSetupSuccessRsp_safe: "safe GNB_InitialContextSetupSuccessRsp"
  by (rule safeI) (auto simp: GNB_InitialContextSetupSuccessRsp_def Let_def split: option.split intro!: keeps)

lemma GNB_HandoverReqAck_safe: "safe GNB_HandoverReqAck"
  by (rule safeI) (auto simp: GNB_HandoverReqAck_def Let_def split: option.split intro!: keeps)

lemma GNB_PathSwitchRequest_safe: "safe GNB_PathSwitchRequest"
  by (rule safeI) (auto simp: GNB_PathSwitchRequest_def Let_def split: option.split intro!: keeps)

lemma keep_drbs_ok: "sig_ok W \<Longrightarrow> sig_ok (keep_drbs W n xs)"
proof (induction W n xs rule: keep_drbs.induct)
  case (2 W n r ds xs)
  have "sig_ok (fold (\<lambda>d W. fst (prepareHoDrb W n (r mod 256) (d mod 256))) ds V)" if "sig_ok V" for V
    using that by (induction ds arbitrary: V) simp_all
  then show ?case using 2 by simp
qed simp

lemma container_info_pair:
  "GNB_GetInfoFromS2TTransparentContainer2 env R info b = (R', c, ok) \<Longrightarrow> ok1 R \<Longrightarrow> ok1 R'"
  by (auto simp: GNB_GetInfoFromS2TTransparentContainer2_def keep_drbs_ok split: option.splits)

lemma GNB_HandoverRequired_safe: "safe GNB_HandoverRequired"
  by (rule safeI) (auto simp: GNB_HandoverRequired_def Let_def split: option.split prod.split target_id.split
      intro!: keeps post_trivial [where 'a = s2t_container] dest!: container_info_pair)

lemma GNB_ULRanStatusTsfer_safe: "safe GNB_ULRanStatusTsfer"
  by (rule safeI) (auto simp: GNB_ULRanStatusTsfer_def Let_def split: option.split intro!: keeps)

section \<open>The signalling gateway\<close>

text \<open>
  The state after the module is loaded, and its steps: a packet from an AMF or a radio node, the loss of
  one of them, the timers of links, AMFs and sessions (those of sessions in any order), an event from the media gateway, and what other
  modules do to the event bus.
\<close>

definition start_net :: ran_net where
  "start_net = AsmManager_Init \<lparr>nw_esm = (\<lambda>_. None), nw_amf_list = (\<lambda>_. NULL), nw_amf_sctp_list = (\<lambda>_. NULL),
     nw_asm = (\<lambda>_. None), nw_amfid = 1, nw_timers = [], nw_brk = 1\<rparr>"

definition start_nsm :: "ngap_lib \<Rightarrow> sctp_link list \<Rightarrow> nsm" where
  "start_nsm L links = Epm_Init L (APM_Init L (NsmManager_Init links))"

inductive relay_step :: "ngap_lib \<Rightarrow> relay_env \<Rightarrow> nsm \<times> relay \<Rightarrow> nsm \<times> relay \<Rightarrow> bool" for L env where
  rs_amf: "handle_amf_sctp_msg_read L K env R i st ppid buf g m = Some R' \<Longrightarrow> relay_step L env (K, R) (K, R')"
| rs_gnb: "handle_gnb_sctp_msg_read L K env R i st ppid buf g m = Some R' \<Longrightarrow> relay_step L env (K, R) (K, R')"
| rs_amf_lost: "handle_amf_sctp_err env R i = Some R' \<Longrightarrow> relay_step L env (K, R) (K, R')"
| rs_gnb_lost: "handle_gnb_sctp_err env R i = Some R' \<Longrightarrow> relay_step L env (K, R) (K, R')"
| rs_links: "handle_sctp_timeout K R = Some (K', R') \<Longrightarrow> relay_step L env (K, R) (K', R')"
| rs_amf_timer: "AsmManager_OnTimer env R = Some R' \<Longrightarrow> relay_step L env (K, R) (K, R')"
| rs_media: "media_answer env R e = Some R' \<Longrightarrow> relay_step L env (K, R) (K, R')"
| rs_timer: "run_timer k (rgw R) = Some W' \<Longrightarrow> relay_step L env (K, R) (K, put_rgw R W')"
| rs_bus: "relay_step L env (K, N, S, W) (K, N, S', W)"

definition callbacks_safe :: "nsm \<Rightarrow> bool" where
  "callbacks_safe K \<longleftrightarrow> (\<forall>k h. nk_recvAmf K k = Some h \<or> nk_recvGnb K k = Some h \<longrightarrow> safe h)"

lemma Register_safe:
  assumes "callbacks_safe K" "safe h"
  shows "callbacks_safe (RegisterUpLayerRecv K c p h)" "callbacks_safe (RegisterDownLayerRecv K c p h)"
  using assms by (auto simp: callbacks_safe_def RegisterUpLayerRecv_def RegisterDownLayerRecv_def Let_def)

lemma plain_all: "safe (\<lambda>env R info. amf_relay R info) \<and> safe (\<lambda>env R info. gnb_relay env R info)"
  using plain_safe(1,2) by blast

lemma handlers_safe:
  "\<forall>(c, p, h) \<in> set apm_callbacks. safe h" "\<forall>(c, p, h) \<in> set epm_callbacks. safe h"
proof -
  have plain: "safe h" if "h = (\<lambda>env R info. amf_relay R info) \<or> h = (\<lambda>env R info. gnb_relay env R info)" for h
    using that plain_all by blast
  have "safe AMF_UEContextModificationReq" "safe AMF_HandoverCommand" "safe AMF_HandoverPreparationFailure"
    "safe AMF_HandoverCancelAck" "safe AMF_DLRanStatusTsfer" "safe AMF_UERadioCapabilityCheckReq"
    "safe AMF_PDUSessionResourceModifyConfirm" "safe AMF_TraceStart" "safe AMF_DeActTrace" "safe AMF_LocRepCtr"
    "safe AMF_UETNLABindingRelReq" "safe AMF_DLUEAsNRPPaTrspt" "safe AMF_RerouteNASReq" "safe AMF_PDUSessionResourceModifyReq"
    by (rule plain, simp add: fun_eq_iff plain_defs)+
  then show "\<forall>(c, p, h) \<in> set apm_callbacks. safe h"
    by (simp add: apm_callbacks_def plain_safe broadcast_safe link_messages_safe AMF_DownlinkNASTransport_safe
      AMF_PDUSessionResourceReleaseCmd_safe AMF_UEContextReleaseCommand_safe AMF_Reset_safe AMF_PDUSessionResourceSetupReq_safe
      AMF_InitialContextSetupReq_safe AMF_HandoverReq_safe AMF_PathSwitchReqAck_safe AMF_PathSwitchReqFailure_safe)
  have "safe GNB_PDUSessionModifyRsp" "safe GNB_PDUSessionModifyInd" "safe GNB_PDUSessionReleaseRsp"
    "safe GNB_PDUSessionRsrNotify" "safe GNB_UEContextModificationSuccessRsp" "safe GNB_UEContextModificationFailureRsp"
    "safe GNB_UERadioCapInfoInd" "safe GNB_RRCInactTrstRpt" "safe GNB_LocationReport"
    by (rule plain, simp add: fun_eq_iff plain_defs)+
  then show "\<forall>(c, p, h) \<in> set epm_callbacks. safe h"
    by (simp add: epm_callbacks_def plain_safe node_messages_safe GNB_InitialUEMessage_safe GNB_InitialContextSetupFailureRsp_safe
      GNB_UEContextReleaseReq_safe GNB_Reset_safe GNB_SetupReq_safe GNB_UEContextReleaseComplete_safe GNB_HandoverFailure_safe
      GNB_HandoverNotify_safe GNB_HandoverCancel_safe GNB_PDUSessionSetupRsp_safe GNB_InitialContextSetupSuccessRsp_safe
      GNB_HandoverReqAck_safe GNB_PathSwitchRequest_safe GNB_HandoverRequired_safe GNB_ULRanStatusTsfer_safe
      GNB_UplinkNASTransport_safe GNB_NASNonDeliveryIndication_safe)
qed

lemma Init_safe:
  assumes "callbacks_safe K"
  shows "callbacks_safe (APM_Init L K)" "callbacks_safe (Epm_Init L K)"
proof -
  have "callbacks_safe (fold (\<lambda>(c, p, h) K. RegisterUpLayerRecv K (choice_number c) (nl_number L p) h) cs K)"
    if "\<forall>(c, p, h) \<in> set cs. safe h" "callbacks_safe K" for cs K
    using that by (induction cs arbitrary: K) (auto simp: Register_safe)
  then show "callbacks_safe (APM_Init L K)" using handlers_safe(1) assms by (simp add: APM_Init_def)
  have "callbacks_safe (fold (\<lambda>(c, p, h) K. RegisterDownLayerRecv K (choice_number c) (nl_number L p) h) cs K)"
    if "\<forall>(c, p, h) \<in> set cs. safe h" "callbacks_safe K" for cs K
    using that by (induction cs arbitrary: K) (auto simp: Register_safe)
  then show "callbacks_safe (Epm_Init L K)" using handlers_safe(2) assms by (simp add: Epm_Init_def)
qed

lemma start_nsm_safe: "callbacks_safe (start_nsm L links)"
  unfolding start_nsm_def
  by (intro Init_safe) (simp add: callbacks_safe_def NsmManager_Init_def StartSctpTimer_def Let_def)

lemma Process_post:
  assumes "callbacks_safe K" "ok1 R"
  shows "post (ProcessAmfMsg L K env R info) ok2" "post (ProcessGnbMsg L K env R info) ok2"
  unfolding ProcessAmfMsg_def ProcessGnbMsg_def using assms
  by (auto simp: Let_def callbacks_safe_def split: option.split intro!: safeD)

lemma run_calls_post: "ok1 R \<Longrightarrow> post (run_calls env R cs) ok1"
proof (induction cs arbitrary: R)
  case (Cons c cs)
  have "safe h" if "by_media c = Some (h, info)" for h info
    using that by (cases c) (auto simp: by_media_safe)
  then have "post (h env R info) ok2" if "by_media c = Some (h, info)" for h info
    using that Cons.prems by (intro safeD)
  then show ?case using Cons by (auto split: option.split elim!: post_mono)
qed simp

lemma start_links_post:
  assumes "callbacks_safe K" "ok1 R"
  shows "post (start_links K R ls) (\<lambda>x. callbacks_safe (fst x) \<and> ok1 (snd x))"
  using assms by (induction ls arbitrary: K R) (auto intro!: keeps simp: callbacks_safe_def)

lemma relay_step_ok:
  assumes "relay_step L env (K, R) (K', R')" "callbacks_safe K" "ok1 R"
  shows "callbacks_safe K' \<and> ok1 R'"
  using assms(1)
proof cases
  case (rs_amf i st ppid buf g m)
  have "post (handle_amf_sctp_msg_read L K env R i st ppid buf g m) ok1"
    unfolding handle_amf_sctp_msg_read_def using assms(2,3)
    by (auto split: option.split intro!: keeps Process_post [THEN post_mono])
  then show ?thesis using rs_amf assms(2) by (auto dest: postD)
next
  case (rs_gnb i st ppid buf g m)
  have "post (handle_gnb_sctp_msg_read L K env R i st ppid buf g m) ok1"
    unfolding handle_gnb_sctp_msg_read_def using assms(2,3)
    by (auto simp: Let_def split: option.split intro!: Process_post [THEN post_mono])
  then show ?thesis using rs_gnb assms(2) by (auto dest: postD)
next
  case (rs_amf_lost i)
  have "post (handle_amf_sctp_err env R i) ok1"
    unfolding handle_amf_sctp_err_def using assms(3) by (auto intro!: keeps)
  then show ?thesis using rs_amf_lost assms(2) by (auto dest: postD)
next
  case (rs_gnb_lost i)
  have "post (handle_gnb_sctp_err env R i) ok1"
    unfolding handle_gnb_sctp_err_def using assms(3) by (auto intro!: keeps)
  then show ?thesis using rs_gnb_lost assms(2) by (auto dest: postD)
next
  case rs_links
  then show ?thesis using start_links_post [OF assms(2,3), of "nk_links K"] by (auto simp: handle_sctp_timeout_def dest: postD)
next
  case rs_amf_timer
  then show ?thesis using restart_post(1) [OF assms(3), of env] assms(2) by (auto dest: postD)
next
  case (rs_media e)
  have "post (media_answer env R e) ok1"
    unfolding media_answer_def using assms(3) by (auto intro!: keeps run_calls_post)
  then show ?thesis using rs_media assms(2) by (auto dest: postD)
next
  case (rs_timer k W')
  then show ?thesis using assms(2,3) run_timer_ok by simp
qed (use assms(2,3) in auto)

lemma relay_steps_ok:
  assumes "(relay_step L env)\<^sup>*\<^sup>* X Y" "callbacks_safe (fst X)" "ok1 (snd X)"
  shows "callbacks_safe (fst Y) \<and> ok1 (snd Y)"
  using assms
proof (induction rule: rtranclp_induct)
  case (step Y Z)
  then show ?case using relay_step_ok [of L env "fst Y" "snd Y" "fst Z" "snd Z"] by simp
qed blast

lemma start_net_ok: "net_ok start_net"
  by (simp add: start_net_def AsmManager_Init_def net_ok_def amfs_ok_def)

lemma relay_reachable_ok:
  assumes "(relay_step L env)\<^sup>*\<^sup>* (start_nsm L links, start_net, S, start_sig medias) (K, R)"
  shows "callbacks_safe K" "sig_ok (rgw R)" "net_ok (fst R)"
  using relay_steps_ok [OF assms] start_nsm_safe start_net_ok start_sig_ok by auto

end
