(* ===== verification/Relay_Laws.thy ===== *)
theory Relay_Laws
  imports Relay_Ok
begin

text \<open>
  What the signalling gateway does with network messages: which handler a message reaches, that a relayed
  message leaves once and with the identifiers of the other side, that an answer comes back with the
  identifiers it was asked with, and what is not so.
\<close>

section \<open>The table of callbacks\<close>

text \<open>The handlers by kind and procedure, and what is asked of the numbers of the procedures.\<close>

definition handler_table :: "(pdu_choice \<times> proc_code \<times> handler) list \<Rightarrow> ((pdu_choice \<times> proc_code) \<times> handler) list" where
  "handler_table cs = map (\<lambda>(c, p, h). ((c, p), h)) cs"

definition run_handler :: "handler option \<Rightarrow> handler" where
  "run_handler h env R info = (case h of None \<Rightarrow> Some (R, info, False) | Some h \<Rightarrow> h env R info)"

definition numbers_ok :: "ngap_lib \<Rightarrow> bool" where
  "numbers_ok L \<longleftrightarrow> inj (nl_number L) \<and> (\<forall>p. (\<forall>n. p \<noteq> id_other n) \<longrightarrow> nl_number L p \<le> 255)"

lemma choice_number_eq [simp]: "choice_number c = choice_number d \<longleftrightarrow> c = d"
  by (cases c; cases d) simp_all

lemma choice_number_less: "choice_number c < 4"
  by (cases c) simp_all

lemma GetKey_small: "n \<le> 255 \<Longrightarrow> GetKey (choice_number c) n = choice_number c * 256 + n"
  using choice_number_less[of c] by (simp add: GetKey_def)

lemma GetKey_less: "n \<le> 255 \<Longrightarrow> GetKey (choice_number c) n < MAX_PDU_KEY"
  using choice_number_less[of c] by (simp add: GetKey_small)

lemma GetKey_large: "255 < n \<Longrightarrow> GetKey c n = MAX_PDU_KEY"
  by (simp add: GetKey_def)

lemma GetKey_inj:
  assumes "GetKey (choice_number c) m = GetKey (choice_number d) n" "m \<le> 255" "n \<le> 255"
  shows "c = d \<and> m = n"
proof -
  have "choice_number c * 256 + m = choice_number d * 256 + n" using assms by (simp add: GetKey_small)
  then have "(choice_number c * 256 + m) div 256 = (choice_number d * 256 + n) div 256"
    "(choice_number c * 256 + m) mod 256 = (choice_number d * 256 + n) mod 256" by simp_all
  then have "choice_number c = choice_number d \<and> m = n" using assms(2,3) by simp
  then show ?thesis by simp
qed

lemma handler_table_Nil [simp]: "handler_table [] = []"
  by (simp add: handler_table_def)

lemma handler_table_snoc [simp]: "handler_table (cs @ [(c, p, h)]) = handler_table cs @ [((c, p), h)]"
  by (simp add: handler_table_def)

text \<open>
  A table of callbacks: a registration changes the entry of its key. A table that is filled by registrations
  gives back the last handler of a key.
\<close>

locale callback_table =
  fixes recv :: "nsm \<Rightarrow> nat \<Rightarrow> handler option"
    and reg :: "nsm \<Rightarrow> nat \<Rightarrow> nat \<Rightarrow> handler \<Rightarrow> nsm"
  assumes recv_reg: "recv (reg K c n h) k = (if GetKey c n < MAX_PDU_KEY \<and> k = GetKey c n then Some h else recv K k)"
begin

lemma registered:
  assumes "numbers_ok L" "\<forall>(c, p, h) \<in> set cs. nl_number L p \<le> 255" "nl_number L p \<le> 255"
  shows "recv (fold (\<lambda>(c, p, h) K. reg K (choice_number c) (nl_number L p) h) cs K)
      (GetKey (choice_number c) (nl_number L p))
    = (case map_of (rev (handler_table cs)) (c, p) of
         None \<Rightarrow> recv K (GetKey (choice_number c) (nl_number L p)) | Some h \<Rightarrow> Some h)"
  using assms(2)
proof (induction cs rule: rev_induct)
  case (snoc x cs)
  obtain d q h where x: "x = (d, q, h)" by (cases x)
  have q: "nl_number L q \<le> 255" using snoc.prems x by simp
  have eq: "GetKey (choice_number c) (nl_number L p) = GetKey (choice_number d) (nl_number L q) \<longleftrightarrow> c = d \<and> p = q"
    using GetKey_inj [OF _ assms(3) q, of c d] assms(1) by (auto simp: numbers_ok_def inj_eq)
  show ?case using snoc x q eq GetKey_less [OF q, of d] by (auto simp: recv_reg)
qed simp

end

interpretation up: callback_table nk_recvAmf RegisterUpLayerRecv
  by unfold_locales (auto simp: RegisterUpLayerRecv_def Let_def)

interpretation down: callback_table nk_recvGnb RegisterDownLayerRecv
  by unfold_locales (auto simp: RegisterDownLayerRecv_def Let_def)

lemma other_table [simp]:
  "nk_recvAmf (Epm_Init L K) = nk_recvAmf K" "nk_recvGnb (APM_Init L K) = nk_recvGnb K"
proof -
  have "nk_recvAmf (fold (\<lambda>(c, p, h) K. RegisterDownLayerRecv K (choice_number c) (nl_number L p) h) cs K) = nk_recvAmf K" for cs K
    by (induction cs arbitrary: K) (auto simp: RegisterDownLayerRecv_def Let_def)
  then show "nk_recvAmf (Epm_Init L K) = nk_recvAmf K" by (simp add: Epm_Init_def)
  have "nk_recvGnb (fold (\<lambda>(c, p, h) K. RegisterUpLayerRecv K (choice_number c) (nl_number L p) h) cs K) = nk_recvGnb K" for cs K
    by (induction cs arbitrary: K) (auto simp: RegisterUpLayerRecv_def Let_def)
  then show "nk_recvGnb (APM_Init L K) = nk_recvGnb K" by (simp add: APM_Init_def)
qed

lemma map_of_rev: "distinct (map fst xs) \<Longrightarrow> map_of (rev xs) = map_of xs"
  by (subst map_of_inject_set) (simp_all add: rev_map [symmetric])

lemma tables_distinct:
  "distinct (map fst (handler_table apm_callbacks))" "distinct (map fst (handler_table epm_callbacks))"
  by (simp_all add: handler_table_def apm_callbacks_def epm_callbacks_def)

lemma registered_codes:
  assumes "numbers_ok L"
  shows "\<forall>(c, p, h) \<in> set apm_callbacks. nl_number L p \<le> 255" "\<forall>(c, p, h) \<in> set epm_callbacks. nl_number L p \<le> 255"
  using assms by (simp_all add: numbers_ok_def apm_callbacks_def epm_callbacks_def)

lemma other_not_registered:
  "map_of (handler_table apm_callbacks) (c, id_other n) = None" "map_of (handler_table epm_callbacks) (c, id_other n) = None"
  by (simp_all add: handler_table_def apm_callbacks_def epm_callbacks_def)

lemma lookup_up:
  assumes "numbers_ok L" "nl_number L p \<le> 255"
  shows "nk_recvAmf (start_nsm L links) (GetKey (choice_number c) (nl_number L p)) = map_of (handler_table apm_callbacks) (c, p)"
  using up.registered [OF assms(1) registered_codes(1) [OF assms(1)] assms(2)] map_of_rev [OF tables_distinct(1)]
  by (simp add: start_nsm_def APM_Init_def NsmManager_Init_def StartSctpTimer_def Let_def split: option.split)

lemma lookup_down:
  assumes "numbers_ok L" "nl_number L p \<le> 255"
  shows "nk_recvGnb (start_nsm L links) (GetKey (choice_number c) (nl_number L p)) = map_of (handler_table epm_callbacks) (c, p)"
proof -
  have "nk_recvGnb (APM_Init L (NsmManager_Init links)) k = None" for k
    by (simp add: NsmManager_Init_def StartSctpTimer_def Let_def)
  then show ?thesis
    using down.registered [OF assms(1) registered_codes(2) [OF assms(1)] assms(2)] map_of_rev [OF tables_distinct(2)]
    by (simp add: start_nsm_def Epm_Init_def split: option.split)
qed

lemma dispatched_up:
  assumes "numbers_ok L"
  shows "ProcessAmfMsg L (start_nsm L links) env R info =
    run_handler (map_of (handler_table apm_callbacks) (nm_PDUChoice info, nm_ProcCode info)) env R info"
proof (cases "nl_number L (nm_ProcCode info) \<le> 255")
  case True
  then show ?thesis
    using lookup_up [OF assms True] GetKey_less [OF True, of "nm_PDUChoice info"]
    by (simp add: ProcessAmfMsg_def run_handler_def Let_def)
next
  case False
  then obtain n where n: "nm_ProcCode info = id_other n" using assms unfolding numbers_ok_def by blast
  then show ?thesis
    using False by (simp add: ProcessAmfMsg_def run_handler_def Let_def GetKey_large other_not_registered)
qed

lemma dispatched_down:
  assumes "numbers_ok L"
  shows "ProcessGnbMsg L (start_nsm L links) env R info =
    run_handler (map_of (handler_table epm_callbacks) (nm_PDUChoice info, nm_ProcCode info)) env R info"
proof (cases "nl_number L (nm_ProcCode info) \<le> 255")
  case True
  then show ?thesis
    using lookup_down [OF assms True] GetKey_less [OF True, of "nm_PDUChoice info"]
    by (simp add: ProcessGnbMsg_def run_handler_def Let_def)
next
  case False
  then obtain n where n: "nm_ProcCode info = id_other n" using assms unfolding numbers_ok_def by blast
  then show ?thesis
    using False by (simp add: ProcessGnbMsg_def run_handler_def Let_def GetKey_large other_not_registered)
qed

section \<open>Relays\<close>

text \<open>A message that was only translated: its elements but for the two identifiers of the user.\<close>

definition same_but_id :: "ngap_ie \<Rightarrow> ngap_ie \<Rightarrow> bool" where
  "same_but_id x y \<longleftrightarrow> x = y \<or> ran_id x \<noteq> None \<and> ran_id y \<noteq> None \<or> amf_id x \<noteq> None \<and> amf_id y \<noteq> None"

definition translated :: "ngap_message \<Rightarrow> ngap_message \<Rightarrow> bool" where
  "translated info info' \<longleftrightarrow> nm_PDUChoice info' = nm_PDUChoice info \<and> nm_ProcCode info' = nm_ProcCode info \<and>
     nm_present info' = nm_present info \<and> list_all2 same_but_id (nm_ies info) (nm_ies info')"

lemma set_last_ie_all2:
  assumes "\<And>x. P x x" "\<And>x. sel x \<Longrightarrow> P x v"
  shows "list_all2 P ies (set_last_ie sel v ies)"
  using assms by (induction ies) (auto simp: list_all2_same)

lemma list_all2_trans_same_but_id:
  assumes "list_all2 same_but_id xs ys" "list_all2 same_but_id ys zs"
  shows "list_all2 same_but_id xs zs"
proof (rule list_all2_trans [OF _ assms])
  fix x y z assume "same_but_id x y" "same_but_id y z"
  then show "same_but_id x z" unfolding same_but_id_def ran_id_cases amf_id_cases by auto
qed

lemma put_ids_translated: "list_all2 same_but_id (nm_ies info) (nm_ies (put_ids ids info))"
proof -
  have "list_all2 same_but_id ies (set_ran_id n ies)" "list_all2 same_but_id ies (set_amf_id n ies)" for ies n
    unfolding set_ran_id_def set_amf_id_def by (intro set_last_ie_all2; simp add: same_but_id_def)+
  then have "list_all2 same_but_id ies (set_amf_id m (set_ran_id n ies))" for ies m n
    using list_all2_trans_same_but_id by blast
  then show ?thesis by (simp add: put_ids_def)
qed

lemma same_elements: "list_all2 same_but_id ies ies"
  by (simp add: list_all2_same same_but_id_def)

text \<open>One side of the relay: it translates a message without sending it, and changes nothing else in it.\<close>

locale relay_side =
  fixes convert :: "relay_env \<Rightarrow> relay \<Rightarrow> ngap_message \<Rightarrow> relayed"
    and call :: "ngap_message \<Rightarrow> ngap_call"
  assumes keeps_log: "convert env R info = Some (R', info', ok) \<Longrightarrow> sg_calls (rgw R') = sg_calls (rgw R)"
    and translates: "convert env R info = Some (R', info', ok) \<Longrightarrow> translated info info'"
begin

lemma sends_one:
  assumes "do { (R, info, ok) \<leftarrow> convert env R info;
      if ok then Some (put_rgw R (log_call (rgw R) [call info]), info, True) else Some (R, info, False) } = Some (R', info', ok)"
  shows "sg_calls (rgw R') = sg_calls (rgw R) @ (if ok then [call info'] else []) \<and> translated info info'"
proof -
  obtain R1 i b where c: "convert env R info = Some (R1, i, b)"
      and r: "(if b then Some (put_rgw R1 (log_call (rgw R1) [call i]), i, True) else Some (R1, i, False)) = Some (R', info', ok)"
    using assms by (auto simp: Option.bind_eq_Some_conv)
  show ?thesis using keeps_log [OF c] translates [OF c] r by (cases b) (auto simp: log_call_def)
qed

end

interpretation to_node: relay_side "\<lambda>env R info. amf_convert R info" SendDownLayerSctp
proof
  fix R info R' info' ok
  assume "amf_convert R info = Some (R', info', ok)"
  then show "sg_calls (rgw R') = sg_calls (rgw R)" "translated info info'"
    using put_ids_translated
    by (auto simp: amf_convert_def AMF_ConvertNgapId_def Let_def upd_ngap_def translated_def same_elements Option.bind_eq_Some_conv
        put_ids_def put_rgw_def put_gw_def split: option.splits)
qed

interpretation to_amf: relay_side "\<lambda>env R info. map_option (\<lambda>(info, ok). (R, info, ok)) (gnb_convert env R info)" SendUpLayerSctp
proof
  fix env R info R' info' ok
  assume "map_option (\<lambda>(info, ok). (R, info, ok)) (gnb_convert env R info) = Some (R', info', ok)"
  then show "sg_calls (rgw R') = sg_calls (rgw R)" "translated info info'"
    using put_ids_translated
    by (auto simp: gnb_convert_def GNB_ConvertNgapId_def Let_def translated_def same_elements Option.bind_eq_Some_conv
        put_ids_def put_rgw_def put_gw_def split: option.splits)
qed

lemma amf_relay_once:
  assumes "amf_relay R info = Some (R', info', ok)"
  shows "sg_calls (rgw R') = sg_calls (rgw R) @ (if ok then [SendDownLayerSctp info'] else []) \<and> translated info info'"
  using assms unfolding amf_relay_def send_down_def by (rule to_node.sends_one)

lemma gnb_relay_once:
  assumes "gnb_relay env R info = Some (R', info', ok)"
  shows "sg_calls (rgw R') = sg_calls (rgw R) @ (if ok then [SendUpLayerSctp info'] else []) \<and> translated info info'"
proof (rule to_amf.sends_one)
  show "do { (R, info, ok) \<leftarrow> map_option (\<lambda>(info, ok). (R, info, ok)) (gnb_convert env R info);
      if ok then Some (put_rgw R (log_call (rgw R) [SendUpLayerSctp info]), info, True) else Some (R, info, False) } = Some (R', info', ok)"
    using assms by (cases "gnb_convert env R info") (auto simp: gnb_relay_def send_up_def split: if_splits)
qed

text \<open>The messages that are only relayed, by kind and procedure.\<close>

definition plain_down :: "(pdu_choice \<times> proc_code) list" where
  "plain_down =
    [(PDU_initiatingMessage, id_UEContextModification), (PDU_successfulOutcome, id_HandoverPreparation),
     (PDU_unsuccessfulOutcome, id_HandoverPreparation), (PDU_successfulOutcome, id_HandoverCancel),
     (PDU_initiatingMessage, id_DownlinkRANStatusTransfer), (PDU_initiatingMessage, id_UERadioCapabilityCheck),
     (PDU_successfulOutcome, id_PDUSessionResourceModifyIndication), (PDU_initiatingMessage, id_TraceStart),
     (PDU_initiatingMessage, id_DeactivateTrace), (PDU_initiatingMessage, id_LocationReportingControl),
     (PDU_initiatingMessage, id_UETNLABindingRelease), (PDU_initiatingMessage, id_DownlinkUEAssociatedNRPPaTransport),
     (PDU_initiatingMessage, id_RerouteNASRequest), (PDU_initiatingMessage, id_PDUSessionResourceModify)]"

definition plain_up :: "(pdu_choice \<times> proc_code) list" where
  "plain_up =
    [(PDU_successfulOutcome, id_PDUSessionResourceModify), (PDU_initiatingMessage, id_PDUSessionResourceModifyIndication),
     (PDU_successfulOutcome, id_PDUSessionResourceRelease), (PDU_initiatingMessage, id_PDUSessionResourceNotify),
     (PDU_successfulOutcome, id_UEContextModification), (PDU_unsuccessfulOutcome, id_UEContextModification),
     (PDU_initiatingMessage, id_UERadioCapabilityInfoIndication), (PDU_initiatingMessage, id_RRCInactiveTransitionReport),
     (PDU_initiatingMessage, id_LocationReport)]"

lemma plain_lookups:
  "map (map_of (handler_table apm_callbacks)) plain_down = map Some
    [AMF_UEContextModificationReq, AMF_HandoverCommand, AMF_HandoverPreparationFailure, AMF_HandoverCancelAck, AMF_DLRanStatusTsfer,
     AMF_UERadioCapabilityCheckReq, AMF_PDUSessionResourceModifyConfirm, AMF_TraceStart, AMF_DeActTrace, AMF_LocRepCtr,
     AMF_UETNLABindingRelReq, AMF_DLUEAsNRPPaTrspt, AMF_RerouteNASReq, AMF_PDUSessionResourceModifyReq]"
  "map (map_of (handler_table epm_callbacks)) plain_up = map Some
    [GNB_PDUSessionModifyRsp, GNB_PDUSessionModifyInd, GNB_PDUSessionReleaseRsp, GNB_PDUSessionRsrNotify,
     GNB_UEContextModificationSuccessRsp, GNB_UEContextModificationFailureRsp, GNB_UERadioCapInfoInd, GNB_RRCInactTrstRpt,
     GNB_LocationReport]"
  by (simp_all add: plain_down_def plain_up_def handler_table_def apm_callbacks_def epm_callbacks_def)

lemma lookup_in:
  assumes "map f ks = map Some hs" "k \<in> set ks"
  obtains h where "f k = Some h" "h \<in> set hs"
proof -
  have "f k \<in> set (map f ks)" using assms(2) by simp
  then show ?thesis using that unfolding assms(1) by auto
qed

lemma plain_down_handler:
  assumes "k \<in> set plain_down"
  shows "run_handler (map_of (handler_table apm_callbacks) k) env R info = amf_relay R info"
  by (rule lookup_in [OF plain_lookups(1) assms]) (auto simp: run_handler_def plain_defs)

lemma plain_up_handler:
  assumes "k \<in> set plain_up"
  shows "run_handler (map_of (handler_table epm_callbacks) k) env R info = gnb_relay env R info"
  by (rule lookup_in [OF plain_lookups(2) assms]) (auto simp: run_handler_def plain_defs)

text \<open>What the translation finds for a user that is known on both sides.\<close>

lemma amf_relay_known:
  assumes "GetNgapSession (rgw R) n = Some p" "sg_ngaps (rgw R) p = Some s" "GetEsmContext (fst R) (ns_gnb_sctp_index s) = Some esm"
    and "last_ie ran_id (nm_ies info) = Some n" "last_ie amf_id (nm_ies info) = Some a" "a < 2 ^ 64"
  obtains R' info' where "amf_relay R info = Some (R', info', True)" "fst R' = fst R"
    "GetNgapSession (rgw R') n = Some p" "sg_ngaps (rgw R') p = Some (s\<lparr>ns_amfUeId := a\<rparr>)"
    "nm_sockTarget info' = ec_sctp_index esm" "last_ie ran_id (nm_ies info') = Some (ns_gnbUeId s)"
    "last_ie amf_id (nm_ies info') = Some n"
proof -
  have n: "n < 2 ^ 32" using assms(1) by (auto simp: GetNgapSession_def split: if_splits)
  show ?thesis
    using that assms n
    by (auto simp: amf_relay_def amf_convert_def AMF_ConvertNgapId_def Let_def upd_ngap_def send_down_def log_call_def
        put_ids_def GetNgapSession_def split: if_splits)
qed

lemma gnb_relay_known:
  assumes "GetNgapSession (rgw R) n = Some p" "sg_ngaps (rgw R) p = Some s" "GetTargetSock (fst R) (ns_amfId s) = Some sock"
    and "last_ie ran_id (nm_ies info) = Some g" "last_ie amf_id (nm_ies info) = Some n"
  obtains R' info' where "gnb_relay env R info = Some (R', info', True)" "nm_sockTarget info' = sock"
    "last_ie ran_id (nm_ies info') = Some (ns_sessId s)" "last_ie amf_id (nm_ies info') = Some (ns_amfUeId s)"
proof -
  have n: "n < 2 ^ 32" using assms(1) by (auto simp: GetNgapSession_def split: if_splits)
  show ?thesis
    using that assms n
    by (auto simp: gnb_relay_def gnb_convert_def GNB_ConvertNgapId_def Let_def send_up_def put_ids_def)
qed

section \<open>A concrete gateway\<close>

text \<open>
  One AMF on association 7 and one radio node on association 5, with one user: session 3, called 9 by the node.
  The numbers of the procedures are those of the specification of the protocol.
\<close>

fun demo_number :: "proc_code \<Rightarrow> nat" where
  "demo_number id_AMFConfigurationUpdate = 0" | "demo_number id_AMFStatusIndication = 1"
| "demo_number id_DeactivateTrace = 3" | "demo_number id_DownlinkNASTransport = 4"
| "demo_number id_DownlinkNonUEAssociatedNRPPaTransport = 5" | "demo_number id_DownlinkRANStatusTransfer = 7"
| "demo_number id_DownlinkUEAssociatedNRPPaTransport = 8" | "demo_number id_ErrorIndication = 9"
| "demo_number id_HandoverCancel = 10" | "demo_number id_HandoverNotification = 11" | "demo_number id_HandoverPreparation = 12"
| "demo_number id_HandoverResourceAllocation = 13" | "demo_number id_InitialContextSetup = 14"
| "demo_number id_InitialUEMessage = 15" | "demo_number id_LocationReportingControl = 16" | "demo_number id_LocationReport = 18"
| "demo_number id_NASNonDeliveryIndication = 19" | "demo_number id_NGReset = 20" | "demo_number id_NGSetup = 21"
| "demo_number id_OverloadStart = 22" | "demo_number id_OverloadStop = 23" | "demo_number id_Paging = 24"
| "demo_number id_PathSwitchRequest = 25" | "demo_number id_PDUSessionResourceModify = 26"
| "demo_number id_PDUSessionResourceModifyIndication = 27" | "demo_number id_PDUSessionResourceRelease = 28"
| "demo_number id_PDUSessionResourceSetup = 29" | "demo_number id_PDUSessionResourceNotify = 30" | "demo_number id_PWSCancel = 32"
| "demo_number id_RANConfigurationUpdate = 35" | "demo_number id_RerouteNASRequest = 36"
| "demo_number id_RRCInactiveTransitionReport = 37" | "demo_number id_TraceStart = 39"
| "demo_number id_UEContextModification = 40" | "demo_number id_UEContextRelease = 41" | "demo_number id_UEContextReleaseRequest = 42"
| "demo_number id_UERadioCapabilityCheck = 43" | "demo_number id_UERadioCapabilityInfoIndication = 44"
| "demo_number id_UETNLABindingRelease = 45" | "demo_number id_UplinkNASTransport = 46"
| "demo_number id_UplinkRANStatusTransfer = 49" | "demo_number id_WriteReplaceWarning = 51"
| "demo_number (id_other n) = 256 + n"

definition demo_lib :: ngap_lib where
  "demo_lib = \<lparr>nl_number = demo_number, nl_decode = (\<lambda>b. Some (PDU_unsuccessfulOutcome, id_InitialContextSetup, [])),
     nl_encode = (\<lambda>info. None)\<rparr>"

definition demo_user :: ngap_session where
  "demo_user = new_NgapSession\<lparr>ns_sessId := 3, ns_gnbUeId := 9, ns_gnb_sctp_index := 5, ns_amfId := 1\<rparr>"

definition demo_net :: ran_net where
  "demo_net = \<lparr>nw_esm = [5 \<mapsto> \<lparr>ec_sctp_index = 5, ec_stream_no = 0, ec_ranNodeId = RanNodeId no_plmn RNT_GNB_ID RNET_NULL 300,
       ec_pagingDRX = 0, ec_gnbName = [], ec_tac = [], ec_idSigGW = 1\<rparr>],
     nw_amf_list = (\<lambda>_. NULL)(1 := 20), nw_amf_sctp_list = (\<lambda>_. NULL)(7 := 20),
     nw_asm = [20 \<mapsto> \<lparr>ac_sctp_index = 7, ac_stream_no = 0, ac_isNgSetup = True, ac_relativeCapacity = 0, ac_ConnTimes = 0,
       ac_amfName = [], ac_amfId = 1, ac_idSigGW = 1, ac_priority = 0\<rparr>],
     nw_amfid = 2, nw_timers = [], nw_brk = 30\<rparr>"

definition demo_relay :: relay where
  "demo_relay = (demo_net, demo_bus, demo_sig\<lparr>sg_ngaps := [50 \<mapsto> demo_user]\<rparr>)"

lemma demo_number_inj: "inj demo_number"
proof (rule injI)
  fix x y
  show "demo_number x = demo_number y \<Longrightarrow> x = y" by (cases x; cases y) simp_all
qed

lemma demo_numbers: "numbers_ok demo_lib"
proof -
  have "demo_number p \<le> 255" if "\<forall>n. p \<noteq> id_other n" for p
    using that by (cases p) simp_all
  then show ?thesis using demo_number_inj by (simp add: numbers_ok_def demo_lib_def)
qed

lemma demo_known:
  "GetNgapSession (rgw demo_relay) 3 = Some 50" "sg_ngaps (rgw demo_relay) 50 = Some demo_user"
  "GetEsmContext (fst demo_relay) (ns_gnb_sctp_index demo_user) = nw_esm demo_net 5"
  "nw_esm demo_net 5 \<noteq> None" "GetTargetSock (fst demo_relay) (ns_amfId demo_user) = Some 7"
  by (simp_all add: demo_relay_def demo_user_def demo_net_def GetNgapSession_def GetEsmContext_def GetTargetSock_def)

section \<open>Properties\<close>

text \<open>C16. A message from an AMF or a radio node reaches exactly the handler that is registered for its kind
  and its procedure; a message without one changes nothing. It holds for every numbering of the
  procedures that tells them apart and gives the known ones a number of 8 bits.\<close>

theorem dispatch_reaches_handler:
  assumes "numbers_ok L"
  shows "ProcessAmfMsg L (start_nsm L links) env R info =
      run_handler (map_of (handler_table apm_callbacks) (nm_PDUChoice info, nm_ProcCode info)) env R info \<and>
    ProcessGnbMsg L (start_nsm L links) env R info =
      run_handler (map_of (handler_table epm_callbacks) (nm_PDUChoice info, nm_ProcCode info)) env R info"
  using dispatched_up [OF assms] dispatched_down [OF assms] by blast

theorem dispatch_witness:
  "\<forall>env R info. ProcessAmfMsg demo_lib (start_nsm demo_lib []) env R (info\<lparr>nm_PDUChoice := PDU_initiatingMessage, nm_ProcCode := id_Paging\<rparr>) =
     AMF_Paging env R (info\<lparr>nm_PDUChoice := PDU_initiatingMessage, nm_ProcCode := id_Paging\<rparr>)"
proof (intro allI, goal_cases)
  case (1 env R info)
  have "map_of (handler_table apm_callbacks) (PDU_initiatingMessage, id_Paging) = Some AMF_Paging"
    by (simp add: handler_table_def apm_callbacks_def)
  then show ?case using dispatch_reaches_handler [OF demo_numbers, of "[]" env R] by (simp add: run_handler_def)
qed

text \<open>C15. A message of the kinds that are only relayed leaves the gateway once, on the other side, with its
  elements unchanged but for the two identifiers of the user; when it is refused, nothing is sent.\<close>

theorem plain_messages_relayed:
  assumes "numbers_ok L"
  shows "((nm_PDUChoice info, nm_ProcCode info) \<in> set plain_down \<and>
      ProcessAmfMsg L (start_nsm L links) env R info = Some (R', info', ok) \<longrightarrow>
      sg_calls (rgw R') = sg_calls (rgw R) @ (if ok then [SendDownLayerSctp info'] else []) \<and> translated info info') \<and>
    ((nm_PDUChoice info, nm_ProcCode info) \<in> set plain_up \<and>
      ProcessGnbMsg L (start_nsm L links) env R info = Some (R', info', ok) \<longrightarrow>
      sg_calls (rgw R') = sg_calls (rgw R) @ (if ok then [SendUpLayerSctp info'] else []) \<and> translated info info')"
proof (intro conjI impI, goal_cases)
  case 1
  then have "amf_relay R info = Some (R', info', ok)"
    using plain_down_handler [of "(nm_PDUChoice info, nm_ProcCode info)" env R info] by (simp add: dispatched_up [OF assms])
  then show ?case using amf_relay_once by blast
next
  case 2
  then have "amf_relay R info = Some (R', info', ok)"
    using plain_down_handler [of "(nm_PDUChoice info, nm_ProcCode info)" env R info] by (simp add: dispatched_up [OF assms])
  then show ?case using amf_relay_once by blast
next
  case 3
  then have "gnb_relay env R info = Some (R', info', ok)"
    using plain_up_handler [of "(nm_PDUChoice info, nm_ProcCode info)" env R info] by (simp add: dispatched_down [OF assms])
  then show ?case using gnb_relay_once by blast
next
  case 4
  then have "gnb_relay env R info = Some (R', info', ok)"
    using plain_up_handler [of "(nm_PDUChoice info, nm_ProcCode info)" env R info] by (simp add: dispatched_down [OF assms])
  then show ?case using gnb_relay_once by blast
qed

definition demo_request :: ngap_message where
  "demo_request = (new_NgapMessage 0)\<lparr>nm_PDUChoice := PDU_initiatingMessage, nm_ProcCode := id_UEContextModification,
     nm_ies := [IE_AMF_UE_NGAP_ID 77, IE_RAN_UE_NGAP_ID 3, IE_RelativeAMFCapacity 1]\<rparr>"

definition demo_answer :: ngap_message where
  "demo_answer = (new_NgapMessage 0)\<lparr>nm_PDUChoice := PDU_successfulOutcome, nm_ProcCode := id_UEContextModification,
     nm_ies := [IE_AMF_UE_NGAP_ID 3, IE_RAN_UE_NGAP_ID 9]\<rparr>"

theorem plain_relayed_witness:
  "\<forall>env. \<exists>R' info'. ProcessAmfMsg demo_lib (start_nsm demo_lib []) env demo_relay demo_request = Some (R', info', True) \<and>
     sg_calls (rgw R') = sg_calls (rgw demo_relay) @ [SendDownLayerSctp info'] \<and> translated demo_request info'"
proof (intro allI, goal_cases)
  case (1 env)
  obtain esm where e: "GetEsmContext (fst demo_relay) (ns_gnb_sctp_index demo_user) = Some esm" using demo_known(3,4) by auto
  have ids: "last_ie ran_id (nm_ies demo_request) = Some 3" "last_ie amf_id (nm_ies demo_request) = Some 77" "(77::nat) < 2 ^ 64"
    and k: "(nm_PDUChoice demo_request, nm_ProcCode demo_request) \<in> set plain_down"
    by (simp_all add: demo_request_def last_ie_Cons plain_down_def)
  obtain R' info' where "amf_relay demo_relay demo_request = Some (R', info', True)"
    using amf_relay_known [OF demo_known(1,2) e ids] .
  then have "ProcessAmfMsg demo_lib (start_nsm demo_lib []) env demo_relay demo_request = Some (R', info', True)"
    using plain_down_handler [OF k] by (simp add: dispatched_up [OF demo_numbers])
  then show ?case using plain_messages_relayed [OF demo_numbers] k by fastforce
qed

text \<open>A message as it is decoded from a packet.\<close>

lemma decoded:
  assumes "nl_decode L buf = Some (c, code, ies)" "c \<in> {PDU_initiatingMessage, PDU_successfulOutcome}"
  obtains info' where "InterDecode L buf info = Some info'" "nm_PDUChoice info' = c" "nm_ProcCode info' = code" "nm_ies info' = ies"
  using assms by (auto simp: InterDecode_def PostActionDecode_def)

lemma plain_choices: "(c, code) \<in> set plain_down \<union> set plain_up \<Longrightarrow> c \<noteq> PDU_unsuccessfulOutcome \<Longrightarrow>
    c \<in> {PDU_initiatingMessage, PDU_successfulOutcome}"
  by (auto simp: plain_down_def plain_up_def)

text \<open>The association of an AMF, found by the number of the AMF.\<close>

lemma amf_known:
  assumes "net_ok N"
  shows "nw_amf_sctp_list N i \<noteq> NULL \<Longrightarrow> \<exists>k. GetAmfIdBySock N i = Some k \<and> GetTargetSock N k = Some i"
    and "nw_amf_list N k \<noteq> NULL \<Longrightarrow> \<exists>sock. GetTargetSock N k = Some sock \<and> GetAmfIdBySock N sock = Some k"
proof -
  have ok: "amfs_ok N" using assms by (simp add: net_ok_def)
  show "\<exists>sock. GetTargetSock N k = Some sock \<and> GetAmfIdBySock N sock = Some k" if k: "nw_amf_list N k \<noteq> NULL" for k
  proof -
    obtain c where c: "k < MAX_AMF_SESSIONS" "nw_asm N (nw_amf_list N k) = Some c" "ac_amfId c = k"
        "nw_amf_sctp_list N (ac_sctp_index c) = nw_amf_list N k" using amfs_okD(3) [OF ok k] by blast
    moreover from c(4) k have "ac_sctp_index c < MAX_AMF_SESSIONS" using amfs_okD(2) [OF ok, of "ac_sctp_index c"] by simp
    ultimately show ?thesis using k by (simp add: GetTargetSock_def GetAmfIdBySock_def)
  qed
  show "\<exists>k. GetAmfIdBySock N i = Some k \<and> GetTargetSock N k = Some i" if i: "nw_amf_sctp_list N i \<noteq> NULL" for i
  proof -
    obtain c where c: "i < MAX_AMF_SESSIONS" "nw_asm N (nw_amf_sctp_list N i) = Some c" "ac_sctp_index c = i"
        "nw_amf_list N (ac_amfId c) = nw_amf_sctp_list N i" using amfs_okD(2) [OF ok i] by blast
    moreover from c(4) i have "ac_amfId c < MAX_AMF_SESSIONS" using amfs_okD(3) [OF ok, of "ac_amfId c"] by simp
    ultimately show ?thesis using i by (simp add: GetTargetSock_def GetAmfIdBySock_def)
  qed
qed

text \<open>C1. A message of a kind that is only relayed, which an AMF sends for a user, reaches the radio node of the
  user with the identifiers of the node and is otherwise as it was sent; and a message of such a kind that the
  node gives back with these identifiers reaches the AMF of the user with the identifiers of the first one.
  When the AMF of the user sent the first message, it is the one that gets the answer. (A failure is
  not relayed, C40; whether the sender is the AMF of the user is not checked.)\<close>

theorem identifiers_come_back:
  assumes "numbers_ok L" "net_ok (fst R)" "nw_amf_sctp_list (fst R) i \<noteq> NULL"
    and "nl_decode L asked = Some (cq, pq, iesq)" "(cq, pq) \<in> set plain_down" "cq \<noteq> PDU_unsuccessfulOutcome"
    and "nl_decode L answer = Some (ca, pa, iesa)" "(ca, pa) \<in> set plain_up" "ca \<noteq> PDU_unsuccessfulOutcome" "answer \<noteq> []"
    and "GetNgapSession (rgw R) n = Some p" "sg_ngaps (rgw R) p = Some s" "ns_sessId s = n"
    and "GetEsmContext (fst R) (ns_gnb_sctp_index s) \<noteq> None" "nw_amf_list (fst R) (ns_amfId s) \<noteq> NULL"
    and "last_ie ran_id iesq = Some n" "last_ie amf_id iesq = Some user" "user < 2 ^ 64"
    and "last_ie ran_id iesa = Some (ns_gnbUeId s)" "last_ie amf_id iesa = Some n"
  shows "\<exists>R' q R'' a. handle_amf_sctp_msg_read L (start_nsm L links) env R i st 60 asked g m = Some R' \<and>
    sg_calls (rgw R') = sg_calls (rgw R) @ [SendDownLayerSctp q] \<and> nm_sockTarget q = ns_gnb_sctp_index s \<and>
    nm_PDUChoice q = cq \<and> nm_ProcCode q = pq \<and> list_all2 same_but_id iesq (nm_ies q) \<and>
    last_ie ran_id (nm_ies q) = Some (ns_gnbUeId s) \<and> last_ie amf_id (nm_ies q) = Some n \<and>
    handle_gnb_sctp_msg_read L (start_nsm L links) env R' j st' 60 answer g' m' = Some R'' \<and>
    sg_calls (rgw R'') = sg_calls (rgw R') @ [SendUpLayerSctp a] \<and> GetAmfIdBySock (fst R) (nm_sockTarget a) = Some (ns_amfId s) \<and>
    nm_PDUChoice a = ca \<and> nm_ProcCode a = pa \<and> list_all2 same_but_id iesa (nm_ies a) \<and>
    last_ie ran_id (nm_ies a) = Some n \<and> last_ie amf_id (nm_ies a) = Some user \<and>
    (GetAmfIdBySock (fst R) i = Some (ns_amfId s) \<longrightarrow> nm_sockTarget a = i)"
proof -
  obtain k where k: "GetAmfIdBySock (fst R) i = Some k" "GetTargetSock (fst R) k = Some i"
    using amf_known(1) [OF assms(2,3)] by blast
  obtain sock where sock: "GetTargetSock (fst R) (ns_amfId s) = Some sock" "GetAmfIdBySock (fst R) sock = Some (ns_amfId s)"
    using amf_known(2) [OF assms(2,15)] by blast
  obtain esm where esm: "GetEsmContext (fst R) (ns_gnb_sctp_index s) = Some esm" using assms(14) by blast
  then have idx: "ec_sctp_index esm = ns_gnb_sctp_index s" using assms(2) by (auto simp: net_ok_def GetEsmContext_def split: if_splits)
  obtain qi where qi: "InterDecode L asked ((packet_info env i st g m)\<lparr>nm_amfId := k\<rparr>) = Some qi"
      "nm_PDUChoice qi = cq" "nm_ProcCode qi = pq" "nm_ies qi = iesq"
    by (rule decoded [OF assms(4) plain_choices [OF _ assms(6)]]) (use assms(5) in auto)
  obtain R' q where 1: "amf_relay R qi = Some (R', q, True)" "fst R' = fst R" "GetNgapSession (rgw R') n = Some p"
      "sg_ngaps (rgw R') p = Some (s\<lparr>ns_amfUeId := user\<rparr>)" "nm_sockTarget q = ec_sctp_index esm"
      "last_ie ran_id (nm_ies q) = Some (ns_gnbUeId s)" "last_ie amf_id (nm_ies q) = Some n"
    using amf_relay_known [OF assms(11,12) esm] qi(4) assms(16-18) by metis
  define ai0 where "ai0 = (case GetEsmContext (fst R') j of None \<Rightarrow> packet_info env j st' g' m'
    | Some esm \<Rightarrow> (packet_info env j st' g' m')\<lparr>nm_ranNodeId := ec_ranNodeId esm\<rparr>)"
  obtain ai where ai: "InterDecode L answer ai0 = Some ai" "nm_PDUChoice ai = ca" "nm_ProcCode ai = pa" "nm_ies ai = iesa"
    by (rule decoded [OF assms(7) plain_choices [OF _ assms(9)]]) (use assms(8) in auto)
  have sock': "GetTargetSock (fst R') (ns_amfId (s\<lparr>ns_amfUeId := user\<rparr>)) = Some sock" using sock(1) 1(2) by simp
  obtain R'' a where 2: "gnb_relay env R' ai = Some (R'', a, True)" "nm_sockTarget a = sock"
      "last_ie ran_id (nm_ies a) = Some (ns_sessId (s\<lparr>ns_amfUeId := user\<rparr>))"
      "last_ie amf_id (nm_ies a) = Some (ns_amfUeId (s\<lparr>ns_amfUeId := user\<rparr>))"
    using gnb_relay_known [OF 1(3,4) sock', where env = env] ai(4) assms(19,20) by metis
  have "ProcessAmfMsg L (start_nsm L links) env R qi = Some (R', q, True)"
    using 1(1) plain_down_handler [OF assms(5)] qi(2,3) by (simp add: dispatched_up [OF assms(1)])
  then have rq: "handle_amf_sctp_msg_read L (start_nsm L links) env R i st 60 asked g m = Some R'"
    using k(1) qi(1) by (simp add: handle_amf_sctp_msg_read_def)
  have "ProcessGnbMsg L (start_nsm L links) env R' ai = Some (R'', a, True)"
    using 2(1) plain_up_handler [OF assms(8)] ai(2,3) by (simp add: dispatched_down [OF assms(1)])
  then have ra: "handle_gnb_sctp_msg_read L (start_nsm L links) env R' j st' 60 answer g' m' = Some R''"
    using ai(1) assms(10) by (simp add: handle_gnb_sctp_msg_read_def Let_def ai0_def)
  have "GetAmfIdBySock (fst R) i = Some (ns_amfId s) \<longrightarrow> sock = i" using k sock by auto
  then show ?thesis
    using rq ra amf_relay_once [OF 1(1)] gnb_relay_once [OF 2(1)] 1(5-7) 2(2-4) qi(2-4) ai(2-4) idx sock(2) assms(13)
    by (intro exI [of _ R'] exI [of _ q] exI [of _ R''] exI [of _ a]) (simp add: translated_def)
qed

text \<open>The hypotheses hold for a gateway with one AMF, one radio node and one user.\<close>

definition demo_codec :: ngap_lib where
  "demo_codec = demo_lib\<lparr>nl_decode := (\<lambda>b.
     if b = ''q'' then Some (PDU_initiatingMessage, id_UEContextModification, nm_ies demo_request)
     else if b = ''a'' then Some (PDU_successfulOutcome, id_UEContextModification, nm_ies demo_answer) else None)\<rparr>"

lemma demo_net_ok: "net_ok demo_net"
  by (simp add: net_ok_def amfs_ok_def demo_net_def)

theorem come_back_witness:
  "\<forall>env. \<exists>R' q R'' a. handle_amf_sctp_msg_read demo_codec (start_nsm demo_codec []) env demo_relay 7 0 60 ''q'' 1 2 = Some R' \<and>
     sg_calls (rgw R') = sg_calls (rgw demo_relay) @ [SendDownLayerSctp q] \<and> nm_sockTarget q = 5 \<and>
     last_ie ran_id (nm_ies q) = Some 9 \<and> last_ie amf_id (nm_ies q) = Some 3 \<and>
     handle_gnb_sctp_msg_read demo_codec (start_nsm demo_codec []) env R' 5 0 60 ''a'' 1 2 = Some R'' \<and>
     sg_calls (rgw R'') = sg_calls (rgw R') @ [SendUpLayerSctp a] \<and> nm_sockTarget a = 7 \<and>
     last_ie ran_id (nm_ies a) = Some 3 \<and> last_ie amf_id (nm_ies a) = Some 77"
proof (intro allI, goal_cases)
  case (1 env)
  have n: "numbers_ok demo_codec" using demo_numbers by (simp add: numbers_ok_def demo_codec_def)
  have d: "nl_decode demo_codec ''q'' = Some (PDU_initiatingMessage, id_UEContextModification, nm_ies demo_request)"
    "nl_decode demo_codec ''a'' = Some (PDU_successfulOutcome, id_UEContextModification, nm_ies demo_answer)"
    by (simp_all add: demo_codec_def)
  have k: "(PDU_initiatingMessage, id_UEContextModification) \<in> set plain_down" "(PDU_successfulOutcome, id_UEContextModification) \<in> set plain_up"
    by (simp_all add: plain_down_def plain_up_def)
  have u: "ns_sessId demo_user = 3" "ns_gnbUeId demo_user = 9" "ns_gnb_sctp_index demo_user = 5" "ns_amfId demo_user = 1"
    by (simp_all add: demo_user_def)
  have N: "fst demo_relay = demo_net" by (simp add: demo_relay_def)
  have r: "net_ok (fst demo_relay)" "nw_amf_sctp_list (fst demo_relay) 7 \<noteq> NULL" "nw_amf_list (fst demo_relay) (ns_amfId demo_user) \<noteq> NULL"
    "GetEsmContext (fst demo_relay) (ns_gnb_sctp_index demo_user) \<noteq> None" "GetAmfIdBySock (fst demo_relay) 7 = Some 1"
    unfolding N u using demo_net_ok by (simp_all add: demo_net_def GetEsmContext_def GetAmfIdBySock_def)
  have ids: "last_ie ran_id (nm_ies demo_request) = Some 3" "last_ie amf_id (nm_ies demo_request) = Some 77" "(77::nat) < 2 ^ 64"
    "last_ie ran_id (nm_ies demo_answer) = Some (ns_gnbUeId demo_user)" "last_ie amf_id (nm_ies demo_answer) = Some 3"
    unfolding u by (simp_all add: demo_request_def demo_answer_def last_ie_Cons)
  from identifiers_come_back [OF n r(1,2) d(1) k(1) _ d(2) k(2) _ _ demo_known(1,2) u(1) r(4,3) ids,
      where env = env and links = "[]" and st = 0 and g = 1 and m = 2 and j = 5 and st' = 0 and g' = 1 and m' = 2] r(5)
  obtain R' q R'' a where
    "handle_amf_sctp_msg_read demo_codec (start_nsm demo_codec []) env demo_relay 7 0 60 ''q'' 1 2 = Some R'"
    "sg_calls (rgw R') = sg_calls (rgw demo_relay) @ [SendDownLayerSctp q]" "nm_sockTarget q = 5"
    "last_ie ran_id (nm_ies q) = Some 9" "last_ie amf_id (nm_ies q) = Some 3"
    "handle_gnb_sctp_msg_read demo_codec (start_nsm demo_codec []) env R' 5 0 60 ''a'' 1 2 = Some R''"
    "sg_calls (rgw R'') = sg_calls (rgw R') @ [SendUpLayerSctp a]" "nm_sockTarget a = 7"
    "last_ie ran_id (nm_ies a) = Some 3" "last_ie amf_id (nm_ies a) = Some 77"
    unfolding u by auto
  then show ?case by (intro exI conjI)
qed

text \<open>C40. A failure that a radio node or an AMF reports never reaches the handler that is registered for it: the
  procedure of an unsuccessful outcome is overwritten while the message is decoded, and the state stays as it
  is.\<close>

theorem failures_dropped:
  assumes "numbers_ok L" "nl_decode L buf = Some (PDU_unsuccessfulOutcome, code, ies)"
  shows "handle_gnb_sctp_msg_read L (start_nsm L links) env R i st ppid buf g m = Some R \<and>
    (GetAmfIdBySock (fst R) i \<noteq> None \<longrightarrow> handle_amf_sctp_msg_read L (start_nsm L links) env R i st ppid buf g m = Some R)"
proof -
  have "map_of (handler_table apm_callbacks) (PDU_unsuccessfulOutcome, id_AMFConfigurationUpdate) = None"
    "map_of (handler_table epm_callbacks) (PDU_unsuccessfulOutcome, id_AMFConfigurationUpdate) = None"
    by (simp_all add: handler_table_def apm_callbacks_def epm_callbacks_def)
  then show ?thesis
    using assms(2)
    by (auto simp: handle_gnb_sctp_msg_read_def handle_amf_sctp_msg_read_def Let_def InterDecode_def PostActionDecode_def
        dispatched_up [OF assms(1)] dispatched_down [OF assms(1)] run_handler_def)
qed

theorem failures_dropped_witness:
  "\<forall>env. handle_gnb_sctp_msg_read demo_lib (start_nsm demo_lib []) env demo_relay 5 0 60 ''f'' 1 2 = Some demo_relay \<and>
   map_of (handler_table epm_callbacks) (PDU_unsuccessfulOutcome, id_InitialContextSetup) = Some GNB_InitialContextSetupFailureRsp"
proof (intro allI, goal_cases)
  case (1 env)
  have d: "nl_decode demo_lib ''f'' = Some (PDU_unsuccessfulOutcome, id_InitialContextSetup, [])" by (simp add: demo_lib_def)
  have "map_of (handler_table epm_callbacks) (PDU_unsuccessfulOutcome, id_InitialContextSetup) = Some GNB_InitialContextSetupFailureRsp"
    by (simp add: handler_table_def epm_callbacks_def)
  then show ?case using failures_dropped [OF demo_numbers d] by blast
qed

end
