(* ===== verification/Link_Laws.thy ===== *)
theory Link_Laws
  imports Relay_Laws
begin

text \<open>
  The associations of the signalling gateway and the users that move between radio nodes: the tables of
  a gateway that runs, the first message of a user, messages for all nodes, the identity of nodes, and what a
  handover passes on about a user.
\<close>

section \<open>Messages for all nodes\<close>

text \<open>One copy for every association that is in use, in the order of their numbers.\<close>

definition copies :: "ran_net \<Rightarrow> ngap_message \<Rightarrow> nat list \<Rightarrow> ngap_call list" where
  "copies N info is = map (\<lambda>i. SendDownLayerSctp (info\<lparr>nm_sockTarget := i\<rparr>)) (filter (\<lambda>i. nw_esm N i \<noteq> None) is)"

lemma to_all_copies:
  assumes "\<forall>i c. nw_esm (fst R) i = Some c \<longrightarrow> ec_sctp_index c = i"
  shows "fst (fst (to_all R info is)) = fst R" and "sg_calls (rgw (fst (to_all R info is))) = sg_calls (rgw R) @ copies (fst R) info is"
proof -
  have "fst (fst (to_all R info is)) = fst R \<and> sg_calls (rgw (fst (to_all R info is))) = sg_calls (rgw R) @ copies (fst R) info is"
    using assms
  proof (induction "is" arbitrary: R info)
    case Nil
    show ?case by (simp add: copies_def)
  next
    case (Cons i "is")
    show ?case
    proof (cases "nw_esm (fst R) i")
      case None
      then show ?thesis using Cons by (simp add: copies_def)
    next
      case (Some c)
      let ?i = "info\<lparr>nm_sockTarget := i\<rparr>"
      have c: "ec_sctp_index c = i" using Some Cons.prems by blast
      have "fst (send_down R ?i) = fst R" "sg_calls (rgw (send_down R ?i)) = sg_calls (rgw R) @ [SendDownLayerSctp ?i]"
        by (simp_all add: send_down_def log_call_def)
      moreover have "copies (fst R) ?i is = copies (fst R) info is" by (simp add: copies_def)
      ultimately show ?thesis using Cons.IH [of "send_down R ?i" ?i] Cons.prems Some c by (simp add: copies_def Let_def)
    qed
  qed
  then show "fst (fst (to_all R info is)) = fst R" "sg_calls (rgw (fst (to_all R info is))) = sg_calls (rgw R) @ copies (fst R) info is"
    by blast+
qed

text \<open>C27. A message for all radio nodes is sent once to every association in use, in the order of their numbers, and
  to no other; nothing else of the state changes but the log.\<close>

theorem broadcast_reaches_all:
  assumes "net_ok (fst R)"
  shows "sg_calls (rgw (fst (SendToAllRAN R info))) = sg_calls (rgw R) @
      map (\<lambda>i. SendDownLayerSctp (info\<lparr>nm_sockTarget := i\<rparr>)) (filter (\<lambda>i. nw_esm (fst R) i \<noteq> None) [0..<MAX_ESM_SESSIONS]) \<and>
    fst (fst (SendToAllRAN R info)) = fst R"
  using to_all_copies(1,2) [of R info "[0..<MAX_ESM_SESSIONS]"] assms unfolding SendToAllRAN_def copies_def net_ok_def by blast

lemma demo_net_fields [simp]:
  "nw_amf_list demo_net a = (if a = 1 then 20 else NULL)" "nw_amf_sctp_list demo_net i = (if i = 7 then 20 else NULL)"
  "nw_amfid demo_net = 2" "nw_timers demo_net = []" "nw_brk demo_net = 30"
  by (simp_all add: demo_net_def)

lemma demo_net_entries:
  "nw_asm demo_net p \<noteq> None \<longleftrightarrow> p = 20" "\<exists>c. nw_asm demo_net 20 = Some c \<and> ac_sctp_index c = 7 \<and> ac_amfId c = 1"
  "nw_esm demo_net i = Some c \<Longrightarrow> i = 5 \<and> ec_sctp_index c = 5" "nw_esm demo_net i \<noteq> None \<longleftrightarrow> i = 5"
  by (auto simp: demo_net_def split: if_splits)

lemma filter_single: "filter (\<lambda>i. i = k) [0..<n] = (if k < n then [k] else [])"
  by (induction n) auto

theorem broadcast_witness:
  "sg_calls (rgw (fst (SendToAllRAN demo_relay demo_request))) = [SendDownLayerSctp (demo_request\<lparr>nm_sockTarget := 5\<rparr>)]"
proof -
  have d: "fst demo_relay = demo_net" "sg_calls (rgw demo_relay) = []" and n: "net_ok (fst demo_relay)"
    using demo_net_ok by (simp_all add: demo_relay_def)
  have "filter (\<lambda>i. nw_esm demo_net i \<noteq> None) [0..<MAX_ESM_SESSIONS] = [5]"
    unfolding demo_net_entries(4) filter_single by simp
  then have "map f (filter (\<lambda>i. nw_esm demo_net i \<noteq> None) [0..<MAX_ESM_SESSIONS]) = [f 5]" for f :: "nat \<Rightarrow> ngap_call"
    by (simp only: list.map)
  then show ?thesis using broadcast_reaches_all [OF n, of demo_request] unfolding d by (simp only: append_Nil)
qed

section \<open>A gateway that runs\<close>

lemma start_nsm_links [simp]: "nk_links (start_nsm L links) = links" "nk_act_links (start_nsm L links) = Map.empty"
proof -
  have "nk_links (fold (\<lambda>(c, p, h) K. RegisterUpLayerRecv K (choice_number c) (nl_number L p) h) cs K) = nk_links K \<and>
      nk_act_links (fold (\<lambda>(c, p, h) K. RegisterUpLayerRecv K (choice_number c) (nl_number L p) h) cs K) = nk_act_links K" for cs K
    by (induction cs arbitrary: K) (auto simp: RegisterUpLayerRecv_def Let_def)
  moreover have "nk_links (fold (\<lambda>(c, p, h) K. RegisterDownLayerRecv K (choice_number c) (nl_number L p) h) cs K) = nk_links K \<and>
      nk_act_links (fold (\<lambda>(c, p, h) K. RegisterDownLayerRecv K (choice_number c) (nl_number L p) h) cs K) = nk_act_links K" for cs K
    by (induction cs arbitrary: K) (auto simp: RegisterDownLayerRecv_def Let_def)
  ultimately show "nk_links (start_nsm L links) = links" "nk_act_links (start_nsm L links) = Map.empty"
    by (simp_all add: start_nsm_def Epm_Init_def APM_Init_def NsmManager_Init_def StartSctpTimer_def Let_def)
qed

text \<open>C4. Whatever packets, losses and answers of media gateways arrive, and in whatever order the timers fire, a used slot of the tables of users and of
  PDU sessions holds an allocated session with the identifier of the slot, the two tables of AMFs describe the same
  associations, and a radio node is kept under the number of its association.\<close>

theorem gateway_tables_consistent:
  assumes "(relay_step L env)\<^sup>*\<^sup>* (start_nsm L links, start_net, B, start_sig medias) (K, N, B', W)"
  shows "(\<forall>n. sg_ngap_list W n \<noteq> NULL \<longrightarrow> (\<exists>s. sg_ngaps W (sg_ngap_list W n) = Some s \<and> ns_sessId s = n)) \<and>
    (\<forall>n. sg_pdu_list W n \<noteq> NULL \<longrightarrow> (\<exists>s. sg_pdus W (sg_pdu_list W n) = Some s \<and> sm_sig_sess_id s = n)) \<and>
    (\<forall>i. nw_amf_sctp_list N i \<noteq> NULL \<longrightarrow> (\<exists>c. nw_asm N (nw_amf_sctp_list N i) = Some c \<and> ac_sctp_index c = i \<and>
       nw_amf_list N (ac_amfId c) = nw_amf_sctp_list N i)) \<and>
    (\<forall>i c. nw_esm N i = Some c \<longrightarrow> ec_sctp_index c = i)"
proof -
  have ok: "ngaps_ok W" "pdus_ok W" "amfs_ok N" "\<forall>i c. nw_esm N i = Some c \<longrightarrow> ec_sctp_index c = i"
    using relay_reachable_ok [OF assms] by (simp_all add: sig_ok_def net_ok_def)
  show ?thesis using ngaps_okD(3) [OF ok(1)] pdus_okD(3) [OF ok(2)] amfs_okD(2) [OF ok(3)] ok(4) by blast
qed

theorem gateway_tables_witness:
  "\<forall>env. \<exists>K N. relay_step demo_lib env (start_nsm demo_lib [\<lparr>lk_idSctpIndex = 7, lk_idSigGW = 1, lk_Priority = 0, lk_client = True\<rparr>],
       start_net, demo_bus, start_sig []) (K, N, demo_bus, start_sig []) \<and>
     nw_amf_sctp_list N 7 \<noteq> NULL \<and> (\<exists>c. nw_asm N (nw_amf_sctp_list N 7) = Some c \<and> ac_sctp_index c = 7)"
proof (intro allI, goal_cases)
  case (1 env)
  let ?l = "\<lparr>lk_idSctpIndex = 7, lk_idSigGW = 1, lk_Priority = 0, lk_client = True\<rparr>"
  let ?K = "start_nsm demo_lib [?l]"
  obtain K N where h: "handle_sctp_timeout ?K (start_net, demo_bus, start_sig []) = Some (K, N, demo_bus, start_sig [])"
      and n: "nw_amf_sctp_list N 7 \<noteq> NULL"
    by (simp add: handle_sctp_timeout_def AddAmf_def start_net_def AsmManager_Init_def AddTimer_def put_net_def Let_def)
  have step: "relay_step demo_lib env (?K, start_net, demo_bus, start_sig []) (K, N, demo_bus, start_sig [])"
    using rs_links [OF h] .
  then show ?case using gateway_tables_consistent [OF r_into_rtranclp [of "relay_step demo_lib env", OF step]] n by blast
qed

section \<open>The first message of a user\<close>

lemma DecodeNasPdu_keeps:
  assumes "DecodeNasPdu info b n = Some info'"
  shows "nm_ies info' = nm_ies info \<and> nm_sockSource info' = nm_sockSource info \<and> nm_ranNodeId info' = nm_ranNodeId info \<and>
    nm_idSigGW info' = nm_idSigGW info"
proof -
  have "post (DecodeNasPdu info b n) (\<lambda>info'. nm_ies info' = nm_ies info \<and> nm_sockSource info' = nm_sockSource info \<and>
      nm_ranNodeId info' = nm_ranNodeId info \<and> nm_idSigGW info' = nm_idSigGW info)"
    by (simp add: DecodeNasPdu_def post_trivial split: option.split)
  then show ?thesis using assms by (rule postD)
qed

lemma read_nas_keeps:
  assumes "read_nas info ies = Some info'"
  shows "nm_ies info' = nm_ies info \<and> nm_sockSource info' = nm_sockSource info \<and> nm_ranNodeId info' = nm_ranNodeId info \<and>
    nm_idSigGW info' = nm_idSigGW info"
  using assms
proof (induction ies arbitrary: info)
  case (Cons ie ies)
  show ?case
  proof (cases "\<exists>b. ie = IE_NAS_PDU b")
    case True
    then obtain b i where "DecodeNasPdu info (Some b) (length b) = Some i" "read_nas i ies = Some info'"
      using Cons.prems by (auto simp: Option.bind_eq_Some_conv)
    then show ?thesis using Cons.IH [of i] DecodeNasPdu_keeps [of info "Some b" "length b" i] by auto
  next
    case False
    then have "read_nas info ies = Some info'" using Cons.prems by (cases ie) auto
    then show ?thesis by (rule Cons.IH)
  qed
qed simp

lemma sig_slot_free: "sig_slot n T i = (k, Some j) \<Longrightarrow> T j = NULL"
  by (induction n T i rule: sig_slot.induct) (auto simp: Let_def split: if_splits)

lemma new_session:
  assumes "NewNgapSession W info = Some (W', Some p)" "sig_ok W"
  obtains j s where "sg_ngap_list W j = NULL" "sg_ngap_list W' = (sg_ngap_list W)(j := p)" "sg_ngaps W' = (sg_ngaps W)(p \<mapsto> s)"
    "GetNgapSession W' j = Some p" "sg_calls W' = sg_calls W" "ns_sessId s = j" "ns_gnbUeId s = nm_gnbUeId info"
    "ns_gnb_sctp_index s = nm_sockSource info" "ns_gnbId s = nm_ranNodeId info" "ns_amfId s = nm_amfId info"
    "sg_ngaps W p = None"
proof -
  obtain i slot where f: "sig_slot MAX_SIG_SESSIONS (sg_ngap_list W) (sg_ngap_current W) = (i, slot)" by fastforce
  obtain j where j: "slot = Some j" using assms(1) f by (cases slot) (auto simp: NewNgapSession_def)
  have lt: "j < MAX_SIG_SESSIONS" "sg_ngap_list W j = NULL" using slot_found(2) [OF assms(2) f j] sig_slot_free f j by auto
  have b: "0 < sg_brk W" "sg_ngaps W (sg_brk W) = None"
    using assms(2) ngaps_okD(2) [of W "sg_brk W"] by (cases "sg_ngaps W (sg_brk W)"; auto simp: sig_ok_def)+
  show ?thesis
    using that lt b assms(1) f j
    by (auto simp: NewNgapSession_def Let_def next_stream_def AddNgapSess_def startNgapSessTimer_def GetNgapSession_def
        Option.bind_eq_Some_conv split: if_splits)
qed

text \<open>C7. The first message of a user opens a session in a slot that was free, for the node and the user it came from; the
  AMF that the gateway selects gets the message, with the identifier of the session for that of the node, and no
  other session is touched.\<close>

theorem first_message_opens_session:
  assumes "GNB_InitialUEMessage env R info = Some (R', info', True)" "sig_ok (rgw R)"
  shows "\<exists>p s g. last_ie ran_id (nm_ies info) = Some g \<and> sg_ngap_list (rgw R) (nm_sessId info') = NULL \<and>
    GetNgapSession (rgw R') (nm_sessId info') = Some p \<and> sg_ngaps (rgw R') p = Some s \<and>
    ns_sessId s = nm_sessId info' \<and> ns_gnbUeId s = g mod 2 ^ 32 \<and> ns_gnb_sctp_index s = nm_sockSource info \<and>
    ns_gnbId s = nm_ranNodeId info \<and> SelectAmf (fst R) (nm_idSigGW info) = Some (ns_amfId s) \<and>
    GetTargetSock (fst R) (ns_amfId s) = Some (nm_sockTarget info') \<and>
    sg_calls (rgw R') = sg_calls (rgw R) @ [SendUpLayerSctp info'] \<and>
    last_ie ran_id (nm_ies info') = Some (ns_sessId s) \<and> list_all2 same_but_id (nm_ies info) (nm_ies info') \<and>
    (\<forall>q. sg_ngaps (rgw R) q \<noteq> None \<longrightarrow> sg_ngaps (rgw R') q = sg_ngaps (rgw R) q)"
proof -
  obtain i g a W p s sock where 1: "read_nas info (nm_ies info) = Some i" "last_ie ran_id (nm_ies i) = Some g"
      "SelectAmf (fst R) (nm_idSigGW i) = Some a"
      "NewNgapSession (rgw R) (i\<lparr>nm_gnbUeId := g mod 2 ^ 32, nm_amfId := a\<rparr>) = Some (W, Some p)" "sg_ngaps W p = Some s"
      "GetTargetSock (fst R) (ns_amfId s) = Some sock"
      "info' = i\<lparr>nm_gnbUeId := g mod 2 ^ 32, nm_amfId := ns_amfId s, nm_sessId := ns_sessId s, nm_sockTarget := sock,
         nm_ies := set_ran_id (ns_sessId s) (nm_ies i)\<rparr>"
      "R' = send_up (put_rgw R W) info'"
    using assms(1) by (auto simp: GNB_InitialUEMessage_def Let_def Option.bind_eq_Some_conv split: if_splits option.splits)
  let ?i = "i\<lparr>nm_gnbUeId := g mod 2 ^ 32, nm_amfId := a\<rparr>"
  obtain j t where 2: "sg_ngap_list (rgw R) j = NULL" "sg_ngap_list W = (sg_ngap_list (rgw R))(j := p)"
      "sg_ngaps W = (sg_ngaps (rgw R))(p \<mapsto> t)" "GetNgapSession W j = Some p" "sg_calls W = sg_calls (rgw R)" "ns_sessId t = j"
      "ns_gnbUeId t = nm_gnbUeId ?i" "ns_gnb_sctp_index t = nm_sockSource ?i" "ns_gnbId t = nm_ranNodeId ?i" "ns_amfId t = nm_amfId ?i"
      "sg_ngaps (rgw R) p = None"
    by (rule new_session [OF 1(4) assms(2)])
  have k: "nm_ies i = nm_ies info" "nm_sockSource i = nm_sockSource info" "nm_ranNodeId i = nm_ranNodeId info"
      "nm_idSigGW i = nm_idSigGW info"
    using read_nas_keeps [OF 1(1)] by simp_all
  have t: "t = s" using 1(5) 2(3) by simp
  have same: "list_all2 same_but_id (nm_ies info) (set_ran_id n (nm_ies info))" for n
    unfolding set_ran_id_def by (intro set_last_ie_all2) (simp_all add: same_but_id_def)
  have log: "GetNgapSession (V\<lparr>sg_calls := cs\<rparr>) m = GetNgapSession V m" for V cs m by (simp add: GetNgapSession_def)
  show ?thesis
    using 1(2,3,5-8) 2 k t same
    by (intro exI [of _ p] exI [of _ s] exI [of _ g])
      (simp add: send_up_def log log_call_def)
qed

definition demo_first :: ngap_message where
  "demo_first = (new_NgapMessage 0)\<lparr>nm_ranNodeId := RanNodeId no_plmn RNT_GNB_ID RNET_NULL 300, nm_sockSource := 5, nm_idSigGW := 1,
     nm_ies := [IE_RAN_UE_NGAP_ID 11]\<rparr>"

lemma select_amf_none:
  "(\<forall>i \<in> set is. nw_amf_sctp_list N i = NULL) \<Longrightarrow> select_amf N g acc is = Some acc"
  by (induction "is") (auto simp: Let_def)

lemma select_amf_append: "select_amf N g acc (is @ js) = Option.bind (select_amf N g acc is) (\<lambda>acc. select_amf N g acc js)"
  by (induction "is" arbitrary: acc) (auto simp: Let_def split: option.splits)

lemma upt_split: "k < n \<Longrightarrow> [0..<n] = [0..<k] @ k # [Suc k..<n]"
  using upt_add_eq_append [of 0 k "n - k"] upt_conv_Cons [of k n] by simp

lemma demo_select: "SelectAmf demo_net 1 = Some 1"
proof -
  have none: "select_amf demo_net 1 acc is = Some acc" if "7 \<notin> set is" for acc "is"
    using that by (intro select_amf_none) auto
  have one: "select_amf demo_net 1 0 (7 # is) = select_amf demo_net 1 1 is" for "is"
    by (simp add: demo_net_def)
  have "[0..<n] = [0..<7] @ 7 # [Suc 7..<n] \<and> 7 \<notin> set [0..<7::nat] \<and> 7 \<notin> set [Suc 7..<n]" if "7 < n" for n :: nat
    using upt_split [OF that] by simp
  then have "select_amf demo_net 1 0 [0..<n] = Some 1" if "7 < n" for n
    using that none one by (simp add: select_amf_append del: select_amf.simps(2))
  then show ?thesis unfolding SelectAmf_def by simp
qed

lemma demo_relay_ok: "sig_ok (rgw demo_relay)"
proof -
  have "ngaps_ok (rgw demo_relay)"
    by (rule ngaps_okI) (auto simp: demo_relay_def demo_user_def split: if_splits)
  then show ?thesis using demo_sig_ok by (simp add: sig_ok_def demo_relay_def pdus_ok_def)
qed

theorem first_message_witness:
  "\<forall>env. \<exists>R' info' p s. GNB_InitialUEMessage env demo_relay demo_first = Some (R', info', True) \<and> nm_sockTarget info' = 7 \<and>
     GetNgapSession (rgw R') (nm_sessId info') = Some p \<and> sg_ngaps (rgw R') p = Some s \<and> ns_gnbUeId s = 11 \<and> ns_amfId s = 1"
proof (intro allI, goal_cases)
  case (1 env)
  have r: "fst demo_relay = demo_net" "sg_ngap_current (rgw demo_relay) = 3" "sg_ngap_list (rgw demo_relay) = (\<lambda>_. NULL)(3 := 50)"
    "sg_brk (rgw demo_relay) = 60"
    by (simp_all add: demo_relay_def)
  have f: "read_nas demo_first (nm_ies demo_first) = Some demo_first" "last_ie ran_id (nm_ies demo_first) = Some 11"
      "nm_idSigGW demo_first = 1" "rn_id (nm_ranNodeId demo_first) \<noteq> 0xFFFFFFFF"
    by (simp_all add: demo_first_def last_ie_Cons)
  have slot: "sig_slot (Suc k) (sg_ngap_list (rgw demo_relay)) 3 = (4, Some 4)" for k
    by (simp add: r SIG_NEXT_ID_def)
  have s: "sig_slot MAX_SIG_SESSIONS (sg_ngap_list (rgw demo_relay)) 3 = (4, Some 4)"
    using slot [of "MAX_SIG_SESSIONS - 1"] by simp
  obtain W p where n: "NewNgapSession (rgw demo_relay) (demo_first\<lparr>nm_gnbUeId := 11, nm_amfId := 1\<rparr>) = Some (W, Some p)"
    using s by (auto simp: NewNgapSession_def r Let_def AddNgapSess_def startNgapSessTimer_def GetNgapSession_def next_stream_def)
  obtain j s where "sg_ngaps W = (sg_ngaps (rgw demo_relay))(p \<mapsto> s)" "ns_amfId s = nm_amfId (demo_first\<lparr>nm_gnbUeId := 11, nm_amfId := 1\<rparr>)"
    by (rule new_session [OF n demo_relay_ok])
  then have w: "sg_ngaps W p = Some s" "ns_amfId s = 1" by simp_all
  have sock: "GetTargetSock demo_net 1 = Some 7" by (simp add: GetTargetSock_def demo_net_def)
  obtain R' info' where i: "GNB_InitialUEMessage env demo_relay demo_first = Some (R', info', True)"
    using f n w sock demo_select by (auto simp: GNB_InitialUEMessage_def Let_def r)
  show ?case
    using first_message_opens_session [OF i demo_relay_ok] i f(2,3) demo_select sock
    by (auto simp: r intro!: exI [of _ R'] exI [of _ info'])
qed

end
