(* ===== verification/Handover_Laws.thy ===== *)
theory Handover_Laws
  imports Link_Laws
begin

text \<open>
  Users that move between radio nodes of the gateway: what it keeps about a user and hands to the next node,
  and whose session it is after the move. And the identifiers by which gateways know each other.
\<close>

section \<open>What a handover passes on\<close>

lemma id_bytes_SomeD: "id_bytes b n = Some v \<Longrightarrow> n \<le> length b \<and> v = map char_byte (take n b)"
  by (simp add: id_bytes_def split: if_splits)

lemma list_of_2: "length b = 2 \<Longrightarrow> \<exists>x y. b = [x, y]"
  by (auto simp: numeral_2_eq_2 length_Suc_conv)

lemma bytes2_pair: "bytes2 (char_byte x * 2 ^ 8 + char_byte y) = [x, y]"
proof -
  have "char_byte y < (256::nat)" by simp
  then have "(char_byte x * 256 + char_byte y) div 256 = (char_byte x :: nat)" by simp
  moreover have "byte_char (char_byte x * 256 + char_byte y) = (y :: char)"
    by (simp add: char_of_eq_iff take_bit_eq_mod mod_add_eq mod_mult_self2_is_0 [of _ 256] mod_add_left_eq [symmetric])
  ultimately show ?thesis by (simp add: bytes2_def)
qed

lemma be16_bytes2: "be16 b = Some v \<Longrightarrow> length b = 2 \<Longrightarrow> bytes2 v = b"
  using bytes2_pair by (auto simp: be16_def id_bytes_def dest!: list_of_2)

lemma be16_pair: "length b = 2 \<Longrightarrow> \<exists>v. be16 b = Some v"
  by (simp add: be16_def id_bytes_def)

text \<open>The parts of the session that one element of a request sets, and the elements that do not touch them.\<close>

lemma put_guami_stores:
  assumes "put_guami (Some (plmn, [r], i, [q])) s = Some s'" "length plmn = 3" "length i = 2"
  shows "gu_plmn (ns_guami s') = plmn" "byte_char (gu_AMFRegionID (ns_guami s')) = r" "bytes2 (gu_AMFSetId (ns_guami s')) = i"
    "gu_AMFPointer (ns_guami s') = char_byte q mod 64"
proof -
  obtain x y where i: "i = [x, y]" using list_of_2 [OF assms(3)] by blast
  have s': "s' = s\<lparr>ns_guami := \<lparr>gu_AMFRegionID = char_byte r, gu_AMFSetId = char_byte x * 2 ^ 8 + char_byte y,
      gu_AMFPointer = char_byte q mod 2 ^ 6, gu_plmn = plmn\<rparr>\<rparr>"
    using assms(1,2) i by (simp add: put_guami_def id_bytes_def PLMN_ID_LEN_def split: if_splits)
  show "gu_plmn (ns_guami s') = plmn" "byte_char (gu_AMFRegionID (ns_guami s')) = r" "bytes2 (gu_AMFSetId (ns_guami s')) = i"
    "gu_AMFPointer (ns_guami s') = char_byte q mod 64"
    using bytes2_pair [of x y] by (simp_all add: s' i)
qed

lemma put_algorithms_stores:
  assumes "put_algorithms (Some (a, b, c, d)) s = Some s'" "length a = 2" "length b = 2" "length c = 2" "length d = 2"
  shows "algorithms_ie s' = IE_UESecurityCapabilities a b c d"
proof -
  obtain va vb vc vd where v: "be16 a = Some va" "be16 b = Some vb" "be16 c = Some vc" "be16 d = Some vd"
    using be16_pair assms(2-5) by meson
  have "s' = s\<lparr>ns_nRencryptionAlgorithms := va, ns_nRintegrityProtectionAlgorithms := vb, ns_eUTRAencryptionAlgorithms := vc,
      ns_eUTRAintegrityProtectionAlgorithms := vd\<rparr>"
    using assms(1) v by (simp add: put_algorithms_def)
  then show ?thesis using be16_bytes2 v assms(2-5) by (simp add: algorithms_ie_def)
qed

text \<open>The slice, as the three bytes of its differentiator are sent again.\<close>

lemma bytes3_triple: "bytes3 (char_byte x * 2 ^ 16 + char_byte y * 2 ^ 8 + char_byte z) = [x, y, z]"
proof -
  have b: "char_byte y < (256::nat)" "char_byte z < (256::nat)" by simp_all
  have "(char_byte x * 65536 + char_byte y * 256 + char_byte z) div 65536 = (char_byte x :: nat)"
    by (rule div_nat_eqI; insert b; (unfold mult_Suc_right)?; linarith)
  moreover have "(char_byte x * 65536 + char_byte y * 256 + char_byte z) div 256 = (char_byte x * 256 + char_byte y :: nat)"
    by (rule div_nat_eqI; insert b; simp add: algebra_simps)
  moreover have "byte_char (k * 256 + char_byte c) = (c :: char)" for k c
    by (simp add: char_of_eq_iff take_bit_eq_mod mod_add_eq mod_mult_self2_is_0 [of _ 256] mod_add_left_eq [symmetric])
  moreover from this [of "char_byte x * 256 + char_byte y" z]
  have "byte_char (char_byte x * 65536 + char_byte y * 256 + char_byte z) = (z :: char)" by (simp add: algebra_simps)
  ultimately show ?thesis by (simp add: bytes3_def)
qed

definition sd_bytes :: "string option \<Rightarrow> string" where
  "sd_bytes sd = (case sd of None \<Rightarrow> [NUL, NUL, NUL] | Some b \<Rightarrow> b)"

lemma put_nssai_stores:
  assumes "put_nssai (Some (([t], sd) # ns)) s = Some s'" "ns_allowedSNnsaiSD s = 0" "length (sd_bytes sd) = 3"
  shows "[byte_char (ns_allowedSNnsaiSST s')] = [t]" "bytes3 (ns_allowedSNnsaiSD s') = sd_bytes sd"
proof -
  obtain v where v: "(case sd of None \<Rightarrow> Some 0 | Some b \<Rightarrow> or_sd 0 b) = Some v"
    "s' = s\<lparr>ns_allowedSNnsaiSD := v, ns_allowedSNnsaiSST := char_byte t\<rparr>"
    using assms(1) unfolding put_nssai_def assms(2) by (auto simp: id_bytes_def Option.bind_eq_Some_conv)
  then show "[byte_char (ns_allowedSNnsaiSST s')] = [t]" by simp
  show "bytes3 (ns_allowedSNnsaiSD s') = sd_bytes sd"
  proof (cases sd)
    case None
    then show ?thesis using v by (simp add: sd_bytes_def bytes3_def char_of_eq_iff)
  next
    case (Some b)
    then obtain x y z where b: "b = [x, y, z]" using assms(3)
      by (auto simp: sd_bytes_def numeral_3_eq_3 length_Suc_conv)
    show ?thesis using v Some b bytes3_triple [of x y z] by (simp add: sd_bytes_def or_sd_def id_bytes_def)
  qed
qed

text \<open>What each element leaves alone.\<close>

definition kept_by_all :: "ngap_session \<Rightarrow> ngap_session \<Rightarrow> bool" where
  "kept_by_all s s' \<longleftrightarrow> ns_maxBitrateUl s' = ns_maxBitrateUl s \<and> ns_maxBitrateDl s' = ns_maxBitrateDl s \<and>
     ns_nextHopChainingCount s' = ns_nextHopChainingCount s"

definition same_slice :: "ngap_session \<Rightarrow> ngap_session \<Rightarrow> bool" where
  "same_slice s s' \<longleftrightarrow> ns_allowedSNnsaiSD s' = ns_allowedSNnsaiSD s \<and> ns_allowedSNnsaiSST s' = ns_allowedSNnsaiSST s"

lemma put_nssai_keeps: "put_nssai x s = Some s' \<Longrightarrow> kept_by_all s s' \<and> ns_securityContext s' = ns_securityContext s"
  by (auto simp: put_nssai_def kept_by_all_def Option.bind_eq_Some_conv split: option.splits list.splits)

lemma put_guami_keeps: "put_guami x s = Some s' \<Longrightarrow> kept_by_all s s' \<and> same_slice s s' \<and> ns_securityContext s' = ns_securityContext s"
  by (cases x) (auto simp: put_guami_def kept_by_all_def same_slice_def Option.bind_eq_Some_conv)

lemma put_algorithms_keeps: "put_algorithms x s = Some s' \<Longrightarrow>
    kept_by_all s s' \<and> same_slice s s' \<and> ns_securityContext s' = ns_securityContext s \<and> ns_guami s' = ns_guami s"
  by (cases x) (auto simp: put_algorithms_def kept_by_all_def same_slice_def Option.bind_eq_Some_conv)

lemma put_key_keeps: "put_key x s = Some s' \<Longrightarrow>
    kept_by_all s s' \<and> same_slice s s' \<and> ns_guami s' = ns_guami s \<and> algorithms_ie s' = algorithms_ie s"
  by (cases x) (auto simp: put_key_def algorithms_ie_def kept_by_all_def same_slice_def Option.bind_eq_Some_conv)

lemma put_key_context:
  assumes "put_key (Some k) s = Some s'" "length k = 32" "length (ns_securityContext s) = 32"
  shows "ns_securityContext s' = k"
  using assms by (auto simp: put_key_def overwrite_def MAX_SECURITY_CONTEXT_LEN_def Option.bind_eq_Some_conv)

text \<open>What an AMF describes a user with in an InitialContextSetup, in the sizes the elements have.\<close>

record described =
  ud_ul :: nat
  ud_dl :: nat
  ud_algorithms :: "string \<times> string \<times> string \<times> string"
  ud_plmn :: string
  ud_region :: char
  ud_set :: string
  ud_pointer :: char
  ud_key :: string
  ud_sst :: char
  ud_sd :: "string option"

definition describes :: "ngap_ie list \<Rightarrow> described \<Rightarrow> bool" where
  "describes ies u \<longleftrightarrow> last_ie rate_of ies = Some (ud_ul u, ud_dl u) \<and> last_ie algorithms_of ies = Some (ud_algorithms u) \<and>
     (case ud_algorithms u of (a, b, c, d) \<Rightarrow> length a = 2 \<and> length b = 2 \<and> length c = 2 \<and> length d = 2) \<and>
     last_ie guami_of ies = Some (ud_plmn u, [ud_region u], ud_set u, [ud_pointer u]) \<and> length (ud_plmn u) = 3 \<and>
     length (ud_set u) = 2 \<and> last_ie key_of ies = Some (ud_key u) \<and> length (ud_key u) = 32 \<and>
     (\<exists>ns. last_ie nssai_of ies = Some (([ud_sst u], ud_sd u) # ns)) \<and> length (sd_bytes (ud_sd u)) = 3"

definition fresh_session :: "ngap_session \<Rightarrow> bool" where
  "fresh_session s \<longleftrightarrow> ns_allowedSNnsaiSD s = 0 \<and> length (ns_securityContext s) = 32"

text \<open>What an InitialContextSetup stores, as it is sent again.\<close>

lemma stored_user:
  assumes "AMF_InitialContextSetupReq_UpdateNgapSess R info = Some (R', True)" "GetNgapSession (rgw R) (nm_sessId info) = Some p"
    and "sg_ngaps (rgw R) p = Some s0" "fresh_session s0" "describes (nm_ies info) u"
  obtains s where "sg_ngaps (rgw R') p = Some s" "GetNgapSession (rgw R') (nm_sessId info) = Some p"
    "ns_maxBitrateUl s = ud_ul u" "ns_maxBitrateDl s = ud_dl u"
    "algorithms_ie s = (case ud_algorithms u of (a, b, c, d) \<Rightarrow> IE_UESecurityCapabilities a b c d)"
    "gu_plmn (ns_guami s) = ud_plmn u" "byte_char (gu_AMFRegionID (ns_guami s)) = ud_region u"
    "bytes2 (gu_AMFSetId (ns_guami s)) = ud_set u" "gu_AMFPointer (ns_guami s) = char_byte (ud_pointer u) mod 64"
    "ns_securityContext s = ud_key u" "ns_nextHopChainingCount s = ns_nextHopChainingCount s0"
    "byte_char (ns_allowedSNnsaiSST s) = ud_sst u" "bytes3 (ns_allowedSNnsaiSD s) = sd_bytes (ud_sd u)"
proof -
  obtain a b c d where al: "ud_algorithms u = (a, b, c, d)" by (cases "ud_algorithms u") auto
  obtain ns where u: "last_ie rate_of (nm_ies info) = Some (ud_ul u, ud_dl u)" "last_ie algorithms_of (nm_ies info) = Some (a, b, c, d)"
    "length a = 2" "length b = 2" "length c = 2" "length d = 2"
    "last_ie guami_of (nm_ies info) = Some (ud_plmn u, [ud_region u], ud_set u, [ud_pointer u])"
    "length (ud_plmn u) = 3" "length (ud_set u) = 2" "last_ie key_of (nm_ies info) = Some (ud_key u)" "length (ud_key u) = 32"
    "last_ie nssai_of (nm_ies info) = Some (([ud_sst u], ud_sd u) # ns)" "length (sd_bytes (ud_sd u)) = 3"
    using assms(5) al by (auto simp: describes_def)
  let ?s0 = "put_user_rate (Some (ud_ul u, ud_dl u)) s0"
  obtain s1 s2 s3 s where
      s: "put_nssai (Some (([ud_sst u], ud_sd u) # ns)) ?s0 = Some s1"
      "put_guami (Some (ud_plmn u, [ud_region u], ud_set u, [ud_pointer u])) s1 = Some s2" "put_algorithms (Some (a, b, c, d)) s2 = Some s3"
      "put_key (Some (ud_key u)) s3 = Some s"
      and R': "R' = put_rgw R (rgw R\<lparr>sg_ngaps := (sg_ngaps (rgw R))(p \<mapsto> s)\<rparr>)"
    using assms(1-3) u
    by (auto simp: AMF_InitialContextSetupReq_UpdateNgapSess_def set_sess_def update_user_def Option.bind_eq_Some_conv)
  note keeps = put_nssai_keeps [OF s(1)] put_guami_keeps [OF s(2)] put_algorithms_keeps [OF s(3)] put_key_keeps [OF s(4)]
  have z: "ns_allowedSNnsaiSD ?s0 = 0" "length (ns_securityContext ?s0) = 32" "ns_nextHopChainingCount ?s0 = ns_nextHopChainingCount s0"
    "ns_maxBitrateUl ?s0 = ud_ul u" "ns_maxBitrateDl ?s0 = ud_dl u"
    using assms(4) by (simp_all add: fresh_session_def put_user_rate_def)
  have "ns_securityContext s3 = ns_securityContext ?s0" using keeps by simp
  then have key: "ns_securityContext s = ud_key u" using put_key_context [OF s(4) u(11)] z(2) by simp
  have alg: "algorithms_ie s = IE_UESecurityCapabilities a b c d"
    using put_algorithms_stores [OF s(3) u(3-6)] keeps by simp
  have "ns_guami s = ns_guami s2" using keeps by simp
  then have gu: "gu_plmn (ns_guami s) = ud_plmn u" "byte_char (gu_AMFRegionID (ns_guami s)) = ud_region u"
      "bytes2 (gu_AMFSetId (ns_guami s)) = ud_set u" "gu_AMFPointer (ns_guami s) = char_byte (ud_pointer u) mod 64"
    using put_guami_stores [OF s(2) u(8,9)] by simp_all
  have sl: "byte_char (ns_allowedSNnsaiSST s) = ud_sst u" "bytes3 (ns_allowedSNnsaiSD s) = sd_bytes (ud_sd u)"
    using put_nssai_stores [OF s(1) z(1) u(13)] keeps by (simp_all add: same_slice_def)
  have r: "ns_maxBitrateUl s = ud_ul u" "ns_maxBitrateDl s = ud_dl u" "ns_nextHopChainingCount s = ns_nextHopChainingCount s0"
    using keeps z by (simp_all add: kept_by_all_def)
  have "GetNgapSession (rgw R') n = GetNgapSession (rgw R) n" for n by (simp add: R' GetNgapSession_def)
  moreover have "sg_ngaps (rgw R') p = Some s" by (simp add: R')
  ultimately show ?thesis using that r(1,2) alg gu key r(3) sl assms(2) al by simp
qed

section \<open>The end of a handover\<close>

text \<open>What the media side does for a handover leaves the users and the messages alone.\<close>

definition same_users :: "sig_gw \<Rightarrow> sig_gw \<Rightarrow> bool" where
  "same_users W V \<longleftrightarrow> sg_ngaps V = sg_ngaps W \<and> sg_ngap_list V = sg_ngap_list W \<and> sg_calls V = sg_calls W"

lemma same_users_refl [simp]: "same_users W W"
  by (simp add: same_users_def)

lemma upd_pdu_users: "upd_pdu W p f = Some V \<Longrightarrow> same_users W V"
  by (auto simp: upd_pdu_def same_users_def)

lemma finishHo_users: "finishHo env G n r = Some (G', b) \<Longrightarrow> same_users (gw G) (gw G')"
  by (auto simp: finishHo_def Option.bind_eq_Some_conv same_users_def split: option.splits if_splits
      dest!: upd_pdu_users send_gw)

lemma finish_each_users: "finish_each env G n rs = Some G' \<Longrightarrow> same_users (gw G) (gw G')"
proof (induction rs arbitrary: G)
  case (Cons r rs)
  show ?case
  proof (cases "r = INVALID_PDU_SESSION_ID")
    case False
    then obtain G1 b where "finishHo env G n r = Some (G1, b)" "finish_each env G1 n rs = Some G'"
      using Cons.prems by (auto simp: Option.bind_eq_Some_conv)
    then show ?thesis using finishHo_users Cons.IH unfolding same_users_def by metis
  qed (use Cons in simp)
qed simp

section \<open>Properties\<close>

text \<open>C14. A user that moves to another radio node of the gateway is described there with what the AMF
  gave in the setup of its context: the rates, the algorithms, the key, the first of the allowed slices and
  the AMF, but for the upper two bits of the pointer of the AMF, which are cleared. The session is one
  no slice was stored in before (the differentiator is added to the one before).\<close>

theorem handover_passes_on_user:
  assumes "AMF_InitialContextSetupReq_UpdateNgapSess R info = Some (R', True)" "GetNgapSession (rgw R) (nm_sessId info) = Some p"
    and "sg_ngaps (rgw R) p = Some s0" "fresh_session s0" "describes (nm_ies info) u"
    and "SendHandoverRequest env R' msg (Some s2t) = Some (R'', True)" "nm_sessId msg = nm_sessId info"
  shows "\<exists>m. sg_calls (rgw R'') = sg_calls (rgw R') @ [SendDownLayerSctp m] \<and> nm_PDUChoice m = PDU_initiatingMessage \<and>
    nm_ProcCode m = id_HandoverResourceAllocation \<and> nm_sockTarget m = nm_sockTarget msg \<and>
    {IE_AMF_UE_NGAP_ID (nm_sessId info), IE_UEAggregateMaximumBitRate (ud_ul u) (ud_dl u),
      case ud_algorithms u of (a, b, c, d) \<Rightarrow> IE_UESecurityCapabilities a b c d,
      IE_SecurityContext (ns_nextHopChainingCount s0) (ud_key u), IE_AllowedNSSAI [([ud_sst u], Some (sd_bytes (ud_sd u)))],
      IE_SourceToTarget s2t,
      IE_GUAMI (ud_plmn u) [ud_region u] (ud_set u) [byte_char (char_byte (ud_pointer u) mod 64)]} \<subseteq> set (nm_ies m)"
proof -
  obtain s where s: "sg_ngaps (rgw R') p = Some s" "GetNgapSession (rgw R') (nm_sessId info) = Some p"
    "ns_maxBitrateUl s = ud_ul u" "ns_maxBitrateDl s = ud_dl u"
    "algorithms_ie s = (case ud_algorithms u of (a, b, c, d) \<Rightarrow> IE_UESecurityCapabilities a b c d)"
    "gu_plmn (ns_guami s) = ud_plmn u" "byte_char (gu_AMFRegionID (ns_guami s)) = ud_region u"
    "bytes2 (gu_AMFSetId (ns_guami s)) = ud_set u" "gu_AMFPointer (ns_guami s) = char_byte (ud_pointer u) mod 64"
    "ns_securityContext s = ud_key u" "ns_nextHopChainingCount s = ns_nextHopChainingCount s0"
    "byte_char (ns_allowedSNnsaiSST s) = ud_sst u" "bytes3 (ns_allowedSNnsaiSD s) = sd_bytes (ud_sd u)"
    by (rule stored_user [OF assms(1-5)])
  then show ?thesis
    using assms(6,7)
    by (auto simp: SendHandoverRequest_def Let_def Option.bind_eq_Some_conv send_down_def log_call_def put_rgw_def built_def ho_msg_def)
qed

text \<open>C10. When a user has arrived at a radio node of the same gateway, its session belongs to that node, and the node it
  has left, and only that one, is sent a release command for it with the identifier it had there.\<close>

theorem handover_moves_user:
  assumes "GNB_HandoverNotify env R info = Some (R', info', True)" "last_ie amf_id (nm_ies info) = Some n"
    and "GetNgapSession (rgw R) (n mod 2 ^ 32) = Some p" "sg_ngaps (rgw R) p = Some s" "in_same_gw s"
  shows "\<exists>esm m. GetEsmContext (fst R) (ns_gnb_sctp_index s) = Some esm \<and>
    sg_calls (rgw R') = sg_calls (rgw R) @ [SendDownLayerSctp m] \<and> nm_sockTarget m = ec_sctp_index esm \<and>
    nm_PDUChoice m = PDU_initiatingMessage \<and> nm_ProcCode m = id_UEContextRelease \<and>
    IE_UE_NGAP_IDs (UE_pair (ns_gnbUeId s) (ns_sessId s)) \<in> set (nm_ies m) \<and>
    sg_ngaps (rgw R') = (sg_ngaps (rgw R))(p \<mapsto> s\<lparr>ns_gnbId := ns_TgtGnbId s, ns_gnbUeId := ns_TgtGnbUeId s,
      ns_gnb_sctp_index := nm_sockTarget info, ns_eHOState := HO_State_SendRelCommandWaitRelComplete\<rparr>)"
proof -
  let ?t = "s\<lparr>ns_gnbId := ns_TgtGnbId s, ns_gnbUeId := ns_TgtGnbUeId s, ns_gnb_sctp_index := nm_sockTarget info\<rparr>"
  have x: "nm_sessId (sess_of_amf_id env info) = n mod 2 ^ 32" "nm_sockTarget (sess_of_amf_id env info) = nm_sockTarget info"
    using assms(2) by (simp_all add: sess_of_amf_id_def)
  obtain esm G where g: "GetEsmContext (fst R) (ns_gnb_sctp_index s) = Some esm"
      "finish_each (re_sig env) (put_gw (snd R) (rgw R\<lparr>sg_ngaps := (sg_ngaps (rgw R))(p \<mapsto> ?t)\<rparr>)) (ns_sessId ?t) (ns_vecPduSessionID ?t) = Some G"
    using assms(1,3-5) x
    by (auto simp: GNB_HandoverNotify_def Let_def Option.bind_eq_Some_conv upd_ngap_def split: option.splits)
  have G: "sg_ngaps (gw G) = (sg_ngaps (rgw R))(p \<mapsto> ?t)" "sg_calls (gw G) = sg_calls (rgw R)"
    using finish_each_users [OF g(2)] by (simp_all add: same_users_def)
  have "R' = put_rgw (SendUCRelCommand env (put_side R G) info') (rgw (SendUCRelCommand env (put_side R G) info')
      \<lparr>sg_ngaps := (sg_ngaps (gw G))(p \<mapsto> ?t\<lparr>ns_eHOState := HO_State_SendRelCommandWaitRelComplete\<rparr>)\<rparr>)"
    and "nm_gnbUeId info' = ns_gnbUeId s" "nm_sessId info' = ns_sessId s" "nm_sockTarget info' = ec_sctp_index esm"
    using assms(1,3-5) x g G
    by (auto simp: GNB_HandoverNotify_def Let_def Option.bind_eq_Some_conv upd_ngap_def SendUCRelCommand_def send_down_def
        put_rgw_def put_side_def log_call_def)
  then show ?thesis
    using g(1) G by (simp add: SendUCRelCommand_def send_down_def log_call_def put_rgw_def put_side_def built_def ho_msg_def)
qed

lemma bytes3_value: "(n::nat) div 65536 * 65536 + n div 256 mod 256 * 256 + n mod 256 = n"
proof -
  have "n div 65536 = n div 256 div 256" by (simp add: div_mult2_eq [symmetric])
  then show ?thesis using div_mult_mod_eq [of n 256] div_mult_mod_eq [of "n div 256" 256] by linarith
qed

lemma bytes3_word:
  "of_nat (n div 65536) * 65536 + of_nat (n div 256 mod 256) * 256 + of_nat (n mod 256) = (of_nat n :: 32 word)"
proof -
  have "of_nat (n div 65536 * 65536 + n div 256 mod 256 * 256 + n mod 256) = (of_nat n :: 32 word)"
    by (simp only: bytes3_value)
  then show ?thesis by (simp only: of_nat_add of_nat_mult of_nat_numeral)
qed

text \<open>C28. A gateway of the kind of a gNB that talks to another one is known there by the number and the network
  it was configured with; with a network that is not served there it is refused.\<close>

theorem node_id_understood:
  assumes "vp_gNBType q = CFG_GNB" "vp_gNBid q < 2 ^ 24"
    and "re_vgw env (ec_idSigGW c) = Some v" "re_bplmns env (ec_idSigGW c) = Some served"
  shows "\<exists>c' r. HandleGlobalRANNodeID env (node_id_ie q) c = Some (c', r) \<and>
    (if vp_Plmn q = vp_Plmn v \<or> vp_Plmn q \<in> snd ` set served
     then r = NGAP_CHECK_RNI_OK \<and> ec_sctp_index c' = ec_sctp_index c \<and>
       (\<exists>e. ec_ranNodeId c' = RanNodeId (vp_Plmn q) RNT_GNB_ID e (of_nat (vp_gNBid q)))
     else r = NGAP_CHECK_RNI_PLMN_ERROR \<and> c' = c)"
proof -
  have "plmn_of_bytes (plmn_bytes (vp_Plmn q)) = Some (vp_Plmn q)" 
    by (subst append_Nil2 [symmetric]) (simp del: append_Nil2)
  then have h: "HandlePlmn env (plmn_bytes (vp_Plmn q)) c = Some
      (if vp_Plmn q \<noteq> vp_Plmn v \<and> vp_Plmn q \<notin> snd ` set served then (c, NGAP_CHECK_RNI_PLMN_ERROR)
       else (set_node (\<lambda>_. vp_Plmn q) id id id c, NGAP_CHECK_RNI_OK))"
    using assms(3,4) by (simp add: HandlePlmn_def)
  moreover have "id_bytes [byte_char (vp_gNBid q div 2 ^ 16), byte_char (vp_gNBid q div 2 ^ 8), byte_char (vp_gNBid q)] 3 =
      Some [vp_gNBid q div 2 ^ 16, vp_gNBid q div 2 ^ 8 mod 256, vp_gNBid q mod 256]"
    using assms(2) by (simp add: id_bytes_def)
  ultimately show ?thesis
    using h assms(1) by (cases "ec_ranNodeId c") (simp add: HandleGlobalRANNodeID_def node_id_ie_def Let_def set_node_def bytes3_word)
qed

text \<open>The hypotheses hold for a user of radio node 5, whose context is set up and who then moves to another node.\<close>

definition demo_context :: ngap_message where
  "demo_context = (new_NgapMessage 0)\<lparr>nm_sessId := 3, nm_ies := [IE_UEAggregateMaximumBitRate 7 8,
     IE_UESecurityCapabilities ''ab'' ''cd'' ''ef'' ''gh'', IE_GUAMI ''plm'' ''r'' ''se'' [CHR ''0''],
     IE_SecurityKey (replicate 32 (CHR ''k'')), IE_AllowedNSSAI [(''t'', Some ''dif''), (''u'', None)]]\<rparr>"

definition demo_described :: described where
  "demo_described = \<lparr>ud_ul = 7, ud_dl = 8, ud_algorithms = (''ab'', ''cd'', ''ef'', ''gh''), ud_plmn = ''plm'', ud_region = CHR ''r'',
     ud_set = ''se'', ud_pointer = CHR ''0'', ud_key = replicate 32 (CHR ''k''), ud_sst = CHR ''t'', ud_sd = Some ''dif''\<rparr>"

lemma demo_describes: "describes (nm_ies demo_context) demo_described"
  by (simp add: describes_def demo_context_def demo_described_def last_ie_Cons sd_bytes_def)

definition demo_mover :: ngap_session where
  "demo_mover = demo_user\<lparr>ns_eHandoverflag := Ralation_RAN_Handover_IN_SAME_GW, ns_TgtGnbUeId := 21\<rparr>"

definition demo_moving :: relay where
  "demo_moving = (demo_net, demo_bus, demo_sig\<lparr>sg_ngaps := [50 \<mapsto> demo_mover]\<rparr>)"

definition demo_notify :: ngap_message where
  "demo_notify = (new_NgapMessage 0)\<lparr>nm_sockTarget := 6, nm_ies := [IE_AMF_UE_NGAP_ID 3, IE_RAN_UE_NGAP_ID 21]\<rparr>"

lemma demo_mover_fields [simp]:
  "ns_sessId demo_mover = 3" "ns_gnbUeId demo_mover = 9" "ns_gnb_sctp_index demo_mover = 5" "ns_TgtGnbUeId demo_mover = 21"
  "in_same_gw demo_mover" "ns_vecPduSessionID demo_mover = replicate MAX_PDU_SESSION_SIZE INVALID_PDU_SESSION_ID"
  by (simp_all add: demo_mover_def demo_user_def new_NgapSession_def in_same_gw_def)

lemma no_pdu_items: "pdu_items env f g W n (replicate k INVALID_PDU_SESSION_ID) = Some []"
  by (induction k) simp_all

lemma no_pdu_finish: "finish_each env G n (replicate k INVALID_PDU_SESSION_ID) = Some G"
  by (induction k) simp_all

theorem handover_moves_witness:
  "\<forall>env. \<exists>R' info' m. GNB_HandoverNotify env demo_moving demo_notify = Some (R', info', True) \<and>
     sg_calls (rgw R') = [SendDownLayerSctp m] \<and> nm_sockTarget m = 5 \<and> nm_PDUChoice m = PDU_initiatingMessage \<and>
     nm_ProcCode m = id_UEContextRelease \<and> IE_UE_NGAP_IDs (UE_pair 9 3) \<in> set (nm_ies m) \<and>
     (\<exists>s. sg_ngaps (rgw R') 50 = Some s \<and> ns_gnbUeId s = 21 \<and> ns_gnb_sctp_index s = 6)"
proof
  fix env
  have d: "last_ie amf_id (nm_ies demo_notify) = Some 3" "GetNgapSession (rgw demo_moving) (3 mod 2 ^ 32) = Some 50"
      "sg_ngaps (rgw demo_moving) 50 = Some demo_mover"
    by (simp_all add: demo_notify_def demo_moving_def last_ie_Cons GetNgapSession_def)
  have e: "GetEsmContext (fst demo_moving) 5 \<noteq> None" by (simp add: demo_moving_def GetEsmContext_def demo_net_def)
  have "\<exists>R' info'. GNB_HandoverNotify env demo_moving demo_notify = Some (R', info', True)"
    using d e
    by (auto simp: GNB_HandoverNotify_def Let_def sess_of_amf_id_def upd_ngap_def no_pdu_finish
        SendUCRelCommand_def send_down_def put_rgw_def put_side_def log_call_def simp del: split_paired_Ex)
  then obtain R' info' where h: "GNB_HandoverNotify env demo_moving demo_notify = Some (R', info', True)" by blast
  show "\<exists>R' info' m. GNB_HandoverNotify env demo_moving demo_notify = Some (R', info', True) \<and>
     sg_calls (rgw R') = [SendDownLayerSctp m] \<and> nm_sockTarget m = 5 \<and> nm_PDUChoice m = PDU_initiatingMessage \<and>
     nm_ProcCode m = id_UEContextRelease \<and> IE_UE_NGAP_IDs (UE_pair 9 3) \<in> set (nm_ies m) \<and>
     (\<exists>s. sg_ngaps (rgw R') 50 = Some s \<and> ns_gnbUeId s = 21 \<and> ns_gnb_sctp_index s = 6)"
    using handover_moves_user [OF h d demo_mover_fields(5)] h
    by (auto simp: demo_moving_def demo_net_def GetEsmContext_def demo_notify_def split: if_splits)
qed

theorem handover_passes_witness:
  "\<forall>env. \<exists>R R'' m. AMF_InitialContextSetupReq_UpdateNgapSess demo_relay demo_context = Some (R, True) \<and>
     SendHandoverRequest env R ((new_NgapMessage 0)\<lparr>nm_sessId := 3, nm_sockTarget := 6\<rparr>) (Some ''node'') = Some (R'', True) \<and>
     sg_calls (rgw R'') = sg_calls (rgw R) @ [SendDownLayerSctp m] \<and> nm_sockTarget m = 6 \<and>
     {IE_UEAggregateMaximumBitRate 7 8, IE_UESecurityCapabilities ''ab'' ''cd'' ''ef'' ''gh'', IE_SourceToTarget ''node'',
       IE_SecurityContext 0 (replicate 32 (CHR ''k'')), IE_AllowedNSSAI [(''t'', Some ''dif'')],
       IE_GUAMI ''plm'' ''r'' ''se'' [CHR ''0'']} \<subseteq> set (nm_ies m)"
proof
  fix env
  let ?m = "(new_NgapMessage 0)\<lparr>nm_sessId := 3, nm_sockTarget := 6\<rparr>"
  have c: "nm_sessId demo_context = 3" "last_ie rate_of (nm_ies demo_context) = Some (7, 8)"
    "last_ie algorithms_of (nm_ies demo_context) = Some (''ab'', ''cd'', ''ef'', ''gh'')"
    "last_ie guami_of (nm_ies demo_context) = Some (''plm'', [CHR ''r''], ''se'', [CHR ''0''])"
    "last_ie nssai_of (nm_ies demo_context) = Some [(''t'', Some ''dif''), (''u'', None)]"
    "last_ie key_of (nm_ies demo_context) = Some (replicate 32 (CHR ''k''))"
    by (simp_all add: demo_context_def last_ie_Cons)
  have z: "fresh_session demo_user" "ns_nextHopChainingCount demo_user = 0"
    by (simp_all add: fresh_session_def demo_user_def new_NgapSession_def MAX_SECURITY_CONTEXT_LEN_def)
  obtain s where s: "Option.bind (update_user (nm_ies demo_context) demo_user) (put_key (last_ie key_of (nm_ies demo_context))) = Some s"
      "ns_vecPduSessionID s = replicate MAX_PDU_SESSION_SIZE INVALID_PDU_SESSION_ID"
    using c by (auto simp: update_user_def put_user_rate_def put_nssai_def put_guami_def put_algorithms_def be16_def id_bytes_def
        PLMN_ID_LEN_def demo_user_def new_NgapSession_def or_sd_def put_key_def MAX_SECURITY_CONTEXT_LEN_def)
  let ?R = "put_rgw demo_relay (rgw demo_relay\<lparr>sg_ngaps := (sg_ngaps (rgw demo_relay))(50 \<mapsto> s)\<rparr>)"
  have set: "set_sess (rgw demo_relay) 50 (\<lambda>s. do { s \<leftarrow> update_user (nm_ies demo_context) s; put_key (last_ie key_of (nm_ies demo_context)) s }) =
      Some (rgw demo_relay\<lparr>sg_ngaps := (sg_ngaps (rgw demo_relay))(50 \<mapsto> s)\<rparr>)"
    unfolding set_sess_def using s(1) demo_known(2) by (cases "update_user (nm_ies demo_context) demo_user") simp_all
  obtain R where r: "AMF_InitialContextSetupReq_UpdateNgapSess demo_relay demo_context = Some (R, True)"
      "sg_ngaps (rgw R) 50 = Some s" "GetNgapSession (rgw R) 3 = Some 50"
  proof
    show "AMF_InitialContextSetupReq_UpdateNgapSess demo_relay demo_context = Some (?R, True)"
      unfolding AMF_InitialContextSetupReq_UpdateNgapSess_def using set c(1) demo_known(1) by simp
    show "sg_ngaps (rgw ?R) 50 = Some s" "GetNgapSession (rgw ?R) 3 = Some 50"
      by (simp_all add: put_rgw_def demo_relay_def GetNgapSession_def)
  qed
  obtain R'' where h: "SendHandoverRequest env R ?m (Some ''node'') = Some (R'', True)"
    using r s by (auto simp: SendHandoverRequest_def no_pdu_items Let_def)
  have g: "GetNgapSession (rgw demo_relay) (nm_sessId demo_context) = Some 50" using c demo_known by simp
  have q: "byte_char (char_byte (CHR ''0'') mod 64) = CHR ''0''" by (simp add: char_of_eq_iff)
  have m: "nm_sessId ?m = nm_sessId demo_context" using c(1) by simp
  from handover_passes_on_user [OF r(1) g demo_known(2) z(1) demo_describes h m]
  obtain m where m: "sg_calls (rgw R'') = sg_calls (rgw R) @ [SendDownLayerSctp m]" "nm_sockTarget m = 6"
    "{IE_UEAggregateMaximumBitRate 7 8, IE_UESecurityCapabilities ''ab'' ''cd'' ''ef'' ''gh'', IE_SourceToTarget ''node'',
       IE_SecurityContext 0 (replicate 32 (CHR ''k'')), IE_AllowedNSSAI [(''t'', Some ''dif'')],
       IE_GUAMI ''plm'' ''r'' ''se'' [CHR ''0'']} \<subseteq> set (nm_ies m)"
    using q by (auto simp: demo_described_def z(2) sd_bytes_def)
  show "\<exists>R R'' m. AMF_InitialContextSetupReq_UpdateNgapSess demo_relay demo_context = Some (R, True) \<and>
     SendHandoverRequest env R ?m (Some ''node'') = Some (R'', True) \<and>
     sg_calls (rgw R'') = sg_calls (rgw R) @ [SendDownLayerSctp m] \<and> nm_sockTarget m = 6 \<and>
     {IE_UEAggregateMaximumBitRate 7 8, IE_UESecurityCapabilities ''ab'' ''cd'' ''ef'' ''gh'', IE_SourceToTarget ''node'',
       IE_SecurityContext 0 (replicate 32 (CHR ''k'')), IE_AllowedNSSAI [(''t'', Some ''dif'')],
       IE_GUAMI ''plm'' ''r'' ''se'' [CHR ''0'']} \<subseteq> set (nm_ies m)"
    by (intro exI [of _ R] exI [of _ R''] exI [of _ m] conjI r(1) h m)
qed

theorem node_id_witness:
  "\<forall>env c. \<exists>q. vp_gNBid q = 300 \<and>
     (\<exists>c' e. HandleGlobalRANNodeID (env\<lparr>re_vgw := \<lambda>_. Some q, re_bplmns := \<lambda>_. Some []\<rparr>) (node_id_ie q) c = Some (c', NGAP_CHECK_RNI_OK) \<and>
       ec_ranNodeId c' = RanNodeId no_plmn RNT_GNB_ID e 300)"
proof (intro allI)
  fix env c
  let ?q = "\<lparr>vp_AMFName = ''amf'', vp_AMFCapacity = 1, vp_gNBid = 300, vp_gNBName = [], vp_Plmn = no_plmn, vp_DRX = 0,
    vp_gNBType = CFG_GNB, vp_ngeNBType = CFG_NGE_other\<rparr>"
  show "\<exists>q. vp_gNBid q = 300 \<and>
     (\<exists>c' e. HandleGlobalRANNodeID (env\<lparr>re_vgw := \<lambda>_. Some q, re_bplmns := \<lambda>_. Some []\<rparr>) (node_id_ie q) c = Some (c', NGAP_CHECK_RNI_OK) \<and>
       ec_ranNodeId c' = RanNodeId no_plmn RNT_GNB_ID e 300)"
    using node_id_understood [of ?q "env\<lparr>re_vgw := \<lambda>_. Some ?q, re_bplmns := \<lambda>_. Some []\<rparr>" c ?q "[]"]
    by (intro exI [of _ ?q]) auto
qed

end
