(* ===== verification/Spec2Isabelle.thy ===== *)
theory Spec2Isabelle
  imports Prelude Rb_Heap Rb_Tree Rb_Insert Rb_Delete Rb_Queue Timer Utils Line_Fields
    Event_Object Json Json_Number Event_Json Fast_Event Event_Bus Buffers Api Media_Context Gtp_Path
    Gateway_Events Media_Sig Node_Ids Ngap_Sess Pdu_Sess Sess_Setup Sig_Laws
    Ngap_Ies Ngap_Relay Sig_Links Apm Epm Tunnels Sig_Handover Nsm Relay_Ok
    Relay_Laws Link_Laws Handover_Laws
begin

text \<open>
  Verification library for the AGC framework: a C runtime (trees, timers, events, JSON, commands) and, on
  top of it, a gateway of the 5G core network in two modules, \<open>mod_sig\<close> (C++), which relays NGAP signalling
  between AMFs and radio nodes, and \<open>mod_media\<close> (C), which forwards the GTP packets of the users. The two
  modules talk to each other with events of the runtime, which a message broker carries as JSON.

  \<^bold>\<open>Conventions\<close> (Prelude, Buffers). A pointer is a natural number, 0 is the null pointer, an allocator never
  gives an address twice. A computation that would read or write outside of what it owns (a null pointer, a
  freed object, an index behind a table, a byte behind a buffer) is \<^term>\<open>None\<close>, and so is one that does not
  return; a result the code itself reports (a status, \<open>false\<close>) is an ordinary value. Machine integers are
  words, or natural numbers with \<open>mod\<close> written out, where their width matters. Memory that is not initialised
  is an arbitrary parameter (\<open>junk\<close>, \<open>se_stack\<close>, \<open>re_junk\<close>). Logging is left out, except where it reads
  something that is not there.

  \<^bold>\<open>The runtime\<close> (src/src).
  \<^item> Rb_Heap, Rb_Tree, Rb_Insert, Rb_Delete, Rb_Queue: agc_rbtree.c and agc_rbtree.h, with the nodes in memory.
    Both insertions, the deletion with its fixup and the walks refine functional trees; colours, order and
    balance are invariants of those. \<open>ordered_queue\<close> is the contract that clients use.
  \<^item> Timer: agc_timer.c. \<open>timer_state\<close> is the tree and the events; a round of the dispatch thread is two
    steps, because the thread gives the mutex away in between.
  \<^item> Utils, Line_Fields: agc_utils.c; the case conversions by whole words, the numbers, and the cutting of a
    line into fields in place.
  \<^item> Event_Object, Fast_Event, Event_Json, Event_Bus: agc_event.c. Headers are a linked list in a store of
    addresses, which refines an association list (\<open>header_table\<close>); fast events are slices of one buffer; the
    bus is a step relation over its sources, queues, subscribers and dispatch threads.
  \<^item> Json, Json_Number: agc_json.c, both directions. Json has the grammar, for any reading and printing of
    numbers; Json_Number has those of the code, \<open>parse_number\<close> and \<open>print_number\<close> in \<open>double\<close> arithmetic,
    and the round trip with them.
  \<^item> Api: agc_api.c; the registry, a line of commands, and the stream that grows: texts and raw bytes in any
    order refine \<open>written\<close>, the effect of the writes one after the other.

  \<^bold>\<open>The media gateway\<close> (src/src/mod/gateways/mod_media).
  \<^item> Media_Context: media_context.c and the sockets of agc_gtp_path.c; sessions, their four tunnels (one
    \<open>locale\<close> for a tunnel, one for a pair over both address families) and the counted references to sockets. The
    steps are labelled with the references that a session loses when it opens its tunnels again, which a
    repeated set-up and a handover do; \<open>media_run\<close> collects them. Media_Sig shows that the handler of every
    request is such a run (\<open>request_is_run\<close>).
  \<^item> Gtp_Path: media_gtp_path.c and media_tun_path.c; what happens to a packet, byte by byte.
  \<^item> Gateway_Events, Media_Sig: media_sig_path.c and the headers that both modules share.

  \<^bold>\<open>The signalling gateway\<close> (src/src/mod/gateways/mod_sig).
  \<^item> Node_Ids: PlmnUtil.cc, RanNodeId.cc, Tai.cc. Radio nodes are an instance of \<open>linorder\<close>.
  \<^item> Ngap_Ies, Ngap_Sess: NgapMessage.h with the information elements the handlers read, NgapSession.h and
    NgapSessManager.cc.
  \<^item> Pdu_Sess: PduSessManager.cc and sig_media_path.cc. What a manager asks of another one is written to the
    log \<open>sg_calls\<close>; Nsm runs it. Timers of sessions have different durations, so \<open>run_timer\<close> fires any of the
    pending ones.
  \<^item> Ngap_Relay, Sig_Links: EsmManager.cc, AsmManager.cc and the translation of user identifiers. The state
    \<open>relay\<close> is the associations (\<open>ran_net\<close>) beside the sessions with their bus.
  \<^item> Apm, Epm, Tunnels, Sig_Handover: ApmManager.cc, EpmManager.cc and the messages that EsmManager.cc and
    AsmManager.cc build. Every handler of the two files is one definition of type \<open>handler\<close>, with the name
    it has there.
  \<^item> Nsm: NsmManager.cc and NgapProtocol.cc; the tables of handlers, a packet from its association to its
    handler, the timers, and the continuation of a kept message when the media gateway has answered.

  \<^bold>\<open>What the lemmas show.\<close>
  \<^item> Refinement: the tree in memory against functional trees, headers against association lists, the stream
    against the text it holds, the exchange between both modules (Sess_Setup) against its effect on both.
  \<^item> Invariants under every order of steps: one source keeps its order (Event_Bus), events of a pool are
    neither lost nor doubled (Fast_Event), sockets are counted (Media_Context), the tables of sessions are
    consistent (Sig_Laws, where the writes of the managers to a user are a step as well), and they stay so under every message of the network, every loss of an association
    and every timer (Relay_Ok, Link_Laws). For the latter \<open>post\<close> is a weakest precondition for computations
    that may fail, with a rule for each of their combinators.
  \<^item> Relaying (Relay_Laws, Link_Laws, Handover_Laws): the handler that a message reaches, the elements that a
    relayed message keeps, the way of an answer back to who asked, the first message of a user, broadcasts,
    and handovers inside the gateway. \<open>callback_table\<close> and \<open>relay_side\<close> are proved once and interpreted for
    the two directions.
  \<^item> Round trips: JSON, events as JSON, fields of a line, packets through the local break out, identifiers of
    networks and nodes.
  \<^item> Errors: where the code does not do what it means to, a theorem says on which states that happens and
    what happens then. The properties of kind \<open>error\<close> are these.

  \<^bold>\<open>Bounds.\<close> Loops over memory that may be cyclic are \<open>partial_function (option)\<close>, so a loop that does not end
  is \<^term>\<open>None\<close>, and every property that such a loop returns is proved as such. The parser of Json takes fuel for the depth
  of its recursion; \<open>json_parse_ends\<close> shows that a bound linear in the length of the text is enough. Tables
  have the sizes of the code (\<open>MAX_SIG_SESSIONS\<close>, \<open>MAX_MEDIA_SESSIONS\<close>, \<open>MAX_AMF_SESSIONS\<close>, \<open>MAX_ESM_SESSIONS\<close>).

  \<^bold>\<open>Parameters.\<close> The ASN.1 library (decoder, encoder, the codecs of the containers, the numbers of the
  procedures), the configuration in the database, the conversion of IPv6 addresses, random numbers and host
  name, the function of a command, the contents of uninitialised memory, and what the C standard leaves open
  for numbers (the record \<open>libc\<close>; only \<open>pow(10, 0) = 1\<close> is asked of it). Of the numbers of the procedures
  it is asked only that they tell the known procedures apart and fit into 8 bits (\<open>numbers_ok\<close>).

  \<^bold>\<open>Not modelled.\<close> The wrappers of operating system and libraries (agc_apr.c, agc_core*.c, agc_odbc.c, agc_db.c,
  agc_sql.c, agc_cache.c, agc_driver.c, agc_connection.c, agc_sctp.c, agc_tun.c, agc_module.c, agc_dso.c,
  agc_config.c, agc_log.c), the functions of agc_json.c that edit a tree in place, formatted printing (agc_mprintf.c), the modules for SQLite, Redis, RabbitMQ,
  epoll, log files and the event socket, the management commands and SQL queries of both gateways
  (SigApi.cc, mod_sig.cc, DbManager.cc, CfgHelper.cc, mod_media.c, media_db.c), SctpLayer.cc, alarms, the
  IPsec and system information modules, the ESL library and the tests: they call
  code that is not here, or keep sockets, rows and threads of it. Two functions that nothing calls are left out as well:
  \<open>GNB_GetInfoFromS2TTransparentContainer\<close> and \<open>EsmManager::SendPathSwitchReqAck\<close>.
\<close>

end
